(* ===== verification/OcPrelude.thy ===== *)
theory OcPrelude
  imports Main "HOL-Library.Word"
begin

text \<open>
  Shared vocabulary of the development: the machine integers of the C sources, byte buffers,
  and the generic facts on lists and buffers that the component theories use.

  \<^item> \<open>uint8_t\<close>, \<open>uint16_t\<close>, \<open>uint32_t\<close>, \<open>uint64_t\<close> are words of that width, so that their
    arithmetic wraps as in C.
  \<^item> \<open>size_t\<close> counters and array indices are natural numbers; where a subtraction or an addition
    could leave the range of the C type, the definition writes the guard or the wrap-around out.
  \<^item> A pointer into an object is an index, \<open>NULL\<close> is \<^const>\<open>None\<close>.
\<close>

unbundle bit_operations_syntax

type_synonym u8 = "8 word"
type_synonym u16 = "16 word"
type_synonym u32 = "32 word"
type_synonym u64 = "64 word"
type_synonym bytes = "8 word list"

text \<open>Facts on buffers: reading a slice and overwriting a slice in place.\<close>

named_theorems buffer_simps

definition bslice :: "'a list \<Rightarrow> nat \<Rightarrow> nat \<Rightarrow> 'a list" where
  "bslice xs i n = take n (drop i xs)"

text \<open>\<open>memcpy (dst + i, src, n)\<close>: the bytes \<open>vs\<close> replace the cells from \<open>i\<close> on.\<close>

definition write_at :: "'a list \<Rightarrow> nat \<Rightarrow> 'a list \<Rightarrow> 'a list" where
  "write_at xs i vs = take i xs @ vs @ drop (i + length vs) xs"

lemma length_bslice [buffer_simps]: "length (bslice xs i n) = min n (length xs - i)"
  by (simp add: bslice_def)

lemma bslice_full [buffer_simps]: "i + n \<le> length xs \<Longrightarrow> length (bslice xs i n) = n"
  by (simp add: bslice_def)

lemma bslice_0 [simp]: "bslice xs i 0 = []"
  by (simp add: bslice_def)

lemma bslice_append_left: "i + n \<le> length xs \<Longrightarrow> bslice (xs @ ys) i n = bslice xs i n"
  by (simp add: bslice_def)

lemma bslice_append_right: "bslice (xs @ ys) (length xs + i) n = bslice ys i n"
  by (simp add: bslice_def)

lemma bslice_middle: "bslice (xs @ ys @ zs) (length xs) (length ys) = ys"
  by (simp add: bslice_def)

lemma bslice_Suc: "i < length xs \<Longrightarrow> bslice xs i (Suc n) = xs ! i # bslice xs (Suc i) n"
  by (simp add: bslice_def Cons_nth_drop_Suc [symmetric])

lemma bslice_add: "bslice xs i (m + n) = bslice xs i m @ bslice xs (i + m) n"
  by (simp add: bslice_def take_add add.commute)

lemma nth_bslice: "j < n \<Longrightarrow> i + j < length xs \<Longrightarrow> bslice xs i n ! j = xs ! (i + j)"
  by (simp add: bslice_def)

lemma length_write_at [buffer_simps]:
  "i + length vs \<le> length xs \<Longrightarrow> length (write_at xs i vs) = length xs"
  by (simp add: write_at_def)

lemma drop_write_at:
  assumes "i + length vs \<le> length xs" and "i + length vs \<le> k"
  shows "drop k (write_at xs i vs) = drop k xs"
  using assms by (simp add: write_at_def)

lemma bslice_write_at_after:
  assumes "i + length vs \<le> length xs" and "i + length vs \<le> k"
  shows "bslice (write_at xs i vs) k n = bslice xs k n"
  by (simp add: bslice_def drop_write_at [OF assms])

lemma bslice_write_at_before:
  "k + n \<le> i \<Longrightarrow> i \<le> length xs \<Longrightarrow> bslice (write_at xs i vs) k n = bslice xs k n"
  by (auto simp: bslice_def write_at_def drop_take min_def)

lemma bslice_write_at_same:
  "i + length vs \<le> length xs \<Longrightarrow> bslice (write_at xs i vs) i (length vs) = vs"
  by (simp add: bslice_def write_at_def)

lemma nth_write_at_before: "k < i \<Longrightarrow> i \<le> length xs \<Longrightarrow> write_at xs i vs ! k = xs ! k"
  by (simp add: write_at_def nth_append)

lemma nth_write_at_after:
  assumes "i + length vs \<le> k" and "k < length xs"
  shows "write_at xs i vs ! k = xs ! k"
  using assms by (auto simp: write_at_def nth_append)

lemma nth_write_at:
  assumes "i + length vs \<le> length xs" and "k < length xs"
  shows "write_at xs i vs ! k = (if i \<le> k \<and> k < i + length vs then vs ! (k - i) else xs ! k)"
  using assms by (auto simp: write_at_def nth_append)

lemma length_write_bslice [buffer_simps]:
  "i + n \<le> length xs \<Longrightarrow> length (write_at xs i (bslice ys s n)) = length xs"
  by (rule length_write_at) (simp add: bslice_def)

lemma nth_write_bslice:
  assumes "i + n \<le> length xs" and "s + n \<le> length xs" and "k < length xs"
  shows "write_at xs i (bslice xs s n) ! k = (if i \<le> k \<and> k < i + n then xs ! (s + (k - i)) else xs ! k)"
proof -
  have "length (bslice xs s n) = n" using assms(2) by (simp add: bslice_def)
  with assms show ?thesis by (auto simp: nth_write_at nth_bslice)
qed

lemma write_at_Nil [simp]: "write_at xs i [] = xs"
  by (simp add: write_at_def)

lemma write_at_update: "i < length xs \<Longrightarrow> write_at (xs[i := x]) (Suc i) ys = write_at xs i (x # ys)"
  by (simp add: write_at_def upd_conv_take_nth_drop min_def add.commute)

lemma write_at_append:
  "i + length ys \<le> length xs \<Longrightarrow> write_at (write_at xs i ys) (i + length ys) zs = write_at xs i (ys @ zs)"
  by (simp add: write_at_def ac_simps)

lemma drop_eq_ConsD: "drop i xs = y # ys \<Longrightarrow> i < length xs \<and> xs ! i = y \<and> drop (Suc i) xs = ys"
  by (metis Cons_nth_drop_Suc drop_eq_Nil list.distinct(1) list.inject not_le)

text \<open>Bytes, bit by bit.\<close>

lemma byte_eqI:
  fixes v w :: u8
  assumes "bit v 0 = bit w 0" "bit v 1 = bit w 1" "bit v 2 = bit w 2" "bit v 3 = bit w 3"
    "bit v 4 = bit w 4" "bit v 5 = bit w 5" "bit v 6 = bit w 6" "bit v 7 = bit w 7"
  shows "v = w"
proof (rule bit_word_eqI)
  fix n assume "n < LENGTH(8)"
  then have "n \<in> {0, 1, 2, 3, 4, 5, 6, 7}" by auto
  with assms show "bit v n = bit w n" by auto
qed

lemma byte_high_bit [simp]: "8 \<le> n \<Longrightarrow> \<not> bit (w :: u8) n"
  using bit_imp_le_length [of w n] by auto

lemma byte_lt_64:
  fixes w :: u8
  assumes "\<not> bit w 6" and "\<not> bit w 7"
  shows "unat w < 64"
proof -
  have "take_bit 6 w = w" by (rule byte_eqI) (use assms in \<open>simp_all add: bit_simps\<close>)
  then have "take_bit 6 (unat w) = unat w" by (metis unsigned_take_bit_eq)
  then show ?thesis using take_bit_nat_less_exp [of 6 "unat w"] by simp
qed

text \<open>Running a partial operation over a list, and collecting the results of a repeated one.\<close>

primrec foldM :: "('s \<Rightarrow> 'a \<Rightarrow> 's option) \<Rightarrow> 's \<Rightarrow> 'a list \<Rightarrow> 's option" where
  "foldM f s [] = Some s"
| "foldM f s (x # xs) = (case f s x of None \<Rightarrow> None | Some s' \<Rightarrow> foldM f s' xs)"

primrec repeat_op :: "('s \<Rightarrow> 'r \<times> 's) \<Rightarrow> nat \<Rightarrow> 's \<Rightarrow> 'r list \<times> 's" where
  "repeat_op f 0 s = ([], s)"
| "repeat_op f (Suc n) s =
     (case f s of (r, s1) \<Rightarrow> (case repeat_op f n s1 of (rs, s2) \<Rightarrow> (r # rs, s2)))"

subsection \<open>Invariants of step relations\<close>

locale stepwise_invariant =
  fixes step :: "'s \<Rightarrow> 's \<Rightarrow> bool"
    and inv :: "'s \<Rightarrow> bool"
  assumes step_keeps: "step s s' \<Longrightarrow> inv s \<Longrightarrow> inv s'"
begin

lemma reachable_inv:
  assumes "step\<^sup>*\<^sup>* s s'" and "inv s"
  shows "inv s'"
  using assms by (induction rule: rtranclp_induct) (auto intro: step_keeps)

end

text \<open>
  A store of grants: adding inserts one grant, clearing removes all. After a clearing and a
  sequence of additions the store holds exactly the grants of the sequence.
\<close>

locale grant_store =
  fixes inv :: "'s \<Rightarrow> bool"
    and grants :: "'s \<Rightarrow> 'g set"
    and fits :: "'r \<Rightarrow> bool"
    and grant :: "'r \<Rightarrow> 'g"
    and add :: "'r \<Rightarrow> 's \<Rightarrow> 's option"
    and clear :: "'s \<Rightarrow> 's"
  assumes add_grants: "inv s \<Longrightarrow> fits r \<Longrightarrow> add r s = Some s' \<Longrightarrow> grants s' = insert (grant r) (grants s)"
    and add_inv: "inv s \<Longrightarrow> fits r \<Longrightarrow> add r s = Some s' \<Longrightarrow> inv s'"
    and clear_grants: "grants (clear s) = {}"
    and clear_inv: "inv (clear s)"
begin

lemma add_none: "fold (\<lambda>r t. Option.bind t (add r)) rs None = None"
  by (induction rs) simp_all

lemma add_grants_all:
  assumes "inv s" and "\<forall>r \<in> set rs. fits r" and "fold (\<lambda>r t. Option.bind t (add r)) rs (Some s) = Some s'"
  shows "grants s' = grants s \<union> grant ` set rs \<and> inv s'"
  using assms
proof (induction rs arbitrary: s)
  case (Cons r rs)
  then obtain t where t: "add r s = Some t"
    by (cases "add r s") (simp_all add: add_none)
  with Cons.prems have "grants s' = grants t \<union> grant ` set rs \<and> inv s'"
    by (intro Cons.IH) (auto intro: add_inv)
  with add_grants [OF Cons.prems(1) _ t] Cons.prems(2) show ?case
    by simp
qed simp

lemma rebuilt:
  assumes "\<forall>r \<in> set rs. fits r" and "fold (\<lambda>r t. Option.bind t (add r)) rs (Some (clear s)) = Some s'"
  shows "grants s' = grant ` set rs"
  using add_grants_all [OF clear_inv assms] by (simp add: clear_grants)

end

end
