(* ===== verification/OcList.thy ===== *)
theory OcList
  imports OcPrelude
begin

text \<open>
  The intrusive singly linked lists of \<open>util/oc_list.c\<close>, at the level of their pointers. A node
  is an address, \<open>*list\<close> is the head pointer, and the \<open>next\<close> member of every node is kept in one
  store, so that adding, inserting and unlinking act on the shared cells as the C code does. The
  walks over \<open>next\<close> may run forever on a cyclic list: they are partial functions and \<^const>\<open>None\<close>
  is ``does not return''. The operations are then shown to implement sequence operations on the
  list of nodes that the pointers represent.
\<close>

type_synonym node = nat
type_synonym nodeptr = "nat option"

record oc_list_t =
  list_head :: nodeptr
  list_next :: "node \<Rightarrow> nodeptr"

abbreviation set_next :: "oc_list_t \<Rightarrow> node \<Rightarrow> nodeptr \<Rightarrow> oc_list_t" where
  "set_next s n p \<equiv> s\<lparr>list_next := (list_next s)(n := p)\<rparr>"

definition oc_list_init :: "oc_list_t \<Rightarrow> oc_list_t" where
  "oc_list_init s = s\<lparr>list_head := None\<rparr>"

definition oc_list_head :: "oc_list_t \<Rightarrow> nodeptr" where
  "oc_list_head s = list_head s"

text \<open>\<open>for (l = *list; l->next != NULL; l = l->next);\<close>\<close>

partial_function (option) last_node :: "(node \<Rightarrow> nodeptr) \<Rightarrow> node \<Rightarrow> node option" where
  "last_node nx l = (case nx l of None \<Rightarrow> Some l | Some l' \<Rightarrow> last_node nx l')"

definition oc_list_tail :: "oc_list_t \<Rightarrow> nodeptr option" where
  "oc_list_tail s = (case list_head s of
     None \<Rightarrow> Some None
   | Some l \<Rightarrow> map_option Some (last_node (list_next s) l))"

definition oc_list_add :: "oc_list_t \<Rightarrow> node \<Rightarrow> oc_list_t option" where
  "oc_list_add s item =
     (let s1 = set_next s item None
      in case oc_list_tail s1 of
           None \<Rightarrow> None
         | Some None \<Rightarrow> Some (s1\<lparr>list_head := Some item\<rparr>)
         | Some (Some l) \<Rightarrow> Some (set_next s1 l (Some item)))"

definition oc_list_push :: "oc_list_t \<Rightarrow> node \<Rightarrow> oc_list_t" where
  "oc_list_push s item = (set_next s item (list_head s))\<lparr>list_head := Some item\<rparr>"

definition oc_list_insert :: "oc_list_t \<Rightarrow> nodeptr \<Rightarrow> node \<Rightarrow> oc_list_t" where
  "oc_list_insert s previtem newitem =
     (case previtem of
        None \<Rightarrow> oc_list_push s newitem
      | Some prev \<Rightarrow>
          (let s1 = set_next s newitem (list_next s prev)
           in set_next s1 prev (Some newitem)))"

text \<open>\<open>for (l = *list; l->next->next != NULL; l = l->next);\<close> reached with \<open>l->next\<close> set.\<close>

partial_function (option) last_but_one :: "(node \<Rightarrow> nodeptr) \<Rightarrow> node \<Rightarrow> (node \<times> node) option" where
  "last_but_one nx l = (case nx l of
     None \<Rightarrow> None
   | Some r \<Rightarrow> (case nx r of None \<Rightarrow> Some (l, r) | Some _ \<Rightarrow> last_but_one nx r))"

definition oc_list_chop :: "oc_list_t \<Rightarrow> (nodeptr \<times> oc_list_t) option" where
  "oc_list_chop s = (case list_head s of
     None \<Rightarrow> Some (None, s)
   | Some h \<Rightarrow>
       (case list_next s h of
          None \<Rightarrow> Some (Some h, s\<lparr>list_head := None\<rparr>)
        | Some _ \<Rightarrow>
            (case last_but_one (list_next s) h of
               None \<Rightarrow> None
             | Some (l, r) \<Rightarrow> Some (Some r, set_next s l None))))"

definition oc_list_pop :: "oc_list_t \<Rightarrow> nodeptr \<times> oc_list_t" where
  "oc_list_pop s = (case list_head s of
     None \<Rightarrow> (None, s)
   | Some l \<Rightarrow> (Some l, set_next (s\<lparr>list_head := list_next s l\<rparr>) l None))"

text \<open>
  \<open>oc_list_remove2\<close> walks with a pointer to the cell that holds the current link: the head
  variable first (\<open>None\<close>), then the \<open>next\<close> member of the node visited last.
\<close>

definition link_cell :: "oc_list_t \<Rightarrow> nodeptr \<Rightarrow> nodeptr" where
  "link_cell s c = (case c of None \<Rightarrow> list_head s | Some n \<Rightarrow> list_next s n)"

definition set_link_cell :: "oc_list_t \<Rightarrow> nodeptr \<Rightarrow> nodeptr \<Rightarrow> oc_list_t" where
  "set_link_cell s c p = (case c of None \<Rightarrow> s\<lparr>list_head := p\<rparr> | Some n \<Rightarrow> set_next s n p)"

partial_function (option) remove_from :: "oc_list_t \<Rightarrow> nodeptr \<Rightarrow> node \<Rightarrow> (nodeptr \<times> oc_list_t) option" where
  "remove_from s c item = (case link_cell s c of
     None \<Rightarrow> Some (None, s)
   | Some l \<Rightarrow>
       if l = item then Some (Some l, set_next (set_link_cell s c (list_next s l)) l None)
       else remove_from s (Some l) item)"

definition oc_list_remove2 :: "oc_list_t \<Rightarrow> node \<Rightarrow> (nodeptr \<times> oc_list_t) option" where
  "oc_list_remove2 s item = remove_from s None item"

definition oc_list_remove :: "oc_list_t \<Rightarrow> node \<Rightarrow> oc_list_t option" where
  "oc_list_remove s item = map_option snd (oc_list_remove2 s item)"

partial_function (option) count_nodes :: "(node \<Rightarrow> nodeptr) \<Rightarrow> nodeptr \<Rightarrow> nat \<Rightarrow> nat option" where
  "count_nodes nx l n = (case l of None \<Rightarrow> Some n | Some a \<Rightarrow> count_nodes nx (nx a) (Suc n))"

definition oc_list_length :: "oc_list_t \<Rightarrow> nat option" where
  "oc_list_length s = count_nodes (list_next s) (list_head s) 0"

partial_function (option) find_node :: "(node \<Rightarrow> nodeptr) \<Rightarrow> nodeptr \<Rightarrow> node \<Rightarrow> bool option" where
  "find_node nx l item = (case l of
     None \<Rightarrow> Some False
   | Some a \<Rightarrow> if a = item then Some True else find_node nx (nx a) item)"

definition oc_list_has_item :: "oc_list_t \<Rightarrow> node \<Rightarrow> bool option" where
  "oc_list_has_item s item = find_node (list_next s) (list_head s) item"

definition oc_list_item_next :: "oc_list_t \<Rightarrow> nodeptr \<Rightarrow> nodeptr" where
  "oc_list_item_next s item = (case item of None \<Rightarrow> None | Some n \<Rightarrow> list_next s n)"

subsection \<open>The sequence a pointer structure represents\<close>

fun chain :: "(node \<Rightarrow> nodeptr) \<Rightarrow> nodeptr \<Rightarrow> node list \<Rightarrow> bool" where
  "chain nx p [] = (p = None)"
| "chain nx p (x # xs) = (p = Some x \<and> chain nx (nx x) xs)"

definition list_repr :: "oc_list_t \<Rightarrow> node list \<Rightarrow> bool" where
  "list_repr s xs = chain (list_next s) (list_head s) xs"

lemma chain_upd [simp]: "n \<notin> set xs \<Longrightarrow> chain (nx(n := q)) p xs = chain nx p xs"
  by (induction xs arbitrary: p) auto

lemma chain_unique: "chain nx p xs \<Longrightarrow> chain nx p ys \<Longrightarrow> xs = ys"
proof (induction xs arbitrary: p ys)
  case Nil
  then show ?case by (cases ys) auto
next
  case (Cons x xs)
  then show ?case by (cases ys) auto
qed

lemma chain_suffix: "chain nx p (xs @ y # ys) \<Longrightarrow> chain nx (nx y) ys"
  by (induction xs arbitrary: p) auto

text \<open>A chain ends, so no node occurs twice on it.\<close>

lemma chain_distinct: "chain nx p xs \<Longrightarrow> distinct xs"
proof (induction xs arbitrary: p)
  case (Cons x xs)
  have "x \<notin> set xs"
  proof
    assume "x \<in> set xs"
    then obtain as bs where xs: "xs = as @ x # bs" by (auto dest: split_list)
    from Cons.prems have c: "chain nx (nx x) (as @ x # bs)" by (simp add: xs)
    then have "chain nx (nx x) bs" by (rule chain_suffix)
    with c have "bs = as @ x # bs" by (auto dest: chain_unique)
    then show False by (auto dest: arg_cong [where f = length])
  qed
  with Cons show ?case by auto
qed simp

text \<open>Redirecting one link replaces the rest of the chain: all the mutators are instances.\<close>

lemma chain_relink:
  assumes "chain nx p (xs @ l # ys)" and "chain nx q zs" and "l \<notin> set zs"
  shows "chain (nx(l := q)) p (xs @ l # zs)"
proof -
  from chain_distinct [OF assms(1)] have "l \<notin> set xs" by auto
  with assms show ?thesis by (induction xs arbitrary: p) auto
qed

lemma last_node_chain: "chain nx (Some x) (x # xs) \<Longrightarrow> last_node nx x = Some (last (x # xs))"
proof (induction xs arbitrary: x)
  case Nil
  then show ?case by (simp add: last_node.simps)
next
  case (Cons y ys)
  then show ?case by (simp add: last_node.simps [of nx x])
qed

lemma last_but_one_chain:
  "chain nx (Some x) (x # xs @ [r]) \<Longrightarrow> last_but_one nx x = Some (last (x # xs), r)"
proof (induction xs arbitrary: x)
  case Nil
  then show ?case by (simp add: last_but_one.simps)
next
  case (Cons y ys)
  then have "nx x = Some y" and "nx y \<noteq> None" by (cases ys; simp)+
  with Cons show ?case by (auto simp: last_but_one.simps [of nx x])
qed

lemma count_nodes_chain: "chain nx p xs \<Longrightarrow> count_nodes nx p n = Some (n + length xs)"
  by (induction xs arbitrary: p n) (auto simp: count_nodes.simps)

lemma find_node_chain: "chain nx p xs \<Longrightarrow> find_node nx p a = Some (a \<in> set xs)"
  by (induction xs arbitrary: p) (auto simp: find_node.simps)

subsection \<open>Each operation on the represented sequence\<close>

lemma list_reprD: "list_repr s xs \<Longrightarrow> distinct xs"
  by (auto simp: list_repr_def dest: chain_distinct)

lemma list_repr_unique: "list_repr s xs \<Longrightarrow> list_repr s ys \<Longrightarrow> xs = ys"
  by (auto simp: list_repr_def dest: chain_unique)

lemma list_repr_init: "list_repr (oc_list_init s) []"
  by (simp add: list_repr_def oc_list_init_def)

lemma list_repr_head: "list_repr s xs \<Longrightarrow> oc_list_head s = (case xs of [] \<Rightarrow> None | x # _ \<Rightarrow> Some x)"
  by (cases xs) (auto simp: list_repr_def oc_list_head_def)

lemma list_repr_tail:
  assumes "list_repr s xs"
  shows "oc_list_tail s = Some (if xs = [] then None else Some (last xs))"
proof (cases xs)
  case Nil
  with assms show ?thesis by (simp add: list_repr_def oc_list_tail_def)
next
  case (Cons h hs)
  with assms have h: "list_head s = Some h" and c: "chain (list_next s) (Some h) (h # hs)"
    by (auto simp: list_repr_def)
  from last_node_chain [OF c] h Cons show ?thesis by (simp add: oc_list_tail_def)
qed

lemma list_repr_length: "list_repr s xs \<Longrightarrow> oc_list_length s = Some (length xs)"
  by (simp add: list_repr_def oc_list_length_def count_nodes_chain)

lemma list_repr_has_item: "list_repr s xs \<Longrightarrow> oc_list_has_item s x = Some (x \<in> set xs)"
  by (simp add: list_repr_def oc_list_has_item_def find_node_chain)

lemma list_repr_item_next:
  assumes "list_repr s (xs @ x # ys)"
  shows "oc_list_item_next s (Some x) = (case ys of [] \<Rightarrow> None | y # _ \<Rightarrow> Some y)"
proof -
  from assms have "chain (list_next s) (list_next s x) ys"
    unfolding list_repr_def by (rule chain_suffix)
  then show ?thesis by (cases ys) (auto simp: oc_list_item_next_def)
qed

lemma list_repr_add:
  assumes r: "list_repr s xs" and new: "x \<notin> set xs"
  shows "\<exists>s'. oc_list_add s x = Some s' \<and> list_repr s' (xs @ [x])"
proof -
  let ?s1 = "set_next s x None"
  from r new have r1: "list_repr ?s1 xs" by (simp add: list_repr_def)
  show ?thesis
  proof (cases xs rule: rev_cases)
    case Nil
    with r1 show ?thesis
      by (simp add: oc_list_add_def Let_def list_repr_tail [OF r1] list_repr_def)
  next
    case (snoc ys l)
    from r1 have "chain (list_next ?s1) (list_head ?s1) (ys @ l # [])"
      by (simp add: list_repr_def snoc)
    then have "chain ((list_next ?s1)(l := Some x)) (list_head ?s1) (ys @ l # [x])"
      by (rule chain_relink) (use new in \<open>auto simp: snoc\<close>)
    with r1 show ?thesis
      by (simp add: oc_list_add_def Let_def list_repr_tail [OF r1] list_repr_def snoc)
  qed
qed

lemma list_repr_push:
  "list_repr s xs \<Longrightarrow> x \<notin> set xs \<Longrightarrow> list_repr (oc_list_push s x) (x # xs)"
  by (simp add: list_repr_def oc_list_push_def)

lemma list_repr_insert:
  assumes "list_repr s (xs @ p # ys)" and "x \<notin> set (xs @ p # ys)"
  shows "list_repr (oc_list_insert s (Some p) x) (xs @ p # x # ys)"
proof -
  let ?nx = "(list_next s)(x := list_next s p)"
  from assms have c: "chain ?nx (list_head s) (xs @ p # ys)"
    by (simp add: list_repr_def)
  from assms have "chain ?nx (Some x) (x # ys)"
    using chain_suffix [of "list_next s" "list_head s" xs p ys] by (simp add: list_repr_def)
  moreover from chain_distinct [OF c] assms have "p \<notin> set (x # ys)" by auto
  ultimately have "chain (?nx(p := Some x)) (list_head s) (xs @ p # x # ys)"
    by (rule chain_relink [OF c])
  then show ?thesis by (simp add: list_repr_def oc_list_insert_def Let_def)
qed

lemma list_repr_pop_Nil: "list_repr s [] \<Longrightarrow> oc_list_pop s = (None, s)"
  by (simp add: list_repr_def oc_list_pop_def)

lemma list_repr_pop_Cons:
  assumes "list_repr s (x # xs)"
  shows "\<exists>s'. oc_list_pop s = (Some x, s') \<and> list_repr s' xs \<and> list_next s' x = None"
  using assms list_reprD [OF assms] by (simp add: list_repr_def oc_list_pop_def)

lemma list_repr_chop_Nil: "list_repr s [] \<Longrightarrow> oc_list_chop s = Some (None, s)"
  by (simp add: list_repr_def oc_list_chop_def)

lemma list_repr_chop_snoc:
  assumes r: "list_repr s (xs @ [r])"
  shows "\<exists>s'. oc_list_chop s = Some (Some r, s') \<and> list_repr s' xs"
proof (cases xs rule: rev_cases)
  case Nil
  with r show ?thesis by (simp add: list_repr_def oc_list_chop_def)
next
  case (snoc ys l)
  from snoc have "xs \<noteq> []" by simp
  then obtain h hs where xs: "xs = h # hs" by (auto simp: neq_Nil_conv)
  from r have c: "chain (list_next s) (Some h) (h # hs @ [r])" and hd: "list_head s = Some h"
    by (auto simp: list_repr_def xs)
  have two: "last_but_one (list_next s) h = Some (l, r)"
    using last_but_one_chain [OF c] by (metis last_snoc snoc xs)
  have nz: "list_next s h \<noteq> None" using c by (cases hs) auto
  have "chain ((list_next s)(l := None)) (list_head s) (ys @ [l])"
    by (rule chain_relink [where ys = "[r]"]) (use r in \<open>auto simp: list_repr_def snoc\<close>)
  with two nz hd show ?thesis
    by (auto simp: oc_list_chop_def list_repr_def snoc)
qed

text \<open>Redirecting the cell before a node and clearing the node's own link takes it out of the chain.\<close>

lemma unlink_cell_chain:
  assumes ch: "chain (list_next s) (list_head s) (pre @ y # ys)"
    and c: "c = (if pre = [] then None else Some (last pre))"
  defines "s' \<equiv> set_next (set_link_cell s c (list_next s y)) y None"
  shows "chain (list_next s') (list_head s') (pre @ ys)"
proof -
  from chain_distinct [OF ch] have yd: "y \<notin> set pre" "y \<notin> set ys" by auto
  let ?s = "set_link_cell s c (list_next s y)"
  have "chain (list_next ?s) (list_head ?s) (pre @ ys)"
  proof (cases pre rule: rev_cases)
    case Nil
    with ch c show ?thesis by (simp add: set_link_cell_def)
  next
    case (snoc zs l)
    from ch have "chain (list_next s) (list_head s) (zs @ l # y # ys)" by (simp add: snoc)
    moreover from ch have "chain (list_next s) (list_next s y) ys" by (rule chain_suffix)
    moreover from chain_distinct [OF ch] have "l \<notin> set ys" by (auto simp: snoc)
    ultimately have "chain ((list_next s)(l := list_next s y)) (list_head s) (zs @ l # ys)"
      by (rule chain_relink)
    with c snoc show ?thesis by (simp add: set_link_cell_def)
  qed
  with yd show ?thesis by (simp add: s'_def)
qed

text \<open>Unlinking: the walk leaves the visited prefix alone and redirects the cell before the item.\<close>

lemma remove_from_chain:
  assumes "chain (list_next s) (list_head s) (pre @ xs)"
    and "c = (if pre = [] then None else Some (last pre))"
  shows "\<exists>s'. remove_from s c x =
           Some (if x \<in> set xs then Some x else None, s') \<and>
         chain (list_next s') (list_head s') (pre @ remove1 x xs)"
  using assms
proof (induction xs arbitrary: pre c)
  case Nil
  have "link_cell s c = None"
  proof (cases pre rule: rev_cases)
    case (snoc ys l)
    with Nil show ?thesis
      using chain_suffix [of "list_next s" "list_head s" ys l "[]"] by (simp add: link_cell_def)
  qed (use Nil in \<open>simp add: link_cell_def\<close>)
  with Nil show ?case by (simp add: remove_from.simps)
next
  case (Cons y ys)
  note ch = Cons.prems(1)
  have cell: "link_cell s c = Some y"
  proof (cases pre rule: rev_cases)
    case (snoc zs l)
    with Cons.prems show ?thesis
      using chain_suffix [of "list_next s" "list_head s" zs l "y # ys"] by (simp add: link_cell_def)
  qed (use Cons.prems in \<open>simp add: link_cell_def\<close>)
  show ?case
  proof (cases "y = x")
    case False
    from Cons.IH [of "pre @ [y]" "Some y"] ch False cell show ?thesis
      by (auto simp: remove_from.simps [of s c x])
  next
    case True
    with unlink_cell_chain [OF ch Cons.prems(2)] cell show ?thesis
      by (simp add: remove_from.simps [of s c x])
  qed
qed

lemma list_repr_remove2:
  assumes "list_repr s xs"
  shows "\<exists>s'. oc_list_remove2 s x = Some (if x \<in> set xs then Some x else None, s') \<and>
         list_repr s' (remove1 x xs)"
  using remove_from_chain [of s "[]" xs None x] assms
  by (simp add: list_repr_def oc_list_remove2_def)

lemma list_repr_remove:
  "list_repr s xs \<Longrightarrow> \<exists>s'. oc_list_remove s x = Some s' \<and> list_repr s' (remove1 x xs)"
  using list_repr_remove2 [of s xs x] by (auto simp: oc_list_remove_def)

subsection \<open>The interface the other components rely on\<close>

text \<open>
  The contract of an intrusive sequence: an abstraction relation to lists of distinct items, and
  what the mutators do to the represented list. Clients (the memory pools, the timers) reason
  with these laws and never with the pointers.
\<close>

locale linked_sequence =
  fixes repr :: "'s \<Rightarrow> 'n list \<Rightarrow> bool"
    and add :: "'s \<Rightarrow> 'n \<Rightarrow> 's option"
    and push :: "'s \<Rightarrow> 'n \<Rightarrow> 's"
    and pop :: "'s \<Rightarrow> 'n option \<times> 's"
    and remove :: "'s \<Rightarrow> 'n \<Rightarrow> 's option"
  assumes repr_distinct: "repr s xs \<Longrightarrow> distinct xs"
    and repr_fun: "repr s xs \<Longrightarrow> repr s ys \<Longrightarrow> xs = ys"
    and add_law: "repr s xs \<Longrightarrow> x \<notin> set xs \<Longrightarrow> \<exists>s'. add s x = Some s' \<and> repr s' (xs @ [x])"
    and push_law: "repr s xs \<Longrightarrow> x \<notin> set xs \<Longrightarrow> repr (push s x) (x # xs)"
    and pop_Nil_law: "repr s [] \<Longrightarrow> pop s = (None, s)"
    and pop_Cons_law: "repr s (x # xs) \<Longrightarrow> \<exists>s'. pop s = (Some x, s') \<and> repr s' xs"
    and remove_law: "repr s xs \<Longrightarrow> \<exists>s'. remove s x = Some s' \<and> repr s' (remove1 x xs)"
begin

lemma add_all:
  "repr s ys \<Longrightarrow> distinct (ys @ xs) \<Longrightarrow> \<exists>s'. foldM add s xs = Some s' \<and> repr s' (ys @ xs)"
proof (induction xs arbitrary: s ys)
  case (Cons x xs)
  then obtain s1 where s1: "add s x = Some s1" "repr s1 (ys @ [x])"
    using add_law [of s ys x] by auto
  from Cons.IH [OF s1(2)] Cons.prems s1(1) show ?case by auto
qed simp

lemma pop_all: "repr s xs \<Longrightarrow> \<exists>s'. repeat_op pop (length xs) s = (map Some xs, s') \<and> repr s' []"
proof (induction xs arbitrary: s)
  case (Cons x xs)
  from pop_Cons_law [OF Cons.prems] obtain s1 where s1: "pop s = (Some x, s1)" "repr s1 xs" by auto
  from Cons.IH [OF s1(2)] s1(1) show ?case by auto
qed simp

lemma fifo:
  assumes "repr s []" and "distinct xs"
  shows "\<exists>s1 s2. foldM add s xs = Some s1 \<and> repeat_op pop (length xs) s1 = (map Some xs, s2) \<and>
           repr s2 []"
  using add_all [of s "[]" xs] assms pop_all by fastforce

lemma add_then_remove:
  assumes "repr s xs" and "x \<notin> set xs"
  shows "\<exists>s1 s2. add s x = Some s1 \<and> remove s1 x = Some s2 \<and> repr s2 xs"
proof -
  from add_law [OF assms] obtain s1 where s1: "add s x = Some s1" "repr s1 (xs @ [x])" by auto
  from remove_law [OF s1(2), of x] assms(2) s1(1) show ?thesis
    by (auto simp: remove1_append)
qed

end

interpretation ocl: linked_sequence list_repr oc_list_add oc_list_push oc_list_pop oc_list_remove
proof
  fix s xs x
  show "list_repr s xs \<Longrightarrow> distinct xs" by (rule list_reprD)
  show "\<And>ys. list_repr s xs \<Longrightarrow> list_repr s ys \<Longrightarrow> xs = ys" by (rule list_repr_unique)
  show "list_repr s xs \<Longrightarrow> x \<notin> set xs \<Longrightarrow> \<exists>s'. oc_list_add s x = Some s' \<and> list_repr s' (xs @ [x])"
    by (rule list_repr_add)
  show "list_repr s xs \<Longrightarrow> x \<notin> set xs \<Longrightarrow> list_repr (oc_list_push s x) (x # xs)"
    by (rule list_repr_push)
  show "list_repr s [] \<Longrightarrow> oc_list_pop s = (None, s)" by (rule list_repr_pop_Nil)
  show "list_repr s (x # xs) \<Longrightarrow> \<exists>s'. oc_list_pop s = (Some x, s') \<and> list_repr s' xs"
    using list_repr_pop_Cons by blast
  show "list_repr s xs \<Longrightarrow> \<exists>s'. oc_list_remove s x = Some s' \<and> list_repr s' (remove1 x xs)"
    by (rule list_repr_remove)
qed

subsection \<open>Properties\<close>

definition example_list :: oc_list_t where
  "example_list = \<lparr>list_head = Some 3, list_next = (\<lambda>_. None)(3 := Some 5, 5 := Some 8)\<rparr>"

lemma example_list_repr: "list_repr example_list [3, 5, 8]"
  by (simp add: example_list_def list_repr_def)

text \<open>
  C30. On every NULL-terminated list the pointer operations implement sequences and all of them
  return: the observers read the first item, the last item, the length and membership; adding and
  pushing an item that is not linked yet append and prepend it; popping and chopping take the
  first and the last item off; unlinking removes exactly the given item and reports whether it
  was there.
\<close>

theorem oc_list_refines_sequence:
  assumes "list_repr s xs" and "x \<notin> set xs"
  shows "oc_list_head s = (if xs = [] then None else Some (hd xs)) \<and>
    oc_list_tail s = Some (if xs = [] then None else Some (last xs)) \<and>
    oc_list_length s = Some (length xs) \<and>
    (\<forall>y. oc_list_has_item s y = Some (y \<in> set xs)) \<and>
    (\<exists>s'. oc_list_add s x = Some s' \<and> list_repr s' (xs @ [x])) \<and>
    list_repr (oc_list_push s x) (x # xs) \<and>
    (\<exists>s'. oc_list_pop s = (if xs = [] then None else Some (hd xs), s') \<and> list_repr s' (tl xs)) \<and>
    (\<exists>s'. oc_list_chop s = Some (if xs = [] then None else Some (last xs), s') \<and>
       list_repr s' (butlast xs)) \<and>
    (\<forall>y. \<exists>s'. oc_list_remove2 s y = Some (if y \<in> set xs then Some y else None, s') \<and>
       list_repr s' (remove1 y xs))"
proof (intro conjI)
  show "oc_list_head s = (if xs = [] then None else Some (hd xs))"
    using list_repr_head [OF assms(1)] by (cases xs) auto
  show "\<exists>s'. oc_list_pop s = (if xs = [] then None else Some (hd xs), s') \<and> list_repr s' (tl xs)"
    using assms(1) list_repr_pop_Cons list_repr_pop_Nil by (cases xs) fastforce+
  show "\<exists>s'. oc_list_chop s = Some (if xs = [] then None else Some (last xs), s') \<and>
       list_repr s' (butlast xs)"
    using assms(1) list_repr_chop_snoc list_repr_chop_Nil by (cases xs rule: rev_cases) fastforce+
qed (use assms list_repr_tail list_repr_length list_repr_has_item list_repr_add list_repr_push
       list_repr_remove2 in auto)

theorem oc_list_refines_sequence_witness:
  "list_repr example_list [3, 5, 8] \<and> oc_list_tail example_list = Some (Some 8) \<and>
   oc_list_length example_list = Some 3 \<and> list_repr (oc_list_push example_list 1) [1, 3, 5, 8]"
  using oc_list_refines_sequence [OF example_list_repr, of 1] example_list_repr by simp

text \<open>
  The list is a first-in first-out queue: adding any distinct items to an empty list with
  \<open>oc_list_add\<close> and popping as many times returns them in the order they were added and leaves
  the list empty.
\<close>

theorem oc_list_is_fifo:
  assumes "distinct xs"
  shows "\<exists>s1 s2. foldM oc_list_add (oc_list_init s) xs = Some s1 \<and>
    repeat_op oc_list_pop (length xs) s1 = (map Some xs, s2) \<and> oc_list_head s2 = None"
  using ocl.fifo [OF list_repr_init assms, of s] list_repr_head by fastforce

theorem oc_list_is_fifo_witness:
  "\<exists>s1 s2. foldM oc_list_add (oc_list_init example_list) [7, 2, 5] = Some s1 \<and>
    repeat_op oc_list_pop 3 s1 = ([Some 7, Some 2, Some 5], s2) \<and> oc_list_head s2 = None"
  using oc_list_is_fifo [of "[7, 2, 5]" example_list]
  by (simp add: numeral_3_eq_3 del: foldM.simps repeat_op.simps)

end
