(* ===== verification/OcMemb.thy ===== *)
theory OcMemb
  imports OcPrelude
begin

text \<open>
  The fixed-size block pools of \<open>util/oc_memb.c\<close>. A pool keeps one reference count per block and
  the bytes of all blocks. A pointer is its byte offset from \<open>m->mem\<close>, so that a pointer to no
  block of the pool is any other integer. A pool with \<open>num = 0\<close> (the \<open>OC_MEMB\<close> macro under
  \<open>OC_DYNAMIC_ALLOCATION\<close>) forwards to \<open>calloc\<close> and \<open>free\<close>: what \<open>calloc\<close> returned is an argument.
\<close>

record oc_memb =
  memb_size :: nat
  memb_num :: nat
  memb_count :: bytes
  memb_mem :: bytes
  memb_has_cb :: bool

text \<open>
  \<open>oc_memb_init\<close> clears \<open>num * sizeof(char *)\<close> bytes of \<open>m->mem\<close>; where the pool is smaller the
  \<open>memset\<close> leaves the object, which is \<^const>\<open>None\<close> here.
\<close>

definition oc_memb_init :: "nat \<Rightarrow> oc_memb \<Rightarrow> oc_memb option" where
  "oc_memb_init sizeof_ptr m =
     (if memb_num m > 0 then
        (let n = memb_num m * sizeof_ptr
         in if n \<le> length (memb_mem m)
            then Some (m\<lparr>memb_count := write_at (memb_count m) 0 (replicate (memb_num m) 0),
                         memb_mem := write_at (memb_mem m) 0 (replicate n 0)\<rparr>)
            else None)
      else Some m)"

function first_free :: "bytes \<Rightarrow> nat \<Rightarrow> nat \<Rightarrow> nat" where
  "first_free cnt num i =
     (if i < num then if cnt ! i = 0 then i else first_free cnt num (Suc i) else i)"
  by pat_completeness auto
termination
  by (relation "measure (\<lambda>(cnt, num, i). num - i)") auto

declare first_free.simps [simp del]

definition memb_alloc_block :: "oc_memb \<Rightarrow> int option \<times> oc_memb" where
  "memb_alloc_block m =
     (let i = first_free (memb_count m) (memb_num m) 0
      in if i < memb_num m
         then (Some (int (i * memb_size m)),
               m\<lparr>memb_count := (memb_count m)[i := memb_count m ! i + 1],
                 memb_mem := write_at (memb_mem m) (i * memb_size m) (replicate (memb_size m) 0)\<rparr>)
         else (None, m))"

definition oc_memb_alloc :: "int option \<Rightarrow> oc_memb option \<Rightarrow> int option \<times> oc_memb option" where
  "oc_memb_alloc calloc_ret mo = (case mo of
     None \<Rightarrow> (None, None)
   | Some m \<Rightarrow>
       if memb_num m > 0 then (case memb_alloc_block m of (p, m') \<Rightarrow> (p, Some m'))
       else (calloc_ret, Some m))"

function memb_free_from :: "oc_memb \<Rightarrow> int \<Rightarrow> nat \<Rightarrow> int \<Rightarrow> oc_memb" where
  "memb_free_from m ptr i ptr2 =
     (if i < memb_num m then
        if ptr2 = ptr then
          (if memb_count m ! i > 0
           then m\<lparr>memb_count := (memb_count m)[i := memb_count m ! i - 1]\<rparr> else m)
        else memb_free_from m ptr (Suc i) (ptr2 + int (memb_size m))
      else m)"
  by pat_completeness auto
termination
  by (relation "measure (\<lambda>(m, ptr, i, ptr2). memb_num m - i)") auto

declare memb_free_from.simps [simp del]

definition memb_free_block :: "oc_memb \<Rightarrow> int \<Rightarrow> oc_memb" where
  "memb_free_block m ptr = memb_free_from m ptr 0 0"

definition oc_memb_inmemb :: "oc_memb \<Rightarrow> int \<Rightarrow> bool" where
  "oc_memb_inmemb m ptr = (0 \<le> ptr \<and> ptr < int (memb_num m * memb_size m))"

function count_free :: "bytes \<Rightarrow> nat \<Rightarrow> nat \<Rightarrow> nat \<Rightarrow> nat" where
  "count_free cnt num i num_free =
     (if i < num then count_free cnt num (Suc i) (if cnt ! i = 0 then Suc num_free else num_free)
      else num_free)"
  by pat_completeness auto
termination
  by (relation "measure (\<lambda>(cnt, num, i, k). num - i)") auto

declare count_free.simps [simp del]

definition oc_memb_numfree :: "oc_memb \<Rightarrow> nat" where
  "oc_memb_numfree m = count_free (memb_count m) (memb_num m) 0 0"

text \<open>The result is the return value, the pool, and the argument of the callback if one is set.\<close>

definition oc_memb_free :: "oc_memb option \<Rightarrow> int \<Rightarrow> int \<times> oc_memb option \<times> nat option" where
  "oc_memb_free mo ptr = (case mo of
     None \<Rightarrow> (-1, None, None)
   | Some m \<Rightarrow>
       (let m' = (if memb_num m > 0 then memb_free_block m ptr else m)
        in (0, Some m', if memb_has_cb m' then Some (oc_memb_numfree m') else None)))"

definition oc_memb_set_buffers_avail_cb :: "oc_memb \<Rightarrow> bool \<Rightarrow> oc_memb" where
  "oc_memb_set_buffers_avail_cb m cb = m\<lparr>memb_has_cb := cb\<rparr>"

subsection \<open>Well-formed static pools\<close>

definition memb_wf :: "oc_memb \<Rightarrow> bool" where
  "memb_wf m \<longleftrightarrow> 0 < memb_num m \<and> 0 < memb_size m \<and> length (memb_count m) = memb_num m \<and>
     length (memb_mem m) = memb_num m * memb_size m \<and> (\<forall>c \<in> set (memb_count m). c = 0 \<or> c = 1)"

text \<open>The blocks in use, as the set of their pointers.\<close>

definition memb_live :: "oc_memb \<Rightarrow> int set" where
  "memb_live m = {int (i * memb_size m) | i. i < memb_num m \<and> memb_count m ! i \<noteq> 0}"

definition memb_block :: "oc_memb \<Rightarrow> int \<Rightarrow> bytes" where
  "memb_block m p = bslice (memb_mem m) (nat p) (memb_size m)"

lemma first_free_spec:
  "i \<le> num \<Longrightarrow> first_free cnt num i \<le> num \<and> (\<forall>j. i \<le> j \<and> j < first_free cnt num i \<longrightarrow> cnt ! j \<noteq> 0) \<and>
   (first_free cnt num i < num \<longrightarrow> cnt ! first_free cnt num i = 0)"
proof (induction cnt num i rule: first_free.induct)
  case (1 cnt num i)
  show ?case
  proof (cases "i < num \<and> cnt ! i \<noteq> 0")
    case True
    then have eq: "first_free cnt num i = first_free cnt num (Suc i)"
      by (simp add: first_free.simps [of cnt num i])
    from True "1.IH" have IH: "first_free cnt num (Suc i) \<le> num"
      "\<And>j. Suc i \<le> j \<Longrightarrow> j < first_free cnt num (Suc i) \<Longrightarrow> cnt ! j \<noteq> 0"
      "first_free cnt num (Suc i) < num \<Longrightarrow> cnt ! first_free cnt num (Suc i) = 0"
      by auto
    have "cnt ! j \<noteq> 0" if "i \<le> j" "j < first_free cnt num i" for j
      using that True IH(2) [of j] by (cases "j = i") (auto simp: eq)
    with IH show ?thesis by (simp add: eq)
  next
    case False
    with 1 show ?thesis by (auto simp: first_free.simps [of cnt num i])
  qed
qed

lemma count_free_filter:
  "i \<le> num \<Longrightarrow> length cnt = num \<Longrightarrow>
   count_free cnt num i k = k + length (filter (\<lambda>c. c = 0) (drop i cnt))"
proof (induction cnt num i k rule: count_free.induct)
  case (1 cnt num i k)
  show ?case
  proof (cases "i < num")
    case True
    with 1 show ?thesis
      by (simp add: count_free.simps [of cnt num i k] Cons_nth_drop_Suc [symmetric])
  next
    case False
    with 1 show ?thesis by (simp add: count_free.simps)
  qed
qed

lemma numfree_filter: "memb_wf m \<Longrightarrow> oc_memb_numfree m = length (filter (\<lambda>c. c = 0) (memb_count m))"
  by (simp add: oc_memb_numfree_def count_free_filter memb_wf_def)

lemma memb_free_from_spec:
  assumes "0 < memb_size m" and "ptr2 = int (i * memb_size m)" and "i \<le> k" and "k < memb_num m"
    and "ptr = int (k * memb_size m)"
  shows "memb_free_from m ptr i ptr2 =
    (if memb_count m ! k > 0 then m\<lparr>memb_count := (memb_count m)[k := memb_count m ! k - 1]\<rparr> else m)"
  using assms
proof (induction m ptr i ptr2 rule: memb_free_from.induct)
  case (1 m ptr i ptr2)
  show ?case
  proof (cases "i = k")
    case True
    with "1.prems" show ?thesis by (subst memb_free_from.simps) simp
  next
    case False
    with "1.prems" have lt: "i < memb_num m" and ne: "ptr2 \<noteq> ptr" by auto
    then have "memb_free_from m ptr i ptr2 = memb_free_from m ptr (Suc i) (ptr2 + int (memb_size m))"
      by (simp add: memb_free_from.simps [of m ptr i ptr2])
    also have "\<dots> = (if memb_count m ! k > 0
        then m\<lparr>memb_count := (memb_count m)[k := memb_count m ! k - 1]\<rparr> else m)"
      by (rule "1.IH" [OF lt ne]) (use "1.prems" False in \<open>auto simp: distrib_right\<close>)
    finally show ?thesis .
  qed
qed

lemma memb_free_from_none:
  assumes "\<And>k. i \<le> k \<Longrightarrow> k < memb_num m \<Longrightarrow> ptr \<noteq> int (k * memb_size m)"
    and "ptr2 = int (i * memb_size m)"
  shows "memb_free_from m ptr i ptr2 = m"
  using assms
proof (induction m ptr i ptr2 rule: memb_free_from.induct)
  case (1 m ptr i ptr2)
  show ?case
  proof (cases "i < memb_num m")
    case True
    with "1.prems" have ne: "ptr2 \<noteq> ptr" by force
    have "memb_free_from m ptr i ptr2 = memb_free_from m ptr (Suc i) (ptr2 + int (memb_size m))"
      using True ne by (simp add: memb_free_from.simps [of m ptr i ptr2])
    also have "\<dots> = m"
      by (rule "1.IH" [OF True ne]) (use "1.prems" in \<open>auto simp: distrib_right\<close>)
    finally show ?thesis .
  next
    case False
    then show ?thesis by (simp add: memb_free_from.simps)
  qed
qed

subsection \<open>Allocation and release on a well-formed pool\<close>

text \<open>The bytes of two different blocks do not meet.\<close>

lemma block_bounds:
  assumes "i < num"
  shows "i * sz + sz \<le> num * (sz::nat)"
proof -
  have "Suc i * sz \<le> num * sz" using assms by (intro mult_le_mono1) simp
  then show ?thesis by (simp add: add.commute)
qed

lemma block_apart:
  assumes "i < j"
  shows "i * sz + sz \<le> j * (sz::nat)"
  using block_bounds [OF assms] .

lemma bslice_write_other_block:
  assumes "i \<noteq> j" and "i < num" and "length xs = num * sz" and "length vs = sz"
  shows "bslice (write_at xs (i * sz) vs) (j * sz) sz = bslice xs (j * sz) sz"
proof (cases "i < j")
  case True
  then show ?thesis
    using assms block_apart [of i j sz] block_bounds [of i num sz]
    by (intro bslice_write_at_after) auto
next
  case False
  with assms(1) have "j < i" by simp
  then show ?thesis
    using assms block_apart [of j i sz] block_bounds [of i num sz]
    by (intro bslice_write_at_before) auto
qed

lemma memb_alloc_full:
  assumes "memb_wf m" and "oc_memb_numfree m = 0"
  shows "memb_alloc_block m = (None, m)"
proof -
  let ?i = "first_free (memb_count m) (memb_num m) 0"
  have "\<not> ?i < memb_num m"
  proof
    assume "?i < memb_num m"
    then have "memb_count m ! ?i = 0" and "?i < length (memb_count m)"
      using first_free_spec [of 0 "memb_num m" "memb_count m"] assms(1) by (auto simp: memb_wf_def)
    then have "0 \<in> set (memb_count m)" by (metis nth_mem)
    with assms show False by (auto simp: numfree_filter filter_empty_conv)
  qed
  then show ?thesis by (simp add: memb_alloc_block_def Let_def)
qed

lemma length_filter_update:
  "i < length xs \<Longrightarrow> P (xs ! i) \<Longrightarrow> \<not> P v \<Longrightarrow>
   length (filter P xs) = Suc (length (filter P (xs[i := v])))"
proof (induction xs arbitrary: i)
  case (Cons x xs)
  then show ?case by (cases i) auto
qed simp

lemma memb_alloc_free_slot:
  assumes wf: "memb_wf m" and fr: "0 < oc_memb_numfree m"
  obtains i where "i < memb_num m" and "memb_count m ! i = 0"
    and "memb_alloc_block m = (Some (int (i * memb_size m)),
           m\<lparr>memb_count := (memb_count m)[i := 1],
             memb_mem := write_at (memb_mem m) (i * memb_size m) (replicate (memb_size m) 0)\<rparr>)"
proof -
  let ?i = "first_free (memb_count m) (memb_num m) 0"
  have sp: "?i \<le> memb_num m" "\<And>j. j < ?i \<Longrightarrow> memb_count m ! j \<noteq> 0"
    "?i < memb_num m \<Longrightarrow> memb_count m ! ?i = 0"
    using first_free_spec [of 0 "memb_num m" "memb_count m"] by auto
  have "?i < memb_num m"
  proof (rule ccontr)
    assume "\<not> ?i < memb_num m"
    with sp have "\<forall>j < memb_num m. memb_count m ! j \<noteq> 0" by (metis le_neq_implies_less)
    with wf have "filter (\<lambda>c. c = 0) (memb_count m) = []"
      by (auto simp: memb_wf_def filter_empty_conv in_set_conv_nth)
    with wf fr show False by (simp add: numfree_filter)
  qed
  with sp(3) show thesis
    by (intro that [of ?i]) (auto simp: memb_alloc_block_def Let_def)
qed

lemma memb_live_update:
  assumes "memb_wf m" and "i < memb_num m"
  shows "memb_live (m\<lparr>memb_count := (memb_count m)[i := c], memb_mem := bs\<rparr>) =
    (if c = 0 then memb_live m - {int (i * memb_size m)} else insert (int (i * memb_size m)) (memb_live m))"
proof -
  from assms have inj: "\<And>j. int (j * memb_size m) = int (i * memb_size m) \<longleftrightarrow> j = i"
    by (auto simp: memb_wf_def)
  from assms have nth: "\<And>j. j < memb_num m \<Longrightarrow>
      (memb_count m)[i := c] ! j = (if j = i then c else memb_count m ! j)"
    by (auto simp: memb_wf_def)
  show ?thesis
    unfolding memb_live_def using assms(2) inj nth
    by (auto split: if_splits)
qed

lemma memb_wf_update:
  assumes "memb_wf m" and "i < memb_num m" and "c = 0 \<or> c = 1" and "length bs = length (memb_mem m)"
  shows "memb_wf (m\<lparr>memb_count := (memb_count m)[i := c], memb_mem := bs\<rparr>)"
  using assms by (auto simp: memb_wf_def dest!: set_update_subset_insert [THEN subsetD])

subsection \<open>The interface: a bounded pool of blocks\<close>

text \<open>
  What a client of a pool relies on: the set of live pointers grows by one fresh pointer per
  successful allocation, shrinks by a release, and an allocation fails only when nothing is free.
\<close>

locale block_pool =
  fixes invar :: "'m \<Rightarrow> bool"
    and live :: "'m \<Rightarrow> 'p set"
    and avail :: "'m \<Rightarrow> nat"
    and alloc :: "'m \<Rightarrow> 'p option \<times> 'm"
    and release :: "'m \<Rightarrow> 'p \<Rightarrow> 'm"
  assumes alloc_full: "invar m \<Longrightarrow> avail m = 0 \<Longrightarrow> alloc m = (None, m)"
    and alloc_ok: "invar m \<Longrightarrow> 0 < avail m \<Longrightarrow>
      \<exists>p m'. alloc m = (Some p, m') \<and> invar m' \<and> p \<notin> live m \<and> live m' = insert p (live m) \<and>
        avail m = Suc (avail m')"
    and release_live: "invar m \<Longrightarrow> p \<in> live m \<Longrightarrow>
      invar (release m p) \<and> live (release m p) = live m - {p} \<and>
        avail (release m p) = Suc (avail m)"
    and release_other: "invar m \<Longrightarrow> p \<notin> live m \<Longrightarrow> release m p = m"
begin

lemma alloc_many:
  "invar m \<Longrightarrow> n \<le> avail m \<Longrightarrow>
   \<exists>ps m'. repeat_op alloc n m = (map Some ps, m') \<and> length ps = n \<and> distinct ps \<and>
     set ps \<inter> live m = {} \<and> live m' = live m \<union> set ps \<and> invar m' \<and> avail m' = avail m - n"
proof (induction n arbitrary: m)
  case 0
  then show ?case by (intro exI [of _ "[]"]) auto
next
  case (Suc n)
  from alloc_ok [OF Suc.prems(1)] Suc.prems(2) obtain p m1 where
    p: "alloc m = (Some p, m1)" "invar m1" "p \<notin> live m" "live m1 = insert p (live m)"
      "avail m = Suc (avail m1)" by auto
  from Suc.IH [OF p(2)] Suc.prems(2) p(5) obtain ps m' where
    "repeat_op alloc n m1 = (map Some ps, m')" "length ps = n" "distinct ps"
    "set ps \<inter> live m1 = {}" "live m' = live m1 \<union> set ps" "invar m'" "avail m' = avail m1 - n"
    by auto
  with p show ?case by (intro exI [of _ "p # ps"] exI [of _ m']) auto
qed

lemma release_alloc_cycle:
  assumes "invar m" and "p \<in> live m"
  shows "\<exists>q m'. alloc (release m p) = (Some q, m') \<and> invar m' \<and> avail m' = avail m"
proof -
  from release_live [OF assms] have "invar (release m p)" "avail (release m p) = Suc (avail m)"
    by auto
  with alloc_ok [of "release m p"] show ?thesis by fastforce
qed

end

lemma memb_alloc_ok:
  assumes wf: "memb_wf m" and fr: "0 < oc_memb_numfree m"
  shows "\<exists>p m'. memb_alloc_block m = (Some p, m') \<and> memb_wf m' \<and> p \<notin> memb_live m \<and>
    memb_live m' = insert p (memb_live m) \<and> oc_memb_numfree m = Suc (oc_memb_numfree m') \<and>
    memb_block m' p = replicate (memb_size m) 0 \<and>
    (\<forall>q \<in> memb_live m. memb_block m' q = memb_block m q)"
proof -
  obtain i where i: "i < memb_num m" "memb_count m ! i = 0" and eq:
    "memb_alloc_block m = (Some (int (i * memb_size m)),
       m\<lparr>memb_count := (memb_count m)[i := 1],
         memb_mem := write_at (memb_mem m) (i * memb_size m) (replicate (memb_size m) 0)\<rparr>)"
    (is "_ = (_, ?m)")
    using memb_alloc_free_slot [OF wf fr] .
  have len: "i * memb_size m + memb_size m \<le> length (memb_mem m)"
    using wf i(1) block_bounds [of i "memb_num m" "memb_size m"] by (simp add: memb_wf_def)
  have wf': "memb_wf ?m"
    using len by (intro memb_wf_update [OF wf i(1)]) (auto simp: buffer_simps)
  have "int (i * memb_size m) \<notin> memb_live m"
    using i wf by (auto simp: memb_live_def memb_wf_def)
  moreover have "memb_live ?m = insert (int (i * memb_size m)) (memb_live m)"
    by (simp add: memb_live_update [OF wf i(1)])
  moreover have "oc_memb_numfree m = Suc (oc_memb_numfree ?m)"
    using wf i by (simp add: numfree_filter [OF wf] numfree_filter [OF wf'] memb_wf_def
      length_filter_update [where v = 1])
  moreover have "memb_block ?m (int (i * memb_size m)) = replicate (memb_size m) 0"
    using bslice_write_at_same [of "i * memb_size m" "replicate (memb_size m) 0" "memb_mem m"] len
    by (simp add: memb_block_def nat_mult_distrib)
  moreover have "memb_block ?m q = memb_block m q" if q: "q \<in> memb_live m" for q
  proof -
    from q obtain j where j: "q = int (j * memb_size m)" "memb_count m ! j \<noteq> 0"
      by (auto simp: memb_live_def)
    with i(2) have "i \<noteq> j" by auto
    with wf i(1) show ?thesis
      by (simp add: memb_block_def j(1) nat_mult_distrib bslice_write_other_block [of i j "memb_num m"]
          memb_wf_def)
  qed
  ultimately show ?thesis using eq wf' by auto
qed

lemma memb_free_live:
  assumes wf: "memb_wf m" and p: "p \<in> memb_live m"
  shows "memb_wf (memb_free_block m p) \<and> memb_live (memb_free_block m p) = memb_live m - {p} \<and>
    oc_memb_numfree (memb_free_block m p) = Suc (oc_memb_numfree m)"
proof -
  from p obtain k where k: "k < memb_num m" "memb_count m ! k \<noteq> 0" "p = int (k * memb_size m)"
    by (auto simp: memb_live_def)
  from wf k(1) have "memb_count m ! k \<in> set (memb_count m)" by (simp add: memb_wf_def)
  with wf k have one: "memb_count m ! k = 1" by (auto simp: memb_wf_def)
  have eq: "memb_free_block m p = m\<lparr>memb_count := (memb_count m)[k := 0], memb_mem := memb_mem m\<rparr>"
    using wf k one memb_free_from_spec [of m 0 0 k p] by (simp add: memb_free_block_def memb_wf_def)
  have wf': "memb_wf (memb_free_block m p)"
    unfolding eq by (rule memb_wf_update [OF wf k(1)]) auto
  have "length (filter (\<lambda>c. c = 0) ((memb_count m)[k := 0])) = Suc (length (filter (\<lambda>c. c = 0) (memb_count m)))"
    using length_filter_update [of k "(memb_count m)[k := 0]" "\<lambda>c. c = 0" 1] wf k one
    by (simp add: memb_wf_def) (metis list_update_id)
  then have "oc_memb_numfree (memb_free_block m p) = Suc (oc_memb_numfree m)"
    by (simp add: numfree_filter [OF wf] numfree_filter [OF wf']) (simp add: eq)
  moreover have "memb_live (memb_free_block m p) = memb_live m - {p}"
    using memb_live_update [OF wf k(1), where c = 0 and bs = "memb_mem m"] unfolding eq
    by (simp add: k(3))
  ultimately show ?thesis using wf' by simp
qed

lemma memb_free_other:
  assumes wf: "memb_wf m" and p: "p \<notin> memb_live m"
  shows "memb_free_block m p = m"
proof (cases "\<exists>k < memb_num m. p = int (k * memb_size m)")
  case True
  then obtain k where k: "k < memb_num m" "p = int (k * memb_size m)" by auto
  with p have "memb_count m ! k = 0" by (auto simp: memb_live_def)
  with wf k show ?thesis
    using memb_free_from_spec [of m 0 0 k p] by (simp add: memb_free_block_def memb_wf_def)
next
  case False
  then show ?thesis
    unfolding memb_free_block_def by (intro memb_free_from_none) auto
qed

interpretation memb: block_pool memb_wf memb_live oc_memb_numfree memb_alloc_block memb_free_block
proof
  fix m :: oc_memb and p :: int
  show "memb_wf m \<Longrightarrow> oc_memb_numfree m = 0 \<Longrightarrow> memb_alloc_block m = (None, m)"
    by (rule memb_alloc_full)
  show "memb_wf m \<Longrightarrow> 0 < oc_memb_numfree m \<Longrightarrow>
      \<exists>p m'. memb_alloc_block m = (Some p, m') \<and> memb_wf m' \<and> p \<notin> memb_live m \<and>
        memb_live m' = insert p (memb_live m) \<and> oc_memb_numfree m = Suc (oc_memb_numfree m')"
    using memb_alloc_ok by blast
  show "memb_wf m \<Longrightarrow> p \<in> memb_live m \<Longrightarrow> memb_wf (memb_free_block m p) \<and>
      memb_live (memb_free_block m p) = memb_live m - {p} \<and>
      oc_memb_numfree (memb_free_block m p) = Suc (oc_memb_numfree m)"
    by (rule memb_free_live)
  show "memb_wf m \<Longrightarrow> p \<notin> memb_live m \<Longrightarrow> memb_free_block m p = m"
    by (rule memb_free_other)
qed

subsection \<open>Properties\<close>

definition example_pool :: oc_memb where
  "example_pool = \<lparr>memb_size = 2, memb_num = 3, memb_count = [1, 0, 0],
     memb_mem = [7, 7, 9, 9, 9, 9], memb_has_cb = True\<rparr>"

lemma example_pool_wf: "memb_wf example_pool" and example_pool_num: "memb_num example_pool = 3"
  by (simp_all add: example_pool_def memb_wf_def)

lemma example_pool_free: "oc_memb_numfree example_pool = 2"
  by (simp add: numfree_filter [OF example_pool_wf]) (simp add: example_pool_def)

text \<open>
  Allocating from a static pool: with no free block the result is NULL and nothing changes;
  otherwise the result is a pointer to a block that was not in use, that block is zeroed and in
  use now, exactly one block fewer is free, and the bytes of every other block in use are
  untouched, so no two live allocations overlap.
\<close>

theorem oc_memb_alloc_correct:
  assumes "memb_wf m"
  shows "if oc_memb_numfree m = 0 then oc_memb_alloc cr (Some m) = (None, Some m)
    else \<exists>p m'. oc_memb_alloc cr (Some m) = (Some p, Some m') \<and> memb_wf m' \<and>
      p \<notin> memb_live m \<and> memb_live m' = insert p (memb_live m) \<and> oc_memb_inmemb m p \<and>
      oc_memb_numfree m' = oc_memb_numfree m - 1 \<and>
      memb_block m' p = replicate (memb_size m) 0 \<and>
      (\<forall>q \<in> memb_live m. memb_block m' q = memb_block m q)"
proof -
  from assms have num: "memb_num m > 0" by (simp add: memb_wf_def)
  have inm: "oc_memb_inmemb m p" if "memb_alloc_block m = (Some p, m')" for p m'
  proof -
    from that assms have "0 < oc_memb_numfree m" using memb_alloc_full [of m] by (cases "oc_memb_numfree m") auto
    from memb_alloc_free_slot [OF assms this] that obtain i where
      "i < memb_num m" "p = int (i * memb_size m)" by (metis option.inject prod.inject)
    with assms block_bounds [of i "memb_num m" "memb_size m"] show ?thesis
      by (simp add: oc_memb_inmemb_def memb_wf_def flip: of_nat_mult)
  qed
  show ?thesis
  proof (cases "oc_memb_numfree m = 0")
    case True
    with num memb_alloc_full [OF assms True] show ?thesis by (simp add: oc_memb_alloc_def)
  next
    case False
    with memb_alloc_ok [OF assms] num inm show ?thesis
      by (fastforce simp: oc_memb_alloc_def)
  qed
qed

theorem oc_memb_alloc_correct_witness:
  "memb_wf example_pool \<and> (\<exists>p m'. oc_memb_alloc None (Some example_pool) = (Some p, Some m') \<and>
     oc_memb_numfree m' = 1 \<and> memb_block m' p = [0, 0])"
  using oc_memb_alloc_correct [OF example_pool_wf, of None] example_pool_wf
  by (auto simp: example_pool_free) (simp add: example_pool_def numeral_2_eq_2)

text \<open>
  A pool with \<open>n\<close> free blocks satisfies \<open>n\<close> allocations in a row with \<open>n\<close> different pointers,
  none of which was in use, and releasing a live block makes exactly that block available again
  and tells the callback the new number of free blocks. Releasing any other pointer changes
  nothing, and the return value is 0 in both cases.
\<close>

theorem oc_memb_pool_cycle:
  assumes "memb_wf m"
  shows "(\<exists>ps m'. repeat_op memb_alloc_block (oc_memb_numfree m) m = (map Some ps, m') \<and>
      length ps = oc_memb_numfree m \<and> distinct ps \<and> set ps \<inter> memb_live m = {} \<and>
      oc_memb_numfree m' = 0) \<and>
    (\<forall>p. \<exists>m'. oc_memb_free (Some m) p =
        (0, Some m', if memb_has_cb m then Some (oc_memb_numfree m') else None) \<and> memb_wf m' \<and>
      memb_live m' = memb_live m - {p} \<and>
      oc_memb_numfree m' = oc_memb_numfree m + (if p \<in> memb_live m then 1 else 0))"
proof (intro conjI allI)
  show "\<exists>ps m'. repeat_op memb_alloc_block (oc_memb_numfree m) m = (map Some ps, m') \<and>
      length ps = oc_memb_numfree m \<and> distinct ps \<and> set ps \<inter> memb_live m = {} \<and>
      oc_memb_numfree m' = 0"
    using memb.alloc_many [OF assms, of "oc_memb_numfree m"] by auto
next
  fix p
  from assms have num: "memb_num m > 0" by (simp add: memb_wf_def)
  have cb: "memb_has_cb (memb_free_from m' q i r) = memb_has_cb m'" for m' q i r
    by (induction m' q i r rule: memb_free_from.induct) (subst memb_free_from.simps, simp)
  show "\<exists>m'. oc_memb_free (Some m) p =
        (0, Some m', if memb_has_cb m then Some (oc_memb_numfree m') else None) \<and> memb_wf m' \<and>
      memb_live m' = memb_live m - {p} \<and>
      oc_memb_numfree m' = oc_memb_numfree m + (if p \<in> memb_live m then 1 else 0)"
  proof (cases "p \<in> memb_live m")
    case True
    with memb_free_live [OF assms True] num cb show ?thesis
      by (auto simp: oc_memb_free_def Let_def memb_free_block_def)
  next
    case False
    with memb_free_other [OF assms False] num assms show ?thesis
      by (auto simp: oc_memb_free_def Let_def)
  qed
qed

theorem oc_memb_pool_cycle_witness:
  "memb_wf example_pool \<and>
   (\<exists>m'. oc_memb_free (Some example_pool) 5 = (0, Some m', Some (oc_memb_numfree m')) \<and>
      memb_live m' = memb_live example_pool - {5})"
proof -
  have cb: "memb_has_cb example_pool" by (simp add: example_pool_def)
  from oc_memb_pool_cycle [OF example_pool_wf] have
    "\<exists>m'. oc_memb_free (Some example_pool) 5 =
        (0, Some m', if memb_has_cb example_pool then Some (oc_memb_numfree m') else None) \<and>
      memb_live m' = memb_live example_pool - {5}" by blast
  with cb example_pool_wf show ?thesis by auto
qed

end
