(* ===== verification/OcMmem.thy ===== *)
theory OcMmem
  imports OcList
begin

text \<open>
  The managed memory of \<open>util/oc_mmem.c\<close>: three pools (bytes, 64-bit integers, doubles) from which
  blocks are cut off at the end, and which are compacted by \<open>memmove\<close> when a block is released, so
  that the descriptors \<open>struct oc_mmem\<close> of the later blocks are moved too. A descriptor is a node of
  the pool's list; its members \<open>ptr\<close> (an index into the array of the pool) and \<open>size\<close> are kept per
  pool. The elements of the double pool are opaque 64-bit cells, since the pool only moves them.
  \<^const>\<open>None\<close> is a walk that does not return, or a \<open>memmove\<close> whose len is negative.
\<close>

datatype oc_mmem_pool_t = BYTE_POOL | INT_POOL | DOUBLE_POOL

record 'a mmem_pool =
  pool_cells :: "'a list"
  pool_avail :: nat
  pool_list :: oc_list_t
  pool_ptr :: "node \<Rightarrow> nat"
  pool_size :: "node \<Rightarrow> nat"

record oc_mmem_state =
  mmem_initialized :: bool
  mmem_bytes :: "u8 mmem_pool"
  mmem_ints :: "u64 mmem_pool"
  mmem_doubles :: "u64 mmem_pool"

definition memm_type_size :: "oc_mmem_pool_t \<Rightarrow> nat" where
  "memm_type_size t = (case t of BYTE_POOL \<Rightarrow> 1 | INT_POOL \<Rightarrow> 8 | DOUBLE_POOL \<Rightarrow> 8)"

text \<open>\<open>return (int)bytes_allocated;\<close> in a function that returns \<open>size_t\<close>.\<close>

definition mmem_result :: "nat \<Rightarrow> oc_mmem_pool_t \<Rightarrow> u64" where
  "mmem_result len t =
     (scast :: 32 word \<Rightarrow> u64) (ucast (of_nat len * of_nat (memm_type_size t) :: u64))"

text \<open>One case of the \<open>switch\<close> in \<open>_oc_mmem_alloc\<close>; the flag is false when the pool is exhausted.\<close>

definition pool_take :: "'a mmem_pool \<Rightarrow> node \<Rightarrow> nat \<Rightarrow> (bool \<times> 'a mmem_pool) option" where
  "pool_take p m len =
     (if pool_avail p < len then Some (False, p)
      else case oc_list_add (pool_list p) m of
             None \<Rightarrow> None
           | Some l \<Rightarrow>
               Some (True, p\<lparr>pool_list := l,
                 pool_ptr := (pool_ptr p)(m := length (pool_cells p) - pool_avail p),
                 pool_size := (pool_size p)(m := len),
                 pool_avail := pool_avail p - len\<rparr>))"

definition oc_mmem_alloc ::
  "oc_mmem_state \<Rightarrow> node option \<Rightarrow> nat \<Rightarrow> oc_mmem_pool_t \<Rightarrow> (u64 \<times> oc_mmem_state) option" where
  "oc_mmem_alloc st mo len t = (case mo of
     None \<Rightarrow> Some (0, st)
   | Some m \<Rightarrow>
       (let ret = (\<lambda>ok. if ok then mmem_result len t else 0)
        in case t of
          BYTE_POOL \<Rightarrow>
            map_option (\<lambda>(ok, p). (ret ok, st\<lparr>mmem_bytes := p\<rparr>)) (pool_take (mmem_bytes st) m len)
        | INT_POOL \<Rightarrow>
            map_option (\<lambda>(ok, p). (ret ok, st\<lparr>mmem_ints := p\<rparr>)) (pool_take (mmem_ints st) m len)
        | DOUBLE_POOL \<Rightarrow>
            map_option (\<lambda>(ok, p). (ret ok, st\<lparr>mmem_doubles := p\<rparr>))
              (pool_take (mmem_doubles st) m len)))"

text \<open>\<open>for (n = m->next; n != NULL; n = n->next) n->ptr -= m->size;\<close>\<close>

partial_function (option) move_ptrs ::
  "(node \<Rightarrow> nodeptr) \<Rightarrow> nodeptr \<Rightarrow> nat \<Rightarrow> (node \<Rightarrow> nat) \<Rightarrow> (node \<Rightarrow> nat) option" where
  "move_ptrs nx n d ptr = (case n of
     None \<Rightarrow> Some ptr
   | Some a \<Rightarrow> move_ptrs nx (nx a) d (ptr(a := ptr a - d)))"

text \<open>The \<open>memmove\<close> of \<open>_oc_mmem_free\<close> followed by the loop over the later descriptors.\<close>

definition pool_compact :: "'a mmem_pool \<Rightarrow> node \<Rightarrow> 'a mmem_pool option" where
  "pool_compact p m = (case list_next (pool_list p) m of
     None \<Rightarrow> Some p
   | Some n \<Rightarrow>
       (let used = length (pool_cells p) - pool_avail p; src = pool_ptr p n
        in if used < src then None
           else case move_ptrs (list_next (pool_list p)) (Some n) (pool_size p m) (pool_ptr p) of
                  None \<Rightarrow> None
                | Some ptr \<Rightarrow>
                    Some (p\<lparr>pool_cells :=
                              write_at (pool_cells p) (pool_ptr p m) (bslice (pool_cells p) src (used - src)),
                            pool_ptr := ptr\<rparr>)))"

definition pool_release :: "'a mmem_pool \<Rightarrow> node \<Rightarrow> 'a mmem_pool option" where
  "pool_release p m = (case pool_compact p m of
     None \<Rightarrow> None
   | Some p1 \<Rightarrow>
       (case oc_list_remove (pool_list p1) m of
          None \<Rightarrow> None
        | Some l \<Rightarrow> Some (p1\<lparr>pool_avail := pool_avail p1 + pool_size p1 m, pool_list := l\<rparr>)))"

definition oc_mmem_free ::
  "oc_mmem_state \<Rightarrow> node option \<Rightarrow> oc_mmem_pool_t \<Rightarrow> oc_mmem_state option" where
  "oc_mmem_free st mo t = (case mo of
     None \<Rightarrow> Some st
   | Some m \<Rightarrow>
       (case t of
          BYTE_POOL \<Rightarrow> map_option (\<lambda>p. st\<lparr>mmem_bytes := p\<rparr>) (pool_release (mmem_bytes st) m)
        | INT_POOL \<Rightarrow> map_option (\<lambda>p. st\<lparr>mmem_ints := p\<rparr>) (pool_release (mmem_ints st) m)
        | DOUBLE_POOL \<Rightarrow> map_option (\<lambda>p. st\<lparr>mmem_doubles := p\<rparr>) (pool_release (mmem_doubles st) m)))"

definition oc_mmem_available_size :: "oc_mmem_state \<Rightarrow> oc_mmem_pool_t \<Rightarrow> nat" where
  "oc_mmem_available_size st t = (case t of
     BYTE_POOL \<Rightarrow> pool_avail (mmem_bytes st)
   | INT_POOL \<Rightarrow> pool_avail (mmem_ints st)
   | DOUBLE_POOL \<Rightarrow> pool_avail (mmem_doubles st))"

definition pool_reset :: "'a mmem_pool \<Rightarrow> 'a mmem_pool" where
  "pool_reset p = p\<lparr>pool_list := oc_list_init (pool_list p), pool_avail := length (pool_cells p)\<rparr>"

definition oc_mmem_init :: "oc_mmem_state \<Rightarrow> oc_mmem_state" where
  "oc_mmem_init st =
     (if mmem_initialized st then st
      else st\<lparr>mmem_bytes := pool_reset (mmem_bytes st), mmem_ints := pool_reset (mmem_ints st),
              mmem_doubles := pool_reset (mmem_doubles st), mmem_initialized := True\<rparr>)"

text \<open>
  With \<open>OC_DYNAMIC_ALLOCATION\<close> the descriptor takes whatever \<open>malloc\<close> returned, and the number of
  bytes asked for is the result.
\<close>

record oc_mmem_dyn =
  dyn_ptr :: "nat option"
  dyn_size :: nat

definition oc_mmem_alloc_dynamic ::
  "nat option \<Rightarrow> oc_mmem_dyn option \<Rightarrow> nat \<Rightarrow> oc_mmem_pool_t \<Rightarrow> u64 \<times> oc_mmem_dyn option" where
  "oc_mmem_alloc_dynamic malloc_ret mo len t = (case mo of
     None \<Rightarrow> (0, None)
   | Some m \<Rightarrow> (mmem_result len t, Some (m\<lparr>dyn_ptr := malloc_ret, dyn_size := len\<rparr>)))"

definition oc_mmem_free_dynamic :: "oc_mmem_dyn option \<Rightarrow> oc_mmem_dyn option" where
  "oc_mmem_free_dynamic mo = map_option (\<lambda>m. m\<lparr>dyn_size := 0\<rparr>) mo"

subsection \<open>The layout of a pool\<close>

text \<open>The blocks of the list follow each other from the start of the array without gaps.\<close>

fun laid_out :: "(node \<Rightarrow> nat) \<Rightarrow> (node \<Rightarrow> nat) \<Rightarrow> nat \<Rightarrow> node list \<Rightarrow> bool" where
  "laid_out ptr sz off [] = True"
| "laid_out ptr sz off (x # xs) = (ptr x = off \<and> laid_out ptr sz (off + sz x) xs)"

definition pool_wf :: "'a mmem_pool \<Rightarrow> node list \<Rightarrow> bool" where
  "pool_wf p xs \<longleftrightarrow> list_repr (pool_list p) xs \<and> laid_out (pool_ptr p) (pool_size p) 0 xs \<and>
     sum_list (map (pool_size p) xs) + pool_avail p = length (pool_cells p)"

text \<open>What the clients of a pool see: the live descriptors and the contents of their blocks.\<close>

definition pool_block :: "'a mmem_pool \<Rightarrow> node \<Rightarrow> 'a list" where
  "pool_block p x = bslice (pool_cells p) (pool_ptr p x) (pool_size p x)"

definition pool_view :: "'a mmem_pool \<Rightarrow> node list \<Rightarrow> (node \<times> 'a list) list" where
  "pool_view p xs = map (\<lambda>x. (x, pool_block p x)) xs"

lemma laid_out_append:
  "laid_out ptr sz off (xs @ ys) \<longleftrightarrow>
     laid_out ptr sz off xs \<and> laid_out ptr sz (off + sum_list (map sz xs)) ys"
  by (induction xs arbitrary: off) (auto simp: add.assoc)

lemma laid_out_cong:
  "(\<And>x. x \<in> set xs \<Longrightarrow> ptr x = ptr' x \<and> sz x = sz' x) \<Longrightarrow> laid_out ptr sz off xs = laid_out ptr' sz' off xs"
  by (induction xs arbitrary: off) auto

lemma laid_out_shift:
  assumes "laid_out ptr sz (off + d) xs" and "\<And>x. x \<in> set xs \<Longrightarrow> ptr' x = ptr x - d"
  shows "laid_out ptr' sz off xs"
  using assms
proof (induction xs arbitrary: off)
  case (Cons x xs)
  from Cons.IH [of "off + sz x"] Cons.prems show ?case by (auto simp: ac_simps)
qed simp

lemma laid_out_bounds:
  assumes "laid_out ptr sz off xs" and "x \<in> set xs"
  shows "off \<le> ptr x \<and> ptr x + sz x \<le> off + sum_list (map sz xs)"
  using assms
proof (induction xs arbitrary: off)
  case (Cons y ys)
  from Cons.IH [of "off + sz y"] Cons.prems show ?case by auto
qed simp

lemma move_ptrs_chain:
  assumes "chain nx n xs"
  shows "move_ptrs nx n d ptr = Some (\<lambda>x. if x \<in> set xs then ptr x - d else ptr x)"
  using assms chain_distinct [OF assms]
proof (induction xs arbitrary: n ptr)
  case (Cons x xs)
  then have "move_ptrs nx n d ptr = move_ptrs nx (nx x) d (ptr(x := ptr x - d))"
    by (subst move_ptrs.simps) simp
  also from Cons have "\<dots> = Some (\<lambda>y. if y \<in> set xs then (ptr(x := ptr x - d)) y - d
      else (ptr(x := ptr x - d)) y)" by (intro Cons.IH) auto
  also from Cons.prems have "\<dots> = Some (\<lambda>y. if y \<in> set (x # xs) then ptr y - d else ptr y)"
    by (auto simp: fun_eq_iff)
  finally show ?case .
qed (simp add: move_ptrs.simps)


lemma pool_take_ok:
  assumes wf: "pool_wf p xs" and new: "m \<notin> set xs" and fits: "len \<le> pool_avail p"
  shows "\<exists>p'. pool_take p m len = Some (True, p') \<and> pool_wf p' (xs @ [m]) \<and>
    pool_cells p' = pool_cells p \<and> pool_avail p' = pool_avail p - len \<and>
    pool_view p' (xs @ [m]) = pool_view p xs @ [(m, pool_block p' m)] \<and>
    length (pool_block p' m) = len"
proof -
  from wf have r: "list_repr (pool_list p) xs" by (simp add: pool_wf_def)
  from list_repr_add [OF r new] obtain l where
    l: "oc_list_add (pool_list p) m = Some l" "list_repr l (xs @ [m])" by auto
  let ?p = "p\<lparr>pool_list := l, pool_ptr := (pool_ptr p)(m := length (pool_cells p) - pool_avail p),
      pool_size := (pool_size p)(m := len), pool_avail := pool_avail p - len\<rparr>"
  have sums: "map ((pool_size p)(m := len)) xs = map (pool_size p) xs"
    using new by (simp add: map_fun_upd)
  have "laid_out (pool_ptr ?p) (pool_size ?p) 0 xs"
    using wf new by (subst laid_out_cong [of xs _ "pool_ptr p" _ "pool_size p"]) (auto simp: pool_wf_def)
  then have "pool_wf ?p (xs @ [m])"
    using wf l(2) fits by (auto simp: pool_wf_def laid_out_append sums)
  moreover have "pool_view ?p xs = pool_view p xs"
    using new by (auto simp: pool_view_def pool_block_def)
  moreover have "length (pool_block ?p m) = len"
    using fits wf by (simp add: pool_block_def buffer_simps pool_wf_def)
  moreover have "pool_take p m len = Some (True, ?p)" using fits l(1) by (simp add: pool_take_def)
  ultimately show ?thesis by (auto simp: pool_view_def)
qed

lemma list_next_chain:
  "list_repr s (ys @ m # zs) \<Longrightarrow> chain (list_next s) (list_next s m) zs"
  unfolding list_repr_def by (rule chain_suffix)

text \<open>Compaction moves every later block down by the size of the released one and keeps its bytes.\<close>

lemma pool_compact_ok:
  assumes wf: "pool_wf p (ys @ m # zs)"
  shows "\<exists>cells ptr. pool_compact p m = Some (p\<lparr>pool_cells := cells, pool_ptr := ptr\<rparr>) \<and>
    length cells = length (pool_cells p) \<and>
    (\<forall>x. ptr x = (if x \<in> set zs then pool_ptr p x - pool_size p m else pool_ptr p x)) \<and>
    (\<forall>x \<in> set ys \<union> set zs. bslice cells (ptr x) (pool_size p x) = pool_block p x)"
proof (cases zs)
  case Nil
  with wf list_next_chain [of "pool_list p" ys m zs] have "list_next (pool_list p) m = None"
    by (simp add: pool_wf_def)
  then have "pool_compact p m = Some (p\<lparr>pool_cells := pool_cells p, pool_ptr := pool_ptr p\<rparr>)"
    by (simp add: pool_compact_def)
  with Nil show ?thesis by (intro exI conjI) (auto simp: pool_block_def)
next
  case (Cons n ns)
  let ?c = "pool_cells p" and ?d = "pool_size p m" and ?sz = "pool_size p"
  let ?used = "length ?c - pool_avail p" and ?src = "pool_ptr p n" and ?dst = "pool_ptr p m"
  let ?ptr = "\<lambda>x. if x \<in> set zs then pool_ptr p x - ?d else pool_ptr p x"
  let ?cells = "write_at ?c ?dst (bslice ?c ?src (?used - ?src))"
  from wf have lay: "laid_out (pool_ptr p) ?sz 0 (ys @ m # zs)"
    and sum: "sum_list (map ?sz (ys @ m # zs)) + pool_avail p = length ?c" by (auto simp: pool_wf_def)
  from lay have dst: "?dst = sum_list (map ?sz ys)" and layz: "laid_out (pool_ptr p) ?sz (?dst + ?d) zs"
    and layy: "laid_out (pool_ptr p) ?sz 0 ys" by (auto simp: laid_out_append)
  from layz have src: "?src = ?dst + ?d" by (simp add: Cons)
  from wf list_next_chain [of "pool_list p" ys m zs] have ch:
    "chain (list_next (pool_list p)) (Some n) zs" "list_next (pool_list p) m = Some n"
    by (auto simp: pool_wf_def Cons)
  have used: "?used = ?src + sum_list (map ?sz zs)" "?used \<le> length ?c" using sum dst src by auto
  have mv: "length (bslice ?c ?src (?used - ?src)) = sum_list (map ?sz zs)"
    using used by (simp add: buffer_simps)
  have eq: "pool_compact p m = Some (p\<lparr>pool_cells := ?cells, pool_ptr := ?ptr\<rparr>)"
    using ch used move_ptrs_chain [OF ch(1), of ?d "pool_ptr p"]
    by (simp add: pool_compact_def Let_def Cons)
  have len: "length ?cells = length ?c"
    using mv used src by (intro length_write_at) auto
  have "set ys \<inter> set zs = {}" using wf list_reprD [of "pool_list p" "ys @ m # zs"]
    by (auto simp: pool_wf_def)
  moreover have "bslice ?cells (pool_ptr p x) (?sz x) = pool_block p x" if "x \<in> set ys" for x
    using laid_out_bounds [OF layy that] dst used src
    by (simp add: pool_block_def bslice_write_at_before)
  moreover have "bslice ?cells (pool_ptr p x - ?d) (?sz x) = pool_block p x" if x: "x \<in> set zs" for x
  proof -
    define k where "k = pool_ptr p x - ?src"
    have b: "?src \<le> pool_ptr p x" "k + ?sz x \<le> sum_list (map ?sz zs)"
      using laid_out_bounds [OF layz x] src by (auto simp: k_def)
    have "bslice ?cells (?dst + k) (?sz x) = bslice (bslice ?c ?src (?used - ?src)) k (?sz x)"
      using b mv used src by (simp add: write_at_def bslice_def)
    also have "\<dots> = pool_block p x"
      using b used by (simp add: pool_block_def bslice_def drop_take k_def min_def)
    finally show ?thesis using b src by (simp add: k_def)
  qed
  ultimately show ?thesis using eq len by (intro exI [of _ ?cells] exI [of _ ?ptr]) auto
qed

lemma pool_release_ok:
  assumes wf: "pool_wf p xs" and m: "m \<in> set xs"
  shows "\<exists>p'. pool_release p m = Some p' \<and> pool_wf p' (remove1 m xs) \<and>
    pool_avail p' = pool_avail p + pool_size p m \<and> length (pool_cells p') = length (pool_cells p) \<and>
    pool_view p' (remove1 m xs) = filter (\<lambda>(x, _). x \<noteq> m) (pool_view p xs)"
proof -
  from m obtain ys zs where xs: "xs = ys @ m # zs" by (auto dest: split_list)
  from wf have d: "distinct xs" by (auto simp: pool_wf_def dest: list_reprD)
  then have rm: "remove1 m xs = ys @ zs" and mem: "m \<notin> set ys" "m \<notin> set zs" "set ys \<inter> set zs = {}"
    by (auto simp: xs remove1_append)
  from pool_compact_ok [OF wf [unfolded xs]] obtain cells ptr where
    c: "pool_compact p m = Some (p\<lparr>pool_cells := cells, pool_ptr := ptr\<rparr>)"
      "length cells = length (pool_cells p)"
      "\<And>x. ptr x = (if x \<in> set zs then pool_ptr p x - pool_size p m else pool_ptr p x)"
      "\<And>x. x \<in> set ys \<union> set zs \<Longrightarrow> bslice cells (ptr x) (pool_size p x) = pool_block p x" by auto
  from wf have "list_repr (pool_list p) xs" by (simp add: pool_wf_def)
  from list_repr_remove [OF this, of m] obtain l where
    l: "oc_list_remove (pool_list p) m = Some l" "list_repr l (ys @ zs)" by (auto simp: rm)
  define p' where "p' = p\<lparr>pool_cells := cells, pool_ptr := ptr,
    pool_avail := pool_avail p + pool_size p m, pool_list := l\<rparr>"
  from wf have lay: "laid_out (pool_ptr p) (pool_size p) 0 ys"
    "laid_out (pool_ptr p) (pool_size p) (sum_list (map (pool_size p) ys) + pool_size p m) zs"
    by (simp_all add: pool_wf_def xs laid_out_append)
  have "ptr x = pool_ptr p x" if "x \<in> set ys" for x using c(3) [of x] mem that by auto
  then have "laid_out ptr (pool_size p) 0 ys" using lay(1) laid_out_cong by metis
  moreover have "laid_out ptr (pool_size p) (sum_list (map (pool_size p) ys)) zs"
    by (rule laid_out_shift [OF lay(2)]) (simp add: c(3))
  ultimately have wf': "pool_wf p' (ys @ zs)"
    using wf l(2) c(2) by (simp add: p'_def pool_wf_def xs laid_out_append)
  have "pool_block p' x = pool_block p x" if "x \<in> set ys \<union> set zs" for x
    using c(4) [OF that] by (simp add: pool_block_def p'_def)
  moreover have "filter (\<lambda>x. x \<noteq> m) xs = ys @ zs"
    using mem by (auto simp: xs intro!: arg_cong2 [where f = append] filter_True)
  ultimately have "pool_view p' (ys @ zs) = map (\<lambda>x. (x, pool_block p x)) (filter (\<lambda>x. x \<noteq> m) xs)"
    by (simp add: pool_view_def)
  then have "pool_view p' (ys @ zs) = filter (\<lambda>(x, _). x \<noteq> m) (pool_view p xs)"
    by (simp add: pool_view_def filter_map o_def)
  moreover have "pool_release p m = Some p'"
    using c(1) l(1) by (simp add: pool_release_def p'_def)
  ultimately show ?thesis using c(2) wf' by (simp add: rm) (simp add: p'_def)
qed

subsection \<open>The contract of a compacting pool\<close>

text \<open>
  A pool of variable-sized blocks as its clients see it: the live blocks with their contents in
  the order of allocation, and the number of free cells.
\<close>

locale compacting_pool =
  fixes wf :: "'s \<Rightarrow> 'n list \<Rightarrow> bool"
    and view :: "'s \<Rightarrow> 'n list \<Rightarrow> ('n \<times> 'a list) list"
    and avail :: "'s \<Rightarrow> nat"
    and capacity :: "'s \<Rightarrow> nat"
    and take_op :: "'s \<Rightarrow> 'n \<Rightarrow> nat \<Rightarrow> (bool \<times> 's) option"
    and release :: "'s \<Rightarrow> 'n \<Rightarrow> 's option"
  assumes wf_distinct: "wf p xs \<Longrightarrow> distinct xs"
    and view_keys: "wf p xs \<Longrightarrow> map fst (view p xs) = xs"
    and view_total: "wf p xs \<Longrightarrow> sum_list (map (length \<circ> snd) (view p xs)) + avail p = capacity p"
    and exhausted_law: "avail p < len \<Longrightarrow> take_op p m len = Some (False, p)"
    and take_law: "wf p xs \<Longrightarrow> m \<notin> set xs \<Longrightarrow> len \<le> avail p \<Longrightarrow>
      \<exists>p' b. take_op p m len = Some (True, p') \<and> wf p' (xs @ [m]) \<and> capacity p' = capacity p \<and>
        view p' (xs @ [m]) = view p xs @ [(m, b)] \<and> length b = len"
    and release_law: "wf p xs \<Longrightarrow> m \<in> set xs \<Longrightarrow>
      \<exists>p'. release p m = Some p' \<and> wf p' (remove1 m xs) \<and> capacity p' = capacity p \<and>
        view p' (remove1 m xs) = filter (\<lambda>(x, _). x \<noteq> m) (view p xs)"
begin

text \<open>Releasing a block that was just taken gives the pool's view back.\<close>

lemma take_release:
  assumes "wf p xs" and "m \<notin> set xs" and "len \<le> avail p"
  shows "\<exists>p1 p2. take_op p m len = Some (True, p1) \<and> release p1 m = Some p2 \<and> wf p2 xs \<and>
    view p2 xs = view p xs \<and> avail p2 = avail p"
proof -
  from take_law [OF assms] obtain p1 b where p1: "take_op p m len = Some (True, p1)" "wf p1 (xs @ [m])"
    "capacity p1 = capacity p" "view p1 (xs @ [m]) = view p xs @ [(m, b)]" by auto
  have rm: "remove1 m (xs @ [m]) = xs" using assms(2) by (simp add: remove1_append)
  from release_law [OF p1(2), of m] obtain p2 where p2: "release p1 m = Some p2" "wf p2 xs"
    "capacity p2 = capacity p" "view p2 xs = filter (\<lambda>(x, _). x \<noteq> m) (view p xs @ [(m, b)])"
    using rm p1 by auto
  have "\<forall>(x, _) \<in> set (view p xs). x \<noteq> m"
    using view_keys [OF assms(1)] assms(2) by (force simp: in_set_conv_decomp)
  then have "view p2 xs = view p xs" using p2(4) by (auto simp: split_beta filter_id_conv)
  with view_total [OF assms(1)] view_total [OF p2(2)] p2 p1(1) show ?thesis by auto
qed

text \<open>Released in any order, the blocks give all cells back.\<close>

lemma release_all:
  "wf p xs \<Longrightarrow> distinct ys \<Longrightarrow> set ys = set xs \<Longrightarrow>
   \<exists>p'. foldM release p ys = Some p' \<and> wf p' [] \<and> avail p' = capacity p"
proof (induction ys arbitrary: p xs)
  case Nil
  then show ?case using view_total [of p "[]"] view_keys [of p "[]"] by auto
next
  case (Cons y ys)
  from release_law [OF Cons.prems(1), of y] Cons.prems obtain p1 where
    p1: "release p y = Some p1" "wf p1 (remove1 y xs)" "capacity p1 = capacity p" by auto
  have "set ys = set (remove1 y xs)"
    using Cons.prems wf_distinct [OF Cons.prems(1)] by auto
  from Cons.IH [OF p1(2) _ this] Cons.prems p1 show ?case by auto
qed

end

lemma view_total_wf:
  assumes "pool_wf p xs"
  shows "sum_list (map (length \<circ> snd) (pool_view p xs)) + pool_avail p = length (pool_cells p)"
proof -
  have "length (pool_block p x) = pool_size p x" if "x \<in> set xs" for x
    using laid_out_bounds [of "pool_ptr p" "pool_size p" 0 xs x] that assms
    by (auto simp: pool_block_def pool_wf_def length_bslice)
  then have "map (length \<circ> snd) (pool_view p xs) = map (pool_size p) xs"
    by (simp add: pool_view_def)
  with assms show ?thesis by (simp add: pool_wf_def)
qed

interpretation mmem: compacting_pool pool_wf pool_view pool_avail "\<lambda>p. length (pool_cells p)"
  pool_take pool_release
proof
  fix p :: "'a mmem_pool" and xs m len
  show "pool_wf p xs \<Longrightarrow> distinct xs" by (auto simp: pool_wf_def dest: list_reprD)
  show "pool_wf p xs \<Longrightarrow> map fst (pool_view p xs) = xs" by (simp add: pool_view_def comp_def)
  show "pool_wf p xs \<Longrightarrow>
      sum_list (map (length \<circ> snd) (pool_view p xs)) + pool_avail p = length (pool_cells p)"
    by (rule view_total_wf)
  show "pool_avail p < len \<Longrightarrow> pool_take p m len = Some (False, p)" by (simp add: pool_take_def)
  show "pool_wf p xs \<Longrightarrow> m \<notin> set xs \<Longrightarrow> len \<le> pool_avail p \<Longrightarrow>
      \<exists>p' b. pool_take p m len = Some (True, p') \<and> pool_wf p' (xs @ [m]) \<and>
        length (pool_cells p') = length (pool_cells p) \<and>
        pool_view p' (xs @ [m]) = pool_view p xs @ [(m, b)] \<and> length b = len"
    using pool_take_ok [of p xs m len] by auto
  show "pool_wf p xs \<Longrightarrow> m \<in> set xs \<Longrightarrow>
      \<exists>p'. pool_release p m = Some p' \<and> pool_wf p' (remove1 m xs) \<and>
        length (pool_cells p') = length (pool_cells p) \<and>
        pool_view p' (remove1 m xs) = filter (\<lambda>(x, _). x \<noteq> m) (pool_view p xs)"
    using pool_release_ok [of p xs m] by auto
qed

subsection \<open>Properties\<close>

text \<open>
  The three pools together: \<open>lv t\<close> is the list of live descriptors of pool \<open>t\<close>, and the view maps
  the cells of every pool to numbers.
\<close>

definition mmem_wf :: "oc_mmem_state \<Rightarrow> (oc_mmem_pool_t \<Rightarrow> node list) \<Rightarrow> bool" where
  "mmem_wf st lv \<longleftrightarrow> pool_wf (mmem_bytes st) (lv BYTE_POOL) \<and> pool_wf (mmem_ints st) (lv INT_POOL) \<and>
     pool_wf (mmem_doubles st) (lv DOUBLE_POOL)"

definition mmem_view :: "oc_mmem_state \<Rightarrow> oc_mmem_pool_t \<Rightarrow> node list \<Rightarrow> (node \<times> nat list) list" where
  "mmem_view st t xs = (case t of
     BYTE_POOL \<Rightarrow> map (apsnd (map unat)) (pool_view (mmem_bytes st) xs)
   | INT_POOL \<Rightarrow> map (apsnd (map unat)) (pool_view (mmem_ints st) xs)
   | DOUBLE_POOL \<Rightarrow> map (apsnd (map unat)) (pool_view (mmem_doubles st) xs))"

lemma filter_map_apsnd: "filter (\<lambda>(x, _). P x) (map (apsnd f) l) = map (apsnd f) (filter (\<lambda>(x, _). P x) l)"
  by (induction l) auto

lemma mmem_result_small:
  assumes "len * memm_type_size t < 2 ^ 31"
  shows "unat (mmem_result len t) = len * memm_type_size t"
proof -
  define n where "n = len * memm_type_size t"
  have n: "n < 2 ^ 31" using assms by (simp add: n_def)
  have u: "unat (of_nat n :: u64) = n" using n by (simp add: unsigned_of_nat take_bit_nat_eq_self)
  have m: "(of_nat len * of_nat (memm_type_size t) :: u64) = of_nat n" by (simp add: n_def)
  have "(ucast (of_nat n :: u64) :: 32 word) = of_nat n"
    using n by (simp add: unsigned_of_nat take_bit_nat_eq_self)
  moreover have "(scast (of_nat n :: 32 word) :: u64) = of_nat n"
    using n by (simp add: scast_eq signed_of_nat signed_take_bit_int_eq_self)
  ultimately show ?thesis by (simp add: mmem_result_def m u flip: n_def)
qed

text \<open>A byte pool of ten cells with two live blocks.\<close>

definition example_mmem :: oc_mmem_state where
  "example_mmem =
     (let empty_list = \<lparr>list_head = None, list_next = (\<lambda>_. None)\<rparr>;
          empty = \<lparr>pool_cells = [0, 0], pool_avail = 2, pool_list = empty_list,
                   pool_ptr = (\<lambda>_. 0), pool_size = (\<lambda>_. 0)\<rparr>
      in \<lparr>mmem_initialized = True,
          mmem_bytes = \<lparr>pool_cells = [1, 2, 3, 4, 5, 0, 0, 0, 0, 0], pool_avail = 5,
            pool_list = \<lparr>list_head = Some 7, list_next = (\<lambda>_. None)(7 := Some 9)\<rparr>,
            pool_ptr = (\<lambda>_. 0)(9 := 2), pool_size = (\<lambda>_. 3)(7 := 2)\<rparr>,
          mmem_ints = empty, mmem_doubles = empty\<rparr>)"

definition example_live :: "oc_mmem_pool_t \<Rightarrow> node list" where
  "example_live t = (case t of BYTE_POOL \<Rightarrow> [7, 9] | _ \<Rightarrow> [])"

lemma example_mmem_wf: "mmem_wf example_mmem example_live"
  by (simp add: mmem_wf_def pool_wf_def example_mmem_def example_live_def list_repr_def Let_def)

text \<open>
  Allocation from a managed pool: it fails exactly when fewer cells than asked for are left,
  and then returns 0 and changes nothing. Otherwise it returns the number of bytes, the new block
  is the last one of its pool with the size asked for, the blocks of all three pools keep their
  contents, and exactly that many cells fewer are left.
\<close>

theorem oc_mmem_alloc_correct:
  assumes "mmem_wf st lv" and "m \<notin> set (lv t)" and "len * memm_type_size t < 2 ^ 31"
  shows "if oc_mmem_available_size st t < len then oc_mmem_alloc st (Some m) len t = Some (0, st)
    else \<exists>ret st' b. oc_mmem_alloc st (Some m) len t = Some (ret, st') \<and>
      unat ret = len * memm_type_size t \<and> length b = len \<and> mmem_wf st' (lv(t := lv t @ [m])) \<and>
      oc_mmem_available_size st' t = oc_mmem_available_size st t - len \<and>
      mmem_view st' t (lv t @ [m]) = mmem_view st t (lv t) @ [(m, b)] \<and>
      (\<forall>u. u \<noteq> t \<longrightarrow> mmem_view st' u (lv u) = mmem_view st u (lv u))"
proof (cases "oc_mmem_available_size st t < len")
  case True
  then show ?thesis
    by (cases t) (simp_all add: oc_mmem_alloc_def oc_mmem_available_size_def pool_take_def)
next
  case False
  with assms mmem_result_small [OF assms(3)] pool_take_ok [of "mmem_bytes st" "lv t" m len]
    pool_take_ok [of "mmem_ints st" "lv t" m len] pool_take_ok [of "mmem_doubles st" "lv t" m len]
  show ?thesis
    by (cases t) (auto simp: oc_mmem_alloc_def mmem_wf_def oc_mmem_available_size_def mmem_view_def
        simp del: map_option_eq_Some split: oc_mmem_pool_t.split)
qed

theorem oc_mmem_alloc_correct_witness:
  "mmem_wf example_mmem example_live \<and>
   (\<exists>ret st' b. oc_mmem_alloc example_mmem (Some 4) 3 BYTE_POOL = Some (ret, st') \<and> unat ret = 3 \<and>
      mmem_view st' BYTE_POOL [7, 9, 4] = [(7, [1, 2]), (9, [3, 4, 5]), (4, b)] \<and> length b = 3)"
proof -
  have "oc_mmem_available_size example_mmem BYTE_POOL = 5"
    and "memm_type_size BYTE_POOL = 1" and "example_live BYTE_POOL = [7, 9]"
    and "mmem_view example_mmem BYTE_POOL [7, 9] = [(7, [1, 2]), (9, [3, 4, 5])]"
    by (simp_all add: oc_mmem_available_size_def example_mmem_def Let_def memm_type_size_def
        example_live_def mmem_view_def pool_view_def pool_block_def bslice_def)
  with oc_mmem_alloc_correct [OF example_mmem_wf, of 4 BYTE_POOL 3] example_mmem_wf
  show ?thesis by auto
qed

text \<open>
  C31. Releasing a live block of a managed pool returns, removes that block only, and every other
  block keeps its contents although the pool is compacted and the blocks behind the released one
  move; the free cells grow by the released size. Releasing all live blocks of the byte pool, in
  any order, gives the whole pool back.
\<close>

theorem oc_mmem_free_correct:
  assumes "mmem_wf st lv" and "m \<in> set (lv t)"
  shows "(\<exists>st'. oc_mmem_free st (Some m) t = Some st' \<and> mmem_wf st' (lv(t := remove1 m (lv t))) \<and>
      mmem_view st' t (remove1 m (lv t)) = filter (\<lambda>(x, _). x \<noteq> m) (mmem_view st t (lv t)) \<and>
      (\<forall>u. u \<noteq> t \<longrightarrow> mmem_view st' u (lv u) = mmem_view st u (lv u))) \<and>
    (distinct ys \<and> set ys = set (lv BYTE_POOL) \<longrightarrow>
      (\<exists>p'. foldM pool_release (mmem_bytes st) ys = Some p' \<and> pool_wf p' [] \<and>
        pool_avail p' = length (pool_cells (mmem_bytes st))))"
proof
  show "\<exists>st'. oc_mmem_free st (Some m) t = Some st' \<and> mmem_wf st' (lv(t := remove1 m (lv t))) \<and>
      mmem_view st' t (remove1 m (lv t)) = filter (\<lambda>(x, _). x \<noteq> m) (mmem_view st t (lv t)) \<and>
      (\<forall>u. u \<noteq> t \<longrightarrow> mmem_view st' u (lv u) = mmem_view st u (lv u))"
    using assms pool_release_ok [of "mmem_bytes st" "lv t" m] pool_release_ok [of "mmem_ints st" "lv t" m]
      pool_release_ok [of "mmem_doubles st" "lv t" m]
    by (cases t) (auto simp: oc_mmem_free_def mmem_wf_def mmem_view_def filter_map_apsnd
        split: oc_mmem_pool_t.split)
  show "distinct ys \<and> set ys = set (lv BYTE_POOL) \<longrightarrow>
      (\<exists>p'. foldM pool_release (mmem_bytes st) ys = Some p' \<and> pool_wf p' [] \<and>
        pool_avail p' = length (pool_cells (mmem_bytes st)))"
    using mmem.release_all [of "mmem_bytes st" "lv BYTE_POOL" ys] assms(1)
    by (simp add: mmem_wf_def)
qed

theorem oc_mmem_free_correct_witness:
  "mmem_wf example_mmem example_live \<and>
   (\<exists>st'. oc_mmem_free example_mmem (Some 7) BYTE_POOL = Some st' \<and>
      mmem_view st' BYTE_POOL [9] = [(9, [3, 4, 5])]) \<and>
   (\<exists>p'. foldM pool_release (mmem_bytes example_mmem) [7, 9] = Some p' \<and> pool_avail p' = 10)"
proof -
  have l: "example_live BYTE_POOL = [7, 9]" "length (pool_cells (mmem_bytes example_mmem)) = 10"
    and v: "mmem_view example_mmem BYTE_POOL [7, 9] = [(7, [1, 2]), (9, [3, 4, 5])]"
    by (simp_all add: example_mmem_def Let_def
        example_live_def mmem_view_def pool_view_def pool_block_def bslice_def)
  from oc_mmem_free_correct [OF example_mmem_wf, of 7 BYTE_POOL "[7, 9]"] l v example_mmem_wf
  show ?thesis by (auto simp del: foldM.simps)
qed

end
