(* ===== verification/OcEventQueue.thy ===== *)
theory OcEventQueue
  imports OcPrelude
begin

text \<open>
  The event queue of \<open>util/oc_process.c\<close>: the circular buffer \<open>g_events\<close> with its first event
  \<open>g_fevent\<close>, its number of events \<open>g_nevents\<close> and its capacity \<open>OC_PROCESS_NUMEVENTS\<close>, which doubles
  under \<open>OC_DYNAMIC_ALLOCATION\<close> when the buffer is full. A process is identified by a number;
  the receiver \<open>OC_PROCESS_BROADCAST\<close> is \<open>NULL\<close>. The three counters are \<open>unsigned long\<close> (or
  \<open>unsigned char\<close> with the capacity fixed at 10) and stay far below their range.
\<close>

record event_data =
  ed_ev :: u8
  ed_data :: "nat option"
  ed_p :: "nat option"

record event_queue =
  q_numevents :: nat
  q_nevents :: nat
  q_fevent :: nat
  q_events :: "event_data list"

definition zero_event :: event_data where
  "zero_event = \<lparr>ed_ev = 0, ed_data = None, ed_p = None\<rparr>"

text \<open>The part of \<open>oc_process_init\<close> that sets the queue up; the buffer comes from \<open>calloc\<close>.\<close>

definition queue_init :: "nat \<Rightarrow> event_queue" where
  "queue_init num = \<lparr>q_numevents = num, q_nevents = 0, q_fevent = 0,
     q_events = replicate num zero_event\<rparr>"

text \<open>
  The \<open>while\<close> loop of \<open>oc_process_post\<close> that moves the events from \<open>g_fevent\<close> up to the old end of
  the buffer to the new end, and clears the cells it walks over.
\<close>

function grow_loop ::
  "nat \<Rightarrow> nat \<Rightarrow> nat \<Rightarrow> event_data list \<Rightarrow> nat \<Rightarrow> nat \<Rightarrow> event_data list" where
  "grow_loop num n nevents evs i j =
     (if i < num - n then
        if i < nevents
        then grow_loop num n nevents ((evs[num - n + j := evs ! i])[i := zero_event]) (Suc i) (Suc j)
        else grow_loop num n nevents (evs[i := zero_event]) (Suc i) j
      else evs)"
  by pat_completeness auto
termination
  by (relation "measure (\<lambda>(num, n, nevents, evs, i, j). num - n - i)") auto

declare grow_loop.simps [simp del]

text \<open>
  \<open>realloc\<close> to twice the capacity: \<open>junk\<close> gives the uninitialised cells, and \<open>None\<close> stands for a
  failed \<open>realloc\<close>, after which \<open>oc_abort\<close> ends the program.
\<close>

definition queue_grow :: "(nat \<Rightarrow> event_data) option \<Rightarrow> event_queue \<Rightarrow> event_queue option" where
  "queue_grow junk q = (case junk of
     None \<Rightarrow> None
   | Some c \<Rightarrow>
       (let num = 2 * q_numevents q;
            evs = q_events q @ map c [q_numevents q ..< num];
            n = q_nevents q - q_fevent q
        in Some (q\<lparr>q_numevents := num,
                   q_events := grow_loop num n (q_nevents q) evs (q_fevent q) 0,
                   q_fevent := num - n\<rparr>)))"

definition OC_PROCESS_ERR_OK :: nat where "OC_PROCESS_ERR_OK = 0"
definition OC_PROCESS_ERR_FULL :: nat where "OC_PROCESS_ERR_FULL = 1"

definition queue_put :: "event_queue \<Rightarrow> event_data \<Rightarrow> event_queue" where
  "queue_put q e =
     (let snum = (q_fevent q + q_nevents q) mod q_numevents q
      in q\<lparr>q_events := (q_events q)[snum := e], q_nevents := q_nevents q + 1\<rparr>)"

text \<open>\<open>dyn\<close> says whether \<open>OC_DYNAMIC_ALLOCATION\<close> is defined.\<close>

definition oc_process_post ::
  "bool \<Rightarrow> (nat \<Rightarrow> event_data) option \<Rightarrow> event_queue \<Rightarrow> nat option \<Rightarrow> u8 \<Rightarrow> nat option \<Rightarrow>
   (nat \<times> event_queue) option" where
  "oc_process_post dyn junk q p ev data =
     (let e = \<lparr>ed_ev = ev, ed_data = data, ed_p = p\<rparr>
      in if q_nevents q = q_numevents q then
           if dyn then map_option (\<lambda>q1. (OC_PROCESS_ERR_OK, queue_put q1 e)) (queue_grow junk q)
           else Some (OC_PROCESS_ERR_FULL, q)
         else Some (OC_PROCESS_ERR_OK, queue_put q e))"

text \<open>The first half of \<open>do_event\<close>: read the first event and advance.\<close>

definition queue_take :: "event_queue \<Rightarrow> (event_data \<times> event_queue) option" where
  "queue_take q =
     (if q_nevents q = 0 then None
      else Some (q_events q ! q_fevent q,
                 q\<lparr>q_fevent := (q_fevent q + 1) mod q_numevents q, q_nevents := q_nevents q - 1\<rparr>))"

function find_event :: "event_queue \<Rightarrow> u8 \<Rightarrow> nat \<Rightarrow> bool" where
  "find_event q ev i =
     (if i < q_nevents q then
        if ed_ev (q_events q ! ((q_fevent q + i) mod q_numevents q)) = ev then True
        else find_event q ev (Suc i)
      else False)"
  by pat_completeness auto
termination
  by (relation "measure (\<lambda>(q, ev, i). q_nevents q - i)") auto

declare find_event.simps [simp del]

definition oc_process_is_closing_all_tls_sessions :: "u8 \<Rightarrow> event_queue \<Rightarrow> bool" where
  "oc_process_is_closing_all_tls_sessions tls_close q = find_event q tls_close 0"

text \<open>
  \<open>oc_process_iterate_events\<close> hands the events to a callback that may stop the iteration; \<open>fn\<close>
  threads the callback's own data.
\<close>

function iterate_from ::
  "(event_data \<Rightarrow> 'd \<Rightarrow> bool \<times> 'd) \<Rightarrow> event_queue \<Rightarrow> nat \<Rightarrow> 'd \<Rightarrow> 'd" where
  "iterate_from fn q i d =
     (if i < q_nevents q then
        (case fn (q_events q ! ((q_fevent q + i) mod q_numevents q)) d of
           (go, d') \<Rightarrow> if go then iterate_from fn q (Suc i) d' else d')
      else d)"
  by pat_completeness auto
termination
  by (relation "measure (\<lambda>(fn, q, i, d). q_nevents q - i)") auto

declare iterate_from.simps [simp del]

definition oc_process_iterate_events ::
  "(event_data \<Rightarrow> 'd \<Rightarrow> bool \<times> 'd) \<Rightarrow> event_queue \<Rightarrow> 'd \<Rightarrow> 'd" where
  "oc_process_iterate_events fn q d = iterate_from fn q 0 d"

text \<open>Closing the gap at position \<open>index\<close> of the buffer, in one or two \<open>memmove\<close>s.\<close>

definition queue_close_gap :: "event_queue \<Rightarrow> nat \<Rightarrow> event_queue" where
  "queue_close_gap q index =
     (if q_nevents q > 1 then
        (let evs = q_events q; num = q_numevents q;
             last_index = (q_fevent q + q_nevents q - 1) mod num
         in if index \<le> last_index
            then q\<lparr>q_events := write_at evs index (bslice evs (index + 1) (last_index - index))\<rparr>
            else (let evs1 = write_at evs index (bslice evs (index + 1) (num - 1 - index));
                      evs2 = evs1[num - 1 := evs1 ! 0];
                      evs3 = write_at evs2 0 (bslice evs2 1 last_index)
                  in q\<lparr>q_events := evs3\<rparr>))
      else q)"

lemma q_nevents_close_gap [simp]: "q_nevents (queue_close_gap q i) = q_nevents q"
  by (simp add: queue_close_gap_def Let_def)

function drop_from ::
  "nat \<Rightarrow> (u8 \<Rightarrow> nat option \<Rightarrow> bool) \<Rightarrow> event_queue \<Rightarrow> nat \<Rightarrow> nat \<Rightarrow> nat \<times> event_queue" where
  "drop_from p drop_event q i dropped =
     (if i < q_nevents q then
        (let index = (q_fevent q + i) mod q_numevents q; e = q_events q ! index
         in if ed_p e \<noteq> Some p \<or> \<not> drop_event (ed_ev e) (ed_data e)
            then drop_from p drop_event q (Suc i) dropped
            else drop_from p drop_event
                   ((queue_close_gap q index)\<lparr>q_nevents := q_nevents q - 1\<rparr>) i (Suc dropped))
      else (dropped, q))"
  by pat_completeness auto
termination
  by (relation "measure (\<lambda>(p, d, q, i, n). q_nevents q - i)") (auto simp: Let_def)

declare drop_from.simps [simp del]

definition oc_process_drop ::
  "nat option \<Rightarrow> (u8 \<Rightarrow> nat option \<Rightarrow> bool) option \<Rightarrow> event_queue \<Rightarrow> nat \<times> event_queue" where
  "oc_process_drop p drop_event q = (case (p, drop_event) of
     (Some pr, Some f) \<Rightarrow> drop_from pr f q 0 0
   | _ \<Rightarrow> (0, q))"

subsection \<open>The queue a buffer represents\<close>

definition queue_wf :: "event_queue \<Rightarrow> bool" where
  "queue_wf q \<longleftrightarrow> 0 < q_numevents q \<and> length (q_events q) = q_numevents q \<and>
     q_fevent q < q_numevents q \<and> q_nevents q \<le> q_numevents q"

definition queue_at :: "event_queue \<Rightarrow> nat \<Rightarrow> event_data" where
  "queue_at q i = q_events q ! ((q_fevent q + i) mod q_numevents q)"

definition queue_items :: "event_queue \<Rightarrow> event_data list" where
  "queue_items q = map (queue_at q) [0..<q_nevents q]"

lemma length_queue_items [simp]: "length (queue_items q) = q_nevents q"
  by (simp add: queue_items_def)

lemma nth_queue_items [simp]: "i < q_nevents q \<Longrightarrow> queue_items q ! i = queue_at q i"
  by (simp add: queue_items_def)

text \<open>Positions of a circular buffer: one conditional instead of a remainder.\<close>

lemma circ_pos: "f < (n::nat) \<Longrightarrow> i \<le> n \<Longrightarrow> (f + i) mod n = (if f + i < n then f + i else f + i - n)"
  by (auto simp: mod_if)

lemma queue_init_ok: "0 < num \<Longrightarrow> queue_wf (queue_init num) \<and> queue_items (queue_init num) = []"
  by (simp add: queue_wf_def queue_init_def queue_items_def)

lemma queue_put_ok:
  assumes wf: "queue_wf q" and room: "q_nevents q < q_numevents q"
  shows "queue_wf (queue_put q e) \<and> queue_items (queue_put q e) = queue_items q @ [e]"
proof
  show "queue_wf (queue_put q e)" using assms by (simp add: queue_wf_def queue_put_def Let_def)
  show "queue_items (queue_put q e) = queue_items q @ [e]"
  proof (rule nth_equalityI)
    fix i assume "i < length (queue_items (queue_put q e))"
    then have i: "i \<le> q_nevents q" by (simp add: queue_put_def Let_def)
    then show "queue_items (queue_put q e) ! i = (queue_items q @ [e]) ! i"
      using assms by (auto simp: queue_put_def Let_def queue_at_def nth_append queue_wf_def
          nth_list_update circ_pos split: if_splits)
  qed (simp add: queue_put_def Let_def)
qed

lemma queue_take_ok:
  assumes wf: "queue_wf q" and items: "queue_items q = e # es"
  shows "\<exists>q'. queue_take q = Some (e, q') \<and> queue_wf q' \<and> queue_items q' = es \<and>
    q_numevents q' = q_numevents q"
proof -
  from items have n: "q_nevents q = Suc (length es)" by (metis length_Cons length_queue_items)
  let ?q = "q\<lparr>q_fevent := (q_fevent q + 1) mod q_numevents q, q_nevents := q_nevents q - 1\<rparr>"
  have "q_events q ! q_fevent q = queue_items q ! 0"
    using n wf by (simp add: queue_at_def queue_wf_def)
  then have "queue_take q = Some (e, ?q)" using n items by (simp add: queue_take_def)
  moreover have "queue_wf ?q" using wf by (auto simp: queue_wf_def)
  moreover have "queue_items ?q = es"
  proof (rule nth_equalityI)
    fix i assume "i < length (queue_items ?q)"
    then have i: "Suc i < q_nevents q" using n by simp
    then have "es ! i = queue_at q (Suc i)" using items by (metis nth_Cons_Suc nth_queue_items)
    then show "queue_items ?q ! i = es ! i"
      using i by (simp add: queue_at_def mod_add_left_eq)
  qed (simp add: n)
  ultimately show ?thesis by auto
qed

lemma queue_take_empty: "queue_items q = [] \<Longrightarrow> queue_take q = None"
  by (simp add: queue_items_def queue_take_def)

subsection \<open>Growing the buffer\<close>

text \<open>
  The loop of the growth step: cell \<open>c\<close> of the old tail \<open>f .. < nevents\<close> ends up at distance
  \<open>c - f\<close> behind \<open>num - n\<close>, and the cells below \<open>f\<close> are not touched.
\<close>

lemma grow_loop_nth:
  assumes "length evs = num" and "M = num - n" and "nevents \<le> M" and "num = M + (nevents - f)"
    and "f \<le> i" and "j = min i nevents - f" and "f \<le> nevents" and "k < num"
  shows "grow_loop num n nevents evs i j ! k =
    (if k < i then evs ! k else if k < M then zero_event
     else if k < M + j then evs ! k else evs ! (f + (k - M)))"
  using assms
proof (induction num n nevents evs i j rule: grow_loop.induct)
  case (1 num n nevents evs i j)
  note M = "1.prems"(2) [symmetric]
  consider "\<not> i < M" | "i < M" "i < nevents" | "i < M" "\<not> i < nevents" by blast
  then show ?case
  proof cases
    case 1
    then have "grow_loop num n nevents evs i j = evs"
      by (simp add: grow_loop.simps [of num n nevents evs i j] M)
    moreover from 1 "1.prems"(3) have "min i nevents = nevents" by simp
    ultimately show ?thesis using 1 "1.prems"(4,6,8) by simp
  next
    case 2
    let ?evs = "(evs[M + j := evs ! i])[i := zero_event]"
    have "grow_loop num n nevents evs i j = grow_loop num n nevents ?evs (Suc i) (Suc j)"
      using 2 by (simp add: grow_loop.simps [of num n nevents evs i j] M)
    also have "\<dots> ! k = (if k < Suc i then ?evs ! k else if k < M then zero_event
         else if k < M + Suc j then ?evs ! k else ?evs ! (f + (k - M)))"
      by (rule "1.IH"(1) [unfolded M]) (use 2 "1.prems"(1,3,4,5,6,7,8) in \<open>simp_all\<close>)
    finally have *: "grow_loop num n nevents evs i j ! k = \<dots>" .
    have jf: "j = i - f" using 2 "1.prems"(6) by simp
    have b: "i < num" "M + j < num" "length evs = num" "k < num" "f + (k - M) < M \<or> k < M"
      using 2 "1.prems"(1,3,4,5,7,8) jf by auto
    consider "k < i" | "k = i" | "i < k" "k < M" | "M \<le> k" "k < M + j" | "k = M + j" | "M + j < k"
      using 2 by linarith
    then show ?thesis unfolding *
      using 2 b jf "1.prems"(5) by cases (simp_all add: nth_list_update)
  next
    case 3
    let ?evs = "evs[i := zero_event]"
    have "grow_loop num n nevents evs i j = grow_loop num n nevents ?evs (Suc i) j"
      using 3 by (simp add: grow_loop.simps [of num n nevents evs i j] M)
    also have "\<dots> ! k = (if k < Suc i then ?evs ! k else if k < M then zero_event
         else if k < M + j then ?evs ! k else ?evs ! (f + (k - M)))"
      by (rule "1.IH"(2) [unfolded M]) (use 3 "1.prems"(1,3,4,5,6,7,8) in \<open>simp_all\<close>)
    finally have *: "grow_loop num n nevents evs i j ! k = \<dots>" .
    have "M \<le> k \<Longrightarrow> k < M + j" and "i < num" using 3 "1.prems"(3,4,6,8) by auto
    then show ?thesis using 3 "1.prems"(1) by (auto simp: * nth_list_update)
  qed
qed

lemma length_grow_loop: "length (grow_loop num n nevents evs i j) = length evs"
proof (induction num n nevents evs i j rule: grow_loop.induct)
  case (1 num n nevents evs i j)
  then show ?case by (subst grow_loop.simps) simp
qed

lemma queue_grow_ok:
  assumes wf: "queue_wf q" and full: "q_nevents q = q_numevents q"
  shows "\<exists>q'. queue_grow (Some c) q = Some q' \<and> queue_wf q' \<and> queue_items q' = queue_items q \<and>
    q_nevents q' = q_nevents q \<and> q_numevents q' = 2 * q_numevents q"
proof -
  define N f where "N = q_numevents q" and "f = q_fevent q"
  define evs where "evs = q_events q @ map c [N ..< 2 * N]"
  define q' where "q' = q\<lparr>q_numevents := 2 * N,
    q_events := grow_loop (2 * N) (N - f) N evs f 0, q_fevent := 2 * N - (N - f)\<rparr>"
  have b: "0 < N" "f < N" "length (q_events q) = N" "length evs = 2 * N"
    using wf by (auto simp: queue_wf_def N_def f_def evs_def)
  have "queue_grow (Some c) q = Some q'"
    by (simp add: queue_grow_def q'_def Let_def full evs_def N_def f_def)
  moreover have "queue_wf q'"
    using b full by (simp add: queue_wf_def q'_def length_grow_loop N_def)
  moreover have "queue_at q' i = queue_at q i" if i: "i < N" for i
  proof (cases "f + i < N")
    case True
    then have pos: "(2 * N - (N - f) + i) mod (2 * N) = N + f + i" using b by simp
    have "queue_at q' i = grow_loop (2 * N) (N - f) N evs f 0 ! (N + f + i)"
      using pos by (simp add: queue_at_def q'_def del: diff_diff_cancel add_diff_assoc2 diff_add_assoc2)
    also have "\<dots> = evs ! (f + i)"
      using b True by (subst grow_loop_nth [where f = f and M = "N + f"]) auto
    finally show ?thesis using b True i by (simp add: queue_at_def evs_def N_def f_def nth_append)
  next
    case False
    then have pos: "(2 * N - (N - f) + i) mod (2 * N) = f + i - N" using b i
      by (simp add: mod_if)
    have "queue_at q' i = grow_loop (2 * N) (N - f) N evs f 0 ! (f + i - N)"
      using pos by (simp add: queue_at_def q'_def del: diff_diff_cancel add_diff_assoc2 diff_add_assoc2)
    also have "\<dots> = evs ! (f + i - N)"
      using b False i by (subst grow_loop_nth [where f = f and M = "N + f"]) auto
    finally show ?thesis
      using b False i circ_pos [of f N i] by (simp add: queue_at_def evs_def nth_append flip: N_def f_def)
  qed
  then have "queue_items q' = queue_items q"
    by (intro nth_equalityI) (auto simp: q'_def full N_def)
  ultimately show ?thesis by (auto simp: q'_def N_def)
qed

subsection \<open>Dropping events\<close>

text \<open>Where the element at distance \<open>j\<close> comes from when the gap at distance \<open>i\<close> is closed.\<close>

definition wrap :: "nat \<Rightarrow> nat \<Rightarrow> nat" where
  "wrap N y = (if y < N then y else y - N)"

lemma gap_one_move:
  assumes "f < N" "Suc k \<le> N" "i \<le> k" "j < k" "wrap N (f + i) \<le> wrap N (f + k)"
  shows "(if wrap N (f + i) \<le> wrap N (f + j) \<and> wrap N (f + j) < wrap N (f + k)
      then Suc (wrap N (f + j)) else wrap N (f + j)) = wrap N (f + (if j < i then j else Suc j))"
  using assms by (auto simp: wrap_def split: if_splits)

definition after_first_move :: "nat \<Rightarrow> nat \<Rightarrow> nat \<Rightarrow> nat" where
  "after_first_move N x p = (if p = N - 1 then 0 else if x \<le> p then Suc p else p)"

lemma gap_two_moves:
  assumes "f < N" "Suc k \<le> N" "i \<le> k" "j < k" "wrap N (f + k) < wrap N (f + i)"
  shows "after_first_move N (wrap N (f + i))
      (if wrap N (f + j) < wrap N (f + k) then Suc (wrap N (f + j)) else wrap N (f + j)) =
    wrap N (f + (if j < i then j else Suc j))"
  using assms by (auto simp: wrap_def after_first_move_def split: if_splits)

lemma circ_wrap: "f < N \<Longrightarrow> i \<le> N \<Longrightarrow> (f + i) mod N = wrap N (f + i)"
  by (simp add: circ_pos wrap_def)

lemma queue_close_gap_at:
  assumes wf: "queue_wf q" and i: "i < q_nevents q" and j: "j < q_nevents q - 1"
  shows "queue_at (queue_close_gap q ((q_fevent q + i) mod q_numevents q)) j =
    queue_at q (if j < i then j else Suc j)"
proof -
  define N f E where "N = q_numevents q" and "f = q_fevent q" and "E = q_events q"
  define k where "k = q_nevents q - 1"
  have b: "f < N" "length E = N" "Suc k \<le> N" "i \<le> k" "j < k" "q_nevents q = Suc k"
    using assms by (auto simp: queue_wf_def N_def f_def k_def E_def)
  define x l p where "x = wrap N (f + i)" and "l = wrap N (f + k)" and "p = wrap N (f + j)"
  have pos: "(f + i) mod N = x" "(f + k) mod N = l" "(f + j) mod N = p"
    "(f + (if j < i then j else Suc j)) mod N = wrap N (f + (if j < i then j else Suc j))"
    using b by (auto simp: x_def l_def p_def circ_wrap simp del: add_Suc_right)
  have lt: "x < N" "l < N" "p < N" using b pos by (auto simp flip: pos)
  have gap: "queue_close_gap q x =
      (if x \<le> l then q\<lparr>q_events := write_at E x (bslice E (x + 1) (l - x))\<rparr>
       else (let E1 = write_at E x (bslice E (x + 1) (N - 1 - x)); E2 = E1[N - 1 := E1 ! 0]
             in q\<lparr>q_events := write_at E2 0 (bslice E2 1 l)\<rparr>))"
    using b pos(2) by (simp add: queue_close_gap_def Let_def N_def f_def E_def)
  have "q_events (queue_close_gap q x) ! p = E ! wrap N (f + (if j < i then j else Suc j))"
  proof (cases "x \<le> l")
    case True
    from True have "q_events (queue_close_gap q x) ! p = E ! (if x \<le> p \<and> p < l then Suc p else p)"
      using b lt by (simp add: gap nth_write_bslice)
    also have "(if x \<le> p \<and> p < l then Suc p else p) = wrap N (f + (if j < i then j else Suc j))"
      unfolding x_def l_def p_def by (rule gap_one_move) (use b True in \<open>simp_all add: x_def l_def\<close>)
    finally show ?thesis .
  next
    case False
    define E1 where "E1 = write_at E x (bslice E (x + 1) (N - 1 - x))"
    define E2 where "E2 = E1[N - 1 := E1 ! 0]"
    have lenE1: "length E1 = N" using b lt by (simp add: E1_def buffer_simps)
    have E2: "E2 ! r = E ! after_first_move N x r" if "r < N" for r
      using that lenE1 False b lt
      by (auto simp: E2_def nth_list_update E1_def nth_write_bslice after_first_move_def)
    have "q_events (queue_close_gap q x) ! p = E2 ! (if p < l then Suc p else p)"
    proof -
      have "queue_close_gap q x = q\<lparr>q_events := write_at E2 0 (bslice E2 1 l)\<rparr>"
        using False by (simp only: gap if_False Let_def E1_def E2_def)
      moreover have "length E2 = N" using lenE1 by (simp add: E2_def)
      ultimately show ?thesis using False lt by (simp add: nth_write_bslice)
    qed
    also have "\<dots> = E ! after_first_move N x (if p < l then Suc p else p)"
      using lt by (intro E2) auto
    also have "after_first_move N x (if p < l then Suc p else p) = wrap N (f + (if j < i then j else Suc j))"
      unfolding x_def l_def p_def by (rule gap_two_moves) (use b False in \<open>simp_all add: x_def l_def\<close>)
    finally show ?thesis .
  qed
  moreover have "q_fevent (queue_close_gap q x) = f" "q_numevents (queue_close_gap q x) = N"
    by (simp_all add: queue_close_gap_def Let_def N_def f_def)
  ultimately show ?thesis by (simp only: queue_at_def pos flip: N_def f_def E_def)
qed

lemma queue_remove_ok:
  assumes wf: "queue_wf q" and i: "i < q_nevents q"
  defines "q' \<equiv> (queue_close_gap q ((q_fevent q + i) mod q_numevents q))\<lparr>q_nevents := q_nevents q - 1\<rparr>"
  shows "queue_wf q' \<and> queue_items q' = take i (queue_items q) @ drop (Suc i) (queue_items q)"
proof
  let ?x = "(q_fevent q + i) mod q_numevents q"
  have "length (q_events (queue_close_gap q x)) = q_numevents q" if "x < q_numevents q" for x
  proof -
    have "length (q_events q) = q_numevents q"
      and "(q_fevent q + q_nevents q - 1) mod q_numevents q < q_numevents q"
      using wf by (auto simp: queue_wf_def)
    with that show ?thesis by (auto simp: queue_close_gap_def Let_def buffer_simps)
  qed
  moreover have "?x < q_numevents q" using wf by (simp add: queue_wf_def)
  ultimately have "length (q_events (queue_close_gap q ?x)) = q_numevents q" by blast
  then show "queue_wf q'" using wf by (auto simp: queue_wf_def q'_def queue_close_gap_def Let_def)
  show "queue_items q' = take i (queue_items q) @ drop (Suc i) (queue_items q)"
  proof (rule nth_equalityI)
    fix j assume "j < length (queue_items q')"
    then have j: "j < q_nevents q - 1" by (simp add: q'_def)
    have "queue_at q' j = queue_at (queue_close_gap q ?x) j"
      by (simp add: queue_at_def q'_def)
    with j i queue_close_gap_at [OF wf i j]
    show "queue_items q' ! j = (take i (queue_items q) @ drop (Suc i) (queue_items q)) ! j"
      by (auto simp: q'_def nth_append min_def)
  qed (use i in \<open>simp add: q'_def\<close>)
qed

text \<open>Dropping the matching events of one process is a filter on the represented queue.\<close>

definition drop_match :: "nat \<Rightarrow> (u8 \<Rightarrow> nat option \<Rightarrow> bool) \<Rightarrow> event_data \<Rightarrow> bool" where
  "drop_match p f e \<longleftrightarrow> ed_p e = Some p \<and> f (ed_ev e) (ed_data e)"

lemma drop_from_filter:
  assumes "queue_wf q" and "i \<le> q_nevents q"
  shows "\<exists>q'. drop_from p f q i d = (d + length (filter (drop_match p f) (drop i (queue_items q))), q') \<and>
    queue_wf q' \<and>
    queue_items q' = take i (queue_items q) @ filter (\<lambda>e. \<not> drop_match p f e) (drop i (queue_items q))"
  using assms
proof (induction p f q i d rule: drop_from.induct)
  case (1 p f q i d)
  let ?x = "(q_fevent q + i) mod q_numevents q"
  let ?xs = "queue_items q" and ?e = "q_events q ! ?x"
  show ?case
  proof (cases "i < q_nevents q")
    case False
    then have "drop_from p f q i d = (d, q)" by (simp add: drop_from.simps [of p f q i d])
    with False "1.prems" show ?thesis by simp
  next
    case lt: True
    have dr: "drop i ?xs = ?e # drop (Suc i) ?xs"
      using lt by (simp add: Cons_nth_drop_Suc [symmetric] queue_at_def)
    show ?thesis
    proof (cases "drop_match p f ?e")
      case False
      then have "drop_from p f q i d = drop_from p f q (Suc i) d"
        using lt by (simp add: drop_from.simps [of p f q i d] drop_match_def Let_def)
      moreover have "take (Suc i) ?xs = take i ?xs @ [?e]"
        using lt by (simp add: take_Suc_conv_app_nth queue_at_def)
      ultimately show ?thesis
        using "1.IH"(1) [OF lt refl refl] False lt "1.prems" by (auto simp: dr drop_match_def)
    next
      case True
      let ?q = "(queue_close_gap q ?x)\<lparr>q_nevents := q_nevents q - 1\<rparr>"
      have eq: "drop_from p f q i d = drop_from p f ?q i (Suc d)"
        using True lt by (simp add: drop_from.simps [of p f q i d] drop_match_def Let_def)
      note rm = queue_remove_ok [OF "1.prems"(1) lt]
      then have "drop i (queue_items ?q) = drop (Suc i) ?xs" "take i (queue_items ?q) = take i ?xs"
        using lt by simp_all
      then show ?thesis
        using "1.IH"(2) [OF lt refl refl] True lt rm by (simp add: eq dr drop_match_def)
    qed
  qed
qed

lemma find_event_items: "find_event q ev i \<longleftrightarrow> (\<exists>e \<in> set (drop i (queue_items q)). ed_ev e = ev)"
proof (induction q ev i rule: find_event.induct)
  case (1 q ev i)
  then show ?case
    by (cases "i < q_nevents q")
      (simp_all add: find_event.simps [of q ev i] queue_at_def Cons_nth_drop_Suc [symmetric])
qed

primrec iterate_list :: "(event_data \<Rightarrow> 'd \<Rightarrow> bool \<times> 'd) \<Rightarrow> event_data list \<Rightarrow> 'd \<Rightarrow> 'd" where
  "iterate_list fn [] d = d"
| "iterate_list fn (e # es) d = (case fn e d of (go, d') \<Rightarrow> if go then iterate_list fn es d' else d')"

lemma iterate_from_items: "iterate_from fn q i d = iterate_list fn (drop i (queue_items q)) d"
proof (induction fn q i d rule: iterate_from.induct)
  case (1 fn q i d)
  show ?case
  proof (cases "i < q_nevents q")
    case True
    with 1 show ?thesis
      by (subst iterate_from.simps)
        (simp add: Cons_nth_drop_Suc [symmetric] queue_at_def split: prod.split)
  next
    case False
    then show ?thesis by (simp add: iterate_from.simps)
  qed
qed

subsection \<open>The interface of the event queue\<close>

text \<open>
  A first-in first-out queue that can also be filtered, as the scheduler uses it. \<open>enqueue\<close>
  yields \<^const>\<open>None\<close> when the element is not accepted.
\<close>

locale filtered_fifo =
  fixes wf :: "'q \<Rightarrow> bool"
    and items :: "'q \<Rightarrow> 'e list"
    and enqueue :: "'q \<Rightarrow> 'e \<Rightarrow> 'q option"
    and dequeue :: "'q \<Rightarrow> ('e \<times> 'q) option"
  assumes enqueue_law: "wf q \<Longrightarrow> \<exists>q'. enqueue q e = Some q' \<and> wf q' \<and> items q' = items q @ [e]"
    and dequeue_Nil: "wf q \<Longrightarrow> items q = [] \<Longrightarrow> dequeue q = None"
    and dequeue_Cons: "wf q \<Longrightarrow> items q = e # es \<Longrightarrow> \<exists>q'. dequeue q = Some (e, q') \<and> wf q' \<and> items q' = es"
begin

lemma enqueue_all: "wf q \<Longrightarrow> \<exists>q'. foldM enqueue q es = Some q' \<and> wf q' \<and> items q' = items q @ es"
proof (induction es arbitrary: q)
  case (Cons e es)
  from enqueue_law [OF Cons.prems, of e] obtain q1 where
    q1: "enqueue q e = Some q1" "wf q1" "items q1 = items q @ [e]" by auto
  from Cons.IH [OF q1(2)] q1 show ?case by auto
qed simp

definition drain :: "'q \<Rightarrow> 'e option \<times> 'q" where
  "drain q = (case dequeue q of None \<Rightarrow> (None, q) | Some (e, q') \<Rightarrow> (Some e, q'))"

lemma drain_all: "wf q \<Longrightarrow> \<exists>q'. repeat_op drain (length (items q)) q = (map Some (items q), q') \<and>
    wf q' \<and> items q' = []"
proof (induction "items q" arbitrary: q)
  case (Cons e es)
  from dequeue_Cons [OF Cons.prems Cons.hyps(2) [symmetric]] obtain q1 where
    q1: "dequeue q = Some (e, q1)" "wf q1" "items q1 = es" by auto
  from Cons.hyps(1) [of q1] q1 have "\<exists>q'. repeat_op drain (length es) q1 = (map Some es, q') \<and>
      wf q' \<and> items q' = []" by auto
  with q1 show ?case by (auto simp: Cons.hyps(2) [symmetric] drain_def)
qed auto

text \<open>Everything that is enqueued comes out again, after what was there before, in order.\<close>

lemma fifo_order:
  assumes "wf q"
  shows "\<exists>q1 q2. foldM enqueue q es = Some q1 \<and>
    repeat_op drain (length (items q) + length es) q1 = (map Some (items q @ es), q2) \<and> items q2 = []"
proof -
  from enqueue_all [OF assms] obtain q1 where q1: "foldM enqueue q es = Some q1" "wf q1"
    "items q1 = items q @ es" by auto
  from drain_all [OF q1(2)] q1 show ?thesis by auto
qed

end

text \<open>Posting with \<open>OC_DYNAMIC_ALLOCATION\<close> and a successful \<open>realloc\<close>.\<close>

definition queue_post :: "event_queue \<Rightarrow> event_data \<Rightarrow> event_queue option" where
  "queue_post q e =
     map_option snd (oc_process_post True (Some (\<lambda>_. zero_event)) q (ed_p e) (ed_ev e) (ed_data e))"

lemma oc_process_post_dynamic:
  assumes "queue_wf q"
  shows "\<exists>q'. oc_process_post True (Some c) q p ev data = Some (OC_PROCESS_ERR_OK, q') \<and> queue_wf q' \<and>
    queue_items q' = queue_items q @ [\<lparr>ed_ev = ev, ed_data = data, ed_p = p\<rparr>]"
proof (cases "q_nevents q = q_numevents q")
  case True
  from queue_grow_ok [OF assms True, of c] obtain q1 where q1: "queue_grow (Some c) q = Some q1"
    "queue_wf q1" "queue_items q1 = queue_items q" "q_nevents q1 = q_nevents q"
    "q_numevents q1 = 2 * q_numevents q" by auto
  moreover have "0 < q_numevents q" using assms by (simp add: queue_wf_def)
  ultimately show ?thesis
    using True queue_put_ok [of q1] by (simp add: oc_process_post_def Let_def)
next
  case False
  with assms show ?thesis
    using queue_put_ok [of q] by (simp add: oc_process_post_def Let_def queue_wf_def)
qed

interpretation evq: filtered_fifo queue_wf queue_items queue_post queue_take
proof
  fix q :: event_queue and e es
  show "queue_wf q \<Longrightarrow> \<exists>q'. queue_post q e = Some q' \<and> queue_wf q' \<and> queue_items q' = queue_items q @ [e]"
    using oc_process_post_dynamic [of q "\<lambda>_. zero_event" "ed_p e" "ed_ev e" "ed_data e"]
    by (auto simp: queue_post_def)
  show "queue_wf q \<Longrightarrow> queue_items q = [] \<Longrightarrow> queue_take q = None" by (rule queue_take_empty)
  show "queue_wf q \<Longrightarrow> queue_items q = e # es \<Longrightarrow>
      \<exists>q'. queue_take q = Some (e, q') \<and> queue_wf q' \<and> queue_items q' = es"
    using queue_take_ok by blast
qed

subsection \<open>Properties\<close>

definition example_queue :: event_queue where
  "example_queue = \<lparr>q_numevents = 3, q_nevents = 3, q_fevent = 2, q_events =
     [\<lparr>ed_ev = 2, ed_data = None, ed_p = Some 4\<rparr>, \<lparr>ed_ev = 3, ed_data = None, ed_p = Some 5\<rparr>,
      \<lparr>ed_ev = 1, ed_data = None, ed_p = Some 4\<rparr>]\<rparr>"

lemma example_queue_wf: "queue_wf example_queue"
  by (simp add: queue_wf_def example_queue_def)

lemma example_queue_items: "queue_items example_queue =
  [\<lparr>ed_ev = 1, ed_data = None, ed_p = Some 4\<rparr>, \<lparr>ed_ev = 2, ed_data = None, ed_p = Some 4\<rparr>,
   \<lparr>ed_ev = 3, ed_data = None, ed_p = Some 5\<rparr>]"
  by (simp add: queue_items_def queue_at_def example_queue_def upt_rec)

text \<open>
  C32. Posting an event: with dynamic allocation it always succeeds, also when the circular buffer
  is full and has to be doubled and rearranged, and appends the event behind all queued events,
  whose order is kept. A failed \<open>realloc\<close> aborts only when the buffer is full. Without dynamic
  allocation a full queue is reported by \<open>OC_PROCESS_ERR_FULL\<close> and left alone.
\<close>

theorem oc_process_post_appends:
  assumes "queue_wf q" and "e = \<lparr>ed_ev = ev, ed_data = data, ed_p = p\<rparr>"
  shows "(\<exists>q'. oc_process_post True (Some c) q p ev data = Some (OC_PROCESS_ERR_OK, q') \<and> queue_wf q' \<and>
      queue_items q' = queue_items q @ [e]) \<and>
    (oc_process_post True None q p ev data = None \<longleftrightarrow> length (queue_items q) = q_numevents q) \<and>
    (if length (queue_items q) = q_numevents q
     then oc_process_post False j q p ev data = Some (OC_PROCESS_ERR_FULL, q)
     else \<exists>q'. oc_process_post False j q p ev data = Some (OC_PROCESS_ERR_OK, q') \<and> queue_wf q' \<and>
       queue_items q' = queue_items q @ [e])"
  using oc_process_post_dynamic [OF assms(1)] queue_put_ok [OF assms(1), of e] assms(1)
  by (auto simp: oc_process_post_def Let_def assms(2) queue_grow_def queue_wf_def)

theorem oc_process_post_appends_witness:
  "queue_wf example_queue \<and>
   (\<exists>q'. oc_process_post True (Some (\<lambda>_. zero_event)) example_queue None 9 None =
      Some (OC_PROCESS_ERR_OK, q') \<and> map ed_ev (queue_items q') = [1, 2, 3, 9])"
proof -
  from oc_process_post_appends [OF example_queue_wf refl, of "\<lambda>_. zero_event" None 9 None] obtain q' where
    "oc_process_post True (Some (\<lambda>_. zero_event)) example_queue None 9 None = Some (OC_PROCESS_ERR_OK, q')"
    "queue_items q' = queue_items example_queue @ [\<lparr>ed_ev = 9, ed_data = None, ed_p = None\<rparr>]"
    by blast
  with example_queue_wf show ?thesis by (simp add: example_queue_items)
qed

text \<open>
  The event queue is first-in first-out across growth: posting any number of events to any
  queue and then taking events off until it is empty yields the old events and then the new ones,
  each exactly once and in the order of posting.
\<close>

theorem event_queue_fifo:
  assumes "queue_wf q"
  shows "\<exists>q1 q2. foldM queue_post q es = Some q1 \<and>
    repeat_op (\<lambda>q. case queue_take q of None \<Rightarrow> (None, q) | Some (e, q') \<Rightarrow> (Some e, q'))
      (q_nevents q + length es) q1 = (map Some (queue_items q @ es), q2) \<and> q_nevents q2 = 0"
proof -
  from evq.fifo_order [OF assms, of es] obtain q1 q2 where q: "foldM queue_post q es = Some q1"
    "repeat_op evq.drain (q_nevents q + length es) q1 = (map Some (queue_items q @ es), q2)"
    "queue_items q2 = []" by auto
  from q(3) have "q_nevents q2 = 0" by (simp add: queue_items_def)
  with q(1,2) show ?thesis unfolding evq.drain_def [abs_def] by blast
qed

theorem event_queue_fifo_witness:
  "queue_wf example_queue \<and> (\<exists>q1 q2. foldM queue_post example_queue [zero_event] = Some q1 \<and>
    repeat_op (\<lambda>q. case queue_take q of None \<Rightarrow> (None, q) | Some (e, q') \<Rightarrow> (Some e, q')) 4 q1 =
      (map Some (queue_items example_queue @ [zero_event]), q2))"
proof -
  have "q_nevents example_queue + length [zero_event] = 4" by (simp add: example_queue_def)
  from event_queue_fifo [OF example_queue_wf, of "[zero_event]", unfolded this] example_queue_wf
  show ?thesis by blast
qed

text \<open>
  Dropping events: with a process and a predicate given, exactly the queued events of that
  process that satisfy the predicate are removed wherever they are in the circular buffer, the
  others keep their order, and the number of removed events is returned. Iterating visits the
  queued events in order until the callback stops.
\<close>

theorem oc_process_drop_filters:
  assumes "queue_wf q"
  shows "\<exists>q'. oc_process_drop (Some p) (Some f) q =
      (length (filter (drop_match p f) (queue_items q)), q') \<and> queue_wf q' \<and>
    queue_items q' = filter (\<lambda>e. \<not> drop_match p f e) (queue_items q) \<and>
    oc_process_iterate_events fn q d = iterate_list fn (queue_items q) d \<and>
    (oc_process_is_closing_all_tls_sessions ev q \<longleftrightarrow> ev \<in> ed_ev ` set (queue_items q))"
  using drop_from_filter [OF assms, of 0 p f 0]
  by (auto simp: oc_process_drop_def oc_process_iterate_events_def iterate_from_items
      oc_process_is_closing_all_tls_sessions_def find_event_items)

theorem oc_process_drop_filters_witness:
  "queue_wf example_queue \<and> (\<exists>q'. oc_process_drop (Some 4) (Some (\<lambda>ev _. ev < 3)) example_queue = (2, q') \<and>
    map ed_ev (queue_items q') = [3])"
proof -
  from oc_process_drop_filters [OF example_queue_wf, of 4 "\<lambda>ev _. ev < 3"] obtain q' where
    "oc_process_drop (Some 4) (Some (\<lambda>ev _. ev < 3)) example_queue =
      (length (filter (drop_match 4 (\<lambda>ev _. ev < 3)) (queue_items example_queue)), q')"
    "queue_items q' = filter (\<lambda>e. \<not> drop_match 4 (\<lambda>ev _. ev < 3) e) (queue_items example_queue)"
    by metis
  with example_queue_wf show ?thesis by (simp add: example_queue_items drop_match_def)
qed

end
