(* ===== verification/OcProcess.thy ===== *)
theory OcProcess
  imports OcList OcEventQueue
begin

text \<open>
  The cooperative scheduler of \<open>util/oc_process.c\<close>: starting, calling, polling and ending
  processes, and delivering the events of the queue. The \<open>thread\<close> of a process is code of its
  client, reached through a function pointer: it is an argument, a function that may change the
  whole kernel state (it may post, poll, start or end processes). The local continuation of a
  protothread lives in the client's part \<open>k_env\<close> of the state except for its reset by \<open>PT_INIT\<close>.

  The compare-and-swap loops on \<open>p->state\<close> are modelled for one thread of execution, where the
  swap succeeds at once; \<open>OC_TEST\<close> is not defined. Calling and ending processes are mutually
  recursive and the loops walk a list that the called threads may change, so these functions
  carry fuel, and \<^const>\<open>None\<close> is an exhausted fuel or a walk that does not end.
\<close>

datatype pt_result = PT_WAITING | PT_YIELDED | PT_EXITED | PT_ENDED

definition OC_PROCESS_STATE_NONE :: u8 where "OC_PROCESS_STATE_NONE = 0"
definition OC_PROCESS_STATE_RUNNING :: u8 where "OC_PROCESS_STATE_RUNNING = 1"
definition OC_PROCESS_STATE_CALLED :: u8 where "OC_PROCESS_STATE_CALLED = 2"

lemmas process_state_defs = OC_PROCESS_STATE_NONE_def OC_PROCESS_STATE_RUNNING_def
  OC_PROCESS_STATE_CALLED_def

definition OC_PROCESS_EVENT_INIT :: u8 where "OC_PROCESS_EVENT_INIT = 0x81"
definition OC_PROCESS_EVENT_POLL :: u8 where "OC_PROCESS_EVENT_POLL = 0x82"
definition OC_PROCESS_EVENT_EXIT :: u8 where "OC_PROCESS_EVENT_EXIT = 0x83"
definition OC_PROCESS_EVENT_EXITED :: u8 where "OC_PROCESS_EVENT_EXITED = 0x87"
definition OC_PROCESS_EVENT_MAX :: u8 where "OC_PROCESS_EVENT_MAX = 0x8a"

lemmas process_event_defs = OC_PROCESS_EVENT_INIT_def OC_PROCESS_EVENT_POLL_def
  OC_PROCESS_EVENT_EXIT_def OC_PROCESS_EVENT_EXITED_def OC_PROCESS_EVENT_MAX_def

record 'e kernel =
  k_procs :: oc_list_t
  k_current :: nodeptr
  k_lastevent :: u8
  k_queue :: event_queue
  k_poll_requested :: bool
  k_has_thread :: "node \<Rightarrow> bool"
  k_state :: "node \<Rightarrow> u8"
  k_needspoll :: "node \<Rightarrow> bool"
  k_lc :: "node \<Rightarrow> nat"
  k_env :: 'e

type_synonym 'e thread = "node \<Rightarrow> u8 \<Rightarrow> nat option \<Rightarrow> 'e kernel \<Rightarrow> pt_result \<times> 'e kernel"

abbreviation set_state :: "'e kernel \<Rightarrow> node \<Rightarrow> u8 \<Rightarrow> 'e kernel" where
  "set_state k p s \<equiv> k\<lparr>k_state := (k_state k)(p := s)\<rparr>"

definition oc_process_alloc_event :: "'e kernel \<Rightarrow> u8 \<times> 'e kernel" where
  "oc_process_alloc_event k = (k_lastevent k, k\<lparr>k_lastevent := k_lastevent k + 1\<rparr>)"

definition oc_process_init :: "nat \<Rightarrow> 'e kernel \<Rightarrow> 'e kernel" where
  "oc_process_init num k = k\<lparr>k_lastevent := OC_PROCESS_EVENT_MAX, k_queue := queue_init num,
     k_current := None, k_procs := (k_procs k)\<lparr>list_head := None\<rparr>\<rparr>"

definition k_post :: "bool \<Rightarrow> (nat \<Rightarrow> event_data) option \<Rightarrow> 'e kernel \<Rightarrow> nodeptr \<Rightarrow> u8 \<Rightarrow> nat option \<Rightarrow>
   (nat \<times> 'e kernel) option" where
  "k_post dyn junk k p ev data =
     map_option (\<lambda>(r, q). (r, k\<lparr>k_queue := q\<rparr>)) (oc_process_post dyn junk (k_queue k) p ev data)"

definition oc_process_poll :: "'e kernel \<Rightarrow> nodeptr \<Rightarrow> 'e kernel" where
  "oc_process_poll k po = (case po of
     None \<Rightarrow> k
   | Some p \<Rightarrow>
       if k_state k p = OC_PROCESS_STATE_RUNNING \<or> k_state k p = OC_PROCESS_STATE_CALLED
       then k\<lparr>k_needspoll := (k_needspoll k)(p := True), k_poll_requested := True\<rparr> else k)"

definition oc_process_is_running :: "'e kernel \<Rightarrow> node \<Rightarrow> bool" where
  "oc_process_is_running k p \<longleftrightarrow> k_state k p \<noteq> OC_PROCESS_STATE_NONE"



text \<open>\<open>for (q = oc_process_list; q != NULL; q = q->next) if (q->next == p) { q->next = p->next; break; }\<close>\<close>

partial_function (option) unlink_walk :: "oc_list_t \<Rightarrow> nodeptr \<Rightarrow> node \<Rightarrow> oc_list_t option" where
  "unlink_walk l q p = (case q of
     None \<Rightarrow> Some l
   | Some a \<Rightarrow>
       if list_next l a = Some p then Some (set_next l a (list_next l p))
       else unlink_walk l (list_next l a) p)"

definition unlink_process :: "oc_list_t \<Rightarrow> node \<Rightarrow> oc_list_t option" where
  "unlink_process l p =
     (if list_head l = Some p then Some (l\<lparr>list_head := list_next l p\<rparr>)
      else unlink_walk l (list_head l) p)"

fun call_process :: "nat \<Rightarrow> 'e thread \<Rightarrow> 'e kernel \<Rightarrow> node \<Rightarrow> u8 \<Rightarrow> nat option \<Rightarrow> 'e kernel option"
and exit_process :: "nat \<Rightarrow> 'e thread \<Rightarrow> 'e kernel \<Rightarrow> node \<Rightarrow> nodeptr \<Rightarrow> 'e kernel option"
and notify_exited :: "nat \<Rightarrow> 'e thread \<Rightarrow> 'e kernel \<Rightarrow> nodeptr \<Rightarrow> node \<Rightarrow> 'e kernel option" where
  "call_process 0 th k p ev data = None"
| "call_process (Suc n) th k p ev data =
     (if \<not> k_has_thread k p then Some k
      else if k_state k p AND OC_PROCESS_STATE_RUNNING \<noteq> 0 then
        (case th p ev data ((set_state k p OC_PROCESS_STATE_CALLED)\<lparr>k_current := Some p\<rparr>) of
           (ret, k2) \<Rightarrow>
             if ret = PT_EXITED \<or> ret = PT_ENDED \<or> ev = OC_PROCESS_EVENT_EXIT
             then exit_process n th k2 p (Some p)
             else Some (set_state k2 p OC_PROCESS_STATE_RUNNING))
      else Some k)"
| "exit_process 0 th k p fromprocess = None"
| "exit_process (Suc n) th k p fromprocess =
     (case find_node (list_next (k_procs k)) (list_head (k_procs k)) p of
        None \<Rightarrow> None
      | Some False \<Rightarrow> Some k
      | Some True \<Rightarrow>
          (let old_current = k_current k;
               told = (if k_state k p \<noteq> OC_PROCESS_STATE_NONE then
                         map_option (\<lambda>k2.
                             if k_has_thread k2 p \<and> fromprocess \<noteq> Some p
                             then snd (th p OC_PROCESS_EVENT_EXIT None (k2\<lparr>k_current := Some p\<rparr>))
                             else k2)
                           (notify_exited n th (set_state k p OC_PROCESS_STATE_NONE)
                              (list_head (k_procs k)) p)
                       else Some k)
           in case told of
                None \<Rightarrow> None
              | Some k3 \<Rightarrow>
                  map_option (\<lambda>l. k3\<lparr>k_procs := l, k_current := old_current\<rparr>)
                    (unlink_process (k_procs k3) p)))"
| "notify_exited 0 th k q p = None"
| "notify_exited (Suc n) th k q p = (case q of
     None \<Rightarrow> Some k
   | Some a \<Rightarrow>
       (case (if a \<noteq> p then call_process n th k a OC_PROCESS_EVENT_EXITED (Some p) else Some k) of
          None \<Rightarrow> None
        | Some k' \<Rightarrow> notify_exited n th k' (list_next (k_procs k') a) p))"

definition oc_process_exit :: "nat \<Rightarrow> 'e thread \<Rightarrow> 'e kernel \<Rightarrow> node \<Rightarrow> 'e kernel option" where
  "oc_process_exit n th k p = exit_process n th k p (k_current k)"

definition oc_process_post_synch ::
  "nat \<Rightarrow> 'e thread \<Rightarrow> 'e kernel \<Rightarrow> node \<Rightarrow> u8 \<Rightarrow> nat option \<Rightarrow> 'e kernel option" where
  "oc_process_post_synch n th k p ev data =
     (let caller = k_current k
      in map_option (\<lambda>k'. k'\<lparr>k_current := caller\<rparr>) (call_process n th k p ev data))"

definition oc_process_start :: "nat \<Rightarrow> 'e thread \<Rightarrow> 'e kernel \<Rightarrow> node \<Rightarrow> nat option \<Rightarrow> 'e kernel option" where
  "oc_process_start n th k p data =
     (case find_node (list_next (k_procs k)) (list_head (k_procs k)) p of
        None \<Rightarrow> None
      | Some True \<Rightarrow> Some k
      | Some False \<Rightarrow>
          (let k1 = k\<lparr>k_procs := (set_next (k_procs k) p (list_head (k_procs k)))\<lparr>list_head := Some p\<rparr>\<rparr>;
               k2 = (set_state k1 p OC_PROCESS_STATE_RUNNING)\<lparr>k_lc := (k_lc k1)(p := 0)\<rparr>
           in oc_process_post_synch n th k2 p OC_PROCESS_EVENT_INIT data))"

text \<open>\<open>do_poll\<close>: the loop over the processes with the \<open>needspoll\<close> flag.\<close>

primrec poll_loop :: "nat \<Rightarrow> 'e thread \<Rightarrow> 'e kernel \<Rightarrow> nodeptr \<Rightarrow> 'e kernel option" where
  "poll_loop 0 th k q = None"
| "poll_loop (Suc n) th k q = (case q of
     None \<Rightarrow> Some k
   | Some p \<Rightarrow>
       (case (if k_needspoll k p
              then call_process n th
                     ((set_state k p OC_PROCESS_STATE_RUNNING)\<lparr>k_needspoll := (k_needspoll k)(p := False)\<rparr>)
                     p OC_PROCESS_EVENT_POLL None
              else Some k) of
          None \<Rightarrow> None
        | Some k' \<Rightarrow> poll_loop n th k' (list_next (k_procs k') p)))"

definition do_poll :: "nat \<Rightarrow> 'e thread \<Rightarrow> 'e kernel \<Rightarrow> 'e kernel option" where
  "do_poll n th k = poll_loop n th (k\<lparr>k_poll_requested := False\<rparr>) (list_head (k_procs k))"

primrec broadcast_loop :: "nat \<Rightarrow> 'e thread \<Rightarrow> 'e kernel \<Rightarrow> nodeptr \<Rightarrow> u8 \<Rightarrow> nat option \<Rightarrow> 'e kernel option" where
  "broadcast_loop 0 th k q ev data = None"
| "broadcast_loop (Suc n) th k q ev data = (case q of
     None \<Rightarrow> Some k
   | Some p \<Rightarrow>
       (case (if k_poll_requested k then do_poll n th k else Some k) of
          None \<Rightarrow> None
        | Some k1 \<Rightarrow>
            (case call_process n th k1 p ev data of
               None \<Rightarrow> None
             | Some k2 \<Rightarrow> broadcast_loop n th k2 (list_next (k_procs k2) p) ev data)))"

definition do_event :: "nat \<Rightarrow> 'e thread \<Rightarrow> 'e kernel \<Rightarrow> 'e kernel option" where
  "do_event n th k = (case queue_take (k_queue k) of
     None \<Rightarrow> Some k
   | Some (e, q) \<Rightarrow>
       (let k1 = k\<lparr>k_queue := q\<rparr>
        in case ed_p e of
             None \<Rightarrow> broadcast_loop n th k1 (list_head (k_procs k1)) (ed_ev e) (ed_data e)
           | Some receiver \<Rightarrow>
               (let k2 = (if ed_ev e = OC_PROCESS_EVENT_INIT
                          then set_state k1 receiver OC_PROCESS_STATE_RUNNING else k1)
                in call_process n th k2 receiver (ed_ev e) (ed_data e))))"


subsection \<open>Threads that yield\<close>

text \<open>
  The threads of the stack run to a yield in every call: they change their own data and post
  events, and do not end. The effect \<open>f\<close> of a call is then a function of the client's data and
  the event queue. \<open>plain_thread\<close> is such a thread as the scheduler calls it.
\<close>

definition k_client :: "'e kernel \<Rightarrow> 'e \<times> event_queue" where
  "k_client k = (k_env k, k_queue k)"

type_synonym 'e effect = "node \<Rightarrow> u8 \<Rightarrow> nat option \<Rightarrow> 'e \<times> event_queue \<Rightarrow> 'e \<times> event_queue"

definition set_client :: "'e \<times> event_queue \<Rightarrow> 'e kernel \<Rightarrow> 'e kernel" where
  "set_client c k = k\<lparr>k_env := fst c, k_queue := snd c\<rparr>"

definition plain_thread :: "'e effect \<Rightarrow> 'e thread" where
  "plain_thread f p ev data k = (PT_YIELDED, set_client (f p ev data (k_client k)) k)"

definition active :: "'e kernel \<Rightarrow> node \<Rightarrow> bool" where
  "active k p \<longleftrightarrow> k_has_thread k p \<and> k_state k p AND OC_PROCESS_STATE_RUNNING \<noteq> 0"

definition deliver :: "'e effect \<Rightarrow> u8 \<Rightarrow> nat option \<Rightarrow> node \<Rightarrow> 'e kernel \<Rightarrow> 'e kernel" where
  "deliver f ev data p k =
     (if active k p
      then (set_state (set_client (f p ev data (k_client k)) k) p OC_PROCESS_STATE_RUNNING)\<lparr>k_current := Some p\<rparr>
      else k)"

lemma call_process_plain:
  "ev \<noteq> OC_PROCESS_EVENT_EXIT \<Longrightarrow>
   call_process (Suc n) (plain_thread f) k p ev data = Some (deliver f ev data p k)"
  by (auto simp: plain_thread_def deliver_def active_def set_client_def k_client_def)

lemma deliver_keeps [simp]:
  "k_procs (deliver f ev data p k) = k_procs k"
  "k_has_thread (deliver f ev data p k) = k_has_thread k"
  "k_poll_requested (deliver f ev data p k) = k_poll_requested k"
  "k_needspoll (deliver f ev data p k) = k_needspoll k"
  by (auto simp: deliver_def set_client_def)

lemma active_deliver [simp]: "active (deliver f ev data p k) q = active k q"
  by (auto simp: active_def deliver_def set_client_def process_state_defs)

lemma client_deliver:
  "k_client (deliver f ev data p k) = (if active k p then f p ev data (k_client k) else k_client k)"
  by (simp add: deliver_def set_client_def k_client_def)

lemma state_deliver: "k_state (deliver f ev data p k) q =
    (if q = p \<and> active k p then OC_PROCESS_STATE_RUNNING else k_state k q)"
  by (simp add: deliver_def set_client_def)

text \<open>What the processes of a list do to the client's data when each active one gets one event.\<close>

definition deliver_all :: "'e effect \<Rightarrow> u8 \<Rightarrow> nat option \<Rightarrow> (node \<Rightarrow> bool) \<Rightarrow> node list \<Rightarrow>
    'e \<times> event_queue \<Rightarrow> 'e \<times> event_queue" where
  "deliver_all f ev data A ps c = fold (\<lambda>p. f p ev data) (filter A ps) c"

lemma fold_deliver:
  fixes k :: "'e kernel"
  shows "k_procs (fold (deliver f ev data) ps k) = k_procs k \<and>
   k_has_thread (fold (deliver f ev data) ps k) = k_has_thread k \<and>
   k_poll_requested (fold (deliver f ev data) ps k) = k_poll_requested k \<and>
   k_client (fold (deliver f ev data) ps k) = deliver_all f ev data (active k) ps (k_client k) \<and>
   (\<forall>q. q \<notin> set ps \<longrightarrow> k_state (fold (deliver f ev data) ps k) q = k_state k q)"
proof (induction ps arbitrary: k)
  case Nil
  show ?case by (simp add: deliver_all_def)
next
  case (Cons p ps)
  have "active (deliver f ev data p k) = active k" by (simp add: fun_eq_iff)
  with Cons.IH [of "deliver f ev data p k"] show ?case
    by (simp add: deliver_all_def client_deliver state_deliver)
qed

lemma notify_exited_plain:
  "chain (list_next (k_procs k)) q ps \<Longrightarrow> length ps + 2 \<le> n \<Longrightarrow>
   notify_exited n (plain_thread f) k q p =
     Some (fold (deliver f OC_PROCESS_EVENT_EXITED (Some p)) (filter (\<lambda>a. a \<noteq> p) ps) k)"
proof (induction ps arbitrary: k q n)
  case Nil
  then show ?case by (cases n) auto
next
  case (Cons a ps)
  then obtain m where n: "n = Suc m" and m: "length ps + 2 \<le> m" by (cases n) auto
  from m obtain m' where m': "m = Suc m'" by (cases m) auto
  show ?case
  proof (cases "a = p")
    case True
    with Cons.IH [of k "list_next (k_procs k) a" m] Cons.prems n m show ?thesis by simp
  next
    case False
    let ?k = "deliver f OC_PROCESS_EVENT_EXITED (Some p) a k"
    have "call_process m (plain_thread f) k a OC_PROCESS_EVENT_EXITED (Some p) = Some ?k"
      unfolding m' by (rule call_process_plain) (simp add: process_event_defs)
    with Cons.IH [of ?k "list_next (k_procs k) a" m] Cons.prems n m False show ?thesis
      by (simp del: call_process.simps)
  qed
qed





subsection \<open>Unlinking a process\<close>

lemma unlink_walk_chain:
  assumes "chain (list_next l) (list_head l) (pre @ xs)" and "xs \<noteq> []" and "p \<in> set (tl xs)"
  shows "\<exists>l'. unlink_walk l (Some (hd xs)) p = Some l' \<and> chain (list_next l') (list_head l') (pre @ remove1 p xs)"
  using assms
proof (induction xs arbitrary: pre)
  case (Cons a ys)
  then obtain b zs where ys: "ys = b # zs" by (cases ys) auto
  from Cons.prems(1) have ch: "chain (list_next l) (list_head l) (pre @ a # b # zs)" by (simp add: ys)
  note d = chain_distinct [OF ch]
  have nx: "list_next l a = Some b" using chain_suffix [OF ch] by simp
  show ?case
  proof (cases "b = p")
    case True
    have "chain ((list_next l)(a := list_next l p)) (list_head l) (pre @ a # zs)"
      by (rule chain_relink [OF ch]) (use d True chain_suffix [OF ch] in auto)
    with nx True d show ?thesis by (subst unlink_walk.simps) (simp add: ys)
  next
    case False
    with Cons.IH [of "pre @ [a]"] Cons.prems nx ys have
      "\<exists>l'. unlink_walk l (Some b) p = Some l' \<and> chain (list_next l') (list_head l') (pre @ a # remove1 p ys)"
      by simp
    moreover have "unlink_walk l (Some a) p = unlink_walk l (Some b) p"
      using nx False by (subst unlink_walk.simps) simp
    moreover have "a \<noteq> p" using Cons.prems d ys by auto
    ultimately show ?thesis by simp
  qed
qed simp

lemma unlink_process_ok:
  assumes "list_repr l ps" and "p \<in> set ps"
  shows "\<exists>l'. unlink_process l p = Some l' \<and> list_repr l' (remove1 p ps)"
proof (cases ps)
  case Nil
  with assms show ?thesis by simp
next
  case (Cons a qs)
  then show ?thesis
    using assms unlink_walk_chain [of l "[]" ps p]
    by (cases "a = p") (auto simp: unlink_process_def list_repr_def)
qed

subsection \<open>Properties\<close>

text \<open>
  Delivering an event to one process, for any threads: the first event of the queue is taken
  off before the thread runs, the thread of its receiver is called exactly once, with the
  receiver marked as called and current, and unless it ends it is marked as running again; an
  event for a process that is not running (or is in a call already) is dropped without effect.
\<close>

theorem do_event_directed:
  assumes "queue_wf (k_queue k)" and "queue_items (k_queue k) = e # es" and "ed_p e = Some p"
    and "ed_ev e \<noteq> OC_PROCESS_EVENT_INIT"
  shows "\<exists>q. queue_wf q \<and> queue_items q = es \<and> do_event (Suc n) th k =
    (if active k p then
       (case th p (ed_ev e) (ed_data e)
               (k\<lparr>k_queue := q, k_state := (k_state k)(p := OC_PROCESS_STATE_CALLED), k_current := Some p\<rparr>) of
          (ret, k2) \<Rightarrow>
            if ret \<in> {PT_EXITED, PT_ENDED} \<or> ed_ev e = OC_PROCESS_EVENT_EXIT
            then exit_process n th k2 p (Some p) else Some (set_state k2 p OC_PROCESS_STATE_RUNNING))
     else Some (k\<lparr>k_queue := q\<rparr>))"
proof -
  from queue_take_ok [OF assms(1,2)] obtain q where
    q: "queue_take (k_queue k) = Some (e, q)" "queue_wf q" "queue_items q = es" by auto
  with assms(3,4) show ?thesis
    by (intro exI [of _ q]) (simp add: do_event_def active_def Let_def)
qed

text \<open>
  A kernel with two processes, 1 and 2, the first of which has an event; the client's data are
  the events that were delivered.
\<close>

definition example_kernel :: "(node \<times> u8) list kernel" where
  "example_kernel = \<lparr>k_procs = \<lparr>list_head = Some 1, list_next = (\<lambda>_. None)(1 := Some 2)\<rparr>,
     k_current = None, k_lastevent = OC_PROCESS_EVENT_MAX,
     k_queue = \<lparr>q_numevents = 2, q_nevents = 2, q_fevent = 1,
       q_events = [\<lparr>ed_ev = 8, ed_data = None, ed_p = None\<rparr>, \<lparr>ed_ev = 7, ed_data = None, ed_p = Some 1\<rparr>]\<rparr>,
     k_poll_requested = False, k_has_thread = (\<lambda>_. True),
     k_state = (\<lambda>_. 0)(1 := OC_PROCESS_STATE_RUNNING, 2 := OC_PROCESS_STATE_RUNNING),
     k_needspoll = (\<lambda>_. False), k_lc = (\<lambda>_. 0), k_env = []\<rparr>"

definition log_event :: "(node \<times> u8) list effect" where
  "log_event p ev data c = (fst c @ [(p, ev)], snd c)"

lemma example_kernel_queue:
  "queue_wf (k_queue example_kernel)"
  "queue_items (k_queue example_kernel) =
     [\<lparr>ed_ev = 7, ed_data = None, ed_p = Some 1\<rparr>, \<lparr>ed_ev = 8, ed_data = None, ed_p = None\<rparr>]"
  by (simp_all add: example_kernel_def queue_wf_def queue_items_def queue_at_def upt_rec)

lemma example_kernel_procs: "list_repr (k_procs example_kernel) [1, 2]"
  by (simp add: example_kernel_def list_repr_def)

theorem do_event_directed_witness:
  "\<exists>q. queue_items q = [\<lparr>ed_ev = 8, ed_data = None, ed_p = None\<rparr>] \<and>
     (\<exists>k'. do_event (Suc 0) (plain_thread log_event) example_kernel = Some k' \<and>
        k_env k' = [(1, 7)] \<and> k_queue k' = q)"
proof -
  have a: "active example_kernel 1" and e: "k_env example_kernel = []"
    by (simp_all add: active_def example_kernel_def process_state_defs)
  from do_event_directed [OF example_kernel_queue, of 1 0 "plain_thread log_event"] obtain q where
    "queue_items q = [\<lparr>ed_ev = 8, ed_data = None, ed_p = None\<rparr>]"
    "do_event (Suc 0) (plain_thread log_event) example_kernel =
      (case plain_thread log_event 1 7 None (example_kernel\<lparr>k_queue := q,
          k_state := (k_state example_kernel)(1 := OC_PROCESS_STATE_CALLED), k_current := Some 1\<rparr>) of
        (ret, k2) \<Rightarrow> if ret \<in> {PT_EXITED, PT_ENDED} \<or> 7 = OC_PROCESS_EVENT_EXIT
          then exit_process 0 (plain_thread log_event) k2 1 (Some 1)
          else Some (set_state k2 1 OC_PROCESS_STATE_RUNNING))"
    using a by (auto simp: process_event_defs)
  then show ?thesis
    by (intro exI [of _ q])
      (simp add: plain_thread_def log_event_def k_client_def set_client_def process_event_defs e)
qed



lemma deliver_all_cong:
  "(\<And>p. p \<in> set ps \<Longrightarrow> A p = B p) \<Longrightarrow> deliver_all f ev d A ps c = deliver_all f ev d B ps c"
  by (simp add: deliver_all_def cong: filter_cong)




text \<open>
  The life of a process, with threads that yield. Starting a process that is on the list
  changes nothing; otherwise it is put in front of the list, marked as running, and gets its
  initialisation event. Ending a running process tells every other active process once, in the
  order of the list, gives the process itself its exit event unless it is the current one, marks
  it as not running, takes exactly it off the list and restores the current process.
\<close>

theorem process_lifecycle:
  assumes "list_repr (k_procs k) ps" and "length ps + 3 \<le> n"
  shows "if p \<in> set ps
    then oc_process_start n (plain_thread f) k p data = Some k \<and>
      (oc_process_is_running k p \<longrightarrow>
       (\<exists>k'. oc_process_exit n (plain_thread f) k p = Some k' \<and> list_repr (k_procs k') (remove1 p ps) \<and>
         \<not> oc_process_is_running k' p \<and> k_current k' = k_current k \<and>
         k_client k' = (if k_has_thread k p \<and> k_current k \<noteq> Some p
             then f p OC_PROCESS_EVENT_EXIT None else id)
           (deliver_all f OC_PROCESS_EVENT_EXITED (Some p) (active k) (remove1 p ps) (k_client k))))
    else oc_process_exit n (plain_thread f) k p = Some k \<and>
      (\<exists>k'. oc_process_start n (plain_thread f) k p data = Some k' \<and> list_repr (k_procs k') (p # ps) \<and>
         oc_process_is_running k' p \<and> k_current k' = k_current k \<and>
         k_client k' = (if k_has_thread k p then f p OC_PROCESS_EVENT_INIT data (k_client k) else k_client k))"
proof (cases "p \<in> set ps")
  case True
  from assms(1) have find: "find_node (list_next (k_procs k)) (list_head (k_procs k)) p = Some True"
    using True by (simp add: list_repr_def find_node_chain)
  have "\<exists>k'. oc_process_exit n (plain_thread f) k p = Some k' \<and> list_repr (k_procs k') (remove1 p ps) \<and>
      \<not> oc_process_is_running k' p \<and> k_current k' = k_current k \<and>
      k_client k' = (if k_has_thread k p \<and> k_current k \<noteq> Some p
          then f p OC_PROCESS_EVENT_EXIT None else id)
        (deliver_all f OC_PROCESS_EVENT_EXITED (Some p) (active k) (remove1 p ps) (k_client k))"
    if run: "oc_process_is_running k p"
  proof -
    from assms(2) obtain m where n: "n = Suc m" "length ps + 2 \<le> m" by (cases n) auto
    let ?k = "set_state k p OC_PROCESS_STATE_NONE"
    let ?k2 = "fold (deliver f OC_PROCESS_EVENT_EXITED (Some p)) (remove1 p ps) ?k"
    have flt: "filter (\<lambda>a. a \<noteq> p) ps = remove1 p ps"
      using list_reprD [OF assms(1)] by (simp add: distinct_remove1_removeAll removeAll_filter_not_eq eq_commute)
    have "chain (list_next (k_procs ?k)) (list_head (k_procs k)) ps"
      using assms(1) by (simp add: list_repr_def)
    from notify_exited_plain [OF this n(2), of f p] have
      ntf: "notify_exited m (plain_thread f) ?k (list_head (k_procs k)) p = Some ?k2" by (simp add: flt)
    have pn: "p \<notin> set (remove1 p ps)" using list_reprD [OF assms(1)] by simp
    have "deliver_all f OC_PROCESS_EVENT_EXITED (Some p) (active ?k) (remove1 p ps) c =
        deliver_all f OC_PROCESS_EVENT_EXITED (Some p) (active k) (remove1 p ps) c" for c
      by (rule deliver_all_cong) (use pn in \<open>auto simp: active_def\<close>)
    then have k2: "k_procs ?k2 = k_procs k" "k_has_thread ?k2 = k_has_thread k"
      "k_client ?k2 = deliver_all f OC_PROCESS_EVENT_EXITED (Some p) (active k) (remove1 p ps) (k_client k)"
      "k_state ?k2 p = OC_PROCESS_STATE_NONE"
      using fold_deliver [of f OC_PROCESS_EVENT_EXITED "Some p" "remove1 p ps" ?k] pn
      by (auto simp: k_client_def)
    from unlink_process_ok [OF assms(1) True] obtain l where
      l: "unlink_process (k_procs k) p = Some l" "list_repr l (remove1 p ps)" by auto
    show ?thesis
      using run l k2 unfolding n(1) oc_process_exit_def
      by (simp add: find ntf oc_process_is_running_def Let_def plain_thread_def set_client_def
          k_client_def split: if_split)
  qed
  with True find show ?thesis by (simp add: oc_process_start_def)
next
  case False
  from assms(1) have find: "find_node (list_next (k_procs k)) (list_head (k_procs k)) p = Some False"
    using False by (simp add: list_repr_def find_node_chain)
  from assms(2) obtain m where n: "n = Suc m" by (cases n) auto
  let ?k = "(set_state (k\<lparr>k_procs := oc_list_push (k_procs k) p\<rparr>) p OC_PROCESS_STATE_RUNNING)
    \<lparr>k_lc := (k_lc k)(p := 0)\<rparr>"
  have "oc_process_start n (plain_thread f) k p data =
      Some ((deliver f OC_PROCESS_EVENT_INIT data p ?k)\<lparr>k_current := k_current k\<rparr>)"
    unfolding n oc_process_start_def oc_process_post_synch_def
    by (subst call_process_plain) (simp_all add: find Let_def oc_list_push_def process_event_defs)
  moreover have "list_repr (oc_list_push (k_procs k) p) (p # ps)"
    using list_repr_push [OF assms(1) False] .
  ultimately show ?thesis
    using False find n
    by (auto simp: oc_process_exit_def oc_process_is_running_def deliver_def active_def
        process_state_defs set_client_def k_client_def)
qed

theorem process_lifecycle_witness:
  "(\<exists>k'. oc_process_exit 5 (plain_thread log_event) example_kernel 1 = Some k' \<and>
      list_repr (k_procs k') [2] \<and> k_env k' = [(2, OC_PROCESS_EVENT_EXITED), (1, OC_PROCESS_EVENT_EXIT)]) \<and>
   (\<exists>k'. oc_process_start 5 (plain_thread log_event) example_kernel 3 None = Some k' \<and>
      list_repr (k_procs k') [3, 1, 2])"
proof
  have "oc_process_is_running example_kernel 1" "k_has_thread example_kernel 1"
    "k_current example_kernel = None" "active example_kernel 2" "k_env example_kernel = []"
    by (simp_all add: oc_process_is_running_def example_kernel_def process_state_defs active_def)
  with process_lifecycle [OF example_kernel_procs, of 5 1 log_event None]
  show "\<exists>k'. oc_process_exit 5 (plain_thread log_event) example_kernel 1 = Some k' \<and>
      list_repr (k_procs k') [2] \<and> k_env k' = [(2, OC_PROCESS_EVENT_EXITED), (1, OC_PROCESS_EVENT_EXIT)]"
    by (auto simp: deliver_all_def log_event_def k_client_def)
  from process_lifecycle [OF example_kernel_procs, of 5 3 log_event None]
  show "\<exists>k'. oc_process_start 5 (plain_thread log_event) example_kernel 3 None = Some k' \<and>
      list_repr (k_procs k') [3, 1, 2]"
    by auto
qed

end
