(* ===== verification/OcTimer.thy ===== *)
theory OcTimer
  imports OcProcess
begin

text \<open>
  Timers (\<open>util/oc_timer.c\<close>) and the event timers built on them (\<open>util/oc_etimer.c\<close>). Clock
  values are \<open>uint64_t\<close> and wrap. The pending event timers are a linked list at the level of its
  pointers; \<open>OC_PROCESS_NONE\<close> is \<open>NULL\<close>. Every operation takes the clock reading \<open>now\<close> as an
  argument: the clock does not advance while one operation runs. Expired timers are posted to the
  event queue of the kernel; the result \<^const>\<open>None\<close> is a walk that does not return, or the abort
  of \<open>oc_process_post\<close> without memory.
\<close>

record oc_timer =
  t_start :: u64
  t_interval :: u64

definition oc_timer_set :: "oc_timer \<Rightarrow> u64 \<Rightarrow> u64 \<Rightarrow> oc_timer" where
  "oc_timer_set t now interval = t\<lparr>t_interval := interval, t_start := now\<rparr>"

definition oc_timer_reset :: "oc_timer \<Rightarrow> oc_timer" where
  "oc_timer_reset t = t\<lparr>t_start := t_start t + t_interval t\<rparr>"

definition oc_timer_restart :: "oc_timer \<Rightarrow> u64 \<Rightarrow> oc_timer" where
  "oc_timer_restart t now = t\<lparr>t_start := now\<rparr>"

definition timer_expired :: "oc_timer \<Rightarrow> u64 \<Rightarrow> bool" where
  "timer_expired t now =
     (if t_start t > now then False
      else (let diff = (now - t_start t) + 1 in t_interval t < diff))"

definition oc_timer_expired :: "oc_timer \<Rightarrow> u64 \<Rightarrow> bool" where
  "oc_timer_expired t now = timer_expired t now"

definition oc_timer_until :: "oc_timer \<Rightarrow> u64 \<Rightarrow> u64" where
  "oc_timer_until t tm =
     (if timer_expired t tm then 0 else t_start t + t_interval t - tm)"

definition oc_timer_remaining :: "oc_timer \<Rightarrow> u64 \<Rightarrow> u64" where
  "oc_timer_remaining t now = oc_timer_until t now"

definition oc_timer_expiration_time :: "oc_timer \<Rightarrow> u64" where
  "oc_timer_expiration_time t = t_start t + t_interval t"

subsection \<open>Event timers\<close>

record etimers =
  et_list :: oc_list_t
  et_timer :: "node \<Rightarrow> oc_timer"
  et_p :: "node \<Rightarrow> nodeptr"
  et_next_expiration :: u64

definition OC_PROCESS_EVENT_TIMER :: u8 where "OC_PROCESS_EVENT_TIMER = 0x88"

partial_function (option) min_until ::
  "(node \<Rightarrow> oc_timer) \<Rightarrow> (node \<Rightarrow> nodeptr) \<Rightarrow> u64 \<Rightarrow> nodeptr \<Rightarrow> u64 \<Rightarrow> u64 option" where
  "min_until tm nx now t tdist = (case t of
     None \<Rightarrow> Some tdist
   | Some a \<Rightarrow>
       (let tdist2 = oc_timer_until (tm a) now
        in min_until tm nx now (nx a) (if tdist2 < tdist then tdist2 else tdist)))"

definition etimer_update_time :: "u64 \<Rightarrow> etimers \<Rightarrow> etimers option" where
  "etimer_update_time now s = (case list_head (et_list s) of
     None \<Rightarrow> Some (s\<lparr>et_next_expiration := 0\<rparr>)
   | Some t \<Rightarrow>
       map_option (\<lambda>tdist. s\<lparr>et_next_expiration := now + tdist\<rparr>)
         (min_until (et_timer s) (list_next (et_list s)) now (list_next (et_list s) t)
            (oc_timer_until (et_timer s t) now)))"

text \<open>
  The loop of \<open>etimer_process_poll\<close>, from timer \<open>t\<close> on with its predecessor \<open>prev\<close>; \<open>self\<close> is
  \<open>oc_etimer_process\<close> and \<open>dyn\<close>, \<open>junk\<close> are the parameters of \<open>oc_process_post\<close>.
\<close>

partial_function (option) poll_from ::
  "bool \<Rightarrow> (nat \<Rightarrow> event_data) option \<Rightarrow> node \<Rightarrow> u64 \<Rightarrow> 'e kernel \<Rightarrow> etimers \<Rightarrow> nodeptr \<Rightarrow> nodeptr \<Rightarrow>
   (bool \<times> 'e kernel \<times> etimers) option" where
  "poll_from dyn junk self now k s prev t = (case t of
     None \<Rightarrow> Some (False, k, s)
   | Some a \<Rightarrow>
       if \<not> oc_timer_expired (et_timer s a) now
       then poll_from dyn junk self now k s (Some a) (list_next (et_list s) a)
       else (case k_post dyn junk k (et_p s a) OC_PROCESS_EVENT_TIMER (Some a) of
               None \<Rightarrow> None
             | Some (r, k1) \<Rightarrow>
                 if r \<noteq> OC_PROCESS_ERR_OK
                 then poll_from dyn junk self now (oc_process_poll k1 (Some self)) s (Some a)
                        (list_next (et_list s) a)
                 else (let s1 = s\<lparr>et_p := (et_p s)(a := None),
                                 et_list := set_next (set_link_cell (et_list s) prev (list_next (et_list s) a))
                                              a None\<rparr>
                       in map_option (\<lambda>s2. (True, k1, s2)) (etimer_update_time now s1))))"

definition etimer_process_poll ::
  "bool \<Rightarrow> (nat \<Rightarrow> event_data) option \<Rightarrow> node \<Rightarrow> u64 \<Rightarrow> 'e kernel \<Rightarrow> etimers \<Rightarrow>
   (bool \<times> 'e kernel \<times> etimers) option" where
  "etimer_process_poll dyn junk self now k s =
     poll_from dyn junk self now k s None (list_head (et_list s))"

text \<open>\<open>while (etimer_process_poll());\<close>\<close>

partial_function (option) poll_all ::
  "bool \<Rightarrow> (nat \<Rightarrow> event_data) option \<Rightarrow> node \<Rightarrow> u64 \<Rightarrow> 'e kernel \<Rightarrow> etimers \<Rightarrow> ('e kernel \<times> etimers) option" where
  "poll_all dyn junk self now k s = (case etimer_process_poll dyn junk self now k s of
     None \<Rightarrow> None
   | Some (again, k1, s1) \<Rightarrow> if again then poll_all dyn junk self now k1 s1 else Some (k1, s1))"

partial_function (option) drop_leading :: "(node \<Rightarrow> nodeptr) \<Rightarrow> oc_list_t \<Rightarrow> nodeptr \<Rightarrow> oc_list_t option" where
  "drop_leading tp l p = (case list_head l of
     None \<Rightarrow> Some l
   | Some a \<Rightarrow> if tp a = p then drop_leading tp (l\<lparr>list_head := list_next l a\<rparr>) p else Some l)"

partial_function (option) drop_later :: "(node \<Rightarrow> nodeptr) \<Rightarrow> oc_list_t \<Rightarrow> node \<Rightarrow> nodeptr \<Rightarrow> oc_list_t option" where
  "drop_later tp l t p = (case list_next l t of
     None \<Rightarrow> Some l
   | Some b \<Rightarrow>
       if tp b = p then drop_later tp (set_next l t (list_next l b)) t p else drop_later tp l b p)"

definition etimer_remove_process_pending_timers :: "etimers \<Rightarrow> nodeptr \<Rightarrow> etimers option" where
  "etimer_remove_process_pending_timers s p = (case drop_leading (et_p s) (et_list s) p of
     None \<Rightarrow> None
   | Some l \<Rightarrow>
       (case list_head l of
          None \<Rightarrow> Some (s\<lparr>et_list := l\<rparr>)
        | Some t \<Rightarrow> map_option (\<lambda>l'. s\<lparr>et_list := l'\<rparr>) (drop_later (et_p s) l t p)))"

text \<open>
  One resumption of the protothread \<open>oc_etimer_process\<close>: \<open>g_timerlist\<close> is reset when it starts, later
  it reacts to the end of a process and to polling.
\<close>

definition oc_etimer_process ::
  "bool \<Rightarrow> (nat \<Rightarrow> event_data) option \<Rightarrow> node \<Rightarrow> u64 \<Rightarrow> bool \<Rightarrow> u8 \<Rightarrow> nat option \<Rightarrow> 'e kernel \<Rightarrow> etimers \<Rightarrow>
   ('e kernel \<times> etimers) option" where
  "oc_etimer_process dyn junk self now started ev data k s =
     (if \<not> started then Some (k, s\<lparr>et_list := (et_list s)\<lparr>list_head := None\<rparr>\<rparr>)
      else if ev = OC_PROCESS_EVENT_EXITED
      then map_option (\<lambda>s'. (k, s')) (etimer_remove_process_pending_timers s data)
      else if ev \<noteq> OC_PROCESS_EVENT_POLL then Some (k, s)
      else poll_all dyn junk self now k s)"

definition etimer_add_timer :: "node \<Rightarrow> u64 \<Rightarrow> 'e kernel \<Rightarrow> etimers \<Rightarrow> node \<Rightarrow> ('e kernel \<times> etimers) option" where
  "etimer_add_timer self now k s timer =
     (let k1 = oc_process_poll k (Some self)
      in case (if et_p s timer \<noteq> None
               then find_node (list_next (et_list s)) (list_head (et_list s)) timer else Some False) of
           None \<Rightarrow> None
         | Some is_in_list \<Rightarrow>
             (let l = (if is_in_list then et_list s
                       else (set_next (et_list s) timer (list_head (et_list s)))\<lparr>list_head := Some timer\<rparr>);
                  s1 = s\<lparr>et_list := l, et_p := (et_p s)(timer := k_current k1)\<rparr>
              in map_option (\<lambda>s2. (k1, s2)) (etimer_update_time now s1)))"

abbreviation set_timer :: "etimers \<Rightarrow> node \<Rightarrow> oc_timer \<Rightarrow> etimers" where
  "set_timer s a t \<equiv> s\<lparr>et_timer := (et_timer s)(a := t)\<rparr>"

definition oc_etimer_set ::
  "node \<Rightarrow> u64 \<Rightarrow> 'e kernel \<Rightarrow> etimers \<Rightarrow> node \<Rightarrow> u64 \<Rightarrow> ('e kernel \<times> etimers) option" where
  "oc_etimer_set self now k s et interval =
     etimer_add_timer self now k (set_timer s et (oc_timer_set (et_timer s et) now interval)) et"

definition oc_etimer_reset_with_new_interval ::
  "node \<Rightarrow> u64 \<Rightarrow> 'e kernel \<Rightarrow> etimers \<Rightarrow> node \<Rightarrow> u64 \<Rightarrow> ('e kernel \<times> etimers) option" where
  "oc_etimer_reset_with_new_interval self now k s et interval =
     etimer_add_timer self now k
       (set_timer s et ((oc_timer_reset (et_timer s et))\<lparr>t_interval := interval\<rparr>)) et"

definition oc_etimer_reset :: "node \<Rightarrow> u64 \<Rightarrow> 'e kernel \<Rightarrow> etimers \<Rightarrow> node \<Rightarrow> ('e kernel \<times> etimers) option" where
  "oc_etimer_reset self now k s et =
     etimer_add_timer self now k (set_timer s et (oc_timer_reset (et_timer s et))) et"

definition oc_etimer_restart :: "node \<Rightarrow> u64 \<Rightarrow> 'e kernel \<Rightarrow> etimers \<Rightarrow> node \<Rightarrow> ('e kernel \<times> etimers) option" where
  "oc_etimer_restart self now k s et =
     etimer_add_timer self now k (set_timer s et (oc_timer_restart (et_timer s et) now)) et"

text \<open>The \<open>int\<close> argument is converted to the unsigned clock type.\<close>

definition oc_etimer_adjust :: "u64 \<Rightarrow> etimers \<Rightarrow> node \<Rightarrow> int \<Rightarrow> etimers option" where
  "oc_etimer_adjust now s et timediff =
     etimer_update_time now
       (set_timer s et ((et_timer s et)\<lparr>t_start := t_start (et_timer s et) + word_of_int timediff\<rparr>))"

definition oc_etimer_expired :: "etimers \<Rightarrow> node \<Rightarrow> bool" where
  "oc_etimer_expired s et \<longleftrightarrow> et_p s et = None"

definition oc_etimer_pending :: "etimers \<Rightarrow> bool" where
  "oc_etimer_pending s \<longleftrightarrow> list_head (et_list s) \<noteq> None"

definition oc_etimer_next_expiration_time :: "etimers \<Rightarrow> u64" where
  "oc_etimer_next_expiration_time s = (if oc_etimer_pending s then et_next_expiration s else 0)"

definition oc_etimer_expiration_time :: "etimers \<Rightarrow> node \<Rightarrow> u64" where
  "oc_etimer_expiration_time s et = oc_timer_expiration_time (et_timer s et)"

definition oc_etimer_start_time :: "etimers \<Rightarrow> node \<Rightarrow> u64" where
  "oc_etimer_start_time s et = t_start (et_timer s et)"

definition oc_etimer_request_poll :: "node \<Rightarrow> 'e kernel \<Rightarrow> etimers \<Rightarrow> u64 \<times> 'e kernel" where
  "oc_etimer_request_poll self k s = (oc_etimer_next_expiration_time s, oc_process_poll k (Some self))"

text \<open>\<open>for (t = g_timerlist; t != NULL && t->next != et; t = t->next);\<close>\<close>

partial_function (option) find_before :: "(node \<Rightarrow> nodeptr) \<Rightarrow> nodeptr \<Rightarrow> node \<Rightarrow> nodeptr option" where
  "find_before nx t et = (case t of
     None \<Rightarrow> Some None
   | Some a \<Rightarrow> if nx a = Some et then Some (Some a) else find_before nx (nx a) et)"

definition oc_etimer_stop :: "u64 \<Rightarrow> etimers \<Rightarrow> node \<Rightarrow> etimers option" where
  "oc_etimer_stop now s et =
     (let l = et_list s;
          r = (if list_head l = Some et
               then etimer_update_time now (s\<lparr>et_list := l\<lparr>list_head := list_next l et\<rparr>\<rparr>)
               else case find_before (list_next l) (list_head l) et of
                      None \<Rightarrow> None
                    | Some None \<Rightarrow> Some s
                    | Some (Some t) \<Rightarrow>
                        etimer_update_time now (s\<lparr>et_list := set_next l t (list_next l et)\<rparr>))
      in map_option (\<lambda>s1. s1\<lparr>et_list := set_next (et_list s1) et None, et_p := (et_p s1)(et := None)\<rparr>) r)"

subsection \<open>Clock arithmetic\<close>

text \<open>A timer whose expiration time and whose distance to \<open>now\<close> do not wrap.\<close>

definition timer_fits :: "oc_timer \<Rightarrow> u64 \<Rightarrow> bool" where
  "timer_fits t now \<longleftrightarrow> unat (t_start t) + unat (t_interval t) < 2 ^ 64 \<and> unat now + 1 < 2 ^ 64"

lemma timer_expired_nat:
  assumes "timer_fits t now"
  shows "timer_expired t now \<longleftrightarrow> unat (t_start t) + unat (t_interval t) \<le> unat now"
proof (cases "now < t_start t")
  case True
  then show ?thesis by (simp add: timer_expired_def word_less_nat_alt)
next
  case False
  then have le: "t_start t \<le> now" by simp
  then have d: "unat (now - t_start t) = unat now - unat (t_start t)" by (rule unat_sub)
  have "unat (now - t_start t + 1) = unat (now - t_start t) + 1"
    using assms d unat_add_lem [of "now - t_start t" 1] by (auto simp: timer_fits_def)
  with d le show ?thesis
    by (auto simp: timer_expired_def Let_def word_less_nat_alt word_le_nat_alt)
qed

lemma oc_timer_until_nat:
  assumes "timer_fits t now"
  shows "unat (oc_timer_until t now) = (unat (t_start t) + unat (t_interval t)) - unat now"
proof -
  have s: "unat (t_start t + t_interval t) = unat (t_start t) + unat (t_interval t)"
    using assms unat_add_lem [of "t_start t" "t_interval t"] by (simp add: timer_fits_def)
  show ?thesis
  proof (cases "timer_expired t now")
    case True
    with timer_expired_nat [OF assms] show ?thesis by (simp add: oc_timer_until_def)
  next
    case False
    then have "now \<le> t_start t + t_interval t"
      using timer_expired_nat [OF assms] s by (simp add: word_le_nat_alt)
    with False s show ?thesis by (simp add: oc_timer_until_def unat_sub)
  qed
qed

subsection \<open>The pending timers\<close>

lemma min_until_chain:
  "chain nx t ts \<Longrightarrow> min_until tm nx now t d = Some (fold (\<lambda>a. min (oc_timer_until (tm a) now)) ts d)"
proof (induction ts arbitrary: t d)
  case Nil
  then show ?case by (simp add: min_until.simps)
next
  case (Cons a ts)
  have "(if oc_timer_until (tm a) now < d then oc_timer_until (tm a) now else d) =
      min (oc_timer_until (tm a) now) d" by (auto simp: min_def)
  with Cons show ?case by (subst min_until.simps) simp
qed

definition next_expiration :: "(node \<Rightarrow> oc_timer) \<Rightarrow> u64 \<Rightarrow> node list \<Rightarrow> u64" where
  "next_expiration tm now ts =
     (if ts = [] then 0 else now + Min ((\<lambda>a. oc_timer_until (tm a) now) ` set ts))"

lemma etimer_update_time_ok:
  assumes "list_repr (et_list s) ts"
  shows "etimer_update_time now s = Some (s\<lparr>et_next_expiration := next_expiration (et_timer s) now ts\<rparr>)"
proof (cases ts)
  case Nil
  with assms show ?thesis by (simp add: list_repr_def etimer_update_time_def next_expiration_def)
next
  case (Cons a as)
  let ?u = "\<lambda>a. oc_timer_until (et_timer s a) now"
  have "fold (\<lambda>a. min (?u a)) as (?u a) = Min (insert (?u a) (?u ` set as))"
    by (simp add: Min.set_eq_fold [of "?u a" "map ?u as", simplified] fold_map comp_def)
  with assms Cons show ?thesis
    by (auto simp: list_repr_def etimer_update_time_def next_expiration_def
        min_until_chain [where ts = as])
qed

subsection \<open>Polling\<close>

definition timer_event :: "etimers \<Rightarrow> node \<Rightarrow> event_data" where
  "timer_event s a = \<lparr>ed_ev = OC_PROCESS_EVENT_TIMER, ed_data = Some a, ed_p = et_p s a\<rparr>"

lemma k_post_dynamic:
  assumes "queue_wf (k_queue k)"
  shows "\<exists>q. k_post True (Some c) k p ev data = Some (OC_PROCESS_ERR_OK, k\<lparr>k_queue := q\<rparr>) \<and> queue_wf q \<and>
    queue_items q = queue_items (k_queue k) @ [\<lparr>ed_ev = ev, ed_data = data, ed_p = p\<rparr>]"
  using oc_process_post_dynamic [OF assms, of c p ev data] by (auto simp: k_post_def)

text \<open>One pass: the first expired timer is posted and unlinked, or there is none.\<close>

lemma poll_from_chain:
  assumes "chain (list_next (et_list s)) (list_head (et_list s)) (pre @ ts)"
    and "prev = (if pre = [] then None else Some (last pre))"
    and "chain (list_next (et_list s)) t ts"
    and "queue_wf (k_queue k)"
  shows "(filter (\<lambda>a. timer_expired (et_timer s a) now) ts = [] \<longrightarrow>
      poll_from True (Some c) self now k s prev t = Some (False, k, s)) \<and>
    (\<forall>a as. filter (\<lambda>a. timer_expired (et_timer s a) now) ts = a # as \<longrightarrow>
      (\<exists>q s'. poll_from True (Some c) self now k s prev t = Some (True, k\<lparr>k_queue := q\<rparr>, s') \<and>
        queue_wf q \<and> queue_items q = queue_items (k_queue k) @ [timer_event s a] \<and>
        list_repr (et_list s') (pre @ remove1 a ts) \<and> et_timer s' = et_timer s \<and>
        et_p s' = (et_p s)(a := None) \<and>
        et_next_expiration s' = next_expiration (et_timer s) now (pre @ remove1 a ts)))"
  using assms
proof (induction ts arbitrary: pre prev t)
  case Nil
  then show ?case by (simp add: poll_from.simps)
next
  case (Cons b bs)
  show ?case
  proof (cases "timer_expired (et_timer s b) now")
    case False
    have "poll_from True (Some c) self now k s prev t =
        poll_from True (Some c) self now k s (Some b) (list_next (et_list s) b)"
      using Cons.prems(3) False by (subst poll_from.simps) (simp add: oc_timer_expired_def)
    moreover have "a \<noteq> b" if "filter (\<lambda>a. timer_expired (et_timer s a) now) bs = a # as" for a as
      using that False by (metis filter_eq_ConsD)
    ultimately show ?thesis
      using Cons.IH [of "pre @ [b]" "Some b" "list_next (et_list s) b"] Cons.prems False by auto
  next
    case True
    obtain q where q: "k_post True (Some c) k (et_p s b) OC_PROCESS_EVENT_TIMER (Some b) =
        Some (OC_PROCESS_ERR_OK, k\<lparr>k_queue := q\<rparr>)" "queue_wf q"
        "queue_items q = queue_items (k_queue k) @ [timer_event s b]"
      using k_post_dynamic [OF Cons.prems(4)] by (metis timer_event_def)
    let ?s = "s\<lparr>et_p := (et_p s)(b := None),
      et_list := set_next (set_link_cell (et_list s) prev (list_next (et_list s) b)) b None\<rparr>"
    have "list_repr (et_list ?s) (pre @ bs)"
      using unlink_cell_chain [OF Cons.prems(1,2)] by (simp add: list_repr_def)
    note upd = etimer_update_time_ok [OF this, of now] and rep = this
    have "poll_from True (Some c) self now k s prev t =
        Some (True, k\<lparr>k_queue := q\<rparr>, ?s\<lparr>et_next_expiration := next_expiration (et_timer ?s) now (pre @ bs)\<rparr>)"
      using Cons.prems(3) True q(1) upd
      by (subst poll_from.simps) (simp add: oc_timer_expired_def Let_def)
    with True q rep show ?thesis by (auto intro!: exI [of _ q] simp: fun_upd_def)
  qed
qed

lemma poll_all_ok:
  assumes "list_repr (et_list s) ts" and "queue_wf (k_queue k)"
    and "E = (\<lambda>a. timer_expired (et_timer s a) now)"
  shows "\<exists>q s'. poll_all True (Some c) self now k s = Some (k\<lparr>k_queue := q\<rparr>, s') \<and> queue_wf q \<and>
    queue_items q = queue_items (k_queue k) @ map (timer_event s) (filter E ts) \<and>
    list_repr (et_list s') (filter (\<lambda>a. \<not> E a) ts) \<and> et_timer s' = et_timer s \<and>
    et_p s' = (\<lambda>a. if a \<in> set (filter E ts) then None else et_p s a)"
  using assms(1,2) unfolding assms(3)
proof (induction "length (filter (\<lambda>a. timer_expired (et_timer s a) now) ts)" arbitrary: s ts k)
  case 0
  then have none: "filter (\<lambda>a. timer_expired (et_timer s a) now) ts = []" by simp
  with 0 poll_from_chain [of s "[]" ts None "list_head (et_list s)" k now c self] have
    "poll_from True (Some c) self now k s None (list_head (et_list s)) = Some (False, k, s)"
    by (simp add: list_repr_def)
  then have p: "poll_all True (Some c) self now k s = Some (k, s)"
    by (subst poll_all.simps) (simp add: etimer_process_poll_def)
  from none have "filter (\<lambda>a. \<not> timer_expired (et_timer s a) now) ts = ts"
    by (auto simp: filter_empty_conv filter_id_conv)
  with 0 none p show ?case by (intro exI [of _ "k_queue k"] exI [of _ s]) auto
next
  case (Suc n)
  let ?E = "\<lambda>a. timer_expired (et_timer s a) now"
  from Suc.hyps(2) obtain a as where fl: "filter ?E ts = a # as" by (metis length_Suc_conv)
  with Suc poll_from_chain [of s "[]" ts None "list_head (et_list s)" k now c self] obtain q s1 where
    s1: "poll_from True (Some c) self now k s None (list_head (et_list s)) = Some (True, k\<lparr>k_queue := q\<rparr>, s1)"
      "queue_wf q" "queue_items q = queue_items (k_queue k) @ [timer_event s a]"
      "list_repr (et_list s1) (remove1 a ts)" "et_timer s1 = et_timer s" "et_p s1 = (et_p s)(a := None)"
    by (auto simp: list_repr_def)
  have a: "?E a" "a \<in> set ts" and d: "distinct ts"
    using fl list_reprD [OF Suc.prems(1)] by (auto dest: filter_eq_ConsD)
  have rm: "filter ?E (remove1 a ts) = as" "filter (\<lambda>x. \<not> ?E x) (remove1 a ts) = filter (\<lambda>x. \<not> ?E x) ts"
    using fl a by (simp_all add: filter_remove1)
  have an: "a \<notin> set as" using d fl by (metis distinct.simps(2) distinct_filter)
  then have ev: "map (timer_event s1) as = map (timer_event s) as"
    by (auto simp: timer_event_def s1(6))
  have n: "n = length (filter (\<lambda>x. timer_expired (et_timer s1 x) now) (remove1 a ts))"
    using Suc.hyps(2) rm(1) fl by (simp add: s1(5))
  let ?k = "k\<lparr>k_queue := q\<rparr>"
  from Suc.hyps(1) [OF n s1(4), of ?k] s1(2) obtain q2 s2 where
    s2: "poll_all True (Some c) self now ?k s1 = Some (?k\<lparr>k_queue := q2\<rparr>, s2)" "queue_wf q2"
      "queue_items q2 = queue_items q @ map (timer_event s1) as"
      "list_repr (et_list s2) (filter (\<lambda>x. \<not> ?E x) ts)" "et_timer s2 = et_timer s"
      "et_p s2 = (\<lambda>x. if x \<in> set as then None else et_p s1 x)"
    by (auto simp: s1(5) rm simp del: set_filter)
  have "poll_all True (Some c) self now k s = Some (k\<lparr>k_queue := q2\<rparr>, s2)"
    using s1(1) s2(1) by (subst poll_all.simps) (simp add: etimer_process_poll_def)
  moreover have "et_p s2 = (\<lambda>x. if x \<in> set (filter ?E ts) then None else et_p s x)"
    unfolding fl s2(6) s1(6) by (auto simp: fun_eq_iff)
  ultimately show ?case
    using s2(2-5) s1(3) ev by (intro exI [of _ q2] exI [of _ s2]) (simp add: fl)
qed

subsection \<open>Setting and stopping timers\<close>

lemma etimer_add_timer_ok:
  assumes "list_repr (et_list s) ts" and "k_current k = Some p" and "et_p s a = None \<longrightarrow> a \<notin> set ts"
  shows "\<exists>s'. etimer_add_timer self now k s a = Some (oc_process_poll k (Some self), s') \<and>
    list_repr (et_list s') (if a \<in> set ts then ts else a # ts) \<and> et_timer s' = et_timer s \<and>
    et_p s' = (et_p s)(a := Some p) \<and>
    et_next_expiration s' = next_expiration (et_timer s) now (a # ts)"
proof -
  let ?l = "if a \<in> set ts then et_list s
    else (set_next (et_list s) a (list_head (et_list s)))\<lparr>list_head := Some a\<rparr>"
  let ?s = "s\<lparr>et_list := ?l, et_p := (et_p s)(a := Some p)\<rparr>"
  have cur: "k_current (oc_process_poll k (Some self)) = Some p"
    using assms(2) by (simp add: oc_process_poll_def)
  have "(if et_p s a \<noteq> None then find_node (list_next (et_list s)) (list_head (et_list s)) a
      else Some False) = Some (a \<in> set ts)"
    using assms(1,3) by (auto simp: list_repr_def find_node_chain)
  then have eq: "etimer_add_timer self now k s a =
      map_option (\<lambda>s2. (oc_process_poll k (Some self), s2)) (etimer_update_time now ?s)"
    by (simp add: etimer_add_timer_def Let_def cur)
  have rep: "list_repr (et_list ?s) (if a \<in> set ts then ts else a # ts)"
    using assms(1) list_repr_push [OF assms(1), of a] by (simp add: oc_list_push_def)
  have "next_expiration (et_timer s) now (if a \<in> set ts then ts else a # ts) =
      next_expiration (et_timer s) now (a # ts)"
    by (auto simp: next_expiration_def insert_absorb)
  with rep show ?thesis by (simp add: eq etimer_update_time_ok [OF rep])
qed

lemma unlink_walk_find_before:
  "chain (list_next l) q ts \<Longrightarrow>
   unlink_walk l q p = (case find_before (list_next l) q p of
     None \<Rightarrow> None | Some None \<Rightarrow> Some l | Some (Some a) \<Rightarrow> Some (set_next l a (list_next l p)))"
proof (induction ts arbitrary: q)
  case Nil
  then show ?case by (simp add: unlink_walk.simps find_before.simps)
next
  case (Cons b bs)
  then show ?case
    by (subst unlink_walk.simps, subst find_before.simps) simp
qed

lemma find_before_chain:
  "chain nx (Some x) (x # xs) \<Longrightarrow> \<exists>r. find_before nx (Some x) p = Some r \<and> (r = None \<longleftrightarrow> p \<notin> set xs)"
proof (induction xs arbitrary: x)
  case Nil
  then show ?case by (simp add: find_before.simps)
next
  case (Cons y ys)
  then have nx: "nx x = Some y" and "chain nx (Some y) (y # ys)" by auto
  from Cons.IH [OF this(2)] nx show ?case
    by (cases "y = p") (auto simp: find_before.simps [of nx "Some x"])
qed

lemma oc_etimer_stop_ok:
  assumes r: "list_repr (et_list s) ts"
  shows "\<exists>s'. oc_etimer_stop now s a = Some s' \<and> list_repr (et_list s') (remove1 a ts) \<and>
    et_timer s' = et_timer s \<and> et_p s' = (et_p s)(a := None) \<and>
    et_next_expiration s' = (if a \<in> set ts then next_expiration (et_timer s) now (remove1 a ts)
      else et_next_expiration s)"
proof -
  let ?l = "et_list s"
  have fin: "list_repr (set_next l a None) xs" if "list_repr l xs" "a \<notin> set xs" for l xs
    using that by (simp add: list_repr_def)
  have nin: "a \<notin> set (remove1 a ts)" using list_reprD [OF r] by simp
  show ?thesis
  proof (cases "a \<in> set ts")
    case True
    from unlink_process_ok [OF r True] obtain l where
      l: "unlink_process ?l a = Some l" "list_repr l (remove1 a ts)" by auto
    have upd: "etimer_update_time now (s\<lparr>et_list := l\<rparr>) =
        Some (s\<lparr>et_list := l, et_next_expiration := next_expiration (et_timer s) now (remove1 a ts)\<rparr>)"
      using etimer_update_time_ok [of "s\<lparr>et_list := l\<rparr>" "remove1 a ts" now] l(2) by simp
    have "oc_etimer_stop now s a = Some (s\<lparr>et_list := set_next l a None,
        et_next_expiration := next_expiration (et_timer s) now (remove1 a ts), et_p := (et_p s)(a := None)\<rparr>)"
    proof (cases "list_head ?l = Some a")
      case True
      with l(1) upd show ?thesis by (simp add: oc_etimer_stop_def unlink_process_def Let_def)
    next
      case False
      with r True obtain x xs where xs: "ts = x # xs" "list_head ?l = Some x" "a \<in> set xs"
        by (cases ts) (auto simp: list_repr_def)
      with r have ch: "chain (list_next ?l) (Some x) (x # xs)" by (simp add: list_repr_def)
      from find_before_chain [OF ch, of a] xs(3) obtain b where
        "find_before (list_next ?l) (Some x) a = Some (Some b)" by auto
      with False l(1) upd xs(2) unlink_walk_find_before [OF ch, of a] show ?thesis
        by (simp add: oc_etimer_stop_def unlink_process_def Let_def)
    qed
    with fin [OF l(2) nin] True show ?thesis by simp
  next
    case False
    then have hd: "list_head ?l \<noteq> Some a" using r by (cases ts) (auto simp: list_repr_def)
    have "find_before (list_next ?l) (list_head ?l) a = Some None"
    proof (cases ts)
      case Nil
      with r show ?thesis by (simp add: list_repr_def find_before.simps)
    next
      case (Cons x xs)
      with r have "list_head ?l = Some x" "chain (list_next ?l) (Some x) (x # xs)"
        by (auto simp: list_repr_def)
      with find_before_chain [of "list_next ?l" x xs a] False Cons show ?thesis by auto
    qed
    with hd have "oc_etimer_stop now s a =
        Some (s\<lparr>et_list := set_next ?l a None, et_p := (et_p s)(a := None)\<rparr>)"
      by (simp add: oc_etimer_stop_def Let_def)
    with fin [OF r False] False show ?thesis by (simp add: remove1_idem)
  qed
qed

subsection \<open>The end of a process\<close>

lemma drop_leading_chain:
  "list_repr l ts \<Longrightarrow> \<exists>l'. drop_leading tp l p = Some l' \<and> list_repr l' (dropWhile (\<lambda>a. tp a = p) ts)"
proof (induction ts arbitrary: l)
  case Nil
  then show ?case by (subst drop_leading.simps) (simp add: list_repr_def)
next
  case (Cons a ts)
  then show ?case
    by (subst drop_leading.simps) (auto simp: list_repr_def)
qed

lemma drop_later_chain:
  "chain (list_next l) (list_head l) (pre @ t # ts) \<Longrightarrow>
   \<exists>l'. drop_later tp l t p = Some l' \<and>
     chain (list_next l') (list_head l') (pre @ t # filter (\<lambda>a. tp a \<noteq> p) ts)"
proof (induction ts arbitrary: l pre t)
  case Nil
  then have "list_next l t = None" using chain_suffix by fastforce
  with Nil show ?case by (subst drop_later.simps) simp
next
  case (Cons b ts)
  note ch = Cons.prems
  have nx: "list_next l t = Some b" using chain_suffix [OF ch] by simp
  show ?case
  proof (cases "tp b = p")
    case True
    let ?l = "set_next l t (list_next l b)"
    have "chain (list_next ?l) (list_head ?l) (pre @ t # ts)"
      using chain_relink [OF ch, of "list_next l b" ts] chain_distinct [OF ch] chain_suffix [OF ch] by simp
    from Cons.IH [OF this] True nx show ?thesis
      by (subst drop_later.simps) simp
  next
    case False
    from Cons.IH [of l "pre @ [t]" b] ch False nx show ?thesis
      by (subst drop_later.simps) simp
  qed
qed

lemma remove_pending_ok:
  assumes "list_repr (et_list s) ts"
  shows "\<exists>l. etimer_remove_process_pending_timers s p = Some (s\<lparr>et_list := l\<rparr>) \<and>
    list_repr l (filter (\<lambda>a. et_p s a \<noteq> p) ts)"
proof -
  let ?r = "dropWhile (\<lambda>a. et_p s a = p) ts"
  from drop_leading_chain [OF assms, of "et_p s" p] obtain l where
    l: "drop_leading (et_p s) (et_list s) p = Some l" "list_repr l ?r" by auto
  have flt: "filter (\<lambda>a. et_p s a \<noteq> p) ts = filter (\<lambda>a. et_p s a \<noteq> p) ?r"
    by (induction ts) auto
  show ?thesis
  proof (cases ?r)
    case Nil
    with l flt show ?thesis
      by (auto simp: etimer_remove_process_pending_timers_def list_repr_def simp del: dropWhile_eq_Nil_conv)
  next
    case (Cons t us)
    then have tp: "et_p s t \<noteq> p" by (metis (mono_tags) dropWhile_eq_Cons_conv)
    from Cons l(2) have "list_head l = Some t" "chain (list_next l) (list_head l) ([] @ t # us)"
      by (auto simp: list_repr_def)
    with drop_later_chain [OF this(2), of "et_p s" p] l(1) show ?thesis
      by (auto simp: etimer_remove_process_pending_timers_def list_repr_def flt Cons tp)
  qed
qed

subsection \<open>Timers set outside of a process\<close>

text \<open>
  \<open>etimer_add_timer\<close> takes a timer without process for one that is not on the list. A timer that
  was set while no process was current has none although it is linked, and setting it again makes
  the list cyclic: the update of the next expiration does not return.
\<close>

lemma min_until_self_loop:
  "min_until tm nx now t d = Some r \<Longrightarrow> nx a = Some a \<longrightarrow> t \<noteq> Some a"
  by (erule min_until.raw_induct [of "\<lambda>tm nx now t d r. nx a = Some a \<longrightarrow> t \<noteq> Some a", rotated])
    (fastforce simp: Let_def split: option.splits simp del: if_split)

lemma etimer_set_twice_without_process:
  assumes "k_current k = None" and "list_repr (et_list s) []" and "et_p s et = None"
  shows "\<exists>k1 s1. oc_etimer_set self now k s et i = Some (k1, s1) \<and> oc_etimer_set self now k1 s1 et j = None"
proof -
  have cur: "k_current (oc_process_poll k (Some self)) = None"
    using assms(1) by (simp add: oc_process_poll_def)
  let ?s0 = "s\<lparr>et_timer := (et_timer s)(et := oc_timer_set (et_timer s et) now i),
    et_list := (set_next (et_list s) et None)\<lparr>list_head := Some et\<rparr>, et_p := (et_p s)(et := None)\<rparr>"
  have "list_repr (et_list ?s0) [et]" by (simp add: list_repr_def)
  then obtain x where "etimer_update_time now ?s0 = Some (?s0\<lparr>et_next_expiration := x\<rparr>)"
    using etimer_update_time_ok by blast
  with assms cur have 1: "oc_etimer_set self now k s et i =
      Some (oc_process_poll k (Some self), ?s0\<lparr>et_next_expiration := x\<rparr>)"
    by (simp add: oc_etimer_set_def etimer_add_timer_def Let_def list_repr_def)
  have "min_until tm (nx(et := Some et)) now (Some et) d = None" for tm nx d
    using min_until_self_loop [of tm "nx(et := Some et)" now "Some et" d _ et]
    by (cases "min_until tm (nx(et := Some et)) now (Some et) d") auto
  then have "oc_etimer_set self now (oc_process_poll k (Some self)) (?s0\<lparr>et_next_expiration := x\<rparr>) et j = None"
    using cur by (simp add: oc_etimer_set_def etimer_add_timer_def Let_def etimer_update_time_def)
  with 1 show ?thesis by blast
qed

subsection \<open>Properties\<close>

definition example_etimers :: etimers where
  "example_etimers = \<lparr>et_list = \<lparr>list_head = Some 1, list_next = (\<lambda>_. None)(1 := Some 2, 2 := Some 3)\<rparr>,
     et_timer = (\<lambda>_. \<lparr>t_start = 10, t_interval = 5\<rparr>)(2 := \<lparr>t_start = 10, t_interval = 90\<rparr>),
     et_p = (\<lambda>_. Some 1)(3 := Some 2), et_next_expiration = 15\<rparr>"

lemma example_etimers_repr: "list_repr (et_list example_etimers) [1, 2, 3]"
  by (simp add: example_etimers_def list_repr_def)

text \<open>
  Timer arithmetic on 64-bit clocks: as long as the expiration time does not wrap and the
  clock is not at its maximum, a timer has expired exactly when start plus interval is not after
  now, the time until expiration is the exact difference and 0 when expired, and a reset starts
  the next interval exactly at the expiration time, without drift.
\<close>

theorem oc_timer_arithmetic:
  assumes "timer_fits t now"
  shows "(oc_timer_expired t now \<longleftrightarrow> unat (t_start t) + unat (t_interval t) \<le> unat now) \<and>
    unat (oc_timer_remaining t now) = (unat (t_start t) + unat (t_interval t)) - unat now \<and>
    (oc_timer_expired t now \<longleftrightarrow> oc_timer_remaining t now = 0) \<and>
    t_start (oc_timer_reset t) = oc_timer_expiration_time t \<and>
    unat (oc_timer_expiration_time t) = unat (t_start t) + unat (t_interval t) \<and>
    \<not> (0 < i \<and> oc_timer_expired (oc_timer_set t now i) now)"
proof -
  note e = timer_expired_nat [OF assms] and u = oc_timer_until_nat [OF assms]
  have s: "unat (t_start t + t_interval t) = unat (t_start t) + unat (t_interval t)"
    using assms unat_add_lem [of "t_start t" "t_interval t"] by (simp add: timer_fits_def)
  have "oc_timer_until t now = 0 \<longleftrightarrow> timer_expired t now"
    using e u by (simp add: unat_eq_0 [symmetric] del: unat_eq_0)
  with e u s show ?thesis
    by (auto simp: oc_timer_expired_def oc_timer_remaining_def oc_timer_reset_def
        oc_timer_expiration_time_def oc_timer_set_def timer_expired_def)
qed

theorem oc_timer_arithmetic_witness:
  "timer_fits \<lparr>t_start = 10, t_interval = 5\<rparr> 12 \<and>
   unat (oc_timer_remaining \<lparr>t_start = 10, t_interval = 5\<rparr> 12) = 3"
proof -
  have "timer_fits \<lparr>t_start = 10, t_interval = 5\<rparr> 12" by (simp add: timer_fits_def)
  with oc_timer_arithmetic [OF this] show ?thesis by simp
qed

text \<open>
  C34. Polling the event timers, with dynamic allocation, returns; it posts exactly one timer event
  for every expired pending timer, to the process that set it and in the order of the list, takes
  exactly the expired timers off the list and marks them as expired, and leaves the others pending.
\<close>

theorem etimer_poll_posts_expired:
  assumes "list_repr (et_list s) ts" and "queue_wf (k_queue k)"
  shows "\<exists>q s'. oc_etimer_process True (Some c) self now True OC_PROCESS_EVENT_POLL data k s =
      Some (k\<lparr>k_queue := q\<rparr>, s') \<and> queue_wf q \<and>
    queue_items q = queue_items (k_queue k) @
      map (\<lambda>a. \<lparr>ed_ev = OC_PROCESS_EVENT_TIMER, ed_data = Some a, ed_p = et_p s a\<rparr>)
        (filter (\<lambda>a. oc_timer_expired (et_timer s a) now) ts) \<and>
    list_repr (et_list s') (filter (\<lambda>a. \<not> oc_timer_expired (et_timer s a) now) ts) \<and>
    (\<forall>a \<in> set ts. oc_etimer_expired s' a \<longleftrightarrow> oc_timer_expired (et_timer s a) now \<or> oc_etimer_expired s a)"
  using poll_all_ok [OF assms refl, of c self now]
  by (auto simp: oc_etimer_process_def process_event_defs oc_timer_expired_def timer_event_def [abs_def]
      oc_etimer_expired_def)

theorem etimer_poll_posts_expired_witness:
  "\<exists>q s'. oc_etimer_process True (Some (\<lambda>_. zero_event)) 9 20 True OC_PROCESS_EVENT_POLL None example_kernel
      example_etimers = Some (example_kernel\<lparr>k_queue := q\<rparr>, s') \<and>
    map ed_data (queue_items q) = [None, None, Some 1, Some 3] \<and> list_repr (et_list s') [2]"
proof -
  have "timer_expired (et_timer example_etimers 1) 20" "\<not> timer_expired (et_timer example_etimers 2) 20"
    "timer_expired (et_timer example_etimers 3) 20"
    by (simp_all add: example_etimers_def timer_expired_def)
  with etimer_poll_posts_expired [OF example_etimers_repr example_kernel_queue(1), of "\<lambda>_. zero_event" 9 20 None]
  show ?thesis by (fastforce simp: oc_timer_expired_def example_kernel_queue(2))
qed

text \<open>
  The pending list. Setting a timer from a process links it at most once, assigns it to that
  process, requests a poll and makes the next expiration the minimum over all pending timers;
  stopping a timer unlinks exactly that one and marks it as expired, also when it was not pending;
  and when a process ends exactly its timers are taken off the list.
\<close>

theorem etimer_pending_list:
  assumes "list_repr (et_list s) ts" and "k_current k = Some p" and "et_p s a = None \<longrightarrow> a \<notin> set ts"
  shows "\<exists>k1 s1 s2 s3. oc_etimer_set self now k s a i = Some (k1, s1) \<and>
    list_repr (et_list s1) (if a \<in> set ts then ts else a # ts) \<and>
    et_timer s1 a = \<lparr>t_start = now, t_interval = i\<rparr> \<and> et_p s1 a = Some p \<and>
    k1 = oc_process_poll k (Some self) \<and>
    oc_etimer_next_expiration_time s1 =
      now + Min ((\<lambda>b. oc_timer_until (et_timer s1 b) now) ` set (a # ts)) \<and>
    oc_etimer_stop now s a = Some s2 \<and> list_repr (et_list s2) (remove1 a ts) \<and> oc_etimer_expired s2 a \<and>
    oc_etimer_process dyn junk self now True OC_PROCESS_EVENT_EXITED (Some r) k s = Some (k, s3) \<and>
    list_repr (et_list s3) (filter (\<lambda>b. et_p s b \<noteq> Some r) ts)"
proof -
  let ?s = "s\<lparr>et_timer := (et_timer s)(a := oc_timer_set (et_timer s a) now i)\<rparr>"
  from etimer_add_timer_ok [of ?s ts k p a self now] assms obtain s1 where
    s1: "oc_etimer_set self now k s a i = Some (oc_process_poll k (Some self), s1)"
      "list_repr (et_list s1) (if a \<in> set ts then ts else a # ts)" "et_timer s1 = et_timer ?s"
      "et_p s1 = (et_p s)(a := Some p)" "et_next_expiration s1 = next_expiration (et_timer ?s) now (a # ts)"
    by (auto simp: oc_etimer_set_def)
  have "oc_etimer_pending s1"
    using s1(2) by (cases ts) (auto simp: oc_etimer_pending_def list_repr_def split: if_splits)
  moreover have "et_timer s1 a = \<lparr>t_start = now, t_interval = i\<rparr>"
    by (simp add: s1(3) oc_timer_set_def)
  moreover obtain s2 where "oc_etimer_stop now s a = Some s2" "list_repr (et_list s2) (remove1 a ts)"
    "oc_etimer_expired s2 a"
    using oc_etimer_stop_ok [OF assms(1), of now a] by (auto simp: oc_etimer_expired_def)
  moreover obtain s3 where
    "oc_etimer_process dyn junk self now True OC_PROCESS_EVENT_EXITED (Some r) k s = Some (k, s3)"
    "list_repr (et_list s3) (filter (\<lambda>b. et_p s b \<noteq> Some r) ts)"
    using remove_pending_ok [OF assms(1), of "Some r"] by (auto simp: oc_etimer_process_def)
  ultimately show ?thesis
    using s1 by (auto simp: oc_etimer_next_expiration_time_def next_expiration_def)
qed

theorem etimer_pending_list_witness:
  "\<exists>k1 s1. oc_etimer_set 9 20 (example_kernel\<lparr>k_current := Some 2\<rparr>) example_etimers 7 4 = Some (k1, s1) \<and>
     list_repr (et_list s1) [7, 1, 2, 3] \<and> et_p s1 7 = Some 2"
proof -
  let ?k = "example_kernel\<lparr>k_current := Some 2\<rparr>"
  have "k_current ?k = Some 2" and "et_p example_etimers 7 = None \<longrightarrow> 7 \<notin> set [1, 2, 3 :: node]" by auto
  from etimer_pending_list [OF example_etimers_repr this, of 9 20 4] obtain k1 s1 where
    "oc_etimer_set 9 20 ?k example_etimers 7 4 = Some (k1, s1)" "et_p s1 7 = Some 2"
    "list_repr (et_list s1) (if 7 \<in> set [1, 2, 3 :: node] then [1, 2, 3] else [7, 1, 2, 3])" by blast
  then show ?thesis by simp
qed

end
