(* ===== verification/Base64.thy ===== *)
theory Base64
  imports OcPrelude
begin

text \<open>
  Base64 encoding and decoding (\<open>api/oc_base64.c\<close>). Buffers are lists of bytes and their sizes the
  lengths of the lists; every write into the output and every access to the alphabet is checked, and
  \<^const>\<open>None\<close> is an access out of bounds or a failed assertion, so that a \<^const>\<open>Some\<close> result also
  says that the code stays inside its buffers. The counter \<open>j\<close> of the code is an \<open>int\<close>: outputs are
  shorter than \<open>INT_MAX\<close>. The in-place decoder passes the same buffer as input and output; there the
  input argument is \<^const>\<open>None\<close> and reads see the bytes written so far.
\<close>

datatype oc_base64_encoding_t = OC_BASE64_ENCODING_STD | OC_BASE64_ENCODING_URL

definition oc_base64_encoded_output_size :: "nat \<Rightarrow> bool \<Rightarrow> nat" where
  "oc_base64_encoded_output_size n padding =
     (if padding then (n div 3) * 4 + (if n mod 3 \<noteq> 0 then 4 else 0) else (n * 4 + 2) div 3)"

text \<open>The characters \<open>A-Z\<close>, \<open>a-z\<close>, \<open>0-9\<close>, \<open>+\<close> and \<open>/\<close>; for URLs the last two are replaced.\<close>

definition alphabet_std :: bytes where
  "alphabet_std =
     [65, 66, 67, 68, 69, 70, 71, 72, 73, 74, 75, 76, 77,
      78, 79, 80, 81, 82, 83, 84, 85, 86, 87, 88, 89, 90,
      97, 98, 99, 100, 101, 102, 103, 104, 105, 106, 107, 108, 109,
      110, 111, 112, 113, 114, 115, 116, 117, 118, 119, 120, 121, 122,
      48, 49, 50, 51, 52, 53, 54, 55, 56, 57, 43, 47]"

definition alphabet :: "oc_base64_encoding_t \<Rightarrow> bytes" where
  "alphabet encoding =
     (if encoding = OC_BASE64_ENCODING_URL then alphabet_std[62 := 45, 63 := 95] else alphabet_std)"

definition emit :: "bytes \<Rightarrow> nat \<Rightarrow> u8 \<Rightarrow> bytes option" where
  "emit out j b = (if j < length out then Some (out[j := b]) else None)"

definition emit_char :: "bytes \<Rightarrow> bytes \<Rightarrow> nat \<Rightarrow> u8 \<Rightarrow> bytes option" where
  "emit_char al out j val = (if unat val < length al then emit out j (al ! unat val) else None)"

text \<open>The loop over the input: the state is the position, the pending bits, the output and \<open>j\<close>.\<close>

function encode_loop :: "bytes \<Rightarrow> bytes \<Rightarrow> nat \<Rightarrow> u8 \<Rightarrow> bytes \<Rightarrow> nat \<Rightarrow> (nat \<times> u8 \<times> bytes \<times> nat) option" where
  "encode_loop al input i val out j =
     (if i < length input then
        (let b = input ! i
         in if i mod 3 = 0 then
              (case emit_char al out j (drop_bit 2 b) of
                 None \<Rightarrow> None
               | Some out \<Rightarrow> encode_loop al input (Suc i) (push_bit 4 b AND 0x30) out (j + 1))
            else if i mod 3 = 1 then
              (case emit_char al out j (val OR drop_bit 4 b) of
                 None \<Rightarrow> None
               | Some out \<Rightarrow> encode_loop al input (Suc i) (push_bit 2 b AND 0x3D) out (j + 1))
            else
              (case emit_char al out j (val OR drop_bit 6 b) of
                 None \<Rightarrow> None
               | Some out1 \<Rightarrow>
                   (case emit_char al out1 (j + 1) (b AND 0x3F) of
                      None \<Rightarrow> None
                    | Some out2 \<Rightarrow> encode_loop al input (Suc i) (b AND 0x3F) out2 (j + 2))))
      else Some (i, val, out, j))"
  by pat_completeness auto
termination
  by (relation "measure (\<lambda>(al, input, i, val, out, j). length input - i)") auto

declare encode_loop.simps [simp del]

function pad_loop :: "nat \<Rightarrow> bytes \<Rightarrow> nat \<Rightarrow> (int \<times> bytes) option" where
  "pad_loop output_len out j =
     (if j < output_len then
        (case emit out j 61 of None \<Rightarrow> None | Some out' \<Rightarrow> pad_loop output_len out' (Suc j))
      else Some (int j, out))"
  by pat_completeness auto
termination
  by (relation "measure (\<lambda>(n, out, j). n - j)") auto

declare pad_loop.simps [simp del]

text \<open>The bits left over when the input size is not a multiple of 3 go into one more character.\<close>

definition encode_flush :: "bytes \<Rightarrow> nat \<times> u8 \<times> bytes \<times> nat \<Rightarrow> (bytes \<times> nat) option" where
  "encode_flush al st = (case st of (i, val, out, j) \<Rightarrow>
     if i mod 3 \<noteq> 0 then map_option (\<lambda>out'. (out', j + 1)) (emit_char al out j val) else Some (out, j))"

definition oc_base64_encode_v1 ::
  "oc_base64_encoding_t \<Rightarrow> bool \<Rightarrow> bytes \<Rightarrow> bytes \<Rightarrow> (int \<times> bytes) option" where
  "oc_base64_encode_v1 encoding padding input out =
     (if length input = 0 then Some (0, out)
      else let al = alphabet encoding;
               output_len = oc_base64_encoded_output_size (length input) padding
           in if length out < output_len then Some (-1, out)
              else case encode_loop al input 0 0 out 0 of
                     None \<Rightarrow> None
                   | Some st \<Rightarrow>
                       (case encode_flush al st of
                          None \<Rightarrow> None
                        | Some (out2, j2) \<Rightarrow>
                            if \<not> padding then if j2 = output_len then Some (int j2, out2) else None
                            else pad_loop output_len out2 j2))"

definition oc_base64_encode :: "bytes \<Rightarrow> bytes \<Rightarrow> (int \<times> bytes) option" where
  "oc_base64_encode input out = oc_base64_encode_v1 OC_BASE64_ENCODING_STD True input out"

definition base64_decode_char :: "oc_base64_encoding_t \<Rightarrow> u8 \<Rightarrow> int" where
  "base64_decode_char encoding c =
     (if c \<ge> 65 \<and> c \<le> 90 then uint c - 65
      else if c \<ge> 97 \<and> c \<le> 122 then uint c - 71
      else if c \<ge> 48 \<and> c \<le> 57 then uint c + 4
      else if encoding = OC_BASE64_ENCODING_STD then
        if c = 43 then 62 else if c = 47 then 63 else -1
      else if c = 45 then 62 else if c = 95 then 63 else -1)"

text \<open>The padding characters among the last two are counted; a padded input has at least four.\<close>

definition oc_base64_decoded_output_size :: "bytes \<Rightarrow> bool \<Rightarrow> int" where
  "oc_base64_decoded_output_size input padding =
     (let n = length input
      in if n = 0 then 0
         else if padding then
           if n mod 4 \<noteq> 0 then -1
           else (let padding_count = length (filter (\<lambda>c. c = 61) [input ! (n - 2), input ! (n - 1)])
                 in int (n * 3 div 4) - int padding_count)
         else if n mod 4 = 1 then -1
         else (let padding_count = (if n mod 4 \<noteq> 0 then 4 - n mod 4 else 0)
               in int ((n + padding_count) * 3 div 4) - int padding_count))"

definition input_bytes :: "bytes option \<Rightarrow> bytes \<Rightarrow> bytes" where
  "input_bytes input out = (case input of Some xs \<Rightarrow> xs | None \<Rightarrow> out)"

text \<open>
  What one character does, by its position in a group of four: the byte that is complete, if any,
  and the bits kept for the next one.
\<close>

definition decode_digit :: "nat \<Rightarrow> u8 \<Rightarrow> u8 \<Rightarrow> u8 option \<times> u8" where
  "decode_digit i val_c val_s =
     (if i mod 4 = 0 then (None, push_bit 2 val_s AND 0xFD)
      else if i mod 4 = 1 then (Some (val_c OR drop_bit 4 val_s), push_bit 4 val_s AND 0xF0)
      else if i mod 4 = 2 then (Some (val_c OR drop_bit 2 val_s), push_bit 6 val_s AND 0xD0)
      else (Some (val_c OR val_s), val_c OR val_s))"

text \<open>\<open>n\<close> is \<open>input_size\<close>; the result is the return value and the output buffer.\<close>

function decode_loop ::
  "oc_base64_encoding_t \<Rightarrow> bool \<Rightarrow> bytes option \<Rightarrow> nat \<Rightarrow> nat \<Rightarrow> u8 \<Rightarrow> bytes \<Rightarrow> nat \<Rightarrow> (int \<times> bytes) option" where
  "decode_loop encoding padding input n i val_c out j =
     (if i < n then
        (let c = input_bytes input out ! i; val = base64_decode_char encoding c
         in if padding \<and> c = 61 then
              if i < n - 2 then Some (-1, out)
              else if i = n - 2 \<and> input_bytes input out ! (i + 1) \<noteq> 61 then Some (-1, out)
              else Some (int j, out)
            else if val < 0 then Some (-1, out)
            else (case decode_digit i val_c (word_of_int val) of
                    (None, vc) \<Rightarrow> decode_loop encoding padding input n (Suc i) vc out j
                  | (Some b, vc) \<Rightarrow>
                      (case emit out j b of
                         None \<Rightarrow> None
                       | Some out' \<Rightarrow> decode_loop encoding padding input n (Suc i) vc out' (j + 1))))
      else Some (int j, out))"
  by pat_completeness auto
termination
  by (relation "measure (\<lambda>(e, p, input, n, i, v, out, j). n - i)") auto

declare decode_loop.simps [simp del]

definition oc_base64_decode_v1 ::
  "oc_base64_encoding_t \<Rightarrow> bool \<Rightarrow> bytes option \<Rightarrow> bytes \<Rightarrow> (int \<times> bytes) option" where
  "oc_base64_decode_v1 encoding padding input out =
     (let xs = input_bytes input out; sz = oc_base64_decoded_output_size xs padding
      in if sz < 0 \<or> int (length out) < sz then Some (-1, out)
         else decode_loop encoding padding input (length xs) 0 0 out 0)"

definition oc_base64_decode :: "bytes \<Rightarrow> (int \<times> bytes) option" where
  "oc_base64_decode str =
     (case oc_base64_decode_v1 OC_BASE64_ENCODING_STD True None str of
        None \<Rightarrow> None
      | Some (j, out) \<Rightarrow>
          if j < 0 then Some (j, out)
          else Some (j, write_at out (nat j) (replicate (length str - nat j) 0)))"

subsection \<open>Bits\<close>

text \<open>The four sextets of a group of three bytes.\<close>

definition six1 :: "u8 \<Rightarrow> u8" where "six1 a = drop_bit 2 a"
definition six2 :: "u8 \<Rightarrow> u8 \<Rightarrow> u8" where "six2 a b = push_bit 4 a AND 0x30 OR drop_bit 4 b"
definition six3 :: "u8 \<Rightarrow> u8 \<Rightarrow> u8" where "six3 b c = push_bit 2 b AND 0x3D OR drop_bit 6 c"
definition six4 :: "u8 \<Rightarrow> u8" where "six4 c = c AND 0x3F"

lemmas six_defs = six1_def six2_def six3_def six4_def

lemma six_small [simp]: "unat (six1 a) < 64" "unat (six2 a b) < 64" "unat (six3 a b) < 64" "unat (six4 a) < 64"
  "unat (push_bit 4 a AND 0x30 :: u8) < 64" "unat (push_bit 2 a AND 0x3D :: u8) < 64"
  by (intro byte_lt_64; simp add: six_defs bit_simps)+


lemma six_byte1: "push_bit 2 (six1 a) AND 0xFD OR drop_bit 4 (six2 a b) = a"
  by (rule byte_eqI) (simp_all add: six_defs bit_simps)

lemma six_byte2: "push_bit 4 (six2 a b) AND 0xF0 OR drop_bit 2 (six3 b c) = b"
  by (rule byte_eqI) (simp_all add: six_defs bit_simps)

lemma six_byte3: "push_bit 6 (six3 b c) AND 0xD0 OR six4 c = c"
  by (rule byte_eqI) (simp_all add: six_defs bit_simps)

lemma alphabet_length [simp]: "length (alphabet e) = 64"
  by (simp add: alphabet_def alphabet_std_def)

lemma alphabet_decode_all: "list_all2 (\<lambda>k c. base64_decode_char e c = int k \<and> c \<noteq> 61) [0..<64] (alphabet e)"
  by (cases e) (simp_all add: alphabet_def alphabet_std_def upt_rec base64_decode_char_def)

lemma alphabet_decode:
  assumes "unat v < 64"
  shows "base64_decode_char e (alphabet e ! unat v) = uint v" and "alphabet e ! unat v \<noteq> 61"
  using list_all2_nthD [OF alphabet_decode_all, of "unat v" e] assms by simp_all

subsection \<open>The encoder\<close>

text \<open>RFC 4648 as a function on byte strings: the sextets of the input, and the padding.\<close>

fun sextets :: "bytes \<Rightarrow> bytes" where
  "sextets [] = []"
| "sextets [a] = [six1 a, six2 a 0]"
| "sextets [a, b] = [six1 a, six2 a b, six3 b 0]"
| "sextets (a # b # c # r) = six1 a # six2 a b # six3 b c # six4 c # sextets r"

definition b64_chars :: "oc_base64_encoding_t \<Rightarrow> bytes \<Rightarrow> bytes" where
  "b64_chars e bs = map (\<lambda>v. alphabet e ! unat v) (sextets bs)"

definition b64_pad :: "bool \<Rightarrow> nat \<Rightarrow> bytes" where
  "b64_pad padding n = (if padding then replicate ((3 - n mod 3) mod 3) 61 else [])"

definition b64 :: "oc_base64_encoding_t \<Rightarrow> bool \<Rightarrow> bytes \<Rightarrow> bytes" where
  "b64 e padding bs = b64_chars e bs @ b64_pad padding (length bs)"

lemma length_sextets: "length (sextets bs) = (length bs * 4 + 2) div 3"
  by (induction bs rule: sextets.induct) auto

lemma length_sextets_padded:
  "length (sextets bs) + (3 - length bs mod 3) mod 3 = length bs div 3 * 4 + (if length bs mod 3 \<noteq> 0 then 4 else 0)"
proof (induction bs rule: sextets.induct)
  case (4 a b c r)
  have "length (a # b # c # r) = length r + 3" by simp
  then have "length (a # b # c # r) mod 3 = length r mod 3" "length (a # b # c # r) div 3 = length r div 3 + 1"
    by (simp_all only: mod_add_self2 div_add_self2)
  with 4 show ?case by simp
qed simp_all

lemma length_b64: "length (b64 e padding bs) = oc_base64_encoded_output_size (length bs) padding"
  using length_sextets_padded [of bs]
  by (simp add: b64_def b64_chars_def b64_pad_def length_sextets oc_base64_encoded_output_size_def)

lemma emit_char_ok [simp]:
  "unat v < 64 \<Longrightarrow> j < length out \<Longrightarrow> emit_char (alphabet e) out j v = Some (out[j := alphabet e ! unat v])"
  by (simp add: emit_char_def emit_def)






subsection \<open>The decoder\<close>

lemma length_emit: "emit out j b = Some out' \<Longrightarrow> length out' = length out"
  by (auto simp: emit_def split: if_splits)

text \<open>Decoding in place reads the same characters as decoding from a copy, since \<open>j \<le> i\<close>.\<close>

lemma decode_in_place:
  assumes "drop i out = drop i xs" and "length out = length xs" and "n = length xs" and "j \<le> i"
    and "n \<noteq> 1"
  shows "decode_loop e p None n i v out j = decode_loop e p (Some xs) n i v out j"
  using assms
proof (induction "n - i" arbitrary: i v out j)
  case 0
  then show ?case by (subst (1 2) decode_loop.simps) simp
next
  case (Suc k)
  then have i: "i < n" "i < length xs" "k = n - Suc i" by auto
  have same: "out ! (i + d) = xs ! (i + d)" if "i + d < n" for d
    using that Suc.prems nth_drop [of i out d] nth_drop [of i xs d] by simp
  have next_drop: "drop (Suc i) out = drop (Suc i) xs" using Suc.prems(1) by (metis drop_Suc tl_drop)
  have rec0: "decode_loop e p None n (Suc i) v' out j = decode_loop e p (Some xs) n (Suc i) v' out j" for v'
    using Suc.prems i next_drop by (intro Suc.hyps(1)) auto
  have rec1: "decode_loop e p None n (Suc i) v' out' (j + 1) = decode_loop e p (Some xs) n (Suc i) v' out' (j + 1)"
    if "emit out j b = Some out'" for v' out' b
    using that Suc.prems i next_drop by (intro Suc.hyps(1)) (auto simp: emit_def split: if_splits)
  have c: "out ! i = xs ! i" and c1: "i + 1 < n \<Longrightarrow> out ! (i + 1) = xs ! (i + 1)"
    using same [of 0] same [of 1] i by auto
  have last: "i = n - 2 \<and> out ! (i + 1) \<noteq> 61 \<longleftrightarrow> i = n - 2 \<and> xs ! (i + 1) \<noteq> 61" if "i + 1 < n \<or> i \<noteq> n - 2"
    using that c1 by auto
  from i assms(5) have nlast: "i + 1 < n \<or> i \<noteq> n - 2" by auto
  obtain bo vc where d: "decode_digit i v (word_of_int (base64_decode_char e (xs ! i))) = (bo, vc)" by fastforce
  note unfold = decode_loop.simps [of e p None n i v out j] decode_loop.simps [of e p "Some xs" n i v out j]
  show ?case
  proof (cases bo)
    case None
    then show ?thesis
      unfolding unfold input_bytes_def option.case c Let_def d by (simp add: rec0 last [OF nlast, simplified])
  next
    case (Some b)
    show ?thesis
      unfolding unfold input_bytes_def option.case c Let_def d Some
      by (cases "emit out j b") (simp_all add: rec1 [simplified] last [OF nlast, simplified])
  qed
qed

text \<open>The number of bytes written before the character at position \<open>i\<close> is looked at.\<close>

definition decoded_count :: "nat \<Rightarrow> nat" where
  "decoded_count i = i div 4 * 3 + (i mod 4 - 1)"

lemma decoded_count_Suc: "decoded_count (Suc i) = decoded_count i + (if i mod 4 = 0 then 0 else 1)"
  by (auto simp: decoded_count_def div_Suc mod_Suc)

lemma decode_digit_byte: "fst (decode_digit i v s) = None \<longleftrightarrow> i mod 4 = 0"
  by (auto simp: decode_digit_def)

definition stops_at :: "bool \<Rightarrow> bytes \<Rightarrow> nat \<Rightarrow> bool" where
  "stops_at padding xs i \<longleftrightarrow> padding \<and> xs ! i = 61"

text \<open>
  The loop stays inside the first \<open>S\<close> bytes of the output if no character that is reached would
  complete a byte at \<open>S\<close> or behind.
\<close>

lemma decode_loop_safe:
  assumes "j = decoded_count i" and "j \<le> S" and "S \<le> length out"
    and "\<And>k. i \<le> k \<Longrightarrow> k < n \<Longrightarrow> k mod 4 \<noteq> 0 \<Longrightarrow> (\<And>m. i \<le> m \<Longrightarrow> m \<le> k \<Longrightarrow> \<not> stops_at p xs m) \<Longrightarrow>
      decoded_count k < S"
  shows "\<exists>r out'. decode_loop e p (Some xs) n i v out j = Some (r, out') \<and> length out' = length out \<and>
    (r = -1 \<or> 0 \<le> r \<and> r \<le> int S) \<and> drop S out' = drop S out"
  using assms
proof (induction "n - i" arbitrary: i v out j)
  case 0
  then show ?case by (subst decode_loop.simps) auto
next
  case (Suc k)
  then have i: "i < n" "k = n - Suc i" by auto
  let ?val = "base64_decode_char e (xs ! i)"
  let ?d = "decode_digit i v (word_of_int ?val)"
  show ?case
  proof (cases "stops_at p xs i \<or> ?val < 0")
    case True
    then show ?thesis
      using i Suc.prems by (subst decode_loop.simps) (auto simp: stops_at_def input_bytes_def Let_def)
  next
    case False
    have later: "decoded_count m < S" if "Suc i \<le> m" "m < n" "m mod 4 \<noteq> 0"
      "\<And>l. Suc i \<le> l \<Longrightarrow> l \<le> m \<Longrightarrow> \<not> stops_at p xs l" for m
    proof (rule Suc.prems(4))
      show "\<not> stops_at p xs l" if "i \<le> l" "l \<le> m" for l
        using that False \<open>\<And>l. Suc i \<le> l \<Longrightarrow> l \<le> m \<Longrightarrow> \<not> stops_at p xs l\<close> by (cases "l = i") auto
    qed (use that in auto)
    show ?thesis
    proof (cases "i mod 4 = 0")
      case True
      then obtain vc where d: "?d = (None, vc)" by (simp add: decode_digit_def)
      have "decode_loop e p (Some xs) n i v out j = decode_loop e p (Some xs) n (Suc i) vc out j"
        using i False d by (subst decode_loop.simps) (auto simp: stops_at_def input_bytes_def Let_def)
      with Suc.hyps(1) [OF i(2), of j out vc] Suc.prems True later show ?thesis
        by (simp add: decoded_count_Suc)
    next
      case ne: False
      then obtain b vc where d: "?d = (Some b, vc)"
        using decode_digit_byte [of i v "word_of_int ?val"] by (cases ?d) auto
      have jS: "j < S" using Suc.prems(1) Suc.prems(4) [of i] i ne False by auto
      have "decode_loop e p (Some xs) n i v out j = decode_loop e p (Some xs) n (Suc i) vc (out[j := b]) (j + 1)"
        using i False d jS Suc.prems(3)
        by (subst decode_loop.simps) (auto simp: stops_at_def input_bytes_def Let_def emit_def)
      with Suc.hyps(1) [OF i(2), of "j + 1" "out[j := b]" vc] Suc.prems(1,3) ne jS later show ?thesis
        by (simp add: decoded_count_Suc)
    qed
  qed
qed

lemma decoded_size_bound:
  assumes "oc_base64_decoded_output_size xs p = int S" and "k < length xs" and "k mod 4 \<noteq> 0"
    and "\<And>m. m \<le> k \<Longrightarrow> \<not> stops_at p xs m"
  shows "decoded_count k < S"
proof -
  define n q where "n = length xs" and "q = k div 4"
  from assms(2) have n0: "n \<noteq> 0" "k < n" by (auto simp: n_def)
  have k: "k = 4 * q + k mod 4" "k mod 4 \<in> {1, 2, 3}" using assms(3) by (auto simp: q_def)
  have cnt: "decoded_count k + 1 = 3 * q + k mod 4"
    using k(2) by (auto simp: decoded_count_def q_def)
  show ?thesis
  proof (cases p)
    case True
    let ?f = "filter (\<lambda>c. c = 61) [xs ! (n - 2), xs ! (n - 1)]"
    from assms(1) n0 True have mod: "n mod 4 = 0" and S: "int S = int (n * 3 div 4) - int (length ?f)"
      by (auto simp: oc_base64_decoded_output_size_def Let_def n_def split: if_splits)
    define m where "m = n div 4"
    from mod have n: "n = 4 * m" by (auto simp: m_def)
    have S': "int S = 3 * int m - int (length ?f)" using S by (simp add: n)
    have stop: "xs ! l \<noteq> 61" if "l \<le> k" for l using assms(4) [OF that] True by (simp add: stops_at_def)
    have two: "length ?f \<le> 2" by simp
    have one: "length ?f \<le> 1" if "n - 2 \<le> k" using stop [OF that] by simp
    have none: "length ?f = 0" if "n - 1 \<le> k" using stop [of "n - 1"] stop [of "n - 2"] that by simp
    consider "q + 1 < m" | "q + 1 = m" using k n0(2) n by (cases "q + 1 < m") auto
    then show ?thesis
    proof cases
      case 1
      then show ?thesis using cnt k(2) S' two by auto
    next
      case 2
      from k(2) consider "k mod 4 = 1" | "k mod 4 = 2" | "k mod 4 = 3" by auto
      then show ?thesis
      proof cases
        case 1 then show ?thesis using cnt S' two 2 by simp
      next
        case two': 2
        then have "n - 2 \<le> k" using k n 2 by linarith
        from one [OF this] two' show ?thesis using cnt S' 2 by simp
      next
        case 3
        then have "n - 1 \<le> k" using k n 2 by linarith
        from none [OF this] 3 show ?thesis using cnt S' 2 by simp
      qed
    qed
  next
    case False
    define m where "m = n div 4"
    have nm: "n = 4 * m + n mod 4" by (simp add: m_def)
    from assms(1) n0 False have "n mod 4 = 0 \<or> n mod 4 = 2 \<or> n mod 4 = 3"
      by (auto simp: oc_base64_decoded_output_size_def Let_def n_def split: if_splits)
    then consider "n mod 4 = 0" | "n mod 4 = 2" | "n mod 4 = 3" by fastforce
    then have "int S = 3 * int m + (if n mod 4 = 0 then 0 else int (n mod 4) - 1)"
    proof cases
      case 1
      then have "n = 4 * m" using nm by simp
      with assms(1) n0 False 1 show ?thesis
        by (simp add: oc_base64_decoded_output_size_def Let_def flip: n_def)
    next
      case 2
      then have "n + 2 = 4 * (m + 1)" using nm by simp
      moreover have "int S = int ((n + 2) * 3 div 4) - 2"
        using assms(1) n0 False 2 by (simp add: oc_base64_decoded_output_size_def Let_def flip: n_def)
      ultimately show ?thesis using 2 by simp
    next
      case 3
      then have "n + 1 = 4 * (m + 1)" using nm by simp
      moreover have "int S = int ((n + 1) * 3 div 4) - 1"
        using assms(1) n0 False 3 by (simp add: oc_base64_decoded_output_size_def Let_def flip: n_def)
      ultimately show ?thesis using 3 by simp
    qed
    moreover have "q < m \<or> q = m \<and> k mod 4 < n mod 4"
    proof -
      have "n mod 4 < 4" by simp
      with nm k n0(2) show ?thesis by (cases "q < m"; cases "q = m") linarith+
    qed
    moreover have "3 * q + k mod 4 \<le> 3 * m" if "q < m" using that k(2) by auto
    ultimately have "3 * q + k mod 4 \<le> S" by (auto split: if_splits)
    then show ?thesis using cnt by linarith
  qed
qed

subsection \<open>Decoding what was encoded\<close>

text \<open>One character of the alphabet, at position \<open>i\<close>.\<close>

lemma decode_step:
  assumes "drop i xs = alphabet e ! unat s # rest" and "unat s < 64" and "n = length xs"
  shows "decode_digit i v s = (None, vc) \<Longrightarrow>
      decode_loop e p (Some xs) n i v out j = decode_loop e p (Some xs) n (Suc i) vc out j"
    and "decode_digit i v s = (Some b, vc) \<Longrightarrow> j < length out \<Longrightarrow>
      decode_loop e p (Some xs) n i v out j = decode_loop e p (Some xs) n (Suc i) vc (out[j := b]) (Suc j)"
  using drop_eq_ConsD [OF assms(1)] alphabet_decode [OF assms(2)] assms(3)
  by (subst decode_loop.simps; simp add: input_bytes_def emit_def)+

text \<open>At the end of the characters: the input ends, or the padding does.\<close>

lemma decode_end:
  assumes "n = length xs" and "drop i xs = [] \<or> 0 < i \<and> p \<and> (drop i xs = [61] \<or> drop i xs = [61, 61])"
  shows "decode_loop e p (Some xs) n i v out j = Some (int j, out)"
proof -
  have "length (drop i xs) = n - i" by (simp add: assms(1))
  with assms drop_eq_ConsD [of i xs 61 "[]"] drop_eq_ConsD [of i xs 61 "[61]"] drop_eq_ConsD [of "Suc i" xs 61 "[]"]
  show ?thesis
    by (subst decode_loop.simps) (auto simp: input_bytes_def)
qed

lemma decode_chars:
  assumes "i mod 4 = 0" and "drop i xs = b64 e p bs" and "n = length xs" and "j + length bs \<le> length out"
  shows "decode_loop e p (Some xs) n i v out j = Some (int (j + length bs), write_at out j bs)"
  using assms
proof (induction bs arbitrary: i v out j rule: sextets.induct)
  case 1
  then show ?case using decode_end [of n xs i p] by (simp add: b64_def b64_chars_def b64_pad_def)
next
  case (2 a)
  let ?pad = "b64_pad p 1"
  have d: "drop i xs = alphabet e ! unat (six1 a) # alphabet e ! unat (six2 a 0) # ?pad"
    using 2 by (simp add: b64_def b64_chars_def)
  note d1 = drop_eq_ConsD [OF d, THEN conjunct2, THEN conjunct2]
  note d2 = drop_eq_ConsD [OF d1, THEN conjunct2, THEN conjunct2]
  have m: "Suc i mod 4 = 1" using 2 by (simp add: mod_Suc)
  have "?pad = [] \<or> p \<and> ?pad = [61, 61]" by (auto simp: b64_pad_def numeral_2_eq_2)
  then show ?case
    using 2 m d2 decode_end [OF "2.prems"(3), of "Suc (Suc i)" p]
    by (subst decode_step(1) [OF d], simp, simp, simp add: decode_digit_def,
        subst decode_step(2) [OF d1], simp_all add: decode_digit_def six_byte1)
      (auto simp flip: write_at_update)
next
  case (3 a b)
  let ?pad = "b64_pad p 2"
  have d: "drop i xs = alphabet e ! unat (six1 a) # alphabet e ! unat (six2 a b) #
      alphabet e ! unat (six3 b 0) # ?pad"
    using 3 by (simp add: b64_def b64_chars_def numeral_2_eq_2)
  note d1 = drop_eq_ConsD [OF d, THEN conjunct2, THEN conjunct2]
  note d2 = drop_eq_ConsD [OF d1, THEN conjunct2, THEN conjunct2]
  note d3 = drop_eq_ConsD [OF d2, THEN conjunct2, THEN conjunct2]
  have m: "Suc i mod 4 = 1" "Suc (Suc i) mod 4 = 2" using 3 by (auto simp: mod_Suc)
  have "?pad = [] \<or> p \<and> ?pad = [61]" by (auto simp: b64_pad_def)
  then show ?case
    using 3 m d3 decode_end [OF "3.prems"(3), of "Suc (Suc (Suc i))" p]
    by (subst decode_step(1) [OF d], simp, simp, simp add: decode_digit_def,
        subst decode_step(2) [OF d1], simp_all add: decode_digit_def six_byte1,
        subst decode_step(2) [OF d2], simp_all add: decode_digit_def six_byte2)
      (auto simp flip: write_at_update)
next
  case (4 a b c r)
  have d: "drop i xs = alphabet e ! unat (six1 a) # alphabet e ! unat (six2 a b) #
      alphabet e ! unat (six3 b c) # alphabet e ! unat (six4 c) # b64 e p r"
  proof -
    have "length (a # b # c # r) = length r + 3" by simp
    then have "length (a # b # c # r) mod 3 = length r mod 3" by (simp only: mod_add_self2)
    then show ?thesis using "4.prems"(2) by (simp add: b64_def b64_chars_def b64_pad_def)
  qed
  note d1 = drop_eq_ConsD [OF d, THEN conjunct2, THEN conjunct2]
  note d2 = drop_eq_ConsD [OF d1, THEN conjunct2, THEN conjunct2]
  note d3 = drop_eq_ConsD [OF d2, THEN conjunct2, THEN conjunct2]
  note d4 = drop_eq_ConsD [OF d3, THEN conjunct2, THEN conjunct2]
  have m: "Suc i mod 4 = 1" "Suc (Suc i) mod 4 = 2" "Suc (Suc (Suc i)) mod 4 = 3"
    "Suc (Suc (Suc (Suc i))) mod 4 = 0"
    using "4.prems"(1) by (auto simp: mod_Suc)
  let ?out = "out[j := a, Suc j := b, Suc (Suc j) := c]"
  have "decode_loop e p (Some xs) n i v out j =
      decode_loop e p (Some xs) n (Suc (Suc (Suc (Suc i)))) c ?out (Suc (Suc (Suc j)))"
    using "4.prems" m
    by (subst decode_step(1) [OF d], simp, simp, simp add: decode_digit_def,
        subst decode_step(2) [OF d1], simp_all add: decode_digit_def six_byte1,
        subst decode_step(2) [OF d2], simp_all add: decode_digit_def six_byte2,
        subst decode_step(2) [OF d3], simp_all add: decode_digit_def six_byte3)
  also have "\<dots> = Some (int (Suc (Suc (Suc j)) + length r), write_at ?out (Suc (Suc (Suc j))) r)"
    by (rule "4.IH" [OF m(4) d4 "4.prems"(3)]) (use "4.prems"(4) in simp)
  finally show ?case using "4.prems"(4) by (simp add: write_at_update)
qed

lemma decoded_size_group:
  assumes "2 \<le> length xs"
  shows "oc_base64_decoded_output_size (a # b # c # d # xs) p =
    (if oc_base64_decoded_output_size xs p < 0 then -1 else oc_base64_decoded_output_size xs p + 3)"
proof -
  define n where "n = length xs"
  have len: "length (a # b # c # d # xs) = n + 4" by (simp add: n_def)
  have nth: "(a # b # c # d # xs) ! (n + 4 - 2) = xs ! (n - 2)" "(a # b # c # d # xs) ! (n + 4 - 1) = xs ! (n - 1)"
    using assms by (auto simp: n_def nth_Cons' eval_nat_numeral)
  have q: "(n + 4 + k) * 3 div 4 = (n + k) * 3 div 4 + 3" for k
    using div_add_self2 [of 4 "(n + k) * 3 + 8"] by (simp add: algebra_simps)
  show ?thesis
  proof (cases p)
    case True
    define k where "k = length (filter (\<lambda>c. c = 61) [xs ! (n - 2), xs ! (n - 1)])"
    have "k \<le> 2" by (simp add: k_def)
    then have "n mod 4 = 0 \<Longrightarrow> int k \<le> int (n * 3 div 4)" using assms by (auto simp: n_def elim!: dvdE)
    moreover have "oc_base64_decoded_output_size (a # b # c # d # xs) True =
        (if n mod 4 \<noteq> 0 then -1 else int ((n + 4) * 3 div 4) - int k)"
      unfolding oc_base64_decoded_output_size_def len nth Let_def k_def by simp
    moreover have "oc_base64_decoded_output_size xs True = (if n mod 4 \<noteq> 0 then -1 else int (n * 3 div 4) - int k)"
      using assms unfolding oc_base64_decoded_output_size_def Let_def k_def n_def by auto
    ultimately show ?thesis using True q [of 0] by auto
  next
    case False
    define k where "k = (if n mod 4 \<noteq> 0 then 4 - n mod 4 else 0)"
    have "k \<le> (n + k) * 3 div 4" if "n mod 4 \<noteq> 1"
    proof -
      have "k \<le> 2" using that by (auto simp: k_def)
      then have "4 * k \<le> (n + k) * 3" using assms by (simp add: n_def)
      then show ?thesis by (simp add: less_eq_div_iff_mult_less_eq mult.commute)
    qed
    moreover have "oc_base64_decoded_output_size (a # b # c # d # xs) False =
        (if n mod 4 = 1 then -1 else int ((n + 4 + k) * 3 div 4) - int k)"
      unfolding oc_base64_decoded_output_size_def len Let_def k_def by simp
    moreover have "oc_base64_decoded_output_size xs False =
        (if n mod 4 = 1 then -1 else int ((n + k) * 3 div 4) - int k)"
      using assms unfolding oc_base64_decoded_output_size_def Let_def k_def n_def by auto
    ultimately show ?thesis using False q [of k] by auto
  qed
qed

lemma decoded_size_four:
  "oc_base64_decoded_output_size [w, x, y, z] p =
     3 - (if p then int (length (filter (\<lambda>c. c = 61) [y, z])) else 0)"
proof -
  have len: "length [w, x, y, z] = 4" by simp
  show ?thesis unfolding oc_base64_decoded_output_size_def Let_def len by simp
qed

lemma decoded_size_short:
  "oc_base64_decoded_output_size [x, y] False = 1" "oc_base64_decoded_output_size [x, y, z] False = 2"
proof -
  have len: "length [x, y] = 2" "length [x, y, z] = 3" by simp_all
  show "oc_base64_decoded_output_size [x, y] False = 1" "oc_base64_decoded_output_size [x, y, z] False = 2"
    unfolding oc_base64_decoded_output_size_def Let_def len by simp_all
qed

lemma decoded_size_b64: "oc_base64_decoded_output_size (b64 e p bs) p = int (length bs)"
proof (induction bs rule: sextets.induct)
  case 1
  show ?case by (simp add: b64_def b64_chars_def b64_pad_def oc_base64_decoded_output_size_def)
next
  case (2 a)
  show ?case
    using alphabet_decode(2)
    by (cases p) (simp_all add: b64_def b64_chars_def b64_pad_def decoded_size_four decoded_size_short numeral_2_eq_2)
next
  case (3 a b)
  show ?case
    using alphabet_decode(2) [of "six3 b 0" e]
    by (cases p) (simp_all add: b64_def b64_chars_def b64_pad_def decoded_size_four decoded_size_short)
next
  case (4 a b c r)
  have grp: "b64 e p (a # b # c # r) = alphabet e ! unat (six1 a) # alphabet e ! unat (six2 a b) #
      alphabet e ! unat (six3 b c) # alphabet e ! unat (six4 c) # b64 e p r"
  proof -
    have "length (a # b # c # r) = length r + 3" by simp
    then have "length (a # b # c # r) mod 3 = length r mod 3" by (simp only: mod_add_self2)
    then show ?thesis by (simp add: b64_def b64_chars_def b64_pad_def)
  qed
  show ?case
  proof (cases "r = []")
    case True
    then show ?thesis
      unfolding grp using alphabet_decode(2) [of "six3 b c" e] alphabet_decode(2) [of "six4 c" e]
      by (simp add: b64_def b64_chars_def b64_pad_def decoded_size_four)
  next
    case False
    then have "2 \<le> length (b64 e p r)"
      by (cases r rule: sextets.cases) (auto simp: b64_def b64_chars_def)
    with 4 show ?thesis unfolding grp by (simp add: decoded_size_group)
  qed
qed

lemma decode_b64:
  assumes "length bs \<le> length out"
  shows "oc_base64_decode_v1 e p (Some (b64 e p bs)) out = Some (int (length bs), write_at out 0 bs)"
  using assms decode_chars [of 0 "b64 e p bs" e p bs "length (b64 e p bs)" 0 out 0]
  by (simp add: oc_base64_decode_v1_def input_bytes_def Let_def decoded_size_b64)

lemma decode_v1_safe:
  "\<exists>r out'. oc_base64_decode_v1 e p (Some xs) out = Some (r, out') \<and> length out' = length out \<and>
     (r = -1 \<or> 0 \<le> r \<and> r \<le> oc_base64_decoded_output_size xs p \<and> r \<le> int (length out)) \<and>
     drop (nat (oc_base64_decoded_output_size xs p)) out' = drop (nat (oc_base64_decoded_output_size xs p)) out"
proof -
  let ?sz = "oc_base64_decoded_output_size xs p"
  show ?thesis
  proof (cases "?sz < 0 \<or> int (length out) < ?sz")
    case True
    then show ?thesis by (auto simp: oc_base64_decode_v1_def input_bytes_def Let_def)
  next
    case False
    then have S: "?sz = int (nat ?sz)" "nat ?sz \<le> length out" by auto
    have "decoded_count k < nat ?sz" if "k < length xs" "k mod 4 \<noteq> 0"
      "\<And>m. 0 \<le> m \<Longrightarrow> m \<le> k \<Longrightarrow> \<not> stops_at p xs m" for k
      using decoded_size_bound [OF S(1) that(1,2)] that(3) by blast
    from decode_loop_safe [of 0 0 "nat ?sz" out "length xs" p xs e 0] this S(2) show ?thesis
      using False by (fastforce simp: oc_base64_decode_v1_def input_bytes_def Let_def decoded_count_def)
  qed
qed

lemma decode_v1_in_place:
  "length str \<noteq> 1 \<Longrightarrow> oc_base64_decode_v1 e p None str = oc_base64_decode_v1 e p (Some str) str"
  using decode_in_place [of 0 str str "length str" 0 e p 0]
  by (simp add: oc_base64_decode_v1_def input_bytes_def Let_def)

subsection \<open>Properties\<close>



text \<open>
  Decoding is safe on any input: it never reads or writes outside its buffers, the result is an
  error or a length that fits both the announced size and the output buffer, and the bytes behind
  the announced size are untouched.
\<close>

theorem base64_decode_safe:
  "\<exists>r out'. oc_base64_decode_v1 e p (Some xs) out = Some (r, out') \<and> length out' = length out \<and>
     (r = -1 \<or> 0 \<le> r \<and> r \<le> oc_base64_decoded_output_size xs p \<and> r \<le> int (length out)) \<and>
     drop (nat (oc_base64_decoded_output_size xs p)) out' = drop (nat (oc_base64_decoded_output_size xs p)) out"
  by (rule decode_v1_safe)

text \<open>
  In-place decoding of a padded string: it returns the decoded length, and the buffer holds the
  decoded bytes followed by zeros, although the decoder overwrites the characters it reads; on any
  string it stays inside the buffer and keeps its length.
\<close>

theorem base64_decode_in_place:
  "oc_base64_decode (b64 OC_BASE64_ENCODING_STD True bs) =
     Some (int (length bs), bs @ replicate (length (b64 OC_BASE64_ENCODING_STD True bs) - length bs) 0) \<and>
   (\<exists>r out'. oc_base64_decode xs = Some (r, out') \<and> length out' = length xs)"
proof
  let ?b = "b64 OC_BASE64_ENCODING_STD True bs"
  have len: "length bs \<le> length ?b" "length ?b \<noteq> 1"
  proof -
    have "n \<le> n div 3 * 4 + (if n mod 3 \<noteq> 0 then 4 else 0)" for n :: nat
      using div_mult_mod_eq [of n 3] by auto
    then show "length bs \<le> length ?b" by (simp add: length_b64 oc_base64_encoded_output_size_def)
    show "length ?b \<noteq> 1" by (auto simp: length_b64 oc_base64_encoded_output_size_def)
  qed
  with decode_v1_in_place [OF len(2)] decode_b64 [OF len(1)]
  show "oc_base64_decode ?b = Some (int (length bs), bs @ replicate (length ?b - length bs) 0)"
    by (simp add: oc_base64_decode_def write_at_def)
  show "\<exists>r out'. oc_base64_decode xs = Some (r, out') \<and> length out' = length xs"
  proof (cases "length xs = 1")
    case True
    then have "oc_base64_decoded_output_size xs True = -1"
      by (simp add: oc_base64_decoded_output_size_def Let_def)
    then show ?thesis
      by (simp add: oc_base64_decode_def oc_base64_decode_v1_def input_bytes_def)
  next
    case False
    from decode_v1_safe [of OC_BASE64_ENCODING_STD True xs xs] decode_v1_in_place [OF False] show ?thesis
      by (auto simp: oc_base64_decode_def length_write_at)
  qed
qed

end
