(* ===== verification/Uuid.thy ===== *)
theory Uuid
  imports OcPrelude
begin

text \<open>
  UUIDs and their strings (\<open>api/oc_uuid.c\<close>). A UUID is the list of its 16 bytes, a string the list of
  its characters as bytes, and a buffer a list whose length is its size. \<open>snprintf\<close> writes what fits
  and a terminating zero, and returns the length of the whole text. The source of random values is an
  argument; a random word is copied in the byte order of a little-endian machine.
\<close>

definition OC_UUID_ID_SIZE :: nat where "OC_UUID_ID_SIZE = 16"
definition OC_UUID_LEN :: nat where "OC_UUID_LEN = 37"

lemmas uuid_sizes = OC_UUID_ID_SIZE_def OC_UUID_LEN_def

definition is_alpha :: "u8 \<Rightarrow> bool" where
  "is_alpha ch \<longleftrightarrow> 65 \<le> ch \<and> ch \<le> 90 \<or> 97 \<le> ch \<and> ch \<le> 122"

text \<open>The value a character adds to \<open>c\<close>: letters other than \<open>a-f\<close> add nothing.\<close>

definition uuid_nibble :: "u8 \<Rightarrow> u8" where
  "uuid_nibble ch =
     (if is_alpha ch then
        if ch = 65 \<or> ch = 97 then 0x0a
        else if ch = 66 \<or> ch = 98 then 0x0b
        else if ch = 67 \<or> ch = 99 then 0x0c
        else if ch = 68 \<or> ch = 100 then 0x0d
        else if ch = 69 \<or> ch = 101 then 0x0e
        else if ch = 70 \<or> ch = 102 then 0x0f
        else 0
      else ch - 48)"

text \<open>The loop of \<open>str_to_uuid\<close>: the result is \<open>j\<close> and the bytes, or \<^const>\<open>None\<close> for \<open>return -1\<close>.\<close>

function uuid_loop :: "bytes \<Rightarrow> nat \<Rightarrow> bytes \<Rightarrow> nat \<Rightarrow> nat \<Rightarrow> u8 \<Rightarrow> (nat \<times> bytes) option" where
  "uuid_loop str i uid j k c =
     (if i < OC_UUID_LEN - 1 \<and> i < length str then
        if str ! i = 45 then uuid_loop str (Suc i) uid j k c
        else (let c' = c OR uuid_nibble (str ! i)
              in if (j + 1) * 2 = k then
                   if j = OC_UUID_ID_SIZE then None
                   else uuid_loop str (Suc i) (uid[j := c']) (Suc j) (Suc k) 0
                 else uuid_loop str (Suc i) uid j (Suc k) (push_bit 4 c'))
      else Some (j, uid))"
  by pat_completeness auto
termination
  by (relation "measure (\<lambda>(str, i, uid, j, k, c). length str - i)") auto

declare uuid_loop.simps [simp del]

text \<open>\<open>uuid\<close> is the object behind the output pointer, if that is not \<open>NULL\<close>.\<close>

definition str_to_uuid :: "bytes \<Rightarrow> bytes option \<Rightarrow> int \<times> bytes option" where
  "str_to_uuid str uuid =
     (if str = [42] then (1, map_option (\<lambda>_. (replicate OC_UUID_ID_SIZE 0)[0 := 42]) uuid)
      else case uuid_loop str 0 (replicate OC_UUID_ID_SIZE 0) 0 1 0 of
             None \<Rightarrow> (-1, uuid)
           | Some (j, uid) \<Rightarrow> (int j, map_option (\<lambda>_. uid) uuid))"

definition oc_str_to_uuid_v1 :: "bytes \<Rightarrow> bytes option \<Rightarrow> int \<times> bytes option" where
  "oc_str_to_uuid_v1 str uuid =
     (case str_to_uuid str uuid of (ret, u) \<Rightarrow>
        if str = [42] then (ret, u)
        else if ret \<noteq> int OC_UUID_ID_SIZE then (-1, u)
        else (int OC_UUID_ID_SIZE, u))"

text \<open>\<open>oc_strnlen (str, OC_UUID_LEN)\<close> bounds the string, here the bytes up to the terminating zero.\<close>

definition oc_str_to_uuid :: "bytes option \<Rightarrow> bytes option \<Rightarrow> bytes option" where
  "oc_str_to_uuid str uuid = (case str of
     None \<Rightarrow> uuid
   | Some s \<Rightarrow> snd (oc_str_to_uuid_v1 (take OC_UUID_LEN (takeWhile (\<lambda>ch. ch \<noteq> 0) s)) uuid))"

text \<open>\<open>snprintf(&buffer[j], buflen, ...)\<close> of a text without zeros.\<close>

definition snprintf_at :: "bytes \<Rightarrow> nat \<Rightarrow> nat \<Rightarrow> bytes \<Rightarrow> bytes" where
  "snprintf_at buf j n txt = (if n = 0 then buf else write_at buf j (take (n - 1) txt @ [0]))"

definition hex_digit :: "u8 \<Rightarrow> u8" where
  "hex_digit v = (if v < 10 then v + 48 else v + 87)"

definition hex2 :: "u8 \<Rightarrow> bytes" where
  "hex2 b = [hex_digit (drop_bit 4 b), hex_digit (b AND 0x0f)]"

text \<open>One \<open>snprintf\<close> with its check: \<^const>\<open>None\<close> when the text did not fit.\<close>

definition uuid_put :: "bytes \<times> nat \<times> nat \<Rightarrow> bytes \<Rightarrow> (bytes \<times> nat \<times> nat) option" where
  "uuid_put st txt = (case st of (buf, j, buflen) \<Rightarrow>
     if length txt \<ge> buflen then None
     else Some (snprintf_at buf j buflen txt, j + length txt, buflen - length txt))"

function uuid_print :: "bytes \<Rightarrow> nat \<Rightarrow> bytes \<times> nat \<times> nat \<Rightarrow> (bytes \<times> nat \<times> nat) option" where
  "uuid_print uuid i st =
     (if i < OC_UUID_ID_SIZE then
        (case (if i \<in> {4, 6, 8, 10} then uuid_put st [45] else Some st) of
           None \<Rightarrow> None
         | Some st1 \<Rightarrow>
             (case uuid_put st1 (hex2 (uuid ! i)) of
                None \<Rightarrow> None
              | Some st2 \<Rightarrow> uuid_print uuid (Suc i) st2))
      else Some st)"
  by pat_completeness auto
termination
  by (relation "measure (\<lambda>(uuid, i, st). OC_UUID_ID_SIZE - i)") auto

declare uuid_print.simps [simp del]

text \<open>
  The result is the return value and, on success, the buffer; what a failed call leaves in the
  buffer is not specified.
\<close>

definition oc_uuid_to_str_v1 :: "bytes \<Rightarrow> bytes \<Rightarrow> int \<times> bytes option" where
  "oc_uuid_to_str_v1 uuid buffer =
     (if uuid ! 0 = 42 \<and> tl uuid = replicate (OC_UUID_ID_SIZE - 1) 0 then
        if length buffer < 2 then (-1, None)
        else (1, Some ((replicate (length buffer) 0)[0 := 42, 1 := 0]))
      else case uuid_print uuid 0 (buffer, 0, length buffer) of
             None \<Rightarrow> (-1, None)
           | Some (buf, j, _) \<Rightarrow> (int j, Some buf))"

definition oc_uuid_to_str :: "bytes option \<Rightarrow> bytes \<Rightarrow> bytes option" where
  "oc_uuid_to_str uuid buffer = (case uuid of
     None \<Rightarrow> Some buffer
   | Some u \<Rightarrow> if length buffer < OC_UUID_LEN then Some buffer else snd (oc_uuid_to_str_v1 u buffer))"

definition le_bytes32 :: "u32 \<Rightarrow> bytes" where
  "le_bytes32 r = [ucast r, ucast (drop_bit 8 r), ucast (drop_bit 16 r), ucast (drop_bit 24 r)]"

definition oc_gen_uuid :: "(nat \<Rightarrow> u32) \<Rightarrow> bytes" where
  "oc_gen_uuid oc_random_value =
     (let id = concat (map (\<lambda>i. le_bytes32 (oc_random_value i)) [0..<4]);
          id1 = id[8 := id ! 8 AND 0x3f OR 0x40]
      in id1[6 := id1 ! 6 AND 0x0f OR 0x40])"

definition oc_uuid_is_equal :: "bytes \<Rightarrow> bytes \<Rightarrow> bool" where
  "oc_uuid_is_equal first second \<longleftrightarrow> take OC_UUID_ID_SIZE first = take OC_UUID_ID_SIZE second"

definition oc_uuid_is_empty :: "bytes \<Rightarrow> bool" where
  "oc_uuid_is_empty uuid \<longleftrightarrow> uuid = replicate OC_UUID_ID_SIZE 0"

subsection \<open>The text of a UUID\<close>

definition uuid_token :: "bytes \<Rightarrow> nat \<Rightarrow> bytes" where
  "uuid_token u i = (if i \<in> {4, 6, 8, 10} then [45] else []) @ hex2 (u ! i)"

definition uuid_text_from :: "bytes \<Rightarrow> nat \<Rightarrow> bytes" where
  "uuid_text_from u i = concat (map (uuid_token u) [i..<16])"

lemma uuid_text_from_step: "i < 16 \<Longrightarrow> uuid_text_from u i = uuid_token u i @ uuid_text_from u (Suc i)"
  by (simp add: uuid_text_from_def upt_conv_Cons)

lemma uuid_text_from_end: "uuid_text_from u 16 = []"
  by (simp add: uuid_text_from_def)

lemma uuid_text_length: "length (uuid_text_from u 0) = 36"
  by (simp add: uuid_text_from_def uuid_token_def hex2_def upt_rec)

lemma hex2_nibbles: "uuid_nibble (hex_digit (drop_bit 4 b)) = drop_bit 4 b"
  "uuid_nibble (hex_digit (b AND 0x0f)) = b AND 0x0f" "hex_digit (drop_bit 4 b) \<noteq> 45" "hex_digit (b AND 0x0f) \<noteq> 45"
  "hex_digit (drop_bit 4 b) \<noteq> 0" "hex_digit (b AND 0x0f) \<noteq> 0"
proof -
  have digit: "uuid_nibble (hex_digit v) = v \<and> hex_digit v \<noteq> 45 \<and> hex_digit v \<noteq> 0" if "v < 16" for v :: u8
  proof -
    have "list_all (\<lambda>n. uuid_nibble (hex_digit (of_nat n)) = of_nat n \<and> hex_digit (of_nat n) \<noteq> 45 \<and> hex_digit (of_nat n) \<noteq> 0) [0..<16]"
      by (simp add: upt_rec hex_digit_def uuid_nibble_def is_alpha_def)
    then have "\<forall>n \<in> {0..<16}. uuid_nibble (hex_digit (of_nat n)) = of_nat n \<and> hex_digit (of_nat n) \<noteq> (45 :: u8) \<and> hex_digit (of_nat n) \<noteq> (0 :: u8)"
      by (simp add: list_all_iff)
    from bspec [OF this, of "unat v"] that show ?thesis by (simp add: word_less_nat_alt)
  qed
  have "drop_bit 4 b < 16" "b AND 0x0f < 16"
  proof -
    have "unat (drop_bit 4 b) < 16"
      using unsigned_less [of b, where ?'a = nat] unat_drop_bit_eq [of 4 b] by (simp add: drop_bit_nat_def)
    then show "drop_bit 4 b < 16" by (simp add: word_less_nat_alt)
    have "b AND 0x0f \<le> 0x0f" by (rule word_and_le1)
    then show "b AND 0x0f < 16" by (rule order.strict_trans1) simp
  qed
  then show "uuid_nibble (hex_digit (drop_bit 4 b)) = drop_bit 4 b"
    "uuid_nibble (hex_digit (b AND 0x0f)) = b AND 0x0f" "hex_digit (drop_bit 4 b) \<noteq> 45" "hex_digit (b AND 0x0f) \<noteq> 45"
  "hex_digit (drop_bit 4 b) \<noteq> 0" "hex_digit (b AND 0x0f) \<noteq> 0"
    using digit by blast+
qed

lemma nibbles_join: "push_bit 4 (drop_bit 4 b) OR (b AND 0x0f) = (b :: u8)"
  by (rule byte_eqI) (simp_all add: bit_simps)

lemma drop_append_step: "drop i xs = ys @ zs \<Longrightarrow> drop (i + length ys) xs = zs"
  by (metis add.commute append_eq_conv_conj drop_drop)

text \<open>Reading one byte: an optional dash and two digits.\<close>

lemma uuid_loop_token:
  assumes "drop i str = uuid_token u n @ rest" and "i + length (uuid_token u n) \<le> 36" and "j < 16"
  shows "uuid_loop str i uid j (2 * j + 1) 0 =
    uuid_loop str (i + length (uuid_token u n)) (uid[j := u ! n]) (Suc j) (2 * Suc j + 1) 0"
proof -
  let ?b = "u ! n" and ?pre = "if n \<in> {4, 6, 8, 10} then [45 :: u8] else []"
  let ?i = "i + length ?pre"
  from assms(1) have d: "drop ?i str = hex_digit (drop_bit 4 ?b) # hex_digit (?b AND 0x0f) # rest"
    using drop_append_step [of i str ?pre "hex2 ?b @ rest"] by (simp add: uuid_token_def hex2_def)
  note h = drop_eq_ConsD [OF d] and h' = drop_eq_ConsD [OF drop_eq_ConsD [OF d, THEN conjunct2, THEN conjunct2]]
  have le: "?i + 2 \<le> 36" using assms(2) by (simp add: uuid_token_def hex2_def)
  have skip: "uuid_loop str i uid j (2 * j + 1) 0 = uuid_loop str ?i uid j (2 * j + 1) 0"
  proof (cases "n \<in> {4, 6, 8, 10}")
    case True
    with assms(1) drop_eq_ConsD [of i str 45 "hex2 ?b @ rest"] le show ?thesis
      by (subst uuid_loop.simps) (simp add: uuid_token_def uuid_sizes)
  qed simp
  have "uuid_loop str ?i uid j (2 * j + 1) 0 =
      uuid_loop str (Suc ?i) uid j (Suc (2 * j + 1)) (push_bit 4 (drop_bit 4 ?b))"
    using h le hex2_nibbles by (subst uuid_loop.simps) (simp add: uuid_sizes Let_def)
  also have "\<dots> = uuid_loop str (Suc (Suc ?i)) (uid[j := ?b]) (Suc j) (2 * Suc j + 1) 0"
    using h' le hex2_nibbles assms(3)
    by (subst uuid_loop.simps) (simp add: uuid_sizes Let_def nibbles_join)
  also have "Suc (Suc ?i) = i + length (uuid_token u n)" by (simp add: uuid_token_def hex2_def)
  finally show ?thesis using skip by simp
qed

lemma uuid_loop_text:
  assumes "drop i str = uuid_text_from u j" and "length str = 36" and "j \<le> 16" and "i \<le> 36"
    and "length u = 16" and "length uid = 16" and "take j uid = take j u"
  shows "uuid_loop str i uid j (2 * j + 1) 0 = Some (16, u)"
  using assms
proof (induction "16 - j" arbitrary: i uid j)
  case 0
  then have "j = 16" by simp
  moreover have "i = 36" using 0 \<open>j = 16\<close> by (simp add: uuid_text_from_end)
  ultimately show ?case using 0 by (subst uuid_loop.simps) simp
next
  case (Suc n)
  then have j: "j < 16" by simp
  let ?t = "uuid_token u j"
  have d: "drop i str = ?t @ uuid_text_from u (Suc j)"
    using Suc.prems(1) uuid_text_from_step [OF j] by simp
  then have "length (drop i str) = length ?t + length (uuid_text_from u (Suc j))" by simp
  then have le: "i + length ?t \<le> 36" using Suc.prems(2,4) by simp
  have "take (Suc j) (uid[j := u ! j]) = take (Suc j) u"
    using Suc.prems j by (simp add: take_Suc_conv_app_nth)
  then show ?case
    unfolding uuid_loop_token [OF d le j]
    using Suc.hyps Suc.prems j le drop_append_step [OF d] by (intro Suc.hyps(1)) auto
qed

lemma write_text_append:
  assumes "j + length xs + length ys + 1 \<le> length buf"
  shows "write_at (write_at buf j (xs @ [0])) (j + length xs) (ys @ [z]) = write_at buf j (xs @ ys @ [z])"
  using assms by (simp add: write_at_def drop_Cons' ac_simps)

lemma uuid_put_ok:
  assumes "length txt < length buf - j"
  shows "uuid_put (buf, j, length buf - j) txt =
    Some (write_at buf j (txt @ [0]), j + length txt, length buf - (j + length txt))"
  using assms by (auto simp: uuid_put_def snprintf_at_def)

lemma uuid_print_end: "uuid_print u 16 st = Some st"
  by (subst uuid_print.simps) (simp add: uuid_sizes)

lemma uuid_print_ok:
  assumes "i \<le> 16" and "n = length buf - j" and "j \<le> length buf"
  shows "if length (uuid_text_from u i) < n \<or> i = 16
    then \<exists>buf'. uuid_print u i (buf, j, n) =
      Some (buf', j + length (uuid_text_from u i), n - length (uuid_text_from u i)) \<and>
      (i < 16 \<longrightarrow> buf' = write_at buf j (uuid_text_from u i @ [0]))
    else uuid_print u i (buf, j, n) = None"
  using assms
proof (induction "16 - i" arbitrary: i buf j n)
  case 0
  then have "i = 16" by simp
  then show ?case by (subst uuid_print.simps) (simp add: uuid_sizes uuid_text_from_end)
next
  case (Suc k)
  then have i: "i < 16" "k = 16 - Suc i" by auto
  let ?t = "uuid_token u i" and ?r = "uuid_text_from u (Suc i)"
  let ?pre = "if i \<in> {4, 6, 8, 10} then [45 :: u8] else []"
  note split_text = uuid_text_from_step [OF i(1), of u]
  have rnil: "?r = [] \<longleftrightarrow> Suc i = 16"
    using i(1) by (auto simp: uuid_text_from_def uuid_token_def hex2_def)
  have step: "uuid_print u i (buf, j, n) = (if length ?t < n
      then uuid_print u (Suc i) (write_at buf j (?t @ [0]), j + length ?t, n - length ?t) else None)"
  proof (cases "length ?t < n")
    case True
    then have "(if i \<in> {4, 6, 8, 10} then uuid_put (buf, j, n) [45] else Some (buf, j, n)) =
        Some (if ?pre = [] then buf else write_at buf j (?pre @ [0]), j + length ?pre, length buf - (j + length ?pre))"
      using Suc.prems uuid_put_ok [of "[45]" buf j] by (auto simp: uuid_token_def hex2_def)
    moreover have "uuid_put (buf1, j + length ?pre, length buf - (j + length ?pre)) (hex2 (u ! i)) =
        Some (write_at buf1 (j + length ?pre) (hex2 (u ! i) @ [0]), j + length ?t, n - length ?t)"
      if "length buf1 = length buf" for buf1
      using True that Suc.prems uuid_put_ok [of "hex2 (u ! i)" buf1 "j + length ?pre"]
      by (auto simp: uuid_token_def hex2_def)
    moreover have "write_at (if ?pre = [] then buf else write_at buf j (?pre @ [0])) (j + length ?pre)
        (hex2 (u ! i) @ [0]) = write_at buf j (?t @ [0])"
      using True Suc.prems write_text_append [of j ?pre "hex2 (u ! i)" buf 0]
      by (auto simp: uuid_token_def hex2_def)
    moreover have "length (write_at buf j (?pre @ [0])) = length buf"
      using True Suc.prems by (intro length_write_at) (auto simp: uuid_token_def)
    ultimately show ?thesis
      using True i(1) by (subst uuid_print.simps) (simp add: uuid_sizes)
  next
    case False
    then show ?thesis
      using i(1) Suc.prems uuid_put_ok [of "[45]" buf j]
      by (subst uuid_print.simps) (auto simp: uuid_sizes uuid_put_def uuid_token_def hex2_def)
  qed
  show ?case
  proof (cases "length ?t < n")
    case False
    then show ?thesis using i(1) by (simp add: step split_text)
  next
    case True
    let ?buf = "write_at buf j (?t @ [0])"
    have len: "length ?buf = length buf" using True Suc.prems by (intro length_write_at) simp
    have app: "write_at ?buf (j + length ?t) (?r @ [0]) = write_at buf j (?t @ ?r @ [0])" if "length ?t + length ?r < n"
      using that Suc.prems by (intro write_text_append) simp
    have "n - length ?t = length ?buf - (j + length ?t)" "j + length ?t \<le> length ?buf"
      using True Suc.prems len by simp_all
    note IH = Suc.hyps(1) [OF i(2) _ this]
    have pr: "uuid_print u i (buf, j, n) = uuid_print u (Suc i) (?buf, j + length ?t, n - length ?t)"
      using True step by simp
    have fit: "length ?r < n - length ?t \<longleftrightarrow> length ?t + length ?r < n" using True by auto
    show ?thesis
    proof (cases "Suc i = 16")
      case last: True
      have "uuid_text_from u i = ?t" using split_text last by (simp add: uuid_text_from_end)
      with True i(1) pr last uuid_print_end show ?thesis by simp
    next
      case False
      with i(1) have "Suc i < 16" by simp
      with IH i(1) split_text pr fit app show ?thesis
        by (cases "length ?t + length ?r < n") simp_all
    qed
  qed
qed

subsection \<open>Properties\<close>

lemma uuid_text_start: "\<exists>c1 c2 r. uuid_text_from u 0 = c1 # c2 # r"
  using uuid_text_from_step [of 0 u] by (auto simp: uuid_token_def hex2_def)

lemma uuid_print_parse:
  assumes "length u = OC_UUID_ID_SIZE"
  shows "if OC_UUID_LEN \<le> length buf
    then \<exists>n buf'. oc_uuid_to_str_v1 u buf = (int n, Some buf') \<and> n < length buf \<and> buf' ! n = 0 \<and>
      oc_str_to_uuid_v1 (take n buf') (Some v) = (if n = 1 then 1 else int OC_UUID_ID_SIZE, Some u)
    else u \<noteq> 42 # replicate 15 0 \<longrightarrow> oc_uuid_to_str_v1 u buf = (-1, None)"
proof -
  from assms obtain a r where u: "u = a # r" "length r = 15" by (cases u) (auto simp: uuid_sizes)
  let ?t = "uuid_text_from u 0"
  have wild: "u ! 0 = 42 \<and> tl u = replicate (OC_UUID_ID_SIZE - 1) 0 \<longleftrightarrow> u = 42 # replicate 15 0"
    by (auto simp: u uuid_sizes)
  show ?thesis
  proof (cases "u = 42 # replicate 15 0")
    case True
    have "take (Suc 0) ((replicate (length buf) 0)[0 := 42, Suc 0 := 0]) = [42 :: u8]" if "2 \<le> length buf"
      using that by (cases buf) (auto simp: take_Suc_conv_app_nth)
    moreover have "(replicate 16 0)[0 := 42] = 42 # replicate 15 (0 :: u8)" by (simp add: eval_nat_numeral)
    ultimately show ?thesis
      using True wild
      by (auto simp: oc_uuid_to_str_v1_def oc_str_to_uuid_v1_def str_to_uuid_def uuid_sizes
          nth_list_update intro!: exI [of _ 1])
  next
    case False
    have print: "if 36 < length buf
      then \<exists>m. uuid_print u 0 (buf, 0, length buf) = Some (write_at buf 0 (?t @ [0]), 36, m)
      else uuid_print u 0 (buf, 0, length buf) = None"
      using uuid_print_ok [of 0 "length buf" buf 0 u] uuid_text_length [of u] by auto
    have "uuid_loop ?t 0 (replicate 16 0) 0 1 0 = Some (16, u)"
      using uuid_loop_text [of 0 ?t u 0 "replicate 16 0"] assms uuid_text_length [of u]
      by (simp add: uuid_sizes)
    moreover have "?t \<noteq> [42]" using uuid_text_start [of u] by auto
    ultimately have parse: "oc_str_to_uuid_v1 ?t (Some v) = (16, Some u)"
      by (simp add: oc_str_to_uuid_v1_def str_to_uuid_def uuid_sizes)
    show ?thesis
    proof (cases "36 < length buf")
      case True
      with print obtain m where "uuid_print u 0 (buf, 0, length buf) = Some (write_at buf 0 (?t @ [0]), 36, m)"
        by auto
      with False wild True parse uuid_text_length [of u] show ?thesis
        by (intro if_P [THEN iffD2] exI [of _ 36] exI [of _ "write_at buf 0 (?t @ [0])"])
          (auto simp: oc_uuid_to_str_v1_def uuid_sizes write_at_def nth_append)
    next
      case small: False
      with print False wild show ?thesis by (simp add: oc_uuid_to_str_v1_def uuid_sizes)
    qed
  qed
qed

text \<open>
  C36. The string form of a UUID round trips: with a buffer of at least 37 bytes every UUID is
  printed, and parsing the printed characters returns the same UUID (the wildcard \<open>*\<close> in its
  one-character form, with length 1). With a smaller buffer printing a non-wildcard UUID fails.
\<close>

theorem uuid_string_round_trip:
  assumes "length u = OC_UUID_ID_SIZE"
  shows "if OC_UUID_LEN \<le> length buf
    then \<exists>n buf'. oc_uuid_to_str_v1 u buf = (int n, Some buf') \<and> n < length buf \<and> buf' ! n = 0 \<and>
      oc_str_to_uuid_v1 (take n buf') (Some v) = (if n = 1 then 1 else int OC_UUID_ID_SIZE, Some u)
    else u \<noteq> 42 # replicate 15 0 \<longrightarrow> oc_uuid_to_str_v1 u buf = (-1, None)"
  using assms by (rule uuid_print_parse)

theorem uuid_string_round_trip_witness:
  "\<exists>n buf'. oc_uuid_to_str_v1 (replicate 16 171) (replicate 37 9) = (int n, Some buf') \<and>
     oc_str_to_uuid_v1 (take n buf') (Some []) = (if n = 1 then 1 else 16, Some (replicate 16 171))"
proof -
  from uuid_string_round_trip [of "replicate 16 171" "replicate 37 9" "[]"] obtain n buf' where
    "oc_uuid_to_str_v1 (replicate 16 171) (replicate 37 9) = (int n, Some buf')"
    "oc_str_to_uuid_v1 (take n buf') (Some []) = (if n = 1 then 1 else int OC_UUID_ID_SIZE, Some (replicate 16 171))"
    by (auto simp: OC_UUID_LEN_def uuid_sizes(1))
  then show ?thesis by (intro exI [of _ n] exI [of _ buf']) (simp add: uuid_sizes)
qed

text \<open>
  A generated UUID has 16 bytes; the four version bits are 0100 (type 4), the two variant bits
  that the code sets are 01, and all 122 other bits are the bits of the random source.
\<close>

theorem oc_gen_uuid_bits:
  assumes "raw = concat (map (\<lambda>i. le_bytes32 (rnd i)) [0..<4])"
  shows "length (oc_gen_uuid rnd) = OC_UUID_ID_SIZE \<and>
    oc_gen_uuid rnd ! 6 AND 0xf0 = 0x40 \<and> oc_gen_uuid rnd ! 6 AND 0x0f = raw ! 6 AND 0x0f \<and>
    oc_gen_uuid rnd ! 8 AND 0xc0 = 0x40 \<and> oc_gen_uuid rnd ! 8 AND 0x3f = raw ! 8 AND 0x3f \<and>
    (\<forall>i. i \<noteq> 6 \<and> i \<noteq> 8 \<longrightarrow> oc_gen_uuid rnd ! i = raw ! i)"
proof -
  have len: "length raw = 16" by (simp add: assms le_bytes32_def upt_rec)
  have gen: "oc_gen_uuid rnd = raw[8 := raw ! 8 AND 0x3f OR 0x40, 6 := raw ! 6 AND 0x0f OR 0x40]"
    unfolding oc_gen_uuid_def assms [symmetric] by (simp add: Let_def)
  have "(x AND 0x0f OR 0x40) AND 0xf0 = 0x40" "(x AND 0x0f OR 0x40) AND 0x0f = x AND 0x0f"
    "(x AND 0x3f OR 0x40) AND 0xc0 = 0x40" "(x AND 0x3f OR 0x40) AND 0x3f = x AND 0x3f" for x :: u8
    by (rule byte_eqI; simp add: bit_simps)+
  with len show ?thesis by (simp add: gen uuid_sizes)
qed

theorem oc_gen_uuid_bits_witness:
  "oc_gen_uuid (\<lambda>_. 0xffffffff) ! 6 AND 0xf0 = 0x40 \<and> oc_gen_uuid (\<lambda>_. 0xffffffff) ! 8 AND 0xc0 = 0x40"
  using oc_gen_uuid_bits [OF refl, of "\<lambda>_. 0xffffffff"] by simp

end
