(* ===== verification/CMemory.thy ===== *)
theory CMemory
  imports OcPrelude "HOL-Library.Monad_Syntax"
begin

text \<open>
  The memory that the CoAP code reads and writes through pointers. A memory is a map from block
  numbers to the bytes of the block; a pointer is a block and an offset, and \<open>NULL\<close> is
  \<^const>\<open>None\<close>. An access outside a block has no defined behaviour in C and is the value
  \<^const>\<open>None\<close> of the model, so that a theorem that some operation returns \<^const>\<open>Some\<close> also says
  that it stays inside its buffers. Buffers that overlap are pointers into the same block.

  \<^item> \<open>loads\<close> and \<open>stores\<close> are \<open>memcpy\<close> from and into the memory.
  \<^item> \<open>emit\<close> writes through a pointer that may be \<open>NULL\<close>; the serializers of the CoAP code only
    count their output in that case. It is a monoid action (\<open>emit_append\<close>), which is how the
    serializers of several fields compose.
  \<^item> The frame lemmas say what a write keeps.
\<close>

type_synonym mem = "nat \<Rightarrow> bytes option"
type_synonym addr = "nat \<times> nat"
type_synonym ptr = "addr option"

named_theorems mem_simps

definition offset :: "ptr \<Rightarrow> nat \<Rightarrow> ptr" where
  "offset p n = map_option (\<lambda>(b, i). (b, i + n)) p"

definition loads :: "mem \<Rightarrow> ptr \<Rightarrow> nat \<Rightarrow> bytes option" where
  "loads m p n = (if n = 0 then Some [] else
     (case p of None \<Rightarrow> None
      | Some (b, i) \<Rightarrow>
          (case m b of None \<Rightarrow> None
           | Some bs \<Rightarrow> if i + n \<le> length bs then Some (bslice bs i n) else None)))"

definition load :: "mem \<Rightarrow> ptr \<Rightarrow> u8 option" where
  "load m p = map_option hd (loads m p 1)"

definition stores :: "mem \<Rightarrow> ptr \<Rightarrow> bytes \<Rightarrow> mem option" where
  "stores m p vs = (if vs = [] then Some m else
     (case p of None \<Rightarrow> None
      | Some (b, i) \<Rightarrow>
          (case m b of None \<Rightarrow> None
           | Some bs \<Rightarrow> if i + length vs \<le> length bs then Some (m(b \<mapsto> write_at bs i vs)) else None)))"

definition emit :: "ptr \<Rightarrow> bytes \<Rightarrow> mem \<Rightarrow> mem option" where
  "emit p vs m = (if p = None then Some m else stores m p vs)"

definition put_byte :: "ptr \<Rightarrow> nat \<Rightarrow> u8 \<Rightarrow> mem \<Rightarrow> mem option" where
  "put_byte p i v = emit (offset p i) [v]"

subsection \<open>Pointers and single bytes\<close>

lemma offset_None [simp]: "offset None n = None"
  by (simp add: offset_def)

lemma offset_Some [simp]: "offset (Some (b, i)) n = Some (b, i + n)"
  by (simp add: offset_def)

lemma offset_0 [simp]: "offset p 0 = p"
  by (cases p) (auto simp: offset_def)

lemma offset_offset [simp]: "offset (offset p i) j = offset p (i + j)"
  by (cases p) (auto simp: offset_def)

lemma offset_eq_None [simp]: "offset p n = None \<longleftrightarrow> p = None"
  by (simp add: offset_def)

lemma loads_0 [simp]: "loads m p 0 = Some []"
  by (simp add: loads_def)

lemma stores_Nil [simp]: "stores m p [] = Some m"
  by (simp add: stores_def)

lemma emit_Nil [simp]: "emit p [] m = Some m"
  by (simp add: emit_def)

lemma emit_None [simp]: "emit None vs m = Some m"
  by (simp add: emit_def)

lemma emit_Some: "emit (Some a) vs m = stores m (Some a) vs"
  by (simp add: emit_def)

lemma load_block:
  "m b = Some bs \<Longrightarrow> load m (Some (b, i)) = (if i < length bs then Some (bs ! i) else None)"
  by (auto simp: load_def loads_def bslice_def hd_drop_conv_nth hd_take)

lemma loads_block:
  "m b = Some bs \<Longrightarrow> i + n \<le> length bs \<Longrightarrow> loads m (Some (b, i)) n = Some (bslice bs i n)"
  by (simp add: loads_def)

lemma length_loads: "loads m p n = Some vs \<Longrightarrow> length vs = n"
  by (auto simp: loads_def bslice_def split: if_splits option.splits)

lemma bslice_bslice: "k + l \<le> n \<Longrightarrow> bslice (bslice xs i n) k l = bslice xs (i + k) l"
  by (simp add: bslice_def drop_take add.commute min_def)

lemma loads_SomeE:
  assumes "loads m p n = Some bs" and "n > 0"
  obtains b i xs where "p = Some (b, i)" "m b = Some xs" "i + n \<le> length xs" "bs = bslice xs i n"
  using assms by (auto simp: loads_def split: option.splits prod.splits if_splits)

lemma loads_part:
  assumes "loads m p n = Some bs" and "k + l \<le> n"
  shows "loads m (offset p k) l = Some (bslice bs k l)"
proof (cases "l = 0")
  case False
  with assms obtain b i xs where *: "p = Some (b, i)" "m b = Some xs" "i + n \<le> length xs" "bs = bslice xs i n"
    by (elim loads_SomeE) auto
  with assms(2) have "loads m (offset p k) l = Some (bslice xs (i + k) l)"
    by (simp add: loads_block)
  with * assms(2) show ?thesis
    by (simp add: bslice_bslice)
qed simp

lemma load_nth:
  assumes "loads m p n = Some bs" and "k < n"
  shows "load m (offset p k) = Some (bs ! k)"
  using loads_part [OF assms(1), of k 1] assms length_loads [OF assms(1)]
  by (simp add: load_def bslice_def hd_drop_conv_nth hd_take)

subsection \<open>Composition of writes\<close>

lemma write_at_write_at:
  "i + length xs + length ys \<le> length bs \<Longrightarrow>
   write_at (write_at bs i xs) (i + length xs) ys = write_at bs i (xs @ ys)"
  by (simp add: write_at_def add.assoc add.commute [of "length ys"])

lemma stores_append:
  "stores m p (xs @ ys) = Option.bind (stores m p xs) (\<lambda>m. stores m (offset p (length xs)) ys)"
  by (auto simp: stores_def write_at_write_at add.assoc length_write_at
      split: option.splits prod.splits)

lemma emit_append:
  "emit p (xs @ ys) m = Option.bind (emit p xs m) (emit (offset p (length xs)) ys)"
  by (cases "stores m p xs") (auto simp: emit_def stores_append)

lemma emit_prefix: "emit p (xs @ ys) m = Some m' \<Longrightarrow> \<exists>m1. emit p xs m = Some m1"
  by (auto simp: emit_append bind_eq_Some_conv)

lemma emit_seq:
  "n = length xs \<Longrightarrow> Option.bind (emit p xs m) (emit (offset p n) ys) = emit p (xs @ ys) m"
  by (simp add: emit_append)

lemma emit_bind:
  "n = length xs \<Longrightarrow>
   Option.bind (emit p xs m) (\<lambda>m. Option.bind (emit (offset p n) ys m) f) =
   Option.bind (emit p (xs @ ys) m) f"
  by (simp add: emit_append)

subsection \<open>Frame\<close>

text \<open>The block of a pointer.\<close>

definition block :: "ptr \<Rightarrow> nat option" where
  "block p = map_option fst p"

lemma block_simps [simp]: "block None = None" "block (Some (b, i)) = Some b" "block (offset p n) = block p"
  by (auto simp: block_def offset_def option.map_comp comp_def case_prod_beta)

lemma loads_cong: "block p = Some b \<Longrightarrow> m b = m' b \<Longrightarrow> loads m p n = loads m' p n"
  by (auto simp: loads_def block_def)

lemma stores_frame: "stores m p vs = Some m' \<Longrightarrow> block p \<noteq> Some b \<Longrightarrow> m' b = m b"
  by (auto simp: stores_def block_def split: if_splits option.splits)

lemma emit_frame: "emit p vs m = Some m' \<Longrightarrow> block p \<noteq> Some b \<Longrightarrow> m' b = m b"
  by (auto simp: emit_def stores_frame split: if_splits)

lemma loads_emit:
  "emit p vs m = Some m' \<Longrightarrow> block q \<noteq> block p \<or> q = None \<Longrightarrow> loads m' q n = loads m q n"
proof (cases q)
  case (Some a)
  assume e: "emit p vs m = Some m'" and "block q \<noteq> block p \<or> q = None"
  then have "block p \<noteq> Some (fst a)"
    using Some by (auto simp: block_def)
  with e have "m' (fst a) = m (fst a)"
    by (rule emit_frame)
  with Some show ?thesis
    by (intro loads_cong [of _ "fst a"]) (auto simp: block_def)
qed (simp add: loads_def)

lemma stores_block:
  "m b = Some bs \<Longrightarrow> i + length vs \<le> length bs \<Longrightarrow>
   stores m (Some (b, i)) vs = Some (m(b \<mapsto> write_at bs i vs))"
  by (auto simp: stores_def fun_upd_idem)

text \<open>Every successful write through a non-null pointer is a \<open>write_at\<close> on its block.\<close>

lemma stores_SomeE:
  assumes "stores m (Some (b, i)) vs = Some m'" and "vs \<noteq> []"
  obtains bs where "m b = Some bs" "i + length vs \<le> length bs" "m' = m(b \<mapsto> write_at bs i vs)"
  using assms by (auto simp: stores_def split: if_splits option.splits)

lemma loads_stores_same:
  assumes "stores m p vs = Some m'"
  shows "loads m' p (length vs) = Some vs"
proof (cases "vs = []")
  case False
  with assms obtain b i where p: "p = Some (b, i)"
    by (cases p) (auto simp: stores_def)
  with assms False obtain bs where "m b = Some bs" "i + length vs \<le> length bs" "m' = m(b \<mapsto> write_at bs i vs)"
    by (auto elim: stores_SomeE)
  then show ?thesis
    by (simp add: p loads_block length_write_at bslice_write_at_same)
qed simp

lemma loads_emit_same: "emit p vs m = Some m' \<Longrightarrow> p \<noteq> None \<Longrightarrow> loads m' p (length vs) = Some vs"
  by (auto simp: emit_def loads_stores_same)

end
