(* ===== verification/CoapPacket.thy ===== *)
theory CoapPacket
  imports CMemory
begin

text \<open>
  The CoAP packet of \<open>src/messaging/coap/coap_internal.h\<close> with its option bitmap, the accessors of
  \<open>src/messaging/coap/options.c\<close>, the signal option accessors of \<open>src/messaging/coap/signal.c\<close> and
  the field setters at the end of \<open>src/messaging/coap/coap.c\<close>.

  The packet is a record with one field per member of \<open>coap_packet_t\<close> (prefix \<open>p_\<close>). String
  members are pointers into a memory of \<open>CMemory\<close> with a length, as in C. The build is the one
  with \<open>OC_TCP\<close> and \<open>OC_CLIENT\<close> and without \<open>OC_OSCORE\<close>; the other switches and the two limits that
  depend on the build are the fields of \<open>coap_cfg\<close>.

  The lemmas show the bitmap laws, that a setter followed by the getter returns the value that
  was set and changes no other option, and the round trip of the block option value.
\<close>

subsection \<open>Constants\<close>

abbreviation (input) COAP_DEFAULT_MAX_AGE :: u32 where "COAP_DEFAULT_MAX_AGE \<equiv> 60"
abbreviation (input) COAP_HEADER_LEN :: nat where "COAP_HEADER_LEN \<equiv> 4"
abbreviation (input) COAP_TOKEN_LEN :: nat where "COAP_TOKEN_LEN \<equiv> 8"
abbreviation (input) COAP_ETAG_LEN :: nat where "COAP_ETAG_LEN \<equiv> 8"
abbreviation (input) COAP_TCP_DEFAULT_HEADER_LEN :: nat where "COAP_TCP_DEFAULT_HEADER_LEN \<equiv> 2"
abbreviation (input) COAP_PAYLOAD_MARKER :: u8 where "COAP_PAYLOAD_MARKER \<equiv> 0xFF"
abbreviation (input) COAP_TCP_EXTENDED_LENGTH_1_DEFAULT_LEN :: nat where "COAP_TCP_EXTENDED_LENGTH_1_DEFAULT_LEN \<equiv> 13"
abbreviation (input) COAP_TCP_EXTENDED_LENGTH_2_DEFAULT_LEN :: nat where "COAP_TCP_EXTENDED_LENGTH_2_DEFAULT_LEN \<equiv> 269"
abbreviation (input) COAP_TCP_EXTENDED_LENGTH_3_DEFAULT_LEN :: nat where "COAP_TCP_EXTENDED_LENGTH_3_DEFAULT_LEN \<equiv> 65805"

abbreviation (input) COAP_OPTION_URI_HOST :: nat where "COAP_OPTION_URI_HOST \<equiv> 3"
abbreviation (input) COAP_OPTION_ETAG :: nat where "COAP_OPTION_ETAG \<equiv> 4"
abbreviation (input) COAP_OPTION_OBSERVE :: nat where "COAP_OPTION_OBSERVE \<equiv> 6"
abbreviation (input) COAP_OPTION_URI_PORT :: nat where "COAP_OPTION_URI_PORT \<equiv> 7"
abbreviation (input) COAP_OPTION_URI_PATH :: nat where "COAP_OPTION_URI_PATH \<equiv> 11"
abbreviation (input) COAP_OPTION_CONTENT_FORMAT :: nat where "COAP_OPTION_CONTENT_FORMAT \<equiv> 12"
abbreviation (input) COAP_OPTION_MAX_AGE :: nat where "COAP_OPTION_MAX_AGE \<equiv> 14"
abbreviation (input) COAP_OPTION_URI_QUERY :: nat where "COAP_OPTION_URI_QUERY \<equiv> 15"
abbreviation (input) COAP_OPTION_ACCEPT :: nat where "COAP_OPTION_ACCEPT \<equiv> 17"
abbreviation (input) COAP_OPTION_BLOCK2 :: nat where "COAP_OPTION_BLOCK2 \<equiv> 23"
abbreviation (input) COAP_OPTION_BLOCK1 :: nat where "COAP_OPTION_BLOCK1 \<equiv> 27"
abbreviation (input) COAP_OPTION_SIZE2 :: nat where "COAP_OPTION_SIZE2 \<equiv> 28"
abbreviation (input) COAP_OPTION_PROXY_URI :: nat where "COAP_OPTION_PROXY_URI \<equiv> 35"
abbreviation (input) COAP_OPTION_SIZE1 :: nat where "COAP_OPTION_SIZE1 \<equiv> 60"
abbreviation (input) OCF_OPTION_ACCEPT_CONTENT_FORMAT_VER :: nat where "OCF_OPTION_ACCEPT_CONTENT_FORMAT_VER \<equiv> 2049"
abbreviation (input) OCF_OPTION_CONTENT_FORMAT_VER :: nat where "OCF_OPTION_CONTENT_FORMAT_VER \<equiv> 2053"

abbreviation (input) COAP_SIGNAL_OPTION_MAX_MSG_SIZE :: nat where "COAP_SIGNAL_OPTION_MAX_MSG_SIZE \<equiv> 2"
abbreviation (input) COAP_SIGNAL_OPTION_BLOCKWISE_TRANSFER :: nat where "COAP_SIGNAL_OPTION_BLOCKWISE_TRANSFER \<equiv> 4"
abbreviation (input) COAP_SIGNAL_OPTION_CUSTODY :: nat where "COAP_SIGNAL_OPTION_CUSTODY \<equiv> 2"
abbreviation (input) COAP_SIGNAL_OPTION_ALT_ADDR :: nat where "COAP_SIGNAL_OPTION_ALT_ADDR \<equiv> 2"
abbreviation (input) COAP_SIGNAL_OPTION_HOLD_OFF :: nat where "COAP_SIGNAL_OPTION_HOLD_OFF \<equiv> 4"
abbreviation (input) COAP_SIGNAL_OPTION_BAD_CSM :: nat where "COAP_SIGNAL_OPTION_BAD_CSM \<equiv> 2"

abbreviation (input) CSM_7_01 :: u8 where "CSM_7_01 \<equiv> 225"
abbreviation (input) PING_7_02 :: u8 where "PING_7_02 \<equiv> 226"
abbreviation (input) PONG_7_03 :: u8 where "PONG_7_03 \<equiv> 227"
abbreviation (input) RELEASE_7_04 :: u8 where "RELEASE_7_04 \<equiv> 228"
abbreviation (input) ABORT_7_05 :: u8 where "ABORT_7_05 \<equiv> 229"

abbreviation (input) APPLICATION_LINK_FORMAT :: nat where "APPLICATION_LINK_FORMAT \<equiv> 40"
abbreviation (input) APPLICATION_JSON :: nat where "APPLICATION_JSON \<equiv> 50"
abbreviation (input) APPLICATION_CBOR :: nat where "APPLICATION_CBOR \<equiv> 60"
abbreviation (input) APPLICATION_TD_JSON :: nat where "APPLICATION_TD_JSON \<equiv> 432"
abbreviation (input) APPLICATION_VND_OCF_CBOR :: nat where "APPLICATION_VND_OCF_CBOR \<equiv> 10000"
abbreviation (input) OCF_VER_1_0_0 :: nat where "OCF_VER_1_0_0 \<equiv> 2048"
abbreviation (input) OIC_VER_1_1_0 :: nat where "OIC_VER_1_1_0 \<equiv> 2112"

record coap_cfg =
  oc_spec_ver_oic :: bool
  oc_json_encoder :: bool
  oc_wkcore :: bool
  coap_max_header_size :: nat
  oc_block_size :: nat

subsection \<open>Status codes\<close>

datatype coap_status_t =
    COAP_NO_ERROR
  | CREATED_2_01 | DELETED_2_02 | VALID_2_03 | CHANGED_2_04 | CONTENT_2_05 | CONTINUE_2_31
  | BAD_REQUEST_4_00 | UNAUTHORIZED_4_01 | BAD_OPTION_4_02 | FORBIDDEN_4_03 | NOT_FOUND_4_04
  | METHOD_NOT_ALLOWED_4_05 | NOT_ACCEPTABLE_4_06 | PRECONDITION_FAILED_4_12
  | REQUEST_ENTITY_TOO_LARGE_4_13 | UNSUPPORTED_MEDIA_TYPE_4_15
  | INTERNAL_SERVER_ERROR_5_00 | NOT_IMPLEMENTED_5_01 | BAD_GATEWAY_5_02 | SERVICE_UNAVAILABLE_5_03
  | GATEWAY_TIMEOUT_5_04 | PROXYING_NOT_SUPPORTED_5_05
  | MEMORY_ALLOCATION_ERROR | PACKET_SERIALIZATION_ERROR | CLEAR_TRANSACTION | EMPTY_ACK_RESPONSE
  | CLOSE_ALL_TLS_SESSIONS

fun coap_status_value :: "coap_status_t \<Rightarrow> nat" where
  "coap_status_value COAP_NO_ERROR = 0"
| "coap_status_value CREATED_2_01 = 65"
| "coap_status_value DELETED_2_02 = 66"
| "coap_status_value VALID_2_03 = 67"
| "coap_status_value CHANGED_2_04 = 68"
| "coap_status_value CONTENT_2_05 = 69"
| "coap_status_value CONTINUE_2_31 = 95"
| "coap_status_value BAD_REQUEST_4_00 = 128"
| "coap_status_value UNAUTHORIZED_4_01 = 129"
| "coap_status_value BAD_OPTION_4_02 = 130"
| "coap_status_value FORBIDDEN_4_03 = 131"
| "coap_status_value NOT_FOUND_4_04 = 132"
| "coap_status_value METHOD_NOT_ALLOWED_4_05 = 133"
| "coap_status_value NOT_ACCEPTABLE_4_06 = 134"
| "coap_status_value PRECONDITION_FAILED_4_12 = 140"
| "coap_status_value REQUEST_ENTITY_TOO_LARGE_4_13 = 141"
| "coap_status_value UNSUPPORTED_MEDIA_TYPE_4_15 = 143"
| "coap_status_value INTERNAL_SERVER_ERROR_5_00 = 160"
| "coap_status_value NOT_IMPLEMENTED_5_01 = 161"
| "coap_status_value BAD_GATEWAY_5_02 = 162"
| "coap_status_value SERVICE_UNAVAILABLE_5_03 = 163"
| "coap_status_value GATEWAY_TIMEOUT_5_04 = 164"
| "coap_status_value PROXYING_NOT_SUPPORTED_5_05 = 165"
| "coap_status_value MEMORY_ALLOCATION_ERROR = 192"
| "coap_status_value PACKET_SERIALIZATION_ERROR = 193"
| "coap_status_value CLEAR_TRANSACTION = 194"
| "coap_status_value EMPTY_ACK_RESPONSE = 195"
| "coap_status_value CLOSE_ALL_TLS_SESSIONS = 196"

lemma coap_status_value_inj: "coap_status_value s = coap_status_value t \<Longrightarrow> s = t"
  by (cases s; cases t) simp_all

text \<open>The parser compares status codes by their numbers (\<open>last_error < s\<close>).\<close>

instantiation coap_status_t :: linorder
begin

definition less_eq_coap_status_t :: "coap_status_t \<Rightarrow> coap_status_t \<Rightarrow> bool" where
  "less_eq_coap_status_t s t \<longleftrightarrow> coap_status_value s \<le> coap_status_value t"

definition less_coap_status_t :: "coap_status_t \<Rightarrow> coap_status_t \<Rightarrow> bool" where
  "less_coap_status_t s t \<longleftrightarrow> coap_status_value s < coap_status_value t"

instance
  by standard
    (auto simp: less_eq_coap_status_t_def less_coap_status_t_def intro: coap_status_value_inj)

end

subsection \<open>The packet\<close>

datatype coap_transport_type_t = COAP_TRANSPORT_UDP | COAP_TRANSPORT_TCP

datatype coap_message_type_t = COAP_TYPE_CON | COAP_TYPE_NON | COAP_TYPE_ACK | COAP_TYPE_RST

fun message_type_value :: "coap_message_type_t \<Rightarrow> nat" where
  "message_type_value COAP_TYPE_CON = 0"
| "message_type_value COAP_TYPE_NON = 1"
| "message_type_value COAP_TYPE_ACK = 2"
| "message_type_value COAP_TYPE_RST = 3"

definition message_type_of :: "nat \<Rightarrow> coap_message_type_t" where
  "message_type_of n =
     (if n = 0 then COAP_TYPE_CON else if n = 1 then COAP_TYPE_NON
      else if n = 2 then COAP_TYPE_ACK else COAP_TYPE_RST)"

lemma message_type_of_value [simp]: "message_type_of (message_type_value t) = t"
  by (cases t) (simp_all add: message_type_of_def)

lemma message_type_value_lt: "message_type_value t < 4"
  by (cases t) simp_all

record coap_packet =
  p_buffer :: ptr
  p_transport_type :: coap_transport_type_t
  p_version :: u8
  p_type :: coap_message_type_t
  p_code :: u8
  p_mid :: u16
  p_token_len :: nat
  p_token :: bytes
  p_options :: bytes
  p_content_format :: u16
  p_max_age :: u32
  p_etag_len :: nat
  p_etag :: bytes
  p_proxy_uri_len :: nat
  p_proxy_uri :: ptr
  p_uri_host_len :: nat
  p_uri_host :: ptr
  p_uri_port :: u16
  p_uri_path_len :: nat
  p_uri_path :: ptr
  p_observe :: u32
  p_accept :: u16
  p_block2_num :: u32
  p_block2_more :: u8
  p_block2_size :: u16
  p_block2_offset :: u32
  p_block1_num :: u32
  p_block1_more :: u8
  p_block1_size :: u16
  p_block1_offset :: u32
  p_size2 :: u32
  p_size1 :: u32
  p_uri_query_len :: nat
  p_uri_query :: ptr
  p_max_msg_size :: u32
  p_blockwise_transfer :: u8
  p_custody :: u8
  p_alt_addr :: ptr
  p_alt_addr_len :: nat
  p_hold_off :: u32
  p_bad_csm_opt :: u16
  p_payload_len :: u32
  p_payload :: ptr

text \<open>\<open>memset(packet, 0, sizeof(coap_packet_t))\<close>.\<close>

definition zero_packet :: coap_packet where
  "zero_packet = \<lparr> p_buffer = None, p_transport_type = COAP_TRANSPORT_UDP, p_version = 0,
     p_type = COAP_TYPE_CON, p_code = 0, p_mid = 0, p_token_len = 0,
     p_token = replicate COAP_TOKEN_LEN 0, p_options = replicate 8 0, p_content_format = 0,
     p_max_age = 0, p_etag_len = 0, p_etag = replicate COAP_ETAG_LEN 0, p_proxy_uri_len = 0,
     p_proxy_uri = None, p_uri_host_len = 0, p_uri_host = None, p_uri_port = 0,
     p_uri_path_len = 0, p_uri_path = None, p_observe = 0, p_accept = 0, p_block2_num = 0,
     p_block2_more = 0, p_block2_size = 0, p_block2_offset = 0, p_block1_num = 0,
     p_block1_more = 0, p_block1_size = 0, p_block1_offset = 0, p_size2 = 0, p_size1 = 0,
     p_uri_query_len = 0, p_uri_query = None, p_max_msg_size = 0, p_blockwise_transfer = 0,
     p_custody = 0, p_alt_addr = None, p_alt_addr_len = 0, p_hold_off = 0, p_bad_csm_opt = 0,
     p_payload_len = 0, p_payload = None \<rparr>"

text \<open>
  The invariant of the fixed-size arrays of a packet: eight bytes each of bitmap, token and ETag,
  and lengths that stay inside the arrays.
\<close>

definition packet_wf :: "coap_packet \<Rightarrow> bool" where
  "packet_wf p \<longleftrightarrow> length (p_options p) = 8 \<and> length (p_token p) = COAP_TOKEN_LEN \<and>
     length (p_etag p) = COAP_ETAG_LEN \<and> p_token_len p \<le> COAP_TOKEN_LEN \<and> p_etag_len p \<le> COAP_ETAG_LEN"

subsection \<open>The option bitmap\<close>

definition set_bitmap :: "bytes \<Rightarrow> nat \<Rightarrow> bytes" where
  "set_bitmap os n = os[n div 8 := os ! (n div 8) OR push_bit (n mod 8) 1]"

definition SET_OPTION :: "nat \<Rightarrow> coap_packet \<Rightarrow> coap_packet" where
  "SET_OPTION n p = p\<lparr>p_options := set_bitmap (p_options p) n\<rparr>"

definition UNSET_OPTION :: "nat \<Rightarrow> coap_packet \<Rightarrow> coap_packet" where
  "UNSET_OPTION n p =
     p\<lparr>p_options := (p_options p)[n div 8 := p_options p ! (n div 8) AND NOT (push_bit (n mod 8) 1)]\<rparr>"

definition IS_OPTION :: "coap_packet \<Rightarrow> nat \<Rightarrow> bool" where
  "IS_OPTION p n \<longleftrightarrow> p_options p ! (n div 8) AND push_bit (n mod 8) 1 \<noteq> 0"

definition in_bitmap :: "bytes \<Rightarrow> nat \<Rightarrow> bool" where
  "in_bitmap os n \<longleftrightarrow> bit (os ! (n div 8)) (n mod 8)"


subsection \<open>Accessors of \<open>options.c\<close>\<close>

definition coap_options_get_content_format :: "coap_packet \<Rightarrow> nat option" where
  "coap_options_get_content_format p =
     (if \<not> IS_OPTION p COAP_OPTION_CONTENT_FORMAT then None else Some (unat (p_content_format p)))"

text \<open>The assertion \<open>format <= UINT16_MAX\<close> fails with \<^const>\<open>None\<close>.\<close>

definition coap_options_set_content_format :: "coap_packet \<Rightarrow> nat \<Rightarrow> coap_packet option" where
  "coap_options_set_content_format p format =
     (if format < 2 ^ 16
      then Some (SET_OPTION COAP_OPTION_CONTENT_FORMAT (p\<lparr>p_content_format := of_nat format\<rparr>))
      else None)"

definition coap_options_get_accept :: "coap_packet \<Rightarrow> nat option" where
  "coap_options_get_accept p =
     (if \<not> IS_OPTION p COAP_OPTION_ACCEPT then None else Some (unat (p_accept p)))"

definition coap_options_set_accept :: "coap_packet \<Rightarrow> nat \<Rightarrow> coap_packet option" where
  "coap_options_set_accept p accept =
     (if accept < 2 ^ 16
      then Some (SET_OPTION COAP_OPTION_ACCEPT (p\<lparr>p_accept := of_nat accept\<rparr>))
      else None)"

definition coap_options_get_max_age :: "coap_packet \<Rightarrow> bool \<times> u32" where
  "coap_options_get_max_age p =
     (if \<not> IS_OPTION p COAP_OPTION_MAX_AGE then (False, COAP_DEFAULT_MAX_AGE) else (True, p_max_age p))"

definition coap_options_set_max_age :: "coap_packet \<Rightarrow> u32 \<Rightarrow> coap_packet" where
  "coap_options_set_max_age p age = SET_OPTION COAP_OPTION_MAX_AGE (p\<lparr>p_max_age := age\<rparr>)"

definition coap_options_get_etag :: "coap_packet \<Rightarrow> nat \<times> bytes option" where
  "coap_options_get_etag p =
     (if \<not> IS_OPTION p COAP_OPTION_ETAG then (0, None) else (p_etag_len p, Some (p_etag p)))"

definition coap_options_set_etag :: "mem \<Rightarrow> coap_packet \<Rightarrow> ptr \<Rightarrow> nat \<Rightarrow> (nat \<times> coap_packet) option" where
  "coap_options_set_etag m p etag etag_len =
     (if etag_len > 0 then
        (let n = min COAP_ETAG_LEN etag_len in
         do {
           bs \<leftarrow> loads m etag n;
           Some (n, SET_OPTION COAP_OPTION_ETAG (p\<lparr>p_etag_len := n, p_etag := write_at (p_etag p) 0 bs\<rparr>))
         })
      else None)"

definition coap_options_get_proxy_uri :: "coap_packet \<Rightarrow> nat \<times> ptr" where
  "coap_options_get_proxy_uri p =
     (if \<not> IS_OPTION p COAP_OPTION_PROXY_URI then (0, None) else (p_proxy_uri_len p, p_proxy_uri p))"

definition coap_options_set_proxy_uri :: "coap_packet \<Rightarrow> ptr \<Rightarrow> nat \<Rightarrow> nat \<times> coap_packet" where
  "coap_options_set_proxy_uri p uri uri_len =
     (uri_len, SET_OPTION COAP_OPTION_PROXY_URI (p\<lparr>p_proxy_uri := uri, p_proxy_uri_len := uri_len\<rparr>))"

definition coap_options_get_uri_path :: "coap_packet \<Rightarrow> nat \<times> ptr" where
  "coap_options_get_uri_path p =
     (if \<not> IS_OPTION p COAP_OPTION_URI_PATH then (0, None) else (p_uri_path_len p, p_uri_path p))"

text \<open>
  The loop \<open>while (path[0] == c && path_len > 0)\<close> of the two setters: the byte is read before the
  length is looked at.
\<close>

fun skip_leading :: "mem \<Rightarrow> u8 \<Rightarrow> ptr \<Rightarrow> nat \<Rightarrow> (ptr \<times> nat) option" where
  "skip_leading m c path path_len =
     (case load m path of
        None \<Rightarrow> None
      | Some x \<Rightarrow>
          (if x = c \<and> path_len > 0 then skip_leading m c (offset path 1) (path_len - 1)
           else Some (path, path_len)))"

definition coap_options_set_uri_path ::
  "mem \<Rightarrow> coap_packet \<Rightarrow> ptr \<Rightarrow> nat \<Rightarrow> (nat \<times> coap_packet) option" where
  "coap_options_set_uri_path m p path path_len = do {
     (q, n) \<leftarrow> skip_leading m 0x2F path path_len;
     Some (n, SET_OPTION COAP_OPTION_URI_PATH (p\<lparr>p_uri_path := q, p_uri_path_len := n\<rparr>))
   }"

definition coap_options_get_uri_query :: "coap_packet \<Rightarrow> nat \<times> ptr" where
  "coap_options_get_uri_query p =
     (if \<not> IS_OPTION p COAP_OPTION_URI_QUERY then (0, None) else (p_uri_query_len p, p_uri_query p))"

definition coap_options_set_uri_query ::
  "mem \<Rightarrow> coap_packet \<Rightarrow> ptr \<Rightarrow> nat \<Rightarrow> (nat \<times> coap_packet) option" where
  "coap_options_set_uri_query m p query query_len = do {
     (q, n) \<leftarrow> skip_leading m 0x3F query query_len;
     Some (n, SET_OPTION COAP_OPTION_URI_QUERY (p\<lparr>p_uri_query := q, p_uri_query_len := n\<rparr>))
   }"

definition coap_options_get_size1 :: "coap_packet \<Rightarrow> u32 option" where
  "coap_options_get_size1 p = (if \<not> IS_OPTION p COAP_OPTION_SIZE1 then None else Some (p_size1 p))"

definition coap_options_set_size1 :: "coap_packet \<Rightarrow> u32 \<Rightarrow> coap_packet" where
  "coap_options_set_size1 p n = SET_OPTION COAP_OPTION_SIZE1 (p\<lparr>p_size1 := n\<rparr>)"

definition coap_options_get_size2 :: "coap_packet \<Rightarrow> u32 option" where
  "coap_options_get_size2 p = (if \<not> IS_OPTION p COAP_OPTION_SIZE2 then None else Some (p_size2 p))"

definition coap_options_set_size2 :: "coap_packet \<Rightarrow> u32 \<Rightarrow> coap_packet" where
  "coap_options_set_size2 p n = SET_OPTION COAP_OPTION_SIZE2 (p\<lparr>p_size2 := n\<rparr>)"

definition coap_options_get_block1 :: "coap_packet \<Rightarrow> (u32 \<times> u8 \<times> u16 \<times> u32) option" where
  "coap_options_get_block1 p =
     (if \<not> IS_OPTION p COAP_OPTION_BLOCK1 then None
      else Some (p_block1_num p, p_block1_more p, p_block1_size p, p_block1_offset p))"

definition coap_options_set_block1 ::
  "coap_packet \<Rightarrow> u32 \<Rightarrow> u8 \<Rightarrow> u16 \<Rightarrow> u32 \<Rightarrow> bool \<times> coap_packet" where
  "coap_options_set_block1 p num mr sz off =
     (if num > 0x0FFFFF then (False, p)
      else if sz < 16 \<or> sz > 2048 then (False, p)
      else (True, SET_OPTION COAP_OPTION_BLOCK1
             (p\<lparr>p_block1_num := num, p_block1_more := mr, p_block1_size := sz, p_block1_offset := off\<rparr>)))"

definition coap_options_get_block2 :: "coap_packet \<Rightarrow> (u32 \<times> u8 \<times> u16 \<times> u32) option" where
  "coap_options_get_block2 p =
     (if \<not> IS_OPTION p COAP_OPTION_BLOCK2 then None
      else Some (p_block2_num p, p_block2_more p, p_block2_size p, p_block2_offset p))"

definition coap_options_set_block2 ::
  "coap_packet \<Rightarrow> u32 \<Rightarrow> u8 \<Rightarrow> u16 \<Rightarrow> u32 \<Rightarrow> bool \<times> coap_packet" where
  "coap_options_set_block2 p num mr sz off =
     (if num > 0x0FFFFF then (False, p)
      else if sz < 16 \<or> sz > 2048 then (False, p)
      else (True, SET_OPTION COAP_OPTION_BLOCK2
             (p\<lparr>p_block2_num := num, p_block2_more := (if mr \<noteq> 0 then 1 else 0),
                p_block2_size := sz, p_block2_offset := off\<rparr>)))"

text \<open>The \<open>do\<close>-\<open>while\<close> loop of \<open>coap_log_2\<close>.\<close>

function log_2_loop :: "u16 \<Rightarrow> u16 \<Rightarrow> u16" where
  "log_2_loop v r =
     (if drop_bit 1 v \<noteq> 0 then log_2_loop (drop_bit 1 v) (r + 1) else r + 1)"
  by pat_completeness auto
termination
proof (relation "measure (\<lambda>(v, _). unat v)")
  fix v r :: u16
  assume "drop_bit 1 v \<noteq> 0"
  moreover have "unat (drop_bit 1 v) = unat v div 2"
    by (simp add: drop_bit_eq_div unat_div_distrib)
  ultimately show "((drop_bit 1 v, r + 1), (v, r)) \<in> measure (\<lambda>(v, _). unat v)"
    by (cases "v = 0") (auto simp: unat_gt_0)
qed simp

definition coap_log_2 :: "u16 \<Rightarrow> u16" where
  "coap_log_2 v = log_2_loop v 0 - 1"

definition coap_options_block_encode :: "u32 \<Rightarrow> u8 \<Rightarrow> u16 \<Rightarrow> u32" where
  "coap_options_block_encode num mr sz =
     (let block = push_bit 4 num;
          block = (if mr \<noteq> 0 then block OR 0x8 else block)
      in block OR (0xF AND ucast (coap_log_2 (sz div 16))))"

definition coap_options_block_decode :: "u32 \<Rightarrow> u32 \<times> u8 \<times> u16 \<times> u32" where
  "coap_options_block_decode v =
     (drop_bit 4 v AND 0xFFFFF,
      ucast (drop_bit 3 (v AND 0x08)),
      push_bit (unat (v AND 0x07)) 16,
      push_bit (unat (v AND 0x07)) (v AND NOT 0x0000000F))"

definition coap_options_block1_decode :: "coap_packet \<Rightarrow> u32 \<Rightarrow> coap_packet" where
  "coap_options_block1_decode p v =
     (case coap_options_block_decode v of (num, mr, sz, off) \<Rightarrow>
        SET_OPTION COAP_OPTION_BLOCK1
          (p\<lparr>p_block1_num := num, p_block1_more := mr, p_block1_size := sz, p_block1_offset := off\<rparr>))"

definition coap_options_block2_decode :: "coap_packet \<Rightarrow> u32 \<Rightarrow> coap_packet" where
  "coap_options_block2_decode p v =
     (case coap_options_block_decode v of (num, mr, sz, off) \<Rightarrow>
        SET_OPTION COAP_OPTION_BLOCK2
          (p\<lparr>p_block2_num := num, p_block2_more := mr, p_block2_size := sz, p_block2_offset := off\<rparr>))"

definition coap_options_get_observe :: "coap_packet \<Rightarrow> u32 option" where
  "coap_options_get_observe p = (if \<not> IS_OPTION p COAP_OPTION_OBSERVE then None else Some (p_observe p))"

definition coap_options_set_observe :: "coap_packet \<Rightarrow> u32 \<Rightarrow> coap_packet" where
  "coap_options_set_observe p obs = SET_OPTION COAP_OPTION_OBSERVE (p\<lparr>p_observe := obs\<rparr>)"

subsection \<open>Signal options of \<open>signal.c\<close>\<close>

definition coap_check_signal_message :: "u8 \<Rightarrow> bool" where
  "coap_check_signal_message code \<longleftrightarrow>
     code = CSM_7_01 \<or> code = PING_7_02 \<or> code = PONG_7_03 \<or> code = RELEASE_7_04 \<or> code = ABORT_7_05"

definition coap_signal_get_max_msg_size :: "coap_packet \<Rightarrow> u32 option" where
  "coap_signal_get_max_msg_size p =
     (if p_code p \<noteq> CSM_7_01 \<or> \<not> IS_OPTION p COAP_SIGNAL_OPTION_MAX_MSG_SIZE then None
      else Some (p_max_msg_size p))"

definition coap_signal_set_max_msg_size :: "coap_packet \<Rightarrow> u32 \<Rightarrow> bool \<times> coap_packet" where
  "coap_signal_set_max_msg_size p n =
     (if p_code p \<noteq> CSM_7_01 then (False, p)
      else (True, SET_OPTION COAP_SIGNAL_OPTION_MAX_MSG_SIZE (p\<lparr>p_max_msg_size := n\<rparr>)))"

definition coap_signal_get_blockwise_transfer :: "coap_packet \<Rightarrow> u8 option" where
  "coap_signal_get_blockwise_transfer p =
     (if p_code p \<noteq> CSM_7_01 \<or> \<not> IS_OPTION p COAP_SIGNAL_OPTION_BLOCKWISE_TRANSFER then None
      else Some (p_blockwise_transfer p))"

definition coap_signal_set_blockwise_transfer :: "coap_packet \<Rightarrow> u8 \<Rightarrow> bool \<times> coap_packet" where
  "coap_signal_set_blockwise_transfer p b =
     (if p_code p \<noteq> CSM_7_01 \<or> b > 1 then (False, p)
      else (True, SET_OPTION COAP_SIGNAL_OPTION_BLOCKWISE_TRANSFER (p\<lparr>p_blockwise_transfer := b\<rparr>)))"

definition coap_signal_get_custody :: "coap_packet \<Rightarrow> u8 option" where
  "coap_signal_get_custody p =
     (if (p_code p \<noteq> PING_7_02 \<and> p_code p \<noteq> PONG_7_03) \<or> \<not> IS_OPTION p COAP_SIGNAL_OPTION_CUSTODY
      then None else Some (p_custody p))"

definition coap_signal_set_custody :: "coap_packet \<Rightarrow> u8 \<Rightarrow> bool \<times> coap_packet" where
  "coap_signal_set_custody p c =
     (if (p_code p \<noteq> PING_7_02 \<and> p_code p \<noteq> PONG_7_03) \<or> c > 1 then (False, p)
      else (True, SET_OPTION COAP_SIGNAL_OPTION_CUSTODY (p\<lparr>p_custody := c\<rparr>)))"

definition coap_signal_get_alt_addr :: "coap_packet \<Rightarrow> nat \<times> ptr" where
  "coap_signal_get_alt_addr p =
     (if p_code p \<noteq> RELEASE_7_04 \<or> \<not> IS_OPTION p COAP_SIGNAL_OPTION_ALT_ADDR then (0, None)
      else (p_alt_addr_len p, p_alt_addr p))"

definition coap_signal_set_alt_addr :: "coap_packet \<Rightarrow> ptr \<Rightarrow> nat \<Rightarrow> nat \<times> coap_packet" where
  "coap_signal_set_alt_addr p a n =
     (if p_code p \<noteq> RELEASE_7_04 \<or> n = 0 then (0, p)
      else (n, SET_OPTION COAP_SIGNAL_OPTION_ALT_ADDR (p\<lparr>p_alt_addr := a, p_alt_addr_len := n\<rparr>)))"

definition coap_signal_get_hold_off :: "coap_packet \<Rightarrow> u32 option" where
  "coap_signal_get_hold_off p =
     (if p_code p \<noteq> RELEASE_7_04 \<or> \<not> IS_OPTION p COAP_SIGNAL_OPTION_HOLD_OFF then None
      else Some (p_hold_off p))"

definition coap_signal_set_hold_off :: "coap_packet \<Rightarrow> u32 \<Rightarrow> bool \<times> coap_packet" where
  "coap_signal_set_hold_off p n =
     (if p_code p \<noteq> RELEASE_7_04 then (False, p)
      else (True, SET_OPTION COAP_SIGNAL_OPTION_HOLD_OFF (p\<lparr>p_hold_off := n\<rparr>)))"

definition coap_signal_get_bad_csm :: "coap_packet \<Rightarrow> u16 option" where
  "coap_signal_get_bad_csm p =
     (if p_code p \<noteq> ABORT_7_05 \<or> \<not> IS_OPTION p COAP_SIGNAL_OPTION_BAD_CSM then None
      else Some (p_bad_csm_opt p))"

definition coap_signal_set_bad_csm :: "coap_packet \<Rightarrow> u16 \<Rightarrow> bool \<times> coap_packet" where
  "coap_signal_set_bad_csm p n =
     (if p_code p \<noteq> ABORT_7_05 then (False, p)
      else (True, SET_OPTION COAP_SIGNAL_OPTION_BAD_CSM (p\<lparr>p_bad_csm_opt := n\<rparr>)))"

subsection \<open>Field setters of \<open>coap.c\<close>\<close>

definition coap_udp_init_message :: "coap_message_type_t \<Rightarrow> u8 \<Rightarrow> u16 \<Rightarrow> coap_packet" where
  "coap_udp_init_message type code mid =
     zero_packet\<lparr>p_transport_type := COAP_TRANSPORT_UDP, p_type := type, p_code := code, p_mid := mid\<rparr>"

definition coap_tcp_init_message :: "u8 \<Rightarrow> coap_packet" where
  "coap_tcp_init_message code =
     zero_packet\<lparr>p_transport_type := COAP_TRANSPORT_TCP, p_type := COAP_TYPE_NON, p_code := code, p_mid := 0\<rparr>"

definition coap_set_status_code :: "coap_packet \<Rightarrow> u32 \<Rightarrow> int \<times> coap_packet" where
  "coap_set_status_code p code = (if code \<le> 0xFF then (1, p\<lparr>p_code := ucast code\<rparr>) else (0, p))"

definition coap_set_token :: "mem \<Rightarrow> coap_packet \<Rightarrow> ptr \<Rightarrow> nat \<Rightarrow> (nat \<times> coap_packet) option" where
  "coap_set_token m p token token_len =
     (let n = min COAP_TOKEN_LEN token_len in
      if n > 0 then do {
        bs \<leftarrow> loads m token n;
        Some (n, p\<lparr>p_token_len := n, p_token := write_at (p_token p) 0 bs\<rparr>)
      } else Some (n, p\<lparr>p_token_len := n\<rparr>))"

definition coap_get_payload :: "coap_packet \<Rightarrow> u32 \<times> ptr" where
  "coap_get_payload p = (if p_payload p \<noteq> None then (p_payload_len p, p_payload p) else (0, None))"

definition coap_set_payload :: "coap_cfg \<Rightarrow> coap_packet \<Rightarrow> ptr \<Rightarrow> u32 \<Rightarrow> u32 \<times> coap_packet" where
  "coap_set_payload cfg p payload n =
     (let n' = (if p_transport_type p = COAP_TRANSPORT_TCP then n
                else min (of_nat (oc_block_size cfg)) n)
      in (n', p\<lparr>p_payload := payload, p_payload_len := n'\<rparr>))"

text \<open>The message identifier and the status code kept in static variables of \<open>coap.c\<close>.\<close>

record coap_globals =
  g_current_mid :: u16
  g_coap_status_code :: coap_status_t

definition coap_init_connection :: "u32 \<Rightarrow> coap_globals \<Rightarrow> coap_globals" where
  "coap_init_connection random_value g = g\<lparr>g_current_mid := ucast random_value\<rparr>"

definition coap_get_mid :: "coap_globals \<Rightarrow> u16 \<times> coap_globals" where
  "coap_get_mid g = (let mid = g_current_mid g + 1 in (mid, g\<lparr>g_current_mid := mid\<rparr>))"

definition coap_global_status_code :: "coap_globals \<Rightarrow> coap_status_t" where
  "coap_global_status_code g = g_coap_status_code g"

definition coap_set_global_status_code :: "coap_status_t \<Rightarrow> coap_globals \<Rightarrow> coap_globals" where
  "coap_set_global_status_code s g = g\<lparr>g_coap_status_code := s\<rparr>"

subsection \<open>Laws of the bitmap and of the binary logarithm\<close>

declare skip_leading.simps [simp del] log_2_loop.simps [simp del]

lemma IS_OPTION_iff: "IS_OPTION p n \<longleftrightarrow> in_bitmap (p_options p) n"
  by (simp add: IS_OPTION_def in_bitmap_def and_exp_eq_0_iff_not_bit push_bit_eq_mult)

lemma div_mod_8_eq: "(a :: nat) div 8 = b div 8 \<Longrightarrow> a mod 8 = b mod 8 \<Longrightarrow> a = b"
  by (metis div_mult_mod_eq)

lemma in_set_bitmap:
  assumes "a < 64" and "b < 64" and "length os = 8"
  shows "in_bitmap (set_bitmap os a) b \<longleftrightarrow> a = b \<or> in_bitmap os b"
proof (cases "a div 8 = b div 8")
  case True
  with assms show ?thesis
    by (auto simp: in_bitmap_def set_bitmap_def bit_simps dest: div_mod_8_eq)
next
  case False
  with assms show ?thesis
    by (auto simp: in_bitmap_def set_bitmap_def)
qed

lemma length_set_bitmap [simp]: "length (set_bitmap os n) = length os"
  by (simp add: set_bitmap_def)

lemma in_zero_bitmap: "n < 64 \<Longrightarrow> \<not> in_bitmap (replicate 8 0) n"
  by (simp add: in_bitmap_def)

lemma packet_wf_zero [simp]: "packet_wf zero_packet"
  by (simp add: packet_wf_def zero_packet_def)

lemma zero_packet_fields [simp]:
  "p_uri_host_len zero_packet = 0" "p_uri_path_len zero_packet = 0" "p_uri_query_len zero_packet = 0"
  "p_proxy_uri_len zero_packet = 0" "p_code zero_packet = 0" "p_options zero_packet = replicate 8 0"
  "p_token zero_packet = replicate 8 0" "p_etag zero_packet = replicate 8 0" "p_payload_len zero_packet = 0"
  "p_token_len zero_packet = 0" "p_etag_len zero_packet = 0"
  by (simp_all only: zero_packet_def coap_packet.select_convs)

lemma IS_OPTION_zero: "n < 64 \<Longrightarrow> \<not> IS_OPTION zero_packet n"
  unfolding IS_OPTION_iff zero_packet_def coap_packet.select_convs by (rule in_zero_bitmap)

lemma unat_drop_bit_1: "unat (drop_bit 1 (v :: u16)) = unat v div 2"
  by (simp add: drop_bit_eq_div unat_div_distrib)

lemma log_2_loop_spec:
  "v \<noteq> 0 \<Longrightarrow> \<exists>k. log_2_loop v r = r + 1 + of_nat k \<and> 2 ^ k \<le> unat v \<and> unat v < 2 ^ Suc k"
proof (induction v r rule: log_2_loop.induct)
  case (1 v r)
  show ?case
  proof (cases "drop_bit 1 v = 0")
    case True
    then have "unat v div 2 = 0"
      by (simp flip: unat_drop_bit_1)
    with 1(2) have "unat v = 1"
      by (metis One_nat_def Suc_lessI div_eq_0_iff less_2_cases_iff numeral_2_eq_2 unat_eq_zero zero_neq_numeral)
    with True show ?thesis
      by (intro exI [of _ 0]) (simp add: log_2_loop.simps)
  next
    case False
    from 1(1) [OF False False] obtain k where k: "log_2_loop (drop_bit 1 v) (r + 1) = r + 1 + 1 + of_nat k"
        "2 ^ k \<le> unat v div 2" "unat v div 2 < 2 ^ Suc k"
      using unat_drop_bit_1 [of v] by fastforce
    with False show ?thesis
      by (intro exI [of _ "Suc k"]) (subst log_2_loop.simps, auto simp: algebra_simps)
  qed
qed

lemma coap_log_2_spec:
  assumes "v \<noteq> 0"
  shows "2 ^ unat (coap_log_2 v) \<le> unat v \<and> unat v < 2 ^ Suc (unat (coap_log_2 v))"
proof -
  from log_2_loop_spec [OF assms, of 0] obtain k
    where k: "coap_log_2 v = of_nat k" "2 ^ k \<le> unat v" "unat v < 2 ^ Suc k"
    by (auto simp: coap_log_2_def)
  have "(2 :: nat) ^ k < 2 ^ 16"
    using k(2) unsigned_less [where ?'a = nat, of v] by simp
  then have "k < 16"
    by (rule power_less_imp_less_exp [rotated]) simp
  then have "unat (of_nat k :: u16) = k"
    by (simp add: unsigned_of_nat take_bit_nat_eq_self)
  with k show ?thesis by simp
qed

lemma block_bits:
  fixes num :: u32
  assumes "num \<le> 0xFFFFF" and "k < 8" and "e = push_bit 4 num OR (if b then 8 else 0) OR of_nat k"
  shows "drop_bit 4 e AND 0xFFFFF = num" "drop_bit 3 (e AND 8) = (if b then 1 else 0)"
    "e AND 7 = of_nat k" "e AND NOT 0xF = push_bit 4 num"
proof -
  have small: "i < 20" if "bit num i" for i
  proof -
    have "take_bit 20 num = num"
      using assms(1) by (simp add: unsigned_take_bit_eq take_bit_nat_eq_self word_le_nat_alt word_unat_eq_iff)
    then show ?thesis using that by (metis bit_take_bit_iff)
  qed
  have kb: "i < 3" if "bit k i" for i
  proof -
    have "take_bit 3 k = k"
      using assms(2) by (simp add: take_bit_nat_eq_self)
    then show ?thesis using that by (metis bit_take_bit_iff)
  qed
  have m: "(0xFFFFF :: u32) = mask 20" "(7 :: u32) = mask 3" "(0xF :: u32) = mask 4"
    by (simp_all add: mask_eq_exp_minus_1)
  have b8: "bit (8 :: u32) i \<longleftrightarrow> i = 3" for i
    using bit_exp_iff [where ?'a = u32, of 3 i] by auto
  have b8i: "bit (8 :: int) i \<longleftrightarrow> i = 3" for i
    using bit_exp_iff [where ?'a = int, of 3 i] by auto
  show "drop_bit 4 e AND 0xFFFFF = num"
    unfolding assms(3) m
    by (intro bit_word_eqI) (auto simp: bit_simps b8 b8i dest: small kb)
  show "drop_bit 3 (e AND 8) = (if b then 1 else 0)"
    unfolding assms(3) m
    by (intro bit_word_eqI) (auto simp: bit_simps b8 b8i dest: small kb)
  show "e AND 7 = of_nat k"
    unfolding assms(3) m
    by (intro bit_word_eqI) (auto simp: bit_simps b8 b8i dest: small kb)
  show "e AND NOT 0xF = push_bit 4 num"
    unfolding assms(3) m
    by (intro bit_word_eqI) (auto simp: bit_simps b8 b8i dest: small kb)
qed

subsection \<open>The block option\<close>

lemma take_bit_4_of_nat: "k < 16 \<Longrightarrow> take_bit 4 (of_nat k :: u32) = of_nat k"
  by (simp add: word_unat_eq_iff unsigned_take_bit_eq unsigned_of_nat take_bit_nat_eq_self)

lemma block_encode_form:
  assumes "16 \<le> sz" and "sz \<le> 2048"
  obtains k where "k < 8" "coap_options_block_encode num mr sz = push_bit 4 num OR (if mr \<noteq> 0 then 8 else 0) OR of_nat k"
    "2 ^ (k + 4) \<le> unat sz" "unat sz < 2 ^ (k + 5)"
proof
  let ?k = "unat (coap_log_2 (sz div 16))"
  have d: "unat (sz div 16) = unat sz div 16"
    by (simp add: unat_div_distrib)
  have r: "16 \<le> unat sz" "unat sz \<le> 2048"
    using assms by (simp_all add: word_le_nat_alt)
  then have "sz div 16 \<noteq> 0"
    using d by (auto simp: word_unat_eq_iff)
  from coap_log_2_spec [OF this] have s: "2 ^ ?k \<le> unat sz div 16" "unat sz div 16 < 2 ^ Suc ?k"
    by (simp_all add: d)
  have "(2 :: nat) ^ ?k < 2 ^ 8"
    using s(1) r(2) by simp
  then show k8: "?k < 8"
    by (rule power_less_imp_less_exp [rotated]) simp
  have "(0xF :: u32) AND ucast (coap_log_2 (sz div 16)) = of_nat ?k"
  proof -
    have "(0xF :: u32) = mask 4"
      by (simp add: mask_eq_exp_minus_1)
    moreover have "(ucast (coap_log_2 (sz div 16)) :: u32) = of_nat ?k"
      by (simp add: unsigned_of_nat)
    moreover have "take_bit 4 (of_nat ?k :: u32) = of_nat ?k"
      using k8 by (intro take_bit_4_of_nat) simp
    ultimately show ?thesis
      by (simp add: take_bit_eq_mask and.commute)
  qed
  then show "coap_options_block_encode num mr sz = push_bit 4 num OR (if mr \<noteq> 0 then 8 else 0) OR of_nat ?k"
    by (simp add: coap_options_block_encode_def Let_def or.assoc)
  show "2 ^ (?k + 4) \<le> unat sz" "unat sz < 2 ^ (?k + 5)"
    using s by (simp_all add: power_add)
qed

text \<open>
  A block option value carries a block number of 20 bits, the flag and a size from 16 to 2048
  through \<open>coap_options_block_encode\<close> and \<open>coap_options_block_decode\<close>: the number and the flag come
  back unchanged, the size comes back rounded down to a power of two, and the decoded offset is the
  block number times that size, without overflow of the 32 bits.
\<close>

theorem block_option_round_trip:
  assumes "num \<le> 0xFFFFF" and "16 \<le> sz" and "sz \<le> 2048"
  shows "\<exists>szx < 8. 2 ^ (szx + 4) \<le> unat sz \<and> unat sz < 2 ^ (szx + 5) \<and>
    (\<exists>n sz' off. coap_options_block_decode (coap_options_block_encode num mr sz) =
        (n, if mr \<noteq> 0 then 1 else 0, sz', off) \<and>
      n = num \<and> unat sz' = 2 ^ (szx + 4) \<and> unat off = unat num * 2 ^ (szx + 4))"
proof -
  from block_encode_form [OF assms(2,3), of num mr] obtain k where k: "k < 8"
    "coap_options_block_encode num mr sz = push_bit 4 num OR (if mr \<noteq> 0 then 8 else 0) OR of_nat k"
    "2 ^ (k + 4) \<le> unat sz" "unat sz < 2 ^ (k + 5)" by blast
  note b = block_bits [OF assms(1) k(1,2)]
  have kk: "unat (of_nat k :: u32) = k"
    using k(1) by (simp add: unsigned_of_nat take_bit_nat_eq_self)
  have "unat num < 2 ^ 20"
    using assms(1) by (simp add: word_le_nat_alt)
  moreover have pk: "(2 :: nat) ^ k \<le> 2 ^ 7"
    using k(1) by (intro power_increasing) auto
  ultimately have "unat num * 2 ^ (k + 4) < 2 ^ 20 * 2 ^ 11"
    by (intro mult_less_le_imp_less) (auto simp: power_add)
  moreover have "push_bit k (push_bit 4 num) = of_nat (unat num * 2 ^ (k + 4))"
    by (simp add: push_bit_eq_mult power_add)
  ultimately have off: "unat (push_bit k (push_bit 4 num)) = unat num * 2 ^ (k + 4)"
    by (simp only: unsigned_of_nat) (simp add: take_bit_nat_eq_self)
  have "(push_bit k 16 :: u16) = of_nat (2 ^ (k + 4))"
    by (simp add: push_bit_eq_mult power_add)
  then have "unat (push_bit k 16 :: u16) = 2 ^ (k + 4)"
    using pk by (simp only: unsigned_of_nat) (simp add: take_bit_nat_eq_self power_add)
  with b kk off k(1,3,4) show ?thesis
    by (intro exI [of _ k]) (simp add: coap_options_block_decode_def)
qed

lemma block_option_round_trip_witness:
  "\<exists>n sz' off. coap_options_block_decode (coap_options_block_encode 5 1 100) = (n, 1, sz', off) \<and>
     n = 5 \<and> unat sz' = 64 \<and> unat off = 320"
proof -
  from block_option_round_trip [of 5 100 1] obtain szx n sz' off where *: "szx < 8"
    "2 ^ (szx + 4) \<le> (100 :: nat)" "(100 :: nat) < 2 ^ (szx + 5)"
    "coap_options_block_decode (coap_options_block_encode 5 1 100) = (n, 1, sz', off)"
    "n = 5" "unat sz' = 2 ^ (szx + 4)" "unat off = 5 * 2 ^ (szx + 4)"
    by auto
  from *(1) consider "szx = 0" | "szx = 1" | "szx = 2" | "szx = 3" | "szx = 4" | "szx = 5" | "szx = 6" | "szx = 7"
    by linarith
  then have "szx = 2"
    using *(2,3) by cases simp_all
  with * show ?thesis by simp
qed

subsection \<open>The contract of an option accessor pair\<close>

lemma packet_wf_SET_OPTION [simp]: "packet_wf (SET_OPTION n p) \<longleftrightarrow> packet_wf p"
  by (simp add: packet_wf_def SET_OPTION_def)

lemma IS_OPTION_SET_OPTION:
  "packet_wf p \<Longrightarrow> a < 64 \<Longrightarrow> n < 64 \<Longrightarrow> IS_OPTION (SET_OPTION a p) n \<longleftrightarrow> n = a \<or> IS_OPTION p n"
  by (auto simp: IS_OPTION_iff SET_OPTION_def in_set_bitmap packet_wf_def)

lemma IS_OPTION_UNSET_OPTION:
  assumes "packet_wf p" and "a < 64" and "n < 64"
  shows "IS_OPTION (UNSET_OPTION a p) n \<longleftrightarrow> n \<noteq> a \<and> IS_OPTION p n"
proof (cases "a div 8 = n div 8")
  case True
  have "a mod 8 < 8" by simp
  with True assms show ?thesis
    by (auto simp: IS_OPTION_iff UNSET_OPTION_def in_bitmap_def packet_wf_def bit_simps dest: div_mod_8_eq)
next
  case False
  with assms show ?thesis
    by (auto simp: IS_OPTION_iff UNSET_OPTION_def in_bitmap_def packet_wf_def)
qed

locale option_accessor =
  fixes getv :: "coap_packet \<Rightarrow> 'a option"
    and setv :: "coap_packet \<Rightarrow> 'a \<Rightarrow> coap_packet"
    and num :: nat
    and valid :: "'a \<Rightarrow> bool"
  assumes num_lt: "num < 64"
    and get_set: "packet_wf p \<Longrightarrow> valid v \<Longrightarrow> getv (setv p v) = Some v"
    and get_None: "getv p = None \<longleftrightarrow> \<not> IS_OPTION p num"
    and options_set: "valid v \<Longrightarrow> p_options (setv p v) = set_bitmap (p_options p) num"
    and wf_set: "packet_wf p \<Longrightarrow> valid v \<Longrightarrow> packet_wf (setv p v)"
begin

lemma is_option_set:
  "packet_wf p \<Longrightarrow> valid v \<Longrightarrow> n < 64 \<Longrightarrow> IS_OPTION (setv p v) n \<longleftrightarrow> n = num \<or> IS_OPTION p n"
  using num_lt by (auto simp: IS_OPTION_iff options_set in_set_bitmap packet_wf_def)

lemma wf_foldl: "packet_wf p \<Longrightarrow> \<forall>v \<in> set vs. valid v \<Longrightarrow> packet_wf (foldl setv p vs)"
  by (induction vs arbitrary: p) (auto simp: wf_set)

text \<open>After any number of calls of the setter the getter returns the last value.\<close>

lemma get_last:
  assumes "packet_wf p" and "\<forall>v \<in> set vs. valid v" and "vs \<noteq> []"
  shows "getv (foldl setv p vs) = Some (last vs)"
  using assms wf_foldl [of p "butlast vs"]
  by (cases vs rule: rev_cases) (auto simp: get_set)

lemma keeps_others:
  assumes "packet_wf p" and "\<forall>v \<in> set vs. valid v" and "n < 64" and "n \<noteq> num"
  shows "IS_OPTION (foldl setv p vs) n \<longleftrightarrow> IS_OPTION p n"
  using assms by (induction vs arbitrary: p) (auto simp: wf_set is_option_set)

end

lemmas accessor_simps = packet_wf_def SET_OPTION_def IS_OPTION_iff in_set_bitmap
lemmas accessor_word_simps = accessor_simps unsigned_of_nat take_bit_nat_eq_self

interpretation content_format_opt: option_accessor coap_options_get_content_format
  "\<lambda>p v. the (coap_options_set_content_format p v)" COAP_OPTION_CONTENT_FORMAT "\<lambda>v. v < 2 ^ 16"
  by unfold_locales
    (auto simp: accessor_word_simps coap_options_get_content_format_def coap_options_set_content_format_def)

interpretation accept_opt: option_accessor coap_options_get_accept
  "\<lambda>p v. the (coap_options_set_accept p v)" COAP_OPTION_ACCEPT "\<lambda>v. v < 2 ^ 16"
  by unfold_locales (auto simp: accessor_word_simps coap_options_get_accept_def coap_options_set_accept_def)

interpretation size1_opt: option_accessor coap_options_get_size1 coap_options_set_size1
  COAP_OPTION_SIZE1 "\<lambda>_. True"
  by unfold_locales (auto simp: accessor_simps coap_options_get_size1_def coap_options_set_size1_def)

interpretation size2_opt: option_accessor coap_options_get_size2 coap_options_set_size2
  COAP_OPTION_SIZE2 "\<lambda>_. True"
  by unfold_locales (auto simp: accessor_simps coap_options_get_size2_def coap_options_set_size2_def)

interpretation observe_opt: option_accessor coap_options_get_observe coap_options_set_observe
  COAP_OPTION_OBSERVE "\<lambda>_. True"
  by unfold_locales (auto simp: accessor_simps coap_options_get_observe_def coap_options_set_observe_def)

interpretation max_age_opt: option_accessor
  "\<lambda>p. if fst (coap_options_get_max_age p) then Some (snd (coap_options_get_max_age p)) else None"
  coap_options_set_max_age COAP_OPTION_MAX_AGE "\<lambda>_. True"
  by unfold_locales (auto simp: accessor_simps coap_options_get_max_age_def coap_options_set_max_age_def)

interpretation block1_opt: option_accessor coap_options_get_block1
  "\<lambda>p (n, mr, sz, off). snd (coap_options_set_block1 p n mr sz off)" COAP_OPTION_BLOCK1
  "\<lambda>(n, mr, sz, off). n \<le> 0xFFFFF \<and> 16 \<le> sz \<and> sz \<le> 2048"
  by unfold_locales (auto simp: accessor_simps coap_options_get_block1_def coap_options_set_block1_def leD)

interpretation block2_opt: option_accessor coap_options_get_block2
  "\<lambda>p (n, mr, sz, off). snd (coap_options_set_block2 p n mr sz off)" COAP_OPTION_BLOCK2
  "\<lambda>(n, mr, sz, off). n \<le> 0xFFFFF \<and> 16 \<le> sz \<and> sz \<le> 2048 \<and> (mr = 0 \<or> mr = 1)"
  by unfold_locales (auto simp: accessor_simps coap_options_get_block2_def coap_options_set_block2_def leD)

text \<open>The bytes after the leading separators.\<close>

lemma load_loads_hd:
  assumes "loads m p (Suc n) = Some bs"
  shows "load m p = Some (hd bs)" and "loads m (offset p 1) n = Some (tl bs)"
  using load_nth [OF assms, of 0] loads_part [OF assms, of 1 n] length_loads [OF assms]
  by (cases bs; simp add: bslice_def)+

lemma skip_leading_spec:
  assumes "loads m p (Suc n) = Some bs"
  shows "skip_leading m c p n =
    Some (offset p (length (takeWhile (\<lambda>x. x = c) (take n bs))), n - length (takeWhile (\<lambda>x. x = c) (take n bs)))"
  using assms
proof (induction n arbitrary: p bs)
  case 0
  then show ?case
    by (subst skip_leading.simps) (simp add: load_loads_hd)
next
  case (Suc n)
  note l = load_loads_hd [OF Suc.prems]
  from Suc.prems have "length bs = Suc (Suc n)"
    by (rule length_loads)
  then obtain x xs where bs: "bs = x # xs"
    by (cases bs) auto
  from Suc.IH [OF l(2)] bs l(1) show ?case
    by (subst skip_leading.simps) simp
qed

text \<open>
  \<open>coap_options_set_uri_path\<close> skips exactly the leading slashes of the path, never reads more than
  one byte past its length, and stores a pointer to the rest that the getter returns with its length.
\<close>

theorem coap_options_set_uri_path_strips:
  assumes "loads m path (Suc n) = Some bs" and "packet_wf p"
  shows "\<exists>k q. coap_options_set_uri_path m p path n = Some (n - k, q) \<and> k \<le> n \<and>
    take k bs = replicate k 0x2F \<and> (k < n \<longrightarrow> bs ! k \<noteq> 0x2F) \<and>
    coap_options_get_uri_path q = (n - k, offset path k) \<and>
    loads m (snd (coap_options_get_uri_path q)) (n - k) = Some (bslice bs k (n - k))"
proof -
  define k where "k = length (takeWhile (\<lambda>x. x = 0x2F) (take n bs))"
  have len: "length bs = Suc n"
    using assms(1) by (rule length_loads)
  have kn: "k \<le> n"
    using length_takeWhile_le [of "\<lambda>x. x = 0x2F" "take n bs"] by (simp add: k_def len)
  have tk: "take k (take n bs) = takeWhile (\<lambda>x. x = 0x2F) (take n bs)"
    unfolding k_def by (rule takeWhile_eq_take [symmetric])
  then have "take k bs = takeWhile (\<lambda>x. x = 0x2F) (take n bs)"
    using kn by (simp add: min_def)
  then have "\<forall>x \<in> set (take k bs). x = 0x2F"
    using set_takeWhileD [of _ "\<lambda>x. x = 0x2F" "take n bs"] by metis
  moreover have "length (take k bs) = k"
    using kn len by simp
  ultimately have rep: "take k bs = replicate k 0x2F"
    using replicate_length_same [of "take k bs" "0x2F"] by simp
  have nk: "k < n \<longrightarrow> bs ! k \<noteq> 0x2F"
    using nth_length_takeWhile [of "\<lambda>x. x = 0x2F" "take n bs"] by (auto simp: k_def len)
  define q where "q = SET_OPTION COAP_OPTION_URI_PATH (p\<lparr>p_uri_path := offset path k, p_uri_path_len := n - k\<rparr>)"
  have set: "coap_options_set_uri_path m p path n = Some (n - k, q)"
    using skip_leading_spec [OF assms(1), of "0x2F"] by (simp add: coap_options_set_uri_path_def q_def k_def)
  have get: "coap_options_get_uri_path q = (n - k, offset path k)"
    using assms(2) by (simp add: coap_options_get_uri_path_def q_def accessor_simps)
  have "loads m (offset path k) (n - k) = Some (bslice bs k (n - k))"
    using loads_part [OF assms(1), of k "n - k"] kn by simp
  with kn rep nk set get show ?thesis by auto
qed

lemma coap_options_set_uri_path_strips_witness:
  "\<exists>q. coap_options_set_uri_path [0 \<mapsto> [0x2F, 0x61, 0]] zero_packet (Some (0, 0)) 2 = Some (1, q) \<and>
     coap_options_get_uri_path q = (1, Some (0, 1))"
proof -
  have "loads [0 \<mapsto> [0x2F, 0x61, 0]] (Some (0, 0)) (Suc 2) = Some [0x2F, 0x61, 0]"
    by (simp add: loads_def bslice_def)
  then obtain k q where *: "coap_options_set_uri_path [0 \<mapsto> [0x2F, 0x61, 0]] zero_packet (Some (0, 0)) 2 = Some (2 - k, q)"
      "k \<le> 2" "take k [0x2F, 0x61, 0] = replicate k (0x2F :: u8)"
      "k < 2 \<longrightarrow> [0x2F, 0x61, 0] ! k \<noteq> (0x2F :: u8)"
      "coap_options_get_uri_path q = (2 - k, offset (Some (0, 0)) k)"
    using coap_options_set_uri_path_strips [of _ _ 2, OF _ packet_wf_zero] by blast
  have "k \<noteq> 0"
    using *(4) by (metis nth_Cons_0 zero_less_numeral)
  moreover have "k \<noteq> 2"
    using arg_cong [OF *(3), of "\<lambda>xs. xs ! 1"] by auto
  ultimately have "k = 1"
    using *(2) by simp
  with * show ?thesis by auto
qed

text \<open>
  Each numeric option getter returns the value of the setter, and setting one option changes the
  presence bit of no other option.
\<close>

theorem option_accessors_independent:
  assumes "packet_wf p" and "n < 2 ^ 16" and "k < 64"
  shows "coap_options_get_content_format (the (coap_options_set_content_format p n)) = Some n \<and>
    coap_options_get_accept (the (coap_options_set_accept p n)) = Some n \<and>
    coap_options_get_max_age (coap_options_set_max_age p v) = (True, v) \<and>
    coap_options_get_size1 (coap_options_set_size1 p v) = Some v \<and>
    coap_options_get_size2 (coap_options_set_size2 p v) = Some v \<and>
    coap_options_get_observe (coap_options_set_observe p v) = Some v \<and>
    (IS_OPTION (the (coap_options_set_content_format p n)) k \<longleftrightarrow> k = COAP_OPTION_CONTENT_FORMAT \<or> IS_OPTION p k) \<and>
    (IS_OPTION (the (coap_options_set_accept p n)) k \<longleftrightarrow> k = COAP_OPTION_ACCEPT \<or> IS_OPTION p k) \<and>
    (IS_OPTION (coap_options_set_max_age p v) k \<longleftrightarrow> k = COAP_OPTION_MAX_AGE \<or> IS_OPTION p k) \<and>
    (IS_OPTION (coap_options_set_size1 p v) k \<longleftrightarrow> k = COAP_OPTION_SIZE1 \<or> IS_OPTION p k) \<and>
    (IS_OPTION (coap_options_set_size2 p v) k \<longleftrightarrow> k = COAP_OPTION_SIZE2 \<or> IS_OPTION p k) \<and>
    (IS_OPTION (coap_options_set_observe p v) k \<longleftrightarrow> k = COAP_OPTION_OBSERVE \<or> IS_OPTION p k)"
  using assms content_format_opt.get_set accept_opt.get_set size1_opt.get_set size2_opt.get_set
    observe_opt.get_set max_age_opt.get_set [of p v]
  by (simp add: content_format_opt.is_option_set accept_opt.is_option_set size1_opt.is_option_set
      size2_opt.is_option_set observe_opt.is_option_set max_age_opt.is_option_set prod_eq_iff split: if_splits)

lemma option_accessors_independent_witness:
  "coap_options_get_accept (the (coap_options_set_accept zero_packet 60)) = Some 60 \<and>
   \<not> IS_OPTION (the (coap_options_set_accept zero_packet 60)) COAP_OPTION_OBSERVE"
  using option_accessors_independent [of zero_packet 60 COAP_OPTION_OBSERVE 0] IS_OPTION_zero [of COAP_OPTION_OBSERVE]
  by simp

lemma mid_sequence:
  assumes "i < j" and "j < 2 ^ 16"
  shows "(g :: u16) + of_nat i \<noteq> g + of_nat j"
proof
  assume "g + of_nat i = g + of_nat j"
  then have "unat (of_nat i :: u16) = unat (of_nat j :: u16)"
    by simp
  with assms show False
    by (simp only: unsigned_of_nat) (simp add: take_bit_nat_eq_self)
qed

lemma coap_get_mid_nth:
  "fst (coap_get_mid (((snd \<circ> coap_get_mid) ^^ i) g)) = (g_current_mid g + 1) + of_nat i"
proof (induction i arbitrary: g)
  case (Suc i)
  then show ?case
    by (simp only: funpow_Suc_right comp_apply) (simp add: coap_get_mid_def Let_def algebra_simps)
qed (simp add: coap_get_mid_def Let_def)

text \<open>
  Message identifiers repeat only after all 65536 values have been used: any 65536 consecutive
  calls of \<open>coap_get_mid\<close> return distinct identifiers, starting after the random initial value.
\<close>

theorem coap_get_mid_distinct:
  "distinct (map (\<lambda>i. fst (coap_get_mid (((snd \<circ> coap_get_mid) ^^ i) (coap_init_connection r g)))) [0..<65536])"
proof -
  have "inj_on (\<lambda>i. (ucast r + 1 :: u16) + of_nat i) {0..<65536}"
  proof (rule inj_onI)
    fix i j :: nat
    assume "i \<in> {0..<65536}" "j \<in> {0..<65536}" "(ucast r + 1 :: u16) + of_nat i = (ucast r + 1) + of_nat j"
    then show "i = j"
      using mid_sequence [of i j "ucast r + 1"] mid_sequence [of j i "ucast r + 1"]
      by (cases i j rule: linorder_cases) auto
  qed
  then show ?thesis
    by (simp add: distinct_map coap_get_mid_nth coap_init_connection_def)
qed

end
