(* ===== verification/CoapSerialize.thy ===== *)
theory CoapSerialize
  imports CoapPacket
begin

text \<open>
  The option serializer of \<open>src/messaging/coap/coap.c\<close>. Every function writes through a pointer that
  is \<open>NULL\<close> when only the size is wanted, and returns the number of bytes with the memory; a value
  \<^const>\<open>None\<close> is an access outside a buffer. Option numbers are 32-bit unsigned, written as natural
  numbers with the wrap-around of the subtraction in \<open>number_delta\<close>.

  The specification of the wire format is \<open>enc_opts\<close>, the encoding of a list of pairs of option
  number and value. The lemmas show that the serializer of a packet writes exactly the encoding of
  the list \<open>packet_options\<close> of the packet, in ascending order, that the counting run returns the
  number of bytes of the writing run, and what the two known defects do.
\<close>

definition number_delta :: "nat \<Rightarrow> nat \<Rightarrow> nat" where
  "number_delta number current_number = (number + 2 ^ 32 - current_number) mod 2 ^ 32"

definition coap_option_nibble :: "nat \<Rightarrow> u8" where
  "coap_option_nibble v = (if v < 13 then of_nat v else if v \<le> 0xFF + 13 then 13 else 14)"

text \<open>The extended bytes of a delta or of a length.\<close>

definition put_extended :: "nat \<Rightarrow> nat \<Rightarrow> ptr \<Rightarrow> mem \<Rightarrow> (nat \<times> mem) option" where
  "put_extended v written buffer m =
     (if v > 268 then do {
        m \<leftarrow> put_byte buffer (written + 1) (of_nat ((v - 269) div 256)) m;
        m \<leftarrow> put_byte buffer (written + 2) (of_nat (v - 269)) m;
        Some (written + 2, m)
      } else if v > 12 then do {
        m \<leftarrow> put_byte buffer (written + 1) (of_nat (v - 13)) m;
        Some (written + 1, m)
      } else Some (written, m))"

definition coap_set_option_header :: "nat \<Rightarrow> nat \<Rightarrow> ptr \<Rightarrow> mem \<Rightarrow> (nat \<times> mem) option" where
  "coap_set_option_header delta len buffer m = do {
     m \<leftarrow> put_byte buffer 0 (push_bit 4 (coap_option_nibble delta) OR coap_option_nibble len) m;
     (written, m) \<leftarrow> put_extended delta 0 buffer m;
     (written, m) \<leftarrow> put_extended len written buffer m;
     Some (written + 1, m)
   }"

text \<open>\<open>if (mask & value) { buffer[i] = v; i++; }\<close>\<close>

definition put_if :: "bool \<Rightarrow> ptr \<Rightarrow> u8 \<Rightarrow> nat \<times> mem \<Rightarrow> (nat \<times> mem) option" where
  "put_if c buffer v = (\<lambda>(i, m).
     if c then do { m \<leftarrow> put_byte buffer i v m; Some (i + 1, m) } else Some (i, m))"

definition coap_serialize_int_option ::
  "nat \<Rightarrow> nat \<Rightarrow> ptr \<Rightarrow> u32 \<Rightarrow> mem \<Rightarrow> (nat \<times> mem) option" where
  "coap_serialize_int_option number current_number buffer v m =
     (let i = (if 0xFF000000 AND v \<noteq> 0 then 1 else 0) + (if 0xFFFF0000 AND v \<noteq> 0 then 1 else 0) +
              (if 0xFFFFFF00 AND v \<noteq> 0 then 1 else 0) + (if 0xFFFFFFFF AND v \<noteq> 0 then 1 else 0)
      in do {
        st \<leftarrow> coap_set_option_header (number_delta number current_number) i buffer m;
        st \<leftarrow> put_if (0xFF000000 AND v \<noteq> 0) buffer (ucast (drop_bit 24 v)) st;
        st \<leftarrow> put_if (0xFFFF0000 AND v \<noteq> 0) buffer (ucast (drop_bit 16 v)) st;
        st \<leftarrow> put_if (0xFFFFFF00 AND v \<noteq> 0) buffer (ucast (drop_bit 8 v)) st;
        put_if (0xFFFFFFFF AND v \<noteq> 0) buffer (ucast v) st
      })"

text \<open>\<open>memcpy(&buffer[i], array, length)\<close> under \<open>if (buffer)\<close>.\<close>

definition copy_if :: "ptr \<Rightarrow> nat \<Rightarrow> ptr \<Rightarrow> nat \<Rightarrow> mem \<Rightarrow> mem option" where
  "copy_if buffer i array len m =
     (if buffer = None then Some m
      else do { bs \<leftarrow> loads m array len; stores m (offset buffer i) bs })"

text \<open>The loop over the parts between the separators; \<open>part_start\<close> is an index into the array.\<close>

function serialize_parts ::
  "nat \<Rightarrow> ptr \<Rightarrow> ptr \<Rightarrow> nat \<Rightarrow> u8 \<Rightarrow> nat \<Rightarrow> nat \<Rightarrow> nat \<Rightarrow> nat \<Rightarrow> mem \<Rightarrow> (nat \<times> mem) option" where
  "serialize_parts number buffer array len split_char j part_start current_number i m =
     (if j \<le> len + 1 then
        (case load m (offset array j) of
           None \<Rightarrow> None
         | Some c \<Rightarrow>
             (if c = split_char \<or> j = len then
                (case coap_set_option_header (number_delta number current_number) (j - part_start)
                        (offset buffer i) m of
                   None \<Rightarrow> None
                 | Some (h, m1) \<Rightarrow>
                     (case copy_if buffer (i + h) (offset array part_start) (j - part_start) m1 of
                        None \<Rightarrow> None
                      | Some m2 \<Rightarrow>
                          serialize_parts number buffer array len split_char (j + 2) (j + 1) number
                            (i + h + (j - part_start)) m2))
              else serialize_parts number buffer array len split_char (j + 1) part_start current_number i m))
      else Some (i, m))"
  by pat_completeness auto
termination
  by (relation "measure (\<lambda>(number, buffer, array, len, split_char, j, _). len + 2 - j)") auto

declare serialize_parts.simps [simp del]

definition coap_serialize_array_option ::
  "nat \<Rightarrow> nat \<Rightarrow> ptr \<Rightarrow> ptr \<Rightarrow> nat \<Rightarrow> u8 \<Rightarrow> mem \<Rightarrow> (nat \<times> mem) option" where
  "coap_serialize_array_option number current_number buffer array len split_char m =
     (if split_char = 0 then do {
        (i, m) \<leftarrow> coap_set_option_header (number_delta number current_number) len buffer m;
        m \<leftarrow> copy_if buffer i array len m;
        Some (i + len, m)
      } else serialize_parts number buffer array len split_char 0 0 current_number 0 m)"

subsection \<open>The serializer of a packet\<close>

text \<open>
  The state of \<open>coap_serialize_options\<close>: \<open>option_length\<close>, \<open>current_number\<close> and the memory; the pointer
  \<open>option\<close> is always \<open>option_array + option_length\<close>.
\<close>

type_synonym ser_state = "nat \<times> nat \<times> mem"

definition COAP_SERIALIZE_INT_OPTION ::
  "coap_packet \<Rightarrow> nat \<Rightarrow> u32 \<Rightarrow> ptr \<Rightarrow> ser_state \<Rightarrow> ser_state option" where
  "COAP_SERIALIZE_INT_OPTION p number v option_array = (\<lambda>(option_length, current_number, m).
     if IS_OPTION p number then do {
       (n, m) \<leftarrow> coap_serialize_int_option number current_number (offset option_array option_length) v m;
       Some (option_length + n, number, m)
     } else Some (option_length, current_number, m))"

text \<open>\<open>COAP_SERIALIZE_STRING_OPTION\<close>.\<close>

definition COAP_SERIALIZE_STRING_OPTION ::
  "coap_packet \<Rightarrow> nat \<Rightarrow> ptr \<Rightarrow> nat \<Rightarrow> u8 \<Rightarrow> ptr \<Rightarrow> ser_state \<Rightarrow> ser_state option" where
  "COAP_SERIALIZE_STRING_OPTION p number s len splitter option_array = (\<lambda>(option_length, current_number, m).
     if IS_OPTION p number then do {
       (n, m) \<leftarrow> coap_serialize_array_option number current_number (offset option_array option_length)
                   s len splitter m;
       Some (option_length + n, number, m)
     } else Some (option_length, current_number, m))"

text \<open>
  \<open>COAP_SERIALIZE_BYTE_OPTION\<close> reads an array inside the packet, which is a value of the model, so
  the bytes are written directly.
\<close>

definition COAP_SERIALIZE_BYTE_OPTION ::
  "coap_packet \<Rightarrow> nat \<Rightarrow> bytes \<Rightarrow> nat \<Rightarrow> ptr \<Rightarrow> ser_state \<Rightarrow> ser_state option" where
  "COAP_SERIALIZE_BYTE_OPTION p number bs len option_array = (\<lambda>(option_length, current_number, m).
     if IS_OPTION p number then do {
       (i, m) \<leftarrow> coap_set_option_header (number_delta number current_number) len
                   (offset option_array option_length) m;
       m \<leftarrow> emit (offset option_array (option_length + i)) (take len bs) m;
       Some (option_length + (i + len), number, m)
     } else Some (option_length, current_number, m))"

definition COAP_SERIALIZE_BLOCK_OPTION ::
  "coap_packet \<Rightarrow> nat \<Rightarrow> u32 \<Rightarrow> u8 \<Rightarrow> u16 \<Rightarrow> ptr \<Rightarrow> ser_state \<Rightarrow> ser_state option" where
  "COAP_SERIALIZE_BLOCK_OPTION p number num mr sz option_array =
     COAP_SERIALIZE_INT_OPTION p number (coap_options_block_encode num mr sz) option_array"

definition when_set :: "bool \<Rightarrow> ('s \<Rightarrow> 's option) \<Rightarrow> 's \<Rightarrow> 's option" where
  "when_set c f s = (if c then f s else Some s)"

definition finish_options :: "ser_state \<Rightarrow> (nat \<times> mem) option" where
  "finish_options st = (case st of (option_length, current_number, m) \<Rightarrow> Some (option_length, m))"

definition coap_serialize_signal_options ::
  "coap_packet \<Rightarrow> ptr \<Rightarrow> mem \<Rightarrow> (nat \<times> mem) option" where
  "coap_serialize_signal_options p option_array m =
     (if p_code p = CSM_7_01 then do {
        st \<leftarrow> Some (0, 0, m);
        st \<leftarrow> when_set True (COAP_SERIALIZE_INT_OPTION p COAP_SIGNAL_OPTION_MAX_MSG_SIZE
                (p_max_msg_size p) option_array) st;
        st \<leftarrow> when_set (p_blockwise_transfer p \<noteq> 0) (COAP_SERIALIZE_INT_OPTION p COAP_SIGNAL_OPTION_BLOCKWISE_TRANSFER
                (ucast (p_blockwise_transfer p) - ucast (p_blockwise_transfer p)) option_array) st;
        finish_options st
      } else if p_code p = PING_7_02 \<or> p_code p = PONG_7_03 then do {
        st \<leftarrow> Some (0, 0, m);
        st \<leftarrow> when_set (p_custody p \<noteq> 0) (COAP_SERIALIZE_INT_OPTION p COAP_SIGNAL_OPTION_CUSTODY
                (ucast (p_custody p) - ucast (p_custody p)) option_array) st;
        finish_options st
      } else if p_code p = RELEASE_7_04 then do {
        st \<leftarrow> Some (0, 0, m);
        st \<leftarrow> when_set True (COAP_SERIALIZE_STRING_OPTION p COAP_SIGNAL_OPTION_ALT_ADDR
                (p_alt_addr p) (p_alt_addr_len p) 0 option_array) st;
        st \<leftarrow> when_set True (COAP_SERIALIZE_INT_OPTION p COAP_SIGNAL_OPTION_HOLD_OFF
                (p_hold_off p) option_array) st;
        finish_options st
      } else if p_code p = ABORT_7_05 then do {
        st \<leftarrow> Some (0, 0, m);
        st \<leftarrow> when_set True (COAP_SERIALIZE_INT_OPTION p COAP_SIGNAL_OPTION_BAD_CSM
                (ucast (p_bad_csm_opt p)) option_array) st;
        finish_options st
      } else Some (0, m))"

definition coap_serialize_accept_option ::
  "coap_cfg \<Rightarrow> u16 \<Rightarrow> nat \<Rightarrow> ptr \<Rightarrow> mem \<Rightarrow> (nat \<times> mem) option" where
  "coap_serialize_accept_option cfg accept current_number buffer m =
     (if unat accept = APPLICATION_VND_OCF_CBOR
      then coap_serialize_int_option OCF_OPTION_ACCEPT_CONTENT_FORMAT_VER current_number buffer
             (of_nat OCF_VER_1_0_0) m
      else if oc_spec_ver_oic cfg \<and> unat accept = APPLICATION_CBOR
      then coap_serialize_int_option OCF_OPTION_ACCEPT_CONTENT_FORMAT_VER current_number buffer
             (of_nat OIC_VER_1_1_0) m
      else Some (0, m))"

definition coap_serialize_content_format_option ::
  "coap_cfg \<Rightarrow> u16 \<Rightarrow> nat \<Rightarrow> ptr \<Rightarrow> mem \<Rightarrow> (nat \<times> mem) option" where
  "coap_serialize_content_format_option cfg content_format current_number buffer m =
     (if unat content_format = APPLICATION_VND_OCF_CBOR
      then coap_serialize_int_option OCF_OPTION_CONTENT_FORMAT_VER current_number buffer
             (of_nat OCF_VER_1_0_0) m
      else if oc_spec_ver_oic cfg \<and> unat content_format = APPLICATION_CBOR
      then coap_serialize_int_option OCF_OPTION_CONTENT_FORMAT_VER current_number buffer
             (of_nat OIC_VER_1_1_0) m
      else Some (0, m))"

text \<open>
  The last two blocks of \<open>coap_serialize_options\<close>. The first one sets \<open>current_number\<close> also when no
  option has been written.
\<close>

definition accept_version_step :: "coap_cfg \<Rightarrow> u16 \<Rightarrow> ptr \<Rightarrow> ser_state \<Rightarrow> ser_state option" where
  "accept_version_step cfg a option_array = (\<lambda>(option_length, current_number, m). do {
     (n, m) \<leftarrow> coap_serialize_accept_option cfg a current_number (offset option_array option_length) m;
     Some (option_length + n, OCF_OPTION_ACCEPT_CONTENT_FORMAT_VER, m) })"

definition content_version_step :: "coap_cfg \<Rightarrow> u16 \<Rightarrow> ptr \<Rightarrow> ser_state \<Rightarrow> ser_state option" where
  "content_version_step cfg f option_array = (\<lambda>(option_length, current_number, m). do {
     (n, m) \<leftarrow> coap_serialize_content_format_option cfg f current_number (offset option_array option_length) m;
     Some (option_length + n, current_number, m) })"

definition coap_serialize_options ::
  "coap_cfg \<Rightarrow> coap_packet \<Rightarrow> ptr \<Rightarrow> bool \<Rightarrow> bool \<Rightarrow> bool \<Rightarrow> mem \<Rightarrow> (nat \<times> mem) option" where
  "coap_serialize_options cfg p option_array inner outer oscore m =
     (if coap_check_signal_message (p_code p) then coap_serialize_signal_options p option_array m
      else do {
        st \<leftarrow> Some (0, 0, m);
        st \<leftarrow> when_set outer (COAP_SERIALIZE_STRING_OPTION p COAP_OPTION_URI_HOST
                (p_uri_host p) (p_uri_host_len p) 0 option_array) st;
        st \<leftarrow> when_set inner (COAP_SERIALIZE_BYTE_OPTION p COAP_OPTION_ETAG
                (p_etag p) (p_etag_len p) option_array) st;
        st \<leftarrow> when_set True (COAP_SERIALIZE_INT_OPTION p COAP_OPTION_OBSERVE (p_observe p) option_array) st;
        st \<leftarrow> when_set outer (COAP_SERIALIZE_INT_OPTION p COAP_OPTION_URI_PORT
                (ucast (p_uri_port p)) option_array) st;
        st \<leftarrow> when_set inner (COAP_SERIALIZE_STRING_OPTION p COAP_OPTION_URI_PATH
                (p_uri_path p) (p_uri_path_len p) 0x2F option_array) st;
        st \<leftarrow> when_set inner (COAP_SERIALIZE_INT_OPTION p COAP_OPTION_CONTENT_FORMAT
                (ucast (p_content_format p)) option_array) st;
        st \<leftarrow> when_set outer (COAP_SERIALIZE_INT_OPTION p COAP_OPTION_MAX_AGE
                (p_max_age p) option_array) st;
        st \<leftarrow> when_set inner (COAP_SERIALIZE_STRING_OPTION p COAP_OPTION_URI_QUERY
                (p_uri_query p) (p_uri_query_len p) 0x26 option_array) st;
        st \<leftarrow> when_set inner (COAP_SERIALIZE_INT_OPTION p COAP_OPTION_ACCEPT
                (ucast (p_accept p)) option_array) st;
        st \<leftarrow> when_set inner (COAP_SERIALIZE_BLOCK_OPTION p COAP_OPTION_BLOCK2
                (p_block2_num p) (p_block2_more p) (p_block2_size p) option_array) st;
        st \<leftarrow> when_set inner (COAP_SERIALIZE_BLOCK_OPTION p COAP_OPTION_BLOCK1
                (p_block1_num p) (p_block1_more p) (p_block1_size p) option_array) st;
        st \<leftarrow> when_set inner (COAP_SERIALIZE_INT_OPTION p COAP_OPTION_SIZE2 (p_size2 p) option_array) st;
        st \<leftarrow> when_set outer (COAP_SERIALIZE_STRING_OPTION p COAP_OPTION_PROXY_URI
                (p_proxy_uri p) (p_proxy_uri_len p) 0 option_array) st;
        st \<leftarrow> when_set inner (COAP_SERIALIZE_INT_OPTION p COAP_OPTION_SIZE1 (p_size1 p) option_array) st;
        st \<leftarrow> when_set (inner \<and> IS_OPTION p COAP_OPTION_ACCEPT)
                (accept_version_step cfg (p_accept p) option_array) st;
        st \<leftarrow> when_set (inner \<and> IS_OPTION p COAP_OPTION_CONTENT_FORMAT)
                (content_version_step cfg (p_content_format p) option_array) st;
        finish_options st
      })"

subsection \<open>The wire format\<close>

definition ext_bytes :: "nat \<Rightarrow> bytes" where
  "ext_bytes v =
     (if v > 268 then [of_nat ((v - 269) div 256), of_nat (v - 269)]
      else if v > 12 then [of_nat (v - 13)] else [])"

definition option_header :: "nat \<Rightarrow> nat \<Rightarrow> bytes" where
  "option_header d l =
     (push_bit 4 (coap_option_nibble d) OR coap_option_nibble l) # ext_bytes d @ ext_bytes l"

fun enc_opts :: "nat \<Rightarrow> (nat \<times> bytes) list \<Rightarrow> bytes" where
  "enc_opts cur [] = []"
| "enc_opts cur ((n, v) # os) = option_header (n - cur) (length v) @ v @ enc_opts n os"

definition last_num :: "nat \<Rightarrow> (nat \<times> bytes) list \<Rightarrow> nat" where
  "last_num cur os = (if os = [] then cur else fst (last os))"

definition int_bytes :: "u32 \<Rightarrow> bytes" where
  "int_bytes v =
     (if 0xFF000000 AND v \<noteq> 0 then [ucast (drop_bit 24 v)] else []) @
     (if 0xFFFF0000 AND v \<noteq> 0 then [ucast (drop_bit 16 v)] else []) @
     (if 0xFFFFFF00 AND v \<noteq> 0 then [ucast (drop_bit 8 v)] else []) @
     (if 0xFFFFFFFF AND v \<noteq> 0 then [ucast v] else [])"

lemma last_num_simps [simp]:
  "last_num cur [] = cur" "last_num cur (xs @ ys) = last_num (last_num cur xs) ys"
  "last_num cur (x # xs) = last_num (fst x) xs"
  by (auto simp: last_num_def)

lemma enc_opts_append: "enc_opts cur (xs @ ys) = enc_opts cur xs @ enc_opts (last_num cur xs) ys"
  by (induction cur xs rule: enc_opts.induct) auto

subsection \<open>Every serializer writes its wire format\<close>

text \<open>The result of a serializer that writes the bytes \<open>bs\<close>.\<close>

definition emitted :: "ptr \<Rightarrow> bytes \<Rightarrow> mem \<Rightarrow> (nat \<times> mem) option" where
  "emitted b bs m = map_option (Pair (length bs)) (emit b bs m)"

lemma bind_map_option: "Option.bind (map_option f x) g = Option.bind x (\<lambda>y. g (f y))"
  by (cases x) auto

lemma emitted_bind:
  "Option.bind (emitted b xs m) (\<lambda>(i, m). f i m) = Option.bind (emit b xs m) (f (length xs))"
  by (simp add: emitted_def bind_map_option)

lemma emit_map_seq:
  "n = length xs \<Longrightarrow> Option.bind (emit b xs m) (\<lambda>m. map_option g (emit (offset b n) ys m)) =
   map_option g (emit b (xs @ ys) m)"
  by (cases "emit b xs m") (auto simp: emit_append)

lemma put_extended_emit:
  "put_extended v w b m = map_option (Pair (w + length (ext_bytes v))) (emit (offset b (Suc w)) (ext_bytes v) m)"
proof (cases "v > 268")
  case True
  have "emit (offset b (Suc w)) (ext_bytes v) m =
    Option.bind (emit (offset b (Suc w)) [of_nat ((v - 269) div 256)] m) (emit (offset b (w + 2)) [of_nat (v - 269)])"
    using True emit_append [of "offset b (Suc w)" "[of_nat ((v - 269) div 256)]" "[of_nat (v - 269)]" m]
    by (simp add: ext_bytes_def)
  with True show ?thesis
    by (cases "emit (offset b (Suc w)) [of_nat ((v - 269) div 256)] m")
       (auto simp: put_extended_def put_byte_def ext_bytes_def map_conv_bind_option comp_def)
next
  case False
  then show ?thesis
    by (auto simp: put_extended_def put_byte_def ext_bytes_def map_conv_bind_option comp_def)
qed

lemma coap_set_option_header_emit:
  "coap_set_option_header d l b m = emitted b (option_header d l) m"
proof -
  have "emit b (option_header d l) m =
    Option.bind (emit b [push_bit 4 (coap_option_nibble d) OR coap_option_nibble l] m)
      (\<lambda>m. Option.bind (emit (offset b 1) (ext_bytes d) m)
        (emit (offset b (1 + length (ext_bytes d))) (ext_bytes l)))"
    using emit_append [of b "[push_bit 4 (coap_option_nibble d) OR coap_option_nibble l]" "ext_bytes d @ ext_bytes l" m]
    by (cases "emit b [push_bit 4 (coap_option_nibble d) OR coap_option_nibble l] m")
       (simp_all add: option_header_def emit_append)
  then show ?thesis
    by (simp add: coap_set_option_header_def emitted_def put_extended_emit put_byte_def bind_map_option
        option_header_def map_conv_bind_option comp_def)
qed

lemma put_if_emit:
  "Option.bind (emitted b xs m) (put_if c b v) = emitted b (xs @ (if c then [v] else [])) m"
  by (cases "emit b xs m") (auto simp: emitted_def put_if_def put_byte_def emit_append map_conv_bind_option comp_def)

lemma put_if_emit_bind:
  "Option.bind (emitted b xs m) (\<lambda>st. Option.bind (put_if c b v st) f) =
   Option.bind (emitted b (xs @ (if c then [v] else [])) m) f"
  by (simp add: put_if_emit [symmetric])

lemma number_delta_le: "number_delta n cur = n - cur" if "cur \<le> n" "n < 2 ^ 32"
proof -
  have "n + 2 ^ 32 - cur = (n - cur) + 2 ^ 32"
    using that by simp
  then have "number_delta n cur = ((n - cur) + 2 ^ 32) mod 2 ^ 32"
    unfolding number_delta_def by (rule arg_cong)
  also have "\<dots> = n - cur"
    using that by (simp only: mod_add_self2) simp
  finally show ?thesis .
qed

lemma length_int_bytes:
  "length (int_bytes v) = (if 0xFF000000 AND v \<noteq> 0 then 1 else 0) + (if 0xFFFF0000 AND v \<noteq> 0 then 1 else 0) +
     (if 0xFFFFFF00 AND v \<noteq> 0 then 1 else 0) + (if 0xFFFFFFFF AND v \<noteq> 0 then 1 else 0)"
  by (simp add: int_bytes_def)

lemma coap_serialize_int_option_emit:
  assumes "cur \<le> n" and "n < 2 ^ 32"
  shows "coap_serialize_int_option n cur b v m = emitted b (enc_opts cur [(n, int_bytes v)]) m"
  unfolding coap_serialize_int_option_def coap_set_option_header_emit number_delta_le [OF assms] Let_def
    length_int_bytes [symmetric] put_if_emit_bind put_if_emit
  by (simp only: int_bytes_def append_assoc enc_opts.simps append_Nil2)

subsection \<open>Strings\<close>

definition separate :: "ptr \<Rightarrow> ptr \<Rightarrow> bool" where
  "separate q p \<longleftrightarrow> q = None \<or> p = None \<or> block q \<noteq> block p"

lemma separate_offset [simp]: "separate q (offset p n) \<longleftrightarrow> separate q p" "separate (offset q n) p \<longleftrightarrow> separate q p"
  by (simp_all add: separate_def)

lemma loads_emit_separate:
  "separate q p \<Longrightarrow> emit p vs m = Some m' \<Longrightarrow> loads m' q n = loads m q n"
  by (cases "p = None") (auto simp: separate_def intro: loads_emit)

lemma copy_if_emit: "loads m array len = Some bs \<Longrightarrow> copy_if b i array len m = emit (offset b i) bs m"
  by (simp add: copy_if_def emit_def)

lemma coap_serialize_array_option_whole:
  assumes "cur \<le> n" "n < 2 ^ 32" "loads m array len = Some bs" "separate array b"
  shows "coap_serialize_array_option n cur b array len 0 m = emitted b (enc_opts cur [(n, bs)]) m"
proof -
  have len: "len = length bs"
    using length_loads [OF assms(3)] by simp
  show ?thesis
  proof (cases "emit b (option_header (n - cur) len) m")
    case None
    then show ?thesis
      by (simp add: coap_serialize_array_option_def coap_set_option_header_emit number_delta_le [OF assms(1,2)]
          emitted_def emit_append len)
  next
    case (Some m1)
    then have "loads m1 array len = Some bs"
      using loads_emit_separate [OF assms(4)] assms(3) by metis
    with Some show ?thesis
      by (simp add: coap_serialize_array_option_def coap_set_option_header_emit number_delta_le [OF assms(1,2)]
          emitted_def emit_append len copy_if_emit map_conv_bind_option comp_def)
  qed
qed

fun join_bytes :: "u8 \<Rightarrow> bytes list \<Rightarrow> bytes" where
  "join_bytes c [] = []"
| "join_bytes c [s] = s"
| "join_bytes c (s # t # ss) = s @ c # join_bytes c (t # ss)"

lemma serialize_parts_scan:
  assumes "loads m array (Suc len) = Some bs" and "j \<le> e" and "e \<le> len"
    and "\<forall>t. j \<le> t \<and> t < e \<longrightarrow> bs ! t \<noteq> c"
  shows "serialize_parts n b array len c j ps cur i m = serialize_parts n b array len c e ps cur i m"
  using assms(2-4)
proof (induction "e - j" arbitrary: j)
  case (Suc k)
  then have "load m (offset array j) = Some (bs ! j)" "bs ! j \<noteq> c" "j \<noteq> len"
    using load_nth [OF assms(1), of j] by auto
  with Suc show ?case
    by (subst serialize_parts.simps) simp
qed simp

lemma serialize_parts_part:
  assumes "loads m array (Suc len) = Some bs" and "separate array b" and "ps \<le> e" and "e \<le> len"
    and "bs ! e = c \<or> e = len"
  shows "serialize_parts n b array len c e ps cur i m =
    Option.bind (emit (offset b i) (option_header (number_delta n cur) (e - ps) @ bslice bs ps (e - ps)) m)
      (\<lambda>m. serialize_parts n b array len c (e + 2) (e + 1) n
             (i + length (option_header (number_delta n cur) (e - ps)) + (e - ps)) m)"
proof -
  let ?h = "option_header (number_delta n cur) (e - ps)"
  have l: "load m (offset array e) = Some (bs ! e)"
    using load_nth [OF assms(1), of e] assms(4) by simp
  show ?thesis
  proof (cases "emit (offset b i) ?h m")
    case None
    then show ?thesis
      using l assms(4,5) by (subst serialize_parts.simps) (auto simp: coap_set_option_header_emit emitted_def emit_append)
  next
    case (Some m1)
    have "loads m1 (offset array ps) (e - ps) = Some (bslice bs ps (e - ps))"
      using loads_emit_separate [OF _ Some, of "offset array ps"] assms(2)
        loads_part [OF assms(1), of ps "e - ps"] assms(3,4) by simp
    then show ?thesis
      using l assms(4,5) Some
      by (subst serialize_parts.simps)
         (auto simp: coap_set_option_header_emit emitted_def emit_append copy_if_emit split: option.splits)
  qed
qed

lemma emit_enc_opts_Cons:
  "emit b (enc_opts cur ((n, v) # os)) m =
   Option.bind (emit b (option_header (n - cur) (length v) @ v) m)
     (emit (offset b (length (option_header (n - cur) (length v)) + length v)) (enc_opts n os))"
  using emit_append [of b "option_header (n - cur) (length v) @ v" "enc_opts n os" m] by simp

lemma serialize_parts_segs:
  assumes "loads m array (Suc len) = Some bs" and "separate array b" and "segs \<noteq> []"
    and "bs = pre @ join_bytes c segs @ [x]" and "length bs = Suc len" and "cur \<le> n" and "n < 2 ^ 32"
    and "\<forall>s \<in> set segs. c \<notin> set s" and "\<forall>s \<in> set (tl segs). s \<noteq> []"
    and "j = length pre \<or> (j = Suc (length pre) \<and> hd segs \<noteq> [])"
  shows "serialize_parts n b array len c j (length pre) cur i m =
    map_option (Pair (i + length (enc_opts cur (map (Pair n) segs)))) (emit (offset b i) (enc_opts cur (map (Pair n) segs)) m)"
  using assms
proof (induction c segs arbitrary: pre j cur i m rule: join_bytes.induct)
  case (2 c s)
  let ?e = "length pre + length s"
  have e: "?e = len"
    using 2 by simp
  have je: "length pre \<le> ?e" "j \<le> ?e"
    using 2(10) by (auto intro: Suc_leI)
  have scan: "\<forall>t. j \<le> t \<and> t < ?e \<longrightarrow> bs ! t \<noteq> c"
    using 2(4,8,10) by (auto simp: nth_append)
  have sl: "bslice bs (length pre) (length s) = s"
    using 2(4) by (simp add: bslice_def)
  have stop: "serialize_parts n b array len c (?e + 2) (?e + 1) n k m' = Some (k, m')" for k m'
    by (subst serialize_parts.simps) (simp add: e)
  have "serialize_parts n b array len c j (length pre) cur i m =
    Option.bind (emit (offset b i) (option_header (n - cur) (length s) @ s) m)
      (\<lambda>m. serialize_parts n b array len c (?e + 2) (?e + 1) n
         (i + length (option_header (n - cur) (length s)) + length s) m)"
    using serialize_parts_scan [OF 2(1) je(2) _ scan] serialize_parts_part [OF 2(1,2) je(1) _ disjI2 [OF e]]
      2(6,7) eq_imp_le [OF e] by (simp add: sl number_delta_le)
  then show ?case
    unfolding stop by (simp add: map_conv_bind_option comp_def add.assoc)
next
  case (3 c s t ss)
  let ?e = "length pre + length s"
  let ?pre = "pre @ s @ [c]"
  have e: "?e < len"
    using 3(5,6) by (cases "t # ss" rule: list.exhaust; cases ss) auto
  have je: "length pre \<le> ?e" "j \<le> ?e"
    using 3(11) by (auto intro: Suc_leI)
  have scan: "\<forall>t. j \<le> t \<and> t < ?e \<longrightarrow> bs ! t \<noteq> c"
    using 3(5,9,11) by (auto simp: nth_append)
  have sl: "bslice bs (length pre) (length s) = s"
    using 3(5) by (simp add: bslice_def)
  have be: "bs ! ?e = c"
    using 3(5) by (simp add: nth_append)
  have step: "serialize_parts n b array len c j (length pre) cur i m =
    Option.bind (emit (offset b i) (option_header (n - cur) (length s) @ s) m)
      (\<lambda>m. serialize_parts n b array len c (?e + 2) (?e + 1) n
         (i + length (option_header (n - cur) (length s)) + length s) m)"
    using serialize_parts_scan [OF 3(2) je(2) _ scan] serialize_parts_part [OF 3(2,3) je(1) _ disjI1 [OF be]] 3(7,8) e
    by (simp add: sl number_delta_le)
  show ?case
  proof (cases "emit (offset b i) (option_header (n - cur) (length s) @ s) m")
    case None
    then show ?thesis
      by (simp add: step emit_enc_opts_Cons del: enc_opts.simps)
  next
    case (Some m1)
    have "loads m1 array (Suc len) = Some bs"
      using loads_emit_separate [OF _ Some, of array] 3(2,3) by simp
    then have "serialize_parts n b array len c (Suc (length ?pre)) (length ?pre) n
        (i + length (option_header (n - cur) (length s)) + length s) m1 =
      map_option (Pair (i + length (option_header (n - cur) (length s)) + length s + length (enc_opts n (map (Pair n) (t # ss)))))
        (emit (offset b (i + length (option_header (n - cur) (length s)) + length s)) (enc_opts n (map (Pair n) (t # ss))) m1)"
      using 3(3-10) by (intro 3(1)) auto
    with Some show ?thesis
      by (simp add: step emit_enc_opts_Cons add.assoc del: enc_opts.simps) (simp add: add.assoc)
  qed
qed simp

lemma coap_serialize_array_option_split:
  assumes "cur \<le> n" "n < 2 ^ 32" "loads m array (Suc len) = Some (join_bytes c segs @ [x])" "separate array b"
    and "c \<noteq> 0" "segs \<noteq> []" "\<forall>s \<in> set segs. c \<notin> set s" "\<forall>s \<in> set (tl segs). s \<noteq> []"
  shows "coap_serialize_array_option n cur b array len c m = emitted b (enc_opts cur (map (Pair n) segs)) m"
  using serialize_parts_segs [OF assms(3,4,6) _ length_loads [OF assms(3)] assms(1,2,7,8), of "[]" x 0 0] assms(5)
  by (simp add: coap_serialize_array_option_def emitted_def)

subsection \<open>The options of a packet\<close>

text \<open>The contents of the strings that a packet points to; path and query as their segments.\<close>

record packet_strings =
  ps_host :: bytes
  ps_path :: "bytes list"
  ps_query :: "bytes list"
  ps_proxy :: bytes
  ps_alt_addr :: bytes

text \<open>Non-empty segments without separator; the empty string is the single empty segment.\<close>

definition segments :: "u8 \<Rightarrow> bytes list \<Rightarrow> bool" where
  "segments c ss \<longleftrightarrow> ss \<noteq> [] \<and> (\<forall>s \<in> set ss. c \<notin> set s) \<and> (\<forall>s \<in> set (tl ss). s \<noteq> []) \<and>
     (hd ss = [] \<longrightarrow> tl ss = [])"

definition reads_string :: "mem \<Rightarrow> ptr \<Rightarrow> ptr \<Rightarrow> nat \<Rightarrow> bytes \<Rightarrow> bool" where
  "reads_string m b s len bs \<longleftrightarrow> loads m s len = Some bs \<and> separate s b"

definition reads_segments :: "mem \<Rightarrow> ptr \<Rightarrow> ptr \<Rightarrow> nat \<Rightarrow> u8 \<Rightarrow> bytes list \<Rightarrow> bool" where
  "reads_segments m b s len c ss \<longleftrightarrow>
     segments c ss \<and> separate s b \<and> (\<exists>x. loads m s (Suc len) = Some (join_bytes c ss @ [x]))"

definition reads_strings :: "mem \<Rightarrow> ptr \<Rightarrow> coap_packet \<Rightarrow> packet_strings \<Rightarrow> bool" where
  "reads_strings m b p ss \<longleftrightarrow>
     (IS_OPTION p COAP_OPTION_URI_HOST \<longrightarrow> reads_string m b (p_uri_host p) (p_uri_host_len p) (ps_host ss)) \<and>
     (IS_OPTION p COAP_OPTION_URI_PATH \<longrightarrow> reads_segments m b (p_uri_path p) (p_uri_path_len p) 0x2F (ps_path ss)) \<and>
     (IS_OPTION p COAP_OPTION_URI_QUERY \<longrightarrow> reads_segments m b (p_uri_query p) (p_uri_query_len p) 0x26 (ps_query ss)) \<and>
     (IS_OPTION p COAP_OPTION_PROXY_URI \<longrightarrow> reads_string m b (p_proxy_uri p) (p_proxy_uri_len p) (ps_proxy ss)) \<and>
     (p_code p = RELEASE_7_04 \<and> IS_OPTION p COAP_SIGNAL_OPTION_ALT_ADDR \<longrightarrow>
       reads_string m b (p_alt_addr p) (p_alt_addr_len p) (ps_alt_addr ss))"

definition opts_if :: "bool \<Rightarrow> (nat \<times> bytes) list \<Rightarrow> (nat \<times> bytes) list" where
  "opts_if c os = (if c then os else [])"

text \<open>The version option that goes with a content format.\<close>

definition version_option :: "coap_cfg \<Rightarrow> nat \<Rightarrow> u16 \<Rightarrow> (nat \<times> bytes) list" where
  "version_option cfg n format =
     (if unat format = APPLICATION_VND_OCF_CBOR then [(n, int_bytes (of_nat OCF_VER_1_0_0))]
      else if oc_spec_ver_oic cfg \<and> unat format = APPLICATION_CBOR then [(n, int_bytes (of_nat OIC_VER_1_1_0))]
      else [])"

definition numbered_options ::
  "coap_packet \<Rightarrow> packet_strings \<Rightarrow> bool \<Rightarrow> bool \<Rightarrow> (nat \<times> bytes) list" where
  "numbered_options p ss inner outer =
     (let opt = (\<lambda>c n v. opts_if (c \<and> IS_OPTION p n) [(n, v)]);
          opts = (\<lambda>c n vs. opts_if (c \<and> IS_OPTION p n) (map (Pair n) vs)) in
     opt outer COAP_OPTION_URI_HOST (ps_host ss) @
     opt inner COAP_OPTION_ETAG (take (p_etag_len p) (p_etag p)) @
     opt True COAP_OPTION_OBSERVE (int_bytes (p_observe p)) @
     opt outer COAP_OPTION_URI_PORT (int_bytes (ucast (p_uri_port p))) @
     opts inner COAP_OPTION_URI_PATH (ps_path ss) @
     opt inner COAP_OPTION_CONTENT_FORMAT (int_bytes (ucast (p_content_format p))) @
     opt outer COAP_OPTION_MAX_AGE (int_bytes (p_max_age p)) @
     opts inner COAP_OPTION_URI_QUERY (ps_query ss) @
     opt inner COAP_OPTION_ACCEPT (int_bytes (ucast (p_accept p))) @
     opt inner COAP_OPTION_BLOCK2
       (int_bytes (coap_options_block_encode (p_block2_num p) (p_block2_more p) (p_block2_size p))) @
     opt inner COAP_OPTION_BLOCK1
       (int_bytes (coap_options_block_encode (p_block1_num p) (p_block1_more p) (p_block1_size p))) @
     opt inner COAP_OPTION_SIZE2 (int_bytes (p_size2 p)) @
     opt outer COAP_OPTION_PROXY_URI (ps_proxy ss) @
     opt inner COAP_OPTION_SIZE1 (int_bytes (p_size1 p)))"

definition packet_options ::
  "coap_cfg \<Rightarrow> coap_packet \<Rightarrow> packet_strings \<Rightarrow> bool \<Rightarrow> bool \<Rightarrow> (nat \<times> bytes) list" where
  "packet_options cfg p ss inner outer =
     numbered_options p ss inner outer @
     opts_if (inner \<and> IS_OPTION p COAP_OPTION_ACCEPT)
       (version_option cfg OCF_OPTION_ACCEPT_CONTENT_FORMAT_VER (p_accept p)) @
     opts_if (inner \<and> IS_OPTION p COAP_OPTION_CONTENT_FORMAT)
       (version_option cfg OCF_OPTION_CONTENT_FORMAT_VER (p_content_format p))"

definition signal_options :: "coap_packet \<Rightarrow> packet_strings \<Rightarrow> (nat \<times> bytes) list" where
  "signal_options p ss =
     (let opt = (\<lambda>c n v. opts_if (c \<and> IS_OPTION p n) [(n, v)]) in
      if p_code p = CSM_7_01 then
        opt True COAP_SIGNAL_OPTION_MAX_MSG_SIZE (int_bytes (p_max_msg_size p)) @
        opt (p_blockwise_transfer p \<noteq> 0) COAP_SIGNAL_OPTION_BLOCKWISE_TRANSFER (int_bytes 0)
      else if p_code p = PING_7_02 \<or> p_code p = PONG_7_03 then
        opt (p_custody p \<noteq> 0) COAP_SIGNAL_OPTION_CUSTODY (int_bytes 0)
      else if p_code p = RELEASE_7_04 then
        opt True COAP_SIGNAL_OPTION_ALT_ADDR (ps_alt_addr ss) @
        opt True COAP_SIGNAL_OPTION_HOLD_OFF (int_bytes (p_hold_off p))
      else if p_code p = ABORT_7_05 then
        opt True COAP_SIGNAL_OPTION_BAD_CSM (int_bytes (ucast (p_bad_csm_opt p)))
      else [])"

text \<open>
  An accept option whose format has no version must not come with a content format that has one:
  the serializer then counts the second version option from the number of the first, which it
  has not written.
\<close>

definition versions_consistent :: "coap_cfg \<Rightarrow> coap_packet \<Rightarrow> bool" where
  "versions_consistent cfg p \<longleftrightarrow>
     (IS_OPTION p COAP_OPTION_ACCEPT \<and> IS_OPTION p COAP_OPTION_CONTENT_FORMAT \<longrightarrow>
       version_option cfg OCF_OPTION_ACCEPT_CONTENT_FORMAT_VER (p_accept p) \<noteq> [] \<or>
       version_option cfg OCF_OPTION_CONTENT_FORMAT_VER (p_content_format p) = [])"

subsection \<open>The serializer writes the options of the packet\<close>

definition ser_result :: "ptr \<Rightarrow> (nat \<times> bytes) list \<Rightarrow> mem \<Rightarrow> ser_state option" where
  "ser_result b os m = map_option (\<lambda>m. (length (enc_opts 0 os), last_num 0 os, m)) (emit b (enc_opts 0 os) m)"

definition nums_le :: "nat \<Rightarrow> (nat \<times> bytes) list \<Rightarrow> bool" where
  "nums_le n os \<longleftrightarrow> (\<forall>x \<in> set os. fst x \<le> n)"

lemma nums_le_last: "nums_le n os \<Longrightarrow> last_num 0 os \<le> n"
  by (simp add: nums_le_def last_num_def)

lemma nums_le_simps [simp]:
  "nums_le n []" "nums_le n (xs @ ys) \<longleftrightarrow> nums_le n xs \<and> nums_le n ys"
  "nums_le n (opts_if c xs) \<longleftrightarrow> c \<longrightarrow> nums_le n xs"
  "nums_le n (x # xs) \<longleftrightarrow> fst x \<le> n \<and> nums_le n xs" "nums_le n (map (Pair k) vs) \<longleftrightarrow> vs = [] \<or> k \<le> n"
  by (auto simp: nums_le_def opts_if_def)

lemma ser_init: "Some (0, 0, m) = ser_result b [] m"
  by (simp add: ser_result_def)

lemma ser_step:
  assumes "\<And>m. emit b (enc_opts 0 os) m0 = Some m \<Longrightarrow>
      F (length (enc_opts 0 os), last_num 0 os, m) =
      map_option (\<lambda>m. (length (enc_opts 0 os) + length (enc_opts (last_num 0 os) xs), last_num (last_num 0 os) xs, m))
        (emit (offset b (length (enc_opts 0 os))) (enc_opts (last_num 0 os) xs) m)"
  shows "Option.bind (ser_result b os m0) (\<lambda>st. Option.bind (F st) K) = Option.bind (ser_result b (os @ xs) m0) K"
  using assms
  by (cases "emit b (enc_opts 0 os) m0") (auto simp: ser_result_def enc_opts_append emit_append)

lemma ser_step_skip:
  assumes "\<And>st. F st = Some st"
  shows "Option.bind (ser_result b os m0) (\<lambda>st. Option.bind (F st) K) = Option.bind (ser_result b os m0) K"
  by (simp add: assms)

lemma when_set_step:
  assumes "c \<Longrightarrow> Option.bind (ser_result b os m0) (\<lambda>st. Option.bind (F st) K) =
      Option.bind (ser_result b (os @ xs) m0) K"
  shows "Option.bind (ser_result b os m0) (\<lambda>st. Option.bind (when_set c F st) K) =
      Option.bind (ser_result b (os @ opts_if c xs) m0) K"
  using assms by (cases c) (simp_all add: when_set_def opts_if_def)

lemma ser_int_step:
  assumes "nums_le n os" and "n < 2 ^ 32"
  shows "Option.bind (ser_result b os m0) (\<lambda>st. Option.bind (when_set c (COAP_SERIALIZE_INT_OPTION p n v b) st) K) =
    Option.bind (ser_result b (os @ opts_if (c \<and> IS_OPTION p n) [(n, int_bytes v)]) m0) K"
proof (cases "c \<and> IS_OPTION p n")
  case True
  have "Option.bind (ser_result b os m0) (\<lambda>st. Option.bind (COAP_SERIALIZE_INT_OPTION p n v b st) K) =
    Option.bind (ser_result b (os @ [(n, int_bytes v)]) m0) K"
    using True
    by (intro ser_step) (simp add: COAP_SERIALIZE_INT_OPTION_def emitted_def bind_map_option
        coap_serialize_int_option_emit [OF nums_le_last [OF assms(1)] assms(2)] map_conv_bind_option comp_def)
  with True show ?thesis
    by (simp add: when_set_def opts_if_def)
next
  case False
  then show ?thesis
    by (cases c) (auto simp: when_set_def opts_if_def COAP_SERIALIZE_INT_OPTION_def
        intro!: ser_step_skip split: prod.splits)
qed

lemma ser_byte_step:
  assumes "nums_le n os" and "n < 2 ^ 32" and "len \<le> length bs"
  shows "Option.bind (ser_result b os m0) (\<lambda>st. Option.bind (when_set c (COAP_SERIALIZE_BYTE_OPTION p n bs len b) st) K) =
    Option.bind (ser_result b (os @ opts_if (c \<and> IS_OPTION p n) [(n, take len bs)]) m0) K"
proof (cases "c \<and> IS_OPTION p n")
  case True
  have "Option.bind (ser_result b os m0) (\<lambda>st. Option.bind (COAP_SERIALIZE_BYTE_OPTION p n bs len b st) K) =
    Option.bind (ser_result b (os @ [(n, take len bs)]) m0) K"
    using True assms(3)
    by (intro ser_step) (simp add: COAP_SERIALIZE_BYTE_OPTION_def emitted_def bind_map_option emit_append
        coap_set_option_header_emit number_delta_le [OF nums_le_last [OF assms(1)] assms(2)] map_conv_bind_option comp_def)
  with True show ?thesis
    by (simp add: when_set_def opts_if_def)
next
  case False
  then show ?thesis
    by (cases c) (auto simp: when_set_def opts_if_def COAP_SERIALIZE_BYTE_OPTION_def
        intro!: ser_step_skip split: prod.splits)
qed

lemma ser_string_step:
  assumes "nums_le n os" and "n < 2 ^ 32"
    and "IS_OPTION p n \<Longrightarrow> \<forall>m cur i. emit b (enc_opts 0 os) m0 = Some m \<and> cur \<le> n \<longrightarrow>
      coap_serialize_array_option n cur (offset b i) s len sp m = emitted (offset b i) (enc_opts cur xs) m"
    and "xs \<noteq> []" and "\<forall>x \<in> set xs. fst x = n"
  shows "Option.bind (ser_result b os m0) (\<lambda>st. Option.bind (when_set c (COAP_SERIALIZE_STRING_OPTION p n s len sp b) st) K) =
    Option.bind (ser_result b (os @ opts_if (c \<and> IS_OPTION p n) xs) m0) K"
proof (cases "c \<and> IS_OPTION p n")
  case True
  have "last_num k xs = n" for k
    using assms(4,5) by (simp add: last_num_def)
  then have "Option.bind (ser_result b os m0) (\<lambda>st. Option.bind (COAP_SERIALIZE_STRING_OPTION p n s len sp b st) K) =
    Option.bind (ser_result b (os @ xs) m0) K"
    using True assms(3) nums_le_last [OF assms(1)]
    by (intro ser_step) (auto simp: COAP_SERIALIZE_STRING_OPTION_def emitted_def bind_map_option map_conv_bind_option comp_def)
  with True show ?thesis
    by (simp add: when_set_def opts_if_def)
next
  case False
  then show ?thesis
    by (cases c) (auto simp: when_set_def opts_if_def COAP_SERIALIZE_STRING_OPTION_def
        intro!: ser_step_skip split: prod.splits)
qed

lemma ser_whole_step:
  assumes "nums_le n os" and "n < 2 ^ 32" and "IS_OPTION p n \<longrightarrow> reads_string m0 b s len bs"
  shows "Option.bind (ser_result b os m0) (\<lambda>st. Option.bind (when_set c (COAP_SERIALIZE_STRING_OPTION p n s len 0 b) st) K) =
    Option.bind (ser_result b (os @ opts_if (c \<and> IS_OPTION p n) [(n, bs)]) m0) K"
proof (rule ser_string_step [OF assms(1,2)])
  assume "IS_OPTION p n"
  then have r: "loads m0 s len = Some bs" "separate s b"
    using assms(3) by (auto simp: reads_string_def)
  show "\<forall>m cur i. emit b (enc_opts 0 os) m0 = Some m \<and> cur \<le> n \<longrightarrow>
      coap_serialize_array_option n cur (offset b i) s len 0 m = emitted (offset b i) (enc_opts cur [(n, bs)]) m"
    using loads_emit_separate [OF r(2)] r assms(2)
    by (auto intro!: coap_serialize_array_option_whole simp del: enc_opts.simps)
qed auto

lemma ser_split_step:
  assumes "nums_le n os" and "n < 2 ^ 32" and "IS_OPTION p n \<longrightarrow> reads_segments m0 b s len sp ss" and "sp \<noteq> 0"
  shows "Option.bind (ser_result b os m0) (\<lambda>st. Option.bind (when_set c (COAP_SERIALIZE_STRING_OPTION p n s len sp b) st) K) =
    Option.bind (ser_result b (os @ opts_if (c \<and> IS_OPTION p n) (map (Pair n) ss)) m0) K"
proof (cases "IS_OPTION p n")
  case True
  then obtain x where r: "loads m0 s (Suc len) = Some (join_bytes sp ss @ [x])" "separate s b" "segments sp ss"
    using assms(3) by (auto simp: reads_segments_def)
  show ?thesis
  proof (rule ser_string_step [OF assms(1,2)])
    show "\<forall>m cur i. emit b (enc_opts 0 os) m0 = Some m \<and> cur \<le> n \<longrightarrow>
        coap_serialize_array_option n cur (offset b i) s len sp m = emitted (offset b i) (enc_opts cur (map (Pair n) ss)) m"
      using loads_emit_separate [OF r(2)] r assms(2,4)
      by (auto intro!: coap_serialize_array_option_split simp: segments_def)
  qed (use r(3) in \<open>auto simp: segments_def\<close>)
next
  case False
  then show ?thesis
    by (cases c) (auto simp: when_set_def opts_if_def COAP_SERIALIZE_STRING_OPTION_def
        intro!: ser_step_skip split: prod.splits)
qed

lemma ser_block_step:
  assumes "nums_le n os" and "n < 2 ^ 32"
  shows "Option.bind (ser_result b os m0) (\<lambda>st. Option.bind (when_set c (COAP_SERIALIZE_BLOCK_OPTION p n num mr sz b) st) K) =
    Option.bind (ser_result b (os @ opts_if (c \<and> IS_OPTION p n) [(n, int_bytes (coap_options_block_encode num mr sz))]) m0) K"
  unfolding COAP_SERIALIZE_BLOCK_OPTION_def by (rule ser_int_step [OF assms])

lemma coap_serialize_accept_option_emit:
  "cur \<le> OCF_OPTION_ACCEPT_CONTENT_FORMAT_VER \<Longrightarrow> coap_serialize_accept_option cfg a cur b m =
   emitted b (enc_opts cur (version_option cfg OCF_OPTION_ACCEPT_CONTENT_FORMAT_VER a)) m"
  by (simp add: coap_serialize_accept_option_def version_option_def coap_serialize_int_option_emit
      emitted_def del: enc_opts.simps(2))

lemma coap_serialize_content_format_option_emit:
  "cur \<le> OCF_OPTION_CONTENT_FORMAT_VER \<Longrightarrow> coap_serialize_content_format_option cfg f cur b m =
   emitted b (enc_opts cur (version_option cfg OCF_OPTION_CONTENT_FORMAT_VER f)) m"
  by (simp add: coap_serialize_content_format_option_def version_option_def coap_serialize_int_option_emit
      emitted_def del: enc_opts.simps(2))

lemma last_num_version_option:
  "version_option cfg n f \<noteq> [] \<Longrightarrow> last_num k (version_option cfg n f) = n"
  by (auto simp: version_option_def split: if_splits)

lemma nums_le_version_option: "n \<le> k \<Longrightarrow> nums_le k (version_option cfg n f)"
  by (auto simp: version_option_def)

lemma ser_result_finish: "Option.bind (ser_result b os m0) finish_options = emitted b (enc_opts 0 os) m0"
  by (simp add: ser_result_def finish_options_def emitted_def bind_map_option map_conv_bind_option comp_def)

lemma ser_accept_step:
  assumes "nums_le OCF_OPTION_ACCEPT_CONTENT_FORMAT_VER os"
    and "version_option cfg OCF_OPTION_ACCEPT_CONTENT_FORMAT_VER a \<noteq> []"
  shows "Option.bind (ser_result b os m0) (\<lambda>st. Option.bind (accept_version_step cfg a b st) K) =
    Option.bind (ser_result b (os @ version_option cfg OCF_OPTION_ACCEPT_CONTENT_FORMAT_VER a) m0) K"
  by (rule ser_step)
     (simp add: accept_version_step_def coap_serialize_accept_option_emit [OF nums_le_last [OF assms(1)]]
      emitted_def bind_map_option last_num_version_option [OF assms(2)] map_conv_bind_option comp_def)

lemma ser_content_finish:
  assumes "nums_le OCF_OPTION_CONTENT_FORMAT_VER os"
  shows "Option.bind (ser_result b os m0) (\<lambda>st. Option.bind (when_set c (content_version_step cfg f b) st) finish_options) =
    emitted b (enc_opts 0 (os @ opts_if c (version_option cfg OCF_OPTION_CONTENT_FORMAT_VER f))) m0"
proof (cases c)
  case True
  then show ?thesis
    using coap_serialize_content_format_option_emit [OF nums_le_last [OF assms]]
    by (cases "emit b (enc_opts 0 os) m0")
       (auto simp: ser_result_def content_version_step_def when_set_def opts_if_def finish_options_def emitted_def
        bind_map_option enc_opts_append emit_append map_conv_bind_option comp_def)
qed (simp add: when_set_def opts_if_def ser_result_finish)

lemma ser_versions:
  assumes "nums_le OCF_OPTION_ACCEPT_CONTENT_FORMAT_VER os"
    and "c \<and> d \<longrightarrow> version_option cfg OCF_OPTION_ACCEPT_CONTENT_FORMAT_VER a \<noteq> [] \<or>
      version_option cfg OCF_OPTION_CONTENT_FORMAT_VER f = []"
  shows "Option.bind (ser_result b os m0) (\<lambda>st. Option.bind (when_set c (accept_version_step cfg a b) st)
      (\<lambda>st. Option.bind (when_set d (content_version_step cfg f b) st) finish_options)) =
    emitted b (enc_opts 0 (os @ opts_if c (version_option cfg OCF_OPTION_ACCEPT_CONTENT_FORMAT_VER a) @
      opts_if d (version_option cfg OCF_OPTION_CONTENT_FORMAT_VER f))) m0"
proof (cases "c \<and> version_option cfg OCF_OPTION_ACCEPT_CONTENT_FORMAT_VER a = []")
  case True
  then have "d \<longrightarrow> version_option cfg OCF_OPTION_CONTENT_FORMAT_VER f = []"
    using assms(2) by simp
  with True show ?thesis
    by (cases "emit b (enc_opts 0 os) m0")
       (auto simp: ser_result_def accept_version_step_def content_version_step_def when_set_def opts_if_def
        coap_serialize_accept_option_emit [OF nums_le_last [OF assms(1)]] coap_serialize_content_format_option_emit
        emitted_def finish_options_def)
next
  case False
  have le: "nums_le OCF_OPTION_CONTENT_FORMAT_VER os"
    using assms(1) by (auto simp: nums_le_def)
  show ?thesis
  proof (cases c)
    case True
    with False show ?thesis
      using ser_accept_step [OF assms(1), of cfg a b m0
          "\<lambda>st. Option.bind (when_set d (content_version_step cfg f b) st) finish_options"]
        ser_content_finish [of "os @ version_option cfg 2049 a" b m0 d cfg f]
        le nums_le_version_option [of 2049 2053 cfg a]
      by (simp add: when_set_def [of True] opts_if_def [of True])
  next
    case F: False
    then show ?thesis
      using ser_content_finish [OF le]
      by (simp add: when_set_def [of False] opts_if_def [of False])
  qed
qed

lemma coap_serialize_options_numbered:
  assumes "\<not> coap_check_signal_message (p_code p)" and "packet_wf p" and "reads_strings m b p ss"
  shows "coap_serialize_options cfg p b inner outer oscore m =
    Option.bind (ser_result b (numbered_options p ss inner outer) m)
      (\<lambda>st. Option.bind (when_set (inner \<and> IS_OPTION p COAP_OPTION_ACCEPT) (accept_version_step cfg (p_accept p) b) st)
        (\<lambda>st. Option.bind (when_set (inner \<and> IS_OPTION p COAP_OPTION_CONTENT_FORMAT)
            (content_version_step cfg (p_content_format p) b) st) finish_options))"
proof -
  have e: "p_etag_len p \<le> length (p_etag p)"
    using assms(2) by (simp add: packet_wf_def)
  have r: "IS_OPTION p COAP_OPTION_URI_HOST \<longrightarrow> reads_string m b (p_uri_host p) (p_uri_host_len p) (ps_host ss)"
     "IS_OPTION p COAP_OPTION_URI_PATH \<longrightarrow> reads_segments m b (p_uri_path p) (p_uri_path_len p) 0x2F (ps_path ss)"
     "IS_OPTION p COAP_OPTION_URI_QUERY \<longrightarrow> reads_segments m b (p_uri_query p) (p_uri_query_len p) 0x26 (ps_query ss)"
     "IS_OPTION p COAP_OPTION_PROXY_URI \<longrightarrow> reads_string m b (p_proxy_uri p) (p_proxy_uri_len p) (ps_proxy ss)"
    using assms(3) by (simp_all add: reads_strings_def)
  show ?thesis
    unfolding coap_serialize_options_def if_not_P [OF assms(1)] ser_init [of m b]
    apply (subst ser_whole_step [OF _ _ r(1)], simp, simp)
    apply (subst ser_byte_step [OF _ _ e], simp, simp)
    apply (subst ser_int_step, simp, simp)
    apply (subst ser_int_step, simp, simp)
    apply (subst ser_split_step [OF _ _ r(2)], simp, simp, simp)
    apply (subst ser_int_step, simp, simp)
    apply (subst ser_int_step, simp, simp)
    apply (subst ser_split_step [OF _ _ r(3)], simp, simp, simp)
    apply (subst ser_int_step, simp, simp)
    apply (subst ser_block_step, simp, simp)
    apply (subst ser_block_step, simp, simp)
    apply (subst ser_int_step, simp, simp)
    apply (subst ser_whole_step [OF _ _ r(4)], simp, simp)
    apply (subst ser_int_step, simp, simp)
    apply (simp only: numbered_options_def Let_def append_assoc append_Nil)
    done
qed

lemma nums_le_numbered: "COAP_OPTION_SIZE1 \<le> n \<Longrightarrow> nums_le n (numbered_options p ss inner outer)"
  by (simp add: numbered_options_def)

lemma coap_serialize_options_emit:
  assumes "\<not> coap_check_signal_message (p_code p)" and "packet_wf p"
    and "reads_strings m b p ss" and "versions_consistent cfg p"
  shows "coap_serialize_options cfg p b inner outer oscore m =
    emitted b (enc_opts 0 (packet_options cfg p ss inner outer)) m"
proof -
  have v: "(inner \<and> IS_OPTION p COAP_OPTION_ACCEPT) \<and> (inner \<and> IS_OPTION p COAP_OPTION_CONTENT_FORMAT) \<longrightarrow>
      version_option cfg OCF_OPTION_ACCEPT_CONTENT_FORMAT_VER (p_accept p) \<noteq> [] \<or>
      version_option cfg OCF_OPTION_CONTENT_FORMAT_VER (p_content_format p) = []"
    using assms(4) by (simp add: versions_consistent_def)
  show ?thesis
    unfolding coap_serialize_options_numbered [OF assms(1-3)] packet_options_def
    by (rule ser_versions [OF nums_le_numbered v]) simp
qed

lemma coap_serialize_signal_options_emit:
  assumes "reads_strings m b p ss"
  shows "coap_serialize_signal_options p b m = emitted b (enc_opts 0 (signal_options p ss)) m"
proof -
  have r: "IS_OPTION p COAP_SIGNAL_OPTION_ALT_ADDR \<longrightarrow>
      reads_string m b (p_alt_addr p) (p_alt_addr_len p) (ps_alt_addr ss)" if "p_code p = RELEASE_7_04"
    using assms that by (simp add: reads_strings_def)
  consider "p_code p = CSM_7_01" | "p_code p = PING_7_02 \<or> p_code p = PONG_7_03" | "p_code p = RELEASE_7_04"
    | "p_code p = ABORT_7_05" | "\<not> coap_check_signal_message (p_code p)"
    by (auto simp: coap_check_signal_message_def)
  then show ?thesis
  proof cases
    case 3
    then show ?thesis
      unfolding coap_serialize_signal_options_def ser_init [of m b]
      by (simp add: ser_whole_step [OF _ _ r [OF 3]] ser_int_step ser_result_finish signal_options_def
          del: enc_opts.simps)
  next
    case 5
    then show ?thesis
      by (simp add: coap_serialize_signal_options_def signal_options_def coap_check_signal_message_def
          emitted_def)
  qed (auto simp: coap_serialize_signal_options_def ser_init [of m b] ser_int_step ser_result_finish
        signal_options_def simp del: enc_opts.simps)
qed

subsection \<open>Properties of the serializer\<close>

definition all_options ::
  "coap_cfg \<Rightarrow> coap_packet \<Rightarrow> packet_strings \<Rightarrow> bool \<Rightarrow> bool \<Rightarrow> (nat \<times> bytes) list" where
  "all_options cfg p ss inner outer =
     (if coap_check_signal_message (p_code p) then signal_options p ss else packet_options cfg p ss inner outer)"

lemma all_options_emit:
  assumes "packet_wf p" and "reads_strings m b p ss" and "versions_consistent cfg p"
  shows "coap_serialize_options cfg p b inner outer oscore m =
    emitted b (enc_opts 0 (all_options cfg p ss inner outer)) m"
proof (cases "coap_check_signal_message (p_code p)")
  case True
  with assms show ?thesis
    by (simp add: coap_serialize_options_def coap_serialize_signal_options_emit all_options_def)
next
  case False
  with assms show ?thesis
    by (simp add: coap_serialize_options_emit all_options_def)
qed

lemma reads_strings_None: "reads_strings m b p ss \<Longrightarrow> reads_strings m None p ss"
  by (auto simp: reads_strings_def reads_string_def reads_segments_def separate_def)

lemma sorted_opts_if:
  assumes "sorted (map fst ys)" and "\<forall>x \<in> set xs. fst x = n" and "\<forall>y \<in> set ys. n \<le> fst y"
  shows "sorted (map fst (opts_if c xs @ ys))"
proof -
  have "map fst xs = replicate (length xs) n"
    using assms(2) by (induction xs) auto
  moreover have "\<forall>x \<in> set xs. \<forall>y \<in> set ys. fst x \<le> fst y"
    using assms(2,3) by simp
  ultimately show ?thesis
    using assms(1) by (auto simp: opts_if_def sorted_append)
qed

lemma version_option_num: "x \<in> set (version_option cfg n f) \<Longrightarrow> fst x = n"
  by (auto simp: version_option_def split: if_splits)

lemma sorted_all_options: "sorted (map fst (all_options cfg p ss inner outer))"
proof (cases "coap_check_signal_message (p_code p)")
  case True
  then show ?thesis
    by (auto simp: all_options_def signal_options_def Let_def opts_if_def)
next
  case False
  have v: "sorted (map fst (opts_if c (version_option cfg OCF_OPTION_CONTENT_FORMAT_VER f)))" for c f
    by (auto simp: opts_if_def version_option_def)
  show ?thesis
    unfolding all_options_def if_not_P [OF False] packet_options_def numbered_options_def Let_def append_assoc
    by (intro sorted_opts_if v) (auto simp: opts_if_def dest!: version_option_num)
qed

text \<open>
  C5. \<open>coap_serialize_options\<close> writes exactly the encoding of the options that are set in the packet,
  in ascending order of their numbers and with the path and the query split at their separators;
  run without a buffer it returns the number of the bytes that the other run writes.
\<close>

theorem serialize_options_correct:
  assumes "packet_wf p" and "reads_strings m b p ss" and "versions_consistent cfg p"
  shows "coap_serialize_options cfg p b inner outer oscore m =
      map_option (Pair (length (enc_opts 0 (all_options cfg p ss inner outer))))
        (emit b (enc_opts 0 (all_options cfg p ss inner outer)) m) \<and>
    coap_serialize_options cfg p None inner outer oscore m =
      Some (length (enc_opts 0 (all_options cfg p ss inner outer)), m) \<and>
    sorted (map fst (all_options cfg p ss inner outer))"
  using all_options_emit [OF assms] all_options_emit [OF assms(1) reads_strings_None [OF assms(2)] assms(3)]
    sorted_all_options
  by (simp add: emitted_def)

lemma serialize_options_correct_witness:
  "\<exists>cfg n. coap_serialize_options cfg (SET_OPTION 11 (zero_packet\<lparr>p_uri_path := Some (0, 0), p_uri_path_len := 3\<rparr>))
     None True True False [0 \<mapsto> [0x61, 0x2F, 0x62, 0]] = Some (n, [0 \<mapsto> [0x61, 0x2F, 0x62, 0]]) \<and> n = 4"
proof -
  let ?p = "SET_OPTION 11 (zero_packet\<lparr>p_uri_path := Some (0, 0), p_uri_path_len := 3\<rparr>)"
  let ?cfg = "\<lparr>oc_spec_ver_oic = False, oc_json_encoder = False, oc_wkcore = False,
    coap_max_header_size = 200, oc_block_size = 1024\<rparr>"
  let ?ss = "\<lparr>ps_host = [], ps_path = [[0x61], [0x62]], ps_query = [], ps_proxy = [], ps_alt_addr = []\<rparr>"
  let ?m = "[0 \<mapsto> [0x61, 0x2F, 0x62, 0]] :: mem"
  have z: "IS_OPTION (zero_packet\<lparr>p_uri_path := x, p_uri_path_len := k\<rparr>) n \<longleftrightarrow> IS_OPTION zero_packet n" for x k n
    by (simp add: IS_OPTION_def)
  have wf: "packet_wf (zero_packet\<lparr>p_uri_path := x, p_uri_path_len := k\<rparr>)" for x k
    by (simp add: packet_wf_def)
  have bits: "IS_OPTION ?p n \<longleftrightarrow> n = 11" if "n < 64" for n
    using that by (simp add: IS_OPTION_SET_OPTION [OF wf] z IS_OPTION_zero)
  have l: "loads ?m (Some (0, 0)) (Suc 3) = Some (join_bytes 0x2F [[0x61], [0x62]] @ [0])"
    by (simp add: loads_def bslice_def)
  have c: "p_code ?p = 0" "p_uri_path ?p = Some (0, 0)" "p_uri_path_len ?p = 3"
    by (simp_all add: SET_OPTION_def)
  have r: "reads_strings ?m None ?p ?ss"
    using l by (auto simp: reads_strings_def bits c reads_segments_def segments_def separate_def)
  have v: "versions_consistent ?cfg ?p"
    by (simp add: versions_consistent_def bits)
  have "all_options ?cfg ?p ?ss True True = [(11, [0x61]), (11, [0x62])]"
    by (simp add: all_options_def coap_check_signal_message_def c packet_options_def numbered_options_def opts_if_def bits)
  then show ?thesis
    using serialize_options_correct [OF _ r v, of True True False] wf
    by (intro exI [of _ ?cfg] exI [of _ 4]) (simp add: option_header_def ext_bytes_def)
qed

text \<open>
  A packet that accepts JSON and carries OCF CBOR is not serialized correctly: the option with the
  version of the content format, number 2053, is written with number 21, because the serializer
  continues to count from the accept version option that it has not written.
\<close>

theorem serialize_version_number_wrong:
  assumes "packet_wf p" and "\<not> coap_check_signal_message (p_code p)" and "reads_strings m b p ss"
    and "\<forall>n < 64. IS_OPTION p n \<longleftrightarrow> n = COAP_OPTION_ACCEPT \<or> n = COAP_OPTION_CONTENT_FORMAT"
    and "unat (p_accept p) = APPLICATION_JSON" and "unat (p_content_format p) = APPLICATION_VND_OCF_CBOR"
  shows "coap_serialize_options cfg p b True outer oscore m =
    map_option (Pair 8) (emit b (enc_opts 0 [(12, int_bytes 10000), (17, int_bytes 50), (21, int_bytes 2048)]) m)"
proof -
  have acc: "p_accept p = 50" and cf: "p_content_format p = 10000"
    using assms(5,6) by (simp_all add: word_unat_eq_iff)
  have u: "(ucast (p_accept p) :: u32) = 50" "(ucast (p_content_format p) :: u32) = 10000"
    using assms(5,6) by (simp_all add: acc cf)
  have n: "numbered_options p ss True outer = [(12, int_bytes 10000), (17, int_bytes 50)]"
    using assms(4) by (simp add: numbered_options_def opts_if_def u)
  have i: "int_bytes 50 = [0x32]" "int_bytes 10000 = [0x27, 0x10]" "int_bytes 2048 = [8, 0]"
    by (simp_all add: int_bytes_def)
  have app: "enc_opts 0 [(12, x), (17, y), (21, z)] = enc_opts 0 [(12, x), (17, y)] @ enc_opts 17 [(21, z)]" for x y z
    by simp
  have d: "enc_opts 2049 [(2053, v)] = enc_opts 17 [(21, v)]" for v
    by simp
  have "coap_serialize_options cfg p b True outer oscore m =
    emitted b (enc_opts 0 [(12, int_bytes 10000), (17, int_bytes 50), (21, int_bytes 2048)]) m"
    unfolding coap_serialize_options_numbered [OF assms(2,1,3)] n
    using assms(4-6)
    by (cases "emit b (enc_opts 0 [(12, int_bytes 10000), (17, int_bytes 50)]) m")
       (auto simp: ser_result_def when_set_def accept_version_step_def content_version_step_def
        coap_serialize_accept_option_emit coap_serialize_content_format_option_emit version_option_def emitted_def
        finish_options_def bind_map_option map_conv_bind_option comp_def emit_append
        app d simp del: enc_opts.simps(2))
  moreover have "length (enc_opts 0 [(12, int_bytes 10000), (17, int_bytes 50), (21, int_bytes 2048)]) = 8"
    by (simp add: i option_header_def ext_bytes_def)
  ultimately show ?thesis
    by (simp add: emitted_def)
qed

lemma serialize_version_number_wrong_witness:
  "\<exists>cfg. coap_serialize_options cfg
     (the (coap_options_set_accept (the (coap_options_set_content_format zero_packet 10000)) 50)) None True True False Map.empty =
   Some (8, Map.empty)"
proof -
  let ?p1 = "the (coap_options_set_content_format zero_packet 10000)"
  let ?p = "the (coap_options_set_accept ?p1 50)"
  have wf: "packet_wf ?p1" "packet_wf ?p"
    using content_format_opt.wf_set [of zero_packet 10000] accept_opt.wf_set [of ?p1 50] by simp_all
  have bits: "IS_OPTION ?p n \<longleftrightarrow> n = 17 \<or> n = 12" if "n < 64" for n
    using that content_format_opt.is_option_set [of zero_packet 10000 n] accept_opt.is_option_set [OF wf(1), of 50 n] IS_OPTION_zero [OF that]
    by simp
  have f: "p_code ?p = 0" "unat (p_accept ?p) = 50" "unat (p_content_format ?p) = 10000"
    by (simp_all add: coap_options_set_accept_def coap_options_set_content_format_def SET_OPTION_def)
  have "reads_strings Map.empty None ?p ss" for ss
    by (simp add: reads_strings_def bits f)
  then show ?thesis
    using serialize_version_number_wrong [of ?p Map.empty None _ _ True False] wf(2) bits f
    by (simp add: coap_check_signal_message_def)
qed

text \<open>
  A path that ends with its separator is read past its terminating null byte: the loop of
  \<open>coap_serialize_array_option\<close> steps over the index where it would stop and reads the second byte after
  the end of the string.
\<close>

theorem serialize_trailing_separator_overread:
  "coap_serialize_array_option n cur None (Some (b, 0)) 2 0x2F [b \<mapsto> [0x61, 0x2F, 0]] = None"
proof -
  let ?m = "[b \<mapsto> [0x61, 0x2F, 0]] :: mem"
  have l: "load ?m (offset (Some (b, 0)) 0) = Some 0x61" "load ?m (offset (Some (b, 0)) 1) = Some 0x2F"
    "load ?m (offset (Some (b, 0)) 3) = None"
    by (simp_all add: load_block)
  have three: "serialize_parts n None (Some (b, 0)) 2 0x2F 3 ps cur' i ?m = None" for ps cur' i
    using l(3) by (subst serialize_parts.simps) simp
  have "serialize_parts n None (Some (b, 0)) 2 0x2F 1 0 cur 0 ?m = None"
    using l(2) three [of 2 n] by (subst serialize_parts.simps)
      (simp add: coap_set_option_header_emit emitted_def copy_if_def numeral_2_eq_2 numeral_3_eq_3)
  then have "serialize_parts n None (Some (b, 0)) 2 0x2F 0 0 cur 0 ?m = None"
    using l(1) by (subst serialize_parts.simps) simp
  then show ?thesis
    by (simp add: coap_serialize_array_option_def)
qed

end
