(* ===== verification/CoapParse.thy ===== *)
theory CoapParse
  imports CoapSerialize
begin

text \<open>
  The option parser of \<open>src/messaging/coap/coap.c\<close>. It works in place: the segments of a path or a
  query are joined in the receive buffer itself (\<open>coap_merge_multi_option\<close>), over the headers that
  have been read already. The functions return the status code with the packet and the memory;
  \<^const>\<open>None\<close> is an access outside a buffer. Option numbers are 32-bit unsigned and wrap.

  The lemmas show that numbers and headers are read back, what each option does to the packet
  (\<open>field_effect\<close>, \<open>string_effect\<close>), and, with the invariant \<open>strings_inv\<close> on the strings in the
  receive buffer, that the parser implements the wire format of \<open>CoapSerialize\<close>.
\<close>

definition coap_parse_int_option :: "mem \<Rightarrow> ptr \<Rightarrow> nat \<Rightarrow> int option" where
  "coap_parse_int_option m bytes len =
     (if len > 4 then Some (-1)
      else do {
        bs \<leftarrow> loads m bytes len;
        Some (uint (foldl (\<lambda>var b. push_bit 8 var OR ucast b) (0 :: u32) bs))
      })"

definition coap_merge_multi_option ::
  "ptr \<Rightarrow> nat \<Rightarrow> ptr \<Rightarrow> nat \<Rightarrow> u8 \<Rightarrow> mem \<Rightarrow> (ptr \<times> nat \<times> mem) option" where
  "coap_merge_multi_option dst dst_len option option_len separator m =
     (if dst_len > 0 then do {
        m \<leftarrow> stores m (offset dst dst_len) [separator];
        bs \<leftarrow> loads m option option_len;
        m \<leftarrow> stores m (offset dst (dst_len + 1)) bs;
        Some (dst, dst_len + 1 + option_len, m)
      } else Some (option, option_len, m))"

definition coap_parse_signal_options ::
  "coap_packet \<Rightarrow> nat \<Rightarrow> ptr \<Rightarrow> nat \<Rightarrow> bool \<Rightarrow> mem \<Rightarrow> (coap_status_t \<times> coap_packet) option" where
  "coap_parse_signal_options p option_number current_option option_length inner m =
     (if \<not> inner then Some (BAD_OPTION_4_02, p)
      else if p_code p = CSM_7_01 then
        (if option_number = COAP_SIGNAL_OPTION_MAX_MSG_SIZE then do {
           max_msg_size \<leftarrow> coap_parse_int_option m current_option option_length;
           if max_msg_size < 0 then Some (BAD_OPTION_4_02, p)
           else Some (COAP_NO_ERROR, p\<lparr>p_max_msg_size := of_int max_msg_size\<rparr>)
         } else if option_number = COAP_SIGNAL_OPTION_BLOCKWISE_TRANSFER then
           Some (COAP_NO_ERROR, p\<lparr>p_blockwise_transfer := 1\<rparr>)
         else Some (COAP_NO_ERROR, p))
      else if p_code p = PING_7_02 \<or> p_code p = PONG_7_03 then
        (if option_number = COAP_SIGNAL_OPTION_CUSTODY then Some (COAP_NO_ERROR, p\<lparr>p_custody := 1\<rparr>)
         else Some (COAP_NO_ERROR, p))
      else if p_code p = RELEASE_7_04 then
        (if option_number = COAP_SIGNAL_OPTION_ALT_ADDR then
           Some (COAP_NO_ERROR, p\<lparr>p_alt_addr := current_option, p_alt_addr_len := option_length\<rparr>)
         else if option_number = COAP_SIGNAL_OPTION_HOLD_OFF then do {
           hold_off \<leftarrow> coap_parse_int_option m current_option option_length;
           if hold_off < 0 then Some (BAD_OPTION_4_02, p)
           else Some (COAP_NO_ERROR, p\<lparr>p_hold_off := of_int hold_off\<rparr>)
         } else Some (COAP_NO_ERROR, p))
      else if p_code p = ABORT_7_05 then
        (if option_number = COAP_SIGNAL_OPTION_BAD_CSM then do {
           bad_csm \<leftarrow> coap_parse_int_option m current_option option_length;
           if bad_csm < 0 \<or> bad_csm > 65535 then Some (BAD_OPTION_4_02, p)
           else Some (COAP_NO_ERROR, p\<lparr>p_bad_csm_opt := of_int bad_csm\<rparr>)
         } else Some (COAP_NO_ERROR, p))
      else Some (BAD_REQUEST_4_00, p))"

definition coap_parse_is_valid_content_format_option :: "coap_cfg \<Rightarrow> int \<Rightarrow> bool" where
  "coap_parse_is_valid_content_format_option cfg content_format \<longleftrightarrow>
     content_format = int APPLICATION_VND_OCF_CBOR \<or>
     (oc_spec_ver_oic cfg \<and> content_format = int APPLICATION_CBOR) \<or>
     (oc_json_encoder cfg \<and>
       (content_format = int APPLICATION_JSON \<or> content_format = int APPLICATION_TD_JSON))"

definition coap_parse_is_valid_accept_option :: "coap_cfg \<Rightarrow> int \<Rightarrow> bool" where
  "coap_parse_is_valid_accept_option cfg accept \<longleftrightarrow>
     coap_parse_is_valid_content_format_option cfg accept \<or>
     (oc_wkcore cfg \<and> accept = int APPLICATION_LINK_FORMAT)"

type_synonym parse_result = "(coap_status_t \<times> coap_packet \<times> mem) option"

text \<open>A numeric option: a negative result of \<open>coap_parse_int_option\<close> is a bad option.\<close>

definition parse_uint ::
  "mem \<Rightarrow> ptr \<Rightarrow> nat \<Rightarrow> coap_packet \<Rightarrow> (u32 \<Rightarrow> coap_packet) \<Rightarrow> parse_result" where
  "parse_uint m option option_length p upd = do {
     v \<leftarrow> coap_parse_int_option m option option_length;
     if v < 0 then Some (BAD_OPTION_4_02, p, m) else Some (COAP_NO_ERROR, upd (of_int v), m)
   }"

definition coap_oscore_parse_inner_option ::
  "coap_cfg \<Rightarrow> coap_packet \<Rightarrow> nat \<Rightarrow> ptr \<Rightarrow> nat \<Rightarrow> bool \<Rightarrow> mem \<Rightarrow> parse_result" where
  "coap_oscore_parse_inner_option cfg p option_number option option_length validate m =
     (if option_number = COAP_OPTION_CONTENT_FORMAT then do {
        content_format \<leftarrow> coap_parse_int_option m option option_length;
        if \<not> coap_parse_is_valid_content_format_option cfg content_format
        then Some (UNSUPPORTED_MEDIA_TYPE_4_15, p, m)
        else Some (COAP_NO_ERROR, p\<lparr>p_content_format := of_int content_format\<rparr>, m)
      } else if option_number = COAP_OPTION_ETAG then do {
        bs \<leftarrow> loads m option (min COAP_ETAG_LEN option_length);
        Some (COAP_NO_ERROR, p\<lparr>p_etag_len := min COAP_ETAG_LEN option_length,
                               p_etag := write_at (p_etag p) 0 bs\<rparr>, m)
      } else if option_number = COAP_OPTION_ACCEPT then do {
        accept \<leftarrow> coap_parse_int_option m option option_length;
        if \<not> coap_parse_is_valid_accept_option cfg accept
        then Some (NOT_ACCEPTABLE_4_06, p, m)
        else Some (COAP_NO_ERROR, p\<lparr>p_accept := of_int accept\<rparr>, m)
      } else if option_number = COAP_OPTION_URI_PATH then
        (if validate then Some (COAP_NO_ERROR, p, m)
         else do {
           (dst, len, m) \<leftarrow> coap_merge_multi_option (p_uri_path p) (p_uri_path_len p) option option_length 0x2F m;
           Some (COAP_NO_ERROR, p\<lparr>p_uri_path := dst, p_uri_path_len := len\<rparr>, m)
         })
      else if option_number = COAP_OPTION_URI_QUERY then
        (if validate then Some (COAP_NO_ERROR, p, m)
         else do {
           (dst, len, m) \<leftarrow> coap_merge_multi_option (p_uri_query p) (p_uri_query_len p) option option_length 0x26 m;
           Some (COAP_NO_ERROR, p\<lparr>p_uri_query := dst, p_uri_query_len := len\<rparr>, m)
         })
      else if option_number = COAP_OPTION_BLOCK2 then
        parse_uint m option option_length p (coap_options_block2_decode p)
      else if option_number = COAP_OPTION_BLOCK1 then
        parse_uint m option option_length p (coap_options_block1_decode p)
      else if option_number = COAP_OPTION_SIZE2 then
        parse_uint m option option_length p (\<lambda>v. p\<lparr>p_size2 := v\<rparr>)
      else if option_number = COAP_OPTION_SIZE1 then
        parse_uint m option option_length p (\<lambda>v. p\<lparr>p_size1 := v\<rparr>)
      else if option_number = OCF_OPTION_CONTENT_FORMAT_VER \<or>
              option_number = OCF_OPTION_ACCEPT_CONTENT_FORMAT_VER then do {
        version \<leftarrow> coap_parse_int_option m option option_length;
        if version < int OCF_VER_1_0_0 \<and> (oc_spec_ver_oic cfg \<longrightarrow> version \<noteq> int OIC_VER_1_1_0)
        then Some (UNSUPPORTED_MEDIA_TYPE_4_15, p, m)
        else Some (COAP_NO_ERROR, p, m)
      } else Some (BAD_OPTION_4_02, p, m))"

definition coap_oscore_parse_outer_option ::
  "coap_packet \<Rightarrow> nat \<Rightarrow> ptr \<Rightarrow> nat \<Rightarrow> bool \<Rightarrow> mem \<Rightarrow> parse_result" where
  "coap_oscore_parse_outer_option p option_number option option_length validate m =
     (if option_number = COAP_OPTION_PROXY_URI then
        (if validate then Some (COAP_NO_ERROR, p, m)
         else Some (COAP_NO_ERROR, p\<lparr>p_proxy_uri := option, p_proxy_uri_len := option_length\<rparr>, m))
      else if option_number = COAP_OPTION_URI_HOST then
        Some (COAP_NO_ERROR, p\<lparr>p_uri_host := option, p_uri_host_len := option_length\<rparr>, m)
      else if option_number = COAP_OPTION_URI_PORT then do {
        uri_port \<leftarrow> coap_parse_int_option m option option_length;
        if uri_port < 0 \<or> uri_port > 65535 then Some (BAD_OPTION_4_02, p, m)
        else Some (COAP_NO_ERROR, p\<lparr>p_uri_port := of_int uri_port\<rparr>, m)
      } else Some (BAD_OPTION_4_02, p, m))"

definition inner_option :: "nat \<Rightarrow> bool" where
  "inner_option n \<longleftrightarrow> n \<in> {COAP_OPTION_CONTENT_FORMAT, COAP_OPTION_ETAG, COAP_OPTION_ACCEPT,
     COAP_OPTION_URI_PATH, COAP_OPTION_URI_QUERY, COAP_OPTION_BLOCK2, COAP_OPTION_BLOCK1,
     COAP_OPTION_SIZE2, COAP_OPTION_SIZE1, OCF_OPTION_CONTENT_FORMAT_VER,
     OCF_OPTION_ACCEPT_CONTENT_FORMAT_VER}"

definition outer_option :: "nat \<Rightarrow> bool" where
  "outer_option n \<longleftrightarrow> n \<in> {COAP_OPTION_PROXY_URI, COAP_OPTION_URI_HOST, COAP_OPTION_URI_PORT}"

definition coap_oscore_parse_option ::
  "coap_cfg \<Rightarrow> coap_packet \<Rightarrow> ptr \<Rightarrow> bool \<Rightarrow> bool \<Rightarrow> bool \<Rightarrow> bool \<Rightarrow> nat \<Rightarrow> nat \<Rightarrow> mem \<Rightarrow> parse_result" where
  "coap_oscore_parse_option cfg p current_option inner outer oscore validate option_number option_length m =
     (if coap_check_signal_message (p_code p) then do {
        (s, p) \<leftarrow> coap_parse_signal_options p option_number current_option option_length inner m;
        Some (s, p, m)
      } else if inner_option option_number then
        (if \<not> inner then Some (BAD_OPTION_4_02, p, m)
         else coap_oscore_parse_inner_option cfg p option_number current_option option_length validate m)
      else if outer_option option_number then
        (if \<not> outer then Some (BAD_OPTION_4_02, p, m)
         else coap_oscore_parse_outer_option p option_number current_option option_length validate m)
      else if option_number = COAP_OPTION_MAX_AGE then
        parse_uint m current_option option_length p (\<lambda>v. p\<lparr>p_max_age := v\<rparr>)
      else if option_number = COAP_OPTION_OBSERVE then
        parse_uint m current_option option_length p (\<lambda>v. p\<lparr>p_observe := v\<rparr>)
      else if odd option_number then Some (BAD_OPTION_4_02, p, m)
      else Some (COAP_NO_ERROR, p, m))"

subsection \<open>The loop over the options\<close>

text \<open>
  The extended bytes of a delta or a length. \<open>cur\<close> is the index of \<open>current_option\<close> from \<open>data\<close>; the
  bytes are read without a look at \<open>data_len\<close>.
\<close>

definition read_extended :: "mem \<Rightarrow> ptr \<Rightarrow> nat \<Rightarrow> nat \<Rightarrow> (nat \<times> nat) option" where
  "read_extended m data v cur =
     (if v = 13 then do {
        b \<leftarrow> load m (offset data cur);
        Some (v + unat b, cur + 1)
      } else if v = 14 then do {
        b1 \<leftarrow> load m (offset data cur);
        b2 \<leftarrow> load m (offset data (cur + 1));
        Some (v + 255 + unat b1 * 256 + unat b2, cur + 2)
      } else Some (v, cur))"

definition option_head :: "mem \<Rightarrow> ptr \<Rightarrow> nat \<Rightarrow> (nat \<times> nat \<times> nat) option" where
  "option_head m data cur = do {
     b \<leftarrow> load m (offset data cur);
     (option_delta, cur) \<leftarrow> read_extended m data (unat (drop_bit 4 b)) (cur + 1);
     (option_length, cur) \<leftarrow> read_extended m data (unat (b AND 0x0F)) cur;
     Some (option_delta, option_length, cur)
   }"

lemma read_extended_ge: "read_extended m data v cur = Some (x, c) \<Longrightarrow> cur \<le> c"
  by (auto simp: read_extended_def bind_eq_Some_conv split: if_splits)

lemma option_head_gt: "option_head m data cur = Some (d, l, c) \<Longrightarrow> cur < c"
  by (auto simp: option_head_def bind_eq_Some_conv dest!: read_extended_ge)

function parse_options_loop ::
  "coap_cfg \<Rightarrow> ptr \<Rightarrow> nat \<Rightarrow> bool \<Rightarrow> bool \<Rightarrow> bool \<Rightarrow> bool \<Rightarrow> nat \<Rightarrow> nat \<Rightarrow> coap_status_t \<Rightarrow>
   coap_packet \<Rightarrow> mem \<Rightarrow> parse_result" where
  "parse_options_loop cfg data data_len inner outer oscore validate cur option_number last_error p m =
     (if cur < data_len then
        (case load m (offset data cur) of
           None \<Rightarrow> None
         | Some b \<Rightarrow>
             (if b AND 0xF0 = 0xF0 then
                Some (last_error, p\<lparr>p_payload := offset data (cur + 1),
                                    p_payload_len := of_nat (data_len - (cur + 1))\<rparr>, m)
              else
                (case option_head m data cur of
                   None \<Rightarrow> None
                 | Some (option_delta, option_length, c) \<Rightarrow>
                     (let number = (option_number + option_delta) mod 2 ^ 32;
                          p = (if number \<le> COAP_OPTION_SIZE1 then SET_OPTION number p else p)
                      in if c + option_length > data_len then Some (BAD_REQUEST_4_00, p, m)
                         else
                           (case coap_oscore_parse_option cfg p (offset data c) inner outer oscore validate
                                   number option_length m of
                              None \<Rightarrow> None
                            | Some (s, p, m) \<Rightarrow>
                                (if s \<noteq> COAP_NO_ERROR \<and> (\<not> validate \<or> s = BAD_REQUEST_4_00) then Some (s, p, m)
                                 else parse_options_loop cfg data data_len inner outer oscore validate
                                        (c + option_length) number
                                        (if s \<noteq> COAP_NO_ERROR \<and> last_error < s then s else last_error) p m))))))
      else Some (last_error, p, m))"
  by pat_completeness auto
termination
  by (relation "measure (\<lambda>(cfg, data, data_len, inner, outer, oscore, validate, cur, _). data_len - cur)")
    (auto dest!: option_head_gt)

declare parse_options_loop.simps [simp del]

text \<open>\<open>current_option\<close> is \<open>data + cur\<close>.\<close>

definition coap_oscore_parse_options ::
  "coap_cfg \<Rightarrow> coap_packet \<Rightarrow> ptr \<Rightarrow> nat \<Rightarrow> nat \<Rightarrow> bool \<Rightarrow> bool \<Rightarrow> bool \<Rightarrow> bool \<Rightarrow> mem \<Rightarrow> parse_result" where
  "coap_oscore_parse_options cfg p data data_len cur inner outer oscore validate m =
     (if data_len > 2 ^ 32 - 1 then Some (BAD_REQUEST_4_00, p, m)
      else parse_options_loop cfg data data_len inner outer oscore validate cur 0 COAP_NO_ERROR
             (p\<lparr>p_options := replicate 8 0\<rparr>) m)"

subsection \<open>Numbers and option headers are read back\<close>

definition be_value :: "bytes \<Rightarrow> u32" where
  "be_value bs = foldl (\<lambda>var b. push_bit 8 var OR ucast b) 0 bs"

lemma int_masks:
  fixes v :: u32
  shows "0xFF000000 AND v = 0 \<longleftrightarrow> drop_bit 24 v = 0" "0xFFFF0000 AND v = 0 \<longleftrightarrow> drop_bit 16 v = 0"
    "0xFFFFFF00 AND v = 0 \<longleftrightarrow> drop_bit 8 v = 0" "0xFFFFFFFF AND v = 0 \<longleftrightarrow> v = 0"
proof -
  have m: "0xFF000000 = (push_bit 24 (mask 8) :: u32)" "0xFFFF0000 = (push_bit 16 (mask 16) :: u32)"
    "0xFFFFFF00 = (push_bit 8 (mask 24) :: u32)" "0xFFFFFFFF = (mask 32 :: u32)"
    by (simp_all add: mask_eq_exp_minus_1)
  have *: "push_bit k (mask (32 - k)) AND v = 0 \<longleftrightarrow> drop_bit k v = 0" if "k \<le> 32" for k
  proof
    assume a: "push_bit k (mask (32 - k)) AND v = 0"
    show "drop_bit k v = 0"
    proof (rule bit_word_eqI)
      fix i :: nat assume "i < LENGTH(32)"
      then show "bit (drop_bit k v) i \<longleftrightarrow> bit (0 :: u32) i"
        using arg_cong [OF a, of "\<lambda>w. bit w (k + i)"] by (auto simp: bit_simps dest: bit_imp_le_length)
    qed
  next
    assume a: "drop_bit k v = 0"
    show "push_bit k (mask (32 - k)) AND v = 0"
    proof (rule bit_word_eqI)
      fix i :: nat
      show "bit (push_bit k (mask (32 - k)) AND v) i \<longleftrightarrow> bit (0 :: u32) i"
        using arg_cong [OF a, of "\<lambda>w. bit w (i - k)"] by (auto simp: bit_simps)
    qed
  qed
  show "0xFF000000 AND v = 0 \<longleftrightarrow> drop_bit 24 v = 0" "0xFFFF0000 AND v = 0 \<longleftrightarrow> drop_bit 16 v = 0"
    "0xFFFFFF00 AND v = 0 \<longleftrightarrow> drop_bit 8 v = 0" "0xFFFFFFFF AND v = 0 \<longleftrightarrow> v = 0"
    using * [of 24] * [of 16] * [of 8] * [of 0] unfolding m by simp_all
qed

lemma be_value_bytes:
  fixes v :: u32
  shows "be_value [ucast (drop_bit 24 v), ucast (drop_bit 16 v), ucast (drop_bit 8 v), ucast v] = v"
proof (rule bit_word_eqI)
  fix n :: nat
  assume "n < LENGTH(32)"
  then consider "n < 8" | "8 \<le> n" "n < 16" | "16 \<le> n" "n < 24" | "24 \<le> n" "n < 32"
    by fastforce
  then show "bit (be_value [ucast (drop_bit 24 v), ucast (drop_bit 16 v), ucast (drop_bit 8 v), ucast v]) n \<longleftrightarrow> bit v n"
    by cases (auto simp: be_value_def bit_simps)
qed

lemma be_value_0 [simp]: "be_value (0 # bs) = be_value bs"
  by (simp add: be_value_def)

lemma be_value_int_bytes [simp]: "be_value (int_bytes v) = v"
proof -
  have ucast: "drop_bit k v = 0 \<Longrightarrow> (ucast (drop_bit k v) :: u8) = 0" for k
    by simp
  have mono: "drop_bit 8 v = 0 \<Longrightarrow> drop_bit 16 v = 0" "drop_bit 16 v = 0 \<Longrightarrow> drop_bit 24 v = 0"
    using drop_bit_drop_bit [of 8 8 v] drop_bit_drop_bit [of 8 16 v] by simp_all
  show ?thesis
    unfolding int_bytes_def int_masks
    using be_value_bytes [of v] mono
    by (cases "drop_bit 24 v = 0"; cases "drop_bit 16 v = 0"; cases "drop_bit 8 v = 0"; cases "v = 0") 
       (simp_all add: ucast be_value_def)
qed

lemma length_int_bytes_le: "length (int_bytes v) \<le> 4"
  by (simp add: int_bytes_def)

lemma coap_parse_int_option_value:
  "loads m p (length v) = Some v \<Longrightarrow> length v \<le> 4 \<Longrightarrow> coap_parse_int_option m p (length v) = Some (uint (be_value v))"
  by (simp add: coap_parse_int_option_def be_value_def)

text \<open>A length or a delta up to 65804 is read back from its nibble and extended bytes.\<close>

lemma nibble_lt: "unat (coap_option_nibble v) < 15"
  by (auto simp: coap_option_nibble_def unsigned_of_nat take_bit_nat_eq_self)

lemma nibble_pair:
  fixes a b :: u8
  assumes "unat a < 16" and "unat b < 16"
  shows "drop_bit 4 (push_bit 4 a OR b) = a" and "(push_bit 4 a OR b) AND 0x0F = b"
proof -
  have t: "take_bit 4 a = a" "take_bit 4 b = b"
    using assms by (simp_all add: word_unat_eq_iff unsigned_take_bit_eq take_bit_nat_eq_self)
  have ab: "bit a i \<Longrightarrow> i < 4" "bit b i \<Longrightarrow> i < 4" for i
    using t by (metis bit_take_bit_iff)+
  have m: "(0x0F :: u8) = mask 4"
    by (simp add: mask_eq_exp_minus_1)
  show "drop_bit 4 (push_bit 4 a OR b) = a"
    by (rule bit_word_eqI) (auto simp: bit_simps dest: ab)
  show "(push_bit 4 a OR b) AND 0x0F = b"
    unfolding m by (rule bit_word_eqI) (auto simp: bit_simps dest: ab)
qed

lemma not_marker:
  fixes a b :: u8
  assumes "unat a < 15" and "unat b < 16"
  shows "(push_bit 4 a OR b) AND 0xF0 \<noteq> 0xF0"
proof
  assume "(push_bit 4 a OR b) AND 0xF0 = 0xF0"
  then have "drop_bit 4 ((push_bit 4 a OR b) AND 0xF0) = 0xF"
    by simp
  then have "drop_bit 4 (push_bit 4 a OR b) AND 0xF = 0xF"
    by (simp add: drop_bit_and)
  with nibble_pair(1) [of a b] assms have "a AND 0xF = 0xF"
    by simp
  moreover have "a AND mask 4 = a"
    using assms(1) by (simp add: word_unat_eq_iff unsigned_take_bit_eq take_bit_nat_eq_self flip: take_bit_eq_mask)
  ultimately show False
    using assms(1) by (simp add: mask_eq_exp_minus_1)
qed

lemma read_extended_ext:
  assumes "v \<le> 65804" and "loads m (offset data cur) (length (ext_bytes v)) = Some (ext_bytes v)"
  shows "read_extended m data (unat (coap_option_nibble v)) cur = Some (v, cur + length (ext_bytes v))"
proof -
  note l = load_nth [OF assms(2)]
  consider "v < 13" | "13 \<le> v" "v \<le> 268" | "268 < v" by linarith
  then show ?thesis
  proof cases
    case 1
    then show ?thesis
      by (simp add: read_extended_def coap_option_nibble_def ext_bytes_def unsigned_of_nat take_bit_nat_eq_self)
  next
    case 2
    then have "load m (offset data cur) = Some (of_nat (v - 13))"
      using l [of 0] by (simp add: ext_bytes_def)
    moreover have "unat (of_nat (v - 13) :: u8) = v - 13"
      using 2 by (simp only: unsigned_of_nat) (simp add: take_bit_nat_eq_self)
    ultimately show ?thesis
      using 2 by (simp add: read_extended_def coap_option_nibble_def ext_bytes_def)
  next
    case 3
    then have "load m (offset data cur) = Some (of_nat ((v - 269) div 256))"
      "load m (offset data (cur + 1)) = Some (of_nat (v - 269))"
      using l [of 0] l [of 1] by (simp_all add: ext_bytes_def)
    moreover have "unat (of_nat ((v - 269) div 256) :: u8) = (v - 269) div 256"
      using assms(1) by (simp only: unsigned_of_nat) (simp add: take_bit_nat_eq_self)
    moreover have "unat (of_nat (v - 269) :: u8) = (v - 269) mod 256"
      by (simp only: unsigned_of_nat) (simp add: take_bit_eq_mod)
    moreover have "269 + ((v - 269) div 256) * 256 + (v - 269) mod 256 = v"
      using 3 by simp
    ultimately show ?thesis
      using 3 by (simp add: read_extended_def coap_option_nibble_def ext_bytes_def)
  qed
qed

lemma option_head_header:
  assumes "loads m (offset data cur) (length (option_header d l)) = Some (option_header d l)"
    and "d \<le> 65804" and "l \<le> 65804"
  shows "option_head m data cur = Some (d, l, cur + length (option_header d l))"
proof -
  let ?b = "push_bit 4 (coap_option_nibble d) OR coap_option_nibble l"
  have b: "load m (offset data cur) = Some ?b"
    using load_nth [OF assms(1), of 0] by (simp add: option_header_def)
  have ed: "loads m (offset data (cur + 1)) (length (ext_bytes d)) = Some (ext_bytes d)"
    using loads_part [OF assms(1), of 1 "length (ext_bytes d)"] by (simp add: option_header_def bslice_def)
  have el: "loads m (offset data (cur + 1 + length (ext_bytes d))) (length (ext_bytes l)) = Some (ext_bytes l)"
    using loads_part [OF assms(1), of "1 + length (ext_bytes d)" "length (ext_bytes l)"]
    by (simp add: option_header_def bslice_def)
  show ?thesis
    using b read_extended_ext [OF assms(2) ed] read_extended_ext [OF assms(3) el]
      nibble_pair [of "coap_option_nibble d" "coap_option_nibble l"] nibble_lt [of d] nibble_lt [of l]
    by (simp add: option_head_def option_header_def add.assoc)
qed

subsection \<open>What an option means\<close>

text \<open>The values that the parser accepts, and the effect of an option on the fields of the packet.\<close>

definition option_valid :: "coap_cfg \<Rightarrow> nat \<Rightarrow> bytes \<Rightarrow> bool" where
  "option_valid cfg n v \<longleftrightarrow>
     (if n \<in> {COAP_OPTION_OBSERVE, COAP_OPTION_MAX_AGE, COAP_OPTION_BLOCK2, COAP_OPTION_BLOCK1,
              COAP_OPTION_SIZE2, COAP_OPTION_SIZE1} then length v \<le> 4
      else if n = COAP_OPTION_URI_PORT then length v \<le> 4 \<and> uint (be_value v) \<le> 65535
      else if n = COAP_OPTION_CONTENT_FORMAT then
        length v \<le> 4 \<and> coap_parse_is_valid_content_format_option cfg (uint (be_value v))
      else if n = COAP_OPTION_ACCEPT then
        length v \<le> 4 \<and> coap_parse_is_valid_accept_option cfg (uint (be_value v))
      else if n = OCF_OPTION_CONTENT_FORMAT_VER \<or> n = OCF_OPTION_ACCEPT_CONTENT_FORMAT_VER then
        length v \<le> 4 \<and> int OCF_VER_1_0_0 \<le> uint (be_value v)
      else n \<in> {COAP_OPTION_URI_HOST, COAP_OPTION_ETAG, COAP_OPTION_URI_PATH, COAP_OPTION_URI_QUERY,
                COAP_OPTION_PROXY_URI} \<or> even n)"

definition field_effect :: "nat \<Rightarrow> bytes \<Rightarrow> coap_packet \<Rightarrow> coap_packet" where
  "field_effect n v q =
     (if n = COAP_OPTION_CONTENT_FORMAT then q\<lparr>p_content_format := ucast (be_value v)\<rparr>
      else if n = COAP_OPTION_ETAG then
        q\<lparr>p_etag_len := min COAP_ETAG_LEN (length v), p_etag := write_at (p_etag q) 0 (take COAP_ETAG_LEN v)\<rparr>
      else if n = COAP_OPTION_ACCEPT then q\<lparr>p_accept := ucast (be_value v)\<rparr>
      else if n = COAP_OPTION_BLOCK2 then coap_options_block2_decode q (be_value v)
      else if n = COAP_OPTION_BLOCK1 then coap_options_block1_decode q (be_value v)
      else if n = COAP_OPTION_SIZE2 then q\<lparr>p_size2 := be_value v\<rparr>
      else if n = COAP_OPTION_SIZE1 then q\<lparr>p_size1 := be_value v\<rparr>
      else if n = COAP_OPTION_URI_PORT then q\<lparr>p_uri_port := ucast (be_value v)\<rparr>
      else if n = COAP_OPTION_MAX_AGE then q\<lparr>p_max_age := be_value v\<rparr>
      else if n = COAP_OPTION_OBSERVE then q\<lparr>p_observe := be_value v\<rparr>
      else q)"

definition string_option :: "nat \<Rightarrow> bool" where
  "string_option n \<longleftrightarrow> n \<in> {COAP_OPTION_URI_HOST, COAP_OPTION_URI_PATH, COAP_OPTION_URI_QUERY, COAP_OPTION_PROXY_URI}"

lemma of_int_uint: "(of_int (uint (x :: u32)) :: 'a :: len word) = ucast x"
  by simp

lemma parse_option_field:
  assumes "\<not> coap_check_signal_message (p_code q)" and "\<not> string_option n" and "option_valid cfg n v"
    and "loads m o' (length v) = Some v"
  shows "coap_oscore_parse_option cfg q o' True True False validate n (length v) m =
    Some (COAP_NO_ERROR, field_effect n v q, m)"
proof -
  have i: "length v \<le> 4 \<Longrightarrow> coap_parse_int_option m o' (length v) = Some (uint (be_value v))"
    by (rule coap_parse_int_option_value [OF assms(4)])
  have e: "loads m o' (min 8 (length v)) = Some (take 8 v)"
    using loads_part [OF assms(4), of 0 "min 8 (length v)"] by (simp add: bslice_def min_def split: if_splits)
  consider "n = 12" | "n = 4" | "n = 17" | "n = 23" | "n = 27" | "n = 28" | "n = 60" | "n = 2053" | "n = 2049"
    | "n = 7" | "n = 14" | "n = 6" | "n \<notin> {12, 4, 17, 23, 27, 28, 60, 2053, 2049, 7, 14, 6}"
    by blast
  then show ?thesis
  proof cases
    case 2
    with assms(1) e show ?thesis
      by (simp add: coap_oscore_parse_option_def inner_option_def coap_oscore_parse_inner_option_def field_effect_def)
  next
    case 13
    with assms(1-3) show ?thesis
      by (auto simp: coap_oscore_parse_option_def inner_option_def outer_option_def string_option_def
          option_valid_def field_effect_def)
  qed (use assms(1,3) i in \<open>auto simp: coap_oscore_parse_option_def inner_option_def outer_option_def
        coap_oscore_parse_inner_option_def coap_oscore_parse_outer_option_def parse_uint_def field_effect_def
        option_valid_def not_less\<close>)
qed

subsection \<open>Strings that are merged in place\<close>

record parsed_strings =
  s_host :: bytes
  s_path :: bytes
  s_query :: bytes
  s_proxy :: bytes

definition merged :: "u8 \<Rightarrow> bytes \<Rightarrow> bytes \<Rightarrow> bytes" where
  "merged c a v = (if a = [] then v else a @ c # v)"

definition string_effect :: "nat \<Rightarrow> bytes \<Rightarrow> parsed_strings \<Rightarrow> parsed_strings" where
  "string_effect n v x =
     (if n = COAP_OPTION_URI_HOST then x\<lparr>s_host := v\<rparr>
      else if n = COAP_OPTION_URI_PATH then x\<lparr>s_path := merged 0x2F (s_path x) v\<rparr>
      else if n = COAP_OPTION_URI_QUERY then x\<lparr>s_query := merged 0x26 (s_query x) v\<rparr>
      else if n = COAP_OPTION_PROXY_URI then x\<lparr>s_proxy := v\<rparr>
      else x)"

text \<open>The string \<open>x\<close> lies in block \<open>b\<close>, whose first bytes are \<open>pre\<close>, and ends before offset \<open>e\<close>.\<close>

definition str_at :: "bytes \<Rightarrow> nat \<Rightarrow> nat \<Rightarrow> ptr \<Rightarrow> nat \<Rightarrow> bytes \<Rightarrow> bool" where
  "str_at pre b e s len x \<longleftrightarrow>
     len = length x \<and> (len > 0 \<longrightarrow> (\<exists>k. s = Some (b, k) \<and> k + len \<le> e \<and> bslice pre k len = x))"

lemma str_at_Nil [simp]: "str_at pre b e s len [] \<longleftrightarrow> len = 0"
  by (auto simp: str_at_def)

lemma str_at_append: "str_at pre b e s len x \<Longrightarrow> e \<le> length pre \<Longrightarrow> e \<le> e' \<Longrightarrow> str_at (pre @ ys) b e' s len x"
  by (fastforce simp: str_at_def bslice_append_left)

lemma str_at_write:
  "str_at pre b e s len x \<Longrightarrow> e \<le> i \<Longrightarrow> i \<le> length pre \<Longrightarrow> i \<le> e' \<Longrightarrow> str_at (write_at pre i zs) b e' s len x"
  by (fastforce simp: str_at_def bslice_write_at_before)

lemma str_at_here: "str_at (pre @ hdr @ v) b (length (pre @ hdr @ v)) (Some (b, length pre + length hdr)) (length v) v"
  using bslice_append_right [of "pre @ hdr" v 0 "length v"]
  by (auto simp: str_at_def bslice_def)

text \<open>
  The invariant of the parser: each string lies in the part of the buffer that has been read; a
  path or a query that can still grow lies behind all other strings, so that growing it in place
  overwrites nothing but option headers.
\<close>

definition strings_inv :: "nat \<Rightarrow> nat \<Rightarrow> bytes \<Rightarrow> coap_packet \<Rightarrow> parsed_strings \<Rightarrow> bool" where
  "strings_inv b num pre q x \<longleftrightarrow>
     str_at pre b (length pre) (p_uri_host q) (p_uri_host_len q) (s_host x) \<and>
     str_at pre b (length pre) (p_uri_path q) (p_uri_path_len q) (s_path x) \<and>
     str_at pre b (length pre) (p_uri_query q) (p_uri_query_len q) (s_query x) \<and>
     str_at pre b (length pre) (p_proxy_uri q) (p_proxy_uri_len q) (s_proxy x) \<and>
     (num < COAP_OPTION_URI_PATH \<longrightarrow> s_path x = []) \<and>
     (num < COAP_OPTION_URI_QUERY \<longrightarrow> s_query x = []) \<and>
     (num < COAP_OPTION_PROXY_URI \<longrightarrow> s_proxy x = []) \<and>
     (num \<le> COAP_OPTION_URI_PATH \<and> s_path x \<noteq> [] \<longrightarrow> (\<exists>k. p_uri_path q = Some (b, k) \<and>
        str_at pre b (k + length (s_path x)) (p_uri_host q) (p_uri_host_len q) (s_host x))) \<and>
     (num \<le> COAP_OPTION_URI_QUERY \<and> s_query x \<noteq> [] \<longrightarrow> (\<exists>k. p_uri_query q = Some (b, k) \<and>
        str_at pre b (k + length (s_query x)) (p_uri_host q) (p_uri_host_len q) (s_host x) \<and>
        str_at pre b (k + length (s_query x)) (p_uri_path q) (p_uri_path_len q) (s_path x)))"

definition scalars :: "coap_packet \<Rightarrow> coap_packet" where
  "scalars q = q\<lparr>p_uri_host := None, p_uri_host_len := 0, p_uri_path := None, p_uri_path_len := 0,
     p_uri_query := None, p_uri_query_len := 0, p_proxy_uri := None, p_proxy_uri_len := 0\<rparr>"

definition ends_before :: "bytes \<Rightarrow> nat \<Rightarrow> ptr \<Rightarrow> bytes \<Rightarrow> ptr \<Rightarrow> nat \<Rightarrow> bytes \<Rightarrow> bool" where
  "ends_before pre b s a s2 len2 a2 \<longleftrightarrow>
     (if a = [] then str_at pre b (length pre) s2 len2 a2
      else \<exists>k. s = Some (b, k) \<and> str_at pre b (k + length a) s2 len2 a2)"

text \<open>Joining two parts in place: the bytes before the read position change, the string grows.\<close>

lemma merge_in_place:
  assumes "m b = Some (pre @ hdr @ v @ suf)" and "hdr \<noteq> []" and "str_at pre b (length pre) s len a"
  shows "\<exists>s' m' pre'. coap_merge_multi_option s len (Some (b, length pre + length hdr)) (length v) c m =
      Some (s', length (merged c a v), m') \<and> m' = m(b \<mapsto> pre' @ suf) \<and> length pre' = length (pre @ hdr @ v) \<and>
      str_at pre' b (length pre') s' (length (merged c a v)) (merged c a v) \<and>
      (\<forall>s2 len2 a2. ends_before pre b s a s2 len2 a2 \<longrightarrow>
        str_at pre' b (length pre') s2 len2 a2 \<and>
        (merged c a v \<noteq> [] \<longrightarrow> (\<exists>k. s' = Some (b, k) \<and> str_at pre' b (k + length (merged c a v)) s2 len2 a2)))"
proof (cases "a = []")
  case True
  then have "len = 0"
    using assms(3) by simp
  moreover have "m(b \<mapsto> pre @ hdr @ v @ suf) = m"
    using assms(1) by (simp add: fun_upd_idem)
  ultimately show ?thesis
    using True str_at_here [of pre hdr v b]
    by (intro exI [of _ "Some (b, length pre + length hdr)"] exI [of _ m] exI [of _ "pre @ hdr @ v"])
       (auto simp: coap_merge_multi_option_def merged_def ends_before_def intro: str_at_append)
next
  case False
  with assms(3) obtain k where k: "s = Some (b, k)" "len = length a" "k + len \<le> length pre" "bslice pre k len = a" "len > 0"
    by (auto simp: str_at_def)
  let ?B = "pre @ hdr @ v @ suf"
  define pre' where "pre' = write_at (pre @ hdr @ v) (k + len) (c # v)"
  have room: "k + len + 1 + length v \<le> length (pre @ hdr @ v)"
    using k(3) assms(2) by (cases hdr) auto
  have w1: "stores m (offset s len) [c] = Some (m(b \<mapsto> write_at ?B (k + len) [c]))"
    using assms(1) room k(1) by (simp add: stores_block)
  have "length (write_at ?B (k + len) [c]) = length ?B"
    using room by (intro length_write_at) simp
  moreover have "bslice (write_at ?B (k + len) [c]) (length pre + length hdr) (length v) = v"
  proof -
    have "bslice (write_at ?B (k + len) [c]) (length pre + length hdr) (length v) =
        bslice ?B (length pre + length hdr) (length v)"
      using room k(3) assms(2) by (intro bslice_write_at_after) (auto simp: Suc_le_eq add_less_le_mono neq_Nil_conv)
    also have "\<dots> = v"
      using bslice_middle [of "pre @ hdr" v suf] by simp
    finally show ?thesis .
  qed
  ultimately have l: "loads (m(b \<mapsto> write_at ?B (k + len) [c])) (Some (b, length pre + length hdr)) (length v) = Some v"
    by (simp add: loads_block)
  have w: "stores (m(b \<mapsto> write_at ?B (k + len) [c])) (offset s (len + 1)) v = Some (m(b \<mapsto> pre' @ suf))"
  proof -
    have "write_at (write_at ?B (k + len) [c]) (k + len + length [c]) v = write_at ?B (k + len) ([c] @ v)"
      using room by (intro write_at_append) simp
    also have "\<dots> = pre' @ suf"
      using room by (simp add: write_at_def pre'_def)
    finally show ?thesis
      using k(1) room by (simp add: stores_block length_write_at)
  qed
  have len': "length pre' = length (pre @ hdr @ v)"
    unfolding pre'_def using room by (intro length_write_at) simp
  have sl: "bslice pre' k (len + 1 + length v) = a @ c # v"
  proof -
    have "bslice pre' k len = a"
      using k(3,4) room unfolding pre'_def
      by (simp add: bslice_write_at_before bslice_append_left)
    moreover have "bslice pre' (k + len) (1 + length v) = c # v"
      unfolding pre'_def using room bslice_write_at_same [of "k + len" "c # v" "pre @ hdr @ v"] by simp
    ultimately show ?thesis
      using bslice_add [of pre' k len "1 + length v"] by (simp add: add.assoc)
  qed
  have keep: "str_at pre' b e s2 len2 a2" if "str_at pre b (k + len) s2 len2 a2" "k + len \<le> e" for e s2 len2 a2
    unfolding pre'_def using that k(3)
    by (intro str_at_write [of _ _ "k + len"]) (auto intro: str_at_append)
  show ?thesis
    using False k w1 l w len' sl keep room
    by (intro exI [of _ s] exI [of _ "m(b \<mapsto> pre' @ suf)"] exI [of _ pre'])
       (auto simp: coap_merge_multi_option_def merged_def ends_before_def str_at_def [of _ _ _ _ "length (merged c a v)"] str_at_def [of _ _ _ _ "Suc (length a + length v)"])
qed

lemma field_effect_strings [simp]:
  "p_uri_host (field_effect n v q) = p_uri_host q" "p_uri_host_len (field_effect n v q) = p_uri_host_len q"
  "p_uri_path (field_effect n v q) = p_uri_path q" "p_uri_path_len (field_effect n v q) = p_uri_path_len q"
  "p_uri_query (field_effect n v q) = p_uri_query q" "p_uri_query_len (field_effect n v q) = p_uri_query_len q"
  "p_proxy_uri (field_effect n v q) = p_proxy_uri q" "p_proxy_uri_len (field_effect n v q) = p_proxy_uri_len q"
  "p_code (field_effect n v q) = p_code q" "p_buffer (field_effect n v q) = p_buffer q"
  by (simp_all add: field_effect_def coap_options_block1_decode_def coap_options_block2_decode_def SET_OPTION_def
      split: prod.splits)

lemma scalars_updates:
  "scalars (q\<lparr>p_content_format := c\<rparr>) = (scalars q)\<lparr>p_content_format := c\<rparr>"
  "scalars (q\<lparr>p_accept := c\<rparr>) = (scalars q)\<lparr>p_accept := c\<rparr>"
  "scalars (q\<lparr>p_uri_port := c\<rparr>) = (scalars q)\<lparr>p_uri_port := c\<rparr>"
  "scalars (q\<lparr>p_size1 := w\<rparr>) = (scalars q)\<lparr>p_size1 := w\<rparr>"
  "scalars (q\<lparr>p_size2 := w\<rparr>) = (scalars q)\<lparr>p_size2 := w\<rparr>"
  "scalars (q\<lparr>p_max_age := w\<rparr>) = (scalars q)\<lparr>p_max_age := w\<rparr>"
  "scalars (q\<lparr>p_observe := w\<rparr>) = (scalars q)\<lparr>p_observe := w\<rparr>"
  "scalars (q\<lparr>p_etag_len := l, p_etag := e\<rparr>) = (scalars q)\<lparr>p_etag_len := l, p_etag := e\<rparr>"
  "scalars (q\<lparr>p_options := os\<rparr>) = (scalars q)\<lparr>p_options := os\<rparr>"
  "p_etag (scalars q) = p_etag q" "p_options (scalars q) = p_options q"
  by (simp_all only: scalars_def) simp_all

lemma scalars_SET_OPTION: "scalars (SET_OPTION n q) = SET_OPTION n (scalars q)"
  by (simp add: SET_OPTION_def scalars_updates)

lemma scalars_block_updates:
  "scalars (q\<lparr>p_block1_num := a, p_block1_more := b, p_block1_size := c, p_block1_offset := d\<rparr>) =
   (scalars q)\<lparr>p_block1_num := a, p_block1_more := b, p_block1_size := c, p_block1_offset := d\<rparr>"
  "scalars (q\<lparr>p_block2_num := a, p_block2_more := b, p_block2_size := c, p_block2_offset := d\<rparr>) =
   (scalars q)\<lparr>p_block2_num := a, p_block2_more := b, p_block2_size := c, p_block2_offset := d\<rparr>"
  by (simp_all only: scalars_def) simp_all

lemma scalars_block_decode:
  "scalars (coap_options_block1_decode q w) = coap_options_block1_decode (scalars q) w"
  "scalars (coap_options_block2_decode q w) = coap_options_block2_decode (scalars q) w"
  by (cases "coap_options_block_decode w";
      simp only: coap_options_block1_decode_def coap_options_block2_decode_def scalars_SET_OPTION
        scalars_block_updates prod.case)+

lemma scalars_field_effect: "scalars (field_effect n v q) = field_effect n v (scalars q)"
proof -
  consider "n = 12" | "n = 4" | "n = 17" | "n = 23" | "n = 27" | "n = 28" | "n = 60" | "n = 7" | "n = 14" | "n = 6"
    | "n \<notin> {12, 4, 17, 23, 27, 28, 60, 7, 14, 6}" by blast
  then show ?thesis
    by cases (simp_all add: field_effect_def scalars_block_decode scalars_updates)
qed

lemma field_effect_string_option: "string_option n \<Longrightarrow> field_effect n v q = q"
  unfolding string_option_def by (elim insertE emptyE) (simp_all add: field_effect_def)

lemma strings_inv_cong:
  "p_uri_host q = p_uri_host q' \<Longrightarrow> p_uri_host_len q = p_uri_host_len q' \<Longrightarrow>
   p_uri_path q = p_uri_path q' \<Longrightarrow> p_uri_path_len q = p_uri_path_len q' \<Longrightarrow>
   p_uri_query q = p_uri_query q' \<Longrightarrow> p_uri_query_len q = p_uri_query_len q' \<Longrightarrow>
   p_proxy_uri q = p_proxy_uri q' \<Longrightarrow> p_proxy_uri_len q = p_proxy_uri_len q' \<Longrightarrow>
   strings_inv b num pre q x \<longleftrightarrow> strings_inv b num pre q' x"
  by (simp add: strings_inv_def)

lemma str_at_more: "str_at pre b e s len a \<Longrightarrow> str_at pre b (length pre) s2 len2 a2 \<Longrightarrow> a2 \<noteq> [] \<Longrightarrow> s2 = Some (b, k) \<Longrightarrow>
  e = k + length a2 \<Longrightarrow> str_at (pre @ ys) b e s len a"
  by (rule str_at_append) (auto simp: str_at_def)

lemma strings_inv_advance:
  assumes "strings_inv b num pre q x" and "num \<le> n"
  shows "strings_inv b n (pre @ ys) q x"
proof -
  have a: "str_at (pre @ ys) b (length (pre @ ys)) s len z" if "str_at pre b (length pre) s len z" for s len z
    using that by (rule str_at_append) auto
  have c: "\<exists>k. s2 = Some (b, k) \<and> str_at (pre @ ys) b (k + length a2) s len z"
    if "str_at pre b (length pre) s2 len2 a2" "a2 \<noteq> []" "\<exists>k. s2 = Some (b, k) \<and> str_at pre b (k + length a2) s len z"
    for s2 len2 a2 s len z
    using that str_at_more by blast
  have d: "\<exists>k. s2 = Some (b, k) \<and> str_at (pre @ ys) b (k + length a2) s len z \<and> str_at (pre @ ys) b (k + length a2) s' len' z'"
    if "str_at pre b (length pre) s2 len2 a2" "a2 \<noteq> []"
      "\<exists>k. s2 = Some (b, k) \<and> str_at pre b (k + length a2) s len z \<and> str_at pre b (k + length a2) s' len' z'"
    for s2 len2 a2 s len z s' len' z'
    using that str_at_more by blast
  have i: "str_at pre b (length pre) (p_uri_host q) (p_uri_host_len q) (s_host x)"
     "str_at pre b (length pre) (p_uri_path q) (p_uri_path_len q) (s_path x)"
     "str_at pre b (length pre) (p_uri_query q) (p_uri_query_len q) (s_query x)"
     "str_at pre b (length pre) (p_proxy_uri q) (p_proxy_uri_len q) (s_proxy x)"
    using assms(1) by (simp_all add: strings_inv_def)
  show ?thesis
    unfolding strings_inv_def
  proof (intro conjI impI)
    assume "n \<le> COAP_OPTION_URI_PATH \<and> s_path x \<noteq> []"
    then show "\<exists>k. p_uri_path q = Some (b, k) \<and>
        str_at (pre @ ys) b (k + length (s_path x)) (p_uri_host q) (p_uri_host_len q) (s_host x)"
      using assms by (intro c [OF i(2)]) (auto simp: strings_inv_def)
  next
    assume "n \<le> COAP_OPTION_URI_QUERY \<and> s_query x \<noteq> []"
    then show "\<exists>k. p_uri_query q = Some (b, k) \<and>
        str_at (pre @ ys) b (k + length (s_query x)) (p_uri_host q) (p_uri_host_len q) (s_host x) \<and>
        str_at (pre @ ys) b (k + length (s_query x)) (p_uri_path q) (p_uri_path_len q) (s_path x)"
      using assms by (intro d [OF i(3)]) (auto simp: strings_inv_def)
  qed (use assms i a in \<open>auto simp: strings_inv_def\<close>)
qed

lemma merge_in_placeE:
  assumes "m b = Some (pre @ hdr @ v @ suf)" and "hdr \<noteq> []" and "str_at pre b (length pre) s len a"
  obtains s' m' pre' where "coap_merge_multi_option s len (Some (b, length pre + length hdr)) (length v) c m =
      Some (s', length (merged c a v), m')" "m' = m(b \<mapsto> pre' @ suf)" "length pre' = length (pre @ hdr @ v)"
    "str_at pre' b (length pre') s' (length (merged c a v)) (merged c a v)"
    "\<And>s2 len2 a2. ends_before pre b s a s2 len2 a2 \<Longrightarrow> str_at pre' b (length pre') s2 len2 a2 \<and>
       (merged c a v \<noteq> [] \<longrightarrow> (\<exists>k. s' = Some (b, k) \<and> str_at pre' b (k + length (merged c a v)) s2 len2 a2))"
  using merge_in_place [of m b pre hdr v suf, OF assms, of c] that by (elim exE conjE) blast

lemma parse_option_step:
  assumes "\<not> coap_check_signal_message (p_code q)" and "option_valid cfg n v"
    and inv: "strings_inv b num pre q x" and "num \<le> n"
    and m: "m b = Some (pre @ hdr @ v @ suf)" and "hdr \<noteq> []"
  shows "\<exists>q' m' pre'. coap_oscore_parse_option cfg q (Some (b, length pre + length hdr)) True True False False
      n (length v) m = Some (COAP_NO_ERROR, q', m') \<and>
    m' = m(b \<mapsto> pre' @ suf) \<and> length pre' = length (pre @ hdr @ v) \<and>
    strings_inv b n pre' q' (string_effect n v x) \<and> scalars q' = field_effect n v (scalars q) \<and> p_code q' = p_code q"
proof -
  have idem: "m(b \<mapsto> pre @ hdr @ v @ suf) = m"
    using m by (simp add: fun_upd_idem)
  note adv = strings_inv_advance [OF inv \<open>num \<le> n\<close>, of "hdr @ v"]
  note here = str_at_here [of pre hdr v b]
  consider (field) "\<not> string_option n" | (host) "n = 3" | (path) "n = 11" | (qry) "n = 15" | (proxy) "n = 35"
    by (auto simp: string_option_def)
  then show ?thesis
  proof cases
    case field
    have "bslice (pre @ hdr @ v @ suf) (length pre + length hdr) (length v) = v"
      using bslice_middle [of "pre @ hdr" v suf] by simp
    then have "loads m (Some (b, length pre + length hdr)) (length v) = Some v"
      using m by (simp add: loads_block)
    from parse_option_field [OF assms(1) field assms(2) this] show ?thesis
      using adv field idem
      by (intro exI [of _ "field_effect n v q"] exI [of _ m] exI [of _ "pre @ hdr @ v"])
         (auto simp: scalars_field_effect string_effect_def string_option_def intro: strings_inv_cong [THEN iffD1, rotated -1])
  next
    case host
    with assms(1) inv \<open>num \<le> n\<close> here idem show ?thesis
      by (intro exI [of _ "q\<lparr>p_uri_host := Some (b, length pre + length hdr), p_uri_host_len := length v\<rparr>"] exI [of _ m]
          exI [of _ "pre @ hdr @ v"])
         (auto simp: coap_oscore_parse_option_def inner_option_def outer_option_def coap_oscore_parse_outer_option_def
          string_effect_def strings_inv_def scalars_def field_effect_def)
  next
    case proxy
    with assms(1) adv here idem show ?thesis
      by (intro exI [of _ "q\<lparr>p_proxy_uri := Some (b, length pre + length hdr), p_proxy_uri_len := length v\<rparr>"] exI [of _ m]
          exI [of _ "pre @ hdr @ v"])
         (auto simp: coap_oscore_parse_option_def inner_option_def outer_option_def coap_oscore_parse_outer_option_def
          string_effect_def strings_inv_def scalars_def field_effect_def)
  next
    case path
    have i: "str_at pre b (length pre) (p_uri_host q) (p_uri_host_len q) (s_host x)"
      "str_at pre b (length pre) (p_uri_path q) (p_uri_path_len q) (s_path x)"
      "s_query x = []" "p_uri_query_len q = 0" "s_proxy x = []" "p_proxy_uri_len q = 0"
      using inv \<open>num \<le> n\<close> path by (auto simp: strings_inv_def)
    have h: "ends_before pre b (p_uri_path q) (s_path x) (p_uri_host q) (p_uri_host_len q) (s_host x)"
      using inv \<open>num \<le> n\<close> path i(1) by (auto simp: strings_inv_def ends_before_def)
    obtain s' m' pre' where r: "coap_merge_multi_option (p_uri_path q) (p_uri_path_len q) (Some (b, length pre + length hdr)) (length v) 0x2F m =
          Some (s', length (merged 0x2F (s_path x) v), m')" "m' = m(b \<mapsto> pre' @ suf)" "length pre' = length (pre @ hdr @ v)"
        "str_at pre' b (length pre') s' (length (merged 0x2F (s_path x) v)) (merged 0x2F (s_path x) v)"
      and keep: "\<And>s2 len2 a2. ends_before pre b (p_uri_path q) (s_path x) s2 len2 a2 \<Longrightarrow> str_at pre' b (length pre') s2 len2 a2 \<and>
        (merged 0x2F (s_path x) v \<noteq> [] \<longrightarrow> (\<exists>k. s' = Some (b, k) \<and>
          str_at pre' b (k + length (merged 0x2F (s_path x) v)) s2 len2 a2))"
      by (rule merge_in_placeE [of m b pre hdr v suf, OF m assms(6) i(2), of "0x2F"]) blast
    let ?q = "q\<lparr>p_uri_path := s', p_uri_path_len := length (merged 0x2F (s_path x) v)\<rparr>"
    have "coap_oscore_parse_option cfg q (Some (b, length pre + length hdr)) True True False False
        n (length v) m = Some (COAP_NO_ERROR, ?q, m')"
      using assms(1) path r(1)
      by (simp add: coap_oscore_parse_option_def inner_option_def coap_oscore_parse_inner_option_def)
    moreover have "strings_inv b n pre' ?q (string_effect n v x)"
      unfolding strings_inv_def using path i r h [THEN keep] by (auto simp: string_effect_def)
    moreover have "scalars ?q = field_effect n v (scalars q)"
      unfolding scalars_def using path by (simp add: field_effect_string_option string_option_def)
    ultimately show ?thesis
      using r(2,3) by (intro exI [of _ ?q] exI [of _ m'] exI [of _ pre']) simp
  next
    case qry
    have i: "str_at pre b (length pre) (p_uri_host q) (p_uri_host_len q) (s_host x)"
      "str_at pre b (length pre) (p_uri_path q) (p_uri_path_len q) (s_path x)"
      "str_at pre b (length pre) (p_uri_query q) (p_uri_query_len q) (s_query x)"
      "s_proxy x = []" "p_proxy_uri_len q = 0"
      using inv \<open>num \<le> n\<close> qry by (auto simp: strings_inv_def)
    have h: "ends_before pre b (p_uri_query q) (s_query x) (p_uri_host q) (p_uri_host_len q) (s_host x)"
      "ends_before pre b (p_uri_query q) (s_query x) (p_uri_path q) (p_uri_path_len q) (s_path x)"
      using inv \<open>num \<le> n\<close> qry i(1,2) by (auto simp: strings_inv_def ends_before_def)
    obtain s' m' pre' where r: "coap_merge_multi_option (p_uri_query q) (p_uri_query_len q) (Some (b, length pre + length hdr)) (length v) 0x26 m =
          Some (s', length (merged 0x26 (s_query x) v), m')" "m' = m(b \<mapsto> pre' @ suf)" "length pre' = length (pre @ hdr @ v)"
        "str_at pre' b (length pre') s' (length (merged 0x26 (s_query x) v)) (merged 0x26 (s_query x) v)"
      and keep: "\<And>s2 len2 a2. ends_before pre b (p_uri_query q) (s_query x) s2 len2 a2 \<Longrightarrow> str_at pre' b (length pre') s2 len2 a2 \<and>
        (merged 0x26 (s_query x) v \<noteq> [] \<longrightarrow> (\<exists>k. s' = Some (b, k) \<and>
          str_at pre' b (k + length (merged 0x26 (s_query x) v)) s2 len2 a2))"
      by (rule merge_in_placeE [of m b pre hdr v suf, OF m assms(6) i(3), of "0x26"]) blast
    let ?q = "q\<lparr>p_uri_query := s', p_uri_query_len := length (merged 0x26 (s_query x) v)\<rparr>"
    have "coap_oscore_parse_option cfg q (Some (b, length pre + length hdr)) True True False False
        n (length v) m = Some (COAP_NO_ERROR, ?q, m')"
      using assms(1) qry r(1)
      by (simp add: coap_oscore_parse_option_def inner_option_def coap_oscore_parse_inner_option_def)
    moreover have "strings_inv b n pre' ?q (string_effect n v x)"
      unfolding strings_inv_def using qry i r h [THEN keep] by (auto simp: string_effect_def)
    moreover have "scalars ?q = field_effect n v (scalars q)"
      unfolding scalars_def using qry by (simp add: field_effect_string_option string_option_def)
    ultimately show ?thesis
      using r(2,3) by (intro exI [of _ ?q] exI [of _ m'] exI [of _ pre']) simp
  qed
qed

subsection \<open>The parser reads the wire format\<close>

fun opts_ok :: "coap_cfg \<Rightarrow> nat \<Rightarrow> (nat \<times> bytes) list \<Rightarrow> bool" where
  "opts_ok cfg num [] = True"
| "opts_ok cfg num ((n, v) # os) =
     (num \<le> n \<and> n \<le> 65804 \<and> length v \<le> 65804 \<and> option_valid cfg n v \<and> opts_ok cfg n os)"

definition option_effect :: "nat \<times> bytes \<Rightarrow> coap_packet \<Rightarrow> coap_packet" where
  "option_effect = (\<lambda>(n, v) q. field_effect n v (if n \<le> COAP_OPTION_SIZE1 then SET_OPTION n q else q))"

definition fields_after :: "coap_packet \<Rightarrow> (nat \<times> bytes) list \<Rightarrow> coap_packet" where
  "fields_after q os = fold option_effect os q"

definition strings_after :: "parsed_strings \<Rightarrow> (nat \<times> bytes) list \<Rightarrow> parsed_strings" where
  "strings_after x os = fold (\<lambda>(n, v). string_effect n v) os x"

text \<open>The payload that starts after the marker, when there is one.\<close>

definition payload_at :: "bytes \<Rightarrow> ptr \<Rightarrow> coap_packet \<Rightarrow> coap_packet" where
  "payload_at tail s q =
     (if tail = [] then q else q\<lparr>p_payload := s, p_payload_len := of_nat (length tail - 1)\<rparr>)"

lemma scalars_payload: "scalars (q\<lparr>p_payload := s, p_payload_len := l\<rparr>) = (scalars q)\<lparr>p_payload := s, p_payload_len := l\<rparr>"
  by (simp only: scalars_def) simp

lemma strings_inv_SET_OPTION [simp]: "strings_inv b num pre (SET_OPTION n q) x \<longleftrightarrow> strings_inv b num pre q x"
  by (rule strings_inv_cong) (simp_all add: SET_OPTION_def)

lemma SET_OPTION_fields [simp]: "p_code (SET_OPTION n q) = p_code q" "p_buffer (SET_OPTION n q) = p_buffer q"
  by (simp_all add: SET_OPTION_def)

lemma option_header_not_Nil [simp]: "option_header d l \<noteq> []"
  by (simp add: option_header_def)

lemma option_header_not_marker: "hd (option_header d l) AND 0xF0 \<noteq> 0xF0"
  using not_marker [of "coap_option_nibble d" "coap_option_nibble l"] nibble_lt [of d] nibble_lt [of l]
  by (simp add: option_header_def)

lemma load_here:
  "m b = Some (pre @ xs @ ys) \<Longrightarrow> xs \<noteq> [] \<Longrightarrow> load m (Some (b, length pre)) = Some (hd xs)"
  by (cases xs) (simp_all add: load_block nth_append)

lemma loads_here:
  "m b = Some (pre @ xs @ ys) \<Longrightarrow> loads m (Some (b, length pre)) (length xs) = Some xs"
  by (simp add: loads_block bslice_middle)

text \<open>One iteration of the loop: the end, the payload marker and an accepted option.\<close>

lemma parse_options_loop_end:
  "data_len \<le> cur \<Longrightarrow> parse_options_loop cfg data data_len i o' oc val cur num e q m = Some (e, q, m)"
  by (subst parse_options_loop.simps) simp

lemma parse_options_loop_marker:
  assumes "cur < data_len" and "load m (offset data cur) = Some w" and "w AND 0xF0 = 0xF0"
  shows "parse_options_loop cfg data data_len i o' oc val cur num e q m =
    Some (e, q\<lparr>p_payload := offset data (cur + 1), p_payload_len := of_nat (data_len - (cur + 1))\<rparr>, m)"
  using assms by (subst parse_options_loop.simps) simp

lemma parse_options_loop_option:
  assumes "cur < data_len" and "load m (offset data cur) = Some w" and "w AND 0xF0 \<noteq> 0xF0"
    and "option_head m data cur = Some (d, l, c)" and "n = (num + d) mod 2 ^ 32" and "c + l \<le> data_len"
    and "coap_oscore_parse_option cfg (if n \<le> COAP_OPTION_SIZE1 then SET_OPTION n q else q) (offset data c)
      i o' oc val n l m = Some (COAP_NO_ERROR, q', m')"
  shows "parse_options_loop cfg data data_len i o' oc val cur num e q m =
    parse_options_loop cfg data data_len i o' oc val (c + l) n e q' m'"
  using assms(6)
  by (subst parse_options_loop.simps)
     (simp only: assms(1-4) assms(5) [symmetric] assms(7) Let_def option.case prod.case if_True if_False
      not_less simp_thms, simp)

lemma parse_options_loop_step:
  assumes "\<not> coap_check_signal_message (p_code q)" and "num \<le> n" and "n \<le> 65804" and "length v \<le> 65804"
    and "option_valid cfg n v" and "strings_inv b num pre q x"
    and "m b = Some (pre @ option_header (n - num) (length v) @ v @ suf)" and "length pre = base + cur"
    and "cur + length (option_header (n - num) (length v)) + length v \<le> data_len"
  obtains q' m' pre' where
    "parse_options_loop cfg (Some (b, base)) data_len True True False False cur num e q m =
     parse_options_loop cfg (Some (b, base)) data_len True True False False
       (cur + length (option_header (n - num) (length v)) + length v) n e q' m'"
    "m' = m(b \<mapsto> pre' @ suf)" "length pre' = length pre + length (option_header (n - num) (length v)) + length v"
    "strings_inv b n pre' q' (string_effect n v x)" "scalars q' = option_effect (n, v) (scalars q)" "p_code q' = p_code q"
proof -
  let ?h = "option_header (n - num) (length v)"
  let ?q = "if n \<le> COAP_OPTION_SIZE1 then SET_OPTION n q else q"
  have o0: "offset (Some (b, base)) cur = Some (b, length pre)"
    using assms(8) by simp
  have ld: "load m (offset (Some (b, base)) cur) = Some (hd ?h)"
    unfolding o0 using assms(7) by (rule load_here [of m b pre ?h "v @ suf"]) simp
  have hd: "option_head m (Some (b, base)) cur = Some (n - num, length v, cur + length ?h)"
    using loads_here [of m b pre ?h "v @ suf", OF assms(7)] assms(3,4) by (intro option_head_header) (simp_all add: o0 del: offset_Some)
  have num: "(num + (n - num)) mod 2 ^ 32 = n"
    using assms(2,3) by simp
  have "\<exists>q' m' pre'. coap_oscore_parse_option cfg ?q (Some (b, length pre + length ?h)) True True False False
      n (length v) m = Some (COAP_NO_ERROR, q', m') \<and>
    m' = m(b \<mapsto> pre' @ suf) \<and> length pre' = length (pre @ ?h @ v) \<and>
    strings_inv b n pre' q' (string_effect n v x) \<and> scalars q' = field_effect n v (scalars ?q) \<and> p_code q' = p_code ?q"
    using assms by (intro parse_option_step) auto
  then obtain q' m' pre' where r: "coap_oscore_parse_option cfg ?q (Some (b, length pre + length ?h)) True True False False
      n (length v) m = Some (COAP_NO_ERROR, q', m')" "m' = m(b \<mapsto> pre' @ suf)" "length pre' = length (pre @ ?h @ v)"
    "strings_inv b n pre' q' (string_effect n v x)" "scalars q' = field_effect n v (scalars ?q)" "p_code q' = p_code ?q"
    by blast
  have off: "offset (Some (b, base)) (cur + length ?h) = Some (b, length pre + length ?h)"
    using assms(8) by simp
  have "parse_options_loop cfg (Some (b, base)) data_len True True False False cur num e q m =
     parse_options_loop cfg (Some (b, base)) data_len True True False False (cur + length ?h + length v) n e q' m'"
  proof (rule parse_options_loop_option [OF _ ld option_header_not_marker hd num [symmetric] assms(9)])
    show "cur < data_len"
      using assms(9) length_greater_0_conv [of ?h] by (simp del: length_greater_0_conv)
  qed (use r(1) in \<open>simp only: off\<close>)
  moreover have "scalars q' = option_effect (n, v) (scalars q)"
    using r(5) by (simp add: option_effect_def scalars_SET_OPTION)
  moreover have "p_code q' = p_code q"
    using r(6) by simp
  ultimately show thesis
    using r(2-4) by (intro that [of q' m' pre']) simp_all
qed

lemma parse_options_loop_opts:
  assumes "\<not> coap_check_signal_message (p_code q)" and "opts_ok cfg num os" and "strings_inv b num pre q x"
    and "m b = Some (pre @ enc_opts num os @ tail @ suf)" and "length pre = base + cur"
    and "data_len = cur + length (enc_opts num os) + length tail" and "tail = [] \<or> hd tail AND 0xF0 = 0xF0"
  shows "\<exists>q' m' pre'. parse_options_loop cfg (Some (b, base)) data_len True True False False cur num e q m = Some (e, q', m') \<and>
    m' = m(b \<mapsto> pre' @ tail @ suf) \<and> length pre' = length pre + length (enc_opts num os) \<and>
    strings_inv b (last_num num os) pre' q' (strings_after x os) \<and>
    scalars q' = payload_at tail (Some (b, Suc (length pre'))) (fields_after (scalars q) os)"
  using assms
proof (induction os arbitrary: num pre q x m cur)
  case Nil
  have idem: "m(b \<mapsto> pre @ tail @ suf) = m"
    using Nil(4) by (simp add: fun_upd_idem)
  show ?case
  proof (cases "tail = []")
    case True
    with Nil idem show ?thesis
      by (intro exI [of _ q] exI [of _ m] exI [of _ pre])
         (auto simp: parse_options_loop_end strings_after_def fields_after_def payload_at_def)
  next
    case False
    let ?q = "q\<lparr>p_payload := Some (b, Suc (length pre)), p_payload_len := of_nat (length tail - 1)\<rparr>"
    have o0: "offset (Some (b, base)) cur = Some (b, length pre)" "offset (Some (b, base)) (cur + 1) = Some (b, Suc (length pre))"
      using Nil(5) by simp_all
    have ld: "load m (offset (Some (b, base)) cur) = Some (hd tail)"
      unfolding o0 using Nil(4) False load_here [of m b pre tail suf] by simp
    have "data_len - (cur + 1) = length tail - 1" and "cur < data_len"
      using Nil(6) False by simp_all
    then have "parse_options_loop cfg (Some (b, base)) data_len True True False False cur num e q m = Some (e, ?q, m)"
      using parse_options_loop_marker [OF _ ld, of data_len] Nil(7) False by (simp only: o0 simp_thms)
    moreover have "scalars ?q = payload_at tail (Some (b, Suc (length pre))) (scalars q)"
      using False by (simp add: payload_at_def scalars_payload)
    moreover have "strings_inv b num pre ?q x \<longleftrightarrow> strings_inv b num pre q x"
      by (rule strings_inv_cong) simp_all
    ultimately show ?thesis
      using idem Nil(3)
      by (intro exI [of _ ?q] exI [of _ m] exI [of _ pre]) (simp add: strings_after_def fields_after_def)
  qed
next
  case (Cons nv os)
  obtain n v where nv: "nv = (n, v)" by (cases nv)
  let ?h = "option_header (n - num) (length v)"
  have mb: "m b = Some (pre @ ?h @ v @ enc_opts n os @ tail @ suf)"
    using Cons.prems(4) by (simp add: nv)
  have ok: "num \<le> n" "n \<le> 65804" "length v \<le> 65804" "option_valid cfg n v" "opts_ok cfg n os"
    using Cons.prems(2) by (simp_all add: nv)
  have dl: "cur + length ?h + length v \<le> data_len"
    using Cons.prems(6) by (simp add: nv)
  obtain q1 m1 pre1 where s:
    "parse_options_loop cfg (Some (b, base)) data_len True True False False cur num e q m =
     parse_options_loop cfg (Some (b, base)) data_len True True False False (cur + length ?h + length v) n e q1 m1"
    "m1 = m(b \<mapsto> pre1 @ enc_opts n os @ tail @ suf)" "length pre1 = length pre + length ?h + length v"
    "strings_inv b n pre1 q1 (string_effect n v x)" "scalars q1 = option_effect (n, v) (scalars q)" "p_code q1 = p_code q"
    by (rule parse_options_loop_step [of q num n v cfg b pre x m "enc_opts n os @ tail @ suf" base cur data_len,
          OF Cons.prems(1) ok(1-4) Cons.prems(3) mb Cons.prems(5) dl])
  have "\<exists>q' m' pre'. parse_options_loop cfg (Some (b, base)) data_len True True False False (cur + length ?h + length v) n e q1 m1 =
      Some (e, q', m') \<and>
    m' = m1(b \<mapsto> pre' @ tail @ suf) \<and> length pre' = length pre1 + length (enc_opts n os) \<and>
    strings_inv b (last_num n os) pre' q' (strings_after (string_effect n v x) os) \<and>
    scalars q' = payload_at tail (Some (b, Suc (length pre'))) (fields_after (scalars q1) os)"
    using Cons.prems s ok by (intro Cons.IH) (simp_all add: nv)
  then obtain q' m' pre' where t: "parse_options_loop cfg (Some (b, base)) data_len True True False False
      (cur + length ?h + length v) n e q1 m1 = Some (e, q', m')"
    "m' = m1(b \<mapsto> pre' @ tail @ suf)" "length pre' = length pre1 + length (enc_opts n os)"
    "strings_inv b (last_num n os) pre' q' (strings_after (string_effect n v x) os)"
    "scalars q' = payload_at tail (Some (b, Suc (length pre'))) (fields_after (scalars q1) os)"
    by blast
  have "m' = m(b \<mapsto> pre' @ tail @ suf)"
    using s(2) t(2) by auto
  moreover have "parse_options_loop cfg (Some (b, base)) data_len True True False False cur num e q m = Some (e, q', m')"
    using s(1) t(1) by simp
  moreover have "length pre' = length pre + length (enc_opts num (nv # os))"
    using s(3) t(3) by (simp add: nv)
  moreover have "strings_inv b (last_num num (nv # os)) pre' q' (strings_after x (nv # os))"
    using t(4) by (simp add: nv strings_after_def)
  moreover have "scalars q' = payload_at tail (Some (b, Suc (length pre'))) (fields_after (scalars q) (nv # os))"
    using s(5) t(5) by (simp add: nv fields_after_def)
  ultimately show ?case
    by blast
qed

lemma str_at_loads:
  assumes "str_at pre b (length pre) s len x" and "m b = Some (pre @ suf)"
  shows "loads m s len = Some x"
proof (cases "len = 0")
  case False
  with assms(1) obtain k where "s = Some (b, k)" "k + len \<le> length pre" "bslice pre k len = x"
    by (auto simp: str_at_def)
  with assms(2) show ?thesis
    by (simp add: loads_block bslice_append_left)
qed (use assms in \<open>simp add: str_at_def\<close>)

definition no_strings :: parsed_strings where
  "no_strings = \<lparr>s_host = [], s_path = [], s_query = [], s_proxy = []\<rparr>"

lemma parse_options_encoded:
  assumes "\<not> coap_check_signal_message (p_code p)" and "opts_ok cfg 0 os"
    and "p_uri_host_len p = 0" and "p_uri_path_len p = 0" and "p_uri_query_len p = 0" and "p_proxy_uri_len p = 0"
    and "m b = Some (pre @ enc_opts 0 os @ tail @ suf)" and "length pre = base + cur"
    and "data_len = cur + length (enc_opts 0 os) + length tail" and "data_len < 2 ^ 32"
    and "tail = [] \<or> hd tail AND 0xF0 = 0xF0"
  shows "\<exists>q m'. coap_oscore_parse_options cfg p (Some (b, base)) data_len cur True True False False m =
      Some (COAP_NO_ERROR, q, m') \<and>
    loads m' (p_uri_host q) (p_uri_host_len q) = Some (s_host (strings_after no_strings os)) \<and>
    loads m' (p_uri_path q) (p_uri_path_len q) = Some (s_path (strings_after no_strings os)) \<and>
    loads m' (p_uri_query q) (p_uri_query_len q) = Some (s_query (strings_after no_strings os)) \<and>
    loads m' (p_proxy_uri q) (p_proxy_uri_len q) = Some (s_proxy (strings_after no_strings os)) \<and>
    loads m' (Some (b, base + data_len - length tail)) (length tail) = Some tail \<and>
    scalars q = payload_at tail (Some (b, base + data_len - length tail + 1))
      (fields_after (scalars (p\<lparr>p_options := replicate 8 0\<rparr>)) os)"
proof -
  let ?p = "p\<lparr>p_options := replicate 8 0\<rparr>"
  have "strings_inv b 0 pre ?p no_strings"
    using assms(3-6) by (simp add: strings_inv_def no_strings_def)
  then obtain q m' pre' where r: "parse_options_loop cfg (Some (b, base)) data_len True True False False cur 0 COAP_NO_ERROR ?p m =
      Some (COAP_NO_ERROR, q, m')"
    "m' = m(b \<mapsto> pre' @ tail @ suf)" "length pre' = length pre + length (enc_opts 0 os)"
    "strings_inv b (last_num 0 os) pre' q (strings_after no_strings os)"
    "scalars q = payload_at tail (Some (b, Suc (length pre'))) (fields_after (scalars ?p) os)"
    using parse_options_loop_opts [of ?p cfg 0 os b pre no_strings m tail suf base cur data_len COAP_NO_ERROR] assms
    by auto
  have mb: "m' b = Some (pre' @ tail @ suf)"
    using r(2) by simp
  have len: "base + data_len - length tail = length pre'"
    using r(3) assms(8,9) by simp
  have "loads m' (Some (b, length pre')) (length tail) = Some tail"
    by (rule loads_here [of m' b pre' tail suf, OF mb])
  moreover have "coap_oscore_parse_options cfg p (Some (b, base)) data_len cur True True False False m =
      Some (COAP_NO_ERROR, q, m')"
    using r(1) assms(10) by (simp add: coap_oscore_parse_options_def)
  moreover have "loads m' (p_uri_host q) (p_uri_host_len q) = Some (s_host (strings_after no_strings os))"
    "loads m' (p_uri_path q) (p_uri_path_len q) = Some (s_path (strings_after no_strings os))"
    "loads m' (p_uri_query q) (p_uri_query_len q) = Some (s_query (strings_after no_strings os))"
    "loads m' (p_proxy_uri q) (p_proxy_uri_len q) = Some (s_proxy (strings_after no_strings os))"
    using r(4) mb by (auto simp: strings_inv_def intro: str_at_loads)
  ultimately show ?thesis
    using r(5) len by auto
qed

text \<open>
  C4. \<open>coap_oscore_parse_options\<close> reads back every well-formed encoding of an option list (ascending
  numbers, accepted values), whatever the header lengths are: it reports no error, every numeric
  field of the packet has the value of its option, host, proxy, path and query point to their
  contents, with the segments of path and query joined in place by their separators, and the
  payload pointer and length describe the bytes after the marker.
\<close>

theorem parse_options_correct:
  assumes "\<not> coap_check_signal_message (p_code p)" and "opts_ok cfg 0 os"
    and "p_uri_host_len p = 0" and "p_uri_path_len p = 0" and "p_uri_query_len p = 0" and "p_proxy_uri_len p = 0"
    and "m b = Some (pre @ enc_opts 0 os @ tail @ suf)" and "length pre = base + cur"
    and "data_len = cur + length (enc_opts 0 os) + length tail" and "data_len < 2 ^ 32"
    and "tail = [] \<or> hd tail AND 0xF0 = 0xF0"
  shows "\<exists>q m'. coap_oscore_parse_options cfg p (Some (b, base)) data_len cur True True False False m =
      Some (COAP_NO_ERROR, q, m') \<and>
    loads m' (p_uri_host q) (p_uri_host_len q) = Some (s_host (strings_after no_strings os)) \<and>
    loads m' (p_uri_path q) (p_uri_path_len q) = Some (s_path (strings_after no_strings os)) \<and>
    loads m' (p_uri_query q) (p_uri_query_len q) = Some (s_query (strings_after no_strings os)) \<and>
    loads m' (p_proxy_uri q) (p_proxy_uri_len q) = Some (s_proxy (strings_after no_strings os)) \<and>
    loads m' (Some (b, base + data_len - length tail)) (length tail) = Some tail \<and>
    scalars q = payload_at tail (Some (b, base + data_len - length tail + 1))
      (fields_after (scalars (p\<lparr>p_options := replicate 8 0\<rparr>)) os)"
  by (rule parse_options_encoded) (use assms in simp_all)

lemma parse_options_correct_witness:
  "\<exists>cfg q m'. coap_oscore_parse_options cfg zero_packet (Some (0, 0))
      (length (enc_opts 0 [(11, [0x61]), (11, [0x62])])) 0 True True False False
      [0 \<mapsto> enc_opts 0 [(11, [0x61]), (11, [0x62])]] = Some (COAP_NO_ERROR, q, m') \<and>
    loads m' (p_uri_path q) (p_uri_path_len q) = Some [0x61, 0x2F, 0x62]"
proof -
  let ?os = "[(11, [0x61]), (11, [0x62])] :: (nat \<times> bytes) list"
  let ?cfg = "\<lparr>oc_spec_ver_oic = False, oc_json_encoder = False, oc_wkcore = False,
    coap_max_header_size = 200, oc_block_size = 1024\<rparr>"
  have "s_path (strings_after no_strings ?os) = [0x61, 0x2F, 0x62]"
    by (simp add: strings_after_def no_strings_def string_effect_def merged_def)
  moreover have "opts_ok ?cfg 0 ?os"
    by (simp add: option_valid_def)
  moreover have "length (enc_opts 0 ?os) < 2 ^ 32"
    by (simp add: option_header_def ext_bytes_def)
  moreover have "\<not> coap_check_signal_message (p_code zero_packet)"
    by (simp add: zero_packet_def coap_check_signal_message_def)
  ultimately show ?thesis
    using parse_options_correct [of zero_packet ?cfg ?os "[0 \<mapsto> enc_opts 0 ?os]" 0 "[]" "[]" "[]" 0 0]
    by (auto simp: zero_packet_def simp del: enc_opts.simps)
qed

end
