(* ===== verification/CoapParseSafety.thy ===== *)
theory CoapParseSafety
  imports CoapParse
begin

text \<open>
  Memory safety of the option parser for input of any kind. \<open>region_frame\<close> says that only a part of
  one block has changed, \<open>strings_inside\<close> is the invariant on the strings that are grown in place,
  and \<open>parse_safe\<close> collects what every parsing step guarantees.
\<close>

subsection \<open>Memory safety for arbitrary input\<close>

text \<open>Only the bytes from \<open>lo\<close> up to \<open>hi\<close> of block \<open>b\<close> differ.\<close>

definition region_frame :: "nat \<Rightarrow> nat \<Rightarrow> nat \<Rightarrow> mem \<Rightarrow> mem \<Rightarrow> bool" where
  "region_frame b lo hi m m' \<longleftrightarrow>
     (\<exists>B B'. m b = Some B \<and> m' = m(b \<mapsto> B') \<and> length B' = length B \<and>
        (\<forall>i < length B. i < lo \<or> hi \<le> i \<longrightarrow> B' ! i = B ! i))"

lemma region_frame_refl: "m b = Some B \<Longrightarrow> region_frame b lo hi m m"
  unfolding region_frame_def by (intro exI [of _ B]) (simp add: fun_upd_idem)

lemma region_frame_trans: "region_frame b lo hi m m' \<Longrightarrow> region_frame b lo hi m' m'' \<Longrightarrow> region_frame b lo hi m m''"
  unfolding region_frame_def by (elim exE conjE) (intro exI conjI, auto)

lemma region_frame_block: "region_frame b lo hi m m' \<Longrightarrow> m b = Some B \<Longrightarrow> \<exists>B'. m' b = Some B' \<and> length B' = length B"
  by (auto simp: region_frame_def)

lemma region_frame_stores:
  assumes "m b = Some B" and "lo \<le> k" and "k + length vs \<le> hi" and "hi \<le> length B"
  obtains m' where "stores m (Some (b, k)) vs = Some m'" "region_frame b lo hi m m'"
proof -
  have "region_frame b lo hi m (m(b \<mapsto> write_at B k vs))"
    unfolding region_frame_def using assms
    by (intro exI [of _ B] exI [of _ "write_at B k vs"]) (auto simp: length_write_at nth_write_at)
  with assms show thesis
    by (intro that [of "m(b \<mapsto> write_at B k vs)"]) (auto intro!: stores_block)
qed

text \<open>A path or query that has been read lies between \<open>base\<close> and \<open>base + cur\<close>.\<close>

definition strings_inside :: "nat \<Rightarrow> nat \<Rightarrow> nat \<Rightarrow> coap_packet \<Rightarrow> bool" where
  "strings_inside b base cur q \<longleftrightarrow>
     (p_uri_path_len q > 0 \<longrightarrow> (\<exists>k. p_uri_path q = Some (b, k) \<and> base \<le> k \<and> k + p_uri_path_len q \<le> base + cur)) \<and>
     (p_uri_query_len q > 0 \<longrightarrow> (\<exists>k. p_uri_query q = Some (b, k) \<and> base \<le> k \<and> k + p_uri_query_len q \<le> base + cur))"

lemma strings_inside_mono: "strings_inside b base cur q \<Longrightarrow> cur \<le> c \<Longrightarrow> strings_inside b base c q"
  unfolding strings_inside_def by (meson add_left_mono le_trans)

lemma merge_safe:
  assumes "m b = Some B" and "base + data_len \<le> length B" and "c + n \<le> data_len" and "cur < c"
    and "len > 0 \<longrightarrow> (\<exists>k. s = Some (b, k) \<and> base \<le> k \<and> k + len \<le> base + cur)"
  shows "\<exists>s' len' m'. coap_merge_multi_option s len (Some (b, base + c)) n sep m = Some (s', len', m') \<and>
    region_frame b base (base + data_len) m m' \<and>
    (len' > 0 \<longrightarrow> (\<exists>k. s' = Some (b, k) \<and> base \<le> k \<and> k + len' \<le> base + (c + n)))"
proof (cases "len > 0")
  case False
  then show ?thesis
    using assms(1) by (auto simp: coap_merge_multi_option_def intro: region_frame_refl)
next
  case True
  with assms(5) obtain k where k: "s = Some (b, k)" "base \<le> k" "k + len \<le> base + cur" by blast
  obtain m1 where m1: "stores m (Some (b, k + len)) [sep] = Some m1" "region_frame b base (base + data_len) m m1"
    by (rule region_frame_stores [of m b B base "k + len" "[sep]" "base + data_len"]) (use k assms in auto)
  then obtain B1 where B1: "m1 b = Some B1" "length B1 = length B"
    using region_frame_block [OF m1(2) assms(1)] by blast
  have l: "loads m1 (Some (b, base + c)) n = Some (bslice B1 (base + c) n)"
    using B1 assms by (intro loads_block) auto
  obtain m2 where m2: "stores m1 (Some (b, k + (len + 1))) (bslice B1 (base + c) n) = Some m2"
      "region_frame b base (base + data_len) m1 m2"
  proof (rule region_frame_stores [of m1 b B1 base "k + (len + 1)" "bslice B1 (base + c) n" "base + data_len"])
    have "length (bslice B1 (base + c) n) = n"
      using B1 assms by (intro bslice_full) auto
    then show "k + (len + 1) + length (bslice B1 (base + c) n) \<le> base + data_len"
      using k assms by simp
  qed (use k assms B1 in auto)
  from m1 m2 l True k assms show ?thesis
    by (intro exI [of _ s] exI [of _ "len + 1 + n"] exI [of _ m2])
       (auto simp: coap_merge_multi_option_def intro: region_frame_trans)
qed

lemma parse_int_total:
  "loads m p n = Some bs \<Longrightarrow> \<exists>v. coap_parse_int_option m p n = Some v"
  by (simp add: coap_parse_int_option_def)

lemma parse_uint_safe:
  assumes "loads m p n = Some bs" and "m b = Some B" and "strings_inside b base c q"
    and "\<And>w. strings_inside b base c (upd w)"
  shows "\<exists>s q'. parse_uint m p n q upd = Some (s, q', m) \<and> strings_inside b base c q'"
  using parse_int_total [OF assms(1)] assms(3,4) by (auto simp: parse_uint_def)

definition parse_safe :: "nat \<Rightarrow> nat \<Rightarrow> nat \<Rightarrow> nat \<Rightarrow> mem \<Rightarrow> parse_result \<Rightarrow> bool" where
  "parse_safe b base data_len c m r \<longleftrightarrow>
     (\<exists>s q m'. r = Some (s, q, m') \<and> region_frame b base (base + data_len) m m' \<and> strings_inside b base c q)"

lemma parse_safe_same:
  "m b = Some B \<Longrightarrow> strings_inside b base c q \<Longrightarrow> parse_safe b base data_len c m (Some (s, q, m))"
  by (auto simp: parse_safe_def intro: region_frame_refl)

lemma strings_inside_cong:
  "p_uri_path q' = p_uri_path q \<Longrightarrow> p_uri_path_len q' = p_uri_path_len q \<Longrightarrow> p_uri_query q' = p_uri_query q \<Longrightarrow>
   p_uri_query_len q' = p_uri_query_len q \<Longrightarrow> strings_inside b base c q' \<longleftrightarrow> strings_inside b base c q"
  by (simp add: strings_inside_def)

lemma block_decode_strings [simp]:
  "p_uri_path (coap_options_block1_decode q v) = p_uri_path q" "p_uri_path_len (coap_options_block1_decode q v) = p_uri_path_len q"
  "p_uri_query (coap_options_block1_decode q v) = p_uri_query q" "p_uri_query_len (coap_options_block1_decode q v) = p_uri_query_len q"
  "p_uri_path (coap_options_block2_decode q v) = p_uri_path q" "p_uri_path_len (coap_options_block2_decode q v) = p_uri_path_len q"
  "p_uri_query (coap_options_block2_decode q v) = p_uri_query q" "p_uri_query_len (coap_options_block2_decode q v) = p_uri_query_len q"
  by (simp_all add: coap_options_block1_decode_def coap_options_block2_decode_def SET_OPTION_def split: prod.splits)

lemma parse_uint_parse_safe:
  assumes "loads m p n = Some bs" and "m b = Some B" and "strings_inside b base c q"
    and "\<And>w. strings_inside b base c (upd w) \<longleftrightarrow> strings_inside b base c q"
  shows "parse_safe b base data_len c m (parse_uint m p n q upd)"
  using parse_uint_safe [OF assms(1-3), of upd] assms by (auto simp: parse_safe_def intro: region_frame_refl)

lemma parse_signal_safe:
  assumes "loads m p n = Some bs" and "m b = Some B" and "strings_inside b base c q"
  shows "\<exists>s q'. coap_parse_signal_options q num p n inner m = Some (s, q') \<and> strings_inside b base c q'"
  using parse_int_total [OF assms(1)] assms(3)
  by (auto simp: coap_parse_signal_options_def strings_inside_def)

lemma parse_inner_safe:
  assumes "m b = Some B" and "base + data_len \<le> length B" and "c + n \<le> data_len" and "cur < c"
    and "strings_inside b base cur q"
  shows "parse_safe b base data_len (c + n) m
    (coap_oscore_parse_inner_option cfg q num (Some (b, base + c)) n validate m)"
proof -
  have ld: "loads m (Some (b, base + c)) n = Some (bslice B (base + c) n)"
    using assms by (intro loads_block) auto
  have ld8: "loads m (Some (b, base + c)) (min 8 n) = Some (bslice B (base + c) (min 8 n))"
    using assms by (intro loads_block) auto
  have i: "strings_inside b base (c + n) q"
    using assms by (intro strings_inside_mono [OF assms(5)]) simp
  have same: "parse_safe b base data_len (c + n) m (Some (s, q', m))"
    if "p_uri_path q' = p_uri_path q" "p_uri_path_len q' = p_uri_path_len q"
      "p_uri_query q' = p_uri_query q" "p_uri_query_len q' = p_uri_query_len q" for s q'
    using that i strings_inside_cong [of q' q] by (intro parse_safe_same [of m b B, OF assms(1)]) blast
  obtain iv where iv: "coap_parse_int_option m (Some (b, base + c)) n = Some iv"
    using parse_int_total [OF ld] by blast
  have path: "parse_safe b base data_len (c + n) m (do {
      (dst, len, m) \<leftarrow> coap_merge_multi_option (p_uri_path q) (p_uri_path_len q) (Some (b, base + c)) n 0x2F m;
      Some (COAP_NO_ERROR, q\<lparr>p_uri_path := dst, p_uri_path_len := len\<rparr>, m) })"
  proof -
    have "\<exists>s' len' m'. coap_merge_multi_option (p_uri_path q) (p_uri_path_len q) (Some (b, base + c)) n 0x2F m = Some (s', len', m') \<and>
      region_frame b base (base + data_len) m m' \<and>
      (len' > 0 \<longrightarrow> (\<exists>k. s' = Some (b, k) \<and> base \<le> k \<and> k + len' \<le> base + (c + n)))"
      using assms by (intro merge_safe) (auto simp: strings_inside_def)
    then show ?thesis
      using i by (auto simp: parse_safe_def strings_inside_def)
  qed
  have qry: "parse_safe b base data_len (c + n) m (do {
      (dst, len, m) \<leftarrow> coap_merge_multi_option (p_uri_query q) (p_uri_query_len q) (Some (b, base + c)) n 0x26 m;
      Some (COAP_NO_ERROR, q\<lparr>p_uri_query := dst, p_uri_query_len := len\<rparr>, m) })"
  proof -
    have "\<exists>s' len' m'. coap_merge_multi_option (p_uri_query q) (p_uri_query_len q) (Some (b, base + c)) n 0x26 m = Some (s', len', m') \<and>
      region_frame b base (base + data_len) m m' \<and>
      (len' > 0 \<longrightarrow> (\<exists>k. s' = Some (b, k) \<and> base \<le> k \<and> k + len' \<le> base + (c + n)))"
      using assms by (intro merge_safe) (auto simp: strings_inside_def)
    then show ?thesis
      using i by (auto simp: parse_safe_def strings_inside_def)
  qed
  have uint: "parse_safe b base data_len (c + n) m (parse_uint m (Some (b, base + c)) n q upd)"
    if "\<And>w. p_uri_path (upd w) = p_uri_path q" "\<And>w. p_uri_path_len (upd w) = p_uri_path_len q"
      "\<And>w. p_uri_query (upd w) = p_uri_query q" "\<And>w. p_uri_query_len (upd w) = p_uri_query_len q" for upd
    using that by (intro parse_uint_parse_safe [of m _ n _ b B, OF ld assms(1) i] strings_inside_cong)
  show ?thesis
    unfolding coap_oscore_parse_inner_option_def
    by (simp add: iv ld8 same uint path qry)
qed

lemma parse_outer_safe:
  assumes "m b = Some B" and "base + data_len \<le> length B" and "c + n \<le> data_len" and "cur < c"
    and "strings_inside b base cur q"
  shows "parse_safe b base data_len (c + n) m
    (coap_oscore_parse_outer_option q num (Some (b, base + c)) n validate m)"
proof -
  have ld: "loads m (Some (b, base + c)) n = Some (bslice B (base + c) n)"
    using assms by (intro loads_block) auto
  have i: "strings_inside b base (c + n) q"
    using assms by (intro strings_inside_mono [OF assms(5)]) simp
  have same: "parse_safe b base data_len (c + n) m (Some (s, q', m))"
    if "p_uri_path q' = p_uri_path q" "p_uri_path_len q' = p_uri_path_len q"
      "p_uri_query q' = p_uri_query q" "p_uri_query_len q' = p_uri_query_len q" for s q'
    using that i strings_inside_cong [of q' q] by (intro parse_safe_same [of m b B, OF assms(1)]) blast
  obtain iv where iv: "coap_parse_int_option m (Some (b, base + c)) n = Some iv"
    using parse_int_total [OF ld] by blast
  show ?thesis
    unfolding coap_oscore_parse_outer_option_def by (simp add: iv same)
qed

lemma parse_option_safe:
  assumes "m b = Some B" and "base + data_len \<le> length B" and "c + n \<le> data_len" and "cur < c"
    and "strings_inside b base cur q"
  shows "parse_safe b base data_len (c + n) m
    (coap_oscore_parse_option cfg q (Some (b, base + c)) inner outer oscore validate num n m)"
proof -
  have ld: "loads m (Some (b, base + c)) n = Some (bslice B (base + c) n)"
    using assms by (intro loads_block) auto
  have i: "strings_inside b base (c + n) q"
    using assms by (intro strings_inside_mono [OF assms(5)]) simp
  have uint: "parse_safe b base data_len (c + n) m (parse_uint m (Some (b, base + c)) n q upd)"
    if "\<And>w. p_uri_path (upd w) = p_uri_path q" "\<And>w. p_uri_path_len (upd w) = p_uri_path_len q"
      "\<And>w. p_uri_query (upd w) = p_uri_query q" "\<And>w. p_uri_query_len (upd w) = p_uri_query_len q" for upd
    using that by (intro parse_uint_parse_safe [of m _ n _ b B, OF ld assms(1) i] strings_inside_cong)
  have same: "parse_safe b base data_len (c + n) m (Some (s, q, m))" for s
    by (rule parse_safe_same [of m b B, OF assms(1) i])
  have sig: "parse_safe b base data_len (c + n) m (do {
      (s, q) \<leftarrow> coap_parse_signal_options q num (Some (b, base + c)) n inner m; Some (s, q, m) })"
    using parse_signal_safe [of m _ n _ b B, OF ld assms(1) i, of num inner] by (auto intro: parse_safe_same [of m b B, OF assms(1)])
  show ?thesis
    unfolding coap_oscore_parse_option_def
    by (simp add: sig same uint parse_inner_safe [of m b B, OF assms] parse_outer_safe [of m b B, OF assms])
qed

lemma load_inside: "m b = Some B \<Longrightarrow> base + k < length B \<Longrightarrow> load m (offset (Some (b, base)) k) = Some (B ! (base + k))"
  by (simp add: load_block)

lemma read_extended_inside:
  assumes "m b = Some B" and "base + cur + 2 \<le> length B"
  shows "\<exists>x c. read_extended m (Some (b, base)) v cur = Some (x, c) \<and> c \<le> cur + 2"
proof -
  have "load m (offset (Some (b, base)) cur) = Some (B ! (base + cur))"
    "load m (offset (Some (b, base)) (cur + 1)) = Some (B ! (base + (cur + 1)))"
    using assms by (simp_all add: load_block)
  then show ?thesis
    by (simp add: read_extended_def del: offset_Some)
qed

lemma option_head_inside:
  assumes "m b = Some B" and "base + cur + 5 \<le> length B"
  shows "\<exists>d l c. option_head m (Some (b, base)) cur = Some (d, l, c)"
proof -
  have ld: "load m (offset (Some (b, base)) cur) = Some (B ! (base + cur))"
    using assms by (intro load_inside) auto
  let ?w = "B ! (base + cur)"
  have "base + (cur + 1) + 2 \<le> length B"
    using assms(2) by simp
  from read_extended_inside [of m b B, OF assms(1) this] obtain d c1
    where r1: "read_extended m (Some (b, base)) (unat (drop_bit 4 ?w)) (cur + 1) = Some (d, c1)" "c1 \<le> cur + 1 + 2"
    by blast
  then have "base + c1 + 2 \<le> length B"
    using assms(2) by simp
  from read_extended_inside [of m b B, OF assms(1) this] obtain l c
    where "read_extended m (Some (b, base)) (unat (?w AND 0x0F)) c1 = Some (l, c)"
    by blast
  with ld r1(1) show ?thesis
    by (simp add: option_head_def del: offset_Some)
qed

lemma strings_inside_SET_OPTION [simp]: "strings_inside b base c (SET_OPTION n q) \<longleftrightarrow> strings_inside b base c q"
  by (rule strings_inside_cong) (simp_all add: SET_OPTION_def)

lemma parse_options_loop_safe:
  assumes "m b = Some B" and "base + data_len + 4 \<le> length B" and "strings_inside b base cur q"
  shows "\<exists>s q' m'. parse_options_loop cfg (Some (b, base)) data_len inner outer oscore validate cur num e q m = Some (s, q', m') \<and>
    region_frame b base (base + data_len) m m'"
  using assms
proof (induction "data_len - cur" arbitrary: cur num e q m B rule: less_induct)
  case less
  let ?P = "parse_options_loop cfg (Some (b, base)) data_len inner outer oscore validate"
  have refl: "region_frame b base (base + data_len) m m"
    using less.prems(1) by (rule region_frame_refl [of m b B])
  show ?case
  proof (cases "cur < data_len")
    case False
    with refl show ?thesis by (auto simp: parse_options_loop_end)
  next
    case True
    have ld: "load m (offset (Some (b, base)) cur) = Some (B ! (base + cur))"
      using less.prems True by (intro load_inside) auto
    obtain d l c where hd: "option_head m (Some (b, base)) cur = Some (d, l, c)"
      using option_head_inside [of m b B base cur] less.prems(1,2) True by auto
    then have c: "cur < c"
      by (rule option_head_gt)
    let ?n = "(num + d) mod 2 ^ 32"
    let ?q = "if ?n \<le> COAP_OPTION_SIZE1 then SET_OPTION ?n q else q"
    show ?thesis
    proof (cases "B ! (base + cur) AND 0xF0 = 0xF0")
      case marker: True
      show ?thesis
        using parse_options_loop_marker [OF True ld marker] refl by blast
    next
      case option: False
      show ?thesis
      proof (cases "c + l \<le> data_len")
        case False
        then have "?P cur num e q m = Some (BAD_REQUEST_4_00, ?q, m)"
          using True option
          by (subst parse_options_loop.simps) (simp only: ld hd Let_def option.case prod.case if_True if_False not_le simp_thms)
        with refl show ?thesis by blast
      next
        case fits: True
        have "parse_safe b base data_len (c + l) m
          (coap_oscore_parse_option cfg ?q (Some (b, base + c)) inner outer oscore validate ?n l m)"
          using less.prems fits c by (intro parse_option_safe [of m b B base data_len c l cur]) auto
        then obtain s q1 m1 where r: "coap_oscore_parse_option cfg ?q (offset (Some (b, base)) c) inner outer oscore validate ?n l m =
            Some (s, q1, m1)" "region_frame b base (base + data_len) m m1" "strings_inside b base (c + l) q1"
          by (auto simp: parse_safe_def)
        let ?e = "if s \<noteq> COAP_NO_ERROR \<and> e < s then s else e"
        have step: "?P cur num e q m =
          (if s \<noteq> COAP_NO_ERROR \<and> (\<not> validate \<or> s = BAD_REQUEST_4_00) then Some (s, q1, m1) else ?P (c + l) ?n ?e q1 m1)"
          using fits
          by (subst parse_options_loop.simps)
             (simp only: True ld option hd r(1) Let_def option.case prod.case if_True if_False not_le simp_thms, simp)
        obtain B1 where B1: "m1 b = Some B1" "length B1 = length B"
          using region_frame_block [of b _ _ m m1 B, OF r(2) less.prems(1)] by blast
        have "\<exists>s q' m'. ?P (c + l) ?n ?e q1 m1 = Some (s, q', m') \<and> region_frame b base (base + data_len) m1 m'"
          using True c B1 r(3) less.prems(2) by (intro less.hyps [where B = B1]) auto
        with step r(2) show ?thesis
          by (auto intro: region_frame_trans)
      qed
    qed
  qed
qed

subsection \<open>Validation does not write\<close>

lemma parse_option_validate_pure:
  "coap_oscore_parse_option cfg q p inner outer oscore True n len m = Some (s, q', m') \<Longrightarrow> m' = m"
  by (auto simp: coap_oscore_parse_option_def coap_oscore_parse_inner_option_def coap_oscore_parse_outer_option_def
      parse_uint_def bind_eq_Some_conv split: if_splits)

lemma parse_options_loop_validate_pure:
  "parse_options_loop cfg data data_len inner outer oscore True cur num e q m = Some (s, q', m') \<Longrightarrow> m' = m"
proof (induction "data_len - cur" arbitrary: cur num e q rule: less_induct)
  case less
  show ?case
  proof (cases "cur < data_len")
    case False
    with less.prems show ?thesis by (simp add: parse_options_loop_end)
  next
    case True
    from less.prems True obtain w where ld: "load m (offset data cur) = Some w"
      by (subst (asm) parse_options_loop.simps) (auto split: option.splits)
    show ?thesis
    proof (cases "w AND 0xF0 = 0xF0")
      case marker: True
      with less.prems parse_options_loop_marker [OF True ld] show ?thesis by simp
    next
      case option: False
      from less.prems True ld option obtain d l c where hd: "option_head m data cur = Some (d, l, c)"
        by (subst (asm) parse_options_loop.simps) (auto split: option.splits)
      let ?n = "(num + d) mod 2 ^ 32"
      let ?q = "if ?n \<le> COAP_OPTION_SIZE1 then SET_OPTION ?n q else q"
      show ?thesis
      proof (cases "coap_oscore_parse_option cfg ?q (offset data c) inner outer oscore True ?n l m")
        case None
        with less.prems True ld option hd show ?thesis
          by (subst (asm) parse_options_loop.simps)
             (simp only: option.case prod.case Let_def if_True if_False simp_thms, auto split: if_splits)
      next
        case (Some r)
        obtain s1 q1 m1 where r: "r = (s1, q1, m1)" by (cases r)
        have "m1 = m"
          using parse_option_validate_pure Some r by blast
        moreover have "data_len - (c + l) < data_len - cur"
          using True option_head_gt [OF hd] by simp
        ultimately show ?thesis
          using less.prems less.hyps True ld option hd Some r
          by (subst (asm) parse_options_loop.simps)
             (simp only: option.case prod.case Let_def if_True if_False simp_thms, auto split: if_splits)
      qed
    qed
  qed
qed

text \<open>
  C3. On arbitrary input \<open>coap_oscore_parse_options\<close> always returns; it reads at most four bytes past
  the end of the message (the extended bytes of the last header) and writes only inside the message,
  so that a message in a receive buffer with four spare bytes is parsed without an access outside
  the buffer and no other memory changes.
\<close>

theorem parse_options_memory_safe:
  assumes "m b = Some B" and "base + data_len + 4 \<le> length B"
    and "p_uri_path_len p = 0" and "p_uri_query_len p = 0"
  shows "\<exists>s q B'. coap_oscore_parse_options cfg p (Some (b, base)) data_len cur inner outer oscore validate m =
      Some (s, q, m(b \<mapsto> B')) \<and> length B' = length B \<and>
    (\<forall>i. i < length B \<and> (i < base \<or> base + data_len \<le> i) \<longrightarrow> B' ! i = B ! i)"
proof (cases "data_len > 2 ^ 32 - 1")
  case True
  then show ?thesis
    using assms(1) by (intro exI [of _ BAD_REQUEST_4_00] exI [of _ p] exI [of _ B])
      (simp add: coap_oscore_parse_options_def fun_upd_idem)
next
  case False
  have "strings_inside b base cur (p\<lparr>p_options := replicate 8 0\<rparr>)"
    using assms(3,4) by (simp add: strings_inside_def)
  then obtain s q m' where r: "parse_options_loop cfg (Some (b, base)) data_len inner outer oscore validate cur 0 COAP_NO_ERROR
      (p\<lparr>p_options := replicate 8 0\<rparr>) m = Some (s, q, m')" "region_frame b base (base + data_len) m m'"
    using parse_options_loop_safe [of m b B base data_len cur] assms(1,2) by blast
  then obtain B' where "m' = m(b \<mapsto> B')" "length B' = length B"
      "\<forall>i < length B. i < base \<or> base + data_len \<le> i \<longrightarrow> B' ! i = B ! i"
    using assms(1) by (auto simp: region_frame_def)
  with r(1) False show ?thesis
    by (intro exI [of _ s] exI [of _ q] exI [of _ B']) (auto simp: coap_oscore_parse_options_def)
qed

lemma parse_options_memory_safe_witness:
  "\<exists>cfg s q B'. coap_oscore_parse_options cfg zero_packet (Some (7, 0)) 1 0 True True False False
     [7 \<mapsto> [0xDE, 1, 2, 3, 4]] = Some (s, q, [7 \<mapsto> B']) \<and> length B' = 5"
proof -
  obtain s q B' where "coap_oscore_parse_options undefined zero_packet (Some (7, 0)) 1 0 True True False False
     [7 \<mapsto> [0xDE, 1, 2, 3, 4]] = Some (s, q, [7 \<mapsto> [0xDE, 1, 2, 3, 4]](7 \<mapsto> B'))" "length B' = length [0xDE, 1, 2, 3, 4 :: u8]"
    using parse_options_memory_safe [of "[7 \<mapsto> [0xDE, 1, 2, 3, 4]]" 7 "[0xDE, 1, 2, 3, 4]" 0 1 zero_packet undefined 0 True True False False]
    by auto
  then show ?thesis
    by (intro exI [of _ undefined] exI [of _ s] exI [of _ q] exI [of _ B']) simp
qed

text \<open>
  With the \<open>validate\<close> flag the parser does not modify the message or any other memory, as its
  documentation promises.
\<close>

theorem parse_options_validate_pure:
  assumes "coap_oscore_parse_options cfg p data data_len cur inner outer oscore True m = Some (s, q, m')"
  shows "m' = m"
  using assms parse_options_loop_validate_pure by (auto simp: coap_oscore_parse_options_def split: if_splits)

lemma parse_options_validate_pure_witness:
  "\<forall>cfg. \<exists>s q. coap_oscore_parse_options cfg zero_packet (Some (0, 0)) 4 0 True True False True
     [0 \<mapsto> [0xB1, 0x61, 1, 0x62, 0, 0, 0, 0]] = Some (s, q, [0 \<mapsto> [0xB1, 0x61, 1, 0x62, 0, 0, 0, 0]])"
proof
  fix cfg
  let ?m = "[0 \<mapsto> [0xB1, 0x61, 1, 0x62, 0, 0, 0, 0]] :: mem"
  have "strings_inside 0 0 0 (zero_packet\<lparr>p_options := replicate 8 0\<rparr>)"
    by (simp add: strings_inside_def)
  then obtain s q m' where "parse_options_loop cfg (Some (0, 0)) 4 True True False True 0 0 COAP_NO_ERROR
      (zero_packet\<lparr>p_options := replicate 8 0\<rparr>) ?m = Some (s, q, m')"
    using parse_options_loop_safe [of ?m 0 "[0xB1, 0x61, 1, 0x62, 0, 0, 0, 0]" 0 4 0] by fastforce
  then have r: "coap_oscore_parse_options cfg zero_packet (Some (0, 0)) 4 0 True True False True ?m = Some (s, q, m')"
    by (simp add: coap_oscore_parse_options_def)
  with parse_options_validate_pure [OF r]
  show "\<exists>s q. coap_oscore_parse_options cfg zero_packet (Some (0, 0)) 4 0 True True False True ?m = Some (s, q, ?m)"
    by blast
qed


end
