(* ===== verification/CoapMessage.thy ===== *)
theory CoapMessage
  imports CoapParseSafety
begin

text \<open>
  Whole CoAP messages of \<open>src/messaging/coap/coap.c\<close>: the UDP header, the TCP header with its variable
  length field, the serializer and the two parsers of messages.
\<close>

subsection \<open>The length field of CoAP over TCP\<close>

text \<open>\<open>COAP_PAYLOAD_MARKER_LEN + packet->payload_len\<close> is computed in 32 bits.\<close>

definition marked_payload_len :: "coap_packet \<Rightarrow> nat" where
  "marked_payload_len p = unat (1 + p_payload_len p)"

text \<open>
  The result is the number of extended bytes, the nibble and the value of the extended bytes;
  \<open>num_extended_length_bytes\<close> is only set when there are some.
\<close>

definition coap_tcp_compute_message_length ::
  "coap_packet \<Rightarrow> nat \<Rightarrow> nat \<Rightarrow> nat \<times> nat \<times> nat" where
  "coap_tcp_compute_message_length p option_length num_extended_length_bytes =
     (let total_length = option_length + (if p_payload_len p > 0 then marked_payload_len p else 0) in
      if total_length < COAP_TCP_EXTENDED_LENGTH_1_DEFAULT_LEN then
        (num_extended_length_bytes, total_length, 0)
      else if total_length < COAP_TCP_EXTENDED_LENGTH_2_DEFAULT_LEN then
        (1, 13, total_length - COAP_TCP_EXTENDED_LENGTH_1_DEFAULT_LEN)
      else if total_length < COAP_TCP_EXTENDED_LENGTH_3_DEFAULT_LEN then
        (2, 14, total_length - COAP_TCP_EXTENDED_LENGTH_2_DEFAULT_LEN)
      else (4, 15, total_length - COAP_TCP_EXTENDED_LENGTH_3_DEFAULT_LEN))"

text \<open>The loop \<open>for (i = 1; i <= n; i++) buffer[i] = (uint8_t)(extended_len >> (8 * (n - i)))\<close>.\<close>

function put_extended_length :: "ptr \<Rightarrow> nat \<Rightarrow> nat \<Rightarrow> nat \<Rightarrow> mem \<Rightarrow> mem option" where
  "put_extended_length buffer n extended_len i m =
     (if i \<le> n then
        (case put_byte buffer i (of_nat (drop_bit (8 * (n - i)) extended_len)) m of
           None \<Rightarrow> None
         | Some m \<Rightarrow> put_extended_length buffer n extended_len (i + 1) m)
      else Some m)"
  by pat_completeness auto
termination
  by (relation "measure (\<lambda>(buffer, n, extended_len, i, m). n + 1 - i)") auto

declare put_extended_length.simps [simp del]

definition coap_tcp_set_header_length :: "coap_packet \<Rightarrow> nat \<Rightarrow> u8 \<Rightarrow> nat \<Rightarrow> mem \<Rightarrow> mem option" where
  "coap_tcp_set_header_length p num_extended_length_bytes len extended_len m =
     (if num_extended_length_bytes \<le> 4 \<and> p_buffer p \<noteq> None then do {
        m \<leftarrow> put_byte (p_buffer p) 0 ((0xF0 AND push_bit 4 len) OR (0x0F AND of_nat (p_token_len p))) m;
        put_extended_length (p_buffer p) num_extended_length_bytes extended_len 1 m
      } else None)"

definition coap_tcp_set_header_fields :: "coap_packet \<Rightarrow> nat \<Rightarrow> u8 \<Rightarrow> nat \<Rightarrow> mem \<Rightarrow> mem option" where
  "coap_tcp_set_header_fields p num_extended_length_bytes len extended_len m = do {
     m \<leftarrow> coap_tcp_set_header_length p num_extended_length_bytes len extended_len m;
     put_byte (p_buffer p) (1 + num_extended_length_bytes) (p_code p) m
   }"

text \<open>
  The result is \<^term>\<open>None\<close> for an access outside the buffer, \<^term>\<open>Some None\<close> for \<open>false\<close>, and otherwise
  the message length with the number of extended bytes.
\<close>

definition coap_tcp_parse_message_length :: "ptr \<Rightarrow> nat \<Rightarrow> mem \<Rightarrow> (nat \<times> nat) option option" where
  "coap_tcp_parse_message_length data data_size m = do {
     b \<leftarrow> load m data;
     let tcp_len = unat (drop_bit 4 (0xF0 AND b));
     if tcp_len < 13 then Some (Some (tcp_len, 0))
     else
       (let extended_bytes = push_bit (tcp_len - 13) 1 in
        if data_size < extended_bytes + 1 then Some None
        else do {
          bs \<leftarrow> loads m (offset data 1) extended_bytes;
          let len = unat (foldl (\<lambda>acc (i, b). acc OR push_bit (8 * (extended_bytes - i)) (ucast b))
                             (0 :: u32) (zip [1..<extended_bytes + 1] bs));
          Some (Some (len + (if tcp_len = 13 then COAP_TCP_EXTENDED_LENGTH_1_DEFAULT_LEN
                             else if tcp_len = 14 then COAP_TCP_EXTENDED_LENGTH_2_DEFAULT_LEN
                             else COAP_TCP_EXTENDED_LENGTH_3_DEFAULT_LEN), extended_bytes))
        })
   }"

text \<open>The value -1 is \<^term>\<open>Some None\<close>.\<close>

definition coap_tcp_get_packet_size :: "ptr \<Rightarrow> nat \<Rightarrow> mem \<Rightarrow> nat option option" where
  "coap_tcp_get_packet_size data data_size m = do {
     r \<leftarrow> coap_tcp_parse_message_length data data_size m;
     (case r of
        None \<Rightarrow> Some None
      | Some (message_length, num_extended_length_bytes) \<Rightarrow> do {
          b \<leftarrow> load m data;
          Some (Some (COAP_TCP_DEFAULT_HEADER_LEN + num_extended_length_bytes + unat (0x0F AND b) + message_length))
        })
   }"

subsection \<open>Serializing a message\<close>

definition coap_udp_set_header_fields :: "coap_packet \<Rightarrow> mem \<Rightarrow> mem option" where
  "coap_udp_set_header_fields p m =
     (if p_buffer p = None then None
      else do {
        m \<leftarrow> put_byte (p_buffer p) 0 ((0xC0 AND push_bit 6 (p_version p)) OR
               (0x30 AND push_bit 4 (of_nat (message_type_value (p_type p)))) OR
               (0x0F AND of_nat (p_token_len p))) m;
        m \<leftarrow> put_byte (p_buffer p) 1 (p_code p) m;
        m \<leftarrow> put_byte (p_buffer p) 2 (ucast (drop_bit 8 (p_mid p))) m;
        put_byte (p_buffer p) 3 (ucast (p_mid p)) m
      })"

definition coap_check_header_size :: "coap_cfg \<Rightarrow> nat \<Rightarrow> nat \<Rightarrow> bool" where
  "coap_check_header_size cfg header_size buffer_size \<longleftrightarrow>
     \<not> header_size > coap_max_header_size cfg \<and> \<not> (buffer_size > 0 \<and> header_size > buffer_size)"

record header_size_result =
  h_size :: nat
  h_extended_length :: nat
  h_length :: nat
  h_num_extended_length_bytes :: nat
  h_token_location :: nat

definition coap_calculate_header_size ::
  "coap_cfg \<Rightarrow> coap_packet \<Rightarrow> bool \<Rightarrow> bool \<Rightarrow> bool \<Rightarrow> nat \<Rightarrow> mem \<Rightarrow> header_size_result option" where
  "coap_calculate_header_size cfg p inner outer oscore token_len m = do {
     (n, _) \<leftarrow> coap_serialize_options cfg p None inner outer oscore m;
     if \<not> outer then
       Some \<lparr>h_size = n, h_extended_length = 0, h_length = 0, h_num_extended_length_bytes = 0, h_token_location = 0\<rparr>
     else if p_transport_type p = COAP_TRANSPORT_TCP then
       (case coap_tcp_compute_message_length p n 0 of (ne, len, ext) \<Rightarrow>
          Some \<lparr>h_size = n + token_len + (COAP_TCP_DEFAULT_HEADER_LEN + ne), h_extended_length = ext, h_length = len,
                h_num_extended_length_bytes = ne, h_token_location = COAP_TCP_DEFAULT_HEADER_LEN + ne\<rparr>)
     else
       Some \<lparr>h_size = n + token_len + COAP_HEADER_LEN, h_extended_length = 0, h_length = 0,
             h_num_extended_length_bytes = 0, h_token_location = COAP_HEADER_LEN\<rparr>
   }"

text \<open>The end of the serializer: options from \<open>option\<close> on, the assertion on the size, and the payload.\<close>

definition serialize_tail ::
  "coap_cfg \<Rightarrow> coap_packet \<Rightarrow> nat \<Rightarrow> bool \<Rightarrow> bool \<Rightarrow> bool \<Rightarrow> nat \<Rightarrow> nat \<Rightarrow> mem \<Rightarrow>
   (nat \<times> coap_packet \<times> mem) option" where
  "serialize_tail cfg p buffer_size inner outer oscore header_size option m = do {
     (written, m) \<leftarrow> coap_serialize_options cfg p (offset (p_buffer p) option) inner outer oscore m;
     let option = option + written;
     let buffer_size = (buffer_size + 2 ^ 64 - header_size) mod 2 ^ 64;
     if header_size \<noteq> option then None
     else if p_payload_len p > 0 then
       (if buffer_size < unat (p_payload_len p + 1) then Some (0, p\<lparr>p_buffer := None\<rparr>, m)
        else do {
          m \<leftarrow> stores m (offset (p_buffer p) option) [COAP_PAYLOAD_MARKER];
          bs \<leftarrow> loads m (p_payload p) (unat (p_payload_len p));
          m \<leftarrow> stores m (offset (p_buffer p) (option + 1)) bs;
          Some (option + 1 + unat (p_payload_len p), p, m)
        })
     else Some (option, p, m)
   }"

definition coap_oscore_serialize_message ::
  "coap_cfg \<Rightarrow> coap_packet \<Rightarrow> ptr \<Rightarrow> nat \<Rightarrow> bool \<Rightarrow> bool \<Rightarrow> bool \<Rightarrow> mem \<Rightarrow> (nat \<times> coap_packet \<times> mem) option" where
  "coap_oscore_serialize_message cfg p buffer buffer_size inner outer oscore m =
     (let p = p\<lparr>p_buffer := buffer, p_version := 1\<rparr> in do {
        hdr \<leftarrow> coap_calculate_header_size cfg p inner outer oscore (p_token_len p) m;
        if \<not> coap_check_header_size cfg (h_size hdr) buffer_size then Some (0, p, m)
        else if outer then do {
          m \<leftarrow> (if p_transport_type p = COAP_TRANSPORT_TCP
                then coap_tcp_set_header_fields p (h_num_extended_length_bytes hdr) (of_nat (h_length hdr))
                       (h_extended_length hdr) m
                else coap_udp_set_header_fields p m);
          if p_code p = 0 then Some (h_token_location hdr, p, m)
          else do {
            m \<leftarrow> stores m (offset buffer (h_token_location hdr)) (take (p_token_len p) (p_token p));
            serialize_tail cfg p buffer_size inner outer oscore (h_size hdr) (h_token_location hdr + p_token_len p) m
          }
        } else if \<not> coap_check_header_size cfg (h_size hdr + 1) buffer_size then
          Some (0, p\<lparr>p_buffer := None\<rparr>, m)
        else do {
          m \<leftarrow> stores m buffer [p_code p];
          serialize_tail cfg p buffer_size inner outer oscore (h_size hdr + 1) 1 m
        }
      })"

definition coap_serialize_message ::
  "coap_cfg \<Rightarrow> coap_packet \<Rightarrow> ptr \<Rightarrow> nat \<Rightarrow> mem \<Rightarrow> (nat \<times> coap_packet \<times> mem) option" where
  "coap_serialize_message cfg p buffer buffer_size m =
     coap_oscore_serialize_message cfg p buffer buffer_size True True False m"

subsection \<open>Parsing a message\<close>

definition coap_udp_parse_message ::
  "coap_cfg \<Rightarrow> ptr \<Rightarrow> nat \<Rightarrow> bool \<Rightarrow> coap_packet \<Rightarrow> mem \<Rightarrow> parse_result" where
  "coap_udp_parse_message cfg data data_len validate packet m =
     (if data_len > 65535 then Some (BAD_REQUEST_4_00, packet, m)
      else do {
        b0 \<leftarrow> load m data;
        b1 \<leftarrow> load m (offset data 1);
        b2 \<leftarrow> load m (offset data 2);
        b3 \<leftarrow> load m (offset data 3);
        let p = zero_packet\<lparr>p_buffer := data, p_transport_type := COAP_TRANSPORT_UDP,
                  p_version := drop_bit 6 (0xC0 AND b0),
                  p_type := message_type_of (unat (drop_bit 4 (0x30 AND b0))),
                  p_token_len := unat (0x0F AND b0), p_code := b1,
                  p_mid := push_bit 8 (ucast b2) OR ucast b3\<rparr>;
        if p_version p \<noteq> 1 then Some (BAD_REQUEST_4_00, p, m)
        else if p_token_len p > COAP_TOKEN_LEN then Some (BAD_REQUEST_4_00, p, m)
        else do {
          tok \<leftarrow> loads m (offset data COAP_HEADER_LEN) (p_token_len p);
          coap_oscore_parse_options cfg (p\<lparr>p_token := write_at (p_token p) 0 tok\<rparr>) data data_len
            (COAP_HEADER_LEN + p_token_len p) True True False validate m
        }
      })"

definition coap_tcp_parse_message ::
  "coap_cfg \<Rightarrow> ptr \<Rightarrow> nat \<Rightarrow> bool \<Rightarrow> coap_packet \<Rightarrow> mem \<Rightarrow> parse_result" where
  "coap_tcp_parse_message cfg data data_len validate packet m =
     (if data_len > 2 ^ 32 - 1 then Some (BAD_REQUEST_4_00, packet, m)
      else do {
        let p = zero_packet\<lparr>p_buffer := data, p_transport_type := COAP_TRANSPORT_TCP\<rparr>;
        r \<leftarrow> coap_tcp_parse_message_length data data_len m;
        (case r of
           None \<Rightarrow> Some (BAD_REQUEST_4_00, p, m)
         | Some (message_length, num_extended_length_bytes) \<Rightarrow> do {
             b0 \<leftarrow> load m data;
             code \<leftarrow> load m (offset data (1 + num_extended_length_bytes));
             let p = p\<lparr>p_type := COAP_TYPE_NON, p_mid := 0, p_token_len := unat (0x0F AND b0), p_code := code\<rparr>;
             if p_token_len p > COAP_TOKEN_LEN then Some (BAD_REQUEST_4_00, p, m)
             else do {
               tok \<leftarrow> loads m (offset data (COAP_TCP_DEFAULT_HEADER_LEN + num_extended_length_bytes)) (p_token_len p);
               coap_oscore_parse_options cfg (p\<lparr>p_token := write_at (p_token p) 0 tok\<rparr>) data data_len
                 (COAP_TCP_DEFAULT_HEADER_LEN + num_extended_length_bytes + p_token_len p) True True False validate m
             }
           })
      })"

subsection \<open>Headers as byte strings\<close>

definition tcp_ext_bytes :: "nat \<Rightarrow> nat \<Rightarrow> bytes" where
  "tcp_ext_bytes n v = map (\<lambda>i. of_nat (drop_bit (8 * (n - i)) v)) [1..<n + 1]"

lemma emit_Cons: "emit b (x # xs) m = Option.bind (emit b [x] m) (emit (offset b 1) xs)"
  using emit_append [of b "[x]" xs m] by simp

lemma put_extended_length_emit:
  "put_extended_length b n v i m = emit (offset b i) (map (\<lambda>i. of_nat (drop_bit (8 * (n - i)) v)) [i..<n + 1]) m"
proof (induction "n + 1 - i" arbitrary: i m)
  case 0
  then show ?case
    by (subst put_extended_length.simps) simp
next
  case (Suc k)
  then have "i \<le> n" and "[i..<n + 1] = i # [Suc i..<n + 1]"
    by (auto simp: upt_conv_Cons)
  with Suc(1) [of "Suc i"] Suc(2) show ?case
    by (subst put_extended_length.simps)
       (auto simp: put_byte_def emit_Cons [of _ _ "map _ _"] split: option.split)
qed

lemma length_tcp_ext_bytes [simp]: "length (tcp_ext_bytes n v) = n"
  by (simp add: tcp_ext_bytes_def)

definition tcp_header :: "nat \<Rightarrow> nat \<Rightarrow> nat \<Rightarrow> nat \<Rightarrow> u8 \<Rightarrow> bytes" where
  "tcp_header ne len ext tkl code =
     ((0xF0 AND push_bit 4 (of_nat len)) OR (0x0F AND of_nat tkl)) # tcp_ext_bytes ne ext @ [code]"

definition udp_header :: "coap_packet \<Rightarrow> bytes" where
  "udp_header p =
     [(0xC0 AND push_bit 6 (p_version p)) OR (0x30 AND push_bit 4 (of_nat (message_type_value (p_type p)))) OR
        (0x0F AND of_nat (p_token_len p)), p_code p, ucast (drop_bit 8 (p_mid p)), ucast (p_mid p)]"

lemma tcp_set_header_fields_emit:
  assumes "ne \<le> 4" and "p_buffer p \<noteq> None"
  shows "coap_tcp_set_header_fields p ne (of_nat len) ext m =
    emit (p_buffer p) (tcp_header ne len ext (p_token_len p) (p_code p)) m"
  using assms
  by (cases "emit (p_buffer p) [(0xF0 AND push_bit 4 (of_nat len)) OR (0x0F AND of_nat (p_token_len p))] m")
     (auto simp: coap_tcp_set_header_fields_def coap_tcp_set_header_length_def put_extended_length_emit put_byte_def
      tcp_header_def emit_Cons [of _ _ "_ @ _"] emit_append tcp_ext_bytes_def not_less_eq_eq)

lemma emit4:
  "Option.bind (emit b [w] m) (\<lambda>m. Option.bind (emit (offset b (Suc 0)) [x] m)
     (\<lambda>m. Option.bind (emit (offset b 2) [y] m) (emit (offset b 3) [z]))) = emit b [w, x, y, z] m"
proof -
  have "emit b [w, x, y, z] m = Option.bind (emit b [w, x] m) (emit (offset b 2) [y, z])"
    using emit_append [of b "[w, x]" "[y, z]" m] by (simp add: numeral_2_eq_2)
  also have "\<dots> = Option.bind (emit b [w, x] m) (\<lambda>m. Option.bind (emit (offset b 2) [y] m) (emit (offset b 3) [z]))"
    using emit_append [of "offset b 2" "[y]" "[z]"] by (cases "emit b [w, x] m") simp_all
  also have "emit b [w, x] m = Option.bind (emit b [w] m) (emit (offset b (Suc 0)) [x])"
    using emit_append [of b "[w]" "[x]" m] by simp
  finally show ?thesis by simp
qed

lemma udp_set_header_fields_emit:
  "p_buffer p \<noteq> None \<Longrightarrow> coap_udp_set_header_fields p m = emit (p_buffer p) (udp_header p) m"
  by (simp add: coap_udp_set_header_fields_def udp_header_def put_byte_def emit4)

lemma length_tcp_header [simp]: "length (tcp_header ne len ext tkl code) = 2 + ne"
  by (simp add: tcp_header_def)

lemma length_udp_header [simp]: "length (udp_header p) = 4"
  by (simp add: udp_header_def)

subsection \<open>The first byte of the headers\<close>

lemma nibble_byte:
  fixes a b :: u8
  shows "drop_bit 4 (0xF0 AND ((0xF0 AND push_bit 4 a) OR (0x0F AND b))) = take_bit 4 a"
    "0x0F AND ((0xF0 AND push_bit 4 a) OR (0x0F AND b)) = take_bit 4 b"
proof -
  have m: "(0xF0 :: u8) = push_bit 4 (mask 4)" "(0x0F :: u8) = mask 4"
    by (simp_all add: mask_eq_exp_minus_1)
  show "drop_bit 4 (0xF0 AND ((0xF0 AND push_bit 4 a) OR (0x0F AND b))) = take_bit 4 a"
    unfolding m by (rule bit_word_eqI) (auto simp: bit_simps)
  show "0x0F AND ((0xF0 AND push_bit 4 a) OR (0x0F AND b)) = take_bit 4 b"
    unfolding m by (rule bit_word_eqI) (auto simp: bit_simps)
qed

lemma udp_byte:
  fixes v t k :: u8
  shows "drop_bit 6 (0xC0 AND ((0xC0 AND push_bit 6 v) OR (0x30 AND push_bit 4 t) OR (0x0F AND k))) = take_bit 2 v"
    "drop_bit 4 (0x30 AND ((0xC0 AND push_bit 6 v) OR (0x30 AND push_bit 4 t) OR (0x0F AND k))) = take_bit 2 t"
    "0x0F AND ((0xC0 AND push_bit 6 v) OR (0x30 AND push_bit 4 t) OR (0x0F AND k)) = take_bit 4 k"
proof -
  have m: "(0xC0 :: u8) = push_bit 6 (mask 2)" "(0x30 :: u8) = push_bit 4 (mask 2)" "(0x0F :: u8) = mask 4"
    by (simp_all add: mask_eq_exp_minus_1)
  show "drop_bit 6 (0xC0 AND ((0xC0 AND push_bit 6 v) OR (0x30 AND push_bit 4 t) OR (0x0F AND k))) = take_bit 2 v"
    unfolding m by (rule bit_word_eqI) (auto simp: bit_simps)
  show "drop_bit 4 (0x30 AND ((0xC0 AND push_bit 6 v) OR (0x30 AND push_bit 4 t) OR (0x0F AND k))) = take_bit 2 t"
    unfolding m by (rule bit_word_eqI) (auto simp: bit_simps)
  show "0x0F AND ((0xC0 AND push_bit 6 v) OR (0x30 AND push_bit 4 t) OR (0x0F AND k)) = take_bit 4 k"
    unfolding m by (rule bit_word_eqI) (auto simp: bit_simps)
qed

lemma unat_take_bit_of_nat:
  "n < 2 ^ k \<Longrightarrow> k \<le> 8 \<Longrightarrow> unat (take_bit k (of_nat n :: u8)) = n"
proof -
  assume "n < 2 ^ k" "k \<le> 8"
  moreover from this have "n < 2 ^ 8"
    using power_increasing [of k 8 "2 :: nat"] by simp
  ultimately show ?thesis
    by (simp add: unsigned_take_bit_eq unsigned_of_nat take_bit_nat_eq_self)
qed

lemma mid_bytes:
  fixes w :: u16
  shows "push_bit 8 (ucast (ucast (drop_bit 8 w) :: u8)) OR ucast (ucast w :: u8) = w" (is "?l = w")
proof (rule bit_word_eqI)
  fix n :: nat
  assume "n < LENGTH(16)"
  then consider "n < 8" | "8 \<le> n" "n < 16"
    by fastforce
  then show "bit ?l n \<longleftrightarrow> bit w n"
    by cases (auto simp: bit_simps)
qed

subsection \<open>The length field is read back\<close>

lemma list_of_length:
  "length bs = 1 \<Longrightarrow> \<exists>x. bs = [x]" "length bs = 2 \<Longrightarrow> \<exists>x y. bs = [x, y]"
  "length bs = 4 \<Longrightarrow> \<exists>w x y z. bs = [w, x, y, z]"
  by (auto simp: length_Suc_conv numeral_eq_Suc)

lemma be_value_4: "foldl (\<lambda>acc (i, b). acc OR push_bit (8 * (n - i)) (ucast b)) (0 :: u32) (zip [1..<n + 1] bs) = be_value bs"
  if "length bs = n" "n = 1 \<or> n = 2 \<or> n = 4"
proof -
  have up: "[1..<1 + 1] = [1 :: nat]" "[1..<2 + 1] = [1, 2 :: nat]" "[1..<4 + 1] = [1, 2, 3, 4 :: nat]"
    by (simp_all add: upt_rec)
  from that(2) consider "n = 1" | "n = 2" | "n = 4" by blast
  then show ?thesis
  proof cases
    case 1
    with that(1) obtain x where "bs = [x]"
      using list_of_length(1) by blast
    with 1 up show ?thesis by (simp add: be_value_def)
  next
    case 2
    with that(1) obtain x y where bs: "bs = [x, y]"
      using list_of_length(2) by blast
    show ?thesis
      unfolding bs 2 up be_value_def by simp
  next
    case 3
    with that(1) obtain w x y z where bs: "bs = [w, x, y, z]"
      using list_of_length(3) by blast
    show ?thesis
      unfolding bs 3 up be_value_def by (simp add: push_bit_or)
  qed
qed

lemma unat_push_or:
  fixes v :: u32 and b :: u8
  assumes "unat v < 2 ^ 24"
  shows "unat (push_bit 8 v OR ucast b) = 256 * unat v + unat b"
proof -
  have "push_bit 8 v OR ucast b = push_bit 8 v + ucast b"
    by (rule disjunctive_add [symmetric]) (auto simp: bit_simps)
  also have "\<dots> = of_nat (256 * unat v + unat b)"
    by (simp add: push_bit_eq_mult)
  finally have "unat (push_bit 8 v OR ucast b) = unat (of_nat (256 * unat v + unat b) :: u32)"
    by simp
  also have "\<dots> = 256 * unat v + unat b"
    using assms unsigned_less [where ?'a = nat, of b] by (simp only: unsigned_of_nat) (simp add: take_bit_nat_eq_self)
  finally show ?thesis .
qed

lemma be_value_append: "be_value (bs @ [b]) = push_bit 8 (be_value bs) OR ucast b"
  by (simp add: be_value_def)

lemma be_value_nat:
  "length bs \<le> 4 \<Longrightarrow> unat (be_value bs) = foldl (\<lambda>a b. 256 * a + unat b) 0 bs \<and> unat (be_value bs) < 256 ^ length bs"
proof (induction bs rule: rev_induct)
  case Nil
  then show ?case by (simp add: be_value_def)
next
  case (snoc b bs)
  then have IH: "unat (be_value bs) = foldl (\<lambda>a b. 256 * a + unat b) 0 bs" "unat (be_value bs) < 256 ^ length bs"
    by auto
  have "(256 :: nat) ^ length bs \<le> 256 ^ 3"
    using snoc.prems by (intro power_increasing) auto
  with IH have "unat (be_value bs) < 2 ^ 24"
    by simp
  from unat_push_or [OF this, of b] IH unsigned_less [where ?'a = nat, of b] show ?case
    by (simp add: be_value_append)
qed

lemma be_value_tcp_ext:
  assumes "v < 256 ^ n" and "n = 1 \<or> n = 2 \<or> n = 4"
  shows "unat (be_value (tcp_ext_bytes n v)) = v"
proof -
  have b: "unat (of_nat k :: u8) = k mod 256" for k
    by (simp add: unsigned_of_nat take_bit_eq_mod)
  have n: "unat (be_value (tcp_ext_bytes n v)) = foldl (\<lambda>a b. 256 * a + unat b) 0 (tcp_ext_bytes n v)"
    using be_value_nat [of "tcp_ext_bytes n v"] assms(2) by auto
  have two: "256 * (k div 256) + k mod 256 = k" for k :: nat
    by simp
  from assms(2) show ?thesis
  proof (elim disjE)
    assume "n = 1"
    with assms(1) n show ?thesis
      by (simp add: tcp_ext_bytes_def b)
  next
    assume "n = 2"
    with assms(1) n show ?thesis
      by (simp add: tcp_ext_bytes_def b upt_rec drop_bit_eq_div)
  next
    assume n4: "n = 4"
    have "v div 256 div 256 div 256 < 256"
      using assms(1) n4 by (simp add: div_less_iff_less_mult)
    then have "256 * (256 * (256 * (v div 256 div 256 div 256 mod 256) + v div 256 div 256 mod 256) + v div 256 mod 256) + v mod 256 = v"
      by simp
    moreover have "drop_bit 24 v = v div 256 div 256 div 256" "drop_bit 16 v = v div 256 div 256" "drop_bit 8 v = v div 256"
      by (simp_all add: drop_bit_eq_div div_mult2_eq [symmetric])
    ultimately show ?thesis
      using n n4 by (simp add: tcp_ext_bytes_def b upt_rec)
  qed
qed

lemma tcp_header_parsed:
  assumes "coap_tcp_compute_message_length p option_length 0 = (ne, len, ext)"
    and "tlen = option_length + (if p_payload_len p > 0 then marked_payload_len p else 0)"
    and "tlen < 65805 + 2 ^ 32" and "p_token_len p < 16" and "ne + 1 \<le> data_size"
    and h: "loads m' buffer (2 + ne) = Some (tcp_header ne len ext (p_token_len p) (p_code p))"
  shows "coap_tcp_parse_message_length buffer data_size m' = Some (Some (tlen, ne)) \<and>
    coap_tcp_get_packet_size buffer data_size m' = Some (Some (2 + ne + p_token_len p + tlen))"
proof -
  have c: "(ne = 0 \<and> len = tlen \<and> tlen < 13) \<or> (ne = 1 \<and> len = 13 \<and> ext = tlen - 13 \<and> 13 \<le> tlen \<and> tlen < 269) \<or>
    (ne = 2 \<and> len = 14 \<and> ext = tlen - 269 \<and> 269 \<le> tlen \<and> tlen < 65805) \<or> (ne = 4 \<and> len = 15 \<and> ext = tlen - 65805 \<and> 65805 \<le> tlen)"
    using assms(1,2) by (auto simp: coap_tcp_compute_message_length_def Let_def split: if_splits)
  have len: "len < 16"
    using c by auto
  let ?b0 = "(0xF0 AND push_bit 4 (of_nat len)) OR (0x0F AND of_nat (p_token_len p)) :: u8"
  have b0: "load m' buffer = Some ?b0"
    using load_nth [OF h, of 0] by (simp add: tcp_header_def)
  have x: "loads m' (offset buffer 1) ne = Some (tcp_ext_bytes ne ext)"
    using loads_part [OF h, of 1 ne] by (simp add: tcp_header_def bslice_def)
  have l: "unat (drop_bit 4 (0xF0 AND ?b0)) = len"
    unfolding nibble_byte using len by (intro unat_take_bit_of_nat) simp_all
  have t: "unat (0x0F AND ?b0) = p_token_len p"
    unfolding nibble_byte using assms(4) by (intro unat_take_bit_of_nat) simp_all
  have pl: "coap_tcp_parse_message_length buffer data_size m' = Some (Some (tlen, ne))"
  proof (cases "ne = 0")
    case True
    with c show ?thesis
      unfolding coap_tcp_parse_message_length_def b0 Option.bind.simps Let_def l by auto
  next
    case False
    then have n: "ne = 1 \<or> ne = 2 \<or> ne = 4" and pb: "push_bit (len - 13) 1 = ne" and l13: "\<not> len < 13"
      using c by auto
    have "ext < 256 ^ ne"
      using c False assms(3) by auto
    then have e: "unat (be_value (tcp_ext_bytes ne ext)) = ext"
      using n by (rule be_value_tcp_ext)
    have z: "foldl (\<lambda>acc (i, b). acc OR push_bit (8 * (ne - i)) (ucast b)) (0 :: u32) (zip [1..<ne + 1] (tcp_ext_bytes ne ext)) =
        be_value (tcp_ext_bytes ne ext)"
      using n by (intro be_value_4) simp_all
    have "coap_tcp_parse_message_length buffer data_size m' =
      Some (Some (ext + (if len = 13 then 13 else if len = 14 then 269 else 65805), ne))"
      unfolding coap_tcp_parse_message_length_def b0 Option.bind.simps Let_def l pb if_not_P [OF l13] x z e
      using assms(5) by simp
    with c False show ?thesis
      by auto
  qed
  then show ?thesis
    unfolding coap_tcp_get_packet_size_def pl Option.bind.simps option.case prod.case b0 t by simp
qed

text \<open>
  C17. The length field of CoAP over TCP is a code: for a message of options and payload with total
  length below 65805 + 2^32 the header written by \<open>coap_tcp_set_header_fields\<close> is read back by
  \<open>coap_tcp_parse_message_length\<close> with the same total length and number of extended bytes, and
  \<open>coap_tcp_get_packet_size\<close> announces the exact size of the message, from any prefix that contains
  the header.
\<close>

theorem tcp_length_round_trip:
  assumes "coap_tcp_compute_message_length p option_length 0 = (ne, len, ext)"
    and "tlen = option_length + (if p_payload_len p > 0 then marked_payload_len p else 0)"
    and "tlen < 65805 + 2 ^ 32" and "p_token_len p < 16" and "p_buffer p \<noteq> None"
    and "coap_tcp_set_header_fields p ne (of_nat len) ext m = Some m'" and "ne + 1 \<le> data_size"
  shows "coap_tcp_parse_message_length (p_buffer p) data_size m' = Some (Some (tlen, ne)) \<and>
    coap_tcp_get_packet_size (p_buffer p) data_size m' = Some (Some (2 + ne + p_token_len p + tlen))"
proof -
  have "ne \<le> 4"
    using assms(1) by (auto simp: coap_tcp_compute_message_length_def Let_def split: if_splits)
  then have "loads m' (p_buffer p) (2 + ne) = Some (tcp_header ne len ext (p_token_len p) (p_code p))"
    using assms(5,6) loads_emit_same [of "p_buffer p" "tcp_header ne len ext (p_token_len p) (p_code p)" m m']
    by (simp add: tcp_set_header_fields_emit)
  with assms show ?thesis
    by (intro tcp_header_parsed)
qed

lemma tcp_length_round_trip_witness:
  "\<exists>m'. coap_tcp_set_header_fields (zero_packet\<lparr>p_buffer := Some (0, 0), p_payload_len := 300\<rparr>) 2 14 42 [0 \<mapsto> [0, 0, 0, 0]] = Some m' \<and>
     coap_tcp_get_packet_size (Some (0, 0)) 3 m' = Some (Some 315)"
proof -
  let ?p = "zero_packet\<lparr>p_buffer := Some (0, 0), p_payload_len := 300\<rparr>"
  have c: "coap_tcp_compute_message_length ?p 10 0 = (2, 14, 42)" "marked_payload_len ?p = 301"
    by (simp_all add: coap_tcp_compute_message_length_def marked_payload_len_def)
  have s: "coap_tcp_set_header_fields ?p 2 (of_nat 14) 42 [0 \<mapsto> [0, 0, 0, 0]] = Some [0 \<mapsto> [0xE0, 0, 42, 0]]"
    by (subst tcp_set_header_fields_emit)
       (simp_all add: tcp_header_def tcp_ext_bytes_def emit_Some stores_block upt_rec write_at_def zero_packet_def)
  show ?thesis
    using tcp_length_round_trip [of ?p 10 2 14 42 311 "[0 \<mapsto> [0, 0, 0, 0]]" _ 3, OF c(1) _ _ _ _ s] c(2) s by auto
qed

subsection \<open>The bytes of a message\<close>

definition message_header :: "coap_packet \<Rightarrow> nat \<Rightarrow> bytes" where
  "message_header p option_length =
     (if p_transport_type p = COAP_TRANSPORT_TCP
      then (case coap_tcp_compute_message_length p option_length 0 of (ne, len, ext) \<Rightarrow>
              tcp_header ne len ext (p_token_len p) (p_code p))
      else udp_header (p\<lparr>p_version := 1\<rparr>))"

text \<open>Everything in front of the payload marker.\<close>

definition message_head :: "coap_cfg \<Rightarrow> coap_packet \<Rightarrow> packet_strings \<Rightarrow> bytes" where
  "message_head cfg p ss =
     message_header p (length (enc_opts 0 (all_options cfg p ss True True))) @
     take (p_token_len p) (p_token p) @ enc_opts 0 (all_options cfg p ss True True)"

definition message_bytes :: "coap_cfg \<Rightarrow> coap_packet \<Rightarrow> packet_strings \<Rightarrow> bytes \<Rightarrow> bytes" where
  "message_bytes cfg p ss payload =
     message_head cfg p ss @ (if p_payload_len p > 0 then COAP_PAYLOAD_MARKER # payload else [])"

text \<open>The payload is not touched when \<open>n\<close> bytes are written to the buffer.\<close>

definition payload_apart :: "ptr \<Rightarrow> nat \<Rightarrow> ptr \<Rightarrow> bool" where
  "payload_apart buffer n q \<longleftrightarrow> separate q buffer \<or> (\<exists>b i k. buffer = Some (b, i) \<and> q = Some (b, k) \<and> i + n \<le> k)"

lemma loads_emit_apart:
  assumes "payload_apart buffer (length vs) q" and "emit buffer vs m = Some m'"
  shows "loads m' q n = loads m q n"
  using assms(1) unfolding payload_apart_def
proof (elim disjE exE conjE)
  assume "separate q buffer"
  with assms(2) show ?thesis by (intro loads_emit_separate)
next
  fix b i k
  assume e: "buffer = Some (b, i)" "q = Some (b, k)" "i + length vs \<le> k"
  show ?thesis
  proof (cases "vs = []")
    case False
    then obtain B where B: "m b = Some B" "i + length vs \<le> length B" "m' = m(b \<mapsto> write_at B i vs)"
      using assms(2) e(1) by (auto simp: emit_Some elim: stores_SomeE)
    then have "length (write_at B i vs) = length B" "bslice (write_at B i vs) k n = bslice B k n"
      using e(3) by (auto simp: length_write_at bslice_write_at_after)
    with B e(2) show ?thesis
      by (simp add: loads_def)
  qed (use assms(2) in simp)
qed

lemma reads_strings_emit:
  assumes "reads_strings m b p ss" and "emit b vs m = Some m'"
  shows "reads_strings m' (offset b k) p ss"
proof -
  have *: "loads m' s n = loads m s n" if "separate s b" for s n
    using loads_emit_separate [OF that assms(2)] .
  show ?thesis
    using assms(1) * by (auto simp: reads_strings_def reads_string_def reads_segments_def)
qed

text \<open>The fields that the serializer sets before it starts do not matter for the options.\<close>

lemma prepared_packet [simp]:
  "IS_OPTION (p\<lparr>p_buffer := s, p_version := v\<rparr>) n \<longleftrightarrow> IS_OPTION p n"
  "packet_wf (p\<lparr>p_buffer := s, p_version := v\<rparr>) \<longleftrightarrow> packet_wf p"
  "reads_strings m b (p\<lparr>p_buffer := s, p_version := v\<rparr>) ss \<longleftrightarrow> reads_strings m b p ss"
  "versions_consistent cfg (p\<lparr>p_buffer := s, p_version := v\<rparr>) \<longleftrightarrow> versions_consistent cfg p"
  by (simp_all add: IS_OPTION_def packet_wf_def reads_strings_def versions_consistent_def)

lemma all_options_prepared [simp]:
  "all_options cfg (p\<lparr>p_buffer := s, p_version := v\<rparr>) ss i o' = all_options cfg p ss i o'"
  by (simp add: all_options_def packet_options_def numbered_options_def signal_options_def)

lemma compute_prepared [simp]:
  "coap_tcp_compute_message_length (p\<lparr>p_buffer := s, p_version := v\<rparr>) n k = coap_tcp_compute_message_length p n k"
  by (simp add: coap_tcp_compute_message_length_def marked_payload_len_def)

lemma ne_le_4: "coap_tcp_compute_message_length p n 0 = (ne, len, ext) \<Longrightarrow> ne \<le> 4"
  by (auto simp: coap_tcp_compute_message_length_def Let_def split: if_splits)

subsection \<open>The end of the serializer\<close>

lemma serialize_tail_emit:
  assumes "packet_wf p" and "reads_strings m0 buffer p ss" and "versions_consistent cfg p"
    and "p_buffer p = buffer" and "buffer \<noteq> None" and "emit buffer front m0 = Some m"
    and "opts = enc_opts 0 (all_options cfg p ss True True)"
    and "length (front @ opts) + (if p_payload_len p > 0 then 1 + unat (p_payload_len p) else 0) \<le> buffer_size"
    and "buffer_size < 2 ^ 64"
    and "p_payload_len p > 0 \<longrightarrow> unat (p_payload_len p) < 2 ^ 32 - 1 \<and>
      loads m0 (p_payload p) (unat (p_payload_len p)) = Some payload \<and>
      payload_apart buffer (length (front @ opts) + 1) (p_payload p)"
    and "emit buffer (front @ opts @ (if p_payload_len p > 0 then COAP_PAYLOAD_MARKER # payload else [])) m0 = Some m'"
  shows "serialize_tail cfg p buffer_size True True oscore (length (front @ opts)) (length front) m =
    Some (length (front @ opts) + (if p_payload_len p > 0 then 1 + unat (p_payload_len p) else 0), p, m')"
proof -
  have r: "reads_strings m (offset buffer (length front)) p ss"
    by (rule reads_strings_emit [OF assms(2,6)])
  have mod: "(buffer_size + 2 ^ 64 - length (front @ opts)) mod 2 ^ 64 = buffer_size - length (front @ opts)"
  proof -
    have "buffer_size + 2 ^ 64 - length (front @ opts) = (buffer_size - length (front @ opts)) + 2 ^ 64"
      using assms(8) by simp
    then show ?thesis
      using assms(9) by (simp only: mod_add_self2) simp
  qed
  have e: "emit buffer (front @ opts @ xs) m0 = Option.bind (emit (offset buffer (length front)) opts m)
      (emit (offset buffer (length (front @ opts))) xs)" for xs
    using emit_append [of buffer front "opts @ xs" m0] emit_append [of "offset buffer (length front)" opts xs m] assms(6)
    by simp
  obtain m1 where m1: "emit (offset buffer (length front)) opts m = Some m1"
    "emit (offset buffer (length (front @ opts))) (if p_payload_len p > 0 then COAP_PAYLOAD_MARKER # payload else []) m1 = Some m'"
    using assms(11) unfolding e by (auto simp: bind_eq_Some_conv)
  have so: "coap_serialize_options cfg p (offset (p_buffer p) (length front)) True True oscore m = Some (length opts, m1)"
    using all_options_emit [OF assms(1) r assms(3), of True True oscore] m1(1) assms(4,7) by (simp add: emitted_def)
  show ?thesis
  proof (cases "p_payload_len p > 0")
    case False
    then have "m1 = m'"
      using m1(2) by simp
    with False so mod show ?thesis
      by (simp add: serialize_tail_def)
  next
    case True
    let ?o = "length (front @ opts)"
    from True assms(10) have pl: "unat (p_payload_len p) < 2 ^ 32 - 1"
      "loads m0 (p_payload p) (unat (p_payload_len p)) = Some payload" "payload_apart buffer (?o + 1) (p_payload p)"
      by auto
    have u: "unat (p_payload_len p + 1) = unat (p_payload_len p) + 1"
    proof -
      have "p_payload_len p + 1 = of_nat (unat (p_payload_len p) + 1)"
        by simp
      then have "unat (p_payload_len p + 1) = unat (of_nat (unat (p_payload_len p) + 1) :: u32)"
        by (rule arg_cong)
      also have "\<dots> = unat (p_payload_len p) + 1"
        using pl(1) by (simp only: unsigned_of_nat) (simp add: take_bit_nat_eq_self)
      finally show ?thesis .
    qed
    have m1': "Option.bind (emit (offset buffer ?o) [COAP_PAYLOAD_MARKER] m1) (emit (offset buffer (?o + 1)) payload) = Some m'"
      using m1(2) True emit_append [of "offset buffer ?o" "[COAP_PAYLOAD_MARKER]" payload m1] by simp
    then obtain m2 where m2: "emit (offset buffer ?o) [COAP_PAYLOAD_MARKER] m1 = Some m2"
      "emit (offset buffer (?o + 1)) payload m2 = Some m'"
      by (auto simp: bind_eq_Some_conv)
    have "emit buffer (front @ opts @ [COAP_PAYLOAD_MARKER]) m0 = Some m2"
      unfolding e m1(1) using m2(1) by simp
    then have "loads m2 (p_payload p) (unat (p_payload_len p)) = Some payload"
      using loads_emit_apart [of buffer "front @ opts @ [COAP_PAYLOAD_MARKER]" "p_payload p" m0 m2] pl(2,3) by simp
    then show ?thesis
      using True so mod u m2 assms(4,5,8) by (simp add: serialize_tail_def emit_def Let_def)
  qed
qed

subsection \<open>The serialized message\<close>

lemma length_message_header:
  assumes "packet_wf p"
  shows "length (message_head cfg p ss) =
    length (message_header p (length (enc_opts 0 (all_options cfg p ss True True)))) + p_token_len p +
    length (enc_opts 0 (all_options cfg p ss True True))"
  using assms by (simp add: message_head_def packet_wf_def)

lemma calculate_header_size_layout:
  assumes "packet_wf p" and "reads_strings m buffer p ss" and "versions_consistent cfg p"
    and "n = length (enc_opts 0 (all_options cfg p ss True True))"
  shows "\<exists>ext len ne. coap_calculate_header_size cfg (p\<lparr>p_buffer := buffer, p_version := 1\<rparr>) True True oscore (p_token_len p) m =
      Some \<lparr>h_size = length (message_head cfg p ss), h_extended_length = ext, h_length = len,
        h_num_extended_length_bytes = ne, h_token_location = length (message_header p n)\<rparr> \<and>
    (p_transport_type p = COAP_TRANSPORT_TCP \<longrightarrow> coap_tcp_compute_message_length p n 0 = (ne, len, ext))"
proof -
  have s: "coap_serialize_options cfg (p\<lparr>p_buffer := buffer, p_version := 1\<rparr>) None True True oscore m = Some (n, m)"
    using all_options_emit [of "p\<lparr>p_buffer := buffer, p_version := 1\<rparr>" m None ss cfg True True oscore] assms
      reads_strings_None [OF assms(2)] by (simp add: emitted_def)
  obtain ne len ext where c: "coap_tcp_compute_message_length p n 0 = (ne, len, ext)"
    by (metis prod_cases3)
  show ?thesis
  proof (cases "p_transport_type p = COAP_TRANSPORT_TCP")
    case True
    then show ?thesis
      using s c assms(4) length_message_header [OF assms(1), of cfg ss]
      by (intro exI [of _ ext] exI [of _ len] exI [of _ ne])
         (simp add: coap_calculate_header_size_def message_header_def)
  next
    case False
    then show ?thesis
      using s assms(4) length_message_header [OF assms(1), of cfg ss]
      by (intro exI [of _ 0]) (simp add: coap_calculate_header_size_def message_header_def)
  qed
qed

lemma set_header_fields_emit:
  assumes "p_transport_type p = COAP_TRANSPORT_TCP \<longrightarrow> coap_tcp_compute_message_length p n 0 = (ne, len, ext)"
    and "buffer \<noteq> None"
  shows "(if p_transport_type p = COAP_TRANSPORT_TCP
      then coap_tcp_set_header_fields (p\<lparr>p_buffer := buffer, p_version := 1\<rparr>) ne (of_nat len) ext m
      else coap_udp_set_header_fields (p\<lparr>p_buffer := buffer, p_version := 1\<rparr>) m) = emit buffer (message_header p n) m"
  using assms ne_le_4 [of p n ne len ext]
  by (auto simp: tcp_set_header_fields_emit udp_set_header_fields_emit message_header_def udp_header_def)

text \<open>What the serializer is entitled to find: a packet whose strings can be read, a buffer of
  \<open>buffer_size\<close> bytes with enough room for the message, and a payload that is not in its way.\<close>

definition can_send ::
  "coap_cfg \<Rightarrow> mem \<Rightarrow> nat \<Rightarrow> nat \<Rightarrow> nat \<Rightarrow> coap_packet \<Rightarrow> packet_strings \<Rightarrow> bytes \<Rightarrow> bool" where
  "can_send cfg m b i buffer_size p ss payload \<longleftrightarrow>
     packet_wf p \<and> reads_strings m (Some (b, i)) p ss \<and> versions_consistent cfg p \<and> p_code p \<noteq> 0 \<and>
     (case m b of None \<Rightarrow> False | Some B \<Rightarrow> i + buffer_size \<le> length B) \<and> buffer_size < 2 ^ 64 \<and>
     length (message_head cfg p ss) \<le> coap_max_header_size cfg \<and>
     length (message_bytes cfg p ss payload) \<le> buffer_size \<and>
     (p_payload_len p > 0 \<longrightarrow> unat (p_payload_len p) < 2 ^ 32 - 1 \<and>
       loads m (p_payload p) (unat (p_payload_len p)) = Some payload \<and>
       payload_apart (Some (b, i)) (length (message_head cfg p ss) + 1) (p_payload p))"

lemma serialize_message_bytes:
  assumes "packet_wf p" and "reads_strings m (Some (b, i)) p ss" and "versions_consistent cfg p" and "p_code p \<noteq> 0"
    and "m b = Some B" and "i + buffer_size \<le> length B" and "buffer_size < 2 ^ 64"
    and "length (message_head cfg p ss) \<le> coap_max_header_size cfg"
    and "length (message_bytes cfg p ss payload) \<le> buffer_size"
    and "p_payload_len p > 0 \<longrightarrow> unat (p_payload_len p) < 2 ^ 32 - 1 \<and>
      loads m (p_payload p) (unat (p_payload_len p)) = Some payload \<and>
      payload_apart (Some (b, i)) (length (message_head cfg p ss) + 1) (p_payload p)"
  shows "coap_serialize_message cfg p (Some (b, i)) buffer_size m =
    Some (length (message_bytes cfg p ss payload), p\<lparr>p_buffer := Some (b, i), p_version := 1\<rparr>,
      m(b \<mapsto> write_at B i (message_bytes cfg p ss payload)))"
proof -
  let ?p = "p\<lparr>p_buffer := Some (b, i), p_version := 1\<rparr>"
  let ?os = "enc_opts 0 (all_options cfg p ss True True)"
  let ?hd = "message_header p (length ?os)"
  let ?tok = "take (p_token_len p) (p_token p)"
  let ?M = "message_bytes cfg p ss payload"
  let ?pl = "if p_payload_len p > 0 then COAP_PAYLOAD_MARKER # payload else []"
  let ?m = "m(b \<mapsto> write_at B i ?M)"
  have M: "?M = ?hd @ ?tok @ ?os @ ?pl"
    by (simp add: message_bytes_def message_head_def)
  have emM: "emit (Some (b, i)) ?M m = Some ?m"
    using assms(5,6,9) by (simp add: emit_Some stores_block)
  have plen: "p_payload_len p > 0 \<Longrightarrow> length payload = unat (p_payload_len p)"
    using assms(10) length_loads by blast
  have lenM: "length ?M = length (message_head cfg p ss) + (if p_payload_len p > 0 then 1 + unat (p_payload_len p) else 0)"
    using plen by (simp add: message_bytes_def)
  have hs: "length (message_head cfg p ss) \<le> buffer_size"
    using assms(9) by (simp add: message_bytes_def)
  have tl: "length ?tok = p_token_len p"
    using assms(1) by (simp add: packet_wf_def)
  obtain ext len ne where c: "coap_calculate_header_size cfg ?p True True False (p_token_len p) m =
      Some \<lparr>h_size = length (message_head cfg p ss), h_extended_length = ext, h_length = len,
        h_num_extended_length_bytes = ne, h_token_location = length ?hd\<rparr>"
    "p_transport_type p = COAP_TRANSPORT_TCP \<longrightarrow> coap_tcp_compute_message_length p (length ?os) 0 = (ne, len, ext)"
    using calculate_header_size_layout [OF assms(1-3) refl, of False] by blast
  have ck: "coap_check_header_size cfg (length (message_head cfg p ss)) buffer_size"
    using assms(8) hs by (simp add: coap_check_header_size_def)
  obtain m1 where m1: "emit (Some (b, i)) ?hd m = Some m1"
    using emM emit_prefix [of "Some (b, i)" ?hd "?tok @ ?os @ ?pl" m ?m] unfolding M by blast
  obtain m2 where m2: "emit (Some (b, i)) (?hd @ ?tok) m = Some m2"
    using emM emit_prefix [of "Some (b, i)" "?hd @ ?tok" "?os @ ?pl" m ?m] unfolding M append_assoc by blast
  have m12: "stores m1 (offset (Some (b, i)) (length ?hd)) ?tok = Some m2"
    using m2 m1 emit_append [of "Some (b, i)" ?hd ?tok m] by (simp add: emit_def)
  have "serialize_tail cfg ?p buffer_size True True False (length ((?hd @ ?tok) @ ?os)) (length (?hd @ ?tok)) m2 =
    Some (length ((?hd @ ?tok) @ ?os) + (if p_payload_len ?p > 0 then 1 + unat (p_payload_len ?p) else 0), ?p, ?m)"
  proof (rule serialize_tail_emit [of ?p m "Some (b, i)" ss cfg "?hd @ ?tok" m2 ?os buffer_size payload ?m False])
    show "emit (Some (b, i)) ((?hd @ ?tok) @ ?os @ (if 0 < p_payload_len ?p then COAP_PAYLOAD_MARKER # payload else [])) m = Some ?m"
      using emM unfolding M by simp
    show "length ((?hd @ ?tok) @ ?os) + (if 0 < p_payload_len ?p then 1 + unat (p_payload_len ?p) else 0) \<le> buffer_size"
      using assms(9) lenM by (auto simp: message_head_def add.assoc)
    show "0 < p_payload_len ?p \<longrightarrow> unat (p_payload_len ?p) < 2 ^ 32 - 1 \<and>
      loads m (p_payload ?p) (unat (p_payload_len ?p)) = Some payload \<and>
      payload_apart (Some (b, i)) (length ((?hd @ ?tok) @ ?os) + 1) (p_payload ?p)"
      using assms(10) by (simp add: message_head_def)
  qed (use assms m2 in \<open>simp_all\<close>)
  moreover have "length ((?hd @ ?tok) @ ?os) = length (message_head cfg p ss)" "length (?hd @ ?tok) = length ?hd + p_token_len p"
    using tl by (simp_all add: message_head_def)
  ultimately have tail: "serialize_tail cfg ?p buffer_size True True False (length (message_head cfg p ss)) (length ?hd + p_token_len p) m2 =
    Some (length ?M, ?p, ?m)"
    using lenM by simp
  have f: "p_transport_type ?p = p_transport_type p" "p_code ?p = p_code p" "p_token_len ?p = p_token_len p" "p_token ?p = p_token p"
    by simp_all
  have sh: "(if p_transport_type p = COAP_TRANSPORT_TCP
      then coap_tcp_set_header_fields ?p ne (of_nat len) ext m else coap_udp_set_header_fields ?p m) = Some m1"
    using set_header_fields_emit [OF c(2), of "Some (b, i)" m] m1 by simp
  show ?thesis
    unfolding coap_serialize_message_def coap_oscore_serialize_message_def Let_def f c(1) Option.bind.simps
      header_size_result.simps ck sh m12 tail
    using assms(4) ck by simp
qed

text \<open>
  C2. \<open>coap_serialize_message\<close> writes header, token, options in ascending order, and marker with payload
  to the buffer, for both transports; it returns the number of bytes, changes nothing else, and the
  assertion that the announced header size is the written one holds. The payload may lie in the
  same buffer, as long as it starts behind the marker.
\<close>

theorem serialize_message_layout:
  assumes "can_send cfg m b i buffer_size p ss payload"
  shows "coap_serialize_message cfg p (Some (b, i)) buffer_size m =
    Some (length (message_bytes cfg p ss payload), p\<lparr>p_buffer := Some (b, i), p_version := 1\<rparr>,
      m(b \<mapsto> write_at (the (m b)) i (message_bytes cfg p ss payload)))"
  using assms serialize_message_bytes [of p m b i ss cfg "the (m b)" buffer_size payload]
  by (auto simp: can_send_def split: option.splits)

subsection \<open>An example message\<close>

definition example_packet :: "coap_transport_type_t \<Rightarrow> coap_packet" where
  "example_packet t = SET_OPTION COAP_OPTION_URI_PATH
     (zero_packet\<lparr>p_transport_type := t, p_code := 2, p_mid := 0x1234, p_token_len := 2,
        p_token := [7, 9, 0, 0, 0, 0, 0, 0], p_uri_path := Some (1, 0), p_uri_path_len := 3,
        p_payload := Some (2, 0), p_payload_len := 2\<rparr>)"

definition example_cfg :: coap_cfg where
  "example_cfg = \<lparr>oc_spec_ver_oic = False, oc_json_encoder = False, oc_wkcore = False,
    coap_max_header_size = 200, oc_block_size = 1024\<rparr>"

definition example_strings :: packet_strings where
  "example_strings = \<lparr>ps_host = [], ps_path = [[0x61], [0x62]], ps_query = [], ps_proxy = [], ps_alt_addr = []\<rparr>"

definition example_mem :: mem where
  "example_mem = [0 \<mapsto> replicate 20 0, 1 \<mapsto> [0x61, 0x2F, 0x62, 0], 2 \<mapsto> [0x68, 0x69]]"

lemma example_fields:
  "p_transport_type (example_packet t) = t" "p_code (example_packet t) = 2" "p_token_len (example_packet t) = 2"
  "p_token (example_packet t) = [7, 9, 0, 0, 0, 0, 0, 0]" "p_mid (example_packet t) = 0x1234"
  "p_uri_path (example_packet t) = Some (1, 0)" "p_uri_path_len (example_packet t) = 3"
  "p_payload (example_packet t) = Some (2, 0)" "p_payload_len (example_packet t) = 2"
  "p_type (example_packet t) = COAP_TYPE_CON"
  by (simp_all add: example_packet_def SET_OPTION_def zero_packet_def)

lemma example_wf: "packet_wf (example_packet t)"
  unfolding example_packet_def by (simp add: packet_wf_def SET_OPTION_def set_bitmap_def)

lemma example_options: "n < 64 \<Longrightarrow> IS_OPTION (example_packet t) n \<longleftrightarrow> n = 11"
proof -
  assume n: "n < 64"
  let ?p = "zero_packet\<lparr>p_transport_type := t, p_code := 2, p_mid := 0x1234, p_token_len := 2,
        p_token := [7, 9, 0, 0, 0, 0, 0, 0], p_uri_path := Some (1, 0), p_uri_path_len := 3,
        p_payload := Some (2, 0), p_payload_len := 2\<rparr>"
  have "packet_wf ?p"
    by (simp add: packet_wf_def)
  moreover have "\<not> IS_OPTION ?p n"
    using IS_OPTION_zero [OF n] by (simp add: IS_OPTION_def)
  ultimately show ?thesis
    unfolding example_packet_def using n by (simp add: IS_OPTION_SET_OPTION)
qed

lemma example_no_signal: "\<not> coap_check_signal_message (p_code (example_packet t))"
  by (simp add: example_fields coap_check_signal_message_def)

lemma example_all_options:
  "all_options cfg (example_packet t) example_strings True True = [(11, [0x61]), (11, [0x62])]"
  by (simp add: all_options_def example_no_signal packet_options_def numbered_options_def opts_if_def example_options
      example_strings_def)

lemma example_bytes:
  "message_bytes example_cfg (example_packet COAP_TRANSPORT_UDP) example_strings [0x68, 0x69] =
     [0x42, 2, 0x12, 0x34, 7, 9, 0xB1, 0x61, 1, 0x62, 0xFF, 0x68, 0x69]"
  "message_bytes example_cfg (example_packet COAP_TRANSPORT_TCP) example_strings [0x68, 0x69] =
     [0x72, 2, 7, 9, 0xB1, 0x61, 1, 0x62, 0xFF, 0x68, 0x69]"
  by (simp_all add: message_bytes_def message_head_def example_all_options example_fields message_header_def udp_header_def
      coap_tcp_compute_message_length_def marked_payload_len_def tcp_header_def tcp_ext_bytes_def option_header_def ext_bytes_def
      coap_option_nibble_def)

lemma example_can_send:
  "can_send example_cfg example_mem 0 3 15 (example_packet t) example_strings [0x68, 0x69]"
proof -
  have l: "loads example_mem (Some (1, 0)) (Suc 3) = Some (join_bytes 0x2F [[0x61], [0x62]] @ [0])"
    "loads example_mem (Some (2, 0)) 2 = Some [0x68, 0x69]"
    by (simp_all add: loads_def bslice_def example_mem_def)
  have r: "reads_strings example_mem (Some (0, 3)) (example_packet t) example_strings"
    using l(1) by (auto simp: reads_strings_def example_options example_fields reads_segments_def segments_def separate_def
        example_strings_def)
  have b: "length (message_bytes example_cfg (example_packet t) example_strings [0x68, 0x69]) \<le> 13"
    by (cases t) (simp_all add: example_bytes)
  then have h: "length (message_head example_cfg (example_packet t) example_strings) \<le> 13"
    by (simp add: message_bytes_def)
  have c: "coap_max_header_size example_cfg = 200"
    by (simp add: example_cfg_def)
  have m0: "example_mem 0 = Some (replicate 20 0)"
    by (simp add: example_mem_def)
  have v: "versions_consistent example_cfg (example_packet t)"
    by (simp add: versions_consistent_def example_options)
  show ?thesis
    unfolding can_send_def
    using r b h c m0 l(2) v by (auto simp: example_wf example_fields payload_apart_def separate_def)
qed

lemma serialize_message_layout_witness:
  "\<exists>p'. coap_serialize_message example_cfg (example_packet COAP_TRANSPORT_UDP) (Some (0, 3)) 15 example_mem =
     Some (13, p', example_mem(0 \<mapsto> [0, 0, 0, 0x42, 2, 0x12, 0x34, 7, 9, 0xB1, 0x61, 1, 0x62, 0xFF, 0x68, 0x69, 0, 0, 0, 0]))"
  using serialize_message_layout [OF example_can_send [of COAP_TRANSPORT_UDP]]
  unfolding example_bytes by (simp add: example_mem_def write_at_def numeral_eq_Suc)


end
