(* ===== verification/CoapRoundTrip.thy ===== *)
theory CoapRoundTrip
  imports CoapMessage
begin

text \<open>
  A serialized message is parsed back to the packet that was sent, for CoAP over UDP and over TCP: the
  options of a packet satisfy the hypotheses of the option parser, the fields and strings that the
  parser collects are those of the packet, and the headers and tokens agree.
\<close>

subsection \<open>The options of a packet are accepted by the parser\<close>

definition values_ok :: "coap_cfg \<Rightarrow> coap_packet \<Rightarrow> packet_strings \<Rightarrow> bool" where
  "values_ok cfg p ss \<longleftrightarrow>
     (IS_OPTION p COAP_OPTION_CONTENT_FORMAT \<longrightarrow>
       coap_parse_is_valid_content_format_option cfg (int (unat (p_content_format p)))) \<and>
     (IS_OPTION p COAP_OPTION_ACCEPT \<longrightarrow> coap_parse_is_valid_accept_option cfg (int (unat (p_accept p)))) \<and>
     length (ps_host ss) \<le> 65804 \<and> length (ps_proxy ss) \<le> 65804 \<and>
     (\<forall>s \<in> set (ps_path ss). length s \<le> 65804) \<and> (\<forall>s \<in> set (ps_query ss). length s \<le> 65804)"

lemma opts_ok_iff:
  "opts_ok cfg num os \<longleftrightarrow> sorted (num # map fst os) \<and>
     (\<forall>(n, v) \<in> set os. n \<le> 65804 \<and> length v \<le> 65804 \<and> option_valid cfg n v)"
  by (induction cfg num os rule: opts_ok.induct) (auto intro: order_trans)

lemma in_opts_if [simp]: "x \<in> set (opts_if c xs) \<longleftrightarrow> c \<and> x \<in> set xs"
  by (simp add: opts_if_def)

lemma uint_ucast_16: "uint (ucast (w :: u16) :: u32) = int (unat w)"
  using unsigned_less [where ?'a = int, of w] by (simp add: unsigned_ucast_eq take_bit_int_eq_self)

lemma version_option_valid:
  assumes "(k, v) \<in> set (version_option cfg n f)" and "n = 2049 \<or> n = 2053"
  shows "option_valid cfg k v \<and> length v \<le> 65804"
proof -
  have "k = n" "v = int_bytes 2048 \<or> v = int_bytes 2112"
    using assms(1) by (auto simp: version_option_def split: if_splits)
  moreover have "length v \<le> 4"
    using calculation length_int_bytes_le by auto
  ultimately show ?thesis
    using assms(2) by (auto simp: option_valid_def)
qed

lemma option_valid_int_bytes [simp]:
  "n \<in> {6, 14, 23, 27, 28, 60} \<Longrightarrow> option_valid cfg n (int_bytes v)"
  "option_valid cfg 7 (int_bytes (ucast (w :: u16)))"
  "option_valid cfg 12 (int_bytes (ucast w)) \<longleftrightarrow> coap_parse_is_valid_content_format_option cfg (int (unat w))"
  "option_valid cfg 17 (int_bytes (ucast w)) \<longleftrightarrow> coap_parse_is_valid_accept_option cfg (int (unat w))"
  "n \<in> {3, 4, 11, 15, 35} \<Longrightarrow> option_valid cfg n s"
  using length_int_bytes_le unsigned_less [where ?'a = int, of w]
  by (auto simp: option_valid_def uint_ucast_16)

lemma int_bytes_short: "length (int_bytes v) \<le> 65804"
  using length_int_bytes_le [of v] by simp

lemma packet_options_ok:
  assumes "\<not> coap_check_signal_message (p_code p)" and "packet_wf p" and "values_ok cfg p ss"
  shows "opts_ok cfg 0 (packet_options cfg p ss True True)"
proof -
  have "sorted (map fst (packet_options cfg p ss True True))"
    using sorted_all_options [of cfg p ss True True] assms(1) by (simp add: all_options_def)
  then have "sorted (0 # map fst (packet_options cfg p ss True True))"
    by simp
  moreover have "\<forall>x \<in> set (packet_options cfg p ss True True).
      fst x \<le> 65804 \<and> length (snd x) \<le> 65804 \<and> option_valid cfg (fst x) (snd x)"
  proof -
    have o': "(\<forall>x \<in> set (opts_if c xs). P x) \<longleftrightarrow> (c \<longrightarrow> (\<forall>x \<in> set xs. P x))" for c xs and P :: "nat \<times> bytes \<Rightarrow> bool"
      by (auto simp: opts_if_def)
    have v: "\<forall>x \<in> set (version_option cfg n f). fst x \<le> 65804 \<and> length (snd x) \<le> 65804 \<and> option_valid cfg (fst x) (snd x)"
      if "n = 2049 \<or> n = 2053" for n f
      using that version_option_valid [of _ _ cfg n f] version_option_num [of _ cfg n f] by fastforce
    have e: "length (take (p_etag_len p) (p_etag p)) \<le> 65804"
      using assms(2) by (simp add: packet_wf_def)
    show ?thesis
      unfolding packet_options_def numbered_options_def Let_def set_append ball_Un o'
      using assms(3) int_bytes_short e v [of 2049 "p_accept p"] v [of 2053 "p_content_format p"]
      by (simp add: values_ok_def)
  qed
  ultimately show ?thesis
    by (auto simp: opts_ok_iff)
qed

subsection \<open>The fields after parsing\<close>

lemma fields_after_Nil [simp]: "fields_after q [] = q"
  and fields_after_Cons [simp]: "fields_after q (x # xs) = fields_after (option_effect x q) xs"
  by (simp_all add: fields_after_def)

lemma fields_after_keep:
  assumes "\<And>k v q. k \<noteq> n \<Longrightarrow> g (option_effect (k, v) q) = g q" and "\<forall>x \<in> set os. fst x \<noteq> n"
  shows "g (fields_after q os) = g q"
  using assms(2) by (induction os arbitrary: q) (auto simp: assms(1))

text \<open>A field that only option \<open>n\<close> changes has the value of the one such option.\<close>

lemma fields_after_one:
  assumes "\<And>k v q. k \<noteq> n \<Longrightarrow> g (option_effect (k, v) q) = g q"
    and "filter (\<lambda>x. fst x = n) os = opts_if c [(n, v)]"
  shows "\<exists>q'. g (fields_after q os) = (if c then g (option_effect (n, v) q') else g q)"
proof (cases c)
  case False
  then have "\<forall>x \<in> set os. fst x \<noteq> n"
    using assms(2) by (simp add: opts_if_def filter_empty_conv)
  with False show ?thesis
    using fields_after_keep [OF assms(1)] by simp
next
  case True
  then have "filter (\<lambda>x. fst x = n) os = [(n, v)]"
    using assms(2) by (simp add: opts_if_def)
  then obtain xs ys where os: "os = xs @ (n, v) # ys" "\<forall>x \<in> set ys. fst x \<noteq> n"
    by (auto simp: filter_eq_Cons_iff eq_commute [of "[]"] filter_empty_conv)
  have "g (fields_after q os) = g (fields_after (option_effect (n, v) (fields_after q xs)) ys)"
    by (simp add: os(1) fields_after_def)
  also have "\<dots> = g (option_effect (n, v) (fields_after q xs))"
    by (rule fields_after_keep [OF assms(1) os(2)])
  finally show ?thesis
    using True by auto
qed

lemma filter_opts_if [simp]: "filter P (opts_if c xs) = opts_if c (filter P xs)"
  by (simp add: opts_if_def)

lemma opts_if_Nil [simp]: "opts_if c [] = []"
  by (simp add: opts_if_def)

lemma filter_version_option [simp]: "k \<noteq> n \<Longrightarrow> filter (\<lambda>x. fst x = n) (version_option cfg k f) = []"
  using version_option_num [of _ cfg k f] by (auto simp: filter_empty_conv)

lemma filter_Pair [simp]: "filter (\<lambda>x. fst x = n) (map (Pair k) vs) = (if k = n then map (Pair k) vs else [])"
  by (induction vs) auto

lemma filter_packet_options:
  "filter (\<lambda>x. fst x = 3) (packet_options cfg p ss True True) = opts_if (IS_OPTION p 3) [(3, ps_host ss)]"
  "filter (\<lambda>x. fst x = 4) (packet_options cfg p ss True True) = opts_if (IS_OPTION p 4) [(4, take (p_etag_len p) (p_etag p))]"
  "filter (\<lambda>x. fst x = 6) (packet_options cfg p ss True True) = opts_if (IS_OPTION p 6) [(6, int_bytes (p_observe p))]"
  "filter (\<lambda>x. fst x = 7) (packet_options cfg p ss True True) = opts_if (IS_OPTION p 7) [(7, int_bytes (ucast (p_uri_port p)))]"
  "filter (\<lambda>x. fst x = 11) (packet_options cfg p ss True True) = opts_if (IS_OPTION p 11) (map (Pair 11) (ps_path ss))"
  "filter (\<lambda>x. fst x = 12) (packet_options cfg p ss True True) = opts_if (IS_OPTION p 12) [(12, int_bytes (ucast (p_content_format p)))]"
  "filter (\<lambda>x. fst x = 14) (packet_options cfg p ss True True) = opts_if (IS_OPTION p 14) [(14, int_bytes (p_max_age p))]"
  "filter (\<lambda>x. fst x = 15) (packet_options cfg p ss True True) = opts_if (IS_OPTION p 15) (map (Pair 15) (ps_query ss))"
  "filter (\<lambda>x. fst x = 17) (packet_options cfg p ss True True) = opts_if (IS_OPTION p 17) [(17, int_bytes (ucast (p_accept p)))]"
  "filter (\<lambda>x. fst x = 23) (packet_options cfg p ss True True) = opts_if (IS_OPTION p 23)
     [(23, int_bytes (coap_options_block_encode (p_block2_num p) (p_block2_more p) (p_block2_size p)))]"
  "filter (\<lambda>x. fst x = 27) (packet_options cfg p ss True True) = opts_if (IS_OPTION p 27)
     [(27, int_bytes (coap_options_block_encode (p_block1_num p) (p_block1_more p) (p_block1_size p)))]"
  "filter (\<lambda>x. fst x = 28) (packet_options cfg p ss True True) = opts_if (IS_OPTION p 28) [(28, int_bytes (p_size2 p))]"
  "filter (\<lambda>x. fst x = 35) (packet_options cfg p ss True True) = opts_if (IS_OPTION p 35) [(35, ps_proxy ss)]"
  "filter (\<lambda>x. fst x = 60) (packet_options cfg p ss True True) = opts_if (IS_OPTION p 60) [(60, int_bytes (p_size1 p))]"
  by (simp_all add: packet_options_def numbered_options_def)

lemma effect_fields:
  "p_observe (option_effect (k, v) q) = (if k = 6 then be_value v else p_observe q)"
  "p_uri_port (option_effect (k, v) q) = (if k = 7 then ucast (be_value v) else p_uri_port q)"
  "p_content_format (option_effect (k, v) q) = (if k = 12 then ucast (be_value v) else p_content_format q)"
  "p_max_age (option_effect (k, v) q) = (if k = 14 then be_value v else p_max_age q)"
  "p_accept (option_effect (k, v) q) = (if k = 17 then ucast (be_value v) else p_accept q)"
  "p_size2 (option_effect (k, v) q) = (if k = 28 then be_value v else p_size2 q)"
  "p_size1 (option_effect (k, v) q) = (if k = 60 then be_value v else p_size1 q)"
  "p_etag_len (option_effect (k, v) q) = (if k = 4 then min 8 (length v) else p_etag_len q)"
  "p_etag (option_effect (k, v) q) = (if k = 4 then write_at (p_etag q) 0 (take 8 v) else p_etag q)"
  by (auto simp: option_effect_def field_effect_def SET_OPTION_def coap_options_block1_decode_def
      coap_options_block2_decode_def split: prod.splits)

lemma effect_block_fields:
  "(p_block2_num (option_effect (k, v) q), p_block2_more (option_effect (k, v) q), p_block2_size (option_effect (k, v) q),
     p_block2_offset (option_effect (k, v) q)) =
   (if k = 23 then coap_options_block_decode (be_value v)
    else (p_block2_num q, p_block2_more q, p_block2_size q, p_block2_offset q))"
  "(p_block1_num (option_effect (k, v) q), p_block1_more (option_effect (k, v) q), p_block1_size (option_effect (k, v) q),
     p_block1_offset (option_effect (k, v) q)) =
   (if k = 27 then coap_options_block_decode (be_value v)
    else (p_block1_num q, p_block1_more q, p_block1_size q, p_block1_offset q))"
  by (auto simp: option_effect_def field_effect_def SET_OPTION_def coap_options_block1_decode_def
      coap_options_block2_decode_def split: prod.splits)

lemma effect_other_fields [simp]:
  "p_code (option_effect x q) = p_code q" "p_mid (option_effect x q) = p_mid q" "p_type (option_effect x q) = p_type q"
  "p_token (option_effect x q) = p_token q" "p_token_len (option_effect x q) = p_token_len q"
  "p_transport_type (option_effect x q) = p_transport_type q" "p_payload_len (option_effect x q) = p_payload_len q"
  "p_payload (option_effect x q) = p_payload q" "p_version (option_effect x q) = p_version q"
  by (auto simp: option_effect_def field_effect_def SET_OPTION_def coap_options_block1_decode_def
      coap_options_block2_decode_def split: prod.splits)

lemma fields_after_other [simp]:
  "p_code (fields_after q os) = p_code q" "p_mid (fields_after q os) = p_mid q" "p_type (fields_after q os) = p_type q"
  "p_token (fields_after q os) = p_token q" "p_token_len (fields_after q os) = p_token_len q"
  "p_transport_type (fields_after q os) = p_transport_type q" "p_payload_len (fields_after q os) = p_payload_len q"
  "p_payload (fields_after q os) = p_payload q" "p_version (fields_after q os) = p_version q"
  by (induction os arbitrary: q) simp_all

lemma packet_wf_option_effect: "packet_wf q \<Longrightarrow> packet_wf (option_effect x q)"
  by (cases x) (auto simp: option_effect_def packet_wf_def field_effect_def SET_OPTION_def length_write_at
      coap_options_block1_decode_def coap_options_block2_decode_def split: prod.splits)

lemma options_field_effect:
  "p_options (field_effect k v q) =
     (if k = 23 then set_bitmap (p_options q) 23 else if k = 27 then set_bitmap (p_options q) 27 else p_options q)"
  by (auto simp: field_effect_def SET_OPTION_def coap_options_block1_decode_def coap_options_block2_decode_def
      split: prod.splits)

lemma IS_OPTION_option_effect:
  assumes "packet_wf q" and "n \<le> 60"
  shows "IS_OPTION (option_effect (k, v) q) n \<longleftrightarrow> n = k \<or> IS_OPTION q n"
  using assms
  by (auto simp: IS_OPTION_iff option_effect_def options_field_effect SET_OPTION_def in_set_bitmap packet_wf_def)

lemma IS_OPTION_fields_after:
  assumes "packet_wf q" and "n \<le> 60"
  shows "IS_OPTION (fields_after q os) n \<longleftrightarrow> n \<in> fst ` set os \<or> IS_OPTION q n"
  using assms
proof (induction os arbitrary: q)
  case (Cons x os)
  then show ?case
    using packet_wf_option_effect [of q x] IS_OPTION_option_effect [of q n "fst x" "snd x"] by auto
qed simp

lemma in_fst_filter: "n \<in> fst ` set os \<longleftrightarrow> filter (\<lambda>x. fst x = n) os \<noteq> []"
  by (force simp: filter_empty_conv)

subsection \<open>The strings after parsing\<close>

lemma s_path_after: "s_path (strings_after x os) = fold (\<lambda>y a. merged 0x2F a (snd y)) (filter (\<lambda>y. fst y = 11) os) (s_path x)"
  by (induction os arbitrary: x) (auto simp: strings_after_def string_effect_def)

lemma s_query_after: "s_query (strings_after x os) = fold (\<lambda>y a. merged 0x26 a (snd y)) (filter (\<lambda>y. fst y = 15) os) (s_query x)"
  by (induction os arbitrary: x) (auto simp: strings_after_def string_effect_def)

lemma s_host_after: "s_host (strings_after x os) = fold (\<lambda>y a. snd y) (filter (\<lambda>y. fst y = 3) os) (s_host x)"
  by (induction os arbitrary: x) (auto simp: strings_after_def string_effect_def)

lemma s_proxy_after: "s_proxy (strings_after x os) = fold (\<lambda>y a. snd y) (filter (\<lambda>y. fst y = 35) os) (s_proxy x)"
  by (induction os arbitrary: x) (auto simp: strings_after_def string_effect_def)

lemma join_bytes_Cons: "join_bytes c (s # ss) = s @ concat (map ((#) c) ss)"
proof (induction ss arbitrary: s)
  case (Cons t ss)
  then show ?case by simp
qed simp

lemma fold_merged: "a \<noteq> [] \<Longrightarrow> fold (\<lambda>v a. merged c a v) ss a = a @ concat (map ((#) c) ss)"
  by (induction ss arbitrary: a) (simp_all add: merged_def)

lemma fold_merged_segments:
  assumes "segments c ss"
  shows "fold (\<lambda>y a. merged c a (snd y)) (map (Pair n) ss) [] = join_bytes c ss"
proof -
  obtain s rest where ss: "ss = s # rest"
    using assms by (cases ss) (auto simp: segments_def)
  have "fold (\<lambda>y a. merged c a (snd y)) (map (Pair n) ss) [] = fold (\<lambda>v a. merged c a v) ss []"
    by (simp add: fold_map comp_def)
  also have "\<dots> = fold (\<lambda>v a. merged c a v) rest s"
    by (simp add: ss merged_def)
  also have "\<dots> = join_bytes c ss"
    using assms fold_merged [of s c rest] by (cases "s = []") (auto simp: ss segments_def join_bytes_Cons)
  finally show ?thesis .
qed

subsection \<open>A received packet carries the content of the sent one\<close>

definition received :: "coap_packet \<Rightarrow> packet_strings \<Rightarrow> bytes \<Rightarrow> coap_packet \<Rightarrow> mem \<Rightarrow> bool" where
  "received p ss payload q m \<longleftrightarrow>
     p_code q = p_code p \<and> p_token_len q = p_token_len p \<and>
     take (p_token_len q) (p_token q) = take (p_token_len p) (p_token p) \<and>
     (\<forall>n \<in> {3, 4, 6, 7, 11, 12, 14, 15, 17, 23, 27, 28, 35, 60}. IS_OPTION q n \<longleftrightarrow> IS_OPTION p n) \<and>
     coap_options_get_content_format q = coap_options_get_content_format p \<and>
     coap_options_get_accept q = coap_options_get_accept p \<and>
     coap_options_get_max_age q = coap_options_get_max_age p \<and>
     coap_options_get_observe q = coap_options_get_observe p \<and>
     coap_options_get_size1 q = coap_options_get_size1 p \<and>
     coap_options_get_size2 q = coap_options_get_size2 p \<and>
     (IS_OPTION p COAP_OPTION_URI_PORT \<longrightarrow> p_uri_port q = p_uri_port p) \<and>
     (IS_OPTION p COAP_OPTION_ETAG \<longrightarrow> p_etag_len q = p_etag_len p \<and>
        take (p_etag_len q) (p_etag q) = take (p_etag_len p) (p_etag p)) \<and>
     coap_options_get_block1 q = map_option (\<lambda>(num, mr, sz, off).
        coap_options_block_decode (coap_options_block_encode num mr sz)) (coap_options_get_block1 p) \<and>
     coap_options_get_block2 q = map_option (\<lambda>(num, mr, sz, off).
        coap_options_block_decode (coap_options_block_encode num mr sz)) (coap_options_get_block2 p) \<and>
     (IS_OPTION p COAP_OPTION_URI_HOST \<longrightarrow> loads m (p_uri_host q) (p_uri_host_len q) = Some (ps_host ss)) \<and>
     (IS_OPTION p COAP_OPTION_URI_PATH \<longrightarrow> loads m (p_uri_path q) (p_uri_path_len q) = Some (join_bytes 0x2F (ps_path ss))) \<and>
     (IS_OPTION p COAP_OPTION_URI_QUERY \<longrightarrow> loads m (p_uri_query q) (p_uri_query_len q) = Some (join_bytes 0x26 (ps_query ss))) \<and>
     (IS_OPTION p COAP_OPTION_PROXY_URI \<longrightarrow> loads m (p_proxy_uri q) (p_proxy_uri_len q) = Some (ps_proxy ss)) \<and>
     p_payload_len q = p_payload_len p \<and>
     (p_payload_len p > 0 \<longrightarrow> loads m (p_payload q) (unat (p_payload_len q)) = Some payload)"

lemma scalars_fields [simp]:
  "p_code (scalars q) = p_code q" "p_token (scalars q) = p_token q" "p_token_len (scalars q) = p_token_len q"
  "p_content_format (scalars q) = p_content_format q" "p_accept (scalars q) = p_accept q" "p_max_age (scalars q) = p_max_age q"
  "p_observe (scalars q) = p_observe q" "p_size1 (scalars q) = p_size1 q" "p_size2 (scalars q) = p_size2 q"
  "p_uri_port (scalars q) = p_uri_port q" "p_etag (scalars q) = p_etag q" "p_etag_len (scalars q) = p_etag_len q"
  "p_options (scalars q) = p_options q" "p_payload (scalars q) = p_payload q" "p_payload_len (scalars q) = p_payload_len q"
  "p_block1_num (scalars q) = p_block1_num q" "p_block1_more (scalars q) = p_block1_more q"
  "p_block1_size (scalars q) = p_block1_size q" "p_block1_offset (scalars q) = p_block1_offset q"
  "p_block2_num (scalars q) = p_block2_num q" "p_block2_more (scalars q) = p_block2_more q"
  "p_block2_size (scalars q) = p_block2_size q" "p_block2_offset (scalars q) = p_block2_offset q"
  "p_mid (scalars q) = p_mid q" "p_type (scalars q) = p_type q"
  by (simp_all add: scalars_def)

lemma ucast_ucast_16: "(ucast (ucast (w :: u16) :: u32) :: u16) = w"
  by (rule bit_word_eqI) (auto simp: bit_simps)

lemma fields_of_packet_options:
  assumes "os = packet_options cfg p ss True True"
  shows "IS_OPTION p 6 \<Longrightarrow> p_observe (fields_after q os) = p_observe p"
    "IS_OPTION p 7 \<Longrightarrow> p_uri_port (fields_after q os) = p_uri_port p"
    "IS_OPTION p 12 \<Longrightarrow> p_content_format (fields_after q os) = p_content_format p"
    "IS_OPTION p 14 \<Longrightarrow> p_max_age (fields_after q os) = p_max_age p"
    "IS_OPTION p 17 \<Longrightarrow> p_accept (fields_after q os) = p_accept p"
    "IS_OPTION p 28 \<Longrightarrow> p_size2 (fields_after q os) = p_size2 p"
    "IS_OPTION p 60 \<Longrightarrow> p_size1 (fields_after q os) = p_size1 p"
  using fields_after_one [of 6 p_observe, OF _ filter_packet_options(3) [where cfg = cfg and p = p and ss = ss], where q = q]
    fields_after_one [of 7 p_uri_port, OF _ filter_packet_options(4) [where cfg = cfg and p = p and ss = ss], where q = q]
    fields_after_one [of 12 p_content_format, OF _ filter_packet_options(6) [where cfg = cfg and p = p and ss = ss], where q = q]
    fields_after_one [of 14 p_max_age, OF _ filter_packet_options(7) [where cfg = cfg and p = p and ss = ss], where q = q]
    fields_after_one [of 17 p_accept, OF _ filter_packet_options(9) [where cfg = cfg and p = p and ss = ss], where q = q]
    fields_after_one [of 28 p_size2, OF _ filter_packet_options(12) [where cfg = cfg and p = p and ss = ss], where q = q]
    fields_after_one [of 60 p_size1, OF _ filter_packet_options(14) [where cfg = cfg and p = p and ss = ss], where q = q]
  by (simp_all add: assms effect_fields ucast_ucast_16)

lemma blocks_of_packet_options:
  assumes "os = packet_options cfg p ss True True"
  shows "IS_OPTION p 23 \<Longrightarrow> (p_block2_num (fields_after q os), p_block2_more (fields_after q os), p_block2_size (fields_after q os),
      p_block2_offset (fields_after q os)) =
      coap_options_block_decode (coap_options_block_encode (p_block2_num p) (p_block2_more p) (p_block2_size p))"
    "IS_OPTION p 27 \<Longrightarrow> (p_block1_num (fields_after q os), p_block1_more (fields_after q os), p_block1_size (fields_after q os),
      p_block1_offset (fields_after q os)) =
      coap_options_block_decode (coap_options_block_encode (p_block1_num p) (p_block1_more p) (p_block1_size p))"
  using fields_after_one [of 23 "\<lambda>q. (p_block2_num q, p_block2_more q, p_block2_size q, p_block2_offset q)",
      OF _ filter_packet_options(10) [where cfg = cfg and p = p and ss = ss], where q = q]
    fields_after_one [of 27 "\<lambda>q. (p_block1_num q, p_block1_more q, p_block1_size q, p_block1_offset q)",
      OF _ filter_packet_options(11) [where cfg = cfg and p = p and ss = ss], where q = q]
  by (simp_all add: assms effect_block_fields del: prod.inject)

lemma etag_of_packet_options:
  assumes "os = packet_options cfg p ss True True" and "packet_wf p" and "packet_wf q" and "IS_OPTION p 4"
  shows "p_etag_len (fields_after q os) = p_etag_len p"
    "take (p_etag_len p) (p_etag (fields_after q os)) = take (p_etag_len p) (p_etag p)"
proof -
  have l: "p_etag_len p \<le> 8" "length (p_etag p) = 8"
    using assms(2) by (simp_all add: packet_wf_def)
  obtain q1 q2 where e: "p_etag_len (fields_after q os) = p_etag_len (option_effect (4, take (p_etag_len p) (p_etag p)) q1)"
    "p_etag (fields_after q os) = p_etag (option_effect (4, take (p_etag_len p) (p_etag p)) q2)"
    using fields_after_one [of 4 p_etag_len, OF _ filter_packet_options(2) [where cfg = cfg and p = p and ss = ss], where q = q]
      fields_after_one [of 4 p_etag, OF _ filter_packet_options(2) [where cfg = cfg and p = p and ss = ss], where q = q] assms(1,4)
    by (auto simp: effect_fields)
  from e(1) l show "p_etag_len (fields_after q os) = p_etag_len p"
    by (simp add: effect_fields)
  from e(2) l show "take (p_etag_len p) (p_etag (fields_after q os)) = take (p_etag_len p) (p_etag p)"
    by (simp add: effect_fields write_at_def)
qed

lemma present_packet_options:
  assumes "os = packet_options cfg p ss True True" and "packet_wf q" and "p_options q = replicate 8 0"
    and "IS_OPTION p 11 \<longrightarrow> ps_path ss \<noteq> []" and "IS_OPTION p 15 \<longrightarrow> ps_query ss \<noteq> []"
    and "n \<in> {3, 4, 6, 7, 11, 12, 14, 15, 17, 23, 27, 28, 35, 60}"
  shows "IS_OPTION (fields_after q os) n \<longleftrightarrow> IS_OPTION p n"
proof -
  have z: "\<not> IS_OPTION q n"
    using in_zero_bitmap [of n] assms(3,6) by (auto simp: IS_OPTION_iff)
  have f: "filter (\<lambda>x. fst x = n) os \<noteq> [] \<longleftrightarrow> IS_OPTION p n"
    using assms(4,5,6) unfolding assms(1)
    by (elim insertE emptyE) (simp_all add: filter_packet_options, auto simp: opts_if_def)
  show ?thesis
    using IS_OPTION_fields_after [OF assms(2), of n os] assms(6) z f unfolding in_fst_filter by auto
qed

lemma payload_at_fields [simp]:
  "p_code (payload_at t s q) = p_code q" "p_token (payload_at t s q) = p_token q" "p_token_len (payload_at t s q) = p_token_len q"
  "p_content_format (payload_at t s q) = p_content_format q" "p_accept (payload_at t s q) = p_accept q" "p_max_age (payload_at t s q) = p_max_age q"
  "p_observe (payload_at t s q) = p_observe q" "p_size1 (payload_at t s q) = p_size1 q" "p_size2 (payload_at t s q) = p_size2 q"
  "p_uri_port (payload_at t s q) = p_uri_port q" "p_etag (payload_at t s q) = p_etag q" "p_etag_len (payload_at t s q) = p_etag_len q"
  "p_options (payload_at t s q) = p_options q"
  "p_block1_num (payload_at t s q) = p_block1_num q" "p_block1_more (payload_at t s q) = p_block1_more q"
  "p_block1_size (payload_at t s q) = p_block1_size q" "p_block1_offset (payload_at t s q) = p_block1_offset q"
  "p_block2_num (payload_at t s q) = p_block2_num q" "p_block2_more (payload_at t s q) = p_block2_more q"
  "p_block2_size (payload_at t s q) = p_block2_size q" "p_block2_offset (payload_at t s q) = p_block2_offset q"
  "p_mid (payload_at t s q) = p_mid q" "p_type (payload_at t s q) = p_type q"
  by (simp_all add: payload_at_def)

lemma received_from_parse:
  assumes wf: "packet_wf p" "packet_wf p1"
    and seg: "IS_OPTION p 11 \<longrightarrow> segments 0x2F (ps_path ss)" "IS_OPTION p 15 \<longrightarrow> segments 0x26 (ps_query ss)"
    and p1: "p_code p1 = p_code p" "p_token_len p1 = p_token_len p"
      "take (p_token_len p) (p_token p1) = take (p_token_len p) (p_token p)" "p_payload_len p1 = 0"
    and os: "os = packet_options cfg p ss True True"
    and sq: "scalars q = payload_at tail (Some (b, k + 1)) (fields_after (scalars (p1\<lparr>p_options := replicate 8 0\<rparr>)) os)"
    and str: "loads m (p_uri_host q) (p_uri_host_len q) = Some (s_host (strings_after no_strings os))"
      "loads m (p_uri_path q) (p_uri_path_len q) = Some (s_path (strings_after no_strings os))"
      "loads m (p_uri_query q) (p_uri_query_len q) = Some (s_query (strings_after no_strings os))"
      "loads m (p_proxy_uri q) (p_proxy_uri_len q) = Some (s_proxy (strings_after no_strings os))"
    and tail: "loads m (Some (b, k)) (length tail) = Some tail"
      "tail = (if p_payload_len p > 0 then COAP_PAYLOAD_MARKER # payload else [])"
      "p_payload_len p > 0 \<longrightarrow> length payload = unat (p_payload_len p)"
  shows "received p ss payload q m"
proof -
  let ?f = "fields_after (scalars (p1\<lparr>p_options := replicate 8 0\<rparr>)) os"
  have wf1: "packet_wf (scalars (p1\<lparr>p_options := replicate 8 0\<rparr>))"
    using wf(2) by (simp add: packet_wf_def scalars_def)
  have fq: "g (scalars q) = g (payload_at tail (Some (b, k + 1)) ?f)" for g :: "coap_packet \<Rightarrow> 'z"
    by (simp add: sq)
  have bits: "IS_OPTION q n \<longleftrightarrow> IS_OPTION p n" if "n \<in> {3, 4, 6, 7, 11, 12, 14, 15, 17, 23, 27, 28, 35, 60}" for n
  proof -
    have "IS_OPTION q n \<longleftrightarrow> IS_OPTION ?f n"
      using fq [of p_options] by (simp add: IS_OPTION_def)
    also have "\<dots> \<longleftrightarrow> IS_OPTION p n"
      using seg that by (intro present_packet_options [OF os wf1]) (auto simp: segments_def scalars_updates)
    finally show ?thesis .
  qed
  note fo = fields_of_packet_options [OF os] and bo = blocks_of_packet_options [OF os] and eo = etag_of_packet_options [OF os wf(1) wf1]
  have num: "IS_OPTION p 6 \<Longrightarrow> p_observe q = p_observe p" "IS_OPTION p 7 \<Longrightarrow> p_uri_port q = p_uri_port p"
    "IS_OPTION p 12 \<Longrightarrow> p_content_format q = p_content_format p" "IS_OPTION p 14 \<Longrightarrow> p_max_age q = p_max_age p"
    "IS_OPTION p 17 \<Longrightarrow> p_accept q = p_accept p" "IS_OPTION p 28 \<Longrightarrow> p_size2 q = p_size2 p" "IS_OPTION p 60 \<Longrightarrow> p_size1 q = p_size1 p"
    using fo fq [of p_observe] fq [of p_uri_port] fq [of p_content_format] fq [of p_max_age] fq [of p_accept]
      fq [of p_size2] fq [of p_size1] by simp_all
  have blk: "IS_OPTION p 23 \<Longrightarrow> (p_block2_num q, p_block2_more q, p_block2_size q, p_block2_offset q) =
      coap_options_block_decode (coap_options_block_encode (p_block2_num p) (p_block2_more p) (p_block2_size p))"
    "IS_OPTION p 27 \<Longrightarrow> (p_block1_num q, p_block1_more q, p_block1_size q, p_block1_offset q) =
      coap_options_block_decode (coap_options_block_encode (p_block1_num p) (p_block1_more p) (p_block1_size p))"
    using bo fq [of "\<lambda>q. (p_block2_num q, p_block2_more q, p_block2_size q, p_block2_offset q)"]
      fq [of "\<lambda>q. (p_block1_num q, p_block1_more q, p_block1_size q, p_block1_offset q)"] by simp_all
  have et: "IS_OPTION p 4 \<Longrightarrow> p_etag_len q = p_etag_len p \<and> take (p_etag_len q) (p_etag q) = take (p_etag_len p) (p_etag p)"
    using eo fq [of p_etag_len] fq [of p_etag] by simp
  have tok: "p_code q = p_code p" "p_token_len q = p_token_len p" "take (p_token_len q) (p_token q) = take (p_token_len p) (p_token p)"
    using p1 fq [of p_code] fq [of p_token_len] fq [of p_token] by simp_all
  have strs: "IS_OPTION p 3 \<Longrightarrow> s_host (strings_after no_strings os) = ps_host ss"
    "IS_OPTION p 11 \<Longrightarrow> s_path (strings_after no_strings os) = join_bytes 0x2F (ps_path ss)"
    "IS_OPTION p 15 \<Longrightarrow> s_query (strings_after no_strings os) = join_bytes 0x26 (ps_query ss)"
    "IS_OPTION p 35 \<Longrightarrow> s_proxy (strings_after no_strings os) = ps_proxy ss"
    using seg by (simp_all add: os s_host_after s_path_after s_query_after s_proxy_after filter_packet_options opts_if_def
        no_strings_def fold_merged_segments)
  have pl: "p_payload_len q = p_payload_len p \<and>
      (p_payload_len p > 0 \<longrightarrow> loads m (p_payload q) (unat (p_payload_len q)) = Some payload)"
  proof (cases "p_payload_len p > 0")
    case True
    then have "p_payload q = Some (b, k + 1)" "p_payload_len q = p_payload_len p"
      using fq [of p_payload] fq [of p_payload_len] tail(2,3) by (simp_all add: payload_at_def)
    moreover have "loads m (Some (b, k + 1)) (length payload) = Some payload"
      using loads_part [OF tail(1), of 1 "length payload"] True tail(2) by (simp add: bslice_def)
    ultimately show ?thesis
      using tail(3) True by simp
  next
    case False
    then have "p_payload_len p = 0"
      by (simp add: word_gt_0)
    then show ?thesis
      using fq [of p_payload_len] tail(2) p1(4) by (simp add: payload_at_def)
  qed
  have et': "IS_OPTION p 4 \<longrightarrow> p_etag_len q = p_etag_len p \<and> take (p_etag_len q) (p_etag q) = take (p_etag_len p) (p_etag p)"
    using et by blast
  have get: "coap_options_get_content_format q = coap_options_get_content_format p"
    "coap_options_get_accept q = coap_options_get_accept p" "coap_options_get_max_age q = coap_options_get_max_age p"
    "coap_options_get_observe q = coap_options_get_observe p" "coap_options_get_size1 q = coap_options_get_size1 p"
    "coap_options_get_size2 q = coap_options_get_size2 p"
    using bits num
    by (auto simp: coap_options_get_content_format_def coap_options_get_accept_def coap_options_get_max_age_def
        coap_options_get_observe_def coap_options_get_size1_def coap_options_get_size2_def)
  have getb: "coap_options_get_block1 q = map_option (\<lambda>(num, mr, sz, off).
        coap_options_block_decode (coap_options_block_encode num mr sz)) (coap_options_get_block1 p)"
    "coap_options_get_block2 q = map_option (\<lambda>(num, mr, sz, off).
        coap_options_block_decode (coap_options_block_encode num mr sz)) (coap_options_get_block2 p)"
    using bits blk by (auto simp: coap_options_get_block1_def coap_options_get_block2_def)
  have strs': "IS_OPTION p 3 \<longrightarrow> loads m (p_uri_host q) (p_uri_host_len q) = Some (ps_host ss)"
    "IS_OPTION p 11 \<longrightarrow> loads m (p_uri_path q) (p_uri_path_len q) = Some (join_bytes 0x2F (ps_path ss))"
    "IS_OPTION p 15 \<longrightarrow> loads m (p_uri_query q) (p_uri_query_len q) = Some (join_bytes 0x26 (ps_query ss))"
    "IS_OPTION p 35 \<longrightarrow> loads m (p_proxy_uri q) (p_proxy_uri_len q) = Some (ps_proxy ss)"
    using str strs by simp_all
  have "IS_OPTION p 7 \<longrightarrow> p_uri_port q = p_uri_port p"
    using num by blast
  then show ?thesis
    unfolding received_def using tok bits et' get getb strs' pl by blast
qed

subsection \<open>Parsing a serialized message\<close>

text \<open>What the sender's strings and option values have to satisfy to be accepted by the receiver.\<close>

definition sendable :: "coap_cfg \<Rightarrow> coap_packet \<Rightarrow> packet_strings \<Rightarrow> bytes \<Rightarrow> bool" where
  "sendable cfg p ss payload \<longleftrightarrow>
     packet_wf p \<and> \<not> coap_check_signal_message (p_code p) \<and> values_ok cfg p ss \<and>
     (IS_OPTION p COAP_OPTION_URI_PATH \<longrightarrow> segments 0x2F (ps_path ss)) \<and>
     (IS_OPTION p COAP_OPTION_URI_QUERY \<longrightarrow> segments 0x26 (ps_query ss)) \<and>
     (p_payload_len p > 0 \<longrightarrow> length payload = unat (p_payload_len p))"

lemma parse_options_received:
  assumes s: "sendable cfg p ss payload" and wf1: "packet_wf p1"
    and p1: "p_code p1 = p_code p" "p_token_len p1 = p_token_len p"
      "take (p_token_len p) (p_token p1) = take (p_token_len p) (p_token p)" "p_payload_len p1 = 0"
      "p_uri_host_len p1 = 0" "p_uri_path_len p1 = 0" "p_uri_query_len p1 = 0" "p_proxy_uri_len p1 = 0"
    and M: "M = message_bytes cfg p ss payload" "length M < 2 ^ 32" and mb: "m b = Some (pre @ M @ suf)"
    and cur: "cur = length (message_header p (length (enc_opts 0 (all_options cfg p ss True True)))) + p_token_len p"
  shows "\<exists>q m'. coap_oscore_parse_options cfg p1 (Some (b, length pre)) (length M) cur True True False False m =
      Some (COAP_NO_ERROR, q, m') \<and> received p ss payload q m' \<and> p_type q = p_type p1 \<and> p_mid q = p_mid p1"
proof -
  let ?os = "packet_options cfg p ss True True"
  let ?h = "message_header p (length (enc_opts 0 ?os))"
  let ?tok = "take (p_token_len p) (p_token p)"
  let ?pl = "if p_payload_len p > 0 then COAP_PAYLOAD_MARKER # payload else []"
  have sg: "\<not> coap_check_signal_message (p_code p)" and wf: "packet_wf p" and vok: "values_ok cfg p ss"
    and seg: "IS_OPTION p 11 \<longrightarrow> segments 0x2F (ps_path ss)" "IS_OPTION p 15 \<longrightarrow> segments 0x26 (ps_query ss)"
    and pll: "p_payload_len p > 0 \<longrightarrow> length payload = unat (p_payload_len p)"
    using s by (simp_all add: sendable_def)
  have os: "all_options cfg p ss True True = ?os"
    using sg by (simp add: all_options_def)
  have M': "M = ?h @ ?tok @ enc_opts 0 ?os @ ?pl"
    by (simp add: M(1) message_bytes_def message_head_def os)
  have tl: "length ?tok = p_token_len p"
    using wf by (simp add: packet_wf_def)
  have sg1: "\<not> coap_check_signal_message (p_code p1)"
    using sg p1(1) by simp
  have blk: "m b = Some ((pre @ ?h @ ?tok) @ enc_opts 0 ?os @ ?pl @ suf)"
    using mb M' by simp
  have lp: "length (pre @ ?h @ ?tok) = length pre + cur"
    using tl cur os by simp
  have ln: "length M = cur + length (enc_opts 0 ?os) + length ?pl"
    using tl cur os M' by simp
  have tl': "?pl = [] \<or> hd ?pl AND 0xF0 = 0xF0"
    by simp
  obtain q m' where q: "coap_oscore_parse_options cfg p1 (Some (b, length pre)) (length M) cur True True False False m =
      Some (COAP_NO_ERROR, q, m')"
    and str: "loads m' (p_uri_host q) (p_uri_host_len q) = Some (s_host (strings_after no_strings ?os))"
    "loads m' (p_uri_path q) (p_uri_path_len q) = Some (s_path (strings_after no_strings ?os))"
    "loads m' (p_uri_query q) (p_uri_query_len q) = Some (s_query (strings_after no_strings ?os))"
    "loads m' (p_proxy_uri q) (p_proxy_uri_len q) = Some (s_proxy (strings_after no_strings ?os))"
    and tail: "loads m' (Some (b, length pre + length M - length ?pl)) (length ?pl) = Some ?pl"
    and sq: "scalars q = payload_at ?pl (Some (b, length pre + length M - length ?pl + 1))
        (fields_after (scalars (p1\<lparr>p_options := replicate 8 0\<rparr>)) ?os)"
    using parse_options_encoded [of p1 cfg ?os m b "pre @ ?h @ ?tok" ?pl suf "length pre" cur "length M",
        OF sg1 packet_options_ok [OF sg wf vok] p1(5-8) blk lp ln M(2) tl'] by blast
  have "received p ss payload q m'"
    by (rule received_from_parse [OF wf wf1 seg p1(1-4) refl sq str tail refl pll])
  moreover have "p_type q = p_type p1" "p_mid q = p_mid p1"
    using arg_cong [OF sq, of p_type] arg_cong [OF sq, of p_mid] by simp_all
  ultimately show ?thesis
    using q by blast
qed

lemma token_len_sendable: "sendable cfg p ss payload \<Longrightarrow> p_token_len p \<le> 8 \<and> length (p_token p) = 8"
  by (simp add: sendable_def packet_wf_def)

lemma message_bytes_split:
  "message_bytes cfg p ss payload = message_header p (length (enc_opts 0 (all_options cfg p ss True True))) @
     take (p_token_len p) (p_token p) @ enc_opts 0 (all_options cfg p ss True True) @
     (if p_payload_len p > 0 then COAP_PAYLOAD_MARKER # payload else [])"
  by (simp add: message_bytes_def message_head_def)

lemma parse_udp_message:
  assumes s: "sendable cfg p ss payload" and u: "p_transport_type p = COAP_TRANSPORT_UDP"
    and M: "M = message_bytes cfg p ss payload" "length M \<le> 65535" and mb: "m b = Some (pre @ M @ suf)"
  shows "\<exists>q m'. coap_udp_parse_message cfg (Some (b, length pre)) (length M) False q0 m = Some (COAP_NO_ERROR, q, m') \<and>
    received p ss payload q m' \<and> p_type q = p_type p \<and> p_mid q = p_mid p"
proof -
  let ?n = "length (enc_opts 0 (all_options cfg p ss True True))"
  let ?h = "message_header p ?n"
  let ?tok = "take (p_token_len p) (p_token p)"
  obtain rest where M': "M = ?h @ ?tok @ rest"
    using M(1) unfolding message_bytes_split by blast
  have h: "?h = udp_header (p\<lparr>p_version := 1\<rparr>)"
    using u by (simp add: message_header_def)
  have ld: "loads m (Some (b, length pre)) (length (?h @ ?tok)) = Some (?h @ ?tok)"
    using loads_here [of m b pre "?h @ ?tok" "rest @ suf"] mb M' by simp
  have tl: "p_token_len p \<le> 8" "length ?tok = p_token_len p" "length (p_token p) = 8"
    using token_len_sendable [OF s] by simp_all
  let ?b0 = "(0xC0 AND push_bit 6 1) OR (0x30 AND push_bit 4 (of_nat (message_type_value (p_type p)))) OR
        (0x0F AND of_nat (p_token_len p)) :: u8"
  have b: "load m (Some (b, length pre)) = Some ?b0" "load m (offset (Some (b, length pre)) 1) = Some (p_code p)"
    "load m (offset (Some (b, length pre)) 2) = Some (ucast (drop_bit 8 (p_mid p)))"
    "load m (offset (Some (b, length pre)) 3) = Some (ucast (p_mid p))"
    using load_nth [OF ld, of 0] load_nth [OF ld, of 1] load_nth [OF ld, of 2] load_nth [OF ld, of 3]
    by (simp_all add: h udp_header_def numeral_2_eq_2 numeral_3_eq_3)
  have tk: "loads m (offset (Some (b, length pre)) 4) (p_token_len p) = Some ?tok"
    using loads_part [OF ld, of 4 "p_token_len p"] tl by (simp add: h bslice_def)
  have f: "take_bit 2 (1 :: u8) = 1" "unat (take_bit 2 (of_nat (message_type_value (p_type p)) :: u8)) = message_type_value (p_type p)"
    "unat (take_bit 4 (of_nat (p_token_len p) :: u8)) = p_token_len p"
    using message_type_value_lt [of "p_type p"] tl(1) by (auto intro!: unat_take_bit_of_nat)
  let ?p1 = "zero_packet\<lparr>p_buffer := Some (b, length pre), p_transport_type := COAP_TRANSPORT_UDP,
                  p_version := 1, p_type := p_type p, p_token_len := p_token_len p, p_code := p_code p,
                  p_mid := p_mid p, p_token := write_at (replicate 8 0) 0 ?tok\<rparr>"
  have wf1: "packet_wf ?p1"
    using tl packet_wf_zero by (simp add: packet_wf_def length_write_at)
  have "\<exists>q m'. coap_oscore_parse_options cfg ?p1 (Some (b, length pre)) (length M) (4 + p_token_len p) True True False False m =
      Some (COAP_NO_ERROR, q, m') \<and> received p ss payload q m' \<and> p_type q = p_type ?p1 \<and> p_mid q = p_mid ?p1"
    using tl M(2) by (intro parse_options_received [of cfg p ss payload ?p1 M m b pre suf, OF s wf1 _ _ _ _ _ _ _ _ M(1) _ mb])
       (simp_all add: write_at_def h)
  moreover have "coap_udp_parse_message cfg (Some (b, length pre)) (length M) False q0 m =
      coap_oscore_parse_options cfg ?p1 (Some (b, length pre)) (length M) (4 + p_token_len p) True True False False m"
    unfolding coap_udp_parse_message_def b Option.bind.simps udp_byte f mid_bytes Let_def message_type_of_value
    using M(2) tl tk by simp
  ultimately show ?thesis
    by simp
qed

lemma marked_payload_len_eq:
  assumes "unat (p_payload_len p) < 2 ^ 32 - 1"
  shows "marked_payload_len p = 1 + unat (p_payload_len p)"
proof -
  have "1 + p_payload_len p = of_nat (1 + unat (p_payload_len p))"
    by simp
  then have "marked_payload_len p = unat (of_nat (1 + unat (p_payload_len p)) :: u32)"
    unfolding marked_payload_len_def by (rule arg_cong)
  also have "\<dots> = 1 + unat (p_payload_len p)"
    using assms by (simp only: unsigned_of_nat) (simp add: take_bit_nat_eq_self)
  finally show ?thesis .
qed

lemma parse_tcp_message:
  assumes s: "sendable cfg p ss payload" and u: "p_transport_type p = COAP_TRANSPORT_TCP"
    and M: "M = message_bytes cfg p ss payload" "length M < 2 ^ 32" and mb: "m b = Some (pre @ M @ suf)"
  shows "\<exists>q m'. coap_tcp_parse_message cfg (Some (b, length pre)) (length M) False q0 m = Some (COAP_NO_ERROR, q, m') \<and>
    received p ss payload q m' \<and> coap_tcp_get_packet_size (Some (b, length pre)) (length M) m = Some (Some (length M))"
proof -
  let ?n = "length (enc_opts 0 (all_options cfg p ss True True))"
  let ?h = "message_header p ?n"
  let ?tok = "take (p_token_len p) (p_token p)"
  let ?pl = "if p_payload_len p > 0 then COAP_PAYLOAD_MARKER # payload else []"
  have M': "M = ?h @ ?tok @ enc_opts 0 (all_options cfg p ss True True) @ ?pl"
    using M(1) unfolding message_bytes_split by blast
  obtain ne len ext where c: "coap_tcp_compute_message_length p ?n 0 = (ne, len, ext)"
    by (metis prod_cases3)
  have h: "?h = tcp_header ne len ext (p_token_len p) (p_code p)"
    using u c by (simp add: message_header_def)
  have tl: "p_token_len p \<le> 8" "length ?tok = p_token_len p" "length (p_token p) = 8"
    using token_len_sendable [OF s] by simp_all
  have ld: "loads m (Some (b, length pre)) (length (?h @ ?tok)) = Some (?h @ ?tok)"
    using loads_here [of m b pre "?h @ ?tok" "(enc_opts 0 (all_options cfg p ss True True) @ ?pl) @ suf"] mb M' by simp
  have pll: "p_payload_len p > 0 \<longrightarrow> length payload = unat (p_payload_len p)"
    using s by (simp add: sendable_def)
  define tlen where "tlen = ?n + (if p_payload_len p > 0 then marked_payload_len p else 0)"
  have lenM: "length M = 2 + ne + p_token_len p + ?n + length ?pl"
    using M' h tl by simp
  have tlen: "tlen = ?n + length ?pl"
    using pll marked_payload_len_eq [of p] lenM M(2) by (simp add: tlen_def split: if_splits)
  have hl: "loads m (Some (b, length pre)) (2 + ne) = Some (tcp_header ne len ext (p_token_len p) (p_code p))"
    using loads_part [OF ld, of 0 "2 + ne"] by (simp add: h bslice_def offset_def)
  have len: "coap_tcp_parse_message_length (Some (b, length pre)) (length M) m = Some (Some (tlen, ne)) \<and>
      coap_tcp_get_packet_size (Some (b, length pre)) (length M) m = Some (Some (2 + ne + p_token_len p + tlen))"
    using tl lenM tlen M(2) by (intro tcp_header_parsed [OF c tlen_def _ _ _ hl]) simp_all
  have b: "load m (Some (b, length pre)) = Some ((0xF0 AND push_bit 4 (of_nat len)) OR (0x0F AND of_nat (p_token_len p)))"
    "load m (offset (Some (b, length pre)) (1 + ne)) = Some (p_code p)"
    using load_nth [OF hl, of 0] load_nth [OF hl, of "1 + ne"] by (simp_all add: tcp_header_def nth_append)
  have tk: "loads m (offset (Some (b, length pre)) (2 + ne)) (p_token_len p) = Some ?tok"
    using loads_part [OF ld, of "2 + ne" "p_token_len p"] tl by (simp add: h bslice_def)
  have f: "unat (take_bit 4 (of_nat (p_token_len p) :: u8)) = p_token_len p"
    using tl(1) by (auto intro!: unat_take_bit_of_nat)
  let ?p1 = "zero_packet\<lparr>p_buffer := Some (b, length pre), p_transport_type := COAP_TRANSPORT_TCP,
                  p_type := COAP_TYPE_NON, p_mid := 0, p_token_len := p_token_len p, p_code := p_code p,
                  p_token := write_at (replicate 8 0) 0 ?tok\<rparr>"
  have wf1: "packet_wf ?p1"
    using tl packet_wf_zero by (simp add: packet_wf_def length_write_at)
  have "\<exists>q m'. coap_oscore_parse_options cfg ?p1 (Some (b, length pre)) (length M) (2 + ne + p_token_len p) True True False False m =
      Some (COAP_NO_ERROR, q, m') \<and> received p ss payload q m' \<and> p_type q = p_type ?p1 \<and> p_mid q = p_mid ?p1"
    using tl M(2) by (intro parse_options_received [of cfg p ss payload ?p1 M m b pre suf, OF s wf1 _ _ _ _ _ _ _ _ M(1) _ mb])
       (simp_all add: write_at_def h)
  moreover have "coap_tcp_parse_message cfg (Some (b, length pre)) (length M) False q0 m =
      coap_oscore_parse_options cfg ?p1 (Some (b, length pre)) (length M) (2 + ne + p_token_len p) True True False False m"
    unfolding coap_tcp_parse_message_def Let_def len [THEN conjunct1] Option.bind.simps option.case prod.case b nibble_byte f
    using M(2) tl tk by simp
  ultimately show ?thesis
    using len lenM tlen by auto
qed

subsection \<open>Round trip\<close>

text \<open>The strings of a packet that reads its segments are segments.\<close>

lemma sendableI:
  assumes "packet_wf p" and "reads_strings m b p ss" and "\<not> coap_check_signal_message (p_code p)" and "values_ok cfg p ss"
    and "p_payload_len p > 0 \<longrightarrow> length payload = unat (p_payload_len p)"
  shows "sendable cfg p ss payload"
  using assms by (auto simp: sendable_def reads_strings_def reads_segments_def)

text \<open>
  C1. A message that is serialized and then parsed by the receiver arrives: for UDP and for TCP the parser
  accepts the bytes and yields the same code, token, set of options, option values, path, query, host,
  proxy address and payload (and for UDP type and message id). The hypotheses are those of the
  serializer, content formats that the receiver accepts, and the size limits of the transports.
\<close>

theorem message_round_trip:
  assumes "can_send cfg m b i buffer_size p ss payload" and "\<not> coap_check_signal_message (p_code p)"
    and "values_ok cfg p ss"
    and "length (message_bytes cfg p ss payload) < (if p_transport_type p = COAP_TRANSPORT_TCP then 2 ^ 32 else 65536)"
  shows "\<exists>n p' m1 q m2. coap_serialize_message cfg p (Some (b, i)) buffer_size m = Some (n, p', m1) \<and>
    (if p_transport_type p = COAP_TRANSPORT_TCP then coap_tcp_parse_message else coap_udp_parse_message)
      cfg (Some (b, i)) n False q0 m1 = Some (COAP_NO_ERROR, q, m2) \<and>
    received p ss payload q m2 \<and>
    (p_transport_type p \<noteq> COAP_TRANSPORT_TCP \<longrightarrow> p_type q = p_type p \<and> p_mid q = p_mid p) \<and>
    (p_transport_type p = COAP_TRANSPORT_TCP \<longrightarrow> coap_tcp_get_packet_size (Some (b, i)) n m1 = Some (Some n))"
proof -
  let ?M = "message_bytes cfg p ss payload"
  let ?m = "m(b \<mapsto> write_at (the (m b)) i ?M)"
  obtain B where B: "m b = Some B" "i + buffer_size \<le> length B"
    using assms(1) by (auto simp: can_send_def split: option.splits)
  have ser: "coap_serialize_message cfg p (Some (b, i)) buffer_size m =
      Some (length ?M, p\<lparr>p_buffer := Some (b, i), p_version := 1\<rparr>, ?m)"
    using assms(1) B serialize_message_bytes [of p m b i ss cfg B buffer_size payload] by (simp add: can_send_def)
  have pl: "p_payload_len p > 0 \<longrightarrow> length payload = unat (p_payload_len p)"
    using assms(1) length_loads unfolding can_send_def by blast
  have s: "sendable cfg p ss payload"
    using assms(1) pl by (intro sendableI [OF _ _ assms(2,3)]) (auto simp: can_send_def)
  have i: "length (take i B) = i"
    using B(2) by simp
  have blk: "?m b = Some (take i B @ ?M @ drop (i + length ?M) B)"
    using B(1) by (simp add: write_at_def)
  show ?thesis
  proof (cases "p_transport_type p = COAP_TRANSPORT_TCP")
    case True
    obtain q m2 where q: "coap_tcp_parse_message cfg (Some (b, i)) (length ?M) False q0 ?m = Some (COAP_NO_ERROR, q, m2)"
      "received p ss payload q m2" "coap_tcp_get_packet_size (Some (b, i)) (length ?M) ?m = Some (Some (length ?M))"
      using parse_tcp_message [of cfg p ss payload ?M ?m b "take i B", OF s True refl _ blk, of q0] assms(4) True
      unfolding i by auto
    show ?thesis
      using True ser q by auto
  next
    case False
    then have u: "p_transport_type p = COAP_TRANSPORT_UDP"
      by (cases "p_transport_type p") simp_all
    obtain q m2 where q: "coap_udp_parse_message cfg (Some (b, i)) (length ?M) False q0 ?m = Some (COAP_NO_ERROR, q, m2)"
      "received p ss payload q m2" "p_type q = p_type p" "p_mid q = p_mid p"
      using parse_udp_message [of cfg p ss payload ?M ?m b "take i B", OF s u refl _ blk, of q0] assms(4) False
      unfolding i by auto
    show ?thesis
      using False ser q by auto
  qed
qed


lemma message_round_trip_witness:
  "\<exists>n p' m1 q m2. coap_serialize_message example_cfg (example_packet COAP_TRANSPORT_TCP) (Some (0, 3)) 15 example_mem =
     Some (n, p', m1) \<and>
   coap_tcp_parse_message example_cfg (Some (0, 3)) n False zero_packet m1 = Some (COAP_NO_ERROR, q, m2) \<and>
   received (example_packet COAP_TRANSPORT_TCP) example_strings [0x68, 0x69] q m2"
proof -
  have "values_ok example_cfg (example_packet COAP_TRANSPORT_TCP) example_strings"
    by (simp add: values_ok_def example_options example_strings_def)
  then show ?thesis
    using message_round_trip [OF example_can_send [of COAP_TRANSPORT_TCP] example_no_signal, of zero_packet]
    by (auto simp: example_bytes example_fields)
qed


end
