(* ===== verification/OcResource.thy ===== *)
theory OcResource
  imports Uuid
begin

text \<open>
  What the security components share: the strings of \<open>src/api/oc_helpers.c\<close>, matching of resource paths
  (\<open>src/api/oc_resource.c\<close>), the classes of core resources (\<open>src/api/oc_core_res.c\<close>), comparison of endpoints
  (\<open>src/api/oc_endpoint.c\<close>) and decoded representations (\<open>src/include/oc_rep.h\<close>).
\<close>

subsection \<open>Strings\<close>

text \<open>
  An \<open>oc_string_t\<close> and an \<open>oc_string_view_t\<close> are a text or null. The length of null is 0, so null and the
  empty text differ only where the code tests the pointer.
\<close>

type_synonym oc_string = "string option"
type_synonym oc_uuid = bytes

definition str_of :: "oc_string \<Rightarrow> string" where
  "str_of s = (case s of None \<Rightarrow> [] | Some t \<Rightarrow> t)"

definition oc_string_is_empty :: "oc_string \<Rightarrow> bool" where
  "oc_string_is_empty s \<longleftrightarrow> length (str_of s) = 0"

definition oc_string_view_is_equal :: "oc_string \<Rightarrow> oc_string \<Rightarrow> bool" where
  "oc_string_view_is_equal s t \<longleftrightarrow> length (str_of s) = length (str_of t) \<and>
     (length (str_of s) = 0 \<or> str_of s = take (length (str_of s)) (str_of t))"

definition oc_string_is_cstr_equal :: "oc_string \<Rightarrow> oc_string \<Rightarrow> bool" where
  "oc_string_is_cstr_equal s t = (if s = None then t = None else oc_string_view_is_equal s t)"

definition text_bytes :: "string \<Rightarrow> bytes" where
  "text_bytes s = map of_char s"

lemma oc_string_view_is_equal_iff [simp]: "oc_string_view_is_equal s t \<longleftrightarrow> str_of s = str_of t"
  by (auto simp: oc_string_view_is_equal_def)

lemma str_of_simps [simp]: "str_of None = []" "str_of (Some t) = t"
  by (simp_all add: str_of_def)

lemma oc_string_is_empty_iff [simp]: "oc_string_is_empty s \<longleftrightarrow> str_of s = []"
  by (simp add: oc_string_is_empty_def)

text \<open>
  The first argument is never null. When the second one has no leading slash the first character
  of the first one is skipped; the length of an empty canonical path wraps and matches nothing.
\<close>

definition oc_resource_match_uri :: "string \<Rightarrow> oc_string \<Rightarrow> bool" where
  "oc_resource_match_uri canonicalURI uri =
     (let u = str_of uri in
      if u \<noteq> [] \<and> hd u \<noteq> CHR ''/'' then canonicalURI \<noteq> [] \<and> u = tl canonicalURI
      else u = canonicalURI)"

subsection \<open>Resources\<close>

datatype oc_method_t = OC_GET | OC_POST | OC_PUT | OC_DELETE | OC_FETCH

abbreviation (input) OC_DISCOVERABLE :: u32 where "OC_DISCOVERABLE \<equiv> 1"
abbreviation (input) OC_SECURE :: u32 where "OC_SECURE \<equiv> 16"
abbreviation (input) OC_ACCESS_IN_RFOTM :: u32 where "OC_ACCESS_IN_RFOTM \<equiv> 512"

text \<open>\<open>r_core\<close> is the index of the resource in the array \<open>g_core_resources\<close>, if it lies there.\<close>

record oc_resource_t =
  r_core :: "nat option"
  r_device :: nat
  r_uri :: oc_string
  r_properties :: u32
  r_anon_permission_in_rfotm :: u16

text \<open>The build options that decide which core resources exist and which rules are compiled in.\<close>

record build_cfg =
  oc_plgd_time :: bool
  oc_introspection :: bool
  oc_wkcore :: bool
  oc_mnt :: bool
  oc_cloud :: bool
  oc_software_update :: bool
  oc_pki :: bool
  oc_resource_access_in_rfotm :: bool

definition one_if :: "bool \<Rightarrow> nat" where
  "one_if c = (if c then 1 else 0)"

text \<open>The numbers of the core resources in the order of the enumeration.\<close>

definition OCF_CON :: "build_cfg \<Rightarrow> nat" where
  "OCF_CON cfg = 1 + one_if (oc_plgd_time cfg)"

definition OCF_INTROSPECTION_WK :: "build_cfg \<Rightarrow> nat" where
  "OCF_INTROSPECTION_WK cfg = OCF_CON cfg + 1"

definition OCF_INTROSPECTION_DATA :: "build_cfg \<Rightarrow> nat" where
  "OCF_INTROSPECTION_DATA cfg = OCF_CON cfg + 2"

definition OCF_RES :: "build_cfg \<Rightarrow> nat" where
  "OCF_RES cfg = OCF_CON cfg + 1 + 2 * one_if (oc_introspection cfg) + one_if (oc_wkcore cfg)"

definition OCF_SEC_DOXM :: "build_cfg \<Rightarrow> nat" where
  "OCF_SEC_DOXM cfg = OCF_RES cfg + 1 + one_if (oc_mnt cfg) + one_if (oc_cloud cfg) + one_if (oc_software_update cfg)"

definition OCF_D :: "build_cfg \<Rightarrow> nat" where
  "OCF_D cfg = OCF_SEC_DOXM cfg + 7 + 2 * one_if (oc_pki cfg)"

definition OC_NUM_CORE_LOGICAL_DEVICE_RESOURCES :: "build_cfg \<Rightarrow> nat" where
  "OC_NUM_CORE_LOGICAL_DEVICE_RESOURCES cfg = OCF_D cfg + 1 - OCF_CON cfg"

text \<open>The loops compare the address of the resource with those of a range of the array.\<close>

definition core_between :: "oc_resource_t \<Rightarrow> nat \<Rightarrow> nat \<Rightarrow> bool" where
  "core_between resource a b \<longleftrightarrow> list_ex (\<lambda>i. r_core resource = Some i) [a..<b + 1]"

definition oc_core_is_SVR :: "build_cfg \<Rightarrow> nat \<Rightarrow> oc_resource_t \<Rightarrow> nat \<Rightarrow> bool" where
  "oc_core_is_SVR cfg num_devices resource device =
     (if \<not> device < num_devices then False
      else core_between resource (OC_NUM_CORE_LOGICAL_DEVICE_RESOURCES cfg * device + OCF_SEC_DOXM cfg)
             (OC_NUM_CORE_LOGICAL_DEVICE_RESOURCES cfg * device + OCF_D cfg - 1))"

definition core_is_platform_resource :: "build_cfg \<Rightarrow> oc_resource_t \<Rightarrow> bool" where
  "core_is_platform_resource cfg resource \<longleftrightarrow> list_ex (\<lambda>i. r_core resource = Some i) [0..<OCF_CON cfg]"

definition oc_core_is_vertical_resource :: "build_cfg \<Rightarrow> nat \<Rightarrow> oc_resource_t \<Rightarrow> nat \<Rightarrow> bool" where
  "oc_core_is_vertical_resource cfg num_devices resource device =
     (if core_is_platform_resource cfg resource then True
      else if \<not> device < num_devices then False
      else
        (let device_resources = OC_NUM_CORE_LOGICAL_DEVICE_RESOURCES cfg * device
         in \<not> core_between resource (device_resources + OCF_CON cfg) (device_resources + OCF_D cfg)))"

definition oc_core_is_DCR :: "build_cfg \<Rightarrow> nat \<Rightarrow> oc_resource_t \<Rightarrow> nat \<Rightarrow> bool" where
  "oc_core_is_DCR cfg num_devices resource device =
     (if core_is_platform_resource cfg resource then True
      else if \<not> device < num_devices then False
      else
        (let device_resources = OC_NUM_CORE_LOGICAL_DEVICE_RESOURCES cfg * device
         in core_between resource (device_resources + OCF_CON cfg) (device_resources + OCF_D cfg) \<and>
            \<not> (oc_introspection cfg \<and>
                (r_core resource = Some (device_resources + OCF_INTROSPECTION_WK cfg) \<or>
                 r_core resource = Some (device_resources + OCF_INTROSPECTION_DATA cfg))) \<and>
            r_core resource \<noteq> Some (device_resources + OCF_CON cfg)))"

subsection \<open>Onboarding states\<close>

text \<open>
  The last constructor stands for the values of the enumeration type that have no name; a decoded
  number is stored without a check.
\<close>

datatype oc_dostype_t = OC_DOS_RESET | OC_DOS_RFOTM | OC_DOS_RFPRO | OC_DOS_RFNOP | OC_DOS_SRESET | OC_DOS_UNNAMED u32

subsection \<open>Endpoints\<close>

abbreviation (input) SECURED :: u32 where "SECURED \<equiv> 2"
abbreviation (input) IPV4 :: u32 where "IPV4 \<equiv> 4"
abbreviation (input) IPV6 :: u32 where "IPV6 \<equiv> 8"
abbreviation (input) TCP :: u32 where "TCP \<equiv> 16"
abbreviation (input) MULTICAST :: u32 where "MULTICAST \<equiv> 64"
abbreviation (input) ACCEPTED :: u32 where "ACCEPTED \<equiv> 128"

text \<open>
  The address is a union; its bytes and port are those of the variant that the flags select.
  Builds with \<open>OC_TCP\<close> and \<open>OC_IPV4\<close>.
\<close>

record oc_endpoint_t =
  ep_device :: nat
  ep_flags :: u32
  ep_di :: oc_uuid
  ep_address :: bytes
  ep_port :: u16
  ep_session_id :: u32

definition oc_endpoint_compare_session_ids :: "oc_endpoint_t \<Rightarrow> oc_endpoint_t \<Rightarrow> int" where
  "oc_endpoint_compare_session_ids ep1 ep2 =
     (if ep_session_id ep1 = 0 \<or> ep_session_id ep2 = 0 then 0
      else if ep_session_id ep1 = ep_session_id ep2 then 0 else -1)"

definition oc_endpoint_compare :: "oc_endpoint_t \<Rightarrow> oc_endpoint_t \<Rightarrow> int" where
  "oc_endpoint_compare ep1 ep2 =
     (if ep_flags ep1 AND NOT (MULTICAST OR ACCEPTED) \<noteq> ep_flags ep2 AND NOT (MULTICAST OR ACCEPTED) \<or>
         ep_device ep1 \<noteq> ep_device ep2 then -1
      else if ep_flags ep1 AND IPV6 \<noteq> 0 then
        (if take 16 (ep_address ep1) = take 16 (ep_address ep2) \<and> ep_port ep1 = ep_port ep2
         then oc_endpoint_compare_session_ids ep1 ep2 else -1)
      else if ep_flags ep1 AND IPV4 \<noteq> 0 then
        (if take 4 (ep_address ep1) = take 4 (ep_address ep2) \<and> ep_port ep1 = ep_port ep2
         then oc_endpoint_compare_session_ids ep1 ep2 else -1)
      else -1)"

lemma oc_endpoint_compare_device: "oc_endpoint_compare ep1 ep2 = 0 \<Longrightarrow> ep_device ep1 = ep_device ep2"
  by (simp add: oc_endpoint_compare_def split: if_splits)

subsection \<open>Decoded representations\<close>

text \<open>A decoded request payload: a list of named values; the values of arrays that no security
  resource reads are left out.\<close>

datatype oc_rep_value =
    OC_REP_NIL
  | OC_REP_INT int
  | OC_REP_DOUBLE
  | OC_REP_BOOL bool
  | OC_REP_BYTE_STRING
  | OC_REP_STRING string
  | OC_REP_OBJECT "(oc_string \<times> oc_rep_value) list"
  | OC_REP_ARRAY
  | OC_REP_INT_ARRAY
  | OC_REP_DOUBLE_ARRAY
  | OC_REP_BOOL_ARRAY
  | OC_REP_BYTE_STRING_ARRAY
  | OC_REP_STRING_ARRAY
  | OC_REP_OBJECT_ARRAY "(oc_string \<times> oc_rep_value) list list"

type_synonym oc_rep = "(oc_string \<times> oc_rep_value) list"

definition oc_rep_is_property :: "oc_string \<times> oc_rep_value \<Rightarrow> string \<Rightarrow> bool" where
  "oc_rep_is_property rep propname \<longleftrightarrow>
     length (str_of (fst rep)) = length propname \<and> str_of (fst rep) = propname"

definition oc_rep_is_baseline_interface_property :: "oc_string \<times> oc_rep_value \<Rightarrow> bool" where
  "oc_rep_is_baseline_interface_property rep =
     (case snd rep of
        OC_REP_STRING _ \<Rightarrow> oc_rep_is_property rep ''n'' \<or> oc_rep_is_property rep ''tag-pos-desc'' \<or>
          oc_rep_is_property rep ''tag-func-desc'' \<or> oc_rep_is_property rep ''tag-locn''
      | OC_REP_STRING_ARRAY \<Rightarrow> oc_rep_is_property rep ''rt'' \<or> oc_rep_is_property rep ''if''
      | OC_REP_DOUBLE_ARRAY \<Rightarrow> oc_rep_is_property rep ''tag-pos-rel''
      | _ \<Rightarrow> False)"

lemma oc_rep_is_property_iff [simp]: "oc_rep_is_property rep n \<longleftrightarrow> str_of (fst rep) = n"
  by (auto simp: oc_rep_is_property_def)

subsection \<open>Classes of core resources\<close>

lemma core_between_iff: "core_between res a b \<longleftrightarrow> (\<exists>i. r_core res = Some i \<and> a \<le> i \<and> i \<le> b)"
  by (auto simp: core_between_def list_ex_iff)

lemma core_numbers_ordered:
  "OCF_CON cfg < OCF_RES cfg" "OCF_RES cfg < OCF_SEC_DOXM cfg" "OCF_SEC_DOXM cfg < OCF_D cfg"
  "oc_introspection cfg \<Longrightarrow> OCF_INTROSPECTION_DATA cfg < OCF_RES cfg"
  by (simp_all add: OCF_CON_def OCF_RES_def OCF_SEC_DOXM_def OCF_D_def OCF_INTROSPECTION_DATA_def one_if_def)

text \<open>The security resources of a device are among its configuration resources.\<close>

lemma SVR_is_DCR: "oc_core_is_SVR cfg n res d \<Longrightarrow> oc_core_is_DCR cfg n res d"
  using core_numbers_ordered [of cfg]
  by (auto simp: oc_core_is_SVR_def oc_core_is_DCR_def core_between_iff OCF_INTROSPECTION_WK_def
      OCF_INTROSPECTION_DATA_def Let_def split: if_splits)

end
