(* ===== verification/OcAcl.thy ===== *)
theory OcAcl
  imports OcResource "HOL-Library.Monad_Syntax"
begin

text \<open>
  Access control entries and lists: \<open>src/security/oc_ace.c\<close> and \<open>src/security/oc_acl.c\<close>. The linked lists are
  sequences (the refinement is proved in \<open>OcList\<close>); a pointer into a list is the part of the list that
  starts there, the null pointer the empty list. The encoders are in \<open>OcAclStore\<close>; storage
  and the responses of the resource handlers are left out.
\<close>

subsection \<open>Entries\<close>

datatype oc_ace_connection_type_t = OC_CONN_AUTH_CRYPT | OC_CONN_ANON_CLEAR

text \<open>The tagged union of the subject.\<close>

datatype oc_ace_subject_t =
    OC_SUBJECT_UUID oc_uuid
  | OC_SUBJECT_ROLE oc_string oc_string
  | OC_SUBJECT_CONN oc_ace_connection_type_t

abbreviation (input) OC_ACE_NO_WC :: u16 where "OC_ACE_NO_WC \<equiv> 0"
abbreviation (input) OC_ACE_WC_ALL :: u16 where "OC_ACE_WC_ALL \<equiv> 0x111"
abbreviation (input) OC_ACE_WC_ALL_SECURED :: u16 where "OC_ACE_WC_ALL_SECURED \<equiv> 0x01"
abbreviation (input) OC_ACE_WC_ALL_PUBLIC :: u16 where "OC_ACE_WC_ALL_PUBLIC \<equiv> 0x10"

abbreviation (input) OC_PERM_CREATE :: u16 where "OC_PERM_CREATE \<equiv> 1"
abbreviation (input) OC_PERM_RETRIEVE :: u16 where "OC_PERM_RETRIEVE \<equiv> 2"
abbreviation (input) OC_PERM_UPDATE :: u16 where "OC_PERM_UPDATE \<equiv> 4"
abbreviation (input) OC_PERM_DELETE :: u16 where "OC_PERM_DELETE \<equiv> 8"
abbreviation (input) OC_PERM_NOTIFY :: u16 where "OC_PERM_NOTIFY \<equiv> 16"

record oc_ace_res_t =
  res_href :: oc_string
  res_wildcard :: u16

record oc_sec_ace_t =
  ace_resources :: "oc_ace_res_t list"
  ace_subject :: oc_ace_subject_t
  aceid :: int
  ace_permission :: u16
  ace_tag :: oc_string

record oc_sec_acl_t =
  acl_subjects :: "oc_sec_ace_t list"
  acl_rowneruuid :: oc_uuid

text \<open>
  The lists of all devices, the numbers of free blocks of the pools \<open>g_ace_l\<close> and \<open>g_res_l\<close>, and the number
  of random values that have been drawn.
\<close>

record acl_state =
  g_aclist :: "nat \<Rightarrow> oc_sec_acl_t"
  g_ace_l_free :: nat
  g_res_l_free :: nat
  random_used :: nat

definition oc_ace_wildcard_to_string :: "u16 \<Rightarrow> oc_string" where
  "oc_ace_wildcard_to_string wc =
     (if wc = OC_ACE_WC_ALL then Some ''*''
      else if wc = OC_ACE_WC_ALL_SECURED then Some ''+''
      else if wc = OC_ACE_WC_ALL_PUBLIC then Some ''-''
      else None)"

text \<open>The value -1 is \<^term>\<open>None\<close>.\<close>

definition oc_ace_wildcard_from_string :: "oc_string \<Rightarrow> u16 option" where
  "oc_ace_wildcard_from_string str =
     (if oc_string_view_is_equal str (Some ''*'') then Some OC_ACE_WC_ALL
      else if oc_string_view_is_equal str (Some ''+'') then Some OC_ACE_WC_ALL_SECURED
      else if oc_string_view_is_equal str (Some ''-'') then Some OC_ACE_WC_ALL_PUBLIC
      else None)"

fun oc_ace_connection_type_to_string :: "oc_ace_connection_type_t \<Rightarrow> oc_string" where
  "oc_ace_connection_type_to_string OC_CONN_AUTH_CRYPT = Some ''auth-crypt''"
| "oc_ace_connection_type_to_string OC_CONN_ANON_CLEAR = Some ''anon-clear''"

definition oc_ace_connection_type_from_string :: "oc_string \<Rightarrow> oc_ace_connection_type_t option" where
  "oc_ace_connection_type_from_string str =
     (if oc_string_view_is_equal str (Some ''auth-crypt'') then Some OC_CONN_AUTH_CRYPT
      else if oc_string_view_is_equal str (Some ''anon-clear'') then Some OC_CONN_ANON_CLEAR
      else None)"

text \<open>\<^term>\<open>None\<close> is the null pointer; texts are always stored.\<close>

definition oc_sec_new_ace ::
  "oc_ace_subject_t \<Rightarrow> int \<Rightarrow> u16 \<Rightarrow> oc_string \<Rightarrow> acl_state \<Rightarrow> oc_sec_ace_t option \<times> acl_state" where
  "oc_sec_new_ace subject aid permission tag s =
     (if g_ace_l_free s = 0 then (None, s)
      else
        (Some \<lparr>ace_resources = [],
               ace_subject = (case subject of
                  OC_SUBJECT_ROLE role authority \<Rightarrow>
                    OC_SUBJECT_ROLE role (if length (str_of authority) > 0 then authority else None)
                | _ \<Rightarrow> subject),
               aceid = aid, ace_permission = permission, ace_tag = tag\<rparr>,
         s\<lparr>g_ace_l_free := g_ace_l_free s - 1\<rparr>))"

text \<open>The outer \<^term>\<open>None\<close> is a failed assertion on the path.\<close>

definition oc_sec_add_new_ace_res ::
  "oc_string \<Rightarrow> u16 \<Rightarrow> acl_state \<Rightarrow> (oc_ace_res_t option \<times> acl_state) option" where
  "oc_sec_add_new_ace_res href wildcard s =
     (if wildcard = OC_ACE_NO_WC \<and> href = None then Some (None, s)
      else if g_res_l_free s = 0 then Some (None, s)
      else if href \<noteq> None \<and> (str_of href = [] \<or> hd (str_of href) \<noteq> CHR ''/'') then None
      else Some (Some \<lparr>res_href = href, res_wildcard = wildcard\<rparr>, s\<lparr>g_res_l_free := g_res_l_free s - 1\<rparr>))"

definition oc_sec_free_ace :: "oc_sec_ace_t \<Rightarrow> acl_state \<Rightarrow> acl_state" where
  "oc_sec_free_ace ace s =
     s\<lparr>g_res_l_free := g_res_l_free s + length (ace_resources ace), g_ace_l_free := g_ace_l_free s + 1\<rparr>"

definition oc_ace_has_matching_tag :: "oc_sec_ace_t \<Rightarrow> oc_string \<Rightarrow> bool" where
  "oc_ace_has_matching_tag ace tag =
     (if tag = None then ace_tag ace = None else oc_string_is_cstr_equal (ace_tag ace) tag)"

definition oc_ace_has_matching_subject :: "oc_sec_ace_t \<Rightarrow> oc_ace_subject_t \<Rightarrow> bool" where
  "oc_ace_has_matching_subject ace subject =
     (case (ace_subject ace, subject) of
        (OC_SUBJECT_UUID u, OC_SUBJECT_UUID v) \<Rightarrow> oc_uuid_is_equal u v
      | (OC_SUBJECT_ROLE role authority, OC_SUBJECT_ROLE role' authority') \<Rightarrow>
          oc_string_view_is_equal role' role \<and>
          (oc_string_is_empty authority \<or> oc_string_view_is_equal authority' authority)
      | (OC_SUBJECT_CONN c, OC_SUBJECT_CONN c') \<Rightarrow> c' = c
      | _ \<Rightarrow> False)"

fun oc_sec_ace_find_subject ::
  "oc_sec_ace_t list \<Rightarrow> oc_ace_subject_t \<Rightarrow> int \<Rightarrow> u16 \<Rightarrow> oc_string \<Rightarrow> bool \<Rightarrow> oc_sec_ace_t list" where
  "oc_sec_ace_find_subject [] subject aid permission tag match_tag = []"
| "oc_sec_ace_find_subject (ace # aces) subject aid permission tag match_tag =
     (if aid \<noteq> -1 \<and> aceid ace \<noteq> aid then oc_sec_ace_find_subject aces subject aid permission tag match_tag
      else if permission \<noteq> 0 \<and> ace_permission ace \<noteq> permission then
        oc_sec_ace_find_subject aces subject aid permission tag match_tag
      else if match_tag \<and> \<not> oc_ace_has_matching_tag ace tag then
        oc_sec_ace_find_subject aces subject aid permission tag match_tag
      else if oc_ace_has_matching_subject ace subject then ace # aces
      else oc_sec_ace_find_subject aces subject aid permission tag match_tag)"

definition ace_res_match_wild_card :: "u16 \<Rightarrow> u16 \<Rightarrow> bool" where
  "ace_res_match_wild_card wc reswc = (if wc = OC_ACE_WC_ALL then reswc = OC_ACE_WC_ALL else wc AND reswc \<noteq> 0)"

fun ace_res_find_resource :: "oc_ace_res_t list \<Rightarrow> oc_string \<Rightarrow> u16 \<Rightarrow> oc_ace_res_t list" where
  "ace_res_find_resource [] href wildcard = []"
| "ace_res_find_resource (res # rs) href wildcard =
     (let has_href = href \<noteq> None \<and> \<not> oc_string_is_empty (res_href res);
          has_wc = wildcard \<noteq> 0 \<and> res_wildcard res \<noteq> 0
      in if has_href \<and> \<not> oc_resource_match_uri (str_of (res_href res)) href then ace_res_find_resource rs href wildcard
         else if has_wc \<and> \<not> ace_res_match_wild_card wildcard (res_wildcard res) then ace_res_find_resource rs href wildcard
         else if has_href \<or> has_wc then res # rs
         else ace_res_find_resource rs href wildcard)"

definition oc_sec_ace_find_resource ::
  "oc_ace_res_t list \<Rightarrow> oc_sec_ace_t \<Rightarrow> oc_string \<Rightarrow> u16 \<Rightarrow> oc_ace_res_t list" where
  "oc_sec_ace_find_resource start ace href wildcard =
     ace_res_find_resource (if start = [] then ace_resources ace else tl start) href wildcard"

text \<open>
  The result is \<open>Some (created, ace, s)\<close> with the entry after the call, \<open>created\<close> being
  \<^term>\<open>None\<close> when there is no resource.
\<close>

definition oc_sec_ace_get_or_add_res ::
  "oc_sec_ace_t \<Rightarrow> oc_string \<Rightarrow> u16 \<Rightarrow> bool \<Rightarrow> acl_state \<Rightarrow> (bool option \<times> oc_sec_ace_t \<times> acl_state) option" where
  "oc_sec_ace_get_or_add_res ace href wildcard create s =
     (if oc_sec_ace_find_resource [] ace href wildcard \<noteq> [] then Some (Some False, ace, s)
      else if \<not> create then Some (None, ace, s)
      else do {
        (res, s) \<leftarrow> oc_sec_add_new_ace_res href wildcard s;
        (case res of
           None \<Rightarrow> Some (None, ace, s)
         | Some r \<Rightarrow> Some (Some True, ace\<lparr>ace_resources := ace_resources ace @ [r]\<rparr>, s))
      })"

subsection \<open>Lists\<close>

definition subjects_of :: "acl_state \<Rightarrow> nat \<Rightarrow> oc_sec_ace_t list" where
  "subjects_of s device = acl_subjects (g_aclist s device)"

definition set_subjects :: "nat \<Rightarrow> oc_sec_ace_t list \<Rightarrow> acl_state \<Rightarrow> acl_state" where
  "set_subjects device aces s = s\<lparr>g_aclist := (g_aclist s)(device := (g_aclist s device)\<lparr>acl_subjects := aces\<rparr>)\<rparr>"

definition oc_sec_acl_find_subject ::
  "acl_state \<Rightarrow> oc_sec_ace_t list \<Rightarrow> oc_ace_subject_t \<Rightarrow> int \<Rightarrow> u16 \<Rightarrow> oc_string \<Rightarrow> bool \<Rightarrow> nat \<Rightarrow> oc_sec_ace_t list" where
  "oc_sec_acl_find_subject s start subject aid permission tag match_tag device =
     oc_sec_ace_find_subject (if start = [] then subjects_of s device else tl start)
       subject aid permission tag match_tag"

definition acl_unique_aceid :: "int \<Rightarrow> nat \<Rightarrow> acl_state \<Rightarrow> bool" where
  "acl_unique_aceid aid device s \<longleftrightarrow> \<not> list_ex (\<lambda>ace. aceid ace = aid) (subjects_of s device)"

text \<open>\<open>random\<close> is the sequence of the values of \<open>oc_random_value\<close>; the loop need not end.\<close>

partial_function (option) acl_get_new_aceid ::
  "(nat \<Rightarrow> u32) \<Rightarrow> nat \<Rightarrow> acl_state \<Rightarrow> (int \<times> acl_state) option" where
  "acl_get_new_aceid random device s =
     (let aid = uint (drop_bit 1 (random (random_used s)));
          s = s\<lparr>random_used := random_used s + 1\<rparr>
      in if acl_unique_aceid aid device s then Some (aid, s) else acl_get_new_aceid random device s)"

definition oc_sec_get_ace_by_aceid :: "int \<Rightarrow> nat \<Rightarrow> acl_state \<Rightarrow> oc_sec_ace_t list" where
  "oc_sec_get_ace_by_aceid aid device s = dropWhile (\<lambda>ace. aceid ace \<noteq> aid) (subjects_of s device)"

text \<open>The place of the entry that a pointer into the list points to.\<close>

definition place_of :: "acl_state \<Rightarrow> nat \<Rightarrow> oc_sec_ace_t list \<Rightarrow> nat" where
  "place_of s device p = length (subjects_of s device) - length p"

definition remove_place :: "nat \<Rightarrow> 'a list \<Rightarrow> 'a list" where
  "remove_place i xs = take i xs @ drop (i + 1) xs"

text \<open>The result is the unlinked entry.\<close>

definition oc_acl_remove_ace_from_device_by_aceid :: "int \<Rightarrow> nat \<Rightarrow> acl_state \<Rightarrow> oc_sec_ace_t option \<times> acl_state" where
  "oc_acl_remove_ace_from_device_by_aceid aid device s =
     (case oc_sec_get_ace_by_aceid aid device s of
        [] \<Rightarrow> (None, s)
      | ace # aces \<Rightarrow>
          (Some ace, set_subjects device (remove_place (place_of s device (ace # aces)) (subjects_of s device)) s))"

definition oc_sec_remove_ace :: "nat \<Rightarrow> nat \<Rightarrow> acl_state \<Rightarrow> acl_state" where
  "oc_sec_remove_ace i device s =
     oc_sec_free_ace (subjects_of s device ! i) (set_subjects device (remove_place i (subjects_of s device)) s)"

definition oc_sec_remove_ace_by_aceid :: "int \<Rightarrow> nat \<Rightarrow> acl_state \<Rightarrow> bool \<times> acl_state" where
  "oc_sec_remove_ace_by_aceid aid device s =
     (case oc_acl_remove_ace_from_device_by_aceid aid device s of
        (None, s) \<Rightarrow> (False, s)
      | (Some ace, s) \<Rightarrow> (True, oc_sec_free_ace ace s))"

fun clear_loop :: "(oc_sec_ace_t \<Rightarrow> bool) option \<Rightarrow> oc_sec_ace_t list \<Rightarrow> acl_state \<Rightarrow> oc_sec_ace_t list \<times> acl_state" where
  "clear_loop flt [] s = ([], s)"
| "clear_loop flt (ace # aces) s =
     (if (case flt of None \<Rightarrow> True | Some f \<Rightarrow> f ace) then clear_loop flt aces (oc_sec_free_ace ace s)
      else case clear_loop flt aces s of (rest, s) \<Rightarrow> (ace # rest, s))"

definition oc_sec_acl_clear :: "nat \<Rightarrow> (oc_sec_ace_t \<Rightarrow> bool) option \<Rightarrow> acl_state \<Rightarrow> acl_state" where
  "oc_sec_acl_clear device flt s =
     (case clear_loop flt (subjects_of s device) s of (rest, s) \<Rightarrow> set_subjects device rest s)"

definition oc_sec_acl_default :: "nat \<Rightarrow> acl_state \<Rightarrow> acl_state" where
  "oc_sec_acl_default device s =
     (let s = oc_sec_acl_clear device None s
      in s\<lparr>g_aclist := (g_aclist s)(device := (g_aclist s device)\<lparr>acl_rowneruuid := replicate 16 0\<rparr>)\<rparr>)"

record oc_sec_ace_update_data =
  upd_place :: nat
  upd_created :: bool
  upd_created_resource :: bool

text \<open>
  The result is the return value, the data for the caller and the state; \<^term>\<open>None\<close> stands for a failed
  assertion or a search for an unused identifier that does not end. The entry is unlinked and
  released when no resource could be added, also when it existed before.
\<close>

definition oc_sec_acl_update_res ::
  "(nat \<Rightarrow> u32) \<Rightarrow> oc_ace_subject_t \<Rightarrow> int \<Rightarrow> u16 \<Rightarrow> oc_string \<Rightarrow> oc_string \<Rightarrow> u16 \<Rightarrow> nat \<Rightarrow> acl_state \<Rightarrow>
   (oc_sec_ace_update_data option \<times> acl_state) option" where
  "oc_sec_acl_update_res random subject aid permission tag href wildcard device s =
     (let found = oc_sec_acl_find_subject s [] subject aid permission tag True device in do {
        (i, created, s) \<leftarrow>
          (if found \<noteq> [] then Some (Some (place_of s device found), False, s)
           else do {
             (aid, s) \<leftarrow> (if aid = -1 then acl_get_new_aceid random device s else Some (aid, s));
             (case oc_sec_new_ace subject aid permission tag s of
                (None, s) \<Rightarrow> Some (None, False, s)
              | (Some ace, s) \<Rightarrow>
                  Some (Some (length (subjects_of s device)), True,
                        set_subjects device (subjects_of s device @ [ace]) s))
           });
        (case i of
           None \<Rightarrow> Some (None, s)
         | Some i \<Rightarrow> do {
             (r, ace, s) \<leftarrow> oc_sec_ace_get_or_add_res (subjects_of s device ! i) href wildcard True s;
             (case r of
                None \<Rightarrow> Some (None, oc_sec_remove_ace i device s)
              | Some created_resource \<Rightarrow>
                  Some (Some \<lparr>upd_place = i, upd_created = created, upd_created_resource = created_resource\<rparr>,
                        set_subjects device ((subjects_of s device)[i := ace]) s))
           })
      })"

definition oc_sec_acl_anon_connection ::
  "(nat \<Rightarrow> u32) \<Rightarrow> nat \<Rightarrow> string \<Rightarrow> u16 \<Rightarrow> acl_state \<Rightarrow> (bool \<times> acl_state) option" where
  "oc_sec_acl_anon_connection random device href permission s = do {
     (upd, s) \<leftarrow> oc_sec_acl_update_res random (OC_SUBJECT_CONN OC_CONN_ANON_CLEAR) (-1) permission None
                   (Some href) OC_ACE_NO_WC device s;
     Some (upd \<noteq> None, s)
   }"

text \<open>\<open>ret = oc_sec_acl_anon_connection(...) && ret\<close> for one path after the other.\<close>

fun bootstrap_paths :: "(nat \<Rightarrow> u32) \<Rightarrow> nat \<Rightarrow> string list \<Rightarrow> bool \<Rightarrow> acl_state \<Rightarrow> (bool \<times> acl_state) option" where
  "bootstrap_paths random device [] ret s = Some (ret, s)"
| "bootstrap_paths random device (p # ps) ret s = do {
     (ok, s) \<leftarrow> oc_sec_acl_anon_connection random device p OC_PERM_RETRIEVE s;
     bootstrap_paths random device ps (ok \<and> ret) s
   }"

definition oc_sec_acl_add_bootstrap_acl ::
  "build_cfg \<Rightarrow> (nat \<Rightarrow> u32) \<Rightarrow> nat \<Rightarrow> acl_state \<Rightarrow> (bool \<times> acl_state) option" where
  "oc_sec_acl_add_bootstrap_acl cfg random device s =
     bootstrap_paths random device
       ([''/oic/res'', ''/oic/d'', ''/oic/p''] @ (if oc_wkcore cfg then [''/.well-known/core''] else []) @
        (if oc_plgd_time cfg then [''/x.plgd.dev/time''] else [])) True s"

definition oc_sec_acl_add_created_resource_ace ::
  "(nat \<Rightarrow> u32) \<Rightarrow> oc_string \<Rightarrow> oc_endpoint_t \<Rightarrow> nat \<Rightarrow> bool \<Rightarrow> acl_state \<Rightarrow> (bool \<times> acl_state) option" where
  "oc_sec_acl_add_created_resource_ace random href client device collection s =
     (let perm = OC_PERM_RETRIEVE OR OC_PERM_DELETE OR OC_PERM_UPDATE;
          perm = (if collection then perm OR OC_PERM_CREATE else perm)
      in do {
        (upd, s) \<leftarrow> oc_sec_acl_update_res random (OC_SUBJECT_UUID (ep_di client)) (-1) perm None href 0 device s;
        Some (upd \<noteq> None, s)
      })"

definition oc_sec_acl_is_owned_by :: "nat \<Rightarrow> oc_uuid \<Rightarrow> acl_state \<Rightarrow> bool" where
  "oc_sec_acl_is_owned_by device uuid s = oc_uuid_is_equal (acl_rowneruuid (g_aclist s device)) uuid"

subsection \<open>Decoding\<close>

record ace_subject_decode =
  dec_uuid :: oc_string
  dec_role :: oc_string
  dec_authority :: oc_string
  dec_conntype :: oc_string

definition ace_decode_subject_string_property ::
  "oc_string \<times> oc_rep_value \<Rightarrow> string \<Rightarrow> ace_subject_decode \<Rightarrow> ace_subject_decode option" where
  "ace_decode_subject_string_property rep v d =
     (if oc_rep_is_property rep ''uuid'' then Some (d\<lparr>dec_uuid := Some v\<rparr>)
      else if oc_rep_is_property rep ''role'' then Some (d\<lparr>dec_role := Some v\<rparr>)
      else if oc_rep_is_property rep ''authority'' then Some (d\<lparr>dec_authority := Some v\<rparr>)
      else if oc_rep_is_property rep ''conntype'' then Some (d\<lparr>dec_conntype := Some v\<rparr>)
      else None)"

fun decode_subject_loop :: "oc_rep \<Rightarrow> ace_subject_decode \<Rightarrow> ace_subject_decode option" where
  "decode_subject_loop [] d = Some d"
| "decode_subject_loop (rep # reps) d =
     (case snd rep of
        OC_REP_STRING v \<Rightarrow> do {
          d \<leftarrow> ace_decode_subject_string_property rep v d;
          decode_subject_loop reps d
        }
      | _ \<Rightarrow> None)"

text \<open>The result -1 is \<^term>\<open>None\<close>. The identifier is parsed into a local buffer, whose
  former content does not matter when the parser succeeds.\<close>

definition ace_decode_subject :: "oc_rep \<Rightarrow> oc_ace_subject_t option" where
  "ace_decode_subject rep = do {
     d \<leftarrow> decode_subject_loop rep \<lparr>dec_uuid = None, dec_role = None, dec_authority = None, dec_conntype = None\<rparr>;
     let has_role = dec_role d \<noteq> None \<or> dec_authority d \<noteq> None;
     let has_conntype = dec_conntype d \<noteq> None;
     (case dec_uuid d of
        Some u \<Rightarrow>
          if has_role \<or> has_conntype then None
          else
            (case oc_str_to_uuid_v1 (text_bytes u) (Some (replicate 16 0)) of
               (ret, parsed) \<Rightarrow> if ret < 0 then None else map_option OC_SUBJECT_UUID parsed)
      | None \<Rightarrow>
          if has_role then
            (if dec_role d = None \<or> has_conntype then None
             else Some (OC_SUBJECT_ROLE (dec_role d) (dec_authority d)))
          else if has_conntype then
            map_option OC_SUBJECT_CONN (oc_ace_connection_type_from_string (dec_conntype d))
          else None)
   }"

record oc_sec_ace_decode =
  dec_aceid :: int
  dec_permission :: u16
  dec_subject :: oc_ace_subject_t
  dec_resources :: "oc_rep list"
  dec_tag :: oc_string

definition ace_decode_int_property ::
  "oc_string \<times> oc_rep_value \<Rightarrow> int \<Rightarrow> oc_sec_ace_decode \<Rightarrow> oc_sec_ace_decode option" where
  "ace_decode_int_property rep v d =
     (if oc_rep_is_property rep ''permission'' then
        (if v > 65535 then None else Some (d\<lparr>dec_permission := of_int v\<rparr>))
      else if oc_rep_is_property rep ''aceid'' then
        (if v > 2147483647 then None else Some (d\<lparr>dec_aceid := signed_take_bit 31 v\<rparr>))
      else None)"

definition ace_decode_property :: "oc_string \<times> oc_rep_value \<Rightarrow> oc_sec_ace_decode \<Rightarrow> oc_sec_ace_decode option" where
  "ace_decode_property rep d =
     (case snd rep of
        OC_REP_INT v \<Rightarrow> ace_decode_int_property rep v d
      | OC_REP_STRING v \<Rightarrow>
          if oc_rep_is_property rep ''tag'' then Some (d\<lparr>dec_tag := Some v\<rparr>)
          else if oc_rep_is_property rep ''href'' then Some d
          else None
      | OC_REP_OBJECT obj \<Rightarrow>
          if oc_rep_is_property rep ''subject'' then
            map_option (\<lambda>subject. d\<lparr>dec_subject := subject\<rparr>) (ace_decode_subject obj)
          else None
      | OC_REP_OBJECT_ARRAY arr \<Rightarrow>
          if oc_rep_is_property rep ''resources'' then Some (d\<lparr>dec_resources := arr\<rparr>) else None
      | v \<Rightarrow>
          if oc_rep_is_property rep ''resources'' \<and> (v = OC_REP_NIL \<or> v = OC_REP_ARRAY) then Some d else None)"

fun oc_sec_decode_ace :: "oc_rep \<Rightarrow> oc_sec_ace_decode \<Rightarrow> oc_sec_ace_decode option" where
  "oc_sec_decode_ace [] d = Some d"
| "oc_sec_decode_ace (rep # reps) d = do { d \<leftarrow> ace_decode_property rep d; oc_sec_decode_ace reps d }"

definition ace_decode_resource_string_property ::
  "oc_string \<times> oc_rep_value \<Rightarrow> string \<Rightarrow> oc_ace_res_t \<Rightarrow> oc_ace_res_t option" where
  "ace_decode_resource_string_property rep v r =
     (if oc_rep_is_property rep ''href'' then Some (r\<lparr>res_href := Some v\<rparr>)
      else if oc_rep_is_property rep ''wc'' then
        map_option (\<lambda>wc. r\<lparr>res_wildcard := wc\<rparr>) (oc_ace_wildcard_from_string (Some v))
      else None)"

fun ace_decode_resource :: "oc_rep \<Rightarrow> oc_ace_res_t \<Rightarrow> oc_ace_res_t option" where
  "ace_decode_resource [] r = Some r"
| "ace_decode_resource (rep # reps) r =
     (case (case snd rep of OC_REP_STRING v \<Rightarrow> ace_decode_resource_string_property rep v r | _ \<Rightarrow> None) of
        Some r \<Rightarrow> ace_decode_resource reps r
      | None \<Rightarrow> if snd rep = OC_REP_STRING_ARRAY \<and> oc_rep_is_property rep ''if'' then ace_decode_resource reps r else None)"

text \<open>
  The entries of one decoded access control entry are added one by one; the result \<^term>\<open>False\<close> is a
  decoding error, after which the entries before it remain.
\<close>

fun oc_sec_decode_ace_resources ::
  "(nat \<Rightarrow> u32) \<Rightarrow> oc_rep list \<Rightarrow> oc_sec_ace_decode \<Rightarrow> nat \<Rightarrow> acl_state \<Rightarrow> (bool \<times> acl_state) option" where
  "oc_sec_decode_ace_resources random [] d device s = Some (True, s)"
| "oc_sec_decode_ace_resources random (rep # reps) d device s =
     (case ace_decode_resource rep \<lparr>res_href = None, res_wildcard = OC_ACE_NO_WC\<rparr> of
        None \<Rightarrow> Some (False, s)
      | Some r \<Rightarrow> do {
          (upd, s) \<leftarrow> oc_sec_acl_update_res random (dec_subject d) (dec_aceid d) (dec_permission d) (dec_tag d)
                        (res_href r) (res_wildcard r) device s;
          oc_sec_decode_ace_resources random reps d device s
        })"

definition decode_one_ace :: "(nat \<Rightarrow> u32) \<Rightarrow> oc_rep \<Rightarrow> nat \<Rightarrow> acl_state \<Rightarrow> (bool \<times> acl_state) option" where
  "decode_one_ace random rep device s =
     (case oc_sec_decode_ace rep \<lparr>dec_aceid = -1, dec_permission = 0, dec_subject = OC_SUBJECT_UUID (replicate 16 0),
              dec_resources = [], dec_tag = None\<rparr> of
        None \<Rightarrow> Some (False, s)
      | Some d \<Rightarrow>
          (case (if dec_aceid d \<noteq> -1 \<and> \<not> acl_unique_aceid (dec_aceid d) device s
                 then oc_acl_remove_ace_from_device_by_aceid (dec_aceid d) device s else (None, s)) of
             (replaced, s) \<Rightarrow> do {
               (ok, s) \<leftarrow> oc_sec_decode_ace_resources random (dec_resources d) d device s;
               if \<not> ok then Some (False, s)
               else Some (True, case replaced of None \<Rightarrow> s | Some ace \<Rightarrow> oc_sec_free_ace ace s)
             }))"

fun decode_aces :: "(nat \<Rightarrow> u32) \<Rightarrow> oc_rep list \<Rightarrow> nat \<Rightarrow> acl_state \<Rightarrow> (bool \<times> acl_state) option" where
  "decode_aces random [] device s = Some (True, s)"
| "decode_aces random (rep # reps) device s = do {
     (ok, s) \<leftarrow> decode_one_ace random rep device s;
     if ok then decode_aces random reps device s else Some (False, s)
   }"

fun decode_acl_check :: "oc_dostype_t \<Rightarrow> bool \<Rightarrow> oc_rep \<Rightarrow> bool" where
  "decode_acl_check dos from_storage [] = True"
| "decode_acl_check dos from_storage (rep # reps) =
     (case snd rep of
        OC_REP_STRING v \<Rightarrow>
          if oc_rep_is_property rep ''rowneruuid'' \<and> \<not> from_storage \<and> (dos = OC_DOS_RFNOP \<or> dos = OC_DOS_RFPRO)
          then False else decode_acl_check dos from_storage reps
      | OC_REP_OBJECT_ARRAY arr \<Rightarrow>
          if \<not> from_storage \<and> dos = OC_DOS_RFNOP then False else decode_acl_check dos from_storage reps
      | _ \<Rightarrow> decode_acl_check dos from_storage reps)"

definition set_acl_rowner :: "nat \<Rightarrow> string \<Rightarrow> acl_state \<Rightarrow> acl_state" where
  "set_acl_rowner device v s =
     (case oc_str_to_uuid (Some (text_bytes v)) (Some (acl_rowneruuid (g_aclist s device))) of
        None \<Rightarrow> s
      | Some u \<Rightarrow> s\<lparr>g_aclist := (g_aclist s)(device := (g_aclist s device)\<lparr>acl_rowneruuid := u\<rparr>)\<rparr>)"

fun decode_acl_apply :: "(nat \<Rightarrow> u32) \<Rightarrow> oc_rep \<Rightarrow> nat \<Rightarrow> acl_state \<Rightarrow> (bool \<times> acl_state) option" where
  "decode_acl_apply random [] device s = Some (True, s)"
| "decode_acl_apply random (rep # reps) device s =
     (case snd rep of
        OC_REP_STRING v \<Rightarrow>
          decode_acl_apply random reps device
            (if oc_rep_is_property rep ''rowneruuid'' then set_acl_rowner device v s else s)
      | OC_REP_OBJECT_ARRAY arr \<Rightarrow> do {
          (ok, s) \<leftarrow> decode_aces random arr device s;
          if ok then decode_acl_apply random reps device s else Some (False, s)
        }
      | _ \<Rightarrow> decode_acl_apply random reps device s)"

definition oc_sec_decode_acl ::
  "(nat \<Rightarrow> u32) \<Rightarrow> oc_dostype_t \<Rightarrow> oc_rep \<Rightarrow> bool \<Rightarrow> nat \<Rightarrow> acl_state \<Rightarrow> (bool \<times> acl_state) option" where
  "oc_sec_decode_acl random dos rep from_storage device s =
     (if \<not> decode_acl_check dos from_storage rep then Some (False, s)
      else decode_acl_apply random rep device s)"

text \<open>The handlers of the resource, with the status of their responses.\<close>

datatype oc_status_t = OC_STATUS_CHANGED | OC_STATUS_BAD_REQUEST | OC_STATUS_FORBIDDEN | OC_STATUS_DELETED | OC_STATUS_NOT_FOUND

definition acl_resource_post ::
  "(nat \<Rightarrow> u32) \<Rightarrow> oc_dostype_t \<Rightarrow> oc_rep \<Rightarrow> nat \<Rightarrow> acl_state \<Rightarrow> (oc_status_t \<times> acl_state) option" where
  "acl_resource_post random dos rep device s = do {
     (ok, s) \<leftarrow> oc_sec_decode_acl random dos rep False device s;
     Some (if ok then OC_STATUS_CHANGED else OC_STATUS_BAD_REQUEST, s)
   }"

text \<open>\<open>query_aceid\<close> is the number in the query, converted to \<open>int\<close>, if the query has the parameter.\<close>

definition acl_resource_delete :: "oc_dostype_t \<Rightarrow> int option \<Rightarrow> nat \<Rightarrow> acl_state \<Rightarrow> oc_status_t \<times> acl_state" where
  "acl_resource_delete dos query_aceid device s =
     (if dos = OC_DOS_RFNOP then (OC_STATUS_FORBIDDEN, s)
      else
        (case query_aceid of
           Some aid \<Rightarrow>
             (case (if aid \<noteq> 0 then oc_sec_remove_ace_by_aceid aid device s else (False, s)) of
                (removed, s) \<Rightarrow> (if removed then OC_STATUS_DELETED else OC_STATUS_NOT_FOUND, s))
         | None \<Rightarrow> (OC_STATUS_DELETED, oc_sec_acl_clear device None s)))"

subsection \<open>Searching\<close>

text \<open>Which resource entries and which access control entries a search stops at.\<close>

definition res_matches :: "oc_ace_res_t \<Rightarrow> oc_string \<Rightarrow> u16 \<Rightarrow> bool" where
  "res_matches res href wc \<longleftrightarrow>
     (let has_href = href \<noteq> None \<and> str_of (res_href res) \<noteq> []; has_wc = wc \<noteq> 0 \<and> res_wildcard res \<noteq> 0
      in (has_href \<or> has_wc) \<and> (has_href \<longrightarrow> oc_resource_match_uri (str_of (res_href res)) href) \<and>
         (has_wc \<longrightarrow> ace_res_match_wild_card wc (res_wildcard res)))"

lemma ace_res_find_resource_dropWhile:
  "ace_res_find_resource rs href wc = dropWhile (\<lambda>r. \<not> res_matches r href wc) rs"
proof (induction rs)
  case (Cons r rs)
  then show ?case
    by (simp only: ace_res_find_resource.simps dropWhile.simps res_matches_def Let_def oc_string_is_empty_iff) auto
qed simp

definition ace_selected :: "oc_sec_ace_t \<Rightarrow> oc_ace_subject_t \<Rightarrow> int \<Rightarrow> u16 \<Rightarrow> oc_string \<Rightarrow> bool \<Rightarrow> bool" where
  "ace_selected ace subject aid permission tag match_tag \<longleftrightarrow>
     (aid \<noteq> -1 \<longrightarrow> aceid ace = aid) \<and> (permission \<noteq> 0 \<longrightarrow> ace_permission ace = permission) \<and>
     (match_tag \<longrightarrow> oc_ace_has_matching_tag ace tag) \<and> oc_ace_has_matching_subject ace subject"

lemma oc_sec_ace_find_subject_dropWhile:
  "oc_sec_ace_find_subject aces subject aid p tag mt = dropWhile (\<lambda>ace. \<not> ace_selected ace subject aid p tag mt) aces"
proof (induction aces)
  case (Cons ace aces)
  then show ?case
    by (simp only: oc_sec_ace_find_subject.simps dropWhile.simps ace_selected_def) auto
qed simp

declare ace_res_find_resource.simps [simp del] oc_sec_ace_find_subject.simps [simp del]

end
