(* ===== verification/OcAclUpdate.thy ===== *)
theory OcAclUpdate
  imports OcAcl
begin

text \<open>
  What the operations on access control lists (\<open>src/security/oc_acl.c\<close>) do: one update is related to an
  inductive specification on sequences of entries; from it follow the invariant of the reachable
  lists, the effect of an update on the set of grants, the accounting of the blocks of the two
  pools, and two behaviours in which the code deviates from its purpose.
\<close>

subsection \<open>One grant at a time\<close>

text \<open>The result of adding a resource to an entry.\<close>

definition res_ok :: "oc_ace_res_t \<Rightarrow> bool" where
  "res_ok r \<longleftrightarrow> (res_href r \<noteq> None \<or> res_wildcard r \<noteq> 0) \<and>
     (res_href r \<noteq> None \<longrightarrow> str_of (res_href r) \<noteq> [] \<and> hd (str_of (res_href r)) = CHR ''/'')"

inductive adds_res :: "oc_string \<Rightarrow> u16 \<Rightarrow> oc_sec_ace_t \<Rightarrow> bool option \<Rightarrow> oc_sec_ace_t \<Rightarrow> bool" where
  present: "r \<in> set (ace_resources ace) \<Longrightarrow> res_matches r href wc \<Longrightarrow> adds_res href wc ace (Some False) ace"
| appended: "res_ok \<lparr>res_href = href, res_wildcard = wc\<rparr> \<Longrightarrow> (\<forall>r \<in> set (ace_resources ace). \<not> res_matches r href wc) \<Longrightarrow>
    adds_res href wc ace (Some True) (ace\<lparr>ace_resources := ace_resources ace @ [\<lparr>res_href = href, res_wildcard = wc\<rparr>]\<rparr>)"
| refused: "(\<forall>r \<in> set (ace_resources ace). \<not> res_matches r href wc) \<Longrightarrow> adds_res href wc ace None ace"

lemma dropWhile_neq_Nil: "dropWhile (\<lambda>x. \<not> P x) xs \<noteq> [] \<longleftrightarrow> (\<exists>x \<in> set xs. P x)"
  by (simp add: dropWhile_eq_Nil_conv)

lemma get_or_add_res_cases:
  assumes "oc_sec_ace_get_or_add_res ace href wc True s = Some (res, ace', s')"
  shows "adds_res href wc ace res ace' \<and> g_aclist s' = g_aclist s \<and> g_ace_l_free s' = g_ace_l_free s \<and> random_used s' = random_used s \<and>
    g_res_l_free s' + length (ace_resources ace') = g_res_l_free s + length (ace_resources ace)"
proof (cases "\<exists>r \<in> set (ace_resources ace). res_matches r href wc")
  case True
  with assms show ?thesis
    by (auto simp: oc_sec_ace_get_or_add_res_def oc_sec_ace_find_resource_def ace_res_find_resource_dropWhile
        dropWhile_neq_Nil intro: adds_res.present)
next
  case False
  then have "oc_sec_ace_get_or_add_res ace href wc True s =
    (case oc_sec_add_new_ace_res href wc s of None \<Rightarrow> None
     | Some (None, s) \<Rightarrow> Some (None, ace, s)
     | Some (Some r, s) \<Rightarrow> Some (Some True, ace\<lparr>ace_resources := ace_resources ace @ [r]\<rparr>, s))"
    by (simp add: oc_sec_ace_get_or_add_res_def oc_sec_ace_find_resource_def ace_res_find_resource_dropWhile
        dropWhile_neq_Nil split: option.split)
  with False assms show ?thesis
    by (auto simp: oc_sec_add_new_ace_res_def res_ok_def split: if_splits option.splits intro!: adds_res.refused adds_res.appended)
qed

text \<open>The new entry for a subject, and what one update does to the sequence of entries.\<close>

definition stored_subject :: "oc_ace_subject_t \<Rightarrow> oc_ace_subject_t" where
  "stored_subject subject =
     (case subject of
        OC_SUBJECT_ROLE role authority \<Rightarrow> OC_SUBJECT_ROLE role (if str_of authority \<noteq> [] then authority else None)
      | _ \<Rightarrow> subject)"

definition new_entry :: "oc_ace_subject_t \<Rightarrow> int \<Rightarrow> u16 \<Rightarrow> oc_string \<Rightarrow> oc_sec_ace_t" where
  "new_entry subject aid permission tag =
     \<lparr>ace_resources = [], ace_subject = stored_subject subject, aceid = aid, ace_permission = permission, ace_tag = tag\<rparr>"

lemma new_entry_selected: "aid = -1 \<or> aid' = aid \<Longrightarrow> ace_selected (new_entry subject aid' permission tag) subject aid permission tag True"
  by (auto simp: ace_selected_def new_entry_def stored_subject_def oc_ace_has_matching_subject_def oc_ace_has_matching_tag_def
      oc_string_is_cstr_equal_def oc_uuid_is_equal_def split: oc_ace_subject_t.splits)

inductive acl_update ::
  "oc_ace_subject_t \<Rightarrow> int \<Rightarrow> u16 \<Rightarrow> oc_string \<Rightarrow> oc_string \<Rightarrow> u16 \<Rightarrow> oc_sec_ace_t list \<Rightarrow> bool option \<Rightarrow> oc_sec_ace_t list \<Rightarrow> bool"
  for subject aid permission tag href wc where
  extended: "ace_selected ace subject aid permission tag True \<Longrightarrow> adds_res href wc ace (Some c) ace' \<Longrightarrow>
    acl_update subject aid permission tag href wc (as @ ace # bs) (Some c) (as @ ace' # bs)"
| dropped: "ace_selected ace subject aid permission tag True \<Longrightarrow> adds_res href wc ace None ace \<Longrightarrow>
    acl_update subject aid permission tag href wc (as @ ace # bs) None (as @ bs)"
| created: "\<forall>ace \<in> set aces. \<not> ace_selected ace subject aid permission tag True \<Longrightarrow>
    (if aid = -1 then aid' \<notin> aceid ` set aces \<and> 0 \<le> aid' \<and> aid' < 2 ^ 31 else aid' = aid) \<Longrightarrow>
    adds_res href wc (new_entry subject aid' permission tag) (Some c) ace' \<Longrightarrow>
    acl_update subject aid permission tag href wc aces (Some c) (aces @ [ace'])"
| unchanged: "\<forall>ace \<in> set aces. \<not> ace_selected ace subject aid permission tag True \<Longrightarrow>
    acl_update subject aid permission tag href wc aces None aces"

lemma acl_get_new_aceid_result:
  assumes "acl_get_new_aceid random device s = Some (aid, s')"
  shows "aid \<notin> aceid ` set (subjects_of s device) \<and> 0 \<le> aid \<and> aid < 2 ^ 31 \<and> g_aclist s' = g_aclist s \<and>
    g_ace_l_free s' = g_ace_l_free s \<and> g_res_l_free s' = g_res_l_free s"
proof -
  let ?P = "\<lambda>random device s (aid, s'). aid \<notin> aceid ` set (subjects_of s device) \<and> 0 \<le> aid \<and> aid < 2 ^ 31 \<and> g_aclist s' = g_aclist s \<and>
    g_ace_l_free s' = g_ace_l_free s \<and> g_res_l_free s' = g_res_l_free s"
  have "?P random device s (aid, s')"
  proof (rule acl_get_new_aceid.raw_induct [OF _ assms, of ?P])
    fix f and random :: "nat \<Rightarrow> u32" and device s and y :: "int \<times> acl_state"
    assume IH: "\<And>random device s y. f random device s = Some y \<Longrightarrow> ?P random device s y"
      and y: "(let aid = uint (drop_bit 1 (random (random_used s))); s = s\<lparr>random_used := random_used s + 1\<rparr>
        in if acl_unique_aceid aid device s then Some (aid, s) else f random device s) = Some y"
    let ?aid = "uint (drop_bit 1 (random (random_used s)))" and ?s = "s\<lparr>random_used := random_used s + 1\<rparr>"
    have half: "?aid < 2 ^ 31"
      using uint_lt2p [of "random (random_used s)"] by (simp add: drop_bit_eq_div uint_div)
    show "?P random device s y"
    proof (cases "acl_unique_aceid ?aid device ?s")
      case True
      with y have "y = (?aid, ?s)"
        by (simp add: Let_def)
      with True half show ?thesis
        by (auto simp: acl_unique_aceid_def subjects_of_def list_ex_iff)
    next
      case False
      with y have "f random device ?s = Some y"
        by (simp add: Let_def)
      from IH [OF this] show ?thesis
        by (simp add: subjects_of_def split: prod.splits)
    qed
  qed
  then show ?thesis
    by simp
qed

text \<open>The search for an identifier ends as soon as an unused value is drawn.\<close>

lemma acl_get_new_aceid_ends:
  assumes "uint (drop_bit 1 (random (random_used s + k))) \<notin> aceid ` set (subjects_of s device)"
  shows "\<exists>aid s'. acl_get_new_aceid random device s = Some (aid, s')"
  using assms
proof (induction k arbitrary: s)
  case 0
  then show ?case
    by (subst acl_get_new_aceid.simps) (auto simp: Let_def acl_unique_aceid_def subjects_of_def list_ex_iff image_iff)
next
  case (Suc k)
  then have "\<exists>aid s'. acl_get_new_aceid random device (s\<lparr>random_used := random_used s + 1\<rparr>) = Some (aid, s')"
    by (simp add: subjects_of_def)
  then show ?case
    by (subst acl_get_new_aceid.simps) (simp add: Let_def)
qed

text \<open>The function meets the relation, keeps the other devices and accounts for the blocks of both pools.\<close>

definition ace_blocks :: "nat \<Rightarrow> acl_state \<Rightarrow> nat" where
  "ace_blocks device s = g_ace_l_free s + length (subjects_of s device)"

definition res_blocks :: "nat \<Rightarrow> acl_state \<Rightarrow> nat" where
  "res_blocks device s = g_res_l_free s + sum_list (map (\<lambda>ace. length (ace_resources ace)) (subjects_of s device))"

definition same_elsewhere :: "nat \<Rightarrow> acl_state \<Rightarrow> acl_state \<Rightarrow> bool" where
  "same_elsewhere device s s' \<longleftrightarrow> (\<forall>d. d \<noteq> device \<longrightarrow> g_aclist s' d = g_aclist s d)"

lemma subjects_of_simps [simp]:
  "subjects_of (set_subjects device aces s) d = (if d = device then aces else subjects_of s d)"
  "subjects_of (s\<lparr>g_ace_l_free := n\<rparr>) d = subjects_of s d" "subjects_of (s\<lparr>g_res_l_free := n\<rparr>) d = subjects_of s d"
  "subjects_of (s\<lparr>random_used := n\<rparr>) d = subjects_of s d"
  "g_ace_l_free (set_subjects device aces s) = g_ace_l_free s" "g_res_l_free (set_subjects device aces s) = g_res_l_free s"
  by (simp_all add: subjects_of_def set_subjects_def)

definition keeps :: "nat \<Rightarrow> acl_state \<Rightarrow> acl_state \<Rightarrow> bool" where
  "keeps device s s' \<longleftrightarrow> same_elsewhere device s s' \<and>
     ace_blocks device s' = ace_blocks device s \<and> res_blocks device s' = res_blocks device s"

lemma get_or_add_at:
  assumes "oc_sec_ace_get_or_add_res ace href wc True s = Some (res, ace', s')" and "subjects_of s device = as @ ace # bs"
  shows "adds_res href wc ace res ace'"
    and "keeps device s (set_subjects device (as @ ace' # bs) s')"
    and "res = None \<Longrightarrow> keeps device s (oc_sec_remove_ace (length as) device s') \<and>
      subjects_of (oc_sec_remove_ace (length as) device s') device = as @ bs \<and> ace' = ace"
proof -
  note g = get_or_add_res_cases [OF assms(1)]
  then have sub: "subjects_of s' d = subjects_of s d" for d
    by (simp add: subjects_of_def)
  show "adds_res href wc ace res ace'"
    using g by blast
  show "keeps device s (set_subjects device (as @ ace' # bs) s')"
    using g assms(2) by (auto simp: keeps_def same_elsewhere_def ace_blocks_def res_blocks_def set_subjects_def subjects_of_def)
  assume "res = None"
  then have "ace' = ace"
    using g by (auto elim: adds_res.cases)
  then show "keeps device s (oc_sec_remove_ace (length as) device s') \<and>
      subjects_of (oc_sec_remove_ace (length as) device s') device = as @ bs \<and> ace' = ace"
    using g assms(2) sub [of device]
    by (auto simp: keeps_def same_elsewhere_def ace_blocks_def res_blocks_def set_subjects_def subjects_of_def
        oc_sec_remove_ace_def oc_sec_free_ace_def remove_place_def)
qed

lemma keeps_trans: "keeps device s t \<Longrightarrow> keeps device t u \<Longrightarrow> keeps device s u"
  by (simp add: keeps_def same_elsewhere_def)

lemma keeps_refl [simp]: "keeps device s s"
  by (simp add: keeps_def same_elsewhere_def)

lemma acl_get_new_aceid_keeps: "acl_get_new_aceid random device s = Some (aid, s') \<Longrightarrow> keeps device s s'"
  using acl_get_new_aceid_result [of random device s aid s']
  by (simp add: keeps_def same_elsewhere_def ace_blocks_def res_blocks_def subjects_of_def)

lemma new_ace_keeps:
  assumes "oc_sec_new_ace subject aid permission tag s = (Some ace, s')"
  shows "ace = new_entry subject aid permission tag" "subjects_of s' device = subjects_of s device"
    "keeps device s (set_subjects device (subjects_of s device @ [ace]) s')"
  using assms by (auto simp: oc_sec_new_ace_def new_entry_def stored_subject_def keeps_def same_elsewhere_def ace_blocks_def
      res_blocks_def set_subjects_def subjects_of_def split: if_splits oc_ace_subject_t.split)

text \<open>The second half of the update: a resource is added to the entry at a place of the list.\<close>

definition update_at ::
  "nat \<Rightarrow> bool \<Rightarrow> oc_string \<Rightarrow> u16 \<Rightarrow> nat \<Rightarrow> acl_state \<Rightarrow> (oc_sec_ace_update_data option \<times> acl_state) option" where
  "update_at i created href wildcard device s = do {
     (r, ace, s) \<leftarrow> oc_sec_ace_get_or_add_res (subjects_of s device ! i) href wildcard True s;
     (case r of
        None \<Rightarrow> Some (None, oc_sec_remove_ace i device s)
      | Some created_resource \<Rightarrow>
          Some (Some \<lparr>upd_place = i, upd_created = created, upd_created_resource = created_resource\<rparr>,
                set_subjects device ((subjects_of s device)[i := ace]) s))
   }"

lemma update_at_result:
  assumes "update_at (length as) created href wc device s = Some (upd, s')" and "subjects_of s device = as @ ace # bs"
  shows "keeps device s s' \<and>
    (case upd of
       None \<Rightarrow> adds_res href wc ace None ace \<and> subjects_of s' device = as @ bs
     | Some u \<Rightarrow> upd_created u = created \<and> upd_place u = length as \<and>
         (\<exists>ace'. adds_res href wc ace (Some (upd_created_resource u)) ace' \<and> subjects_of s' device = as @ ace' # bs))"
proof -
  obtain r ace' t where r: "oc_sec_ace_get_or_add_res ace href wc True s = Some (r, ace', t)"
    using assms by (auto simp: update_at_def bind_eq_Some_conv)
  have t: "subjects_of t device = subjects_of s device"
    using get_or_add_res_cases [OF r] by (simp add: subjects_of_def)
  note a = get_or_add_at [OF r assms(2)]
  show ?thesis
  proof (cases r)
    case None
    with assms r have "upd = None" "s' = oc_sec_remove_ace (length as) device t"
      by (simp_all add: update_at_def)
    with a None show ?thesis
      by auto
  next
    case (Some c)
    with assms r t have "upd = Some \<lparr>upd_place = length as, upd_created = created, upd_created_resource = c\<rparr>"
      "s' = set_subjects device (as @ ace' # bs) t"
      by (simp_all add: update_at_def)
    with a Some show ?thesis
      by auto
  qed
qed

lemma oc_sec_acl_update_res_eq:
  "oc_sec_acl_update_res random subject aid permission tag href wildcard device s =
     (case dropWhile (\<lambda>ace. \<not> ace_selected ace subject aid permission tag True) (subjects_of s device) of
        ace # aces \<Rightarrow> update_at (length (subjects_of s device) - length (ace # aces)) False href wildcard device s
      | [] \<Rightarrow> do {
          (aid, s) \<leftarrow> (if aid = -1 then acl_get_new_aceid random device s else Some (aid, s));
          (case oc_sec_new_ace subject aid permission tag s of
             (None, s) \<Rightarrow> Some (None, s)
           | (Some ace, s) \<Rightarrow>
               update_at (length (subjects_of s device)) True href wildcard device
                 (set_subjects device (subjects_of s device @ [ace]) s))
        })"
proof (cases "dropWhile (\<lambda>ace. \<not> ace_selected ace subject aid permission tag True) (subjects_of s device)")
  case Nil
  let ?first = "if aid = -1 then acl_get_new_aceid random device s else Some (aid, s)"
  note defs = oc_sec_acl_update_res_def oc_sec_acl_find_subject_def oc_sec_ace_find_subject_dropWhile Let_def Nil
    list.case simp_thms if_False Option.bind.simps option.case prod.case
  show ?thesis
  proof (cases ?first)
    case (Some p)
    obtain a t where p: "p = (a, t)"
      by (cases p)
    obtain e u where n: "oc_sec_new_ace subject a permission tag t = (e, u)"
      by (cases "oc_sec_new_ace subject a permission tag t")
    show ?thesis
      by (cases e) (simp_all add: defs Some p n update_at_def)
  qed (simp add: defs)
qed (simp add: oc_sec_acl_update_res_def oc_sec_acl_find_subject_def oc_sec_ace_find_subject_dropWhile place_of_def
      update_at_def)

lemma acl_update_refines:
  assumes "oc_sec_acl_update_res random subject aid permission tag href wc device s = Some (upd, s')"
  shows "acl_update subject aid permission tag href wc (subjects_of s device) (map_option upd_created_resource upd) (subjects_of s' device)
    \<and> keeps device s s'"
proof (cases "dropWhile (\<lambda>ace. \<not> ace_selected ace subject aid permission tag True) (subjects_of s device)")
  case (Cons ace bs)
  let ?as = "takeWhile (\<lambda>ace. \<not> ace_selected ace subject aid permission tag True) (subjects_of s device)"
  have l: "subjects_of s device = ?as @ ace # bs"
    using takeWhile_dropWhile_id [of "\<lambda>ace. \<not> ace_selected ace subject aid permission tag True" "subjects_of s device"] Cons by simp
  have sel: "ace_selected ace subject aid permission tag True"
    using Cons by (simp add: dropWhile_eq_Cons_conv)
  have "length (subjects_of s device) - length (ace # bs) = length ?as"
    by (subst l) simp
  then have "update_at (length ?as) False href wc device s = Some (upd, s')"
    using assms Cons by (simp add: oc_sec_acl_update_res_eq)
  from update_at_result [OF this l] show ?thesis
    using sel by (subst (1) l) (auto split: option.splits intro: acl_update.intros)
next
  case Nil
  then have none: "\<forall>ace \<in> set (subjects_of s device). \<not> ace_selected ace subject aid permission tag True"
    by (simp add: dropWhile_eq_Nil_conv)
  obtain aid' t where t: "(if aid = -1 then acl_get_new_aceid random device s else Some (aid, s)) = Some (aid', t)"
    and r: "(case oc_sec_new_ace subject aid' permission tag t of (None, s) \<Rightarrow> Some (None, s)
      | (Some ace, s) \<Rightarrow> update_at (length (subjects_of s device)) True href wc device
          (set_subjects device (subjects_of s device @ [ace]) s)) = Some (upd, s')"
    using assms Nil by (auto simp: oc_sec_acl_update_res_eq bind_eq_Some_conv)
  have aid': "if aid = -1 then aid' \<notin> aceid ` set (subjects_of s device) \<and> 0 \<le> aid' \<and> aid' < 2 ^ 31 else aid' = aid"
    and kt: "keeps device s t" and st: "subjects_of t device = subjects_of s device"
    using t acl_get_new_aceid_result [of random device s aid' t] acl_get_new_aceid_keeps [of random device s aid' t]
    by (auto simp: subjects_of_def split: if_splits)
  show ?thesis
  proof (cases "oc_sec_new_ace subject aid' permission tag t")
    case (Pair ace u)
    show ?thesis
    proof (cases ace)
      case None
      then have "u = t"
        using Pair by (auto simp: oc_sec_new_ace_def split: if_splits)
      with None Pair r kt st none show ?thesis
        by (auto intro: acl_update.unchanged)
    next
      case (Some e)
      note n = new_ace_keeps [OF Pair [unfolded Some]]
      let ?u = "set_subjects device (subjects_of s device @ [e]) u"
      have "update_at (length (subjects_of s device)) True href wc device ?u = Some (upd, s')"
        using r Pair Some n(2) st by simp
      from update_at_result [OF this, of e "[]"]
      have u: "keeps device ?u s'" "case upd of None \<Rightarrow> adds_res href wc e None e \<and> subjects_of s' device = subjects_of s device
        | Some d \<Rightarrow> (\<exists>ace'. adds_res href wc e (Some (upd_created_resource d)) ace' \<and> subjects_of s' device = subjects_of s device @ [ace'])"
        by (auto split: option.splits)
      have "keeps device s s'"
        using kt n(3) st u(1) keeps_trans by metis
      with u(2) none aid' n(1) show ?thesis
        by (auto split: option.splits intro: acl_update.created acl_update.unchanged)
    qed
  qed
qed

inductive_cases adds_resE [elim]: "adds_res href wc ace res ace'"

lemma adds_res_same:
  assumes "adds_res href wc ace res ace'"
  shows "aceid ace' = aceid ace" "ace_subject ace' = ace_subject ace" "ace_permission ace' = ace_permission ace" "ace_tag ace' = ace_tag ace"
  using assms by (auto elim: adds_resE)

lemma adds_res_selected:
  assumes "adds_res href wc ace res ace'"
  shows "ace_selected ace' subject aid permission tag mt \<longleftrightarrow> ace_selected ace subject aid permission tag mt"
  using adds_res_same [OF assms]
  by (simp add: ace_selected_def oc_ace_has_matching_tag_def oc_ace_has_matching_subject_def)

subsection \<open>Well-formed lists\<close>

text \<open>
  The identifiers are distinct, every entry has a resource, and every resource has a path that starts with a slash or
  a wildcard.
\<close>

definition ace_ok :: "oc_sec_ace_t \<Rightarrow> bool" where
  "ace_ok ace \<longleftrightarrow> ace_resources ace \<noteq> [] \<and> list_all res_ok (ace_resources ace)"

definition acl_wf :: "oc_sec_ace_t list \<Rightarrow> bool" where
  "acl_wf aces \<longleftrightarrow> distinct (map aceid aces) \<and> list_all ace_ok aces"

lemma adds_res_ok:
  assumes "adds_res href wc ace (Some c) ace'" and "list_all res_ok (ace_resources ace)"
  shows "ace_ok ace'"
  using assms by (cases rule: adds_resE) (auto simp: ace_ok_def list_all_iff)

text \<open>An identifier of the request is unused or belongs to the entry that the request selects.\<close>

definition aid_fits :: "oc_ace_subject_t \<Rightarrow> int \<Rightarrow> u16 \<Rightarrow> oc_string \<Rightarrow> oc_sec_ace_t list \<Rightarrow> bool" where
  "aid_fits subject aid permission tag aces \<longleftrightarrow>
     aid \<noteq> -1 \<longrightarrow> (\<forall>ace \<in> set aces. aceid ace = aid \<longrightarrow> ace_selected ace subject aid permission tag True)"

lemma acl_update_wf:
  assumes "acl_update subject aid permission tag href wc aces res aces'" and "acl_wf aces" and "aid_fits subject aid permission tag aces"
  shows "acl_wf aces' \<and> aid_fits subject aid permission tag aces'"
  using assms(1)
proof (cases rule: acl_update.cases)
  case (extended ace c ace' as bs)
  have "ace_ok ace'"
    using extended assms(2) by (intro adds_res_ok) (auto simp: acl_wf_def ace_ok_def)
  with extended assms(2,3) adds_res_same [OF extended(5)] adds_res_selected [OF extended(5)] show ?thesis
    by (auto simp: acl_wf_def aid_fits_def)
next
  case (dropped ace as bs)
  with assms(2,3) show ?thesis
    by (auto simp: acl_wf_def aid_fits_def)
next
  case (created aid' c ace')
  have "ace_ok ace'" "aceid ace' = aid'"
    using adds_res_ok [OF created(5)] adds_res_same [OF created(5)] by (simp_all add: new_entry_def)
  moreover have "ace_selected ace' subject aid' permission tag True"
    unfolding adds_res_selected [OF created(5)] by (simp add: new_entry_selected)
  moreover have "aid' \<notin> aceid ` set aces"
    using created(3,4) assms(3) by (auto simp: aid_fits_def split: if_splits)
  ultimately show ?thesis
    using created(2-4) assms(2,3) by (auto simp: acl_wf_def aid_fits_def split: if_splits)
next
  case unchanged
  with assms(2,3) show ?thesis
    by simp
qed

lemma aid_fits_new [simp]: "aid_fits subject (-1) permission tag aces"
  by (simp add: aid_fits_def)

lemma aid_fits_unused: "aid \<notin> aceid ` set aces \<Longrightarrow> aid_fits subject aid permission tag aces"
  by (auto simp: aid_fits_def)

lemma update_res_wf:
  assumes "oc_sec_acl_update_res random subject aid permission tag href wc device s = Some (upd, s')"
    and "acl_wf (subjects_of s device)" and "aid_fits subject aid permission tag (subjects_of s device)"
  shows "acl_wf (subjects_of s' device)" "aid_fits subject aid permission tag (subjects_of s' device)" "keeps device s s'"
  using acl_update_refines [OF assms(1)] acl_update_wf assms(2,3) by blast+

lemma decode_ace_resources_wf:
  assumes "oc_sec_decode_ace_resources random reps d device s = Some (ok, s')" and "acl_wf (subjects_of s device)"
    and "aid_fits (dec_subject d) (dec_aceid d) (dec_permission d) (dec_tag d) (subjects_of s device)"
  shows "acl_wf (subjects_of s' device) \<and> keeps device s s'"
  using assms
proof (induction random reps d device s rule: oc_sec_decode_ace_resources.induct)
  case (2 random rep reps d device s)
  show ?case
  proof (cases "ace_decode_resource rep \<lparr>res_href = None, res_wildcard = OC_ACE_NO_WC\<rparr>")
    case None
    with 2 show ?thesis
      by auto
  next
    case (Some r)
    then obtain upd t where u: "oc_sec_acl_update_res random (dec_subject d) (dec_aceid d) (dec_permission d) (dec_tag d)
        (res_href r) (res_wildcard r) device s = Some (upd, t)" "oc_sec_decode_ace_resources random reps d device t = Some (ok, s')"
      using 2(2) by (auto simp: bind_eq_Some_conv)
    note t = update_res_wf [OF u(1) 2(3,4)]
    from 2(1) [OF Some u(1) [THEN arg_cong] refl] u(2) t show ?thesis
      using keeps_trans by blast
  qed
qed auto

text \<open>Blocks may be lost, but never appear.\<close>

definition loses :: "nat \<Rightarrow> acl_state \<Rightarrow> acl_state \<Rightarrow> bool" where
  "loses device s s' \<longleftrightarrow> same_elsewhere device s s' \<and> ace_blocks device s' \<le> ace_blocks device s \<and> res_blocks device s' \<le> res_blocks device s"

lemma keeps_loses: "keeps device s t \<Longrightarrow> loses device s t"
  by (simp add: keeps_def loses_def)

lemma loses_trans: "loses device s t \<Longrightarrow> loses device t u \<Longrightarrow> loses device s u"
  by (simp add: loses_def same_elsewhere_def)

lemma by_aceid_unlinked:
  assumes "subjects_of s device = as @ ace # bs" and "aceid ace = aid" and "\<forall>a \<in> set as. aceid a \<noteq> aid"
  shows "oc_acl_remove_ace_from_device_by_aceid aid device s = (Some ace, set_subjects device (as @ bs) s)"
proof -
  have "dropWhile (\<lambda>ace. aceid ace \<noteq> aid) (subjects_of s device) = ace # bs"
    using assms by (simp add: dropWhile_append2)
  then show ?thesis
    using assms(1)
    by (simp add: oc_acl_remove_ace_from_device_by_aceid_def oc_sec_get_ace_by_aceid_def place_of_def remove_place_def)
qed

lemma by_aceid_absent:
  "\<forall>a \<in> set (subjects_of s device). aceid a \<noteq> aid \<Longrightarrow> oc_acl_remove_ace_from_device_by_aceid aid device s = (None, s)"
  by (simp add: oc_acl_remove_ace_from_device_by_aceid_def oc_sec_get_ace_by_aceid_def dropWhile_eq_Nil_conv [THEN iffD2])

lemma acl_wf_split:
  assumes "acl_wf (as @ ace # bs)"
  shows "acl_wf (as @ bs)" "aceid ace \<notin> aceid ` set (as @ bs)"
  using assms by (auto simp: acl_wf_def)

lemma unlink_blocks:
  assumes "subjects_of s device = as @ ace # bs"
  shows "ace_blocks device (set_subjects device (as @ bs) s) + 1 = ace_blocks device s"
    "res_blocks device (set_subjects device (as @ bs) s) + length (ace_resources ace) = res_blocks device s"
    "same_elsewhere device s (set_subjects device (as @ bs) s)"
  using assms by (simp_all add: ace_blocks_def res_blocks_def same_elsewhere_def set_subjects_def subjects_of_def)

lemma free_blocks:
  "ace_blocks device (oc_sec_free_ace ace s) = ace_blocks device s + 1"
  "res_blocks device (oc_sec_free_ace ace s) = res_blocks device s + length (ace_resources ace)"
  "subjects_of (oc_sec_free_ace ace s) d = subjects_of s d" "g_aclist (oc_sec_free_ace ace s) = g_aclist s"
  by (simp_all add: oc_sec_free_ace_def ace_blocks_def res_blocks_def subjects_of_def)

text \<open>
  One decoded entry. An entry with the identifier of the request is unlinked first; its blocks are
  lost when the resources of the request cannot be decoded.
\<close>

lemma decode_one_ace_result:
  assumes "decode_one_ace random rep device s = Some (ok, s')" and "acl_wf (subjects_of s device)"
  shows "acl_wf (subjects_of s' device) \<and> loses device s s' \<and> (ok \<longrightarrow> keeps device s s')"
proof (cases "oc_sec_decode_ace rep \<lparr>dec_aceid = -1, dec_permission = 0, dec_subject = OC_SUBJECT_UUID (replicate 16 0),
              dec_resources = [], dec_tag = None\<rparr>")
  case None
  with assms show ?thesis
    by (auto simp: decode_one_ace_def intro: keeps_loses)
next
  case (Some d)
  show ?thesis
  proof (cases "dec_aceid d \<noteq> -1 \<and> \<not> acl_unique_aceid (dec_aceid d) device s")
    case False
    then have fits: "aid_fits (dec_subject d) (dec_aceid d) (dec_permission d) (dec_tag d) (subjects_of s device)"
      by (auto simp: aid_fits_def acl_unique_aceid_def list_ex_iff)
    have "oc_sec_decode_ace_resources random (dec_resources d) d device s = Some (ok, s')"
      using assms(1) Some False by (auto simp: decode_one_ace_def bind_eq_Some_conv split: if_splits)
    from decode_ace_resources_wf [OF this assms(2) fits] show ?thesis
      by (simp add: keeps_loses)
  next
    case True
    then obtain as ace bs where l: "subjects_of s device = as @ ace # bs" "aceid ace = dec_aceid d" "\<forall>a \<in> set as. aceid a \<noteq> dec_aceid d"
      using split_list_first_prop [of "subjects_of s device" "\<lambda>ace. aceid ace = dec_aceid d"]
      by (auto simp: acl_unique_aceid_def list_ex_iff)
    let ?t = "set_subjects device (as @ bs) s"
    obtain u where u: "oc_sec_decode_ace_resources random (dec_resources d) d device ?t = Some (ok, u)"
      "s' = (if ok then oc_sec_free_ace ace u else u)"
      using assms(1) Some True by_aceid_unlinked [OF l] by (auto simp: decode_one_ace_def bind_eq_Some_conv split: if_splits)
    have wf: "acl_wf (as @ bs)" "dec_aceid d \<notin> aceid ` set (as @ bs)"
      using acl_wf_split [of as ace bs] assms(2) l by simp_all
    have "acl_wf (subjects_of u device) \<and> keeps device ?t u"
      using decode_ace_resources_wf [OF u(1)] wf by (simp add: aid_fits_unused)
    with u(2) unlink_blocks [OF l(1)] show ?thesis
      by (auto simp: keeps_def loses_def same_elsewhere_def free_blocks)
  qed
qed

lemma decode_aces_result:
  assumes "decode_aces random reps device s = Some (ok, s')" and "acl_wf (subjects_of s device)"
  shows "acl_wf (subjects_of s' device) \<and> loses device s s' \<and> (ok \<longrightarrow> keeps device s s')"
  using assms
proof (induction reps arbitrary: s)
  case (Cons rep reps)
  then obtain ok1 t where t: "decode_one_ace random rep device s = Some (ok1, t)"
    "(if ok1 then decode_aces random reps device t else Some (False, t)) = Some (ok, s')"
    by (auto simp: bind_eq_Some_conv)
  note one = decode_one_ace_result [OF t(1) Cons.prems(2)]
  show ?case
    using Cons.IH [of t] one t(2) by (cases ok1) (auto intro: loses_trans keeps_trans)
qed (auto intro: keeps_loses)

lemma set_acl_rowner_keeps: "keeps device s (set_acl_rowner device v s)" "subjects_of (set_acl_rowner device v s) d = subjects_of s d"
  by (auto simp: set_acl_rowner_def keeps_def same_elsewhere_def ace_blocks_def res_blocks_def subjects_of_def split: option.split)

lemma decode_acl_apply_result:
  assumes "decode_acl_apply random rep device s = Some (ok, s')" and "acl_wf (subjects_of s device)"
  shows "acl_wf (subjects_of s' device) \<and> loses device s s' \<and> (ok \<longrightarrow> keeps device s s')"
  using assms
proof (induction rep arbitrary: s)
  case (Cons e rep)
  have step: ?case if "decode_acl_apply random rep device t = Some (ok, s')" "keeps device s t" "acl_wf (subjects_of t device)" for t
    using Cons.IH [OF that(1,3)] that(2) keeps_loses loses_trans keeps_trans by blast
  have same: ?case if "decode_acl_apply random rep device s = Some (ok, s')"
    using step [OF that] Cons.prems(2) by simp
  show ?case
  proof (cases "snd e")
    case (OC_REP_STRING v)
    show ?thesis
    proof (cases "oc_rep_is_property e ''rowneruuid''")
      case True
      with OC_REP_STRING Cons.prems show ?thesis
        by (intro step [of "set_acl_rowner device v s"]) (simp_all add: set_acl_rowner_keeps)
    next
      case False
      with OC_REP_STRING Cons.prems show ?thesis
        by (intro same) simp
    qed
  next
    case (OC_REP_OBJECT_ARRAY arr)
    with Cons.prems obtain ok1 t where t: "decode_aces random arr device s = Some (ok1, t)"
      "(if ok1 then decode_acl_apply random rep device t else Some (False, t)) = Some (ok, s')"
      by (auto simp: bind_eq_Some_conv)
    from decode_aces_result [OF t(1) Cons.prems(2)] t(2) show ?thesis
      using step [of t] by (cases ok1) auto
  qed (use Cons.prems same in simp_all)
qed (auto intro: keeps_loses)

lemma decode_acl_result:
  assumes "oc_sec_decode_acl random dos rep from_storage device s = Some (ok, s')" and "acl_wf (subjects_of s device)"
  shows "acl_wf (subjects_of s' device) \<and> loses device s s' \<and> (ok \<longrightarrow> keeps device s s')"
  using assms decode_acl_apply_result by (auto simp: oc_sec_decode_acl_def keeps_loses split: if_splits)

subsection \<open>Reachable lists\<close>

inductive acl_step :: "build_cfg \<Rightarrow> (nat \<Rightarrow> u32) \<Rightarrow> acl_state \<Rightarrow> acl_state \<Rightarrow> bool" for cfg random where
  post: "acl_resource_post random dos rep device s = Some (status, s') \<Longrightarrow> acl_step cfg random s s'"
| delete: "acl_resource_delete dos query device s = (status, s') \<Longrightarrow> acl_step cfg random s s'"
| load: "oc_sec_decode_acl random dos rep True device s = Some (ok, s') \<Longrightarrow> acl_step cfg random s s'"
| bootstrap: "oc_sec_acl_add_bootstrap_acl cfg random device s = Some (ok, s') \<Longrightarrow> acl_step cfg random s s'"
| created: "oc_sec_acl_add_created_resource_ace random href client device collection s = Some (ok, s') \<Longrightarrow> acl_step cfg random s s'"
| reset: "acl_step cfg random s (oc_sec_acl_default device s)"

lemma acl_wf_elsewhere:
  assumes "same_elsewhere device s s'" "acl_wf (subjects_of s' device)" "\<forall>d. acl_wf (subjects_of s d)"
  shows "\<forall>d. acl_wf (subjects_of s' d)"
  using assms by (metis same_elsewhere_def subjects_of_def)

lemma clear_all: "clear_loop None aces s =
    ([], s\<lparr>g_ace_l_free := g_ace_l_free s + length aces,
           g_res_l_free := g_res_l_free s + sum_list (map (\<lambda>ace. length (ace_resources ace)) aces)\<rparr>)"
  by (induction aces arbitrary: s) (simp_all add: oc_sec_free_ace_def)

lemma oc_sec_acl_clear_all:
  "subjects_of (oc_sec_acl_clear device None s) device = []" "keeps device s (oc_sec_acl_clear device None s)"
  by (simp_all add: oc_sec_acl_clear_def clear_all keeps_def same_elsewhere_def ace_blocks_def res_blocks_def)
     (simp add: set_subjects_def)

lemma update_res_new_wf:
  assumes "oc_sec_acl_update_res random subject (-1) permission tag href wc device s = Some (upd, s')" and "acl_wf (subjects_of s device)"
  shows "acl_wf (subjects_of s' device) \<and> keeps device s s'"
  using update_res_wf [OF assms] by simp

lemma bootstrap_paths_wf:
  assumes "bootstrap_paths random device ps ret s = Some (ok, s')" and "acl_wf (subjects_of s device)"
  shows "acl_wf (subjects_of s' device) \<and> keeps device s s'"
  using assms
proof (induction ps arbitrary: ret s)
  case (Cons p ps)
  then obtain upd t where t: "oc_sec_acl_update_res random (OC_SUBJECT_CONN OC_CONN_ANON_CLEAR) (-1) OC_PERM_RETRIEVE None
      (Some p) OC_ACE_NO_WC device s = Some (upd, t)" "bootstrap_paths random device ps (upd \<noteq> None \<and> ret) t = Some (ok, s')"
    by (auto simp: oc_sec_acl_anon_connection_def bind_eq_Some_conv)
  from update_res_new_wf [OF t(1) Cons.prems(2)] Cons.IH [OF t(2)] show ?case
    using keeps_trans by blast
qed auto

lemma remove_by_aceid_wf:
  assumes "acl_wf (subjects_of s device)"
  shows "acl_wf (subjects_of (snd (oc_sec_remove_ace_by_aceid aid device s)) device) \<and>
    keeps device s (snd (oc_sec_remove_ace_by_aceid aid device s))"
proof (cases "\<exists>ace \<in> set (subjects_of s device). aceid ace = aid")
  case True
  from split_list_first_prop [OF this] obtain as ace bs
    where l: "subjects_of s device = as @ ace # bs" "aceid ace = aid" "\<forall>a \<in> set as. aceid a \<noteq> aid"
    by blast
  then show ?thesis
    using assms acl_wf_split [of as ace bs] unlink_blocks [OF l(1)]
    by (simp add: oc_sec_remove_ace_by_aceid_def by_aceid_unlinked [OF l] free_blocks keeps_def same_elsewhere_def)
next
  case False
  with assms show ?thesis
    by (simp add: oc_sec_remove_ace_by_aceid_def by_aceid_absent)
qed

lemma acl_default_result: "subjects_of (oc_sec_acl_default device s) device = []" "same_elsewhere device s (oc_sec_acl_default device s)"
  using oc_sec_acl_clear_all [of device s]
  by (simp_all add: oc_sec_acl_default_def Let_def subjects_of_def same_elsewhere_def keeps_def)

lemma acl_wf_Nil [simp]: "acl_wf []"
  by (simp add: acl_wf_def)

lemma acl_resource_delete_wf:
  assumes "acl_resource_delete dos query device s = (status, s')" and "acl_wf (subjects_of s device)"
  shows "acl_wf (subjects_of s' device) \<and> keeps device s s'"
  using assms remove_by_aceid_wf [OF assms(2)] oc_sec_acl_clear_all [of device s]
  by (auto simp: acl_resource_delete_def split: if_splits option.splits prod.splits) (metis snd_conv)+

lemma acl_step_wf:
  assumes "acl_step cfg random s s'" and "\<forall>d. acl_wf (subjects_of s d)"
  shows "\<forall>d. acl_wf (subjects_of s' d)"
  using assms(1)
proof (cases rule: acl_step.cases)
  case (post dos rep device status)
  then obtain ok where "oc_sec_decode_acl random dos rep False device s = Some (ok, s')"
    by (auto simp: acl_resource_post_def bind_eq_Some_conv)
  from decode_acl_result [OF this] assms(2) show ?thesis
    by (intro acl_wf_elsewhere [of device s s']) (simp_all add: loses_def)
next
  case (delete dos query device status)
  from acl_resource_delete_wf [OF this] assms(2) show ?thesis
    by (intro acl_wf_elsewhere [of device s s']) (simp_all add: keeps_def)
next
  case (load dos rep device ok)
  from decode_acl_result [OF this] assms(2) show ?thesis
    by (intro acl_wf_elsewhere [of device s s']) (simp_all add: loses_def)
next
  case (bootstrap device ok)
  from bootstrap_paths_wf [OF this [unfolded oc_sec_acl_add_bootstrap_acl_def]] assms(2) show ?thesis
    by (intro acl_wf_elsewhere [of device s s']) (simp_all add: keeps_def)
next
  case (created href client device collection ok)
  then obtain p upd where "oc_sec_acl_update_res random (OC_SUBJECT_UUID (ep_di client)) (-1) p None href 0 device s = Some (upd, s')"
    by (auto simp: oc_sec_acl_add_created_resource_ace_def Let_def bind_eq_Some_conv)
  from update_res_new_wf [OF this] assms(2) show ?thesis
    by (intro acl_wf_elsewhere [of device s s']) (simp_all add: keeps_def)
next
  case (reset device)
  with acl_default_result [of device s] assms(2) show ?thesis
    by (intro acl_wf_elsewhere [of device s s']) simp_all
qed

interpretation acl_reach: stepwise_invariant "acl_step cfg random" "\<lambda>s. \<forall>d. acl_wf (subjects_of s d)"
  by unfold_locales (rule acl_step_wf)

text \<open>
  C12. In every state that is reached from empty lists by requests that create or remove entries, by
  loading stored lists, by the entries for discovery and for created resources and by resets, the
  entries of each device have distinct identifiers, every entry has at least one resource, and
  every resource has a path that starts with a slash or a wildcard.
\<close>

theorem acl_reachable_wf:
  assumes "(acl_step cfg random)\<^sup>*\<^sup>* s s'" and "\<forall>d. subjects_of s d = []"
  shows "acl_wf (subjects_of s' device)"
proof -
  have "\<forall>d. acl_wf (subjects_of s' d)"
    using acl_reach.reachable_inv [OF assms(1)] assms(2) by simp
  then show ?thesis
    by blast
qed

definition empty_acls :: acl_state where
  "empty_acls = \<lparr>g_aclist = (\<lambda>_. \<lparr>acl_subjects = [], acl_rowneruuid = replicate 16 0\<rparr>), g_ace_l_free = 4, g_res_l_free = 4, random_used = 0\<rparr>"

definition light_request :: "oc_rep \<Rightarrow> oc_rep" where
  "light_request resource =
     [(Some ''aclist2'', OC_REP_OBJECT_ARRAY
        [[(Some ''aceid'', OC_REP_INT 7), (Some ''permission'', OC_REP_INT 2),
          (Some ''subject'', OC_REP_OBJECT [(Some ''conntype'', OC_REP_STRING ''auth-crypt'')]),
          (Some ''resources'', OC_REP_OBJECT_ARRAY [resource])]])]"

lemma light_posted:
  "acl_resource_post random OC_DOS_RFPRO (light_request [(Some ''href'', OC_REP_STRING ''/light'')]) 0 empty_acls =
     Some (OC_STATUS_CHANGED, set_subjects 0
       [\<lparr>ace_resources = [\<lparr>res_href = Some ''/light'', res_wildcard = 0\<rparr>], ace_subject = OC_SUBJECT_CONN OC_CONN_AUTH_CRYPT,
         aceid = 7, ace_permission = 2, ace_tag = None\<rparr>] (empty_acls\<lparr>g_ace_l_free := 3, g_res_l_free := 3\<rparr>))"
  by (simp add: acl_resource_post_def light_request_def oc_sec_decode_acl_def decode_one_ace_def ace_decode_property_def
      ace_decode_int_property_def ace_decode_subject_def ace_decode_subject_string_property_def oc_ace_connection_type_from_string_def
      acl_unique_aceid_def ace_decode_resource_string_property_def oc_sec_acl_update_res_def oc_sec_acl_find_subject_def
      oc_sec_ace_find_subject.simps oc_sec_new_ace_def oc_sec_ace_get_or_add_res_def oc_sec_ace_find_resource_def
      ace_res_find_resource.simps oc_sec_add_new_ace_res_def oc_rep_is_property_def empty_acls_def subjects_of_def set_subjects_def Let_def)

lemma acl_reachable_wf_witness:
  "\<exists>s'. (acl_step \<lparr>oc_plgd_time = True, oc_introspection = False, oc_wkcore = False, oc_mnt = False, oc_cloud = False,
       oc_software_update = False, oc_pki = True, oc_resource_access_in_rfotm = False\<rparr> (\<lambda>_. 8))\<^sup>*\<^sup>* empty_acls s' \<and>
     length (subjects_of s' 0) = 1 \<and> acl_wf (subjects_of s' 0)"
proof -
  let ?s' = "snd (the (acl_resource_post (\<lambda>_. 8) OC_DOS_RFPRO (light_request [(Some ''href'', OC_REP_STRING ''/light'')]) 0 empty_acls))"
  let ?cfg = "\<lparr>oc_plgd_time = True, oc_introspection = False, oc_wkcore = False, oc_mnt = False, oc_cloud = False,
       oc_software_update = False, oc_pki = True, oc_resource_access_in_rfotm = False\<rparr>"
  have r: "(acl_step ?cfg (\<lambda>_. 8))\<^sup>*\<^sup>* empty_acls ?s'"
    unfolding light_posted option.sel snd_conv by (rule r_into_rtranclp) (rule acl_step.post, rule light_posted)
  have "acl_wf (subjects_of ?s' 0)"
    by (rule acl_reachable_wf [OF r]) (simp add: empty_acls_def subjects_of_def)
  moreover have "length (subjects_of ?s' 0) = 1"
    by (simp add: light_posted)
  ultimately show ?thesis
    using r by blast
qed

subsection \<open>Unused identifiers\<close>

text \<open>
  C16. The search for an identifier returns when an unused value occurs among the random values that are
  still to come, and then returns an identifier that no entry of the device has and that is a
  non-negative \<open>int\<close>; if all of them are in use it does not return.
\<close>

theorem acl_get_new_aceid_terminates:
  "(case acl_get_new_aceid random device s of
      Some (aid, s') \<Rightarrow> acl_unique_aceid aid device s \<and> 0 \<le> aid \<and> aid < 2 ^ 31 \<and> subjects_of s' = subjects_of s
    | None \<Rightarrow> \<forall>k. \<not> acl_unique_aceid (uint (drop_bit 1 (random (random_used s + k)))) device s)"
proof (cases "acl_get_new_aceid random device s")
  case None
  have "\<not> acl_unique_aceid (uint (drop_bit 1 (random (random_used s + k)))) device s" for k
  proof
    assume "acl_unique_aceid (uint (drop_bit 1 (random (random_used s + k)))) device s"
    then have "uint (drop_bit 1 (random (random_used s + k))) \<notin> aceid ` set (subjects_of s device)"
      by (auto simp: acl_unique_aceid_def list_ex_iff)
    from acl_get_new_aceid_ends [of random s k device, OF this] None show False
      by simp
  qed
  with None show ?thesis
    by simp
next
  case (Some p)
  then show ?thesis
    using acl_get_new_aceid_result [of random device s "fst p" "snd p"]
    by (auto simp: acl_unique_aceid_def list_ex_iff subjects_of_def image_iff split: prod.split)
qed

subsection \<open>Grants\<close>

text \<open>An access control list is the set of its grants: who may do what with which resources.\<close>

definition grants_of :: "oc_sec_ace_t list \<Rightarrow> (oc_ace_subject_t \<times> u16 \<times> oc_string \<times> oc_ace_res_t) set" where
  "grants_of aces = {(ace_subject ace, ace_permission ace, ace_tag ace, r) | ace r. ace \<in> set aces \<and> r \<in> set (ace_resources ace)}"

lemma grants_of_simps [simp]:
  "grants_of [] = {}"
  "grants_of (ace # aces) = (\<lambda>r. (ace_subject ace, ace_permission ace, ace_tag ace, r)) ` set (ace_resources ace) \<union> grants_of aces"
  "grants_of (xs @ ys) = grants_of xs \<union> grants_of ys"
  by (auto simp: grants_of_def)

definition subject_wf :: "oc_ace_subject_t \<Rightarrow> bool" where
  "subject_wf subject \<longleftrightarrow> (case subject of OC_SUBJECT_UUID u \<Rightarrow> length u = 16 | _ \<Rightarrow> True)"

lemma selected_exactly:
  assumes "ace_selected ace subject aid permission tag True" and "permission \<noteq> 0" and "\<nexists>role authority. subject = OC_SUBJECT_ROLE role authority"
    and "subject_wf subject" and "subject_wf (ace_subject ace)"
  shows "ace_subject ace = subject" "ace_permission ace = permission" "ace_tag ace = tag"
  using assms by (auto simp: ace_selected_def oc_ace_has_matching_subject_def oc_ace_has_matching_tag_def oc_string_is_cstr_equal_def
      oc_uuid_is_equal_def OC_UUID_ID_SIZE_def subject_wf_def str_of_def split: oc_ace_subject_t.splits if_splits option.splits)

lemma adds_res_grants:
  assumes "adds_res href wc ace (Some c) ace'"
  shows "grants_of [ace'] = (if c then insert (ace_subject ace, ace_permission ace, ace_tag ace, \<lparr>res_href = href, res_wildcard = wc\<rparr>) (grants_of [ace])
     else grants_of [ace])"
    and "\<not> c \<Longrightarrow> \<exists>r. (ace_subject ace, ace_permission ace, ace_tag ace, r) \<in> grants_of [ace] \<and> res_matches r href wc"
  using assms by (auto elim!: adds_resE simp: image_iff split: if_splits)

definition update_grants ::
  "(oc_ace_res_t \<Rightarrow> 'g) \<Rightarrow> oc_string \<Rightarrow> u16 \<Rightarrow> bool option \<Rightarrow> 'g set \<Rightarrow> 'g set \<Rightarrow> bool" where
  "update_grants g href wc res grants grants' \<longleftrightarrow>
     (case res of
        Some True \<Rightarrow> grants' = insert (g \<lparr>res_href = href, res_wildcard = wc\<rparr>) grants
      | Some False \<Rightarrow> grants' = grants \<and> (\<exists>r. g r \<in> grants \<and> res_matches r href wc)
      | None \<Rightarrow> grants' \<subseteq> grants)"

lemma acl_update_grants:
  assumes "acl_update subject aid permission tag href wc aces res aces'" and "permission \<noteq> 0"
    and "\<nexists>role authority. subject = OC_SUBJECT_ROLE role authority" and "subject_wf subject" and "\<forall>ace \<in> set aces. subject_wf (ace_subject ace)"
  shows "update_grants (\<lambda>r. (subject, permission, tag, r)) href wc res (grants_of aces) (grants_of aces')"
  using assms(1)
proof (cases rule: acl_update.cases)
  case (extended ace c ace' as bs)
  have "ace_subject ace = subject" "ace_permission ace = permission" "ace_tag ace = tag"
    using selected_exactly [OF extended(4) assms(2-4)] assms(5) extended(1) by auto
  with extended(1-3) adds_res_grants [OF extended(5)] show ?thesis
    by (cases c) (auto simp: update_grants_def)
next
  case (created aid' c ace')
  have "stored_subject subject = subject"
    using assms(3) by (auto simp: stored_subject_def split: oc_ace_subject_t.split)
  with created adds_res_grants [OF created(5)] show ?thesis
    by (cases c) (auto simp: update_grants_def new_entry_def)
qed (auto simp: update_grants_def)

text \<open>
  C13. A request that adds a resource to the grants of a device or of a kind of connection, when it
  succeeds, adds exactly this grant, or finds a matching one and changes nothing. The lists of the
  other devices stay as they are, and all blocks of the pools are accounted for. When it fails it
  adds no grant.
\<close>

theorem acl_update_exact:
  assumes "oc_sec_acl_update_res random subject aid permission tag href wc device s = Some (upd, s')" and "permission \<noteq> 0"
    and "\<nexists>role authority. subject = OC_SUBJECT_ROLE role authority" and "subject_wf subject"
    and "\<forall>ace \<in> set (subjects_of s device). subject_wf (ace_subject ace)"
  shows "(case upd of
      Some u \<Rightarrow>
        if upd_created_resource u
        then grants_of (subjects_of s' device) =
          insert (subject, permission, tag, \<lparr>res_href = href, res_wildcard = wc\<rparr>) (grants_of (subjects_of s device))
        else grants_of (subjects_of s' device) = grants_of (subjects_of s device) \<and>
          (\<exists>r. (subject, permission, tag, r) \<in> grants_of (subjects_of s device) \<and> res_matches r href wc)
    | None \<Rightarrow> grants_of (subjects_of s' device) \<subseteq> grants_of (subjects_of s device)) \<and>
    (\<forall>d. d \<noteq> device \<longrightarrow> subjects_of s' d = subjects_of s d) \<and>
    ace_blocks device s' = ace_blocks device s \<and> res_blocks device s' = res_blocks device s"
proof -
  note u = acl_update_refines [OF assms(1)]
  have "update_grants (\<lambda>r. (subject, permission, tag, r)) href wc (map_option upd_created_resource upd)
      (grants_of (subjects_of s device)) (grants_of (subjects_of s' device))"
    using acl_update_grants [OF conjunct1 [OF u] assms(2-5)] .
  with conjunct2 [OF u] show ?thesis
    by (auto simp: update_grants_def keeps_def same_elsewhere_def subjects_of_def split: option.splits bool.splits if_splits)
qed

lemma light_granted:
  "oc_sec_acl_update_res (\<lambda>_. 8) (OC_SUBJECT_UUID (replicate 16 7)) (-1) 2 None (Some ''/light'') 0 0 empty_acls =
     Some (Some \<lparr>upd_place = 0, upd_created = True, upd_created_resource = True\<rparr>,
       set_subjects 0 [\<lparr>ace_resources = [\<lparr>res_href = Some ''/light'', res_wildcard = 0\<rparr>],
         ace_subject = OC_SUBJECT_UUID (replicate 16 7), aceid = 4, ace_permission = 2, ace_tag = None\<rparr>]
         (empty_acls\<lparr>g_ace_l_free := 3, g_res_l_free := 3, random_used := 1\<rparr>))"
proof -
  have "acl_get_new_aceid (\<lambda>_. 8) 0 empty_acls = Some (4, empty_acls\<lparr>random_used := 1\<rparr>)"
    by (subst acl_get_new_aceid.simps) (simp add: Let_def acl_unique_aceid_def subjects_of_def empty_acls_def)
  then show ?thesis
    unfolding oc_sec_acl_update_res_eq
    by (simp add: update_at_def oc_sec_new_ace_def oc_sec_ace_get_or_add_res_def oc_sec_ace_find_resource_def
        ace_res_find_resource.simps oc_sec_add_new_ace_res_def subjects_of_def set_subjects_def empty_acls_def)
qed

lemma acl_update_exact_witness:
  "\<exists>upd s'. oc_sec_acl_update_res (\<lambda>_. 8) (OC_SUBJECT_UUID (replicate 16 7)) (-1) 2 None (Some ''/light'') 0 0 empty_acls = Some (Some upd, s') \<and>
     grants_of (subjects_of s' 0) = {(OC_SUBJECT_UUID (replicate 16 7), 2, None, \<lparr>res_href = Some ''/light'', res_wildcard = 0\<rparr>)}"
  using light_granted acl_update_exact [OF light_granted] by (simp add: subject_wf_def subjects_of_def empty_acls_def)

subsection \<open>Sequences of updates\<close>

text \<open>One requested grant: subject, identifier, permission, tag, path and wildcard.\<close>

type_synonym grant_request = "oc_ace_subject_t \<times> int \<times> u16 \<times> oc_string \<times> oc_string \<times> u16"

definition request_fits :: "grant_request \<Rightarrow> bool" where
  "request_fits r = (case r of (subject, aid, permission, tag, href, wc) \<Rightarrow>
     permission \<noteq> 0 \<and> (case subject of OC_SUBJECT_ROLE _ _ \<Rightarrow> False | _ \<Rightarrow> subject_wf subject))"

definition requested_grant :: "grant_request \<Rightarrow> oc_ace_subject_t \<times> u16 \<times> oc_string \<times> oc_ace_res_t" where
  "requested_grant r = (case r of (subject, aid, permission, tag, href, wc) \<Rightarrow>
     (subject, permission, tag, \<lparr>res_href = href, res_wildcard = wc\<rparr>))"

text \<open>The update that adds a new grant; otherwise there is no result.\<close>

definition add_grant :: "(nat \<Rightarrow> u32) \<Rightarrow> nat \<Rightarrow> grant_request \<Rightarrow> acl_state \<Rightarrow> acl_state option" where
  "add_grant random device r s =
     (case r of (subject, aid, permission, tag, href, wc) \<Rightarrow>
       (case oc_sec_acl_update_res random subject aid permission tag href wc device s of
          Some (Some u, s') \<Rightarrow> if upd_created_resource u then Some s' else None
        | _ \<Rightarrow> None))"

lemma request_fits_subject:
  assumes "request_fits (subject, aid, permission, tag, href, wc)"
  shows "permission \<noteq> 0" "\<nexists>role authority. subject = OC_SUBJECT_ROLE role authority" "subject_wf subject"
  using assms by (auto simp: request_fits_def split: oc_ace_subject_t.splits)

lemma add_grant_update:
  assumes "add_grant random device (subject, aid, permission, tag, href, wc) s = Some s'"
  shows "acl_update subject aid permission tag href wc (subjects_of s device) (Some True) (subjects_of s' device)"
proof -
  obtain u where "oc_sec_acl_update_res random subject aid permission tag href wc device s = Some (Some u, s')" "upd_created_resource u"
    using assms by (auto simp: add_grant_def split: option.splits if_splits)
  with acl_update_refines [OF this(1)] show ?thesis
    by simp
qed

lemma acl_update_subject_wf:
  assumes "acl_update subject aid permission tag href wc aces res aces'" and "subject_wf subject"
    and "\<forall>ace \<in> set aces. subject_wf (ace_subject ace)"
  shows "\<forall>ace \<in> set aces'. subject_wf (ace_subject ace)"
  using assms(1)
proof (cases rule: acl_update.cases)
  case (extended ace c ace' as bs)
  with assms(3) adds_res_same(2) [OF extended(5)] show ?thesis
    by auto
next
  case (created aid' c ace')
  with assms(2,3) adds_res_same(2) [OF created(5)] show ?thesis
    by (auto simp: new_entry_def stored_subject_def subject_wf_def split: oc_ace_subject_t.splits)
qed (use assms in auto)

interpretation acl_store: grant_store "\<lambda>s. \<forall>ace \<in> set (subjects_of s device). subject_wf (ace_subject ace)"
  "\<lambda>s. grants_of (subjects_of s device)" request_fits requested_grant "add_grant random device" "oc_sec_acl_clear device None"
proof unfold_locales
  fix s r s'
  assume wf: "\<forall>ace \<in> set (subjects_of s device). subject_wf (ace_subject ace)" and fits: "request_fits r" and "add_grant random device r s = Some s'"
  moreover obtain subject aid permission tag href wc where r: "r = (subject, aid, permission, tag, href, wc)"
    by (cases r)
  ultimately have u: "acl_update subject aid permission tag href wc (subjects_of s device) (Some True) (subjects_of s' device)"
    using add_grant_update by blast
  note f = request_fits_subject [OF fits [unfolded r]]
  show "grants_of (subjects_of s' device) = insert (requested_grant r) (grants_of (subjects_of s device))"
    using acl_update_grants [OF u f wf] by (simp add: update_grants_def requested_grant_def r)
  show "\<forall>ace \<in> set (subjects_of s' device). subject_wf (ace_subject ace)"
    using acl_update_subject_wf [OF u f(3) wf] .
qed (simp_all add: oc_sec_acl_clear_all)

text \<open>
  After all entries of a device have been removed and a sequence of updates for devices and kinds of connections has added its
  grants, the list of the device holds exactly the requested grants, however the entries are
  shared and in whatever order the requests came.
\<close>

theorem acl_rebuilt_exactly:
  assumes "\<forall>r \<in> set rs. request_fits r"
    and "fold (\<lambda>r t. Option.bind t (add_grant random device r)) rs (Some (oc_sec_acl_clear device None s)) = Some s'"
  shows "grants_of (subjects_of s' device) = requested_grant ` set rs"
  using assms by (rule acl_store.rebuilt)

lemma acl_rebuilt_exactly_witness:
  "\<exists>s'. fold (\<lambda>r t. Option.bind t (add_grant (\<lambda>_. 8) 0 r)) [(OC_SUBJECT_UUID (replicate 16 7), -1, 2, None, Some ''/light'', 0)]
      (Some (oc_sec_acl_clear 0 None empty_acls)) = Some s' \<and>
    grants_of (subjects_of s' 0) = {(OC_SUBJECT_UUID (replicate 16 7), 2, None, \<lparr>res_href = Some ''/light'', res_wildcard = 0\<rparr>)}"
proof -
  let ?rs = "[(OC_SUBJECT_UUID (replicate 16 7), -1, 2, None, Some ''/light'', 0)] :: grant_request list"
  have "oc_sec_acl_clear 0 None empty_acls = empty_acls"
    by (auto simp: oc_sec_acl_clear_def empty_acls_def subjects_of_def set_subjects_def)
  then obtain s' where s': "fold (\<lambda>r t. Option.bind t (add_grant (\<lambda>_. 8) 0 r)) ?rs (Some (oc_sec_acl_clear 0 None empty_acls)) = Some s'"
    by (simp add: add_grant_def light_granted)
  have "grants_of (subjects_of s' 0) = requested_grant ` set ?rs"
    by (rule acl_rebuilt_exactly [OF _ s']) (simp add: request_fits_def subject_wf_def)
  with s' show ?thesis
    by (simp add: requested_grant_def)
qed

subsection \<open>Updates that go wrong\<close>

lemma first_selected_update:
  assumes "subjects_of s device = as @ ace # bs" and "ace_selected ace subject aid permission tag True"
    and "\<forall>a \<in> set as. \<not> ace_selected a subject aid permission tag True"
  shows "oc_sec_acl_update_res random subject aid permission tag href wc device s = update_at (length as) False href wc device s"
  using assms by (simp add: oc_sec_acl_update_res_eq dropWhile_append2)

text \<open>
  C39. A request without identifier that grants a role of a given authority a permission is merged into an
  entry for the same role of any authority, when this entry has the same permission and tag and
  comes first: the resource becomes accessible to the role of every authority.
\<close>

theorem role_grant_loses_authority:
  assumes "subjects_of s device = ace # aces" and "ace_subject ace = OC_SUBJECT_ROLE role None" and "ace_permission ace = permission"
    and "ace_tag ace = tag" and "g_res_l_free s > 0" and "res_ok \<lparr>res_href = href, res_wildcard = wc\<rparr>"
    and "\<forall>r \<in> set (ace_resources ace). \<not> res_matches r href wc"
  shows "\<exists>s'. oc_sec_acl_update_res random (OC_SUBJECT_ROLE role authority) (-1) permission tag href wc device s =
      Some (Some \<lparr>upd_place = 0, upd_created = False, upd_created_resource = True\<rparr>, s') \<and>
    (OC_SUBJECT_ROLE role None, permission, tag, \<lparr>res_href = href, res_wildcard = wc\<rparr>) \<in> grants_of (subjects_of s' device) \<and>
    (\<forall>other. oc_ace_has_matching_subject (hd (subjects_of s' device)) (OC_SUBJECT_ROLE role other))"
proof -
  have sel: "ace_selected ace (OC_SUBJECT_ROLE role authority) (-1) permission tag True"
    using assms(2-4) by (simp add: ace_selected_def oc_ace_has_matching_subject_def oc_ace_has_matching_tag_def oc_string_is_cstr_equal_def)
  have add: "oc_sec_ace_get_or_add_res ace href wc True s =
      Some (Some True, ace\<lparr>ace_resources := ace_resources ace @ [\<lparr>res_href = href, res_wildcard = wc\<rparr>]\<rparr>, s\<lparr>g_res_l_free := g_res_l_free s - 1\<rparr>)"
    using assms(5-7) by (auto simp: oc_sec_ace_get_or_add_res_def oc_sec_ace_find_resource_def ace_res_find_resource_dropWhile
        dropWhile_eq_Nil_conv oc_sec_add_new_ace_res_def res_ok_def)
  have "oc_sec_acl_update_res random (OC_SUBJECT_ROLE role authority) (-1) permission tag href wc device s = update_at 0 False href wc device s"
    using first_selected_update [of s device "[]" ace aces] assms(1) sel by simp
  then show ?thesis
    using assms(1-4) by (auto simp: update_at_def add oc_ace_has_matching_subject_def)
qed

definition role_ace :: oc_sec_ace_t where
  "role_ace = \<lparr>ace_resources = [\<lparr>res_href = Some ''/light'', res_wildcard = 0\<rparr>],
     ace_subject = OC_SUBJECT_ROLE (Some ''user'') None, aceid = 1, ace_permission = 2, ace_tag = None\<rparr>"

lemma role_grant_loses_authority_witness:
  "\<exists>s'. oc_sec_acl_update_res (\<lambda>_. 8) (OC_SUBJECT_ROLE (Some ''user'') (Some ''acme'')) (-1) 2 None (Some ''/door'') 0 0
       (set_subjects 0 [role_ace] empty_acls) = Some (Some \<lparr>upd_place = 0, upd_created = False, upd_created_resource = True\<rparr>, s') \<and>
     (OC_SUBJECT_ROLE (Some ''user'') None, 2, None, \<lparr>res_href = Some ''/door'', res_wildcard = 0\<rparr>) \<in> grants_of (subjects_of s' 0)"
proof -
  have "\<forall>r \<in> set (ace_resources role_ace). \<not> res_matches r (Some ''/door'') 0"
    by (simp add: role_ace_def res_matches_def oc_resource_match_uri_def)
  then show ?thesis
    using role_grant_loses_authority [of "set_subjects 0 [role_ace] empty_acls" 0 role_ace "[]" "Some ''user''" 2 None "Some ''/door''" 0
        "\<lambda>_. 8" "Some ''acme''"]
    by (auto simp: role_ace_def empty_acls_def res_ok_def)
qed

text \<open>
  A request that replaces an entry by its identifier and whose resources cannot be decoded leaves the
  list without the entry, and the block of the entry is neither in the list nor in the pool; a
  request that succeeds keeps all blocks.
\<close>

theorem failed_replacement_leaks:
  assumes "decode_one_ace random rep device s = Some (ok, s')" and "acl_wf (subjects_of s device)"
    and "oc_sec_decode_ace rep \<lparr>dec_aceid = -1, dec_permission = 0, dec_subject = OC_SUBJECT_UUID (replicate 16 0),
           dec_resources = [], dec_tag = None\<rparr> = Some d"
    and "dec_aceid d \<noteq> -1" and "\<not> acl_unique_aceid (dec_aceid d) device s"
  shows "ace_blocks device s' + (if ok then 0 else 1) = ace_blocks device s"
proof -
  have "\<exists>ace \<in> set (subjects_of s device). aceid ace = dec_aceid d"
    using assms(5) by (simp add: acl_unique_aceid_def list_ex_iff)
  from split_list_first_prop [OF this] obtain as ace bs
    where l: "subjects_of s device = as @ ace # bs" "aceid ace = dec_aceid d" "\<forall>a \<in> set as. aceid a \<noteq> dec_aceid d"
    by blast
  let ?t = "set_subjects device (as @ bs) s"
  obtain u where u: "oc_sec_decode_ace_resources random (dec_resources d) d device ?t = Some (ok, u)"
    "s' = (if ok then oc_sec_free_ace ace u else u)"
    using assms(1,3-5) by_aceid_unlinked [OF l] by (auto simp: decode_one_ace_def bind_eq_Some_conv split: if_splits)
  have "keeps device ?t u"
    using decode_ace_resources_wf [OF u(1)] acl_wf_split [of as ace bs] assms(2) l by (simp add: aid_fits_unused)
  with u(2) unlink_blocks(1) [OF l(1)] show ?thesis
    by (auto simp: keeps_def free_blocks)
qed

lemma failed_replacement_leaks_witness:
  "\<exists>s'. decode_one_ace (\<lambda>_. 8) [(Some ''aceid'', OC_REP_INT 1), (Some ''resources'', OC_REP_OBJECT_ARRAY [[(Some ''wc'', OC_REP_STRING ''?'')]])]
      0 (set_subjects 0 [role_ace] empty_acls) = Some (False, s') \<and>
    ace_blocks 0 s' + 1 = ace_blocks 0 (set_subjects 0 [role_ace] empty_acls)"
proof -
  let ?rep = "[(Some ''aceid'', OC_REP_INT 1), (Some ''resources'', OC_REP_OBJECT_ARRAY [[(Some ''wc'', OC_REP_STRING ''?'')]])]"
  let ?s = "set_subjects 0 [role_ace] empty_acls"
  note defs = ace_decode_property_def ace_decode_int_property_def oc_rep_is_property_def ace_decode_resource_string_property_def
    oc_ace_wildcard_from_string_def
  let ?d = "\<lparr>dec_aceid = 1, dec_permission = 0, dec_subject = OC_SUBJECT_UUID (replicate 16 0),
     dec_resources = [[(Some ''wc'', OC_REP_STRING ''?'')]], dec_tag = None\<rparr>"
  have d: "oc_sec_decode_ace ?rep \<lparr>dec_aceid = -1, dec_permission = 0, dec_subject = OC_SUBJECT_UUID (replicate 16 0),
     dec_resources = [], dec_tag = None\<rparr> = Some ?d"
    by (simp add: defs)
  have u: "oc_acl_remove_ace_from_device_by_aceid 1 0 ?s = (Some role_ace, set_subjects 0 [] ?s)" "\<not> acl_unique_aceid 1 0 ?s"
    using by_aceid_unlinked [of ?s 0 "[]" role_ace "[]" 1] by (simp_all add: role_ace_def acl_unique_aceid_def)
  have r: "decode_one_ace (\<lambda>_. 8) ?rep 0 ?s = Some (False, set_subjects 0 [] ?s)"
    unfolding decode_one_ace_def d using u by (simp add: defs)
  have "acl_wf (subjects_of ?s 0)"
    by (simp add: acl_wf_def ace_ok_def role_ace_def res_ok_def)
  from failed_replacement_leaks [OF r this d] u(2) r show ?thesis
    by auto
qed

text \<open>An update keeps the owner of the resource.\<close>

definition owners :: "acl_state \<Rightarrow> nat \<Rightarrow> oc_uuid" where
  "owners s device = acl_rowneruuid (g_aclist s device)"

lemma owners_simps [simp]:
  "owners (set_subjects device aces s) = owners s" "owners (oc_sec_remove_ace i device s) = owners s"
  "owners (s\<lparr>g_ace_l_free := n\<rparr>) = owners s"
  by (auto simp: owners_def set_subjects_def oc_sec_remove_ace_def oc_sec_free_ace_def)

lemma update_at_owners: "update_at i created href wc device s = Some (upd, s') \<Longrightarrow> owners s' = owners s"
proof -
  assume a: "update_at i created href wc device s = Some (upd, s')"
  then obtain r ace t where r: "oc_sec_ace_get_or_add_res (subjects_of s device ! i) href wc True s = Some (r, ace, t)"
    by (auto simp: update_at_def bind_eq_Some_conv)
  have "owners t = owners s"
    using get_or_add_res_cases [OF r] by (simp add: owners_def fun_eq_iff)
  with a r show ?thesis
    by (auto simp: update_at_def split: option.splits)
qed

lemma update_res_owners:
  assumes "oc_sec_acl_update_res random subject aid permission tag href wc device s = Some (upd, s')"
  shows "owners s' = owners s"
proof (cases "dropWhile (\<lambda>ace. \<not> ace_selected ace subject aid permission tag True) (subjects_of s device)")
  case (Cons ace bs)
  with assms show ?thesis
    by (auto simp: oc_sec_acl_update_res_eq dest: update_at_owners)
next
  case Nil
  obtain aid' t where t: "(if aid = -1 then acl_get_new_aceid random device s else Some (aid, s)) = Some (aid', t)"
    and r: "(case oc_sec_new_ace subject aid' permission tag t of (None, s) \<Rightarrow> Some (None, s)
      | (Some ace, s) \<Rightarrow> update_at (length (subjects_of s device)) True href wc device
          (set_subjects device (subjects_of s device @ [ace]) s)) = Some (upd, s')"
    using assms Nil by (auto simp: oc_sec_acl_update_res_eq bind_eq_Some_conv)
  have "owners t = owners s"
    using t acl_get_new_aceid_result [of random device s aid' t] by (auto simp: owners_def fun_eq_iff split: if_splits)
  with r show ?thesis
    by (auto simp: oc_sec_new_ace_def split: if_splits dest!: update_at_owners)
qed

end
