(* ===== verification/OcAclStore.thy ===== *)
theory OcAclStore
  imports OcAclUpdate
begin

text \<open>
  The encoder of access control lists (\<open>src/security/oc_ace.c\<close> and \<open>oc_acl.c\<close>) and its round trip with the
  decoder of \<open>OcAcl\<close>, on the level of decoded representations: the binary form is the business of the
  CBOR library.
\<close>

subsection \<open>Encoding\<close>

text \<open>An object that is being encoded is the sequence of its properties.\<close>

definition bytes_text :: "bytes \<Rightarrow> string" where
  "bytes_text bs = map (\<lambda>b. char_of (unat b)) bs"

definition uuid_text :: "oc_uuid \<Rightarrow> string" where
  "uuid_text u = (case oc_uuid_to_str_v1 u (replicate OC_UUID_LEN 0) of
     (n, Some buf) \<Rightarrow> bytes_text (take (nat n) buf) | (n, None) \<Rightarrow> [])"

definition ace_encode_subject :: "oc_sec_ace_t \<Rightarrow> oc_rep" where
  "ace_encode_subject sub =
     (case ace_subject sub of
        OC_SUBJECT_UUID u \<Rightarrow> [(Some ''uuid'', OC_REP_STRING (uuid_text u))]
      | OC_SUBJECT_ROLE role authority \<Rightarrow>
          [(Some ''role'', OC_REP_STRING (str_of role))] @
          (if \<not> oc_string_is_empty authority then [(Some ''authority'', OC_REP_STRING (str_of authority))] else [])
      | OC_SUBJECT_CONN conn \<Rightarrow> [(Some ''conntype'', OC_REP_STRING (str_of (oc_ace_connection_type_to_string conn)))])"

definition ace_encode_subject_resource :: "oc_ace_res_t \<Rightarrow> oc_rep" where
  "ace_encode_subject_resource res =
     (if length (str_of (res_href res)) > 0 then [(Some ''href'', OC_REP_STRING (str_of (res_href res)))]
      else
        (let wcv = str_of (oc_ace_wildcard_to_string (res_wildcard res))
         in if length wcv > 0 then [(Some ''wc'', OC_REP_STRING wcv)] else []))"

definition ace_encode_subject_resources :: "oc_ace_res_t list \<Rightarrow> oc_rep" where
  "ace_encode_subject_resources rs =
     (if rs = [] then [] else [(Some ''resources'', OC_REP_OBJECT_ARRAY (map ace_encode_subject_resource rs))])"

definition oc_sec_encode_ace :: "oc_sec_ace_t \<Rightarrow> bool \<Rightarrow> oc_rep" where
  "oc_sec_encode_ace sub to_storage =
     [(Some ''subject'', OC_REP_OBJECT (ace_encode_subject sub))] @
     ace_encode_subject_resources (ace_resources sub) @
     [(Some ''permission'', OC_REP_INT (uint (ace_permission sub))), (Some ''aceid'', OC_REP_INT (aceid sub))] @
     (if to_storage \<and> \<not> oc_string_is_empty (ace_tag sub) then [(Some ''tag'', OC_REP_STRING (str_of (ace_tag sub)))] else [])"

definition acl_encode_subjects :: "oc_sec_ace_t list \<Rightarrow> bool \<Rightarrow> oc_rep" where
  "acl_encode_subjects subjects to_storage =
     [(Some ''aclist2'', OC_REP_OBJECT_ARRAY (map (\<lambda>sub. oc_sec_encode_ace sub to_storage) subjects))]"

text \<open>
  \<open>baseline\<close> are the properties that \<open>oc_process_baseline_interface\<close> adds, and \<open>with_baseline\<close> tells whether
  the interface asks for them. The buffer of the identifier is a local array.
\<close>

definition oc_sec_encode_acl :: "oc_rep \<Rightarrow> nat \<Rightarrow> bool \<Rightarrow> bool \<Rightarrow> acl_state \<Rightarrow> oc_rep" where
  "oc_sec_encode_acl baseline device with_baseline to_storage s =
     (if to_storage \<or> with_baseline then baseline else []) @
     acl_encode_subjects (subjects_of s device) to_storage @
     [(Some ''rowneruuid'', OC_REP_STRING (uuid_text (acl_rowneruuid (g_aclist s device))))]"

subsection \<open>Decoding what was encoded\<close>

lemma text_bytes_text [simp]: "text_bytes (bytes_text bs) = bs"
proof -
  have "of_char (char_of (unat b) :: char) = b" for b :: u8
  proof -
    have "(of_char (char_of (unat b) :: char) :: u8) = of_nat (of_char (char_of (unat b) :: char))"
      by (simp only: of_nat_of_char)
    also have "\<dots> = b"
      using unsigned_less [where ?'a = nat, of b] by simp
    finally show ?thesis .
  qed
  then show ?thesis
    by (simp add: text_bytes_def bytes_text_def o_def)
qed

lemma uuid_text_parse:
  assumes "length u = 16"
  shows "\<exists>n. oc_str_to_uuid_v1 (text_bytes (uuid_text u)) (Some v) = (int n, Some u)"
proof -
  from uuid_print_parse [of u "replicate OC_UUID_LEN 0" v] assms obtain n buf where
    "oc_uuid_to_str_v1 u (replicate OC_UUID_LEN 0) = (int n, Some buf)"
    "oc_str_to_uuid_v1 (take n buf) (Some v) = (if n = 1 then 1 else int OC_UUID_ID_SIZE, Some u)"
    by (auto simp: uuid_sizes)
  then show ?thesis
    by (auto simp: uuid_text_def split: if_splits intro: exI [of _ 1])
qed

definition storable_subject :: "oc_ace_subject_t \<Rightarrow> bool" where
  "storable_subject subject =
     (case subject of
        OC_SUBJECT_UUID u \<Rightarrow> length u = 16
      | OC_SUBJECT_ROLE role authority \<Rightarrow> role \<noteq> None \<and> (authority = None \<or> str_of authority \<noteq> [])
      | OC_SUBJECT_CONN _ \<Rightarrow> True)"

lemma decode_encode_subject:
  assumes "storable_subject (ace_subject ace)"
  shows "ace_decode_subject (ace_encode_subject ace) = Some (ace_subject ace)"
proof (cases "ace_subject ace")
  case (OC_SUBJECT_UUID u)
  with uuid_text_parse [of u "replicate 16 0"] assms show ?thesis
    by (auto simp: ace_decode_subject_def ace_encode_subject_def ace_decode_subject_string_property_def storable_subject_def)
next
  case (OC_SUBJECT_ROLE role authority)
  with assms show ?thesis
    by (auto simp: ace_decode_subject_def ace_encode_subject_def ace_decode_subject_string_property_def storable_subject_def
        str_of_def split: option.splits)
next
  case (OC_SUBJECT_CONN conn)
  then show ?thesis
    by (cases conn) (simp_all add: ace_decode_subject_def ace_encode_subject_def ace_decode_subject_string_property_def
        oc_ace_connection_type_from_string_def)
qed

definition storable_res :: "oc_ace_res_t \<Rightarrow> bool" where
  "storable_res r \<longleftrightarrow>
     (case res_href r of
        Some h \<Rightarrow> h \<noteq> [] \<and> hd h = CHR ''/'' \<and> res_wildcard r = OC_ACE_NO_WC
      | None \<Rightarrow> res_wildcard r \<in> {OC_ACE_WC_ALL, OC_ACE_WC_ALL_SECURED, OC_ACE_WC_ALL_PUBLIC})"

lemma decode_encode_resource:
  assumes "storable_res r"
  shows "ace_decode_resource (ace_encode_subject_resource r) \<lparr>res_href = None, res_wildcard = OC_ACE_NO_WC\<rparr> = Some r"
  using assms by (cases r; cases "res_href r")
    (auto simp: storable_res_def ace_encode_subject_resource_def ace_decode_resource_string_property_def oc_ace_wildcard_to_string_def
      oc_ace_wildcard_from_string_def Let_def)

lemma storable_res_ok: "storable_res r \<Longrightarrow> res_ok r"
  by (auto simp: storable_res_def res_ok_def split: option.splits)

text \<open>No resource of an entry matches a later one: this is how entries come about.\<close>

definition storable :: "oc_sec_ace_t \<Rightarrow> bool" where
  "storable ace \<longleftrightarrow> storable_subject (ace_subject ace) \<and> ace_resources ace \<noteq> [] \<and> list_all storable_res (ace_resources ace) \<and>
     sorted_wrt (\<lambda>r r'. \<not> res_matches r (res_href r') (res_wildcard r')) (ace_resources ace) \<and>
     aceid ace \<noteq> -1 \<and> - (2 ^ 31) \<le> aceid ace \<and> aceid ace < 2 ^ 31 \<and> (ace_tag ace = None \<or> str_of (ace_tag ace) \<noteq> [])"

definition decoded_ace :: "oc_sec_ace_t \<Rightarrow> oc_sec_ace_decode" where
  "decoded_ace ace = \<lparr>dec_aceid = aceid ace, dec_permission = ace_permission ace, dec_subject = ace_subject ace,
     dec_resources = map ace_encode_subject_resource (ace_resources ace), dec_tag = ace_tag ace\<rparr>"

lemma decode_encode_ace:
  assumes "storable ace"
  shows "oc_sec_decode_ace (oc_sec_encode_ace ace True) \<lparr>dec_aceid = -1, dec_permission = 0, dec_subject = OC_SUBJECT_UUID (replicate 16 0),
      dec_resources = [], dec_tag = None\<rparr> = Some (decoded_ace ace)"
proof -
  have i: "signed_take_bit 31 (aceid ace) = aceid ace"
    using assms by (simp add: storable_def signed_take_bit_int_eq_self)
  have s: "ace_decode_subject (ace_encode_subject ace) = Some (ace_subject ace)"
    using assms decode_encode_subject by (simp add: storable_def)
  have p: "\<not> uint (ace_permission ace) > 65535"
    using uint_lt2p [of "ace_permission ace"] by simp
  show ?thesis
    using assms i s p
    by (auto simp: oc_sec_encode_ace_def ace_encode_subject_resources_def ace_decode_property_def ace_decode_int_property_def
        decoded_ace_def storable_def str_of_def split: option.splits)
qed

lemma none_selected_by_id:
  assumes "aid \<noteq> -1" and "aid \<notin> aceid ` set aces"
  shows "dropWhile (\<lambda>ace. \<not> ace_selected ace subject aid permission tag True) (aces @ rest) =
    dropWhile (\<lambda>ace. \<not> ace_selected ace subject aid permission tag True) rest"
  using assms by (intro dropWhile_append2) (auto simp: ace_selected_def)

lemma get_or_add_res_new:
  assumes "\<forall>r \<in> set (ace_resources ace). \<not> res_matches r href wc" and "res_ok \<lparr>res_href = href, res_wildcard = wc\<rparr>" and "g_res_l_free s > 0"
  shows "oc_sec_ace_get_or_add_res ace href wc True s =
    Some (Some True, ace\<lparr>ace_resources := ace_resources ace @ [\<lparr>res_href = href, res_wildcard = wc\<rparr>]\<rparr>, s\<lparr>g_res_l_free := g_res_l_free s - 1\<rparr>)"
  using assms by (auto simp: oc_sec_ace_get_or_add_res_def oc_sec_ace_find_resource_def ace_res_find_resource_dropWhile
      dropWhile_eq_Nil_conv oc_sec_add_new_ace_res_def res_ok_def)

lemma update_extends_last:
  assumes "subjects_of s device = aces @ [ace]" and "aid \<noteq> -1" and "aid \<notin> aceid ` set aces"
    and "ace_selected ace subject aid permission tag True" and "\<forall>r \<in> set (ace_resources ace). \<not> res_matches r href wc"
    and "res_ok \<lparr>res_href = href, res_wildcard = wc\<rparr>" and "g_res_l_free s > 0"
  shows "\<exists>u s'. oc_sec_acl_update_res random subject aid permission tag href wc device s = Some (Some u, s') \<and>
    subjects_of s' device = aces @ [ace\<lparr>ace_resources := ace_resources ace @ [\<lparr>res_href = href, res_wildcard = wc\<rparr>]\<rparr>]"
proof -
  have "oc_sec_acl_update_res random subject aid permission tag href wc device s = update_at (length aces) False href wc device s"
    unfolding oc_sec_acl_update_res_eq assms(1) none_selected_by_id [OF assms(2,3)] using assms(4) by simp
  then show ?thesis
    using assms(1) by (simp add: update_at_def get_or_add_res_new [OF assms(5-7)])
qed

lemma update_creates:
  assumes "aid \<noteq> -1" and "aid \<notin> aceid ` set (subjects_of s device)"
    and "res_ok \<lparr>res_href = href, res_wildcard = wc\<rparr>" and "g_res_l_free s > 0" and "g_ace_l_free s > 0"
  shows "\<exists>u s'. oc_sec_acl_update_res random subject aid permission tag href wc device s = Some (Some u, s') \<and>
    subjects_of s' device = subjects_of s device @
      [(new_entry subject aid permission tag)\<lparr>ace_resources := [\<lparr>res_href = href, res_wildcard = wc\<rparr>]\<rparr>]"
proof -
  let ?e = "new_entry subject aid permission tag"
  have d: "dropWhile (\<lambda>ace. \<not> ace_selected ace subject aid permission tag True) (subjects_of s device) = []"
    using none_selected_by_id [OF assms(1,2), of subject permission tag "[]"] by simp
  have n: "oc_sec_new_ace subject aid permission tag s = (Some ?e, s\<lparr>g_ace_l_free := g_ace_l_free s - 1\<rparr>)"
    using assms(5) by (simp add: oc_sec_new_ace_def new_entry_def stored_subject_def split: oc_ace_subject_t.split)
  let ?s = "set_subjects device (subjects_of s device @ [?e]) (s\<lparr>g_ace_l_free := g_ace_l_free s - 1\<rparr>)"
  have "oc_sec_acl_update_res random subject aid permission tag href wc device s = update_at (length (subjects_of s device)) True href wc device ?s"
    unfolding oc_sec_acl_update_res_eq d using assms(1) n by simp
  moreover have "\<forall>r \<in> set (ace_resources ?e). \<not> res_matches r href wc"
    by (simp add: new_entry_def)
  ultimately show ?thesis
    using assms(3,4) by (simp add: update_at_def get_or_add_res_new) (simp add: new_entry_def)
qed

text \<open>The resources of an entry are added one by one to the last entry of the list.\<close>

lemma resource_eta: "\<lparr>res_href = res_href r, res_wildcard = res_wildcard r\<rparr> = (r :: oc_ace_res_t)"
  by simp

lemma load_resources:
  assumes "subjects_of s device = aces @ [ace\<lparr>ace_resources := ds\<rparr>]" and "aceid ace \<noteq> -1" and "aceid ace \<notin> aceid ` set aces"
    and "stored_subject (ace_subject ace) = ace_subject ace" and "list_all storable_res rs"
    and "sorted_wrt (\<lambda>r r'. \<not> res_matches r (res_href r') (res_wildcard r')) (ds @ rs)" and "length rs \<le> g_res_l_free s"
  shows "\<exists>s'. oc_sec_decode_ace_resources random (map ace_encode_subject_resource rs) (decoded_ace ace) device s = Some (True, s') \<and>
    subjects_of s' device = aces @ [ace\<lparr>ace_resources := ds @ rs\<rparr>] \<and> keeps device s s' \<and> owners s' = owners s"
  using assms
proof (induction rs arbitrary: s ds)
  case (Cons r rs)
  let ?ace = "ace\<lparr>ace_resources := ds\<rparr>"
  have sel: "ace_selected ?ace (ace_subject ace) (aceid ace) (ace_permission ace) (ace_tag ace) True"
    using new_entry_selected [of "aceid ace" "aceid ace" "ace_subject ace" "ace_permission ace" "ace_tag ace"] Cons.prems(4)
    by (auto simp: ace_selected_def new_entry_def oc_ace_has_matching_subject_def oc_ace_has_matching_tag_def split: if_splits)
  have ok: "res_ok r"
    using Cons.prems(5) by (simp add: storable_res_ok)
  have nomatch: "\<forall>r' \<in> set ds. \<not> res_matches r' (res_href r) (res_wildcard r)"
    using Cons.prems(6) by (simp add: sorted_wrt_append)
  obtain u t where u: "oc_sec_acl_update_res random (ace_subject ace) (aceid ace) (ace_permission ace) (ace_tag ace)
      (res_href r) (res_wildcard r) device s = Some (Some u, t)" "subjects_of t device = aces @ [ace\<lparr>ace_resources := ds @ [r]\<rparr>]"
    using update_extends_last [OF Cons.prems(1-3) sel, of "res_href r" "res_wildcard r" random] nomatch ok Cons.prems(7)
    by (auto simp: resource_eta)
  have k: "keeps device s t" "owners t = owners s"
    using acl_update_refines [OF u(1)] update_res_owners [OF u(1)] by simp_all
  have "g_res_l_free t + 1 = g_res_l_free s"
    using k(1) Cons.prems(1) u(2) by (simp add: keeps_def res_blocks_def)
  then obtain s' where s': "oc_sec_decode_ace_resources random (map ace_encode_subject_resource rs) (decoded_ace ace) device t = Some (True, s')"
    "subjects_of s' device = aces @ [ace\<lparr>ace_resources := (ds @ [r]) @ rs\<rparr>]" "keeps device t s'" "owners s' = owners t"
    using Cons.IH [OF u(2) Cons.prems(2-4)] Cons.prems(5-7) by auto
  have "oc_sec_decode_ace_resources random (map ace_encode_subject_resource (r # rs)) (decoded_ace ace) device s = Some (True, s')"
    using s'(1) u(1) Cons.prems(5) by (simp add: decode_encode_resource decoded_ace_def)
  with s' k show ?case
    using keeps_trans by (intro exI [of _ s']) auto
qed simp

lemma storable_stored: "storable_subject subject \<Longrightarrow> stored_subject subject = subject"
  by (auto simp: storable_subject_def stored_subject_def split: oc_ace_subject_t.splits)

text \<open>One stored entry is appended to the list.\<close>

lemma load_ace:
  assumes "storable ace" and "aceid ace \<notin> aceid ` set (subjects_of s device)" and "length (ace_resources ace) \<le> g_res_l_free s"
    and "g_ace_l_free s > 0"
  shows "\<exists>s'. decode_one_ace random (oc_sec_encode_ace ace True) device s = Some (True, s') \<and>
    subjects_of s' device = subjects_of s device @ [ace] \<and> keeps device s s' \<and> owners s' = owners s"
proof -
  note st = assms(1) [unfolded storable_def]
  obtain r rs where rs: "ace_resources ace = r # rs"
    using st by (cases "ace_resources ace") auto
  have stored: "stored_subject (ace_subject ace) = ace_subject ace"
    using st storable_stored by blast
  have new: "(new_entry (ace_subject ace) (aceid ace) (ace_permission ace) (ace_tag ace))\<lparr>ace_resources := [r]\<rparr> = ace\<lparr>ace_resources := [r]\<rparr>"
    using stored by (cases ace) (simp add: new_entry_def)
  have "res_ok r"
    using st rs by (simp add: storable_res_ok)
  then obtain u t where u: "oc_sec_acl_update_res random (ace_subject ace) (aceid ace) (ace_permission ace) (ace_tag ace)
      (res_href r) (res_wildcard r) device s = Some (Some u, t)" "subjects_of t device = subjects_of s device @ [ace\<lparr>ace_resources := [r]\<rparr>]"
    using update_creates [of "aceid ace" s device "res_href r" "res_wildcard r" random "ace_subject ace" "ace_permission ace" "ace_tag ace"]
      st assms(2-4) rs new by (auto simp: resource_eta)
  have k: "keeps device s t" "owners t = owners s"
    using acl_update_refines [OF u(1)] update_res_owners [OF u(1)] by simp_all
  have "g_res_l_free t + 1 = g_res_l_free s"
    using k(1) u(2) by (simp add: keeps_def res_blocks_def)
  then obtain s' where s': "oc_sec_decode_ace_resources random (map ace_encode_subject_resource rs) (decoded_ace ace) device t = Some (True, s')"
    "subjects_of s' device = subjects_of s device @ [ace\<lparr>ace_resources := [r] @ rs\<rparr>]" "keeps device t s'" "owners s' = owners t"
    using load_resources [OF u(2) _ assms(2) stored, of rs random] st assms(3) rs by auto
  have "oc_sec_decode_ace_resources random (dec_resources (decoded_ace ace)) (decoded_ace ace) device s = Some (True, s')"
    using s'(1) u(1) st rs by (simp add: decode_encode_resource decoded_ace_def)
  moreover have "acl_unique_aceid (dec_aceid (decoded_ace ace)) device s"
    using assms(2) by (auto simp: acl_unique_aceid_def list_ex_iff decoded_ace_def image_iff)
  ultimately have "decode_one_ace random (oc_sec_encode_ace ace True) device s = Some (True, s')"
    unfolding decode_one_ace_def decode_encode_ace [OF assms(1)] by simp
  moreover have "ace\<lparr>ace_resources := [r] @ rs\<rparr> = ace"
    using rs by (cases ace) simp
  ultimately show ?thesis
    using s' k keeps_trans by (intro exI [of _ s']) auto
qed

lemma load_aces:
  assumes "list_all storable aces" and "distinct (map aceid aces)" and "aceid ` set (subjects_of s device) \<inter> aceid ` set aces = {}"
    and "sum_list (map (\<lambda>ace. length (ace_resources ace)) aces) \<le> g_res_l_free s" and "length aces \<le> g_ace_l_free s"
  shows "\<exists>s'. decode_aces random (map (\<lambda>ace. oc_sec_encode_ace ace True) aces) device s = Some (True, s') \<and>
    subjects_of s' device = subjects_of s device @ aces \<and> keeps device s s' \<and> owners s' = owners s"
  using assms
proof (induction aces arbitrary: s)
  case (Cons ace aces)
  obtain t where t: "decode_one_ace random (oc_sec_encode_ace ace True) device s = Some (True, t)"
    "subjects_of t device = subjects_of s device @ [ace]" "keeps device s t" "owners t = owners s"
    using load_ace [of ace s device random] Cons.prems by auto
  have f: "g_ace_l_free t + 1 = g_ace_l_free s" "g_res_l_free t + length (ace_resources ace) = g_res_l_free s"
    using t(2,3) by (simp_all add: keeps_def ace_blocks_def res_blocks_def)
  obtain s' where s': "decode_aces random (map (\<lambda>ace. oc_sec_encode_ace ace True) aces) device t = Some (True, s')"
    "subjects_of s' device = subjects_of t device @ aces" "keeps device t s'" "owners s' = owners t"
    using Cons.IH [of t] Cons.prems f t(2) by auto
  with t show ?case
    using keeps_trans by (intro exI [of _ s']) auto
qed simp

lemma uuid_text_bytes:
  assumes "length u = 16"
  shows "text_bytes (uuid_text u) = (if u = 42 # replicate 15 0 then [42] else uuid_text_from u 0)"
proof -
  from assms obtain a r where u: "u = a # r" "length r = 15"
    by (cases u) auto
  have wild: "u ! 0 = 42 \<and> tl u = replicate (OC_UUID_ID_SIZE - 1) 0 \<longleftrightarrow> u = 42 # replicate 15 0"
    by (auto simp: u uuid_sizes)
  show ?thesis
  proof (cases "u = 42 # replicate 15 0")
    case True
    then show ?thesis
      using wild by (simp add: uuid_text_def oc_uuid_to_str_v1_def uuid_sizes) (simp add: eval_nat_numeral)
  next
    case False
    obtain m where "uuid_print u 0 (replicate 37 0, 0, 37) = Some (write_at (replicate 37 0) 0 (uuid_text_from u 0 @ [0]), 36, m)"
      using uuid_print_ok [of 0 37 "replicate 37 0" 0 u] uuid_text_length [of u] by auto
    then have "oc_uuid_to_str_v1 u (replicate OC_UUID_LEN 0) = (36, Some (write_at (replicate 37 0) 0 (uuid_text_from u 0 @ [0])))"
      unfolding oc_uuid_to_str_v1_def wild using False by (simp add: uuid_sizes)
    with False show ?thesis
      using uuid_text_length [of u] by (simp add: uuid_text_def write_at_def)
  qed
qed

lemma uuid_text_from_nonzero: "\<forall>ch \<in> set (uuid_text_from u 0). ch \<noteq> 0"
  using hex2_nibbles(5,6) by (auto simp: uuid_text_from_def uuid_token_def hex2_def split: if_splits)

lemma load_rowner:
  assumes "length u = 16"
  shows "set_acl_rowner device (uuid_text u) s =
    s\<lparr>g_aclist := (g_aclist s)(device := (g_aclist s device)\<lparr>acl_rowneruuid := u\<rparr>)\<rparr>"
proof -
  let ?t = "text_bytes (uuid_text u)"
  have "\<forall>ch \<in> set ?t. ch \<noteq> 0" "length ?t \<le> 37"
    using uuid_text_from_nonzero [of u] uuid_text_length [of u] by (auto simp: uuid_text_bytes [OF assms])
  then have "take OC_UUID_LEN (takeWhile (\<lambda>ch. ch \<noteq> 0) ?t) = ?t"
    by (simp add: uuid_sizes takeWhile_eq_all_conv [THEN iffD2])
  moreover obtain n where "oc_str_to_uuid_v1 ?t (Some (acl_rowneruuid (g_aclist s device))) = (int n, Some u)"
    using uuid_text_parse [OF assms] by blast
  ultimately show ?thesis
    by (simp add: set_acl_rowner_def oc_str_to_uuid_def)
qed

subsection \<open>Storage\<close>

lemma baseline_skipped:
  assumes "\<forall>e \<in> set baseline. oc_rep_is_baseline_interface_property e"
  shows "decode_acl_apply random (baseline @ rep) device s = decode_acl_apply random rep device s"
  using assms
proof (induction baseline)
  case (Cons e baseline)
  then show ?case
    by (cases "snd e") (auto simp: oc_rep_is_baseline_interface_property_def)
qed simp

lemma decode_acl_check_storage: "decode_acl_check dos True rep"
  by (induction rep) (auto split: oc_rep_value.split)

text \<open>
  C10. A list of access control entries survives a restart: what the encoder writes to storage is decoded into
  an empty list to the same entries in the same order, with the same identifiers, subjects,
  permissions, tags and resources, and to the same owner; the lists of other devices are not
  touched. The entries have to be such as the decoder creates: each resource has a path or a
  wildcard and none is covered by an earlier one, and the pools have enough blocks.
\<close>

theorem acl_storage_round_trip:
  assumes "list_all storable (subjects_of s device)" and "distinct (map aceid (subjects_of s device))"
    and "length (acl_rowneruuid (g_aclist s device)) = 16" and "\<forall>e \<in> set baseline. oc_rep_is_baseline_interface_property e"
    and "subjects_of s0 device = []" and "length (subjects_of s device) \<le> g_ace_l_free s0"
    and "sum_list (map (\<lambda>ace. length (ace_resources ace)) (subjects_of s device)) \<le> g_res_l_free s0"
  shows "\<exists>s'. oc_sec_decode_acl random dos (oc_sec_encode_acl baseline device True True s) True device s0 = Some (True, s') \<and>
    g_aclist s' device = g_aclist s device \<and> (\<forall>d. d \<noteq> device \<longrightarrow> g_aclist s' d = g_aclist s0 d)"
proof -
  let ?aces = "subjects_of s device" and ?owner = "acl_rowneruuid (g_aclist s device)"
  obtain t where t: "decode_aces random (map (\<lambda>ace. oc_sec_encode_ace ace True) ?aces) device s0 = Some (True, t)"
    "subjects_of t device = ?aces" "keeps device s0 t"
    using load_aces [OF assms(1,2), of s0 device random] assms(5-7) by auto
  let ?s' = "t\<lparr>g_aclist := (g_aclist t)(device := (g_aclist t device)\<lparr>acl_rowneruuid := ?owner\<rparr>)\<rparr>"
  have "oc_sec_decode_acl random dos (oc_sec_encode_acl baseline device True True s) True device s0 = Some (True, ?s')"
    unfolding oc_sec_decode_acl_def oc_sec_encode_acl_def acl_encode_subjects_def
    using t(1) by (simp add: decode_acl_check_storage baseline_skipped [OF assms(4)] load_rowner [OF assms(3)])
  moreover have "g_aclist ?s' device = g_aclist s device"
    using t(2) by (cases "g_aclist s device") (simp add: subjects_of_def)
  moreover have "\<forall>d. d \<noteq> device \<longrightarrow> g_aclist ?s' d = g_aclist s0 d"
    using t(3) by (simp add: keeps_def same_elsewhere_def)
  ultimately show ?thesis
    by blast
qed

lemma acl_storage_round_trip_witness:
  "\<exists>s'. oc_sec_decode_acl (\<lambda>_. 8) OC_DOS_RFNOP (oc_sec_encode_acl [(Some ''rt'', OC_REP_STRING_ARRAY)] 0 True True
        (set_subjects 0 [role_ace] empty_acls)) True 0 empty_acls = Some (True, s') \<and> subjects_of s' 0 = [role_ace]"
proof -
  let ?s = "set_subjects 0 [role_ace] empty_acls"
  have "list_all storable (subjects_of ?s 0)"
    by (simp add: role_ace_def storable_def storable_subject_def storable_res_def)
  moreover have "\<forall>e \<in> set [(Some ''rt'', OC_REP_STRING_ARRAY)]. oc_rep_is_baseline_interface_property e"
    by (simp add: oc_rep_is_baseline_interface_property_def)
  moreover have "length (acl_rowneruuid (g_aclist ?s 0)) = 16" "subjects_of empty_acls 0 = []" "g_ace_l_free empty_acls = 4"
    "g_res_l_free empty_acls = 4"
    by (simp_all add: empty_acls_def set_subjects_def subjects_of_def)
  ultimately obtain s' where s': "oc_sec_decode_acl (\<lambda>_. 8) OC_DOS_RFNOP (oc_sec_encode_acl [(Some ''rt'', OC_REP_STRING_ARRAY)] 0 True True ?s)
      True 0 empty_acls = Some (True, s')" "g_aclist s' 0 = g_aclist ?s 0"
    using acl_storage_round_trip [of ?s 0 "[(Some ''rt'', OC_REP_STRING_ARRAY)]" empty_acls "\<lambda>_. 8" OC_DOS_RFNOP]
    by (auto simp: role_ace_def)
  then have "subjects_of s' 0 = [role_ace]"
    by (simp add: subjects_of_def set_subjects_def)
  with s'(1) show ?thesis
    by blast
qed

end
