(* ===== verification/OcAccess.thy ===== *)
theory OcAccess
  imports OcAcl
begin

text \<open>
  The access decision of \<open>src/security/oc_acl_util.c\<close>: which requests are granted, from the onboarding
  state, the class of the resource, the connection and the access control list.
\<close>

subsection \<open>Credentials and sessions\<close>

datatype oc_sec_credtype_t =
    OC_CREDTYPE_NULL
  | OC_CREDTYPE_PSK
  | OC_CREDTYPE_CERT
  | OC_CREDTYPE_OSCORE
  | OC_CREDTYPE_OSCORE_MCAST_CLIENT
  | OC_CREDTYPE_OSCORE_MCAST_SERVER

datatype oc_sec_credusage_t =
    OC_CREDUSAGE_NULL
  | OC_CREDUSAGE_TRUSTCA
  | OC_CREDUSAGE_IDENTITY_CERT
  | OC_CREDUSAGE_ROLE_CERT
  | OC_CREDUSAGE_MFG_TRUSTCA
  | OC_CREDUSAGE_MFG_CERT

text \<open>
  \<open>cred_valid\<close> is the answer of \<open>oc_certs_validate_role_cert\<close> for the certificate of a role: the return
  value is not negative and no flag is set.
\<close>

record oc_sec_cred_t =
  cred_subjectuuid :: oc_uuid
  cred_type :: oc_sec_credtype_t
  cred_usage :: oc_sec_credusage_t
  cred_role :: oc_string
  cred_authority :: oc_string
  cred_valid :: bool

text \<open>\<open>peer_psk\<close> is the answer of \<open>oc_tls_uses_psk_cred\<close> for the session.\<close>

record oc_tls_peer_t =
  peer_endpoint :: oc_endpoint_t
  peer_doc :: bool
  peer_psk :: bool
  peer_roles :: "oc_sec_cred_t list"

record oc_sec_creds_t =
  creds_list :: "oc_sec_cred_t list"
  creds_rowneruuid :: oc_uuid

text \<open>What the decision reads: the state, owners and credentials of the devices and the sessions.\<close>

record sec_state =
  sec_num_devices :: nat
  sec_dos :: "nat \<Rightarrow> oc_dostype_t"
  sec_acl :: acl_state
  sec_doxm_rowner :: "nat \<Rightarrow> oc_uuid"
  sec_pstat_rowner :: "nat \<Rightarrow> oc_uuid"
  sec_creds :: "nat \<Rightarrow> oc_sec_creds_t"
  sec_tls_peers :: "oc_tls_peer_t list"

definition oc_sec_find_cred ::
  "sec_state \<Rightarrow> build_cfg \<Rightarrow> oc_sec_cred_t list \<Rightarrow> oc_uuid \<Rightarrow> oc_sec_credtype_t \<Rightarrow> oc_sec_credusage_t \<Rightarrow> nat \<Rightarrow>
   oc_sec_cred_t list" where
  "oc_sec_find_cred s cfg start subjectuuid credtype credusage device =
     dropWhile (\<lambda>cred. \<not> (cred_type cred = credtype \<and> (oc_pki cfg \<longrightarrow> cred_usage cred = credusage) \<and>
                           oc_uuid_is_equal (cred_subjectuuid cred) subjectuuid))
       (if start = [] then creds_list (sec_creds s device) else start)"

definition oc_tls_get_peer :: "sec_state \<Rightarrow> oc_endpoint_t \<Rightarrow> oc_tls_peer_t option" where
  "oc_tls_get_peer s endpoint = find (\<lambda>p. oc_endpoint_compare (peer_endpoint p) endpoint = 0) (sec_tls_peers s)"

definition oc_tls_num_peers :: "sec_state \<Rightarrow> nat \<Rightarrow> nat" where
  "oc_tls_num_peers s device = length (filter (\<lambda>p. ep_device (peer_endpoint p) = device) (sec_tls_peers s))"

subsection \<open>Permissions of entries\<close>

definition resource_wildcard :: "oc_resource_t \<Rightarrow> bool \<Rightarrow> bool \<Rightarrow> u16" where
  "resource_wildcard resource is_DCR is_public =
     (if is_DCR then 0
      else if r_properties resource AND OC_DISCOVERABLE \<noteq> 0 then
        (if is_public then OC_ACE_WC_ALL_SECURED OR OC_ACE_WC_ALL_PUBLIC else OC_ACE_WC_ALL_SECURED)
      else OC_ACE_WC_ALL)"

text \<open>The loop \<open>while (res != NULL)\<close>.\<close>

lemma length_ace_res_find_resource: "length (ace_res_find_resource rs href wc) \<le> length rs"
  by (simp add: ace_res_find_resource_dropWhile length_dropWhile_le)

function permission_loop :: "oc_sec_ace_t \<Rightarrow> oc_string \<Rightarrow> u16 \<Rightarrow> oc_ace_res_t list \<Rightarrow> u16 \<Rightarrow> u16" where
  "permission_loop ace uri wc res permission =
     (if res \<noteq> [] then
        permission_loop ace uri wc (oc_sec_ace_find_resource res ace uri wc) (permission OR ace_permission ace)
      else permission)"
  by pat_completeness auto
termination
proof (relation "measure (\<lambda>(ace, uri, wc, res, permission). length res)", simp)
  fix ace uri wc and res :: "oc_ace_res_t list" and permission :: u16
  assume "res \<noteq> []"
  then show "((ace, uri, wc, oc_sec_ace_find_resource res ace uri wc, permission OR ace_permission ace),
      (ace, uri, wc, res, permission)) \<in> measure (\<lambda>(ace, uri, wc, res, permission). length res)"
    using length_ace_res_find_resource [of "tl res" uri wc]
    by (cases res) (auto simp: oc_sec_ace_find_resource_def)
qed

declare permission_loop.simps [simp del]

definition oc_ace_get_permission :: "oc_sec_ace_t \<Rightarrow> oc_resource_t \<Rightarrow> bool \<Rightarrow> bool \<Rightarrow> u16" where
  "oc_ace_get_permission ace resource is_DCR is_public =
     (let wc = resource_wildcard resource is_DCR is_public
      in permission_loop ace (r_uri resource) wc (oc_sec_ace_find_resource [] ace (r_uri resource) wc) 0)"

text \<open>
  The loop \<open>do { match = oc_sec_acl_find_subject(match, ...); ... } while (match != NULL)\<close>, which the code
  has once for each kind of subject; \<open>start\<close> is the part of the list that is still to be searched.
\<close>

lemma length_oc_sec_ace_find_subject: "length (oc_sec_ace_find_subject aces subject aid p tag mt) \<le> length aces"
  by (simp add: oc_sec_ace_find_subject_dropWhile length_dropWhile_le)

function subject_loop :: "oc_ace_subject_t \<Rightarrow> oc_resource_t \<Rightarrow> bool \<Rightarrow> bool \<Rightarrow> oc_sec_ace_t list \<Rightarrow> u16 \<Rightarrow> u16" where
  "subject_loop subject resource is_DCR is_public start permission =
     (case oc_sec_ace_find_subject start subject (-1) 0 None False of
        [] \<Rightarrow> permission
      | ace # aces \<Rightarrow>
          subject_loop subject resource is_DCR is_public aces
            (permission OR oc_ace_get_permission ace resource is_DCR is_public))"
  by pat_completeness auto
termination
proof (relation "measure (\<lambda>(subject, resource, is_DCR, is_public, start, permission). length start)", simp)
  fix subject resource is_DCR is_public start and permission :: u16 and ace aces
  assume "oc_sec_ace_find_subject start subject (-1) 0 None False = ace # aces"
  then show "((subject, resource, is_DCR, is_public, aces, permission OR oc_ace_get_permission ace resource is_DCR is_public),
      (subject, resource, is_DCR, is_public, start, permission))
    \<in> measure (\<lambda>(subject, resource, is_DCR, is_public, start, permission). length start)"
    using length_oc_sec_ace_find_subject [of start subject "-1" 0 None False] by simp
qed

declare subject_loop.simps [simp del]

definition subject_permissions ::
  "sec_state \<Rightarrow> oc_ace_subject_t \<Rightarrow> oc_resource_t \<Rightarrow> nat \<Rightarrow> bool \<Rightarrow> bool \<Rightarrow> u16" where
  "subject_permissions s subject resource device is_DCR is_public =
     subject_loop subject resource is_DCR is_public (subjects_of (sec_acl s) device) 0"

definition get_role_permissions :: "sec_state \<Rightarrow> oc_sec_cred_t \<Rightarrow> oc_resource_t \<Rightarrow> nat \<Rightarrow> bool \<Rightarrow> bool \<Rightarrow> u16" where
  "get_role_permissions s role_cred resource device is_DCR is_public =
     subject_permissions s (OC_SUBJECT_ROLE (cred_role role_cred) (cred_authority role_cred)) resource device is_DCR is_public"

definition eval_access :: "oc_method_t \<Rightarrow> u16 \<Rightarrow> bool" where
  "eval_access meth permission =
     (if permission = 0 then False
      else if meth = OC_GET then permission AND OC_PERM_RETRIEVE \<noteq> 0 \<or> permission AND OC_PERM_NOTIFY \<noteq> 0
      else if meth = OC_POST \<or> meth = OC_PUT then permission AND OC_PERM_CREATE \<noteq> 0 \<or> permission AND OC_PERM_UPDATE \<noteq> 0
      else meth = OC_DELETE \<and> permission AND OC_PERM_DELETE \<noteq> 0)"

subsection \<open>Permissions of the peer and of the connection\<close>

text \<open>
  The loop over the credentials of the peer; \<open>oc_sec_find_cred\<close> starts at the given credential, and a
  credential without successor ends the loop.
\<close>

lemma length_oc_sec_find_cred: "start \<noteq> [] \<Longrightarrow> length (oc_sec_find_cred s cfg start u t c d) \<le> length start"
  by (simp add: oc_sec_find_cred_def length_dropWhile_le)

function psk_loop ::
  "sec_state \<Rightarrow> build_cfg \<Rightarrow> oc_resource_t \<Rightarrow> bool \<Rightarrow> bool \<Rightarrow> oc_endpoint_t \<Rightarrow> oc_sec_cred_t list \<Rightarrow> u16 \<Rightarrow> u16" where
  "psk_loop s cfg resource is_DCR is_public endpoint creds permission =
     (case creds of
        [] \<Rightarrow> permission
      | role_cred # rest \<Rightarrow>
          (let permission = (if \<not> oc_string_is_empty (cred_role role_cred)
                             then permission OR get_role_permissions s role_cred resource (ep_device endpoint) is_DCR is_public
                             else permission)
           in if rest = [] then permission
              else psk_loop s cfg resource is_DCR is_public endpoint
                     (oc_sec_find_cred s cfg rest (ep_di endpoint) OC_CREDTYPE_PSK OC_CREDUSAGE_NULL (ep_device endpoint))
                     permission))"
  by pat_completeness auto
termination
  by (relation "measure (\<lambda>(s, cfg, resource, is_DCR, is_public, endpoint, creds, permission). length creds)")
     (auto simp: less_Suc_eq_le length_oc_sec_find_cred)

declare psk_loop.simps [simp del]

text \<open>The loop over the asserted roles; roles with an invalid certificate are released.\<close>

fun role_loop ::
  "sec_state \<Rightarrow> oc_resource_t \<Rightarrow> bool \<Rightarrow> bool \<Rightarrow> nat \<Rightarrow> oc_sec_cred_t list \<Rightarrow> u16 \<Rightarrow> u16 \<times> oc_sec_cred_t list" where
  "role_loop s resource is_DCR is_public device [] permission = (permission, [])"
| "role_loop s resource is_DCR is_public device (role_cred # roles) permission =
     (if \<not> cred_valid role_cred then role_loop s resource is_DCR is_public device roles permission
      else if oc_string_view_is_equal (cred_role role_cred) (Some ''oic.role.owner'') then
        (OC_PERM_CREATE OR OC_PERM_RETRIEVE OR OC_PERM_UPDATE OR OC_PERM_DELETE OR OC_PERM_NOTIFY, role_cred # roles)
      else
        (case role_loop s resource is_DCR is_public device roles
                (permission OR get_role_permissions s role_cred resource device is_DCR is_public) of
           (permission, rest) \<Rightarrow> (permission, role_cred # rest)))"

definition get_peer_permissions ::
  "sec_state \<Rightarrow> build_cfg \<Rightarrow> oc_resource_t \<Rightarrow> bool \<Rightarrow> bool \<Rightarrow> oc_endpoint_t \<Rightarrow> oc_tls_peer_t \<Rightarrow> u16 \<times> oc_sec_cred_t list" where
  "get_peer_permissions s cfg resource is_DCR is_public endpoint peer =
     (if peer_psk peer then
        (psk_loop s cfg resource is_DCR is_public endpoint
           (oc_sec_find_cred s cfg [] (ep_di endpoint) OC_CREDTYPE_PSK OC_CREDUSAGE_NULL (ep_device endpoint)) 0,
         peer_roles peer)
      else if oc_pki cfg then role_loop s resource is_DCR is_public (ep_device endpoint) (peer_roles peer) 0
      else (0, peer_roles peer))"

definition get_conn_permissions :: "sec_state \<Rightarrow> oc_resource_t \<Rightarrow> bool \<Rightarrow> bool \<Rightarrow> oc_endpoint_t \<Rightarrow> u16" where
  "get_conn_permissions s resource is_DCR is_public endpoint =
     (if ep_flags endpoint AND SECURED \<noteq> 0
      then subject_permissions s (OC_SUBJECT_CONN OC_CONN_AUTH_CRYPT) resource (ep_device endpoint) is_DCR is_public
      else 0) OR
     subject_permissions s (OC_SUBJECT_CONN OC_CONN_ANON_CLEAR) resource (ep_device endpoint) is_DCR is_public"

text \<open>The result is the decision and the roles of the peer after the call.\<close>

definition oc_sec_check_acl_by_permissions ::
  "sec_state \<Rightarrow> build_cfg \<Rightarrow> oc_method_t \<Rightarrow> oc_resource_t \<Rightarrow> bool \<Rightarrow> bool \<Rightarrow> oc_endpoint_t \<Rightarrow> oc_tls_peer_t option \<Rightarrow>
   bool \<times> oc_sec_cred_t list" where
  "oc_sec_check_acl_by_permissions s cfg meth resource is_DCR is_SVR endpoint peer =
     (let is_public = (r_properties resource AND OC_SECURE = 0);
          permission = subject_permissions s (OC_SUBJECT_UUID (ep_di endpoint)) resource (ep_device endpoint) is_DCR is_public;
          (peer_permission, roles) =
            (case peer of
               None \<Rightarrow> (0, [])
             | Some p \<Rightarrow> get_peer_permissions s cfg resource is_DCR is_public endpoint p);
          conn_permission = (if is_SVR then 0 else get_conn_permissions s resource is_DCR is_public endpoint)
      in (eval_access meth (permission OR peer_permission OR conn_permission), roles))"

subsection \<open>The decision\<close>

definition oc_sec_check_acl_on_get :: "build_cfg \<Rightarrow> oc_resource_t \<Rightarrow> bool \<Rightarrow> bool" where
  "oc_sec_check_acl_on_get cfg resource is_otm =
     (let uriv = r_uri resource in
      (is_otm \<and> (oc_resource_match_uri ''/oic/res'' uriv \<or> oc_resource_match_uri ''/oic/d'' uriv \<or>
                 oc_resource_match_uri ''/oic/p'' uriv)) \<or>
      (oc_plgd_time cfg \<and> oc_resource_match_uri ''/x.plgd.dev/time'' uriv) \<or>
      (oc_wkcore cfg \<and> oc_resource_match_uri ''/.well-known/core'' uriv))"

definition oc_sec_check_acl_by_uuid :: "sec_state \<Rightarrow> oc_uuid \<Rightarrow> nat \<Rightarrow> oc_resource_t \<Rightarrow> bool" where
  "oc_sec_check_acl_by_uuid s uuid device resource =
     (let uriv = r_uri resource in
      (oc_resource_match_uri ''/oic/sec/acl2'' uriv \<and> oc_sec_acl_is_owned_by device uuid (sec_acl s)) \<or>
      (oc_resource_match_uri ''/oic/sec/doxm'' uriv \<and> oc_uuid_is_equal (sec_doxm_rowner s device) uuid) \<or>
      (oc_resource_match_uri ''/oic/sec/pstat'' uriv \<and> oc_uuid_is_equal (sec_pstat_rowner s device) uuid) \<or>
      (oc_resource_match_uri ''/oic/sec/cred'' uriv \<and> oc_uuid_is_equal (creds_rowneruuid (sec_creds s device)) uuid))"

definition oc_sec_check_acl_in_rfotm_prior_to_doc :: "oc_method_t \<Rightarrow> oc_resource_t \<Rightarrow> bool" where
  "oc_sec_check_acl_in_rfotm_prior_to_doc meth resource =
     (oc_resource_match_uri ''/oic/sec/doxm'' (r_uri resource) \<or>
      (meth = OC_GET \<and> oc_resource_match_uri ''/oic/sec/pstat'' (r_uri resource)))"

text \<open>
  The decision and the roles of the peer afterwards. The mask of the states RFPRO, RFNOP and
  SRESET is written as a disjunction.
\<close>

definition oc_sec_check_acl ::
  "build_cfg \<Rightarrow> sec_state \<Rightarrow> oc_method_t \<Rightarrow> oc_resource_t \<Rightarrow> oc_endpoint_t \<Rightarrow> bool \<times> oc_sec_cred_t list" where
  "oc_sec_check_acl cfg s meth resource endpoint =
     (let dos = sec_dos s (ep_device endpoint);
          unsecured = (ep_flags endpoint AND SECURED = 0);
          peer = oc_tls_get_peer s endpoint;
          roles = (case peer of None \<Rightarrow> [] | Some p \<Rightarrow> peer_roles p);
          is_DCR = oc_core_is_DCR cfg (sec_num_devices s) resource (r_device resource);
          is_vertical = (\<not> is_DCR \<and> oc_core_is_vertical_resource cfg (sec_num_devices s) resource (r_device resource));
          is_SVR = oc_core_is_SVR cfg (sec_num_devices s) resource (r_device resource);
          provisioned = (dos = OC_DOS_RFPRO \<or> dos = OC_DOS_RFNOP \<or> dos = OC_DOS_SRESET)
      in if dos = OC_DOS_RFOTM \<and> unsecured \<and> oc_tls_num_peers s (ep_device endpoint) = 1 then (False, roles)
         else if dos = OC_DOS_RFOTM \<and> unsecured \<and> oc_resource_access_in_rfotm cfg \<and>
                 r_properties resource AND OC_ACCESS_IN_RFOTM = OC_ACCESS_IN_RFOTM \<and>
                 eval_access meth (r_anon_permission_in_rfotm resource) then (True, roles)
         else if \<not> is_DCR \<and> dos \<noteq> OC_DOS_RFNOP then (False, roles)
         else if is_vertical \<and> unsecured then (False, roles)
         else if is_DCR \<and> (case peer of None \<Rightarrow> False | Some p \<Rightarrow> peer_doc p) then (True, roles)
         else if meth = OC_GET \<and> oc_sec_check_acl_on_get cfg resource (dos = OC_DOS_RFOTM) then (True, roles)
         else if dos = OC_DOS_RFOTM \<and> oc_tls_num_peers s (ep_device endpoint) = 0 then
           (oc_sec_check_acl_in_rfotm_prior_to_doc meth resource, roles)
         else if is_SVR \<and> unsecured \<and> provisioned then (False, roles)
         else if oc_sec_check_acl_by_uuid s (ep_di endpoint) (ep_device endpoint) resource then (True, roles)
         else if oc_pki cfg \<and> oc_resource_match_uri ''/oic/sec/roles'' (r_uri resource) \<and> provisioned then (True, roles)
         else oc_sec_check_acl_by_permissions s cfg meth resource is_DCR is_SVR endpoint peer)"

end
