(* ===== verification/OcAccessDecision.thy ===== *)
theory OcAccessDecision
  imports OcAccess
begin

text \<open>
  What the access decision of \<open>security/oc_acl_util.c\<close> means: the loops over the entries, credentials and
  roles are related to the set of entries of the access control list, and the decision is
  characterised by the entries that name the requester and cover the resource.
\<close>

subsection \<open>What an entry contributes\<close>

text \<open>The permissions of which a method needs one.\<close>

definition method_mask :: "oc_method_t \<Rightarrow> u16" where
  "method_mask meth =
     (case meth of OC_GET \<Rightarrow> OC_PERM_RETRIEVE OR OC_PERM_NOTIFY | OC_POST \<Rightarrow> OC_PERM_CREATE OR OC_PERM_UPDATE
      | OC_PUT \<Rightarrow> OC_PERM_CREATE OR OC_PERM_UPDATE | OC_DELETE \<Rightarrow> OC_PERM_DELETE | OC_FETCH \<Rightarrow> 0)"

lemma and_or_nonzero: "(a OR b) AND k \<noteq> 0 \<longleftrightarrow> a AND k \<noteq> 0 \<or> b AND k \<noteq> 0" for a b k :: "'a :: len word"
  by (simp add: bit.conj_disj_distrib2 or_eq_0_iff)

lemma and_or_nonzero': "k AND (a OR b) \<noteq> 0 \<longleftrightarrow> k AND a \<noteq> 0 \<or> k AND b \<noteq> 0" for a b k :: "'a :: len word"
  by (simp add: bit.conj_disj_distrib or_eq_0_iff)

lemma eval_access_iff: "eval_access meth p \<longleftrightarrow> p AND method_mask meth \<noteq> 0"
proof (cases "p = 0")
  case False
  have "p AND 18 \<noteq> 0 \<longleftrightarrow> p AND 2 \<noteq> 0 \<or> p AND 16 \<noteq> 0" "p AND 5 \<noteq> 0 \<longleftrightarrow> p AND 1 \<noteq> 0 \<or> p AND 4 \<noteq> 0"
    using and_or_nonzero' [of p 2 16] and_or_nonzero' [of p 1 4] by simp_all
  with False show ?thesis
    by (cases meth) (simp_all add: eval_access_def method_mask_def)
qed (simp add: eval_access_def)

definition covers :: "oc_sec_ace_t \<Rightarrow> oc_resource_t \<Rightarrow> bool \<Rightarrow> bool \<Rightarrow> bool" where
  "covers ace resource is_DCR is_public \<longleftrightarrow>
     (\<exists>r \<in> set (ace_resources ace). res_matches r (r_uri resource) (resource_wildcard resource is_DCR is_public))"

lemma permission_loop_eq: "permission_loop ace uri wc res p = (if res = [] then p else p OR ace_permission ace)"
proof (induction ace uri wc res p rule: permission_loop.induct)
  case (1 ace uri wc res p)
  then show ?case
    by (subst permission_loop.simps) (auto simp: or.assoc)
qed

lemma oc_ace_get_permission_eq:
  "oc_ace_get_permission ace resource is_DCR is_public = (if covers ace resource is_DCR is_public then ace_permission ace else 0)"
  by (simp add: oc_ace_get_permission_def Let_def permission_loop_eq oc_sec_ace_find_resource_def covers_def
      ace_res_find_resource_dropWhile dropWhile_eq_Nil_conv)

lemma bex_dropWhile_Cons:
  assumes "dropWhile (\<lambda>x. \<not> P x) xs = y # ys"
  shows "(\<exists>x \<in> set xs. P x \<and> Q x) \<longleftrightarrow> Q y \<or> (\<exists>x \<in> set ys. P x \<and> Q x)"
proof -
  have "set xs = set (takeWhile (\<lambda>x. \<not> P x) xs) \<union> insert y (set ys)"
    using assms takeWhile_dropWhile_id [of "\<lambda>x. \<not> P x" xs] by (metis list.simps(15) set_append)
  moreover have "P y"
    using assms by (simp add: dropWhile_eq_Cons_conv)
  moreover have "\<forall>x \<in> set (takeWhile (\<lambda>x. \<not> P x) xs). \<not> P x"
    using set_takeWhileD by fastforce
  ultimately show ?thesis
    by blast
qed

text \<open>The bits collected for a subject are those of the entries that name it and cover the resource.\<close>

lemma subject_loop_iff:
  "subject_loop subject resource is_DCR is_public aces p AND k \<noteq> 0 \<longleftrightarrow>
     p AND k \<noteq> 0 \<or> (\<exists>ace \<in> set aces. oc_ace_has_matching_subject ace subject \<and>
       covers ace resource is_DCR is_public \<and> ace_permission ace AND k \<noteq> 0)"
proof (induction subject resource is_DCR is_public aces p rule: subject_loop.induct)
  case (1 subject resource is_DCR is_public aces p)
  have sel: "ace_selected ace subject (-1) 0 None False \<longleftrightarrow> oc_ace_has_matching_subject ace subject" for ace
    by (simp add: ace_selected_def)
  show ?case
  proof (cases "oc_sec_ace_find_subject aces subject (-1) 0 None False")
    case Nil
    then have "\<forall>ace \<in> set aces. \<not> oc_ace_has_matching_subject ace subject"
      by (simp add: oc_sec_ace_find_subject_dropWhile sel dropWhile_eq_Nil_conv)
    moreover have "subject_loop subject resource is_DCR is_public aces p = p"
      by (subst subject_loop.simps) (simp add: Nil)
    ultimately show ?thesis
      by auto
  next
    case (Cons ace rest)
    have e: "(\<exists>a \<in> set aces. oc_ace_has_matching_subject a subject \<and> Q a) \<longleftrightarrow>
        Q ace \<or> (\<exists>a \<in> set rest. oc_ace_has_matching_subject a subject \<and> Q a)" for Q
      using Cons by (intro bex_dropWhile_Cons) (simp add: oc_sec_ace_find_subject_dropWhile sel)
    have step: "subject_loop subject resource is_DCR is_public aces p =
        subject_loop subject resource is_DCR is_public rest (p OR oc_ace_get_permission ace resource is_DCR is_public)"
      by (subst subject_loop.simps) (simp only: Cons list.case)
    show ?thesis
      unfolding step 1 [OF Cons] e and_or_nonzero by (auto simp: oc_ace_get_permission_eq)
  qed
qed

lemma subject_permissions_iff:
  "subject_permissions s subject resource device is_DCR is_public AND k \<noteq> 0 \<longleftrightarrow>
     (\<exists>ace \<in> set (subjects_of (sec_acl s) device). oc_ace_has_matching_subject ace subject \<and>
       covers ace resource is_DCR is_public \<and> ace_permission ace AND k \<noteq> 0)"
  by (simp add: subject_permissions_def subject_loop_iff)

subsection \<open>Roles\<close>

definition psk_cred :: "build_cfg \<Rightarrow> oc_uuid \<Rightarrow> oc_sec_cred_t \<Rightarrow> bool" where
  "psk_cred cfg uuid cred \<longleftrightarrow>
     cred_type cred = OC_CREDTYPE_PSK \<and> (oc_pki cfg \<longrightarrow> cred_usage cred = OC_CREDUSAGE_NULL) \<and>
     oc_uuid_is_equal (cred_subjectuuid cred) uuid"

lemma oc_sec_find_cred_psk:
  "oc_sec_find_cred s cfg start uuid OC_CREDTYPE_PSK OC_CREDUSAGE_NULL device =
     dropWhile (\<lambda>c. \<not> psk_cred cfg uuid c) (if start = [] then creds_list (sec_creds s device) else start)"
  by (simp add: oc_sec_find_cred_def psk_cred_def)

lemma psk_loop_iff:
  assumes "creds = dropWhile (\<lambda>c. \<not> psk_cred cfg (ep_di endpoint) c) cs"
  shows "psk_loop s cfg resource is_DCR is_public endpoint creds p AND k \<noteq> 0 \<longleftrightarrow>
     p AND k \<noteq> 0 \<or> (\<exists>c \<in> set cs. psk_cred cfg (ep_di endpoint) c \<and> str_of (cred_role c) \<noteq> [] \<and>
       get_role_permissions s c resource (ep_device endpoint) is_DCR is_public AND k \<noteq> 0)"
  using assms
proof (induction "length cs" arbitrary: cs creds p rule: less_induct)
  case less
  show ?case
  proof (cases creds)
    case Nil
    then have "\<forall>c \<in> set cs. \<not> psk_cred cfg (ep_di endpoint) c"
      using less.prems by (simp add: dropWhile_eq_Nil_conv)
    moreover have "psk_loop s cfg resource is_DCR is_public endpoint creds p = p"
      by (subst psk_loop.simps) (simp add: Nil)
    ultimately show ?thesis
      by auto
  next
    case (Cons c rest)
    have d: "dropWhile (\<lambda>c. \<not> psk_cred cfg (ep_di endpoint) c) cs = c # rest"
      using less.prems Cons by simp
    have e: "(\<exists>c \<in> set cs. psk_cred cfg (ep_di endpoint) c \<and> Q c) \<longleftrightarrow>
        Q c \<or> (\<exists>c \<in> set rest. psk_cred cfg (ep_di endpoint) c \<and> Q c)" for Q
      using d by (rule bex_dropWhile_Cons)
    have l: "length rest < length cs"
      using length_dropWhile_le [of "\<lambda>c. \<not> psk_cred cfg (ep_di endpoint) c" cs] d by simp
    let ?p = "if str_of (cred_role c) \<noteq> [] then p OR get_role_permissions s c resource (ep_device endpoint) is_DCR is_public else p"
    have p: "?p AND k \<noteq> 0 \<longleftrightarrow> p AND k \<noteq> 0 \<or> str_of (cred_role c) \<noteq> [] \<and>
        get_role_permissions s c resource (ep_device endpoint) is_DCR is_public AND k \<noteq> 0"
      by (simp add: and_or_nonzero)
    show ?thesis
    proof (cases "rest = []")
      case True
      have "psk_loop s cfg resource is_DCR is_public endpoint creds p = ?p"
        by (subst psk_loop.simps) (simp only: Cons True list.case Let_def oc_string_is_empty_iff if_True simp_thms)
      with p True show ?thesis
        unfolding e by simp
    next
      case False
      have "psk_loop s cfg resource is_DCR is_public endpoint creds p =
          psk_loop s cfg resource is_DCR is_public endpoint (dropWhile (\<lambda>c. \<not> psk_cred cfg (ep_di endpoint) c) rest) ?p"
        by (subst psk_loop.simps) (simp only: Cons False list.case Let_def oc_string_is_empty_iff if_False oc_sec_find_cred_psk)
      then show ?thesis
        unfolding e less.hyps [OF l refl, of ?p, symmetric] by (simp only: less.hyps [OF l refl] p) blast
    qed
  qed
qed

lemma role_loop_iff:
  "fst (role_loop s resource is_DCR is_public device roles p) AND k \<noteq> 0 \<longleftrightarrow>
    (if \<exists>c \<in> set roles. cred_valid c \<and> str_of (cred_role c) = ''oic.role.owner'' then 0x1F AND k \<noteq> 0
     else p AND k \<noteq> 0 \<or> (\<exists>c \<in> set roles. cred_valid c \<and> get_role_permissions s c resource device is_DCR is_public AND k \<noteq> 0))"
proof (induction roles arbitrary: p)
  case (Cons c roles)
  let ?g = "get_role_permissions s c resource device is_DCR is_public"
  consider "\<not> cred_valid c" | "cred_valid c" "str_of (cred_role c) = ''oic.role.owner''"
    | "cred_valid c" "str_of (cred_role c) \<noteq> ''oic.role.owner''"
    by blast
  then show ?case
  proof cases
    case 3
    then have "fst (role_loop s resource is_DCR is_public device (c # roles) p) =
        fst (role_loop s resource is_DCR is_public device roles (p OR ?g))"
      by (simp split: prod.split)
    with 3 show ?thesis
      by (simp add: Cons.IH and_or_nonzero) blast
  next
    case 1
    then show ?thesis
      by (simp add: Cons.IH) blast
  qed simp
qed simp

subsection \<open>Who is granted access\<close>

text \<open>The roles of a peer: of its pre-shared keys, or of the valid certificates it has asserted.\<close>

definition has_role :: "build_cfg \<Rightarrow> sec_state \<Rightarrow> oc_endpoint_t \<Rightarrow> oc_tls_peer_t \<Rightarrow> oc_sec_cred_t \<Rightarrow> bool" where
  "has_role cfg s endpoint p c \<longleftrightarrow>
     (peer_psk p \<and> c \<in> set (creds_list (sec_creds s (ep_device endpoint))) \<and> psk_cred cfg (ep_di endpoint) c \<and>
        str_of (cred_role c) \<noteq> []) \<or>
     (\<not> peer_psk p \<and> oc_pki cfg \<and> c \<in> set (peer_roles p) \<and> cred_valid c)"

definition owner_role :: "build_cfg \<Rightarrow> oc_tls_peer_t option \<Rightarrow> bool" where
  "owner_role cfg peer \<longleftrightarrow>
     (\<exists>p c. peer = Some p \<and> \<not> peer_psk p \<and> oc_pki cfg \<and> c \<in> set (peer_roles p) \<and> cred_valid c \<and>
        str_of (cred_role c) = ''oic.role.owner'')"

text \<open>An entry names the requester by its identifier, by one of its roles, or by the kind of connection;
  the latter does not count for security resources.\<close>

definition names_requester ::
  "build_cfg \<Rightarrow> sec_state \<Rightarrow> oc_endpoint_t \<Rightarrow> oc_tls_peer_t option \<Rightarrow> bool \<Rightarrow> oc_sec_ace_t \<Rightarrow> bool" where
  "names_requester cfg s endpoint peer is_SVR ace \<longleftrightarrow>
     oc_ace_has_matching_subject ace (OC_SUBJECT_UUID (ep_di endpoint)) \<or>
     (\<exists>p c. peer = Some p \<and> has_role cfg s endpoint p c \<and>
        oc_ace_has_matching_subject ace (OC_SUBJECT_ROLE (cred_role c) (cred_authority c))) \<or>
     (\<not> is_SVR \<and> (ep_flags endpoint AND SECURED \<noteq> 0 \<and> oc_ace_has_matching_subject ace (OC_SUBJECT_CONN OC_CONN_AUTH_CRYPT) \<or>
        oc_ace_has_matching_subject ace (OC_SUBJECT_CONN OC_CONN_ANON_CLEAR)))"

definition entry_grants ::
  "build_cfg \<Rightarrow> sec_state \<Rightarrow> oc_method_t \<Rightarrow> oc_resource_t \<Rightarrow> bool \<Rightarrow> bool \<Rightarrow> oc_endpoint_t \<Rightarrow> oc_tls_peer_t option \<Rightarrow>
   oc_sec_ace_t \<Rightarrow> bool" where
  "entry_grants cfg s meth resource is_DCR is_SVR endpoint peer ace \<longleftrightarrow>
     names_requester cfg s endpoint peer is_SVR ace \<and>
     covers ace resource is_DCR (r_properties resource AND OC_SECURE = 0) \<and>
     ace_permission ace AND method_mask meth \<noteq> 0"

lemma peer_permissions_iff:
  "fst (get_peer_permissions s cfg resource is_DCR is_public endpoint p) AND k \<noteq> 0 \<longleftrightarrow>
     (if owner_role cfg (Some p) then 0x1F AND k \<noteq> 0
      else \<exists>c. has_role cfg s endpoint p c \<and>
        get_role_permissions s c resource (ep_device endpoint) is_DCR is_public AND k \<noteq> 0)"
proof (cases "peer_psk p")
  case True
  then have "\<not> owner_role cfg (Some p)"
    by (simp add: owner_role_def)
  with True show ?thesis
    by (auto simp: get_peer_permissions_def oc_sec_find_cred_psk psk_loop_iff [OF refl] has_role_def)
next
  case False
  show ?thesis
  proof (cases "oc_pki cfg")
    case True
    have "(\<exists>c \<in> set (peer_roles p). cred_valid c \<and> str_of (cred_role c) = ''oic.role.owner'') \<longleftrightarrow> owner_role cfg (Some p)"
      using False True by (auto simp: owner_role_def)
    with False True show ?thesis
      by (simp add: get_peer_permissions_def role_loop_iff has_role_def) blast
  next
    case pki: False
    with False show ?thesis
      by (simp add: get_peer_permissions_def owner_role_def has_role_def)
  qed
qed

lemma method_mask_owner: "0x1F AND method_mask meth \<noteq> 0 \<longleftrightarrow> meth \<noteq> OC_FETCH"
  by (cases meth) (simp_all add: method_mask_def)

lemma granted_by_permissions_iff:
  "fst (oc_sec_check_acl_by_permissions s cfg meth resource is_DCR is_SVR endpoint peer) \<longleftrightarrow>
     (\<exists>ace \<in> set (subjects_of (sec_acl s) (ep_device endpoint)).
        entry_grants cfg s meth resource is_DCR is_SVR endpoint peer ace) \<or>
     owner_role cfg peer \<and> meth \<noteq> OC_FETCH"
proof -
  let ?pub = "r_properties resource AND OC_SECURE = 0"
  let ?k = "method_mask meth"
  let ?A = "set (subjects_of (sec_acl s) (ep_device endpoint))"
  let ?E = "\<lambda>subject. \<exists>ace \<in> ?A. oc_ace_has_matching_subject ace subject \<and> covers ace resource is_DCR ?pub \<and> ace_permission ace AND ?k \<noteq> 0"
  have E: "subject_permissions s subject resource (ep_device endpoint) is_DCR ?pub AND ?k \<noteq> 0 \<longleftrightarrow> ?E subject" for subject
    by (rule subject_permissions_iff)
  let ?pp = "fst (case peer of None \<Rightarrow> (0, []) | Some p \<Rightarrow> get_peer_permissions s cfg resource is_DCR ?pub endpoint p) AND ?k \<noteq> 0"
  have peer: "?pp \<longleftrightarrow> (if owner_role cfg peer then meth \<noteq> OC_FETCH
      else \<exists>p c. peer = Some p \<and> has_role cfg s endpoint p c \<and> ?E (OC_SUBJECT_ROLE (cred_role c) (cred_authority c)))"
  proof (cases peer)
    case None
    then show ?thesis
      by (simp add: owner_role_def)
  next
    case (Some p)
    then show ?thesis
      by (simp add: peer_permissions_iff method_mask_owner get_role_permissions_def E)
  qed
  have conn: "(if is_SVR then 0 else get_conn_permissions s resource is_DCR ?pub endpoint) AND ?k \<noteq> 0 \<longleftrightarrow>
      \<not> is_SVR \<and> (ep_flags endpoint AND SECURED \<noteq> 0 \<and> ?E (OC_SUBJECT_CONN OC_CONN_AUTH_CRYPT) \<or> ?E (OC_SUBJECT_CONN OC_CONN_ANON_CLEAR))"
    unfolding get_conn_permissions_def
    by (cases is_SVR; cases "ep_flags endpoint AND SECURED = 0")
       (simp_all only: if_True if_False and_or_nonzero E simp_thms zero_and_eq)
  have "fst (oc_sec_check_acl_by_permissions s cfg meth resource is_DCR is_SVR endpoint peer) \<longleftrightarrow>
      ?E (OC_SUBJECT_UUID (ep_di endpoint)) \<or> ?pp \<or>
      \<not> is_SVR \<and> (ep_flags endpoint AND SECURED \<noteq> 0 \<and> ?E (OC_SUBJECT_CONN OC_CONN_AUTH_CRYPT) \<or> ?E (OC_SUBJECT_CONN OC_CONN_ANON_CLEAR))"
    unfolding oc_sec_check_acl_by_permissions_def Let_def case_prod_beta fst_conv eval_access_iff and_or_nonzero E conn ..
  also have "\<dots> \<longleftrightarrow> (\<exists>ace \<in> ?A. entry_grants cfg s meth resource is_DCR is_SVR endpoint peer ace) \<or>
      owner_role cfg peer \<and> meth \<noteq> OC_FETCH"
  proof -
    have f: "meth = OC_FETCH \<Longrightarrow> \<not> ?E subject" for subject
      by (simp add: method_mask_def)
    have "(\<exists>ace \<in> ?A. entry_grants cfg s meth resource is_DCR is_SVR endpoint peer ace) \<longleftrightarrow>
        ?E (OC_SUBJECT_UUID (ep_di endpoint)) \<or>
        (\<exists>p c. peer = Some p \<and> has_role cfg s endpoint p c \<and> ?E (OC_SUBJECT_ROLE (cred_role c) (cred_authority c))) \<or>
        \<not> is_SVR \<and> (ep_flags endpoint AND SECURED \<noteq> 0 \<and> ?E (OC_SUBJECT_CONN OC_CONN_AUTH_CRYPT) \<or> ?E (OC_SUBJECT_CONN OC_CONN_ANON_CLEAR))"
      by (simp only: entry_grants_def names_requester_def) blast
    then show ?thesis
      unfolding peer using f by (cases "owner_role cfg peer"; cases "meth = OC_FETCH") auto
  qed
  finally show ?thesis .
qed
subsection \<open>Access in normal operation\<close>

lemma access_in_RFNOP_iff:
  assumes "sec_dos s (ep_device endpoint) = OC_DOS_RFNOP" and "ep_flags endpoint AND SECURED \<noteq> 0"
    and "\<not> oc_core_is_DCR cfg (sec_num_devices s) resource (r_device resource)"
  shows "fst (oc_sec_check_acl cfg s meth resource endpoint) \<longleftrightarrow>
    (\<exists>ace \<in> set (subjects_of (sec_acl s) (ep_device endpoint)).
       entry_grants cfg s meth resource False False endpoint (oc_tls_get_peer s endpoint) ace) \<or>
    owner_role cfg (oc_tls_get_peer s endpoint) \<and> meth \<noteq> OC_FETCH \<or>
    meth = OC_GET \<and> oc_sec_check_acl_on_get cfg resource False \<or>
    oc_sec_check_acl_by_uuid s (ep_di endpoint) (ep_device endpoint) resource \<or>
    oc_pki cfg \<and> oc_resource_match_uri ''/oic/sec/roles'' (r_uri resource)"
proof -
  have "\<not> oc_core_is_SVR cfg (sec_num_devices s) resource (r_device resource)"
    using assms(3) SVR_is_DCR by blast
  then have "oc_sec_check_acl cfg s meth resource endpoint =
    (if meth = OC_GET \<and> oc_sec_check_acl_on_get cfg resource False \<or>
        oc_sec_check_acl_by_uuid s (ep_di endpoint) (ep_device endpoint) resource \<or>
        oc_pki cfg \<and> oc_resource_match_uri ''/oic/sec/roles'' (r_uri resource)
     then (True, case oc_tls_get_peer s endpoint of None \<Rightarrow> [] | Some p \<Rightarrow> peer_roles p)
     else oc_sec_check_acl_by_permissions s cfg meth resource False False endpoint (oc_tls_get_peer s endpoint))"
    using assms by (simp add: oc_sec_check_acl_def Let_def)
  then show ?thesis
    using granted_by_permissions_iff [of s cfg meth resource False False endpoint "oc_tls_get_peer s endpoint"] by auto
qed

text \<open>
  C7. In normal operation (RFNOP) a request over a secured connection to a resource of the application is
  granted exactly when some entry of the access control list names the requester (by its
  identifier, by a role that its keys or its valid certificates give it, or by the kind of
  connection), covers the resource by its path or by a wildcard that fits its discoverability and
  security, and carries a permission that the method needs; or when the peer has asserted the
  owner role and the method is not FETCH; or when one of the rules for fixed paths applies.
\<close>

theorem access_in_normal_operation:
  assumes "sec_dos s (ep_device endpoint) = OC_DOS_RFNOP" and "ep_flags endpoint AND SECURED \<noteq> 0"
    and "\<not> oc_core_is_DCR cfg (sec_num_devices s) resource (r_device resource)"
  shows "fst (oc_sec_check_acl cfg s meth resource endpoint) \<longleftrightarrow>
    (\<exists>ace \<in> set (subjects_of (sec_acl s) (ep_device endpoint)).
       entry_grants cfg s meth resource False False endpoint (oc_tls_get_peer s endpoint) ace) \<or>
    owner_role cfg (oc_tls_get_peer s endpoint) \<and> meth \<noteq> OC_FETCH \<or>
    meth = OC_GET \<and> oc_sec_check_acl_on_get cfg resource False \<or>
    oc_sec_check_acl_by_uuid s (ep_di endpoint) (ep_device endpoint) resource \<or>
    oc_pki cfg \<and> oc_resource_match_uri ''/oic/sec/roles'' (r_uri resource)"
  using assms by (rule access_in_RFNOP_iff)

definition example_ace :: oc_sec_ace_t where
  "example_ace = \<lparr>ace_resources = [\<lparr>res_href = Some ''/light'', res_wildcard = 0\<rparr>],
     ace_subject = OC_SUBJECT_UUID (replicate 16 7), aceid = 1, ace_permission = 2, ace_tag = None\<rparr>"

definition example_endpoint :: "u32 \<Rightarrow> oc_endpoint_t" where
  "example_endpoint flags = \<lparr>ep_device = 0, ep_flags = flags, ep_di = replicate 16 7, ep_address = replicate 16 1,
     ep_port = 5684, ep_session_id = 0\<rparr>"

definition example_sec :: "oc_dostype_t \<Rightarrow> sec_state" where
  "example_sec dos = \<lparr>sec_num_devices = 1, sec_dos = (\<lambda>_. dos),
     sec_acl = \<lparr>g_aclist = (\<lambda>_. \<lparr>acl_subjects = [example_ace], acl_rowneruuid = replicate 16 9\<rparr>),
       g_ace_l_free = 10, g_res_l_free = 10, random_used = 0\<rparr>,
     sec_doxm_rowner = (\<lambda>_. replicate 16 9), sec_pstat_rowner = (\<lambda>_. replicate 16 9),
     sec_creds = (\<lambda>_. \<lparr>creds_list = [], creds_rowneruuid = replicate 16 9\<rparr>), sec_tls_peers = []\<rparr>"

definition example_resource :: oc_resource_t where
  "example_resource = \<lparr>r_core = None, r_device = 0, r_uri = Some ''/light'', r_properties = 1, r_anon_permission_in_rfotm = 0\<rparr>"

definition example_build :: build_cfg where
  "example_build = \<lparr>oc_plgd_time = True, oc_introspection = False, oc_wkcore = False, oc_mnt = False, oc_cloud = False,
     oc_software_update = False, oc_pki = True, oc_resource_access_in_rfotm = False\<rparr>"

lemma example_resource_vertical:
  "oc_core_is_DCR example_build n example_resource d = False"
  by (simp add: oc_core_is_DCR_def core_is_platform_resource_def core_between_iff example_resource_def list_ex_iff Let_def)

lemma access_in_normal_operation_witness:
  "fst (oc_sec_check_acl example_build (example_sec OC_DOS_RFNOP) OC_GET example_resource (example_endpoint 10)) \<and>
   \<not> fst (oc_sec_check_acl example_build (example_sec OC_DOS_RFNOP) OC_DELETE example_resource (example_endpoint 10))"
proof -
  let ?s = "example_sec OC_DOS_RFNOP" and ?ep = "example_endpoint 10"
  have sub: "subjects_of (sec_acl ?s) (ep_device ?ep) = [example_ace]"
    by (simp add: example_sec_def subjects_of_def)
  have peer: "oc_tls_get_peer ?s ?ep = None"
    by (simp add: oc_tls_get_peer_def example_sec_def)
  have gr: "entry_grants example_build ?s meth example_resource False False ?ep None example_ace \<longleftrightarrow> meth = OC_GET" for meth
    by (cases meth) (simp_all add: entry_grants_def names_requester_def oc_ace_has_matching_subject_def example_ace_def
        example_endpoint_def oc_uuid_is_equal_def covers_def example_resource_def res_matches_def oc_resource_match_uri_def
        method_mask_def)
  have others: "\<not> oc_sec_check_acl_on_get example_build example_resource False"
    "\<not> oc_sec_check_acl_by_uuid ?s (ep_di ?ep) (ep_device ?ep) example_resource"
    "\<not> oc_resource_match_uri ''/oic/sec/roles'' (r_uri example_resource)" "\<not> owner_role example_build None"
    by (simp_all add: oc_sec_check_acl_on_get_def oc_sec_check_acl_by_uuid_def oc_resource_match_uri_def example_resource_def
        owner_role_def)
  have h: "sec_dos ?s (ep_device ?ep) = OC_DOS_RFNOP" "ep_flags ?ep AND SECURED \<noteq> 0"
    "\<not> oc_core_is_DCR example_build (sec_num_devices ?s) example_resource (r_device example_resource)"
    by (simp_all add: example_sec_def example_endpoint_def example_resource_vertical)
  show ?thesis
    using access_in_normal_operation [OF h, of OC_GET] access_in_normal_operation [OF h, of OC_DELETE]
    by (simp add: sub peer gr others)
qed

subsection \<open>Access that is never granted\<close>

lemma same_secured_flag:
  assumes "oc_endpoint_compare ep1 ep2 = 0"
  shows "ep_flags ep1 AND SECURED = ep_flags ep2 AND SECURED"
proof -
  have e: "ep_flags ep1 AND NOT (MULTICAST OR ACCEPTED) = ep_flags ep2 AND NOT (MULTICAST OR ACCEPTED)"
    using assms by (simp add: oc_endpoint_compare_def split: if_splits)
  have s: "NOT (MULTICAST OR ACCEPTED) AND SECURED = (SECURED :: u32)"
    by simp
  have "ep_flags ep1 AND SECURED = (ep_flags ep1 AND NOT (MULTICAST OR ACCEPTED)) AND SECURED"
    by (simp only: and.assoc s)
  also have "\<dots> = ep_flags ep2 AND SECURED"
    by (simp only: e and.assoc s)
  finally show ?thesis .
qed

lemma unsecured_no_peer:
  assumes "ep_flags endpoint AND SECURED = 0" and "\<forall>p \<in> set (sec_tls_peers s). ep_flags (peer_endpoint p) AND SECURED \<noteq> 0"
  shows "oc_tls_get_peer s endpoint = None"
proof (rule ccontr)
  assume "oc_tls_get_peer s endpoint \<noteq> None"
  then obtain p where "p \<in> set (sec_tls_peers s)" "oc_endpoint_compare (peer_endpoint p) endpoint = 0"
    unfolding oc_tls_get_peer_def by (auto simp: find_Some_iff intro: nth_mem)
  then show False
    using assms same_secured_flag by fastforce
qed

text \<open>A resource of an application that the build opens for anonymous requests before onboarding.\<close>

definition open_in_rfotm :: "build_cfg \<Rightarrow> oc_method_t \<Rightarrow> oc_resource_t \<Rightarrow> bool" where
  "open_in_rfotm cfg meth resource \<longleftrightarrow>
     oc_resource_access_in_rfotm cfg \<and> r_properties resource AND OC_ACCESS_IN_RFOTM = OC_ACCESS_IN_RFOTM \<and>
     eval_access meth (r_anon_permission_in_rfotm resource)"

text \<open>
  C9. Whatever the access control list contains: outside normal operation only configuration resources
  are accessible, and the resources of applications are never accessible over an unsecured
  connection (both apart from resources that are opened explicitly before onboarding); before
  onboarding an unsecured request is denied while the onboarding session is open, and without a
  session it is granted only for the fixed paths of discovery, doxm and for reading pstat; and
  security resources are not accessible over an unsecured connection once the device has been
  onboarded. The hypothesis on the sessions says that TLS sessions run over secured endpoints.
\<close>

theorem access_denied:
  assumes "\<forall>p \<in> set (sec_tls_peers s). ep_flags (peer_endpoint p) AND SECURED \<noteq> 0"
    and "dos = sec_dos s (ep_device endpoint)" and "unsecured \<longleftrightarrow> ep_flags endpoint AND SECURED = 0"
    and "granted \<longleftrightarrow> fst (oc_sec_check_acl cfg s meth resource endpoint)"
    and "dcr \<longleftrightarrow> oc_core_is_DCR cfg (sec_num_devices s) resource (r_device resource)"
  shows "(\<not> dcr \<and> dos \<noteq> OC_DOS_RFNOP \<and> granted \<longrightarrow> dos = OC_DOS_RFOTM \<and> unsecured \<and> open_in_rfotm cfg meth resource) \<and>
    (\<not> dcr \<and> oc_core_is_vertical_resource cfg (sec_num_devices s) resource (r_device resource) \<and> unsecured \<and> granted \<longrightarrow>
       dos = OC_DOS_RFOTM \<and> open_in_rfotm cfg meth resource) \<and>
    (dos = OC_DOS_RFOTM \<and> unsecured \<and> oc_tls_num_peers s (ep_device endpoint) = 1 \<longrightarrow> \<not> granted) \<and>
    (dos = OC_DOS_RFOTM \<and> unsecured \<and> oc_tls_num_peers s (ep_device endpoint) = 0 \<and> granted \<longrightarrow>
       open_in_rfotm cfg meth resource \<or> meth = OC_GET \<and> oc_sec_check_acl_on_get cfg resource True \<or>
       oc_sec_check_acl_in_rfotm_prior_to_doc meth resource) \<and>
    (oc_core_is_SVR cfg (sec_num_devices s) resource (r_device resource) \<and> unsecured \<and>
       dos \<in> {OC_DOS_RFPRO, OC_DOS_RFNOP, OC_DOS_SRESET} \<and> granted \<longrightarrow>
       meth = OC_GET \<and> oc_sec_check_acl_on_get cfg resource False)"
proof -
  have peer: "unsecured \<Longrightarrow> oc_tls_get_peer s endpoint = None"
    using unsecured_no_peer assms(1,3) by blast
  have svr: "oc_core_is_SVR cfg (sec_num_devices s) resource (r_device resource) \<Longrightarrow> dcr"
    using assms(5) SVR_is_DCR by blast
  show ?thesis
    using peer svr unfolding assms(4) oc_sec_check_acl_def Let_def assms(2,3,5) [symmetric] open_in_rfotm_def
    by (intro conjI impI) (auto split: if_splits)
qed

lemma access_denied_witness:
  "\<not> fst (oc_sec_check_acl example_build (example_sec OC_DOS_RFPRO) OC_GET example_resource (example_endpoint 10)) \<and>
   \<not> fst (oc_sec_check_acl example_build (example_sec OC_DOS_RFNOP) OC_GET example_resource (example_endpoint 8))"
proof -
  have v: "oc_core_is_vertical_resource example_build (sec_num_devices (example_sec d)) example_resource (r_device example_resource)"
    for d
    by (simp add: oc_core_is_vertical_resource_def core_between_iff example_resource_def example_sec_def Let_def)
  have p: "\<forall>p \<in> set (sec_tls_peers (example_sec d)). ep_flags (peer_endpoint p) AND SECURED \<noteq> 0" for d
    by (simp add: example_sec_def)
  have dos: "sec_dos (example_sec d) n = d" and flags: "ep_flags (example_endpoint f) = f" for d n f
    by (simp_all add: example_sec_def example_endpoint_def)
  let ?g = "\<lambda>d f. fst (oc_sec_check_acl example_build (example_sec d) OC_GET example_resource (example_endpoint f))"
  note denied = access_denied [where cfg = example_build and meth = OC_GET and resource = example_resource,
      OF p refl refl refl refl, unfolded dos example_resource_vertical]
  have "\<not> ?g OC_DOS_RFPRO 10"
    using denied [THEN conjunct1, of OC_DOS_RFPRO "example_endpoint 10"] by (simp add: dos)
  moreover have "\<not> ?g OC_DOS_RFNOP 8"
    using denied [THEN conjunct2, THEN conjunct1, of OC_DOS_RFNOP "example_endpoint 8"]
    by (simp add: dos v flags)
  ultimately show ?thesis ..
qed

end
