(* ===== verification/OcProvisioning.thy ===== *)
theory OcProvisioning
  imports OcAclUpdate OcAccessDecision
begin

text \<open>
  The composition of the access control lists (\<open>src/security/oc_acl.c\<close>) with the access decision
  (\<open>src/security/oc_acl_util.c\<close>): which requests an update of the list affects.
\<close>

definition single_entry :: "oc_ace_subject_t \<times> u16 \<times> oc_string \<times> oc_ace_res_t \<Rightarrow> oc_sec_ace_t" where
  "single_entry g = (case g of (subject, permission, tag, r) \<Rightarrow>
     \<lparr>ace_resources = [r], ace_subject = subject, aceid = 0, ace_permission = permission, ace_tag = tag\<rparr>)"

lemma entry_grants_by_grants:
  "(\<exists>ace \<in> set aces. entry_grants cfg s meth resource is_DCR is_SVR endpoint peer ace) \<longleftrightarrow>
   (\<exists>g \<in> grants_of aces. entry_grants cfg s meth resource is_DCR is_SVR endpoint peer (single_entry g))"
  by (simp only: entry_grants_def names_requester_def oc_ace_has_matching_subject_def covers_def grants_of_def single_entry_def Bex_def
      mem_Collect_eq) (simp; blast)

lemma created_resource_ok:
  assumes "oc_sec_acl_update_res random subject aid permission tag href wc device s = Some (Some upd, s')" and "upd_created_resource upd"
  shows "res_ok \<lparr>res_href = href, res_wildcard = wc\<rparr>"
proof -
  have "acl_update subject aid permission tag href wc (subjects_of s device) (Some True) (subjects_of s' device)"
    using acl_update_refines [OF assms(1)] assms(2) by simp
  then show ?thesis
    by (cases rule: acl_update.cases) (auto elim: adds_resE)
qed

lemma new_grant_gives:
  assumes "length uuid = 16" and "length (ep_di endpoint) = 16" and "href \<noteq> []"
  shows "entry_grants cfg s meth resource False False endpoint peer
      (single_entry (OC_SUBJECT_UUID uuid, permission, tag, \<lparr>res_href = Some href, res_wildcard = 0\<rparr>)) \<longleftrightarrow>
    ep_di endpoint = uuid \<and> r_uri resource \<noteq> None \<and> oc_resource_match_uri href (r_uri resource) \<and> permission AND method_mask meth \<noteq> 0"
  using assms by (auto simp: entry_grants_def names_requester_def oc_ace_has_matching_subject_def single_entry_def covers_def
      res_matches_def oc_uuid_is_equal_def OC_UUID_ID_SIZE_def Let_def)

lemma sec_acl_update_elsewhere:
  "oc_tls_get_peer (s\<lparr>sec_acl := acl'\<rparr>) endpoint = oc_tls_get_peer s endpoint"
  "owners acl' = owners (sec_acl s) \<Longrightarrow>
     oc_sec_check_acl_by_uuid (s\<lparr>sec_acl := acl'\<rparr>) uuid device resource = oc_sec_check_acl_by_uuid s uuid device resource"
  "entry_grants cfg (s\<lparr>sec_acl := acl'\<rparr>) meth resource d v endpoint peer ace = entry_grants cfg s meth resource d v endpoint peer ace"
  by (simp_all add: oc_tls_get_peer_def oc_sec_check_acl_by_uuid_def oc_sec_acl_is_owned_by_def entry_grants_def names_requester_def
      has_role_def owners_def [abs_def] fun_eq_iff Let_def)

text \<open>
  C6. Provisioning and access control fit together: once an update has added a grant for a path to a
  device, the requests that are granted in normal operation over a secured connection are those
  that were granted before and those of the named device to resources with this path whose method
  needs one of the new permissions; no other request is affected.
\<close>

theorem provisioned_access:
  assumes "oc_sec_acl_update_res random (OC_SUBJECT_UUID uuid) aid permission tag (Some href) 0 device (sec_acl s) = Some (Some upd, acl')"
    and "upd_created_resource upd" and "permission \<noteq> 0" and "length uuid = 16"
    and "\<forall>ace \<in> set (subjects_of (sec_acl s) device). subject_wf (ace_subject ace)"
    and "sec_dos s device = OC_DOS_RFNOP" and "ep_device endpoint = device" and "ep_flags endpoint AND SECURED \<noteq> 0"
    and "length (ep_di endpoint) = 16" and "\<not> oc_core_is_DCR cfg (sec_num_devices s) resource (r_device resource)"
  shows "fst (oc_sec_check_acl cfg (s\<lparr>sec_acl := acl'\<rparr>) meth resource endpoint) \<longleftrightarrow>
    fst (oc_sec_check_acl cfg s meth resource endpoint) \<or>
    ep_di endpoint = uuid \<and> r_uri resource \<noteq> None \<and> oc_resource_match_uri href (r_uri resource) \<and> permission AND method_mask meth \<noteq> 0"
proof -
  let ?s = "s\<lparr>sec_acl := acl'\<rparr>" and ?peer = "oc_tls_get_peer s endpoint"
  have "grants_of (subjects_of acl' device) =
      insert (OC_SUBJECT_UUID uuid, permission, tag, \<lparr>res_href = Some href, res_wildcard = 0\<rparr>) (grants_of (subjects_of (sec_acl s) device))"
    using acl_update_grants [OF conjunct1 [OF acl_update_refines [OF assms(1)]] assms(3)] assms(2,4,5)
    by (simp add: update_grants_def subject_wf_def)
  moreover have "href \<noteq> []"
    using created_resource_ok [OF assms(1,2)] by (simp add: res_ok_def)
  ultimately have e: "(\<exists>ace \<in> set (subjects_of acl' device). entry_grants cfg s meth resource False False endpoint ?peer ace) \<longleftrightarrow>
      (\<exists>ace \<in> set (subjects_of (sec_acl s) device). entry_grants cfg s meth resource False False endpoint ?peer ace) \<or>
      ep_di endpoint = uuid \<and> r_uri resource \<noteq> None \<and> oc_resource_match_uri href (r_uri resource) \<and> permission AND method_mask meth \<noteq> 0"
    unfolding entry_grants_by_grants by (simp add: new_grant_gives [OF assms(4,9)]) blast
  have a: "fst (oc_sec_check_acl cfg ?s meth resource endpoint) \<longleftrightarrow>
    (\<exists>ace \<in> set (subjects_of acl' device). entry_grants cfg s meth resource False False endpoint ?peer ace) \<or>
    owner_role cfg ?peer \<and> meth \<noteq> OC_FETCH \<or>
    meth = OC_GET \<and> oc_sec_check_acl_on_get cfg resource False \<or>
    oc_sec_check_acl_by_uuid s (ep_di endpoint) (ep_device endpoint) resource \<or>
    oc_pki cfg \<and> oc_resource_match_uri ''/oic/sec/roles'' (r_uri resource)"
    using access_in_RFNOP_iff [of ?s endpoint cfg resource meth] assms(6-8,10) update_res_owners [OF assms(1)]
    by (simp add: sec_acl_update_elsewhere)
  show ?thesis
    unfolding a e using access_in_RFNOP_iff [of s endpoint cfg resource meth] assms(6-8,10) by auto
qed

definition owned_sec :: sec_state where
  "owned_sec = (example_sec OC_DOS_RFNOP)\<lparr>sec_acl := empty_acls\<rparr>"

lemma provisioned_access_witness:
  "\<exists>upd acl'. oc_sec_acl_update_res (\<lambda>_. 8) (OC_SUBJECT_UUID (replicate 16 7)) (-1) 2 None (Some ''/light'') 0 0 (sec_acl owned_sec) =
      Some (Some upd, acl') \<and>
    fst (oc_sec_check_acl example_build (owned_sec\<lparr>sec_acl := acl'\<rparr>) OC_GET example_resource (example_endpoint 10))"
proof -
  let ?upd = "\<lparr>upd_place = 0, upd_created = True, upd_created_resource = True\<rparr>"
  let ?acl = "set_subjects 0 [\<lparr>ace_resources = [\<lparr>res_href = Some ''/light'', res_wildcard = 0\<rparr>],
    ace_subject = OC_SUBJECT_UUID (replicate 16 7), aceid = 4, ace_permission = 2, ace_tag = None\<rparr>]
    (empty_acls\<lparr>g_ace_l_free := 3, g_res_l_free := 3, random_used := 1\<rparr>)"
  have r: "oc_sec_acl_update_res (\<lambda>_. 8) (OC_SUBJECT_UUID (replicate 16 7)) (-1) 2 None (Some ''/light'') 0 0 (sec_acl owned_sec) =
      Some (Some ?upd, ?acl)"
    by (simp add: owned_sec_def light_granted)
  have facts: "r_uri example_resource = Some ''/light''" "oc_resource_match_uri ''/light'' (Some ''/light'')"
    "subjects_of (sec_acl owned_sec) 0 = []" "sec_dos owned_sec 0 = OC_DOS_RFNOP" "ep_device (example_endpoint 10) = 0"
    "ep_flags (example_endpoint 10) = 10" "ep_di (example_endpoint 10) = replicate 16 7" "(2 :: u16) AND method_mask OC_GET = 2"
    by (simp_all add: example_resource_def oc_resource_match_uri_def owned_sec_def example_sec_def example_endpoint_def
        empty_acls_def subjects_of_def method_mask_def)
  show ?thesis
    using r provisioned_access [OF r, of "example_endpoint 10" example_build example_resource OC_GET]
    by (simp add: facts example_resource_vertical)
qed

end
