(* ===== verification/OcDoxm.thy ===== *)
theory OcDoxm
  imports OcAccess
begin

text \<open>
  The owner transfer method resource: \<open>src/security/oc_doxm.c\<close>, with the state of the onboarding of
  all devices, which \<open>OcPstat\<close> shares. What other modules do is recorded as a sequence of effects;
  storage, the encoder of the representation and the delayed answers to multicast requests are
  left out.
\<close>

subsection \<open>State\<close>

text \<open>\<open>doxm_oxms\<close> are the first \<open>num_oxms\<close> numbers of the array \<open>oxms\<close>.\<close>

record oc_sec_doxm_t =
  doxm_oxmsel :: int
  doxm_oxms :: "int list"
  doxm_sct :: int
  doxm_owned :: bool
  doxm_deviceuuid :: oc_uuid
  doxm_devowneruuid :: oc_uuid
  doxm_rowneruuid :: oc_uuid

record oc_sec_pstat_t =
  ps_s :: oc_dostype_t
  ps_p :: bool
  ps_isop :: bool
  ps_cm :: u32
  ps_tm :: u32
  ps_om :: int
  ps_sm :: int
  ps_rowneruuid :: oc_uuid
  ps_reset_in_progress :: bool

datatype onboarding_effect =
    Ownership_changed nat oc_uuid bool
  | Random_pin_generated
  | Cloud_reset nat bool bool
  | Audit_log_reset nat
  | Security_domain_reset nat
  | Swupdate_reset nat
  | Device_info_wiped nat
  | Keypair_reset nat
  | Security_profile_reset nat
  | Etag_reset nat
  | Observers_removed nat bool
  | Tls_sessions_closed nat
  | Created_resources_freed nat
  | Swupdate_action nat u32

text \<open>
  \<open>delayed_resets\<close> tells whether the callback \<open>delayed_reset\<close> is scheduled for a device; \<open>device_ids\<close> are
  the identifiers that the core announces.
\<close>

record onboarding =
  g_pstat :: "nat \<Rightarrow> oc_sec_pstat_t"
  g_doxm :: "nat \<Rightarrow> oc_sec_doxm_t"
  g_devices :: "nat \<Rightarrow> oc_sec_creds_t"
  ob_acl :: acl_state
  g_tls_peers :: "oc_tls_peer_t list"
  device_ids :: "nat \<Rightarrow> oc_uuid"
  delayed_resets :: "nat \<Rightarrow> bool"
  effects :: "onboarding_effect list"

text \<open>
  What the surroundings decide: the random values of a new identifier, whether a new key pair can
  be generated, the callback of the application for factory presets, whether the configuration
  resource is announced, the methods of ownership transfer and the callback that selects them.
\<close>

record onboarding_env =
  env_random :: "nat \<Rightarrow> u32"
  env_keypair_ok :: bool
  env_presets :: "(nat \<Rightarrow> onboarding \<Rightarrow> onboarding) option"
  env_con_announced :: bool
  env_pin_otm :: "nat \<Rightarrow> bool"
  env_cert_otm :: "nat \<Rightarrow> bool"
  env_select_oxms :: "(nat \<Rightarrow> int list \<Rightarrow> int list) option"

definition emit_effect :: "onboarding_effect \<Rightarrow> onboarding \<Rightarrow> onboarding" where
  "emit_effect e s = s\<lparr>effects := effects s @ [e]\<rparr>"

definition emit_if :: "bool \<Rightarrow> onboarding_effect \<Rightarrow> onboarding \<Rightarrow> onboarding" where
  "emit_if c e s = (if c then emit_effect e s else s)"

definition set_doxm :: "nat \<Rightarrow> oc_sec_doxm_t \<Rightarrow> onboarding \<Rightarrow> onboarding" where
  "set_doxm device doxm s = s\<lparr>g_doxm := (g_doxm s)(device := doxm)\<rparr>"

subsection \<open>Default values\<close>

abbreviation (input) OC_OXMTYPE_JW :: int where "OC_OXMTYPE_JW \<equiv> 0"
abbreviation (input) OC_OXMTYPE_RDP :: int where "OC_OXMTYPE_RDP \<equiv> 1"
abbreviation (input) OC_OXMTYPE_MFG_CERT :: int where "OC_OXMTYPE_MFG_CERT \<equiv> 2"

definition doxm_evaluate_supported_oxms :: "build_cfg \<Rightarrow> onboarding_env \<Rightarrow> nat \<Rightarrow> onboarding \<Rightarrow> onboarding" where
  "doxm_evaluate_supported_oxms cfg env device s =
     (let oxms = [OC_OXMTYPE_JW] @ (if env_pin_otm env device then [OC_OXMTYPE_RDP] else []) @
                 (if oc_pki cfg \<and> env_cert_otm env device then [OC_OXMTYPE_MFG_CERT] else []);
          oxms = (case env_select_oxms env of None \<Rightarrow> oxms | Some cb \<Rightarrow> cb device oxms)
      in set_doxm device ((g_doxm s device)\<lparr>doxm_oxms := oxms\<rparr>) s)"

text \<open>The build without OSCORE.\<close>

definition doxm_sct_default :: "build_cfg \<Rightarrow> int" where
  "doxm_sct_default cfg = (if oc_pki cfg then 9 else 1)"

definition oc_sec_doxm_set_default :: "build_cfg \<Rightarrow> onboarding_env \<Rightarrow> oc_sec_doxm_t \<Rightarrow> oc_sec_doxm_t" where
  "oc_sec_doxm_set_default cfg env doxm =
     doxm\<lparr>doxm_oxmsel := 4, doxm_sct := doxm_sct_default cfg, doxm_owned := False,
       doxm_devowneruuid := replicate 16 0, doxm_rowneruuid := replicate 16 0,
       doxm_deviceuuid := oc_gen_uuid (env_random env)\<rparr>"

definition oc_sec_doxm_default :: "build_cfg \<Rightarrow> onboarding_env \<Rightarrow> nat \<Rightarrow> onboarding \<Rightarrow> onboarding" where
  "oc_sec_doxm_default cfg env device s =
     (let s = emit_if (doxm_owned (g_doxm s device)) (Ownership_changed device (doxm_deviceuuid (g_doxm s device)) False) s;
          s = set_doxm device (oc_sec_doxm_set_default cfg env (g_doxm s device)) s
      in s\<lparr>device_ids := (device_ids s)(device := doxm_deviceuuid (g_doxm s device))\<rparr>)"

subsection \<open>Decoding\<close>

record oc_doxm_decode_t =
  dd_deviceuuid :: "string option"
  dd_devowneruuid :: "string option"
  dd_rowneruuid :: "string option"
  dd_oxmsel :: int
  dd_sct :: int
  dd_owned :: bool
  dd_oxmsel_set :: bool
  dd_sct_set :: bool
  dd_owned_set :: bool

text \<open>A representation is rejected, or an assertion fails.\<close>

datatype decode_error = Rejected | Assertion_failed

definition doxm_decode_bool_property ::
  "oc_string \<times> oc_rep_value \<Rightarrow> bool \<Rightarrow> bool \<Rightarrow> bool \<Rightarrow> oc_dostype_t \<Rightarrow> oc_doxm_decode_t \<Rightarrow> decode_error + oc_doxm_decode_t" where
  "doxm_decode_bool_property rep v from_storage doc state d =
     (if oc_rep_is_property rep ''owned'' then
        (if \<not> from_storage \<and> (state \<noteq> OC_DOS_RFOTM \<or> \<not> doc) then Inl Rejected
         else Inr (d\<lparr>dd_owned := v, dd_owned_set := True\<rparr>))
      else Inl Rejected)"

text \<open>The list of the supported methods is evaluated anew; the value is converted to \<open>int\<close>.\<close>

definition doxm_decode_int_property ::
  "build_cfg \<Rightarrow> onboarding_env \<Rightarrow> oc_string \<times> oc_rep_value \<Rightarrow> int \<Rightarrow> bool \<Rightarrow> bool \<Rightarrow> oc_dostype_t \<Rightarrow> nat \<Rightarrow>
   oc_doxm_decode_t \<Rightarrow> onboarding \<Rightarrow> (decode_error + oc_doxm_decode_t) \<times> onboarding" where
  "doxm_decode_int_property cfg env rep v from_storage doc state device d s =
     (if oc_rep_is_property rep ''oxmsel'' then
        (let r = Inr (d\<lparr>dd_oxmsel := signed_take_bit 31 v, dd_oxmsel_set := True\<rparr>)
         in if from_storage then (r, s)
            else if state \<noteq> OC_DOS_RFOTM \<or> doc then (Inl Rejected, s)
            else
              (let s = doxm_evaluate_supported_oxms cfg env device s
               in if length (doxm_oxms (g_doxm s device)) > 3 then (Inl Assertion_failed, s)
                  else if signed_take_bit 31 v \<in> set (doxm_oxms (g_doxm s device)) then (r, s)
                  else (Inl Rejected, s)))
      else if oc_rep_is_property rep ''sct'' then
        (if \<not> from_storage then (Inl Rejected, s)
         else (Inr (d\<lparr>dd_sct := signed_take_bit 31 v, dd_sct_set := True\<rparr>), s))
      else (Inl Rejected, s))"

definition doxm_string_propery_is_writable :: "bool \<Rightarrow> bool \<Rightarrow> oc_dostype_t list \<Rightarrow> oc_dostype_t \<Rightarrow> bool" where
  "doxm_string_propery_is_writable from_storage doc allowed_states state \<longleftrightarrow>
     from_storage \<or> (state \<in> set allowed_states \<and> doc)"

definition doxm_decode_string_property ::
  "oc_string \<times> oc_rep_value \<Rightarrow> string \<Rightarrow> bool \<Rightarrow> bool \<Rightarrow> oc_dostype_t \<Rightarrow> oc_doxm_decode_t \<Rightarrow> decode_error + oc_doxm_decode_t" where
  "doxm_decode_string_property rep v from_storage doc state d =
     (if oc_rep_is_property rep ''deviceuuid'' then
        (if doxm_string_propery_is_writable from_storage doc [OC_DOS_RFOTM] state then Inr (d\<lparr>dd_deviceuuid := Some v\<rparr>)
         else Inl Rejected)
      else if oc_rep_is_property rep ''devowneruuid'' then
        (if doxm_string_propery_is_writable from_storage doc [OC_DOS_RFOTM] state then Inr (d\<lparr>dd_devowneruuid := Some v\<rparr>)
         else Inl Rejected)
      else if oc_rep_is_property rep ''rowneruuid'' then
        (if doxm_string_propery_is_writable from_storage doc [OC_DOS_RFOTM, OC_DOS_SRESET] state
         then Inr (d\<lparr>dd_rowneruuid := Some v\<rparr>) else Inl Rejected)
      else Inl Rejected)"

definition doxm_decode_property ::
  "build_cfg \<Rightarrow> onboarding_env \<Rightarrow> oc_string \<times> oc_rep_value \<Rightarrow> bool \<Rightarrow> bool \<Rightarrow> oc_dostype_t \<Rightarrow> nat \<Rightarrow>
   oc_doxm_decode_t \<Rightarrow> onboarding \<Rightarrow> (decode_error + oc_doxm_decode_t) \<times> onboarding" where
  "doxm_decode_property cfg env rep from_storage doc state device d s =
     (if from_storage \<and> oc_rep_is_baseline_interface_property rep then (Inr d, s)
      else
        (case snd rep of
           OC_REP_BOOL v \<Rightarrow> (doxm_decode_bool_property rep v from_storage doc state d, s)
         | OC_REP_INT v \<Rightarrow> doxm_decode_int_property cfg env rep v from_storage doc state device d s
         | OC_REP_STRING v \<Rightarrow> (doxm_decode_string_property rep v from_storage doc state d, s)
         | _ \<Rightarrow> (Inl Rejected, s)))"

fun doxm_decode ::
  "build_cfg \<Rightarrow> onboarding_env \<Rightarrow> oc_rep \<Rightarrow> bool \<Rightarrow> bool \<Rightarrow> nat \<Rightarrow> oc_doxm_decode_t \<Rightarrow> onboarding \<Rightarrow>
   (decode_error + oc_doxm_decode_t) \<times> onboarding" where
  "doxm_decode cfg env [] from_storage doc device d s = (Inr d, s)"
| "doxm_decode cfg env (rep # reps) from_storage doc device d s =
     (case doxm_decode_property cfg env rep from_storage doc (ps_s (g_pstat s device)) device d s of
        (Inl e, s) \<Rightarrow> (Inl e, s)
      | (Inr d, s) \<Rightarrow> doxm_decode cfg env reps from_storage doc device d s)"

text \<open>\<open>oc_str_to_uuid\<close> writes the bytes it has read, also when the text is not an identifier.\<close>

definition parse_uuid_into :: "string option \<Rightarrow> oc_uuid \<Rightarrow> oc_uuid" where
  "parse_uuid_into v uuid =
     (case v of
        None \<Rightarrow> uuid
      | Some v \<Rightarrow> (case oc_str_to_uuid (Some (text_bytes v)) (Some uuid) of None \<Rightarrow> uuid | Some u \<Rightarrow> u))"

definition doxm_decode_copy :: "oc_doxm_decode_t \<Rightarrow> oc_sec_doxm_t \<Rightarrow> oc_sec_doxm_t" where
  "doxm_decode_copy src dst =
     dst\<lparr>doxm_owned := if dd_owned_set src then dd_owned src else doxm_owned dst,
       doxm_oxmsel := if dd_oxmsel_set src then dd_oxmsel src else doxm_oxmsel dst,
       doxm_sct := if dd_sct_set src then dd_sct src else doxm_sct dst,
       doxm_deviceuuid := parse_uuid_into (dd_deviceuuid src) (doxm_deviceuuid dst),
       doxm_devowneruuid := parse_uuid_into (dd_devowneruuid src) (doxm_devowneruuid dst),
       doxm_rowneruuid := parse_uuid_into (dd_rowneruuid src) (doxm_rowneruuid dst)\<rparr>"

definition no_doxm_decode :: oc_doxm_decode_t where
  "no_doxm_decode = \<lparr>dd_deviceuuid = None, dd_devowneruuid = None, dd_rowneruuid = None, dd_oxmsel = 0, dd_sct = 0,
     dd_owned = False, dd_oxmsel_set = False, dd_sct_set = False, dd_owned_set = False\<rparr>"

text \<open>\<^term>\<open>None\<close> is a failed assertion.\<close>

definition oc_sec_decode_doxm ::
  "build_cfg \<Rightarrow> onboarding_env \<Rightarrow> oc_rep \<Rightarrow> bool \<Rightarrow> bool \<Rightarrow> nat \<Rightarrow> onboarding \<Rightarrow> (bool \<times> onboarding) option" where
  "oc_sec_decode_doxm cfg env rep from_storage doc device s =
     (case doxm_decode cfg env rep from_storage doc device no_doxm_decode s of
        (Inl Assertion_failed, s) \<Rightarrow> None
      | (Inl Rejected, s) \<Rightarrow> Some (False, s)
      | (Inr d, s) \<Rightarrow>
          (let s = set_doxm device (doxm_decode_copy d (g_doxm s device)) s;
               s = emit_if (dd_oxmsel_set d \<and> \<not> from_storage \<and> doxm_oxmsel (g_doxm s device) = OC_OXMTYPE_RDP)
                     Random_pin_generated s;
               s = (if dd_deviceuuid d \<noteq> None
                    then s\<lparr>device_ids := (device_ids s)(device := doxm_deviceuuid (g_doxm s device))\<rparr> else s);
               s = emit_if (dd_owned_set d)
                     (Ownership_changed device (doxm_deviceuuid (g_doxm s device)) (doxm_owned (g_doxm s device))) s
           in Some (True, s)))"

text \<open>\<open>doc\<close> is the answer of \<open>oc_tls_peer_is_doc\<close> for the origin of the request.\<close>

definition sec_view :: "nat \<Rightarrow> onboarding \<Rightarrow> sec_state" where
  "sec_view num_devices s =
     \<lparr>sec_num_devices = num_devices, sec_dos = (\<lambda>d. ps_s (g_pstat s d)), sec_acl = ob_acl s,
      sec_doxm_rowner = (\<lambda>d. doxm_rowneruuid (g_doxm s d)), sec_pstat_rowner = (\<lambda>d. ps_rowneruuid (g_pstat s d)),
      sec_creds = g_devices s, sec_tls_peers = g_tls_peers s\<rparr>"

definition oc_tls_peer_is_doc :: "sec_state \<Rightarrow> oc_endpoint_t \<Rightarrow> bool" where
  "oc_tls_peer_is_doc s endpoint = (case oc_tls_get_peer s endpoint of None \<Rightarrow> False | Some peer \<Rightarrow> peer_doc peer)"

definition doxm_resource_post ::
  "build_cfg \<Rightarrow> onboarding_env \<Rightarrow> nat \<Rightarrow> oc_rep \<Rightarrow> oc_endpoint_t \<Rightarrow> nat \<Rightarrow> onboarding \<Rightarrow> (oc_status_t \<times> onboarding) option" where
  "doxm_resource_post cfg env num_devices rep origin device s =
     map_option (\<lambda>(ok, s). (if ok then OC_STATUS_CHANGED else OC_STATUS_BAD_REQUEST, s))
       (oc_sec_decode_doxm cfg env rep False (oc_tls_peer_is_doc (sec_view num_devices s) origin) device s)"

end
