(* ===== verification/OcPstat.thy ===== *)
theory OcPstat
  imports OcDoxm
begin

text \<open>
  The provisioning status: \<open>src/security/oc_pstat.c\<close>, with the onboarding states of a device, the
  transitions between them, and the reset of a device. The model is of a build with client, server,
  entity tags and the creation of resources in collections; storage and the encoder are left out.
\<close>

subsection \<open>Checks\<close>

definition nil_uuid :: "oc_uuid \<Rightarrow> bool" where
  "nil_uuid uuid \<longleftrightarrow> list_all (\<lambda>b. b = 0) (take 16 uuid)"

definition valid_transition :: "nat \<Rightarrow> oc_dostype_t \<Rightarrow> onboarding \<Rightarrow> bool" where
  "valid_transition device state s =
     (case ps_s (g_pstat s device) of
        OC_DOS_RESET \<Rightarrow> True
      | OC_DOS_RFOTM \<Rightarrow> state \<noteq> OC_DOS_SRESET
      | OC_DOS_RFPRO \<Rightarrow> state \<noteq> OC_DOS_RFOTM
      | OC_DOS_RFNOP \<Rightarrow> state \<noteq> OC_DOS_RFOTM
      | OC_DOS_SRESET \<Rightarrow> \<not> (state = OC_DOS_RFOTM \<or> state = OC_DOS_RFNOP)
      | OC_DOS_UNNAMED _ \<Rightarrow> True)"

definition pstat_check_ps_state :: "oc_sec_pstat_t \<Rightarrow> bool" where
  "pstat_check_ps_state ps =
     (case ps_s ps of
        OC_DOS_RFPRO \<Rightarrow> \<not> (ps_isop ps \<or> ps_cm ps AND 0xC3 \<noteq> 0 \<or> ps_tm ps AND 0xC3 \<noteq> 0)
      | OC_DOS_RFNOP \<Rightarrow> \<not> (\<not> ps_isop ps \<or> ps_cm ps AND 0xC3 \<noteq> 0 \<or> ps_tm ps AND 0xC3 \<noteq> 0)
      | OC_DOS_SRESET \<Rightarrow> \<not> (ps_isop ps \<or> ps_cm ps \<noteq> 1 \<or> ps_tm ps AND 0xC3 \<noteq> 0)
      | OC_DOS_RESET \<Rightarrow> \<not> (ps_isop ps \<or> ps_cm ps AND 0xC3 \<noteq> 2 \<or> ps_tm ps AND 0xC3 \<noteq> 0)
      | OC_DOS_RFOTM \<Rightarrow> \<not> (ps_isop ps \<or> ps_cm ps AND 0xC3 \<noteq> 2 \<or> ps_tm ps AND 0xC3 \<noteq> 0)
      | OC_DOS_UNNAMED _ \<Rightarrow> True)"

text \<open>Only whether there is a credential matters.\<close>

definition oc_sec_find_creds_for_subject :: "oc_uuid \<Rightarrow> nat \<Rightarrow> onboarding \<Rightarrow> bool" where
  "oc_sec_find_creds_for_subject subjectuuid device s =
     list_ex (\<lambda>cred. oc_uuid_is_equal (cred_subjectuuid cred) subjectuuid) (creds_list (g_devices s device))"

definition pstat_check_state :: "oc_sec_pstat_t \<Rightarrow> nat \<Rightarrow> onboarding \<Rightarrow> bool" where
  "pstat_check_state ps device s =
     (if \<not> pstat_check_ps_state ps then False
      else if nil_uuid (ps_rowneruuid ps) then False
      else if \<not> oc_sec_find_creds_for_subject (ps_rowneruuid ps) device s then False
      else
        (let doxm = g_doxm s device in
         if \<not> doxm_owned doxm then False
         else if nil_uuid (doxm_devowneruuid doxm) then False
         else if nil_uuid (doxm_deviceuuid doxm) then False
         else if nil_uuid (doxm_rowneruuid doxm) then False
         else if \<not> oc_sec_find_creds_for_subject (doxm_rowneruuid doxm) device s then False
         else
           (let acl = g_aclist (ob_acl s) device in
            if nil_uuid (acl_rowneruuid acl) then False
            else if \<not> oc_sec_find_creds_for_subject (acl_rowneruuid acl) device s then False
            else
              (let creds = g_devices s device in
               if nil_uuid (creds_rowneruuid creds) then False
               else oc_sec_find_creds_for_subject (creds_rowneruuid creds) device s))))"

subsection \<open>Entering a state\<close>

definition set_pstat :: "nat \<Rightarrow> oc_sec_pstat_t \<Rightarrow> onboarding \<Rightarrow> onboarding" where
  "set_pstat device ps s = s\<lparr>g_pstat := (g_pstat s)(device := ps)\<rparr>"

definition set_reset_in_progress :: "nat \<Rightarrow> bool \<Rightarrow> onboarding \<Rightarrow> onboarding" where
  "set_reset_in_progress device b s = set_pstat device ((g_pstat s device)\<lparr>ps_reset_in_progress := b\<rparr>) s"

definition remove_delayed_reset :: "nat \<Rightarrow> onboarding \<Rightarrow> onboarding" where
  "remove_delayed_reset device s = s\<lparr>delayed_resets := (delayed_resets s)(device := False)\<rparr>"

definition oc_sec_cred_default :: "nat \<Rightarrow> onboarding \<Rightarrow> onboarding" where
  "oc_sec_cred_default device s =
     s\<lparr>g_devices := (g_devices s)(device := \<lparr>creds_list = [], creds_rowneruuid = replicate 16 0\<rparr>)\<rparr>"

definition reset_acl :: "nat \<Rightarrow> onboarding \<Rightarrow> onboarding" where
  "reset_acl device s = s\<lparr>ob_acl := oc_sec_acl_default device (ob_acl s)\<rparr>"

definition oc_sec_free_roles_for_device :: "nat \<Rightarrow> onboarding \<Rightarrow> onboarding" where
  "oc_sec_free_roles_for_device device s =
     s\<lparr>g_tls_peers := map (\<lambda>p. if ep_device (peer_endpoint p) = device then p\<lparr>peer_roles := []\<rparr> else p) (g_tls_peers s)\<rparr>"

text \<open>The case of the state RESET up to the fall through; \<^term>\<open>False\<close> is the jump to the error.\<close>

definition erase_device ::
  "build_cfg \<Rightarrow> onboarding_env \<Rightarrow> nat \<Rightarrow> bool \<Rightarrow> bool \<Rightarrow> onboarding \<Rightarrow> bool \<times> onboarding" where
  "erase_device cfg env device from_storage shutdown s =
     (let s = remove_delayed_reset device (set_reset_in_progress device True s);
          s = emit_if (oc_cloud cfg) (Cloud_reset device True False) s;
          s = oc_sec_doxm_default cfg env device s;
          s = oc_sec_cred_default device s;
          s = reset_acl device s;
          s = emit_effect (Audit_log_reset device) s;
          s = emit_effect (Security_domain_reset device) s;
          s = emit_if (oc_software_update cfg) (Swupdate_reset device) s;
          s = emit_if ((\<not> from_storage \<or> shutdown) \<and> env_con_announced env) (Device_info_wiped device) s;
          s = (if oc_pki cfg then oc_sec_free_roles_for_device device s else s);
          s = emit_if (oc_pki cfg) (Keypair_reset device) s
      in if oc_pki cfg \<and> \<not> env_keypair_ok env
         then (False, set_reset_in_progress device False (remove_delayed_reset device s))
         else
           (let s = emit_effect (Security_profile_reset device) s;
                s = emit_effect (Etag_reset device) s;
                s = emit_effect (Observers_removed device True) s
            in (True, s)))"

text \<open>The case of the state RFOTM; the result is the local status and the state.\<close>

definition enter_rfotm ::
  "onboarding_env \<Rightarrow> oc_sec_pstat_t \<Rightarrow> nat \<Rightarrow> bool \<Rightarrow> onboarding \<Rightarrow> oc_sec_pstat_t option \<times> onboarding" where
  "enter_rfotm env ps device shutdown s =
     (let ps = ps\<lparr>ps_p := True, ps_s := OC_DOS_RFOTM, ps_cm := 2, ps_tm := 0\<rparr>; doxm = g_doxm s device
      in if doxm_owned doxm \<or> \<not> nil_uuid (doxm_devowneruuid doxm) \<or> \<not> pstat_check_ps_state ps
         then (None, set_reset_in_progress device False s)
         else
           (let s = emit_if (\<not> shutdown) (Tls_sessions_closed device) s;
                (ps, s) =
                  (case env_presets env of
                     None \<Rightarrow> (ps, s)
                   | Some cb \<Rightarrow> (let s = cb device (set_pstat device ps s) in (g_pstat s device, s)))
            in (Some (ps\<lparr>ps_p := False\<rparr>), set_reset_in_progress device False s)))"

text \<open>The cases of the states after onboarding.\<close>

definition enter_owned :: "u32 \<Rightarrow> bool \<Rightarrow> oc_sec_pstat_t \<Rightarrow> nat \<Rightarrow> onboarding \<Rightarrow> oc_sec_pstat_t option \<times> onboarding" where
  "enter_owned cm isop ps device s =
     (let ps = ps\<lparr>ps_p := True, ps_cm := cm, ps_tm := 0, ps_isop := isop\<rparr>
      in if \<not> pstat_check_state ps device s then (None, s) else (Some (ps\<lparr>ps_p := False\<rparr>), s))"

definition oc_pstat_handle_state ::
  "build_cfg \<Rightarrow> onboarding_env \<Rightarrow> oc_sec_pstat_t \<Rightarrow> nat \<Rightarrow> bool \<Rightarrow> bool \<Rightarrow> onboarding \<Rightarrow> bool \<times> onboarding" where
  "oc_pstat_handle_state cfg env ps device from_storage shutdown s =
     (case
       (case ps_s ps of
          OC_DOS_RESET \<Rightarrow>
            if ps_reset_in_progress (g_pstat s device) then (None, s)
            else
              (let ps = ps\<lparr>ps_p := False, ps_isop := False, ps_cm := 1, ps_tm := 2, ps_om := 3, ps_sm := 4,
                     ps_rowneruuid := replicate 16 0\<rparr>
               in case erase_device cfg env device from_storage shutdown s of
                    (False, s) \<Rightarrow> (None, s)
                  | (True, s) \<Rightarrow> enter_rfotm env ps device shutdown s)
        | OC_DOS_RFOTM \<Rightarrow> enter_rfotm env ps device shutdown s
        | OC_DOS_RFPRO \<Rightarrow> enter_owned 0 False ps device s
        | OC_DOS_RFNOP \<Rightarrow> enter_owned 0 True ps device s
        | OC_DOS_SRESET \<Rightarrow> enter_owned 1 False ps device s
        | OC_DOS_UNNAMED _ \<Rightarrow> (None, s)) of
        (None, s) \<Rightarrow> (False, s)
      | (Some ps, s) \<Rightarrow>
          (let s = set_pstat device ps s;
               s = emit_if (ps_s ps = OC_DOS_RESET \<or> ps_s ps = OC_DOS_RFOTM) (Created_resources_freed device) s;
               s = emit_if (ps_s ps = OC_DOS_RFNOP) (Observers_removed device False) s
           in (True, s)))"

subsection \<open>Resetting\<close>

definition zero_pstat :: "oc_dostype_t \<Rightarrow> oc_sec_pstat_t" where
  "zero_pstat state = \<lparr>ps_s = state, ps_p = False, ps_isop = False, ps_cm = 0, ps_tm = 0, ps_om = 0, ps_sm = 0,
     ps_rowneruuid = replicate 16 0, ps_reset_in_progress = False\<rparr>"

definition oc_sec_pstat_default :: "build_cfg \<Rightarrow> onboarding_env \<Rightarrow> nat \<Rightarrow> onboarding \<Rightarrow> onboarding" where
  "oc_sec_pstat_default cfg env device s = snd (oc_pstat_handle_state cfg env (zero_pstat OC_DOS_RESET) device True False s)"

definition oc_sec_pstat_clear :: "bool \<Rightarrow> oc_sec_pstat_t" where
  "oc_sec_pstat_clear resetToDefault =
     (if resetToDefault then (zero_pstat OC_DOS_RFOTM)\<lparr>ps_cm := 2, ps_om := 3, ps_sm := 4\<rparr> else zero_pstat OC_DOS_RESET)"

definition oc_pstat_reset_device :: "build_cfg \<Rightarrow> onboarding_env \<Rightarrow> nat \<Rightarrow> bool \<Rightarrow> onboarding \<Rightarrow> bool \<times> onboarding" where
  "oc_pstat_reset_device cfg env device shutdown s =
     oc_pstat_handle_state cfg env (zero_pstat OC_DOS_RESET) device False shutdown s"

definition oc_reset_in_progress :: "nat \<Rightarrow> onboarding \<Rightarrow> bool" where
  "oc_reset_in_progress device s \<longleftrightarrow> ps_reset_in_progress (g_pstat s device) \<or> delayed_resets s device"

definition set_delayed_reset :: "build_cfg \<Rightarrow> nat \<Rightarrow> onboarding \<Rightarrow> bool \<times> onboarding" where
  "set_delayed_reset cfg device s =
     (if oc_reset_in_progress device s then (False, s)
      else
        (let s = emit_if (oc_cloud cfg) (Cloud_reset device False True) s;
             s = emit_effect (Observers_removed device True) s;
             s = set_pstat device ((zero_pstat OC_DOS_RESET)\<lparr>ps_p := True, ps_cm := 1, ps_tm := 2, ps_om := 3, ps_sm := 4\<rparr>) s
         in (True, s\<lparr>delayed_resets := (delayed_resets s)(device := True)\<rparr>)))"

definition oc_reset_device_v1 :: "build_cfg \<Rightarrow> onboarding_env \<Rightarrow> nat \<Rightarrow> bool \<Rightarrow> onboarding \<Rightarrow> bool \<times> onboarding" where
  "oc_reset_device_v1 cfg env device force s =
     (if \<not> force then set_delayed_reset cfg device s else oc_pstat_reset_device cfg env device False s)"

text \<open>The callback, which is removed from the schedule when it is called.\<close>

definition delayed_reset :: "build_cfg \<Rightarrow> onboarding_env \<Rightarrow> nat \<Rightarrow> onboarding \<Rightarrow> onboarding" where
  "delayed_reset cfg env device s = snd (oc_reset_device_v1 cfg env device True (remove_delayed_reset device s))"

definition oc_reset_v1 :: "build_cfg \<Rightarrow> onboarding_env \<Rightarrow> bool \<Rightarrow> nat \<Rightarrow> onboarding \<Rightarrow> onboarding" where
  "oc_reset_v1 cfg env force num_devices s =
     fold (\<lambda>device s. snd (oc_reset_device_v1 cfg env device force s)) [0..<num_devices] s"

definition oc_reset_devices_in_RFOTM :: "build_cfg \<Rightarrow> onboarding_env \<Rightarrow> nat \<Rightarrow> onboarding \<Rightarrow> onboarding" where
  "oc_reset_devices_in_RFOTM cfg env num_devices s =
     fold (\<lambda>device s. if ps_s (g_pstat s device) = OC_DOS_RFOTM then snd (oc_pstat_reset_device cfg env device True s) else s)
       [0..<num_devices] s"

subsection \<open>Decoding\<close>

definition dostype_of_int :: "int \<Rightarrow> oc_dostype_t" where
  "dostype_of_int v =
     (let w = of_int v :: u32
      in if w = 0 then OC_DOS_RESET else if w = 1 then OC_DOS_RFOTM else if w = 2 then OC_DOS_RFPRO
         else if w = 3 then OC_DOS_RFNOP else if w = 4 then OC_DOS_SRESET else OC_DOS_UNNAMED w)"

fun decode_dos :: "bool \<Rightarrow> oc_rep \<Rightarrow> oc_sec_pstat_t \<times> bool \<Rightarrow> (oc_sec_pstat_t \<times> bool) option" where
  "decode_dos from_storage [] acc = Some acc"
| "decode_dos from_storage (dos # reps) (ps, transition_state) =
     (case snd dos of
        OC_REP_INT v \<Rightarrow>
          if oc_rep_is_property dos ''s'' then decode_dos from_storage reps (ps\<lparr>ps_s := dostype_of_int v\<rparr>, True) else None
      | _ \<Rightarrow> if \<not> from_storage \<and> oc_rep_is_property dos ''p'' then None else decode_dos from_storage reps (ps, transition_state))"

text \<open>The numbers are recognised by the first two characters of the name.\<close>

definition name_starts :: "oc_string \<times> oc_rep_value \<Rightarrow> string \<Rightarrow> bool" where
  "name_starts rep p \<longleftrightarrow> take 2 (str_of (fst rep)) = p"

definition decode_pstat_int :: "bool \<Rightarrow> oc_string \<times> oc_rep_value \<Rightarrow> int \<Rightarrow> oc_sec_pstat_t \<Rightarrow> (oc_sec_pstat_t \<times> bool) option" where
  "decode_pstat_int from_storage rep v ps =
     (if from_storage \<and> name_starts rep ''cm'' then Some (ps\<lparr>ps_cm := of_int v\<rparr>, False)
      else if name_starts rep ''tm'' then Some (ps\<lparr>ps_tm := of_int v\<rparr>, True)
      else if name_starts rep ''om'' then Some (ps\<lparr>ps_om := signed_take_bit 31 v\<rparr>, False)
      else if from_storage \<and> name_starts rep ''sm'' then Some (ps\<lparr>ps_sm := signed_take_bit 31 v\<rparr>, False)
      else None)"

fun decode_pstat_loop :: "bool \<Rightarrow> oc_rep \<Rightarrow> oc_sec_pstat_t \<times> bool \<times> bool \<Rightarrow> (oc_sec_pstat_t \<times> bool \<times> bool) option" where
  "decode_pstat_loop from_storage [] acc = Some acc"
| "decode_pstat_loop from_storage (rep # reps) (ps, transition_state, target_mode) =
     (case snd rep of
        OC_REP_OBJECT obj \<Rightarrow>
          if oc_rep_is_property rep ''dos'' then do {
            (ps, transition_state) \<leftarrow> decode_dos from_storage obj (ps, transition_state);
            decode_pstat_loop from_storage reps (ps, transition_state, target_mode)
          }
          else None
      | OC_REP_BOOL v \<Rightarrow>
          if from_storage \<and> oc_rep_is_property rep ''isop'' then
            decode_pstat_loop from_storage reps (ps\<lparr>ps_isop := v\<rparr>, transition_state, target_mode)
          else None
      | OC_REP_INT v \<Rightarrow> do {
          (ps, is_tm) \<leftarrow> decode_pstat_int from_storage rep v ps;
          decode_pstat_loop from_storage reps (ps, transition_state, target_mode \<or> is_tm)
        }
      | OC_REP_STRING v \<Rightarrow>
          if (from_storage \<or> (ps_s ps \<noteq> OC_DOS_RFPRO \<and> ps_s ps \<noteq> OC_DOS_RFNOP)) \<and> oc_rep_is_property rep ''rowneruuid'' then
            decode_pstat_loop from_storage reps (ps\<lparr>ps_rowneruuid := parse_uuid_into (Some v) (ps_rowneruuid ps)\<rparr>, transition_state, target_mode)
          else None
      | _ \<Rightarrow>
          if oc_rep_is_property rep ''rt'' \<or> oc_rep_is_property rep ''if'' then
            decode_pstat_loop from_storage reps (ps, transition_state, target_mode)
          else None)"

text \<open>The actions of the software update: check for a version, validate it, upgrade.\<close>

definition oc_pstat_handle_target_mode :: "nat \<Rightarrow> u32 \<Rightarrow> onboarding \<Rightarrow> u32 \<times> onboarding" where
  "oc_pstat_handle_target_mode device tm s =
     (if tm = 256 \<or> tm = 64 \<or> tm = 128 then (0, emit_effect (Swupdate_action device tm) s) else (tm, s))"

definition oc_sec_decode_pstat ::
  "build_cfg \<Rightarrow> onboarding_env \<Rightarrow> oc_rep \<Rightarrow> bool \<Rightarrow> nat \<Rightarrow> onboarding \<Rightarrow> bool \<times> onboarding" where
  "oc_sec_decode_pstat cfg env rep from_storage device s =
     (case decode_pstat_loop from_storage rep (g_pstat s device, False, False) of
        None \<Rightarrow> (False, s)
      | Some (ps, transition_state, target_mode) \<Rightarrow>
          (let (tm, s) = (if oc_software_update cfg \<and> target_mode then oc_pstat_handle_target_mode device (ps_tm ps) s
                          else (ps_tm ps, s));
               ps = ps\<lparr>ps_tm := tm\<rparr>
           in if from_storage \<or> valid_transition device (ps_s ps) s then
                (if \<not> from_storage \<and> transition_state then
                   (if ps_s ps = OC_DOS_RESET then oc_reset_device_v1 cfg env device False s
                    else oc_pstat_handle_state cfg env ps device from_storage False s)
                 else (True, set_pstat device ps s))
              else (False, s)))"

definition pstat_resource_post ::
  "build_cfg \<Rightarrow> onboarding_env \<Rightarrow> oc_rep \<Rightarrow> nat \<Rightarrow> onboarding \<Rightarrow> oc_status_t \<times> onboarding" where
  "pstat_resource_post cfg env rep device s =
     (case oc_sec_decode_pstat cfg env rep False device s of
        (ok, s) \<Rightarrow> (if ok then OC_STATUS_CHANGED else OC_STATUS_BAD_REQUEST, s))"

end
