(* ===== verification/OcOnboarding.thy ===== *)
theory OcOnboarding
  imports OcPstat OcAclUpdate
begin

text \<open>
  The life cycle of a device: what a reset erases (\<open>src/security/oc_pstat.c\<close>), which transitions the
  requests to the provisioning status make, the invariant of the reachable states, and two
  behaviours in which a reset leaves a device that is not what it should be.
\<close>

subsection \<open>What the steps keep\<close>

lemma emit_effect_simps [simp]:
  "g_pstat (emit_effect e s) = g_pstat s" "g_doxm (emit_effect e s) = g_doxm s" "g_devices (emit_effect e s) = g_devices s"
  "ob_acl (emit_effect e s) = ob_acl s" "g_tls_peers (emit_effect e s) = g_tls_peers s"
  "delayed_resets (emit_effect e s) = delayed_resets s" "device_ids (emit_effect e s) = device_ids s"
  by (simp_all add: emit_effect_def)

lemma emit_if_simps [simp]:
  "g_pstat (emit_if c e s) = g_pstat s" "g_doxm (emit_if c e s) = g_doxm s" "g_devices (emit_if c e s) = g_devices s"
  "ob_acl (emit_if c e s) = ob_acl s" "g_tls_peers (emit_if c e s) = g_tls_peers s"
  "delayed_resets (emit_if c e s) = delayed_resets s" "device_ids (emit_if c e s) = device_ids s"
  by (simp_all add: emit_if_def)

lemma set_pstat_simps [simp]:
  "g_pstat (set_pstat d ps s) = (g_pstat s)(d := ps)" "g_doxm (set_pstat d ps s) = g_doxm s" "g_devices (set_pstat d ps s) = g_devices s"
  "ob_acl (set_pstat d ps s) = ob_acl s" "g_tls_peers (set_pstat d ps s) = g_tls_peers s"
  "delayed_resets (set_pstat d ps s) = delayed_resets s" "effects (set_pstat d ps s) = effects s"
  by (simp_all add: set_pstat_def)

lemma set_reset_in_progress_simps [simp]:
  "g_pstat (set_reset_in_progress d b s) = (g_pstat s)(d := (g_pstat s d)\<lparr>ps_reset_in_progress := b\<rparr>)"
  "g_doxm (set_reset_in_progress d b s) = g_doxm s" "g_devices (set_reset_in_progress d b s) = g_devices s"
  "ob_acl (set_reset_in_progress d b s) = ob_acl s" "g_tls_peers (set_reset_in_progress d b s) = g_tls_peers s"
  "delayed_resets (set_reset_in_progress d b s) = delayed_resets s"
  by (simp_all add: set_reset_in_progress_def)

lemma reset_parts_simps [simp]:
  "g_pstat (remove_delayed_reset d s) = g_pstat s" "g_doxm (remove_delayed_reset d s) = g_doxm s"
  "g_devices (remove_delayed_reset d s) = g_devices s" "ob_acl (remove_delayed_reset d s) = ob_acl s"
  "g_tls_peers (remove_delayed_reset d s) = g_tls_peers s" "delayed_resets (remove_delayed_reset d s) = (delayed_resets s)(d := False)"
  "g_pstat (oc_sec_cred_default d s) = g_pstat s" "g_doxm (oc_sec_cred_default d s) = g_doxm s"
  "ob_acl (oc_sec_cred_default d s) = ob_acl s" "g_tls_peers (oc_sec_cred_default d s) = g_tls_peers s"
  "delayed_resets (oc_sec_cred_default d s) = delayed_resets s"
  "g_pstat (reset_acl d s) = g_pstat s" "g_doxm (reset_acl d s) = g_doxm s" "g_devices (reset_acl d s) = g_devices s"
  "g_tls_peers (reset_acl d s) = g_tls_peers s" "delayed_resets (reset_acl d s) = delayed_resets s"
  "g_pstat (oc_sec_free_roles_for_device d s) = g_pstat s" "g_doxm (oc_sec_free_roles_for_device d s) = g_doxm s"
  "g_devices (oc_sec_free_roles_for_device d s) = g_devices s" "ob_acl (oc_sec_free_roles_for_device d s) = ob_acl s"
  "delayed_resets (oc_sec_free_roles_for_device d s) = delayed_resets s"
  "g_devices (oc_sec_cred_default d s) = (g_devices s)(d := \<lparr>creds_list = [], creds_rowneruuid = replicate 16 0\<rparr>)"
  "ob_acl (reset_acl d s) = oc_sec_acl_default d (ob_acl s)"
  "g_tls_peers (oc_sec_free_roles_for_device d s) =
     map (\<lambda>p. if ep_device (peer_endpoint p) = d then p\<lparr>peer_roles := []\<rparr> else p) (g_tls_peers s)"
  by (simp_all add: remove_delayed_reset_def oc_sec_cred_default_def reset_acl_def oc_sec_free_roles_for_device_def)

lemma doxm_default_simps [simp]:
  "g_pstat (oc_sec_doxm_default cfg env d s) = g_pstat s" "g_devices (oc_sec_doxm_default cfg env d s) = g_devices s"
  "ob_acl (oc_sec_doxm_default cfg env d s) = ob_acl s" "g_tls_peers (oc_sec_doxm_default cfg env d s) = g_tls_peers s"
  "delayed_resets (oc_sec_doxm_default cfg env d s) = delayed_resets s"
  "g_doxm (oc_sec_doxm_default cfg env d s) = (g_doxm s)(d := oc_sec_doxm_set_default cfg env (g_doxm s d))"
  by (simp_all add: oc_sec_doxm_default_def Let_def set_doxm_def)

lemma nil_uuid_zero [simp]: "nil_uuid (replicate 16 0)"
  by (simp add: nil_uuid_def list_all_iff)

text \<open>What the erasure of a device leaves behind.\<close>

lemma erase_device_simps [simp]:
  fixes s cfg env device from_storage shutdown
  defines "r \<equiv> erase_device cfg env device from_storage shutdown s"
  shows "fst r = (oc_pki cfg \<longrightarrow> env_keypair_ok env)"
    and "g_pstat (snd r) = (g_pstat s)(device := (g_pstat s device)\<lparr>ps_reset_in_progress := oc_pki cfg \<longrightarrow> env_keypair_ok env\<rparr>)"
    and "g_doxm (snd r) = (g_doxm s)(device := oc_sec_doxm_set_default cfg env (g_doxm s device))"
    and "g_devices (snd r) = (g_devices s)(device := \<lparr>creds_list = [], creds_rowneruuid = replicate 16 0\<rparr>)"
    and "ob_acl (snd r) = oc_sec_acl_default device (ob_acl s)"
    and "delayed_resets (snd r) = (delayed_resets s)(device := False)"
    and "g_tls_peers (snd r) = (if oc_pki cfg
      then map (\<lambda>p. if ep_device (peer_endpoint p) = device then p\<lparr>peer_roles := []\<rparr> else p) (g_tls_peers s) else g_tls_peers s)"
  unfolding r_def by (simp_all add: erase_device_def Let_def)



subsection \<open>Reset\<close>

definition fresh_pstat :: oc_sec_pstat_t where
  "fresh_pstat = \<lparr>ps_s = OC_DOS_RFOTM, ps_p = False, ps_isop = False, ps_cm = 2, ps_tm = 0, ps_om = 3, ps_sm = 4,
     ps_rowneruuid = replicate 16 0, ps_reset_in_progress = False\<rparr>"


subsection \<open>Requests\<close>

text \<open>Factory presets of the application that keep the provisioning status.\<close>

definition presets_keep_pstat :: "onboarding_env \<Rightarrow> bool" where
  "presets_keep_pstat env \<longleftrightarrow> (\<forall>cb. env_presets env = Some cb \<longrightarrow> (\<forall>device s. g_pstat (cb device s) = g_pstat s))"

lemma enter_rfotm_fails:
  assumes "enter_rfotm env ps device shutdown s = (None, s')"
  shows "s' = set_reset_in_progress device False s"
  using assms by (auto simp: enter_rfotm_def Let_def split: if_splits option.splits prod.splits)

lemma enter_rfotm_succeeds:
  assumes "enter_rfotm env ps device shutdown s = (Some ps', s')" and "presets_keep_pstat env"
  shows "ps' = ps\<lparr>ps_s := OC_DOS_RFOTM, ps_cm := 2, ps_tm := 0, ps_p := False\<rparr>" "\<not> ps_isop ps"
    and "\<not> doxm_owned (g_doxm s device)" "nil_uuid (doxm_devowneruuid (g_doxm s device))"
    and "\<forall>d. d \<noteq> device \<longrightarrow> g_pstat s' d = g_pstat s d"
    and "ps_reset_in_progress (g_pstat s' device) = False"
  using assms by (auto simp: enter_rfotm_def Let_def presets_keep_pstat_def pstat_check_ps_state_def split: if_splits option.splits)

lemma enter_owned_result:
  "enter_owned cm isop ps device s = (res, s') \<longleftrightarrow> s' = s \<and>
     res = (if pstat_check_state (ps\<lparr>ps_p := True, ps_cm := cm, ps_tm := 0, ps_isop := isop\<rparr>) device s
       then Some (ps\<lparr>ps_p := False, ps_cm := cm, ps_tm := 0, ps_isop := isop\<rparr>) else None)"
  by (auto simp: enter_owned_def Let_def)

text \<open>The device is owned, and there are credentials for the owners of all security resources.\<close>

definition ready_for_use :: "nat \<Rightarrow> onboarding \<Rightarrow> bool" where
  "ready_for_use device s \<longleftrightarrow>
     doxm_owned (g_doxm s device) \<and> \<not> nil_uuid (doxm_devowneruuid (g_doxm s device)) \<and> \<not> nil_uuid (doxm_deviceuuid (g_doxm s device)) \<and>
     (\<forall>u \<in> {ps_rowneruuid (g_pstat s device), doxm_rowneruuid (g_doxm s device), acl_rowneruuid (g_aclist (ob_acl s) device),
            creds_rowneruuid (g_devices s device)}.
        \<not> nil_uuid u \<and> (\<exists>cred \<in> set (creds_list (g_devices s device)). oc_uuid_is_equal (cred_subjectuuid cred) u))"

lemma pstat_check_state_iff:
  "pstat_check_state ps device s \<longleftrightarrow> pstat_check_ps_state ps \<and> ready_for_use device (set_pstat device ps s)"
  by (auto simp: pstat_check_state_def ready_for_use_def oc_sec_find_creds_for_subject_def list_ex_iff Let_def)

lemma ready_for_use_cong:
  "ps_rowneruuid ps = ps_rowneruuid ps' \<Longrightarrow> ready_for_use device (set_pstat device ps s) = ready_for_use device (set_pstat device ps' s)"
  by (simp add: ready_for_use_def)

lemma ready_for_use_emit [simp]:
  "ready_for_use device (emit_if c e s) = ready_for_use device s" "ready_for_use device (emit_effect e s) = ready_for_use device s"
  by (simp_all add: ready_for_use_def)

text \<open>How a request with another state than RESET ends.\<close>

definition entered :: "nat \<Rightarrow> oc_sec_pstat_t \<Rightarrow> onboarding \<Rightarrow> bool" where
  "entered device ps s \<longleftrightarrow>
     (case ps_s ps of
        OC_DOS_RFOTM \<Rightarrow> \<not> ps_isop (g_pstat s device)
      | OC_DOS_RFPRO \<Rightarrow> \<not> ps_isop (g_pstat s device) \<and> ready_for_use device s
      | OC_DOS_RFNOP \<Rightarrow> ps_isop (g_pstat s device) \<and> ready_for_use device s
      | OC_DOS_SRESET \<Rightarrow> \<not> ps_isop (g_pstat s device) \<and> ready_for_use device s
      | _ \<Rightarrow> False) \<and> ps_s (g_pstat s device) = ps_s ps"

lemma handle_state_owned:
  assumes "oc_pstat_handle_state cfg env ps device from_storage shutdown s = (ok, s')"
    and "ps_s ps \<in> {OC_DOS_RFPRO, OC_DOS_RFNOP, OC_DOS_SRESET}"
  shows "if ok then entered device ps s' \<and> (\<forall>d. d \<noteq> device \<longrightarrow> g_pstat s' d = g_pstat s d) \<and>
      ps_reset_in_progress (g_pstat s' device) = ps_reset_in_progress ps else s' = s"
proof -
  let ?cm = "if ps_s ps = OC_DOS_SRESET then 1 else 0 :: u32" and ?isop = "ps_s ps = OC_DOS_RFNOP"
  let ?ps = "ps\<lparr>ps_cm := ?cm, ps_tm := 0, ps_isop := ?isop, ps_p := False\<rparr>"
  let ?chk = "pstat_check_state (ps\<lparr>ps_p := True, ps_cm := ?cm, ps_tm := 0, ps_isop := ?isop\<rparr>) device s"
  have "oc_pstat_handle_state cfg env ps device from_storage shutdown s =
    (if ?chk then (True, emit_if ?isop (Observers_removed device False) (emit_if False (Created_resources_freed device) (set_pstat device ?ps s)))
     else (False, s))"
    using assms(2) by (auto simp: oc_pstat_handle_state_def enter_owned_def Let_def)
  moreover have "ready_for_use device (set_pstat device ?ps s)" if ?chk
    using that ready_for_use_cong [of ?ps "ps\<lparr>ps_p := True, ps_cm := ?cm, ps_tm := 0, ps_isop := ?isop\<rparr>"]
    by (simp add: pstat_check_state_iff)
  ultimately show ?thesis
    using assms by (auto simp: entered_def split: if_splits)
qed

lemma handle_state_rfotm:
  assumes "oc_pstat_handle_state cfg env ps device from_storage shutdown s = (ok, s')"
    and "ps_s ps = OC_DOS_RFOTM" and "presets_keep_pstat env"
  shows "if ok then entered device ps s' \<and> (\<forall>d. d \<noteq> device \<longrightarrow> g_pstat s' d = g_pstat s d) \<and>
      ps_reset_in_progress (g_pstat s' device) = ps_reset_in_progress ps else s' = set_reset_in_progress device False s"
proof (cases "enter_rfotm env ps device shutdown s")
  case (Pair r t)
  show ?thesis
  proof (cases r)
    case None
    with Pair assms(1,2) have "ok = False" "s' = t"
      by (simp_all add: oc_pstat_handle_state_def)
    with enter_rfotm_fails Pair None show ?thesis
      by simp
  next
    case (Some ps')
    note e = enter_rfotm_succeeds [OF Pair [unfolded Some] assms(3)]
    have "ps_s ps' = OC_DOS_RFOTM"
      using e(1) by simp
    with Pair Some assms(1,2) have "ok" "s' = emit_if False (Observers_removed device False) (emit_if True (Created_resources_freed device) (set_pstat device ps' t))"
      by (auto simp: oc_pstat_handle_state_def Let_def)
    with e assms(2) show ?thesis
      by (simp add: entered_def)
  qed
qed

lemma decode_dos_keeps:
  assumes "decode_dos False reps (ps, t) = Some (ps', t')"
  shows "ps_isop ps' = ps_isop ps \<and> ps_reset_in_progress ps' = ps_reset_in_progress ps \<and> (\<not> t' \<longrightarrow> ps_s ps' = ps_s ps \<and> \<not> t)"
  using assms
proof (induction reps arbitrary: ps t)
  case (Cons dos reps)
  show ?case
  proof (cases "snd dos")
    case (OC_REP_INT v)
    with Cons.prems Cons.IH [of "ps\<lparr>ps_s := dostype_of_int v\<rparr>" True] show ?thesis
      by (auto split: if_splits)
  qed (use Cons in \<open>auto split: if_splits\<close>)
qed simp

lemma decode_pstat_loop_keeps:
  assumes "decode_pstat_loop False reps (ps, t, m) = Some (ps', t', m')"
  shows "ps_isop ps' = ps_isop ps \<and> ps_reset_in_progress ps' = ps_reset_in_progress ps \<and> (\<not> t' \<longrightarrow> ps_s ps' = ps_s ps \<and> \<not> t)"
  using assms
proof (induction reps arbitrary: ps t m)
  case (Cons rep reps)
  show ?case
  proof (cases "snd rep")
    case (OC_REP_INT v)
    with Cons.prems obtain q k where q: "decode_pstat_int False rep v ps = Some (q, k)" "decode_pstat_loop False reps (q, t, m \<or> k) = Some (ps', t', m')"
      by (auto simp: bind_eq_Some_conv)
    have "ps_isop q = ps_isop ps" "ps_reset_in_progress q = ps_reset_in_progress ps" "ps_s q = ps_s ps"
      using q(1) by (auto simp: decode_pstat_int_def split: if_splits)
    with Cons.IH [OF q(2)] show ?thesis
      by simp
  next
    case (OC_REP_OBJECT obj)
    with Cons.prems obtain q k where q: "decode_dos False obj (ps, t) = Some (q, k)" "decode_pstat_loop False reps (q, k, m) = Some (ps', t', m')"
      by (auto simp: bind_eq_Some_conv split: if_splits)
    from Cons.IH [OF q(2)] decode_dos_keeps [OF q(1)] show ?thesis
      by auto
  next
    case (OC_REP_STRING v)
    with Cons.prems have "decode_pstat_loop False reps (ps\<lparr>ps_rowneruuid := parse_uuid_into (Some v) (ps_rowneruuid ps)\<rparr>, t, m) = Some (ps', t', m')"
      by (simp split: if_splits)
    from Cons.IH [OF this] show ?thesis
      by simp
  qed (use Cons in \<open>auto split: if_splits\<close>)
qed simp

lemma reset_flag_unset: "\<not> ps_reset_in_progress (g_pstat s device) \<Longrightarrow> set_reset_in_progress device False s = s"
proof -
  assume "\<not> ps_reset_in_progress (g_pstat s device)"
  then have "(g_pstat s device)\<lparr>ps_reset_in_progress := False\<rparr> = g_pstat s device"
    by (cases "g_pstat s device") simp
  then show ?thesis
    by (simp add: set_reset_in_progress_def set_pstat_def)
qed

lemma entered_unnamed: "\<not> fst (oc_pstat_handle_state cfg env ps device False False s) \<and>
    snd (oc_pstat_handle_state cfg env ps device False False s) = s" if "ps_s ps = OC_DOS_UNNAMED w"
  using that by (simp add: oc_pstat_handle_state_def)

text \<open>A request for a state other than RESET either fails and changes nothing, or enters the state.\<close>

lemma handle_state_result:
  assumes "oc_pstat_handle_state cfg env ps device False False s = (ok, s')" and "ps_s ps \<noteq> OC_DOS_RESET"
    and "presets_keep_pstat env" and "\<not> ps_reset_in_progress (g_pstat s device)"
  shows "if ok then entered device ps s' \<and> (\<forall>d. d \<noteq> device \<longrightarrow> g_pstat s' d = g_pstat s d) \<and>
      ps_reset_in_progress (g_pstat s' device) = ps_reset_in_progress ps else s' = s"
proof (cases "ps_s ps")
  case OC_DOS_RFOTM
  with handle_state_rfotm [OF assms(1) _ assms(3)] reset_flag_unset [OF assms(4)] show ?thesis
    by simp
next
  case (OC_DOS_UNNAMED w)
  with entered_unnamed [OF this, of cfg env device s] assms(1) show ?thesis
    by simp
qed (use handle_state_owned [OF assms(1)] assms(2) in simp_all)

text \<open>All that an accepted or a rejected request can do.\<close>

definition post_outcome :: "nat \<Rightarrow> onboarding \<Rightarrow> onboarding \<Rightarrow> bool" where
  "post_outcome device s s' \<longleftrightarrow>
     (\<exists>ps. valid_transition device (ps_s ps) s \<and> ps_s ps \<noteq> OC_DOS_RESET \<and> entered device ps s') \<or>
     (ps_s (g_pstat s' device) = OC_DOS_RESET \<and> \<not> ps_isop (g_pstat s' device) \<and> delayed_resets s' device) \<or>
     (ps_s (g_pstat s' device) = ps_s (g_pstat s device) \<and> ps_isop (g_pstat s' device) = ps_isop (g_pstat s device))"

lemma post_result:
  assumes "pstat_resource_post cfg env rep device s = (status, s')" and "presets_keep_pstat env"
    and "\<not> ps_reset_in_progress (g_pstat s device)"
  shows "if status = OC_STATUS_CHANGED
    then post_outcome device s s' \<and> (\<forall>d. d \<noteq> device \<longrightarrow> g_pstat s' d = g_pstat s d) \<and> \<not> ps_reset_in_progress (g_pstat s' device)
    else status = OC_STATUS_BAD_REQUEST \<and> s'\<lparr>effects := effects s\<rparr> = s"
proof (cases "decode_pstat_loop False rep (g_pstat s device, False, False)")
  case None
  with assms(1) show ?thesis
    by (auto simp: pstat_resource_post_def oc_sec_decode_pstat_def)
next
  case (Some r)
  obtain ps t m where r: "r = (ps, t, m)"
    by (cases r) auto
  note k = decode_pstat_loop_keeps [OF Some [unfolded r]]
  obtain tm s1 where tm: "(if oc_software_update cfg \<and> m then oc_pstat_handle_target_mode device (ps_tm ps) s else (ps_tm ps, s)) = (tm, s1)"
    by fastforce
  let ?ps = "ps\<lparr>ps_tm := tm\<rparr>"
  have s1: "s1\<lparr>effects := effects s\<rparr> = s" "g_pstat s1 = g_pstat s" "delayed_resets s1 = delayed_resets s"
    using tm by (auto simp: oc_pstat_handle_target_mode_def emit_effect_def split: if_splits)
  obtain ok where ok: "status = (if ok then OC_STATUS_CHANGED else OC_STATUS_BAD_REQUEST)"
    "(if valid_transition device (ps_s ?ps) s1 then
        if t then if ps_s ?ps = OC_DOS_RESET then oc_reset_device_v1 cfg env device False s1
          else oc_pstat_handle_state cfg env ?ps device False False s1
        else (True, set_pstat device ?ps s1)
      else (False, s1)) = (ok, s')"
    using assms(1) by (auto simp: pstat_resource_post_def oc_sec_decode_pstat_def Some r tm Let_def split: prod.splits if_splits)
  consider (invalid) "\<not> valid_transition device (ps_s ?ps) s1" | (keep) "valid_transition device (ps_s ?ps) s1" "\<not> t"
    | (reset) "t" "valid_transition device (ps_s ?ps) s1" "ps_s ?ps = OC_DOS_RESET"
    | (enter) "t" "valid_transition device (ps_s ?ps) s1" "ps_s ?ps \<noteq> OC_DOS_RESET"
    by blast
  then show ?thesis
  proof cases
    case invalid
    with ok s1 show ?thesis
      by auto
  next
    case keep
    with ok s1 k assms(3) show ?thesis
      by (auto simp: post_outcome_def)
  next
    case reset
    with ok have "oc_reset_device_v1 cfg env device False s1 = (ok, s')"
      by simp
    with ok(1) s1 show ?thesis
      by (auto simp: oc_reset_device_v1_def set_delayed_reset_def post_outcome_def zero_pstat_def Let_def split: if_splits)
  next
    case enter
    with ok have h: "oc_pstat_handle_state cfg env ?ps device False False s1 = (ok, s')"
      by simp
    have "valid_transition device (ps_s ?ps) s"
      using enter(2) s1(2) by (simp add: valid_transition_def)
    then have "post_outcome device s s'" if "entered device ?ps s'"
      unfolding post_outcome_def using that enter(3) by blast
    with handle_state_result [OF h enter(3) assms(2)] assms(3) s1 k ok(1) show ?thesis
      by (cases ok) simp_all
  qed
qed

text \<open>
  C8. A request to the provisioning status either is rejected and changes nothing (apart from actions
  of the software update that it has started), or keeps the state, schedules a reset, or enters a
  state that the table of transitions allows: ready for onboarding only from RESET, normal operation not from SRESET,
  SRESET not from RFOTM; provisioning, normal operation and SRESET only when the device is owned
  and there are credentials for the owners of all security resources; and the device is
  operational exactly in normal operation. Other devices are not affected.
\<close>

theorem pstat_post_transitions:
  assumes "pstat_resource_post cfg env rep device s = (status, s')" and "presets_keep_pstat env"
    and "\<not> ps_reset_in_progress (g_pstat s device)"
    and "before = ps_s (g_pstat s device)" and "after = ps_s (g_pstat s' device)" and "isop = ps_isop (g_pstat s' device)"
  shows "(status = OC_STATUS_BAD_REQUEST \<longrightarrow> s'\<lparr>effects := effects s\<rparr> = s) \<and>
    (status = OC_STATUS_CHANGED \<longrightarrow>
       (after = before \<and> isop = ps_isop (g_pstat s device)) \<or>
       (after = OC_DOS_RESET \<and> \<not> isop \<and> delayed_resets s' device) \<or>
       (after = OC_DOS_RFOTM \<and> before \<notin> {OC_DOS_RFPRO, OC_DOS_RFNOP, OC_DOS_SRESET} \<and> \<not> isop) \<or>
       (after = OC_DOS_RFPRO \<and> ready_for_use device s' \<and> \<not> isop) \<or>
       (after = OC_DOS_RFNOP \<and> before \<noteq> OC_DOS_SRESET \<and> ready_for_use device s' \<and> isop) \<or>
       (after = OC_DOS_SRESET \<and> before \<noteq> OC_DOS_RFOTM \<and> ready_for_use device s' \<and> \<not> isop)) \<and>
    status \<in> {OC_STATUS_BAD_REQUEST, OC_STATUS_CHANGED} \<and>
    (\<forall>d. d \<noteq> device \<longrightarrow> g_pstat s' d = g_pstat s d)"
proof (cases "status = OC_STATUS_CHANGED")
  case False
  with post_result [OF assms(1-3)] have b: "status = OC_STATUS_BAD_REQUEST" "s'\<lparr>effects := effects s\<rparr> = s"
    by simp_all
  then have "g_pstat s' = g_pstat s"
    by (metis (no_types, lifting) onboarding.select_convs(1) onboarding.surjective onboarding.update_convs(8))
  with b show ?thesis
    by simp
next
  case True
  with post_result [OF assms(1-3)] have p: "post_outcome device s s'" "\<forall>d. d \<noteq> device \<longrightarrow> g_pstat s' d = g_pstat s d"
    by simp_all
  from p(1) consider (enter) ps where "valid_transition device (ps_s ps) s" "ps_s ps \<noteq> OC_DOS_RESET" "entered device ps s'"
    | (other) "after = OC_DOS_RESET \<and> \<not> isop \<and> delayed_resets s' device \<or> after = before \<and> isop = ps_isop (g_pstat s device)"
    unfolding post_outcome_def assms(4-6) by blast
  then show ?thesis
  proof cases
    case enter
    then show ?thesis
      using True p(2) assms(4-6)
      by (cases "ps_s ps"; cases "ps_s (g_pstat s device)") (simp_all add: entered_def valid_transition_def)
  next
    case other
    with True p(2) show ?thesis
      by blast
  qed
qed

subsection \<open>Operational devices\<close>

lemma reset_pstat:
  assumes "oc_pstat_handle_state cfg env (zero_pstat OC_DOS_RESET) device from_storage shutdown s = (ok, s')"
    and "\<not> ps_reset_in_progress (g_pstat s device)" and "presets_keep_pstat env"
  shows "g_pstat s' = (if ok then (g_pstat s)(device := fresh_pstat) else g_pstat s)"
proof -
  let ?e = "erase_device cfg env device from_storage shutdown s"
  obtain k t where t: "?e = (k, t)"
    by fastforce
  note proj = erase_device_simps [of cfg env device from_storage shutdown s, unfolded t fst_conv snd_conv]
  have z: "ps_s (zero_pstat OC_DOS_RESET) = OC_DOS_RESET"
    by (simp add: zero_pstat_def)
  have flag: "(g_pstat s)(device := (g_pstat s device)\<lparr>ps_reset_in_progress := False\<rparr>) = g_pstat s"
    using reset_flag_unset [OF assms(2)] set_reset_in_progress_simps(1) [of device False s] by simp
  let ?ps = "(zero_pstat OC_DOS_RESET)\<lparr>ps_p := False, ps_isop := False, ps_cm := 1, ps_tm := 2, ps_om := 3, ps_sm := 4,
    ps_rowneruuid := replicate 16 0\<rparr>"
  show ?thesis
  proof (cases k)
    case False
    with assms(1,2) t z have "\<not> ok" "s' = t"
      by (simp_all add: oc_pstat_handle_state_def Let_def)
    with False proj flag show ?thesis
      by simp
  next
    case True
    obtain r u where u: "enter_rfotm env ?ps device shutdown t = (r, u)"
      by fastforce
    show ?thesis
    proof (cases r)
      case None
      then have "u = set_reset_in_progress device False t"
        using u enter_rfotm_fails by blast
      with assms(1,2) t z True u None have "\<not> ok" "s' = set_reset_in_progress device False t"
        by (simp_all add: oc_pstat_handle_state_def Let_def)
      with proj(2) flag show ?thesis
        by simp
    next
      case (Some ps')
      note e = enter_rfotm_succeeds [OF u [unfolded Some] assms(3)]
      have ps': "ps' = fresh_pstat"
        unfolding e(1) by (simp add: zero_pstat_def fresh_pstat_def)
      have "oc_pstat_handle_state cfg env (zero_pstat OC_DOS_RESET) device from_storage shutdown s =
          (True, emit_if (ps_s ps' = OC_DOS_RFNOP) (Observers_removed device False)
            (emit_if (ps_s ps' = OC_DOS_RESET \<or> ps_s ps' = OC_DOS_RFOTM) (Created_resources_freed device) (set_pstat device ps' u)))"
        using assms(2) t z True u Some by (simp add: oc_pstat_handle_state_def Let_def)
      with assms(1) have "ok" "g_pstat s' = (g_pstat u)(device := fresh_pstat)"
        by (auto simp: ps')
      with e(5) proj(2) show ?thesis
        by (auto simp: fun_eq_iff)
    qed
  qed
qed

definition operational_ok :: "onboarding \<Rightarrow> bool" where
  "operational_ok s \<longleftrightarrow> (\<forall>d. (ps_isop (g_pstat s d) \<longleftrightarrow> ps_s (g_pstat s d) = OC_DOS_RFNOP) \<and> \<not> ps_reset_in_progress (g_pstat s d))"

inductive onboarding_step :: "build_cfg \<Rightarrow> nat \<Rightarrow> onboarding \<Rightarrow> onboarding \<Rightarrow> bool" for cfg n where
  status_post: "presets_keep_pstat env \<Longrightarrow> pstat_resource_post cfg env rep device s = (status, s') \<Longrightarrow> onboarding_step cfg n s s'"
| doxm_post: "doxm_resource_post cfg env n rep origin device s = Some (status, s') \<Longrightarrow> onboarding_step cfg n s s'"
| timeout: "presets_keep_pstat env \<Longrightarrow> delayed_resets s device \<Longrightarrow> onboarding_step cfg n s (delayed_reset cfg env device s)"
| reset: "presets_keep_pstat env \<Longrightarrow> onboarding_step cfg n s (snd (oc_reset_device_v1 cfg env device force s))"
| shutdown: "presets_keep_pstat env \<Longrightarrow> ps_s (g_pstat s device) = OC_DOS_RFOTM \<Longrightarrow>
    onboarding_step cfg n s (snd (oc_pstat_reset_device cfg env device True s))"
| boot: "presets_keep_pstat env \<Longrightarrow> onboarding_step cfg n s (oc_sec_pstat_default cfg env device s)"

lemma fresh_pstat_ok: "ps_isop fresh_pstat = False" "ps_s fresh_pstat = OC_DOS_RFOTM" "ps_reset_in_progress fresh_pstat = False"
  by (simp_all add: fresh_pstat_def)

lemma operational_ok_reset:
  assumes "operational_ok s" "presets_keep_pstat env"
  shows "operational_ok (snd (oc_pstat_handle_state cfg env (zero_pstat OC_DOS_RESET) device fs sd s))"
  using reset_pstat [of cfg env device fs sd s, OF prod.collapse [symmetric]] assms
  by (auto simp: operational_ok_def fresh_pstat_ok split: if_splits)

lemma doxm_decode_pstat: "doxm_decode cfg env reps fs doc device d s = (r, s') \<Longrightarrow> g_pstat s' = g_pstat s"
proof (induction reps arbitrary: d s)
  case (Cons rep reps)
  obtain q t where q: "doxm_decode_property cfg env rep fs doc (ps_s (g_pstat s device)) device d s = (q, t)"
    by fastforce
  then have "g_pstat t = g_pstat s"
    by (auto simp: doxm_decode_property_def doxm_decode_int_property_def doxm_evaluate_supported_oxms_def set_doxm_def Let_def
        split: if_splits oc_rep_value.splits)
  with Cons q show ?case
    by (cases q) auto
qed simp

lemma doxm_post_pstat:
  assumes "doxm_resource_post cfg env n rep origin device s = Some (status, s')"
  shows "g_pstat s' = g_pstat s"
proof -
  obtain r t where r: "doxm_decode cfg env rep False (oc_tls_peer_is_doc (sec_view n s) origin) device no_doxm_decode s = (r, t)"
    by fastforce
  with doxm_decode_pstat [OF r] assms show ?thesis
    by (auto simp: doxm_resource_post_def oc_sec_decode_doxm_def set_doxm_def Let_def split: sum.splits decode_error.splits)
qed

lemma delayed_reset_pstat:
  "g_pstat (snd (set_delayed_reset cfg device s)) =
     (if oc_reset_in_progress device s then g_pstat s
      else (g_pstat s)(device := (zero_pstat OC_DOS_RESET)\<lparr>ps_p := True, ps_cm := 1, ps_tm := 2, ps_om := 3, ps_sm := 4\<rparr>))"
  by (simp add: set_delayed_reset_def Let_def)

lemma entered_operational: "entered device ps s \<Longrightarrow> ps_isop (g_pstat s device) \<longleftrightarrow> ps_s (g_pstat s device) = OC_DOS_RFNOP"
  by (cases "ps_s ps") (simp_all add: entered_def)

lemma operational_ok_post:
  assumes "operational_ok s" "presets_keep_pstat env" "pstat_resource_post cfg env rep device s = (status, s')"
  shows "operational_ok s'"
proof -
  have f: "\<not> ps_reset_in_progress (g_pstat s device)"
    using assms(1) by (simp add: operational_ok_def)
  note r = post_result [OF assms(3,2) f]
  show ?thesis
  proof (cases "status = OC_STATUS_CHANGED")
    case False
    with r have "s'\<lparr>effects := effects s\<rparr> = s"
      by simp
    then have "g_pstat s' = g_pstat s"
      by (metis (no_types, lifting) onboarding.select_convs(1) onboarding.surjective onboarding.update_convs(8))
    with assms(1) show ?thesis
      by (simp add: operational_ok_def)
  next
    case True
    have d: "ps_isop (g_pstat s' device) \<longleftrightarrow> ps_s (g_pstat s' device) = OC_DOS_RFNOP"
      using r True assms(1) by (auto simp: post_outcome_def operational_ok_def dest: entered_operational)
    show ?thesis
      unfolding operational_ok_def
    proof (rule allI)
      fix d'
      show "(ps_isop (g_pstat s' d') \<longleftrightarrow> ps_s (g_pstat s' d') = OC_DOS_RFNOP) \<and> \<not> ps_reset_in_progress (g_pstat s' d')"
        using r True d assms(1) by (cases "d' = device") (auto simp: operational_ok_def)
    qed
  qed
qed

lemma onboarding_step_ok:
  assumes "onboarding_step cfg n s s'" and "operational_ok s"
  shows "operational_ok s'"
  using assms(1)
proof (cases rule: onboarding_step.cases)
  case (status_post env rep device status)
  with assms(2) operational_ok_post show ?thesis
    by blast
next
  case (doxm_post env rep origin device status)
  with assms(2) doxm_post_pstat [OF this] show ?thesis
    by (simp add: operational_ok_def)
next
  case (timeout env device)
  have "operational_ok (remove_delayed_reset device s)"
    using assms(2) by (simp add: operational_ok_def)
  from operational_ok_reset [OF this timeout(2)] timeout(1) show ?thesis
    by (simp add: delayed_reset_def oc_reset_device_v1_def oc_pstat_reset_device_def)
next
  case (reset env device force)
  show ?thesis
  proof (cases force)
    case True
    with reset operational_ok_reset [OF assms(2) reset(2)] show ?thesis
      by (simp add: oc_reset_device_v1_def oc_pstat_reset_device_def)
  next
    case False
    with reset assms(2) show ?thesis
      by (simp add: oc_reset_device_v1_def operational_ok_def delayed_reset_pstat zero_pstat_def)
  qed
next
  case (shutdown env device)
  with operational_ok_reset [OF assms(2) shutdown(2)] show ?thesis
    by (simp add: oc_pstat_reset_device_def)
next
  case (boot env device)
  with operational_ok_reset [OF assms(2) boot(2)] show ?thesis
    by (simp add: oc_sec_pstat_default_def)
qed

interpretation onboarding_reach: stepwise_invariant "onboarding_step cfg n" operational_ok
  by unfold_locales (rule onboarding_step_ok)

text \<open>
  C15. In all states that are reached from a consistent one by requests to the provisioning status and to
  the owner transfer resource, by scheduled, forced and shutdown resets and by the defaults at
  start, a device is operational exactly when it is in normal operation, and no reset is left half
  done.
\<close>

theorem operational_iff_RFNOP:
  assumes "(onboarding_step cfg n)\<^sup>*\<^sup>* s s'" and "operational_ok s"
  shows "(ps_isop (g_pstat s' device) \<longleftrightarrow> ps_s (g_pstat s' device) = OC_DOS_RFNOP) \<and> \<not> ps_reset_in_progress (g_pstat s' device)"
proof -
  have "operational_ok s'"
    using assms by (rule onboarding_reach.reachable_inv)
  then show ?thesis
    by (simp add: operational_ok_def)
qed

subsection \<open>A device in use\<close>

definition owner_id :: oc_uuid where "owner_id = replicate 16 9"

definition plain_build :: build_cfg where
  "plain_build = \<lparr>oc_plgd_time = True, oc_introspection = False, oc_wkcore = False, oc_mnt = False, oc_cloud = False,
     oc_software_update = False, oc_pki = True, oc_resource_access_in_rfotm = False\<rparr>"

definition plain_env :: "bool \<Rightarrow> onboarding_env" where
  "plain_env keypair_ok = \<lparr>env_random = (\<lambda>_. 5), env_keypair_ok = keypair_ok, env_presets = None, env_con_announced = False,
     env_pin_otm = (\<lambda>_. False), env_cert_otm = (\<lambda>_. False), env_select_oxms = None\<rparr>"

definition used_device :: "oc_dostype_t \<Rightarrow> onboarding" where
  "used_device state = \<lparr>g_pstat = (\<lambda>_. (zero_pstat state)\<lparr>ps_isop := (state = OC_DOS_RFNOP), ps_rowneruuid := owner_id\<rparr>),
     g_doxm = (\<lambda>_. \<lparr>doxm_oxmsel = 0, doxm_oxms = [0], doxm_sct = 9, doxm_owned = True, doxm_deviceuuid = replicate 16 1,
       doxm_devowneruuid = owner_id, doxm_rowneruuid = owner_id\<rparr>),
     g_devices = (\<lambda>_. \<lparr>creds_list = [\<lparr>cred_subjectuuid = owner_id, cred_type = OC_CREDTYPE_PSK, cred_usage = OC_CREDUSAGE_NULL,
       cred_role = None, cred_authority = None, cred_valid = True\<rparr>], creds_rowneruuid = owner_id\<rparr>),
     ob_acl = empty_acls\<lparr>g_aclist := (\<lambda>_. \<lparr>acl_subjects = [], acl_rowneruuid = owner_id\<rparr>)\<rparr>,
     g_tls_peers = [], device_ids = (\<lambda>_. replicate 16 1), delayed_resets = (\<lambda>_. False), effects = []\<rparr>"

lemma used_device_simps:
  "ps_s (g_pstat (used_device state) d) = state" "ps_reset_in_progress (g_pstat (used_device state) d) = False"
  "ps_isop (g_pstat (used_device state) d) = (state = OC_DOS_RFNOP)" "presets_keep_pstat (plain_env b)"
  "env_presets (plain_env b) = None" "oc_pki plain_build" "env_keypair_ok (plain_env b) = b" "operational_ok (used_device state)"
  by (simp_all add: used_device_def zero_pstat_def presets_keep_pstat_def plain_env_def plain_build_def operational_ok_def)

lemma not_nil [simp]: "\<not> nil_uuid (replicate 16 9)" "\<not> nil_uuid (replicate 16 1)"
  by (simp_all add: nil_uuid_def list_all_iff)

definition state_request :: "int \<Rightarrow> oc_rep" where
  "state_request v = [(Some ''dos'', OC_REP_OBJECT [(Some ''s'', OC_REP_INT v)])]"

lemma provision_to_operation:
  "pstat_resource_post plain_build env (state_request 3) 0 (used_device OC_DOS_RFPRO) =
     (OC_STATUS_CHANGED, emit_effect (Observers_removed 0 False)
        (set_pstat 0 ((zero_pstat OC_DOS_RFNOP)\<lparr>ps_isop := True, ps_rowneruuid := owner_id\<rparr>) (used_device OC_DOS_RFPRO)))"
  by (simp add: pstat_resource_post_def oc_sec_decode_pstat_def state_request_def dostype_of_int_def valid_transition_def
      oc_pstat_handle_state_def enter_owned_def pstat_check_state_def pstat_check_ps_state_def oc_sec_find_creds_for_subject_def
      oc_uuid_is_equal_def used_device_def zero_pstat_def owner_id_def plain_build_def emit_if_def Let_def)

lemma pstat_post_transitions_witness:
  "\<exists>s'. pstat_resource_post plain_build (plain_env True) (state_request 3) 0 (used_device OC_DOS_RFPRO) = (OC_STATUS_CHANGED, s') \<and>
     ready_for_use 0 s' \<and> ps_s (g_pstat s' 0) = OC_DOS_RFNOP"
  using provision_to_operation [of "plain_env True"]
    pstat_post_transitions [OF provision_to_operation [of "plain_env True"] _ _ refl refl refl]
  by (simp add: used_device_simps zero_pstat_def)

lemma operational_iff_RFNOP_witness:
  "\<exists>s'. (onboarding_step plain_build 1)\<^sup>*\<^sup>* (used_device OC_DOS_RFPRO) s' \<and> ps_s (g_pstat s' 0) = OC_DOS_RFNOP \<and> ps_isop (g_pstat s' 0)"
proof -
  let ?s' = "emit_effect (Observers_removed 0 False)
        (set_pstat 0 ((zero_pstat OC_DOS_RFNOP)\<lparr>ps_isop := True, ps_rowneruuid := owner_id\<rparr>) (used_device OC_DOS_RFPRO))"
  have r: "(onboarding_step plain_build 1)\<^sup>*\<^sup>* (used_device OC_DOS_RFPRO) ?s'"
    by (rule r_into_rtranclp, rule onboarding_step.status_post [OF used_device_simps(4) provision_to_operation])
  have "ps_s (g_pstat ?s' 0) = OC_DOS_RFNOP"
    by (simp add: zero_pstat_def)
  with operational_iff_RFNOP [OF r used_device_simps(8), of 0] r show ?thesis
    by blast
qed


subsection \<open>Resets that go wrong\<close>

text \<open>
  When no new key pair can be generated, a forced reset fails after it has erased the owner, the
  credentials and the access control entries of the device, and the provisioning status stays as
  it was: a device in normal operation remains operational without an owner.
\<close>

theorem reset_without_keypair:
  assumes "\<not> ps_reset_in_progress (g_pstat s device)" and "oc_pki cfg" and "\<not> env_keypair_ok env"
    and "oc_pstat_reset_device cfg env device shutdown s = (ok, s')"
  shows "\<not> ok \<and> g_pstat s' = g_pstat s \<and> \<not> doxm_owned (g_doxm s' device) \<and> nil_uuid (doxm_devowneruuid (g_doxm s' device)) \<and>
    creds_list (g_devices s' device) = [] \<and> subjects_of (ob_acl s') device = [] \<and> \<not> ready_for_use device s'"
proof -
  let ?e = "erase_device cfg env device False shutdown s"
  obtain t where t: "?e = (False, t)"
    using assms(2,3) erase_device_simps(1) [of cfg env device False shutdown s] by (cases ?e) auto
  note proj = erase_device_simps [of cfg env device False shutdown s, unfolded t fst_conv snd_conv]
  have z: "ps_s (zero_pstat OC_DOS_RESET) = OC_DOS_RESET"
    by (simp add: zero_pstat_def)
  have r: "\<not> ok" "s' = t"
    using assms(1,4) t z by (simp_all add: oc_pstat_reset_device_def oc_pstat_handle_state_def Let_def)
  have flag: "(g_pstat s)(device := (g_pstat s device)\<lparr>ps_reset_in_progress := False\<rparr>) = g_pstat s"
    using reset_flag_unset [OF assms(1)] set_reset_in_progress_simps(1) [of device False s] by simp
  have "g_pstat s' = g_pstat s" "\<not> doxm_owned (g_doxm s' device)" "nil_uuid (doxm_devowneruuid (g_doxm s' device))"
    "creds_list (g_devices s' device) = []" "subjects_of (ob_acl s') device = []"
    using r(2) proj(2-5) flag assms(2,3) by (simp_all add: oc_sec_doxm_set_default_def acl_default_result)
  with r(1) show ?thesis
    by (simp add: ready_for_use_def)
qed

lemma reset_without_keypair_witness:
  "\<exists>s'. oc_pstat_reset_device plain_build (plain_env False) 0 False (used_device OC_DOS_RFNOP) = (False, s') \<and>
     ps_isop (g_pstat s' 0) \<and> \<not> doxm_owned (g_doxm s' 0)"
proof -
  obtain ok s' where r: "oc_pstat_reset_device plain_build (plain_env False) 0 False (used_device OC_DOS_RFNOP) = (ok, s')"
    by fastforce
  have "\<not> ok \<and> g_pstat s' = g_pstat (used_device OC_DOS_RFNOP) \<and> \<not> doxm_owned (g_doxm s' 0)"
    using reset_without_keypair [OF _ _ _ r] by (simp add: used_device_simps)
  with r show ?thesis
    by (auto simp: used_device_simps)
qed




subsection \<open>Ownership\<close>

text \<open>What the properties of a request may set, in the given state and session.\<close>

definition guarded :: "oc_dostype_t \<Rightarrow> bool \<Rightarrow> oc_doxm_decode_t \<Rightarrow> bool" where
  "guarded state doc d \<longleftrightarrow>
     (dd_owned_set d \<or> dd_deviceuuid d \<noteq> None \<or> dd_devowneruuid d \<noteq> None \<longrightarrow> state = OC_DOS_RFOTM \<and> doc) \<and>
     (dd_rowneruuid d \<noteq> None \<longrightarrow> state \<in> {OC_DOS_RFOTM, OC_DOS_SRESET} \<and> doc) \<and>
     (dd_oxmsel_set d \<longrightarrow> state = OC_DOS_RFOTM \<and> \<not> doc) \<and> \<not> dd_sct_set d"

definition same_but_oxms :: "nat \<Rightarrow> onboarding \<Rightarrow> onboarding \<Rightarrow> bool" where
  "same_but_oxms device s s' \<longleftrightarrow> (\<exists>oxms. s' = set_doxm device ((g_doxm s device)\<lparr>doxm_oxms := oxms\<rparr>) s)"

lemma same_but_oxms_refl [simp]: "same_but_oxms device s s"
  by (auto simp: same_but_oxms_def set_doxm_def intro!: exI [of _ "doxm_oxms (g_doxm s device)"])

lemma same_but_oxms_trans: "same_but_oxms device s t \<Longrightarrow> same_but_oxms device t u \<Longrightarrow> same_but_oxms device s u"
  by (auto simp: same_but_oxms_def set_doxm_def)

lemma same_but_oxms_evaluate: "same_but_oxms device s (doxm_evaluate_supported_oxms cfg env device s)"
  by (auto simp: same_but_oxms_def doxm_evaluate_supported_oxms_def Let_def)

lemma doxm_decode_property_guarded:
  assumes "doxm_decode_property cfg env rep False doc state device d s = (r, s')" and "guarded state doc d"
  shows "same_but_oxms device s s' \<and> (\<forall>d'. r = Inr d' \<longrightarrow> guarded state doc d')"
proof (cases "snd rep")
  case (OC_REP_BOOL v)
  with assms show ?thesis
    by (auto simp: doxm_decode_property_def doxm_decode_bool_property_def guarded_def split: if_splits)
next
  case (OC_REP_INT v)
  with assms show ?thesis
    by (auto simp: doxm_decode_property_def doxm_decode_int_property_def guarded_def same_but_oxms_evaluate Let_def split: if_splits)
next
  case (OC_REP_STRING v)
  with assms show ?thesis
    by (auto simp: doxm_decode_property_def doxm_decode_string_property_def doxm_string_propery_is_writable_def guarded_def split: if_splits)
qed (use assms in \<open>auto simp: doxm_decode_property_def\<close>)

lemma doxm_decode_guarded:
  assumes "doxm_decode cfg env reps False doc device d s = (r, s')" and "guarded (ps_s (g_pstat s device)) doc d"
  shows "same_but_oxms device s s' \<and> (\<forall>d'. r = Inr d' \<longrightarrow> guarded (ps_s (g_pstat s device)) doc d')"
  using assms
proof (induction reps arbitrary: d s)
  case (Cons rep reps)
  let ?state = "ps_s (g_pstat s device)"
  obtain q t where q: "doxm_decode_property cfg env rep False doc ?state device d s = (q, t)"
    by fastforce
  note g = doxm_decode_property_guarded [OF q Cons.prems(2)]
  then have p: "g_pstat t = g_pstat s"
    by (auto simp: same_but_oxms_def set_doxm_def)
  show ?case
  proof (cases q)
    case (Inl e)
    with Cons.prems q g show ?thesis
      by auto
  next
    case (Inr d')
    with Cons.prems q have "doxm_decode cfg env reps False doc device d' t = (r, s')"
      by simp
    from Cons.IH [OF this] g Inr p show ?thesis
      using same_but_oxms_trans by auto
  qed
next
  case Nil
  then have "r = Inr d" "s' = s"
    by simp_all
  with Nil show ?case
    by simp
qed

text \<open>
  C14. A request to the owner transfer resource changes the owner, the identifier or the ownership of a
  device only before onboarding and inside the onboarding session, the owner of the resource only
  inside such a session before onboarding or in SRESET, the transfer method only before onboarding
  outside such a session, and never the supported credential types; a rejected request changes
  only the list of supported methods, and no request changes another device.
\<close>

theorem doxm_post_guarded:
  assumes "doxm_resource_post cfg env n rep origin device s = Some (status, s')"
    and "old = g_doxm s device" and "new = g_doxm s' device"
    and "state = ps_s (g_pstat s device)" and "doc = oc_tls_peer_is_doc (sec_view n s) origin"
  shows "(doxm_owned new \<noteq> doxm_owned old \<or> doxm_devowneruuid new \<noteq> doxm_devowneruuid old \<or>
        doxm_deviceuuid new \<noteq> doxm_deviceuuid old \<longrightarrow> status = OC_STATUS_CHANGED \<and> state = OC_DOS_RFOTM \<and> doc) \<and>
    (doxm_rowneruuid new \<noteq> doxm_rowneruuid old \<longrightarrow>
       status = OC_STATUS_CHANGED \<and> state \<in> {OC_DOS_RFOTM, OC_DOS_SRESET} \<and> doc) \<and>
    (doxm_oxmsel new \<noteq> doxm_oxmsel old \<longrightarrow> status = OC_STATUS_CHANGED \<and> state = OC_DOS_RFOTM \<and> \<not> doc) \<and>
    doxm_sct new = doxm_sct old \<and> (\<forall>d. d \<noteq> device \<longrightarrow> g_doxm s' d = g_doxm s d) \<and> g_pstat s' = g_pstat s"
proof -
  obtain r t where r: "doxm_decode cfg env rep False doc device no_doxm_decode s = (r, t)"
    by fastforce
  have "guarded state doc no_doxm_decode"
    by (simp add: guarded_def no_doxm_decode_def)
  with doxm_decode_guarded [OF r] assms(4) have g: "same_but_oxms device s t" "\<forall>d'. r = Inr d' \<longrightarrow> guarded state doc d'"
    by simp_all
  then obtain oxms where t: "t = set_doxm device (old\<lparr>doxm_oxms := oxms\<rparr>) s"
    using assms(2) by (auto simp: same_but_oxms_def)
  have ps: "g_pstat s' = g_pstat s"
    using doxm_post_pstat [OF assms(1)] .
  show ?thesis
  proof (cases r)
    case (Inl e)
    then have "e = Rejected" "s' = t"
      using assms(1,5) r by (cases e; auto simp: doxm_resource_post_def oc_sec_decode_doxm_def)+
    with t ps assms(2,3) show ?thesis
      by (auto simp: set_doxm_def)
  next
    case (Inr d)
    have st: "status = OC_STATUS_CHANGED"
      and new: "g_doxm s' = (g_doxm t)(device := doxm_decode_copy d (g_doxm t device))"
      using assms(1,5) r Inr by (auto simp: doxm_resource_post_def oc_sec_decode_doxm_def set_doxm_def Let_def)
    have "new = doxm_decode_copy d (old\<lparr>doxm_oxms := oxms\<rparr>)"
      using new t assms(3) by (simp add: set_doxm_def)
    moreover have "guarded state doc d"
      using g(2) Inr by simp
    ultimately show ?thesis
      using st ps new t by (auto simp: guarded_def doxm_decode_copy_def parse_uuid_into_def set_doxm_def)
  qed
qed

lemma doxm_post_guarded_witness:
  "\<exists>s'. doxm_resource_post plain_build (plain_env True) 1 [(Some ''oxmsel'', OC_REP_INT 0)]
      \<lparr>ep_device = 0, ep_flags = 8, ep_di = replicate 16 0, ep_address = replicate 16 1, ep_port = 5683, ep_session_id = 0\<rparr>
      0 (set_pstat 0 fresh_pstat (used_device OC_DOS_RFNOP)) = Some (OC_STATUS_CHANGED, s') \<and>
    doxm_owned (g_doxm s' 0) = doxm_owned (g_doxm (used_device OC_DOS_RFNOP) 0)"
proof -
  let ?ep = "\<lparr>ep_device = 0, ep_flags = 8, ep_di = replicate 16 0, ep_address = replicate 16 1, ep_port = 5683, ep_session_id = 0\<rparr>"
  let ?s = "set_pstat 0 fresh_pstat (used_device OC_DOS_RFNOP)"
  have doc: "oc_tls_peer_is_doc (sec_view m ?s) ?ep = False" for m
    by (simp add: oc_tls_peer_is_doc_def sec_view_def oc_tls_get_peer_def used_device_def)
  obtain s' where r: "doxm_resource_post plain_build (plain_env True) 1 [(Some ''oxmsel'', OC_REP_INT 0)] ?ep 0 ?s = Some (OC_STATUS_CHANGED, s')"
    by (simp add: doxm_resource_post_def doc oc_sec_decode_doxm_def doxm_decode_property_def doxm_decode_int_property_def
        doxm_evaluate_supported_oxms_def set_doxm_def plain_env_def fresh_pstat_ok Let_def)
  have "doxm_owned (g_doxm s' 0) = doxm_owned (g_doxm ?s 0)"
    using doxm_post_guarded [OF r refl refl refl refl] doc by simp
  with r show ?thesis
    by auto
qed

end
