(* ===== verification/OcEventCallback.thy ===== *)
theory OcEventCallback
  imports OcTimer
begin

text \<open>
  Timed and periodic callbacks: \<open>src/api/oc_event_callback.c\<close>. The lists are sequences of the addresses of
  their elements (the refinement is proved in \<open>OcList\<close>); the timer of an element is the event timer of
  \<open>OcTimer\<close> at the same address. What a callback does is code of its owner, reached through a function
  pointer: an argument, which may change the whole state, add and remove callbacks and let time
  pass. The functions that release the data of a callback are arguments that change the state of
  the application only. Whatever \<open>oc_memb_alloc\<close> returned is an argument too; the result \<^const>\<open>None\<close> is
  a computation that does not return or the use of a released element.
\<close>

subsection \<open>State\<close>

datatype oc_event_callback_retval_t = OC_EVENT_DONE | OC_EVENT_CONTINUE

text \<open>A function pointer: the handler of periodic observations, or a callback of another module.\<close>

datatype oc_trigger_t = PERIODIC_OBSERVE_CALLBACK_HANDLER | TRIGGER nat

record 'e event_callbacks =
  g_timed_callbacks :: "node list"
  g_observe_callbacks :: "node list"
  ec_callback :: "node \<Rightarrow> oc_trigger_t"
  ec_data :: "node \<Rightarrow> nat"
  ec_blocks :: "node set"
  ec_timers :: etimers
  ec_kernel :: "'e kernel"
  ec_now :: u64
  g_currently_processed_event_cb :: nodeptr
  g_currently_processed_event_cb_delete :: bool
  g_currently_processed_event_on_delete :: "nat option"

text \<open>
  The processes \<open>oc_etimer_process\<close> and \<open>oc_timed_callback_events\<close>, the functions that release data, and
  the other modules: the callbacks and \<open>coap_notify_observers\<close>.
\<close>

record 'e callback_env =
  etimer_proc :: node
  events_proc :: node
  clock_second :: u64
  release_data :: "nat \<Rightarrow> nat \<Rightarrow> 'e \<Rightarrow> 'e"
  run_trigger :: "nat \<Rightarrow> nat \<Rightarrow> 'e event_callbacks \<Rightarrow> (oc_event_callback_retval_t \<times> 'e event_callbacks) option"
  notify_observers :: "nat \<Rightarrow> 'e event_callbacks \<Rightarrow> (bool \<times> 'e event_callbacks) option"

definition oc_event_callbacks_init :: "'e event_callbacks \<Rightarrow> 'e event_callbacks" where
  "oc_event_callbacks_init s = s\<lparr>g_timed_callbacks := [], g_observe_callbacks := []\<rparr>"

text \<open>\<open>oc_memb_alloc\<close> returned \<open>a\<close> with all bytes zero; \<open>oc_memb_free\<close> takes the block back.\<close>

definition ec_alloc :: "node \<Rightarrow> 'e event_callbacks \<Rightarrow> 'e event_callbacks" where
  "ec_alloc a s = s\<lparr>ec_blocks := insert a (ec_blocks s),
     ec_timers := (ec_timers s)\<lparr>et_timer := (et_timer (ec_timers s))(a := \<lparr>t_start = 0, t_interval = 0\<rparr>),
       et_p := (et_p (ec_timers s))(a := None), et_list := set_next (et_list (ec_timers s)) a None\<rparr>\<rparr>"

definition ec_free :: "node \<Rightarrow> 'e event_callbacks \<Rightarrow> 'e event_callbacks" where
  "ec_free a s = s\<lparr>ec_blocks := ec_blocks s - {a}\<rparr>"

definition ec_stop :: "node \<Rightarrow> 'e event_callbacks \<Rightarrow> 'e event_callbacks option" where
  "ec_stop a s = map_option (\<lambda>t. s\<lparr>ec_timers := t\<rparr>) (oc_etimer_stop (ec_now s) (ec_timers s) a)"

text \<open>\<open>OC_PROCESS_CONTEXT_BEGIN\<close> and \<open>OC_PROCESS_CONTEXT_END\<close> around an operation on a timer.\<close>

definition in_events_context ::
  "'e callback_env \<Rightarrow> ('e kernel \<Rightarrow> etimers \<Rightarrow> ('e kernel \<times> etimers) option) \<Rightarrow> 'e event_callbacks \<Rightarrow>
   'e event_callbacks option" where
  "in_events_context env f s =
     map_option (\<lambda>(k, t). s\<lparr>ec_kernel := k\<lparr>k_current := k_current (ec_kernel s)\<rparr>, ec_timers := t\<rparr>)
       (f ((ec_kernel s)\<lparr>k_current := Some (events_proc env)\<rparr>) (ec_timers s))"

definition ec_set_timer :: "'e callback_env \<Rightarrow> node \<Rightarrow> u64 \<Rightarrow> 'e event_callbacks \<Rightarrow> 'e event_callbacks option" where
  "ec_set_timer env a ticks s =
     in_events_context env (\<lambda>k t. oc_etimer_set (etimer_proc env) (ec_now s) k t a ticks) s"

definition ec_restart :: "'e callback_env \<Rightarrow> node \<Rightarrow> 'e event_callbacks \<Rightarrow> 'e event_callbacks option" where
  "ec_restart env a s = in_events_context env (\<lambda>k t. oc_etimer_restart (etimer_proc env) (ec_now s) k t a) s"

definition on_delete :: "'e callback_env \<Rightarrow> nat option \<Rightarrow> nat \<Rightarrow> 'e event_callbacks \<Rightarrow> 'e event_callbacks" where
  "on_delete env f data s = (case f of
     None \<Rightarrow> s
   | Some g \<Rightarrow> s\<lparr>ec_kernel := (ec_kernel s)\<lparr>k_env := release_data env g data (k_env (ec_kernel s))\<rparr>\<rparr>)"

subsection \<open>Operations\<close>

text \<open>The loop of \<open>event_callbacks_free_event_timers\<close> pops the elements of one of the lists.\<close>

fun event_callbacks_free_event_timers :: "node list \<Rightarrow> 'e event_callbacks \<Rightarrow> 'e event_callbacks option" where
  "event_callbacks_free_event_timers [] s = Some s"
| "event_callbacks_free_event_timers (a # as) s =
     (case ec_stop a s of None \<Rightarrow> None | Some s1 \<Rightarrow> event_callbacks_free_event_timers as (ec_free a s1))"

definition oc_event_callbacks_shutdown :: "'e event_callbacks \<Rightarrow> 'e event_callbacks option" where
  "oc_event_callbacks_shutdown s =
     (case event_callbacks_free_event_timers (g_observe_callbacks s) (s\<lparr>g_observe_callbacks := []\<rparr>) of
        None \<Rightarrow> None
      | Some s1 \<Rightarrow> event_callbacks_free_event_timers (g_timed_callbacks s1) (s1\<lparr>g_timed_callbacks := []\<rparr>))"

definition oc_ri_has_timed_event_callback :: "nat \<Rightarrow> oc_trigger_t \<Rightarrow> bool \<Rightarrow> 'e event_callbacks \<Rightarrow> bool" where
  "oc_ri_has_timed_event_callback cb_data event_callback ignore_cb_data s =
     list_ex (\<lambda>a. ec_callback s a = event_callback \<and> (ignore_cb_data \<or> ec_data s a = cb_data)) (g_timed_callbacks s)"

definition oc_timed_event_callback_is_currently_processed :: "nat \<Rightarrow> oc_trigger_t \<Rightarrow> 'e event_callbacks \<Rightarrow> bool" where
  "oc_timed_event_callback_is_currently_processed cb_data event_callback s =
     (case g_currently_processed_event_cb s of
        None \<Rightarrow> False
      | Some a \<Rightarrow> ec_callback s a = event_callback \<and> ec_data s a = cb_data)"

text \<open>
  The loop of \<open>oc_ri_remove_timed_event_callback_by_filter\<close>, from the element \<open>a\<close> on; the flag is
  \<open>want_to_delete_currently_processed_event_cb\<close>.
\<close>

fun remove_by_filter_loop ::
  "'e callback_env \<Rightarrow> oc_trigger_t \<Rightarrow> (nat \<Rightarrow> bool) \<Rightarrow> bool \<Rightarrow> nat option \<Rightarrow> node list \<Rightarrow> bool \<Rightarrow> 'e event_callbacks \<Rightarrow>
   (bool \<times> 'e event_callbacks) option" where
  "remove_by_filter_loop env cb filt match_all del [] want s = Some (want, s)"
| "remove_by_filter_loop env cb filt match_all del (a # as) want s =
     (if ec_callback s a \<noteq> cb \<or> \<not> filt (ec_data s a) then remove_by_filter_loop env cb filt match_all del as want s
      else if g_currently_processed_event_cb s = Some a then
        (if match_all then remove_by_filter_loop env cb filt match_all del as True s else Some (True, s))
      else case ec_stop a s of
             None \<Rightarrow> None
           | Some s1 \<Rightarrow>
               (let s2 = s1\<lparr>g_timed_callbacks := remove1 a (g_timed_callbacks s1)\<rparr>;
                    s3 = ec_free a (on_delete env del (ec_data s2 a) s2)
                in if match_all then remove_by_filter_loop env cb filt match_all del as False s3 else Some (False, s3)))"

definition oc_ri_remove_timed_event_callback_by_filter ::
  "'e callback_env \<Rightarrow> oc_trigger_t \<Rightarrow> (nat \<Rightarrow> bool) \<Rightarrow> bool \<Rightarrow> nat option \<Rightarrow> 'e event_callbacks \<Rightarrow>
   'e event_callbacks option" where
  "oc_ri_remove_timed_event_callback_by_filter env cb filt match_all del s =
     map_option (\<lambda>(want, s1).
         if want then s1\<lparr>g_currently_processed_event_cb_delete := True, g_currently_processed_event_on_delete := del\<rparr>
         else s1)
       (remove_by_filter_loop env cb filt match_all del (g_timed_callbacks s) False s)"

definition timed_event_is_identical_filter :: "nat \<Rightarrow> nat \<Rightarrow> bool" where
  "timed_event_is_identical_filter cb_data filter_data \<longleftrightarrow> cb_data = filter_data"

definition oc_ri_remove_timed_event_callback ::
  "'e callback_env \<Rightarrow> nat \<Rightarrow> oc_trigger_t \<Rightarrow> 'e event_callbacks \<Rightarrow> 'e event_callbacks option" where
  "oc_ri_remove_timed_event_callback env cb_data event_callback s =
     oc_ri_remove_timed_event_callback_by_filter env event_callback
       (\<lambda>data. timed_event_is_identical_filter data cb_data) False None s"

text \<open>\<open>event_cb\<close> is the result of the allocation.\<close>

definition oc_ri_add_timed_event_callback_ticks ::
  "'e callback_env \<Rightarrow> nodeptr \<Rightarrow> nat \<Rightarrow> oc_trigger_t \<Rightarrow> u64 \<Rightarrow> 'e event_callbacks \<Rightarrow> 'e event_callbacks option" where
  "oc_ri_add_timed_event_callback_ticks env event_cb cb_data event_callback ticks s =
     (case event_cb of
        None \<Rightarrow> Some s
      | Some a \<Rightarrow>
          (let s1 = ec_alloc a s;
               s2 = s1\<lparr>ec_data := (ec_data s1)(a := cb_data), ec_callback := (ec_callback s1)(a := event_callback)\<rparr>
           in map_option (\<lambda>s3. s3\<lparr>g_timed_callbacks := g_timed_callbacks s3 @ [a]\<rparr>) (ec_set_timer env a ticks s2)))"

definition periodic_observe_callback_handler ::
  "'e callback_env \<Rightarrow> nat \<Rightarrow> 'e event_callbacks \<Rightarrow> (oc_event_callback_retval_t \<times> 'e event_callbacks) option" where
  "periodic_observe_callback_handler env data s =
     map_option (\<lambda>(notified, s1). (if notified then OC_EVENT_CONTINUE else OC_EVENT_DONE, s1)) (notify_observers env data s)"

definition invoke ::
  "'e callback_env \<Rightarrow> oc_trigger_t \<Rightarrow> nat \<Rightarrow> 'e event_callbacks \<Rightarrow> (oc_event_callback_retval_t \<times> 'e event_callbacks) option" where
  "invoke env cb data s = (case cb of
     PERIODIC_OBSERVE_CALLBACK_HANDLER \<Rightarrow> periodic_observe_callback_handler env data s
   | TRIGGER n \<Rightarrow> run_trigger env n data s)"

text \<open>One of the two lists.\<close>

definition callback_list :: "bool \<Rightarrow> 'e event_callbacks \<Rightarrow> node list" where
  "callback_list observe s = (if observe then g_observe_callbacks s else g_timed_callbacks s)"

definition remove_from_list :: "bool \<Rightarrow> node \<Rightarrow> 'e event_callbacks \<Rightarrow> 'e event_callbacks" where
  "remove_from_list observe a s =
     (if observe then s\<lparr>g_observe_callbacks := remove1 a (g_observe_callbacks s)\<rparr>
      else s\<lparr>g_timed_callbacks := remove1 a (g_timed_callbacks s)\<rparr>)"

definition set_processed :: "nodeptr \<Rightarrow> 'e event_callbacks \<Rightarrow> 'e event_callbacks" where
  "set_processed p s = s\<lparr>g_currently_processed_event_cb := p, g_currently_processed_event_cb_delete := False,
     g_currently_processed_event_on_delete := None\<rparr>"

text \<open>
  The body of the loop of \<open>event_callbacks_poll_timers\<close> for an expired element: the call and what follows.
\<close>

definition process_expired :: "'e callback_env \<Rightarrow> bool \<Rightarrow> node \<Rightarrow> 'e event_callbacks \<Rightarrow> 'e event_callbacks option" where
  "process_expired env observe a s =
     (case invoke env (ec_callback s a) (ec_data s a) (set_processed (Some a) s) of
        None \<Rightarrow> None
      | Some (r, s1) \<Rightarrow>
          if a \<notin> ec_blocks s1 then None
          else if r = OC_EVENT_DONE \<or> g_currently_processed_event_cb_delete s1 then
            (let s2 = remove_from_list observe a s1
             in Some (ec_free a (on_delete env (g_currently_processed_event_on_delete s2) (ec_data s2 a) s2)))
          else ec_restart env a s1)"

partial_function (option) poll_timers_loop ::
  "'e callback_env \<Rightarrow> bool \<Rightarrow> node list \<Rightarrow> 'e event_callbacks \<Rightarrow> 'e event_callbacks option" where
  "poll_timers_loop env observe event_cb s = (case event_cb of
     [] \<Rightarrow> Some s
   | a # as \<Rightarrow>
       if \<not> oc_etimer_expired (ec_timers s) a then poll_timers_loop env observe as s
       else case process_expired env observe a s of
              None \<Rightarrow> None
            | Some s1 \<Rightarrow> poll_timers_loop env observe (callback_list observe s1) s1)"

definition event_callbacks_poll_timers :: "'e callback_env \<Rightarrow> bool \<Rightarrow> 'e event_callbacks \<Rightarrow> 'e event_callbacks option" where
  "event_callbacks_poll_timers env observe s =
     map_option (set_processed None) (poll_timers_loop env observe (callback_list observe s) s)"

subsection \<open>Periodic observations\<close>

definition oc_periodic_observe_callback_get :: "nat \<Rightarrow> 'e event_callbacks \<Rightarrow> nodeptr" where
  "oc_periodic_observe_callback_get resource s = find (\<lambda>a. ec_data s a = resource) (g_observe_callbacks s)"

text \<open>\<open>period\<close> is \<open>resource->observe_period_seconds\<close>.\<close>

definition oc_periodic_observe_callback_add ::
  "'e callback_env \<Rightarrow> nodeptr \<Rightarrow> nat \<Rightarrow> u16 \<Rightarrow> 'e event_callbacks \<Rightarrow> (bool \<times> 'e event_callbacks) option" where
  "oc_periodic_observe_callback_add env event_cb resource period s =
     (if oc_periodic_observe_callback_get resource s \<noteq> None then Some (True, s)
      else case event_cb of
             None \<Rightarrow> Some (False, s)
           | Some a \<Rightarrow>
               (let s1 = ec_alloc a s;
                    s2 = s1\<lparr>ec_data := (ec_data s1)(a := resource),
                            ec_callback := (ec_callback s1)(a := PERIODIC_OBSERVE_CALLBACK_HANDLER)\<rparr>
                in map_option (\<lambda>s3. (True, s3\<lparr>g_observe_callbacks := g_observe_callbacks s3 @ [a]\<rparr>))
                     (ec_set_timer env a (ucast period * clock_second env) s2)))"

definition oc_periodic_observe_callback_remove :: "nat \<Rightarrow> 'e event_callbacks \<Rightarrow> (bool \<times> 'e event_callbacks) option" where
  "oc_periodic_observe_callback_remove resource s =
     (case oc_periodic_observe_callback_get resource s of
        None \<Rightarrow> Some (False, s)
      | Some a \<Rightarrow>
          map_option (\<lambda>s1. (True, ec_free a (s1\<lparr>g_observe_callbacks := remove1 a (g_observe_callbacks s1)\<rparr>))) (ec_stop a s))"

definition oc_periodic_observe_callback_count :: "'e event_callbacks \<Rightarrow> nat" where
  "oc_periodic_observe_callback_count s = length (g_observe_callbacks s)"

definition event_callbacks_check :: "'e callback_env \<Rightarrow> 'e event_callbacks \<Rightarrow> 'e event_callbacks option" where
  "event_callbacks_check env s = Option.bind (event_callbacks_poll_timers env True s) (event_callbacks_poll_timers env False)"

text \<open>One resumption of the protothread \<open>oc_timed_callback_events\<close> after its start.\<close>

definition oc_timed_callback_events :: "'e callback_env \<Rightarrow> u8 \<Rightarrow> 'e event_callbacks \<Rightarrow> 'e event_callbacks option" where
  "oc_timed_callback_events env ev s = (if ev = OC_PROCESS_EVENT_TIMER then event_callbacks_check env s else Some s)"

subsection \<open>Well-formed states\<close>

text \<open>Exactly the blocks whose timer has a process are linked into the list of pending timers.\<close>

definition linked :: "node set \<Rightarrow> etimers \<Rightarrow> bool" where
  "linked B t \<longleftrightarrow> (\<exists>ts. list_repr (et_list t) ts \<and> (\<forall>a \<in> B. a \<in> set ts \<longleftrightarrow> et_p t a \<noteq> None))"

definition ec_wf :: "'e event_callbacks \<Rightarrow> bool" where
  "ec_wf s \<longleftrightarrow> distinct (g_timed_callbacks s @ g_observe_callbacks s) \<and>
     ec_blocks s = set (g_timed_callbacks s @ g_observe_callbacks s) \<and> linked (ec_blocks s) (ec_timers s)"

text \<open>A block that is in use neither here nor as an event timer of another module.\<close>

definition unused :: "node \<Rightarrow> 'e event_callbacks \<Rightarrow> bool" where
  "unused a s \<longleftrightarrow> a \<notin> ec_blocks s \<and> (\<forall>ts. list_repr (et_list (ec_timers s)) ts \<longrightarrow> a \<notin> set ts)"

definition pending :: "'e event_callbacks \<Rightarrow> (oc_trigger_t \<times> nat) list" where
  "pending s = map (\<lambda>a. (ec_callback s a, ec_data s a)) (g_timed_callbacks s)"

lemma linkedD:
  "linked B t \<Longrightarrow> \<exists>ts. list_repr (et_list t) ts \<and> (\<forall>a \<in> B. a \<in> set ts \<longleftrightarrow> et_p t a \<noteq> None) \<and> distinct ts"
  using list_reprD by (fastforce simp: linked_def)

lemma linked_mono: "linked B t \<Longrightarrow> A \<subseteq> B \<Longrightarrow> linked A t"
  by (auto simp: linked_def)

lemma stop_linked:
  assumes "linked B t"
  shows "\<exists>t'. oc_etimer_stop now t a = Some t' \<and> linked B t' \<and> et_timer t' = et_timer t \<and> et_p t' = (et_p t)(a := None)"
proof -
  from linkedD [OF assms] obtain ts where
    ts: "list_repr (et_list t) ts" "\<forall>a \<in> B. a \<in> set ts \<longleftrightarrow> et_p t a \<noteq> None" "distinct ts" by blast
  from oc_etimer_stop_ok [OF ts(1), of now a] obtain t' where
    t': "oc_etimer_stop now t a = Some t'" "list_repr (et_list t') (remove1 a ts)" "et_timer t' = et_timer t"
      "et_p t' = (et_p t)(a := None)" by blast
  have "linked B t'"
    unfolding linked_def t'(4) using t'(2) ts(2,3) by (intro exI [of _ "remove1 a ts"]) auto
  with t' show ?thesis by blast
qed

lemma add_linked:
  assumes "linked B t" and "a \<in> B" and "k_current k = Some p"
  shows "\<exists>t'. etimer_add_timer self now k t a = Some (oc_process_poll k (Some self), t') \<and> linked B t' \<and>
    et_timer t' = et_timer t \<and> et_p t' = (et_p t)(a := Some p)"
proof -
  from linkedD [OF assms(1)] obtain ts where
    ts: "list_repr (et_list t) ts" "\<forall>a \<in> B. a \<in> set ts \<longleftrightarrow> et_p t a \<noteq> None" by blast
  have "et_p t a = None \<longrightarrow> a \<notin> set ts" using ts(2) assms(2) by simp
  from etimer_add_timer_ok [OF ts(1) assms(3) this, of self now] obtain t' where
    t': "etimer_add_timer self now k t a = Some (oc_process_poll k (Some self), t')"
      "list_repr (et_list t') (if a \<in> set ts then ts else a # ts)" "et_timer t' = et_timer t"
      "et_p t' = (et_p t)(a := Some p)" by blast
  have "linked B t'"
    unfolding linked_def t'(4) using t'(2) ts(2)
    by (intro exI [of _ "if a \<in> set ts then ts else a # ts"]) auto
  with t' show ?thesis by blast
qed

lemma alloc_linked:
  assumes "linked (ec_blocks s) (ec_timers s)" and "unused a s"
  shows "linked (insert a (ec_blocks s)) (ec_timers (ec_alloc a s))"
proof -
  from linkedD [OF assms(1)] obtain ts where
    ts: "list_repr (et_list (ec_timers s)) ts" "\<forall>b \<in> ec_blocks s. b \<in> set ts \<longleftrightarrow> et_p (ec_timers s) b \<noteq> None" by blast
  from assms(2) ts(1) have "a \<notin> ec_blocks s" "a \<notin> set ts" by (auto simp: unused_def)
  with ts show ?thesis
    by (auto simp: linked_def ec_alloc_def list_repr_def intro!: exI [of _ ts])
qed

lemma ec_wf_linked: "ec_wf s \<Longrightarrow> linked (ec_blocks s) (ec_timers s)"
  unfolding ec_wf_def by blast

lemma ec_stop_ok:
  assumes "ec_wf s"
  shows "\<exists>t. ec_stop a s = Some (s\<lparr>ec_timers := t\<rparr>) \<and> linked (ec_blocks s) t \<and> et_p t = (et_p (ec_timers s))(a := None)"
  using stop_linked [of "ec_blocks s" "ec_timers s" "ec_now s" a] assms
  unfolding ec_stop_def ec_wf_def by (metis option.simps(9))

text \<open>Arming a timer in the context of the process of the callbacks.\<close>

definition armed :: "'e callback_env \<Rightarrow> node \<Rightarrow> oc_timer \<Rightarrow> 'e event_callbacks \<Rightarrow> 'e event_callbacks \<Rightarrow> bool" where
  "armed env a timer s s' \<longleftrightarrow> (\<exists>k t. s' = s\<lparr>ec_kernel := k, ec_timers := t\<rparr> \<and> k_env k = k_env (ec_kernel s) \<and>
     linked (ec_blocks s) t \<and> et_timer t = (et_timer (ec_timers s))(a := timer) \<and>
     et_p t = (et_p (ec_timers s))(a := Some (events_proc env)))"

lemma linked_set_timer [simp]: "linked B (t\<lparr>et_timer := f\<rparr>) \<longleftrightarrow> linked B t"
  by (simp add: linked_def)

lemma in_context_armed:
  assumes "linked (ec_blocks s) (ec_timers s)" and "a \<in> ec_blocks s"
  shows "\<exists>s'. in_events_context env (\<lambda>k t. etimer_add_timer self now k (set_timer t a timer) a) s = Some s' \<and>
    armed env a timer s s'"
proof -
  let ?t = "set_timer (ec_timers s) a timer"
  let ?k = "(ec_kernel s)\<lparr>k_current := Some (events_proc env)\<rparr>"
  let ?k2 = "(oc_process_poll ?k (Some self))\<lparr>k_current := k_current (ec_kernel s)\<rparr>"
  from add_linked [of "ec_blocks s" ?t a ?k "events_proc env" self now] assms obtain t' where
    t': "etimer_add_timer self now ?k ?t a = Some (oc_process_poll ?k (Some self), t')" "linked (ec_blocks s) t'"
    "et_timer t' = et_timer ?t" "et_p t' = (et_p ?t)(a := Some (events_proc env))"
    by auto
  have "k_env ?k2 = k_env (ec_kernel s)" by (simp add: oc_process_poll_def)
  with t'(2-4) have "armed env a timer s (s\<lparr>ec_kernel := ?k2, ec_timers := t'\<rparr>)"
    unfolding armed_def by (intro exI [of _ ?k2] exI [of _ t']) simp
  with t'(1) show ?thesis by (simp add: in_events_context_def)
qed

lemma ec_restart_ok:
  assumes "ec_wf s" and "a \<in> ec_blocks s"
  shows "\<exists>s'. ec_restart env a s = Some s' \<and> armed env a ((et_timer (ec_timers s) a)\<lparr>t_start := ec_now s\<rparr>) s s'"
proof -
  have "ec_restart env a s = in_events_context env (\<lambda>k t. etimer_add_timer (etimer_proc env) (ec_now s) k
      (set_timer t a ((et_timer (ec_timers s) a)\<lparr>t_start := ec_now s\<rparr>)) a) s"
    by (simp add: ec_restart_def in_events_context_def oc_etimer_restart_def oc_timer_restart_def)
  then show ?thesis
    by (simp only: in_context_armed [OF ec_wf_linked [OF assms(1)] assms(2)])
qed

lemma ec_set_timer_ok:
  assumes "linked (ec_blocks s) (ec_timers s)" and "a \<in> ec_blocks s"
  shows "\<exists>s'. ec_set_timer env a ticks s = Some s' \<and> armed env a \<lparr>t_start = ec_now s, t_interval = ticks\<rparr> s s'"
proof -
  have "oc_timer_set (et_timer (ec_timers s) a) (ec_now s) ticks = \<lparr>t_start = ec_now s, t_interval = ticks\<rparr>"
    by (simp add: oc_timer_set_def)
  then have "ec_set_timer env a ticks s = in_events_context env (\<lambda>k t. etimer_add_timer (etimer_proc env) (ec_now s) k
      (set_timer t a \<lparr>t_start = ec_now s, t_interval = ticks\<rparr>) a) s"
    by (simp add: ec_set_timer_def in_events_context_def oc_etimer_set_def)
  then show ?thesis
    by (simp only: in_context_armed [OF assms])
qed

lemma armed_wf: "armed env a timer s s' \<Longrightarrow> ec_wf s \<Longrightarrow> ec_wf s'"
  by (auto simp: armed_def ec_wf_def)

subsection \<open>Adding and removing\<close>

lemma on_delete_None [simp]: "on_delete env None d s = s"
  by (simp add: on_delete_def)

lemma on_delete_simps [simp]:
  "g_timed_callbacks (on_delete env f d s) = g_timed_callbacks s" "g_observe_callbacks (on_delete env f d s) = g_observe_callbacks s"
  "ec_callback (on_delete env f d s) = ec_callback s" "ec_data (on_delete env f d s) = ec_data s"
  "ec_blocks (on_delete env f d s) = ec_blocks s" "ec_timers (on_delete env f d s) = ec_timers s"
  "ec_now (on_delete env f d s) = ec_now s" "g_currently_processed_event_cb (on_delete env f d s) = g_currently_processed_event_cb s"
  "g_currently_processed_event_cb_delete (on_delete env f d s) = g_currently_processed_event_cb_delete s"
  by (simp_all add: on_delete_def split: option.split)

lemma add_timed_ok:
  assumes "ec_wf s" and "unused a s"
  shows "\<exists>s'. oc_ri_add_timed_event_callback_ticks env (Some a) d cb ticks s = Some s' \<and> ec_wf s' \<and>
    g_timed_callbacks s' = g_timed_callbacks s @ [a] \<and> g_observe_callbacks s' = g_observe_callbacks s \<and>
    ec_callback s' = (ec_callback s)(a := cb) \<and> ec_data s' = (ec_data s)(a := d) \<and>
    et_timer (ec_timers s') a = \<lparr>t_start = ec_now s, t_interval = ticks\<rparr> \<and>
    et_p (ec_timers s') = (et_p (ec_timers s))(a := Some (events_proc env)) \<and> k_env (ec_kernel s') = k_env (ec_kernel s) \<and>
    g_currently_processed_event_cb s' = g_currently_processed_event_cb s"
proof -
  let ?s1 = "ec_alloc a s"
  let ?s2 = "?s1\<lparr>ec_data := (ec_data ?s1)(a := d), ec_callback := (ec_callback ?s1)(a := cb)\<rparr>"
  have l: "linked (ec_blocks ?s2) (ec_timers ?s2)"
    using alloc_linked [OF ec_wf_linked [OF assms(1)] assms(2)] by (simp add: ec_alloc_def)
  have "a \<in> ec_blocks ?s2" by (simp add: ec_alloc_def)
  from ec_set_timer_ok [OF l this, of env ticks] obtain s3 where
    s3: "ec_set_timer env a ticks ?s2 = Some s3" "armed env a \<lparr>t_start = ec_now ?s2, t_interval = ticks\<rparr> ?s2 s3"
    by blast
  have new: "a \<notin> set (g_timed_callbacks s)" "a \<notin> set (g_observe_callbacks s)"
    using assms by (auto simp: unused_def ec_wf_def)
  from s3 have eq: "oc_ri_add_timed_event_callback_ticks env (Some a) d cb ticks s =
      Some (s3\<lparr>g_timed_callbacks := g_timed_callbacks s3 @ [a]\<rparr>)"
    by (simp add: oc_ri_add_timed_event_callback_ticks_def Let_def)
  from s3(2) obtain k t where kt: "s3 = ?s2\<lparr>ec_kernel := k, ec_timers := t\<rparr>" "linked (ec_blocks ?s2) t" "k_env k = k_env (ec_kernel ?s2)"
    "et_timer t = (et_timer (ec_timers ?s2))(a := \<lparr>t_start = ec_now ?s2, t_interval = ticks\<rparr>)"
    "et_p t = (et_p (ec_timers ?s2))(a := Some (events_proc env))"
    unfolding armed_def by blast
  show ?thesis
    unfolding eq kt(1) using kt(2-5) new assms(1) by (auto simp: ec_wf_def ec_alloc_def)
qed

text \<open>What removing keeps.\<close>

definition same_owners :: "'e event_callbacks \<Rightarrow> 'e event_callbacks \<Rightarrow> bool" where
  "same_owners s s' \<longleftrightarrow> ec_callback s' = ec_callback s \<and> ec_data s' = ec_data s \<and>
     g_observe_callbacks s' = g_observe_callbacks s \<and> g_currently_processed_event_cb s' = g_currently_processed_event_cb s \<and>
     g_currently_processed_event_cb_delete s' = g_currently_processed_event_cb_delete s"

definition drop_timed :: "'e callback_env \<Rightarrow> nat option \<Rightarrow> node \<Rightarrow> 'e event_callbacks \<Rightarrow> 'e event_callbacks" where
  "drop_timed env del a s = (let s2 = s\<lparr>g_timed_callbacks := remove1 a (g_timed_callbacks s)\<rparr>
     in ec_free a (on_delete env del (ec_data s2 a) s2))"

lemma callback_list_simps [simp]:
  "callback_list observe (on_delete env f d s) = callback_list observe s" "callback_list observe (ec_free a s) = callback_list observe s"
  "callback_list observe (remove_from_list observe a s) = remove1 a (callback_list observe s)"
  "callback_list observe (s\<lparr>ec_timers := t\<rparr>) = callback_list observe s"
  "callback_list observe (s\<lparr>ec_kernel := k\<rparr>) = callback_list observe s"
  by (simp_all add: callback_list_def ec_free_def remove_from_list_def)

lemma ec_wf_remove:
  assumes "ec_wf s" and "a \<in> set (callback_list observe s)"
  shows "ec_wf (ec_free a (on_delete env f d (remove_from_list observe a s)))"
proof -
  let ?s = "remove_from_list observe a s"
  from assms(1) have d: "distinct (g_timed_callbacks s @ g_observe_callbacks s)"
    and b: "ec_blocks s = set (g_timed_callbacks s @ g_observe_callbacks s)"
    by (auto simp: ec_wf_def)
  from d assms(2) have "distinct (g_timed_callbacks ?s @ g_observe_callbacks ?s)"
    by (auto simp: set_remove1_eq distinct_remove1 remove_from_list_def callback_list_def split: if_splits)
  moreover have "ec_blocks s - {a} = set (g_timed_callbacks ?s @ g_observe_callbacks ?s)"
    using d b assms(2) by (auto simp: set_remove1_eq remove_from_list_def callback_list_def split: if_splits)
  moreover have "linked (ec_blocks s - {a}) (ec_timers s)" using linked_mono [OF ec_wf_linked [OF assms(1)]] by blast
  moreover have "ec_blocks ?s = ec_blocks s" "ec_timers ?s = ec_timers s" by (simp_all add: remove_from_list_def)
  ultimately show ?thesis by (simp add: ec_wf_def ec_free_def)
qed

lemma ec_wf_drop:
  assumes "ec_wf s" and "linked (ec_blocks s) t" and "a \<in> set (g_timed_callbacks s)"
  shows "ec_wf (drop_timed env del a (s\<lparr>ec_timers := t\<rparr>))"
proof -
  have "ec_wf (s\<lparr>ec_timers := t\<rparr>)" using assms(1,2) by (simp add: ec_wf_def)
  from ec_wf_remove [OF this, of a False env del] assms(3) show ?thesis
    by (simp add: drop_timed_def remove_from_list_def callback_list_def)
qed

lemma stop_drop_ok:
  assumes "ec_wf s" and "a \<in> set (g_timed_callbacks s)"
  shows "\<exists>s1. ec_stop a s = Some s1 \<and> ec_wf (drop_timed env del a s1) \<and>
    g_timed_callbacks (drop_timed env del a s1) = remove1 a (g_timed_callbacks s) \<and>
    same_owners s (drop_timed env del a s1) \<and>
    (del = None \<longrightarrow> k_env (ec_kernel (drop_timed env del a s1)) = k_env (ec_kernel s))"
proof -
  from ec_stop_ok [OF assms(1), of a] obtain t where
    "ec_stop a s = Some (s\<lparr>ec_timers := t\<rparr>)" "linked (ec_blocks s) t" by blast
  with ec_wf_drop [OF assms(1) _ assms(2)] show ?thesis
    by (simp add: same_owners_def drop_timed_def ec_free_def)
qed

lemma same_owners_refl [simp]: "same_owners s s"
  by (simp add: same_owners_def)

lemma same_owners_trans: "same_owners s s1 \<Longrightarrow> same_owners s1 s2 \<Longrightarrow> same_owners s s2"
  by (simp add: same_owners_def)

abbreviation matching :: "'e event_callbacks \<Rightarrow> oc_trigger_t \<Rightarrow> (nat \<Rightarrow> bool) \<Rightarrow> node \<Rightarrow> bool" where
  "matching s cb filt a \<equiv> ec_callback s a = cb \<and> filt (ec_data s a)"

text \<open>All matching elements but the one that is being processed are removed.\<close>

lemma remove_loop_all:
  assumes "ec_wf s" and "g_timed_callbacks s = pre @ as"
  shows "\<exists>w s'. remove_by_filter_loop env cb filt True del as want s = Some (w, s') \<and> ec_wf s' \<and> same_owners s s' \<and>
    g_timed_callbacks s' = pre @ filter (\<lambda>a. \<not> matching s cb filt a \<or> g_currently_processed_event_cb s = Some a) as \<and>
    w = (if filter (matching s cb filt) as = [] then want
         else g_currently_processed_event_cb s = Some (last (filter (matching s cb filt) as)))"
  using assms
proof (induction as arbitrary: s pre want)
  case Nil
  then show ?case by simp
next
  case (Cons a as)
  show ?case
  proof (cases "matching s cb filt a")
    case False
    with Cons.IH [of s "pre @ [a]" want] Cons.prems show ?thesis by auto
  next
    case match: True
    show ?thesis
    proof (cases "g_currently_processed_event_cb s = Some a")
      case True
      with match Cons.IH [of s "pre @ [a]" True] Cons.prems show ?thesis by auto
    next
      case False
      from Cons.prems have "a \<in> set (g_timed_callbacks s)" by simp
      from stop_drop_ok [OF Cons.prems(1) this, of env del] obtain s1 where
        s1: "ec_stop a s = Some s1" "ec_wf (drop_timed env del a s1)" "same_owners s (drop_timed env del a s1)"
          "g_timed_callbacks (drop_timed env del a s1) = remove1 a (g_timed_callbacks s)" by blast
      have "a \<notin> set pre" using Cons.prems by (auto simp: ec_wf_def)
      with s1(4) Cons.prems(2) have "g_timed_callbacks (drop_timed env del a s1) = pre @ as"
        by (simp add: remove1_append)
      from Cons.IH [OF s1(2) this, of False] obtain w s' where
        s': "remove_by_filter_loop env cb filt True del as False (drop_timed env del a s1) = Some (w, s')" "ec_wf s'"
          "same_owners (drop_timed env del a s1) s'"
          "g_timed_callbacks s' = pre @ filter (\<lambda>b. \<not> matching s cb filt b \<or> g_currently_processed_event_cb s = Some b) as"
          "w = (if filter (matching s cb filt) as = [] then False
             else g_currently_processed_event_cb s = Some (last (filter (matching s cb filt) as)))"
        using s1(3) by (auto simp: same_owners_def)
      have "remove_by_filter_loop env cb filt True del (a # as) want s = Some (w, s')"
        using match False s1(1) s'(1) by (simp add: drop_timed_def Let_def)
      with match False s' same_owners_trans [OF s1(3) s'(3)] show ?thesis by auto
    qed
  qed
qed

text \<open>The first matching element is removed unless it is being processed.\<close>

lemma remove_loop_first:
  assumes "ec_wf s" and "g_timed_callbacks s = pre @ as"
  shows "\<exists>s'. remove_by_filter_loop env cb filt False del as False s =
      Some (\<exists>b. find (matching s cb filt) as = Some b \<and> g_currently_processed_event_cb s = Some b, s') \<and>
    ec_wf s' \<and> same_owners s s' \<and> (del = None \<longrightarrow> k_env (ec_kernel s') = k_env (ec_kernel s)) \<and>
    g_timed_callbacks s' = (case find (matching s cb filt) as of
       None \<Rightarrow> g_timed_callbacks s
     | Some b \<Rightarrow> if g_currently_processed_event_cb s = Some b then g_timed_callbacks s
                 else remove1 b (g_timed_callbacks s))"
  using assms
proof (induction as arbitrary: pre)
  case Nil
  then show ?case by simp
next
  case (Cons a as)
  show ?case
  proof (cases "matching s cb filt a")
    case False
    with Cons.IH [of "pre @ [a]"] Cons.prems show ?thesis by auto
  next
    case True
    from Cons.prems have "a \<in> set (g_timed_callbacks s)" by simp
    from stop_drop_ok [OF Cons.prems(1) this, of env del] obtain s1 where
      "ec_stop a s = Some s1" "ec_wf (drop_timed env del a s1)" "same_owners s (drop_timed env del a s1)"
        "g_timed_callbacks (drop_timed env del a s1) = remove1 a (g_timed_callbacks s)"
        "del = None \<longrightarrow> k_env (ec_kernel (drop_timed env del a s1)) = k_env (ec_kernel s)" by blast
    with True Cons.prems(1) show ?thesis by (auto simp: drop_timed_def Let_def)
  qed
qed

subsection \<open>Polling\<close>

lemma set_processed_simps [simp]:
  "ec_wf (set_processed p s) = ec_wf s" "callback_list observe (set_processed p s) = callback_list observe s"
  "ec_callback (set_processed p s) = ec_callback s" "ec_data (set_processed p s) = ec_data s" "ec_timers (set_processed p s) = ec_timers s"
  "ec_blocks (set_processed p s) = ec_blocks s" "g_currently_processed_event_cb (set_processed p s) = p" "ec_now (set_processed p s) = ec_now s"
  "ec_kernel (set_processed p s) = ec_kernel s" "g_currently_processed_event_cb_delete (set_processed p s) = False"
  "g_currently_processed_event_on_delete (set_processed p s) = None" "g_timed_callbacks (set_processed p s) = g_timed_callbacks s"
  by (simp_all add: set_processed_def ec_wf_def callback_list_def)

lemma ec_wf_updates [simp]:
  "ec_wf (s\<lparr>ec_kernel := k\<rparr>) = ec_wf s" "ec_wf (s\<lparr>g_currently_processed_event_cb_delete := b\<rparr>) = ec_wf s"
  "ec_wf (s\<lparr>g_currently_processed_event_on_delete := d\<rparr>) = ec_wf s" "ec_wf (s\<lparr>ec_data := f\<rparr>) = ec_wf s"
  "ec_wf (s\<lparr>g_currently_processed_event_cb := p\<rparr>) = ec_wf s"
  by (simp_all add: ec_wf_def)

lemma listed_block: "ec_wf s \<Longrightarrow> a \<in> set (callback_list observe s) \<Longrightarrow> a \<in> ec_blocks s"
  by (auto simp: ec_wf_def callback_list_def split: if_splits)

lemma poll_skip:
  "\<forall>x \<in> set pre. \<not> oc_etimer_expired (ec_timers s) x \<Longrightarrow>
   poll_timers_loop env observe (pre @ as) s = poll_timers_loop env observe as s"
  by (induction pre) (simp_all add: poll_timers_loop.simps [of env observe "_ # _"])

text \<open>
  What the callbacks of a list have to guarantee so that polling returns: they return, keep the state
  well formed and their own element on the list, and let no timer of the list expire.
\<close>

definition well_behaved :: "'e callback_env \<Rightarrow> bool \<Rightarrow> bool" where
  "well_behaved env observe \<longleftrightarrow> (\<forall>s a. ec_wf s \<and> a \<in> set (callback_list observe s) \<and> oc_etimer_expired (ec_timers s) a \<and>
       g_currently_processed_event_cb s = Some a \<longrightarrow>
     (\<exists>r s'. invoke env (ec_callback s a) (ec_data s a) s = Some (r, s') \<and> ec_wf s' \<and> a \<in> set (callback_list observe s') \<and>
        (\<forall>b \<in> set (callback_list observe s'). oc_etimer_expired (ec_timers s') b \<longrightarrow>
           b \<in> set (callback_list observe s) \<and> oc_etimer_expired (ec_timers s) b)))"

abbreviation expired_on :: "bool \<Rightarrow> 'e event_callbacks \<Rightarrow> node set" where
  "expired_on observe s \<equiv> {b \<in> set (callback_list observe s). oc_etimer_expired (ec_timers s) b}"

lemma process_expired_ok:
  assumes "well_behaved env observe" and "ec_wf s" and "a \<in> expired_on observe s"
  shows "\<exists>s'. process_expired env observe a s = Some s' \<and> ec_wf s' \<and> expired_on observe s' \<subseteq> expired_on observe s - {a}"
proof -
  let ?s = "set_processed (Some a) s"
  from assms obtain r s1 where s1: "invoke env (ec_callback s a) (ec_data s a) ?s = Some (r, s1)" "ec_wf s1"
    "a \<in> set (callback_list observe s1)" "expired_on observe s1 \<subseteq> expired_on observe s"
    unfolding well_behaved_def by (elim allE [of _ ?s] allE [of _ a]) auto
  note blk = listed_block [OF s1(2,3)]
  show ?thesis
  proof (cases "r = OC_EVENT_DONE \<or> g_currently_processed_event_cb_delete s1")
    case True
    let ?s2 = "remove_from_list observe a s1"
    let ?s3 = "ec_free a (on_delete env (g_currently_processed_event_on_delete ?s2) (ec_data ?s2 a) ?s2)"
    have "process_expired env observe a s = Some ?s3"
      using s1(1) blk True by (simp add: process_expired_def Let_def)
    moreover have "ec_wf ?s3" by (rule ec_wf_remove [OF s1(2,3)])
    moreover have "distinct (callback_list observe s1)" using s1(2) by (simp add: ec_wf_def callback_list_def)
    then have "expired_on observe ?s3 \<subseteq> expired_on observe s - {a}"
      using s1(4) by (auto simp: ec_free_def remove_from_list_def callback_list_def split: if_splits)
    ultimately show ?thesis by blast
  next
    case False
    from ec_restart_ok [OF s1(2) blk, of env] obtain s2 where
      s2: "ec_restart env a s1 = Some s2" "armed env a ((et_timer (ec_timers s1) a)\<lparr>t_start := ec_now s1\<rparr>) s1 s2" by blast
    then have "expired_on observe s2 \<subseteq> expired_on observe s1 - {a}"
      by (auto simp: armed_def oc_etimer_expired_def split: if_splits)
    with s1 s2 blk False armed_wf [OF s2(2) s1(2)] show ?thesis
      by (auto simp: process_expired_def)
  qed
qed

text \<open>
  The contract of a client of the timed callbacks: processing an expired element keeps an invariant of
  the client and lets no other timer of the list expire. Then polling returns and keeps the invariant.
\<close>

locale polled_callbacks =
  fixes env :: "'e callback_env"
    and observe :: bool
    and inv :: "'e event_callbacks \<Rightarrow> bool"
  assumes process_keeps: "ec_wf s \<Longrightarrow> inv s \<Longrightarrow> a \<in> expired_on observe s \<Longrightarrow>
    \<exists>s'. process_expired env observe a s = Some s' \<and> ec_wf s' \<and> inv s' \<and> expired_on observe s' \<subseteq> expired_on observe s - {a}"
begin

lemma poll_loop_returns:
  assumes "ec_wf s" and "inv s" and "callback_list observe s = pre @ as"
    and "\<forall>x \<in> set pre. \<not> oc_etimer_expired (ec_timers s) x"
  shows "\<exists>s'. poll_timers_loop env observe as s = Some s' \<and> ec_wf s' \<and> inv s' \<and> expired_on observe s' = {}"
  using assms
proof (induction "card (expired_on observe s)" arbitrary: s pre as rule: less_induct)
  case less
  show ?case
    using less.prems
  proof (induction as arbitrary: pre)
    case Nil
    then show ?case by (subst poll_timers_loop.simps) auto
  next
    case (Cons a as)
    show ?case
    proof (cases "oc_etimer_expired (ec_timers s) a")
      case False
      with Cons.IH [of "pre @ [a]"] Cons.prems show ?thesis
        by (subst poll_timers_loop.simps) auto
    next
      case True
      with Cons.prems have a: "a \<in> expired_on observe s" by simp
      from process_keeps [OF Cons.prems(1,2) a] obtain s1 where
        s1: "process_expired env observe a s = Some s1" "ec_wf s1" "inv s1" "expired_on observe s1 \<subseteq> expired_on observe s - {a}"
        by blast
      from s1(4) a have "card (expired_on observe s1) < card (expired_on observe s)"
        by (intro psubset_card_mono) auto
      from less.hyps [OF this s1(2,3), of "[]" "callback_list observe s1"] show ?thesis
        using True s1(1) by (subst poll_timers_loop.simps) simp
    qed
  qed
qed

lemma poll_timers_returns:
  assumes "ec_wf s" and "inv s"
  shows "\<exists>s'. event_callbacks_poll_timers env observe s = Some (set_processed None s') \<and> ec_wf s' \<and> inv s' \<and> expired_on observe s' = {}"
  using poll_loop_returns [OF assms, of "[]"] by (auto simp: event_callbacks_poll_timers_def)

end

lemma well_behaved_polled: "well_behaved env observe \<Longrightarrow> polled_callbacks env observe (\<lambda>_. True)"
  by unfold_locales (use process_expired_ok in simp)

text \<open>Callbacks that change the state of the application only.\<close>

definition plain_callbacks :: "(oc_trigger_t \<Rightarrow> nat \<Rightarrow> 'e \<Rightarrow> oc_event_callback_retval_t \<times> 'e) \<Rightarrow> 'e callback_env \<Rightarrow> bool" where
  "plain_callbacks f env \<longleftrightarrow> (\<forall>cb d s. invoke env cb d s =
     Some (case f cb d (k_env (ec_kernel s)) of (r, e) \<Rightarrow> (r, s\<lparr>ec_kernel := (ec_kernel s)\<lparr>k_env := e\<rparr>\<rparr>)))"

text \<open>The reference: each element is called once, in order; the result is the elements that are done.\<close>

primrec fire ::
  "(oc_trigger_t \<Rightarrow> nat \<Rightarrow> 'e \<Rightarrow> oc_event_callback_retval_t \<times> 'e) \<Rightarrow> (node \<Rightarrow> oc_trigger_t) \<Rightarrow> (node \<Rightarrow> nat) \<Rightarrow> node list \<Rightarrow> 'e \<Rightarrow>
   node list \<times> 'e" where
  "fire f cb d [] e = ([], e)"
| "fire f cb d (a # as) e =
     (case f (cb a) (d a) e of (r, e1) \<Rightarrow>
        (case fire f cb d as e1 of (ds, e2) \<Rightarrow> (if r = OC_EVENT_DONE then a # ds else ds, e2)))"

definition restarted :: "u64 \<Rightarrow> node set \<Rightarrow> (node \<Rightarrow> oc_timer) \<Rightarrow> node \<Rightarrow> oc_timer" where
  "restarted now A tm a = (if a \<in> A then (tm a)\<lparr>t_start := now\<rparr> else tm a)"

definition other_list :: "bool \<Rightarrow> 'e event_callbacks \<Rightarrow> node list" where
  "other_list observe s = callback_list (\<not> observe) s"

lemma remove_fields [simp]:
  "ec_callback (remove_from_list observe a s) = ec_callback s" "ec_data (remove_from_list observe a s) = ec_data s"
  "ec_now (remove_from_list observe a s) = ec_now s" "ec_timers (remove_from_list observe a s) = ec_timers s"
  "ec_kernel (remove_from_list observe a s) = ec_kernel s" "other_list observe (remove_from_list observe a s) = other_list observe s"
  "g_currently_processed_event_on_delete (remove_from_list observe a s) = g_currently_processed_event_on_delete s"
  "ec_callback (ec_free a s) = ec_callback s" "ec_data (ec_free a s) = ec_data s" "ec_now (ec_free a s) = ec_now s"
  "ec_timers (ec_free a s) = ec_timers s" "ec_kernel (ec_free a s) = ec_kernel s" "other_list observe (ec_free a s) = other_list observe s"
  by (simp_all add: remove_from_list_def ec_free_def other_list_def callback_list_def)

lemma process_plain:
  assumes "plain_callbacks f env" and "ec_wf s" and "a \<in> set (callback_list observe s)"
    and "f (ec_callback s a) (ec_data s a) (k_env (ec_kernel s)) = (r, e)"
  shows "\<exists>s'. process_expired env observe a s = Some s' \<and> ec_wf s' \<and> k_env (ec_kernel s') = e \<and>
    ec_callback s' = ec_callback s \<and> ec_data s' = ec_data s \<and> ec_now s' = ec_now s \<and> other_list observe s' = other_list observe s \<and>
    (if r = OC_EVENT_DONE
     then callback_list observe s' = remove1 a (callback_list observe s) \<and> ec_timers s' = ec_timers s
     else callback_list observe s' = callback_list observe s \<and>
       et_p (ec_timers s') = (et_p (ec_timers s))(a := Some (events_proc env)) \<and>
       et_timer (ec_timers s') = restarted (ec_now s) {a} (et_timer (ec_timers s)))"
proof -
  let ?s = "set_processed (Some a) s"
  let ?s1 = "?s\<lparr>ec_kernel := (ec_kernel s)\<lparr>k_env := e\<rparr>\<rparr>"
  have inv: "invoke env (ec_callback s a) (ec_data s a) ?s = Some (r, ?s1)"
    using assms(1,4) by (simp add: plain_callbacks_def)
  have wf: "ec_wf ?s1" using assms(2) by simp
  have l: "a \<in> set (callback_list observe ?s1)" using assms(3) by simp
  show ?thesis
  proof (cases r)
    case OC_EVENT_DONE
    let ?s3 = "ec_free a (on_delete env None 0 (remove_from_list observe a ?s1))"
    have "process_expired env observe a s = Some ?s3"
      using OC_EVENT_DONE inv listed_block [OF wf l] by (simp add: process_expired_def Let_def on_delete_def)
    moreover have "ec_wf ?s3" by (rule ec_wf_remove [OF wf l])
    ultimately show ?thesis
      using OC_EVENT_DONE by (simp add: on_delete_def) (simp add: other_list_def)
  next
    case OC_EVENT_CONTINUE
    from ec_restart_ok [OF wf listed_block [OF wf l], of env] obtain s2 where
      s2: "ec_restart env a ?s1 = Some s2" "armed env a ((et_timer (ec_timers ?s1) a)\<lparr>t_start := ec_now ?s1\<rparr>) ?s1 s2" by blast
    have eq: "process_expired env observe a s = Some s2"
      using OC_EVENT_CONTINUE inv s2(1) listed_block [OF wf l] by (simp add: process_expired_def)
    from s2(2) obtain k t where s2': "s2 = ?s1\<lparr>ec_kernel := k, ec_timers := t\<rparr>" "k_env k = e"
      "et_timer t = (et_timer (ec_timers s))(a := (et_timer (ec_timers s) a)\<lparr>t_start := ec_now s\<rparr>)"
      "et_p t = (et_p (ec_timers s))(a := Some (events_proc env))"
      by (auto simp: armed_def)
    have "ec_wf s2" by (rule armed_wf [OF s2(2) wf])
    with eq OC_EVENT_CONTINUE s2' show ?thesis
      by (auto simp: other_list_def restarted_def fun_eq_iff callback_list_def set_processed_def)
  qed
qed

lemma poll_plain:
  assumes "plain_callbacks f env" and "ec_wf s" and "callback_list observe s = pre @ as"
    and "\<forall>x \<in> set pre. \<not> oc_etimer_expired (ec_timers s) x" and "E = filter (oc_etimer_expired (ec_timers s)) as"
    and "fire f (ec_callback s) (ec_data s) E (k_env (ec_kernel s)) = (ds, e)"
  shows "\<exists>s'. poll_timers_loop env observe as s = Some s' \<and> ec_wf s' \<and> k_env (ec_kernel s') = e \<and>
    callback_list observe s' = pre @ filter (\<lambda>a. a \<notin> set ds) as \<and> expired_on observe s' = {} \<and>
    other_list observe s' = other_list observe s \<and> set ds \<subseteq> set E \<and>
    et_timer (ec_timers s') = restarted (ec_now s) (set E - set ds) (et_timer (ec_timers s))"
  using assms(2-6)
proof (induction as arbitrary: s pre E ds)
  case Nil
  then show ?case by (subst poll_timers_loop.simps) (auto simp: restarted_def fun_eq_iff)
next
  case (Cons a as)
  have dist: "distinct (pre @ a # as)"
    using Cons.prems(1,2) by (auto simp: ec_wf_def callback_list_def split: if_splits)
  show ?case
  proof (cases "oc_etimer_expired (ec_timers s) a")
    case False
    with Cons.prems Cons.IH [of s "pre @ [a]" E ds] have "\<exists>s'. poll_timers_loop env observe as s = Some s' \<and> ec_wf s' \<and> k_env (ec_kernel s') = e \<and>
      callback_list observe s' = (pre @ [a]) @ filter (\<lambda>a. a \<notin> set ds) as \<and> expired_on observe s' = {} \<and>
      other_list observe s' = other_list observe s \<and> set ds \<subseteq> set E \<and>
      et_timer (ec_timers s') = restarted (ec_now s) (set E - set ds) (et_timer (ec_timers s))"
      by auto
    moreover have "a \<notin> set E" using False Cons.prems(4) by simp
    ultimately show ?thesis
      using False by (subst poll_timers_loop.simps) auto
  next
    case True
    obtain r e1 where f: "f (ec_callback s a) (ec_data s a) (k_env (ec_kernel s)) = (r, e1)" by (metis surj_pair)
    have "a \<in> set (callback_list observe s)" using Cons.prems(2) by simp
    from process_plain [OF assms(1) Cons.prems(1) this f] obtain s1 where s1:
      "process_expired env observe a s = Some s1" "ec_wf s1" "k_env (ec_kernel s1) = e1"
      "ec_callback s1 = ec_callback s" "ec_data s1 = ec_data s" "ec_now s1 = ec_now s" "other_list observe s1 = other_list observe s"
      "if r = OC_EVENT_DONE
       then callback_list observe s1 = remove1 a (callback_list observe s) \<and> ec_timers s1 = ec_timers s
       else callback_list observe s1 = callback_list observe s \<and>
         et_p (ec_timers s1) = (et_p (ec_timers s))(a := Some (events_proc env)) \<and>
         et_timer (ec_timers s1) = restarted (ec_now s) {a} (et_timer (ec_timers s))"
      by blast
    define pre' where "pre' = (if r = OC_EVENT_DONE then pre else pre @ [a])"
    define E' where "E' = filter (oc_etimer_expired (ec_timers s)) as"
    have exp: "oc_etimer_expired (ec_timers s1) x = oc_etimer_expired (ec_timers s) x" if "x \<noteq> a" for x
      using s1(8) that by (auto simp: oc_etimer_expired_def split: if_splits)
    have l: "callback_list observe s1 = pre' @ as"
      using s1(8) Cons.prems(2) dist by (auto simp: pre'_def remove1_append)
    have p: "\<forall>x \<in> set pre'. \<not> oc_etimer_expired (ec_timers s1) x"
      using Cons.prems(3) s1(8) dist exp by (auto simp: pre'_def oc_etimer_expired_def split: if_splits)
    have "x \<noteq> a" if "x \<in> set as" for x using that dist by auto
    then have E'1: "E' = filter (oc_etimer_expired (ec_timers s1)) as"
      unfolding E'_def by (simp add: exp cong: filter_cong)
    obtain ds' where d': "fire f (ec_callback s1) (ec_data s1) E' (k_env (ec_kernel s1)) = (ds', e)"
      "ds = (if r = OC_EVENT_DONE then a # ds' else ds')"
      using Cons.prems(4,5) True f s1(3-5) by (auto simp: E'_def split: prod.splits)
    from Cons.IH [OF s1(2) l p E'1 d'(1)] obtain s' where s': "poll_timers_loop env observe as s1 = Some s'" "ec_wf s'"
      "k_env (ec_kernel s') = e" "callback_list observe s' = pre' @ filter (\<lambda>a. a \<notin> set ds') as" "expired_on observe s' = {}"
      "other_list observe s' = other_list observe s1" "set ds' \<subseteq> set E'"
      "et_timer (ec_timers s') = restarted (ec_now s1) (set E' - set ds') (et_timer (ec_timers s1))" by blast
    have na: "a \<notin> set E'" "a \<notin> set ds'" using dist s'(7) by (auto simp: E'_def)
    have EE: "E = a # E'" using Cons.prems(4) True by (simp add: E'_def)
    have "poll_timers_loop env observe (a # as) s = Some s'"
      using True s1(1) s'(1) l poll_skip [OF p] by (subst poll_timers_loop.simps) simp
    moreover have "callback_list observe s' = pre @ filter (\<lambda>a. a \<notin> set ds) (a # as)"
      using s'(4) na dist by (auto simp: pre'_def d'(2) intro!: filter_cong)
    moreover have "et_timer (ec_timers s') = restarted (ec_now s) (set E - set ds) (et_timer (ec_timers s))"
      using s'(8) s1(6,8) na by (auto simp: restarted_def fun_eq_iff d'(2) EE)
    ultimately show ?thesis
      using s' s1(7) EE by (auto simp: d'(2))
  qed
qed

subsection \<open>Properties\<close>

lemma remove_first_pending:
  assumes "ec_wf s" and "g_currently_processed_event_cb s = None"
  shows "\<exists>s'. oc_ri_remove_timed_event_callback env d cb s = Some s' \<and> ec_wf s' \<and> pending s' = remove1 (cb, d) (pending s) \<and>
    same_owners s s' \<and> k_env (ec_kernel s') = k_env (ec_kernel s) \<and> set (g_timed_callbacks s') \<subseteq> set (g_timed_callbacks s)"
proof -
  let ?m = "matching s cb (\<lambda>data. timed_event_is_identical_filter data d)"
  from remove_loop_first [OF assms(1), of "[]" _ env cb "\<lambda>data. timed_event_is_identical_filter data d" None] assms(2) obtain s' where
    s': "remove_by_filter_loop env cb (\<lambda>data. timed_event_is_identical_filter data d) False None (g_timed_callbacks s) False s = Some (False, s')"
      "ec_wf s'" "same_owners s s'" "k_env (ec_kernel s') = k_env (ec_kernel s)"
      "g_timed_callbacks s' = (case find ?m (g_timed_callbacks s) of None \<Rightarrow> g_timed_callbacks s | Some b \<Rightarrow> remove1 b (g_timed_callbacks s))"
    by (auto split: option.splits)
  have "map g (case find ?m xs of None \<Rightarrow> xs | Some b \<Rightarrow> remove1 b xs) = remove1 (cb, d) (map g xs)"
    if "g = (\<lambda>a. (ec_callback s a, ec_data s a))" for g xs
    by (induction xs) (auto simp: that timed_event_is_identical_filter_def split: option.splits dest!: iffD1 [OF find_Some_iff])
  then have "pending s' = remove1 (cb, d) (pending s)"
    using s'(3,5) by (simp add: pending_def same_owners_def)
  moreover have "set (g_timed_callbacks s') \<subseteq> set (g_timed_callbacks s)"
    unfolding s'(5) by (auto split: option.splits dest: set_remove1_subset [THEN subsetD])
  ultimately show ?thesis
    using s' by (simp add: oc_ri_remove_timed_event_callback_def oc_ri_remove_timed_event_callback_by_filter_def)
qed

text \<open>An example: of three callbacks the first and the last have expired; even data are done after one call.\<close>

definition log_call :: "oc_trigger_t \<Rightarrow> nat \<Rightarrow> (node \<times> u8) list \<Rightarrow> oc_event_callback_retval_t \<times> (node \<times> u8) list" where
  "log_call cb d e = (if even d then OC_EVENT_DONE else OC_EVENT_CONTINUE, e @ [(d, 0)])"

definition example_callback_env :: "(node \<times> u8) list callback_env" where
  "example_callback_env = \<lparr>etimer_proc = 8, events_proc = 9, clock_second = 1000, release_data = (\<lambda>f d e. e),
     run_trigger = (\<lambda>n d s. Some (case log_call (TRIGGER n) d (k_env (ec_kernel s)) of
       (r, e) \<Rightarrow> (r, s\<lparr>ec_kernel := (ec_kernel s)\<lparr>k_env := e\<rparr>\<rparr>))),
     notify_observers = (\<lambda>d s. Some (odd d, s\<lparr>ec_kernel := (ec_kernel s)\<lparr>k_env := k_env (ec_kernel s) @ [(d, 0)]\<rparr>\<rparr>))\<rparr>"

definition example_callbacks :: "(node \<times> u8) list event_callbacks" where
  "example_callbacks = \<lparr>g_timed_callbacks = [1, 2, 3], g_observe_callbacks = [], ec_callback = (\<lambda>_. TRIGGER 7), ec_data = id,
     ec_blocks = {1, 2, 3}, ec_timers = \<lparr>et_list = \<lparr>list_head = Some 2, list_next = (\<lambda>_. None)\<rparr>,
       et_timer = (\<lambda>_. \<lparr>t_start = 10, t_interval = 5\<rparr>), et_p = (\<lambda>_. None)(2 := Some 9), et_next_expiration = 15\<rparr>,
     ec_kernel = example_kernel, ec_now = 20, g_currently_processed_event_cb = None,
     g_currently_processed_event_cb_delete = False, g_currently_processed_event_on_delete = None\<rparr>"

lemma example_callbacks_wf: "ec_wf example_callbacks"
  by (simp add: ec_wf_def example_callbacks_def linked_def list_repr_def exI [of _ "[2]"])

lemma example_unused: "unused 4 example_callbacks"
proof -
  have "list_repr (et_list (ec_timers example_callbacks)) [2]"
    by (simp add: example_callbacks_def list_repr_def)
  then have "4 \<notin> set ts" if "list_repr (et_list (ec_timers example_callbacks)) ts" for ts
    using list_repr_unique [OF that] by fastforce
  moreover have "4 \<notin> ec_blocks example_callbacks" by (simp add: example_callbacks_def)
  ultimately show ?thesis by (simp add: unused_def)
qed

lemma example_plain: "plain_callbacks log_call example_callback_env"
  by (auto simp: plain_callbacks_def invoke_def example_callback_env_def periodic_observe_callback_handler_def log_call_def
      split: oc_trigger_t.split)

text \<open>
  C25. The timed callbacks implement a sequence of pairs of callback and data. Adding appends a pair
  and starts a timer of the given length that belongs to the process of the callbacks; removing
  outside of a callback takes the first equal pair away; the search finds exactly the pairs of the
  sequence. A removal of all matching elements keeps of them only the one that is being processed,
  and marks it for deletion exactly when it is the last matching one: a later match that is removed
  revokes the deletion. All operations return and keep the state well formed: the
  allocated blocks are those on the lists, and exactly those with a running timer are linked.
\<close>

theorem timed_callbacks_refine:
  assumes "ec_wf s" and "unused a s"
  shows "(\<exists>s'. oc_ri_add_timed_event_callback_ticks env (Some a) d cb ticks s = Some s' \<and> ec_wf s' \<and>
      pending s' = pending s @ [(cb, d)] \<and> et_timer (ec_timers s') a = \<lparr>t_start = ec_now s, t_interval = ticks\<rparr> \<and>
      et_p (ec_timers s') a = Some (events_proc env)) \<and>
    (g_currently_processed_event_cb s = None \<longrightarrow>
      (\<exists>s'. oc_ri_remove_timed_event_callback env d cb s = Some s' \<and> ec_wf s' \<and> pending s' = remove1 (cb, d) (pending s))) \<and>
    (oc_ri_has_timed_event_callback d cb False s \<longleftrightarrow> (cb, d) \<in> set (pending s)) \<and>
    (oc_ri_has_timed_event_callback d cb True s \<longleftrightarrow> cb \<in> fst ` set (pending s)) \<and>
    (\<exists>s'. oc_ri_remove_timed_event_callback_by_filter env cb filt True del s = Some s' \<and> ec_wf s' \<and>
      g_timed_callbacks s' = filter (\<lambda>b. \<not> matching s cb filt b \<or> g_currently_processed_event_cb s = Some b) (g_timed_callbacks s) \<and>
      (g_currently_processed_event_cb_delete s' \<longleftrightarrow> g_currently_processed_event_cb_delete s \<or>
        (\<exists>bs b. filter (matching s cb filt) (g_timed_callbacks s) = bs @ [b] \<and> g_currently_processed_event_cb s = Some b)))"
proof -
  let ?f = "filter (matching s cb filt) (g_timed_callbacks s)"
  from add_timed_ok [OF assms, of env d cb ticks] obtain s1 where
    s1: "oc_ri_add_timed_event_callback_ticks env (Some a) d cb ticks s = Some s1" "ec_wf s1"
      "g_timed_callbacks s1 = g_timed_callbacks s @ [a]" "ec_callback s1 = (ec_callback s)(a := cb)" "ec_data s1 = (ec_data s)(a := d)"
      "et_timer (ec_timers s1) a = \<lparr>t_start = ec_now s, t_interval = ticks\<rparr>"
      "et_p (ec_timers s1) = (et_p (ec_timers s))(a := Some (events_proc env))" by blast
  have "a \<notin> set (g_timed_callbacks s)" using assms by (auto simp: unused_def ec_wf_def)
  then have p: "pending s1 = pending s @ [(cb, d)]" using s1(3-5) by (auto simp: pending_def)
  from remove_loop_all [OF assms(1), of "[]" _ env cb filt del False] obtain w s2 where
    s2: "remove_by_filter_loop env cb filt True del (g_timed_callbacks s) False s = Some (w, s2)" "ec_wf s2" "same_owners s s2"
      "g_timed_callbacks s2 = filter (\<lambda>b. \<not> matching s cb filt b \<or> g_currently_processed_event_cb s = Some b) (g_timed_callbacks s)"
      "w = (if ?f = [] then False else g_currently_processed_event_cb s = Some (last ?f))" by auto
  have w: "w \<longleftrightarrow> (\<exists>bs b. ?f = bs @ [b] \<and> g_currently_processed_event_cb s = Some b)"
    using s2(5) by (cases ?f rule: rev_cases) auto
  let ?s3 = "if w then s2\<lparr>g_currently_processed_event_cb_delete := True, g_currently_processed_event_on_delete := del\<rparr> else s2"
  have "oc_ri_remove_timed_event_callback_by_filter env cb filt True del s = Some ?s3"
    using s2(1) by (simp add: oc_ri_remove_timed_event_callback_by_filter_def)
  moreover have "ec_wf ?s3" using s2(2) by simp
  moreover have "g_timed_callbacks ?s3 = g_timed_callbacks s2" by simp
  moreover have "g_currently_processed_event_cb_delete ?s3 \<longleftrightarrow> g_currently_processed_event_cb_delete s \<or> w"
    using s2(3) by (simp add: same_owners_def)
  moreover have "oc_ri_has_timed_event_callback d cb False s \<longleftrightarrow> (cb, d) \<in> set (pending s)"
    "oc_ri_has_timed_event_callback d cb True s \<longleftrightarrow> cb \<in> fst ` set (pending s)"
    by (auto simp: oc_ri_has_timed_event_callback_def list_ex_iff pending_def image_iff)
  moreover have "g_currently_processed_event_cb s = None \<longrightarrow>
      (\<exists>s'. oc_ri_remove_timed_event_callback env d cb s = Some s' \<and> ec_wf s' \<and> pending s' = remove1 (cb, d) (pending s))"
    using remove_first_pending [OF assms(1)] by blast
  ultimately show ?thesis
    using s1 p s2(4) w by auto
qed

theorem timed_callbacks_refine_witness:
  "\<exists>s'. oc_ri_add_timed_event_callback_ticks example_callback_env (Some 4) 5 (TRIGGER 7) 100 example_callbacks = Some s' \<and>
     pending s' = [(TRIGGER 7, 1), (TRIGGER 7, 2), (TRIGGER 7, 3), (TRIGGER 7, 5)]"
proof -
  have p: "pending example_callbacks @ [(TRIGGER 7, 5)] = [(TRIGGER 7, 1), (TRIGGER 7, 2), (TRIGGER 7, 3), (TRIGGER 7, 5)]"
    by (simp add: pending_def example_callbacks_def)
  show ?thesis
    using timed_callbacks_refine [OF example_callbacks_wf example_unused, of example_callback_env 5 "TRIGGER 7" 100, THEN conjunct1]
    unfolding p by blast
qed

text \<open>
  C26. Polling calls every callback of a list whose timer has expired exactly once, in the order of
  the list, although it starts again at the head after each call; the callbacks that are done are
  removed and released, the others are restarted from now with the same interval, timers that have
  not expired are untouched, and afterwards no timer of the list is expired. This is for callbacks
  that change the state of the application only.
\<close>

theorem poll_fires_expired:
  assumes "plain_callbacks f env" and "ec_wf s" and "E = filter (oc_etimer_expired (ec_timers s)) (callback_list observe s)"
    and "fire f (ec_callback s) (ec_data s) E (k_env (ec_kernel s)) = (ds, e)"
  shows "\<exists>s'. event_callbacks_poll_timers env observe s = Some s' \<and> ec_wf s' \<and> k_env (ec_kernel s') = e \<and>
    callback_list observe s' = filter (\<lambda>a. a \<notin> set ds) (callback_list observe s) \<and>
    (\<forall>a \<in> set (callback_list observe s'). \<not> oc_etimer_expired (ec_timers s') a) \<and>
    callback_list (\<not> observe) s' = callback_list (\<not> observe) s \<and>
    (\<forall>a. et_timer (ec_timers s') a = (if a \<in> set E - set ds then (et_timer (ec_timers s) a)\<lparr>t_start := ec_now s\<rparr>
       else et_timer (ec_timers s) a))"
proof -
  have l: "callback_list observe s = [] @ callback_list observe s" by simp
  from poll_plain [OF assms(1,2) l _ assms(3,4)] obtain s' where
    "poll_timers_loop env observe (callback_list observe s) s = Some s'" "ec_wf s'" "k_env (ec_kernel s') = e"
    "callback_list observe s' = filter (\<lambda>a. a \<notin> set ds) (callback_list observe s)" "expired_on observe s' = {}"
    "other_list observe s' = other_list observe s"
    "et_timer (ec_timers s') = restarted (ec_now s) (set E - set ds) (et_timer (ec_timers s))"
    unfolding append_Nil list.set by blast
  then show ?thesis
    by (auto simp: event_callbacks_poll_timers_def other_list_def restarted_def)
qed

theorem poll_fires_expired_witness:
  "\<exists>s'. event_callbacks_poll_timers example_callback_env False (example_callbacks\<lparr>ec_data := (\<lambda>a. a + 1)\<rparr>) = Some s' \<and>
     k_env (ec_kernel s') = [(2, 0), (4, 0)] \<and> g_timed_callbacks s' = [2]"
proof -
  let ?s = "example_callbacks\<lparr>ec_data := (\<lambda>a. a + 1)\<rparr>"
  have "ec_wf ?s" using example_callbacks_wf by simp
  moreover have "[1, 3] = filter (oc_etimer_expired (ec_timers ?s)) (callback_list False ?s)"
    by (simp add: example_callbacks_def callback_list_def oc_etimer_expired_def)
  moreover have "fire log_call (ec_callback ?s) (ec_data ?s) [1, 3] (k_env (ec_kernel ?s)) = ([1, 3], [(2, 0), (4, 0)])"
    by (simp add: example_callbacks_def log_call_def example_kernel_def)
  ultimately obtain s' where s': "event_callbacks_poll_timers example_callback_env False ?s = Some s'"
    "k_env (ec_kernel s') = [(2, 0), (4, 0)]" "callback_list False s' = filter (\<lambda>a. a \<notin> set [1, 3]) (callback_list False ?s)"
    using poll_fires_expired [OF example_plain] by blast
  then show ?thesis by (simp add: callback_list_def example_callbacks_def)
qed

text \<open>
  C27. Polling returns for callbacks that themselves add and remove callbacks and let time pass, as
  long as each of them returns, keeps the state well formed with its own element on the list, and
  lets no timer of the list expire; then the state is well formed, no timer of the list is
  expired and no callback is marked as being processed.
\<close>

theorem poll_returns:
  assumes "well_behaved env observe" and "ec_wf s"
  shows "\<exists>s'. event_callbacks_poll_timers env observe s = Some s' \<and> ec_wf s' \<and>
    (\<forall>a \<in> set (callback_list observe s'). \<not> oc_etimer_expired (ec_timers s') a) \<and>
    g_currently_processed_event_cb s' = None \<and> \<not> g_currently_processed_event_cb_delete s'"
  using polled_callbacks.poll_timers_returns [OF well_behaved_polled [OF assms(1)] assms(2)] by auto

lemma plain_well_behaved:
  assumes "plain_callbacks f env"
  shows "well_behaved env observe"
  unfolding well_behaved_def
proof (intro allI impI)
  fix s :: "'a event_callbacks" and a
  assume s: "ec_wf s \<and> a \<in> set (callback_list observe s) \<and> oc_etimer_expired (ec_timers s) a \<and> g_currently_processed_event_cb s = Some a"
  obtain r e where "f (ec_callback s a) (ec_data s a) (k_env (ec_kernel s)) = (r, e)" by (metis surj_pair)
  with assms have "invoke env (ec_callback s a) (ec_data s a) s = Some (r, s\<lparr>ec_kernel := (ec_kernel s)\<lparr>k_env := e\<rparr>\<rparr>)"
    by (simp add: plain_callbacks_def)
  with s show "\<exists>r s'. invoke env (ec_callback s a) (ec_data s a) s = Some (r, s') \<and> ec_wf s' \<and> a \<in> set (callback_list observe s') \<and>
      (\<forall>b \<in> set (callback_list observe s'). oc_etimer_expired (ec_timers s') b \<longrightarrow>
         b \<in> set (callback_list observe s) \<and> oc_etimer_expired (ec_timers s) b)"
    by auto
qed

theorem poll_returns_witness:
  "\<exists>s'. event_callbacks_poll_timers example_callback_env False example_callbacks = Some s' \<and> ec_wf s' \<and>
     (\<forall>a \<in> set (callback_list False s'). \<not> oc_etimer_expired (ec_timers s') a)"
  using poll_returns [OF plain_well_behaved [OF example_plain] example_callbacks_wf, of False] by blast

end
