(* ===== verification/OcBlockwise.thy ===== *)
theory OcBlockwise
  imports OcResource OcEventCallback CoapPacket "HOL-Library.Sublist"
begin

text \<open>
  Block-wise transfers: \<open>src/api/oc_blockwise.c\<close>, in a build with client and server. The buffers of requests
  and responses are two lists of structures, each with its address; they are the application state of
  the timed callbacks of \<open>OcEventCallback\<close>, which release a buffer at the end of its lifetime. What the
  allocators return is an argument. The functions that are called when a transfer has finished only
  reset a timer of the notifications, and are recorded.
\<close>

subsection \<open>State\<close>

datatype oc_blockwise_role_t = OC_BLOCKWISE_CLIENT | OC_BLOCKWISE_SERVER

text \<open>
  \<open>bw_addr\<close> is the address of the structure; \<open>bw_block\<close> says that the buffer is from the pool
  \<open>oc_app_data_s\<close>. The null buffer is the empty one.
\<close>

record oc_blockwise_state_t =
  bw_addr :: nat
  bw_href :: oc_string
  bw_endpoint :: oc_endpoint_t
  bw_method :: oc_method_t
  bw_content_format :: u16
  bw_role :: oc_blockwise_role_t
  bw_payload_size :: u32
  bw_next_block_offset :: u32
  bw_ref_count :: u8
  bw_block :: bool
  bw_buffer :: bytes
  bw_buffer_size :: u32
  bw_uri_query :: oc_string
  bw_finish_cb :: "nat option"
  bw_token :: bytes
  bw_token_len :: u8
  bw_mid :: u16
  bw_client_cb :: "nat option"

record oc_blockwise_response_state_t = oc_blockwise_state_t +
  bw_code :: coap_status_t
  bw_etag :: bytes
  bw_etag_length :: u8
  bw_observe_seq :: int

text \<open>The lists, the allocated blocks of their pools, the free buffers of \<open>oc_app_data_s\<close>, and the calls of \<open>finish_cb\<close>.\<close>

record blockwise =
  oc_blockwise_requests :: "oc_blockwise_state_t list"
  oc_blockwise_responses :: "oc_blockwise_response_state_t list"
  bw_request_blocks :: "nat set"
  bw_response_blocks :: "nat set"
  bw_app_data_free :: nat
  bw_finished :: "nat list"

text \<open>\<open>OC_DYNAMIC_ALLOCATION\<close>, \<open>OC_APP_DATA_BUFFER_POOL\<close>, and the two sizes.\<close>

record blockwise_cfg =
  bw_dynamic :: bool
  bw_app_pool :: bool
  OC_APP_DATA_BUFFER_SIZE :: nat
  OC_MAX_APP_DATA_SIZE :: nat

type_synonym blockwise_events = "blockwise event_callbacks"

abbreviation bw :: "blockwise_events \<Rightarrow> blockwise" where
  "bw s \<equiv> k_env (ec_kernel s)"

definition set_bw :: "blockwise \<Rightarrow> blockwise_events \<Rightarrow> blockwise_events" where
  "set_bw b s = s\<lparr>ec_kernel := (ec_kernel s)\<lparr>k_env := b\<rparr>\<rparr>"

abbreviation (input) OC_EXCHANGE_LIFETIME :: u64 where "OC_EXCHANGE_LIFETIME \<equiv> 247"

text \<open>The two function pointers of this module.\<close>

abbreviation (input) FREE_REQUEST :: oc_trigger_t where "FREE_REQUEST \<equiv> TRIGGER 0"
abbreviation (input) FREE_RESPONSE :: oc_trigger_t where "FREE_RESPONSE \<equiv> TRIGGER 1"

subsection \<open>Allocation\<close>

text \<open>
  \<open>blk\<close> is the zeroed structure that \<open>oc_memb_alloc\<close> returned, \<open>memory\<close> the fresh memory of \<open>malloc\<close>
  (of the requested size); the second component of the result is the number of free pool buffers.
\<close>

definition blockwise_init_buffer ::
  "blockwise_cfg \<Rightarrow> 'a oc_blockwise_state_t_scheme option \<Rightarrow> bytes option \<Rightarrow> string \<Rightarrow> oc_endpoint_t \<Rightarrow> oc_method_t \<Rightarrow>
   oc_blockwise_role_t \<Rightarrow> u32 \<Rightarrow> nat \<Rightarrow> 'a oc_blockwise_state_t_scheme option \<times> nat" where
  "blockwise_init_buffer cfg blk memory href endpoint meth role buffer_size free =
     (if length href = 0 then (None, free)
      else case blk of
        None \<Rightarrow> (None, free)
      | Some buffer \<Rightarrow>
          (let pooled = bw_dynamic cfg \<and> bw_app_pool cfg \<and> free > 0;
               buffer = (if pooled
                 then buffer\<lparr>bw_block := True, bw_buffer := replicate (OC_APP_DATA_BUFFER_SIZE cfg) 0,
                             bw_buffer_size := of_nat (OC_APP_DATA_BUFFER_SIZE cfg)\<rparr>
                 else if bw_dynamic cfg
                 then (case memory of
                         None \<Rightarrow> buffer
                       | Some mem \<Rightarrow> buffer\<lparr>bw_buffer := mem, bw_buffer_size := buffer_size\<rparr>)
                 else buffer\<lparr>bw_buffer := replicate (OC_MAX_APP_DATA_SIZE cfg) 0\<rparr>)
           in if bw_dynamic cfg \<and> \<not> pooled \<and> memory = None then (None, free)
              else
                (Some (buffer\<lparr>bw_next_block_offset := 0, bw_payload_size := 0, bw_ref_count := 1, bw_method := meth,
                   bw_role := role, bw_endpoint := endpoint, bw_href := Some href, bw_finish_cb := None,
                   bw_mid := 0, bw_client_cb := None\<rparr>),
                 if pooled then free - 1 else free)))"

text \<open>The list without the buffer, the free pool buffers and the calls of \<open>finish_cb\<close>; an address is on a list once.\<close>

definition blockwise_free_buffer ::
  "'a oc_blockwise_state_t_scheme list \<Rightarrow> 'a oc_blockwise_state_t_scheme \<Rightarrow> nat \<Rightarrow> 'a oc_blockwise_state_t_scheme list \<times> nat \<times> nat list" where
  "blockwise_free_buffer list buffer free =
     (filter (\<lambda>b. bw_addr b \<noteq> bw_addr buffer) list,
      if bw_block buffer then free + 1 else free,
      case bw_finish_cb buffer of None \<Rightarrow> [] | Some f \<Rightarrow> [f])"

definition blockwise_get_buffer_size :: "blockwise_cfg \<Rightarrow> 'a oc_blockwise_state_t_scheme \<Rightarrow> u32" where
  "blockwise_get_buffer_size cfg buffer = (if bw_dynamic cfg then bw_buffer_size buffer else of_nat (OC_MAX_APP_DATA_SIZE cfg))"

text \<open>The callbacks. The buffer at an address that is on no list has been released.\<close>

definition blockwise_free_request_async :: "nat \<Rightarrow> blockwise \<Rightarrow> blockwise option" where
  "blockwise_free_request_async data s =
     (case find (\<lambda>b. bw_addr b = data) (oc_blockwise_requests s) of
        None \<Rightarrow> None
      | Some buffer \<Rightarrow>
          (case blockwise_free_buffer (oc_blockwise_requests s) buffer (bw_app_data_free s) of (list, free, fin) \<Rightarrow>
             Some (s\<lparr>oc_blockwise_requests := list, bw_request_blocks := bw_request_blocks s - {data},
                     bw_app_data_free := free, bw_finished := bw_finished s @ fin\<rparr>)))"

definition blockwise_free_response_async :: "nat \<Rightarrow> blockwise \<Rightarrow> blockwise option" where
  "blockwise_free_response_async data s =
     (case find (\<lambda>b. bw_addr b = data) (oc_blockwise_responses s) of
        None \<Rightarrow> None
      | Some buffer \<Rightarrow>
          (case blockwise_free_buffer (oc_blockwise_responses s) buffer (bw_app_data_free s) of (list, free, fin) \<Rightarrow>
             Some (s\<lparr>oc_blockwise_responses := list, bw_response_blocks := bw_response_blocks s - {data},
                     bw_app_data_free := free, bw_finished := bw_finished s @ fin\<rparr>)))"

text \<open>The timed callbacks of this module, where \<open>others\<close> are those of the rest of the program.\<close>

definition blockwise_trigger ::
  "(nat \<Rightarrow> nat \<Rightarrow> blockwise_events \<Rightarrow> (oc_event_callback_retval_t \<times> blockwise_events) option) \<Rightarrow> nat \<Rightarrow> nat \<Rightarrow> blockwise_events \<Rightarrow>
   (oc_event_callback_retval_t \<times> blockwise_events) option" where
  "blockwise_trigger others n data s =
     (if n = 0 then map_option (\<lambda>b. (OC_EVENT_DONE, set_bw b s)) (blockwise_free_request_async data (bw s))
      else if n = 1 then map_option (\<lambda>b. (OC_EVENT_DONE, set_bw b s)) (blockwise_free_response_async data (bw s))
      else others n data s)"

text \<open>
  The zeroed structures that the pools return at address \<open>a\<close>; the fields of enumerations have their first
  values.
\<close>

definition zero_endpoint :: oc_endpoint_t where
  "zero_endpoint = \<lparr>ep_device = 0, ep_flags = 0, ep_di = replicate 16 0, ep_address = [], ep_port = 0, ep_session_id = 0\<rparr>"

definition zero_request :: "nat \<Rightarrow> oc_blockwise_state_t" where
  "zero_request a = \<lparr>bw_addr = a, bw_href = None, bw_endpoint = zero_endpoint, bw_method = OC_GET, bw_content_format = 0,
     bw_role = OC_BLOCKWISE_CLIENT, bw_payload_size = 0, bw_next_block_offset = 0, bw_ref_count = 0, bw_block = False,
     bw_buffer = [], bw_buffer_size = 0, bw_uri_query = None, bw_finish_cb = None, bw_token = replicate COAP_TOKEN_LEN 0,
     bw_token_len = 0, bw_mid = 0, bw_client_cb = None\<rparr>"

definition zero_response :: "coap_status_t \<Rightarrow> nat \<Rightarrow> oc_blockwise_response_state_t" where
  "zero_response c a = oc_blockwise_state_t.extend (zero_request a)
     \<lparr>bw_code = c, bw_etag = replicate COAP_ETAG_LEN 0, bw_etag_length = 0, bw_observe_seq = 0\<rparr>"

text \<open>
  \<open>blk\<close> is the address that the pool returned, \<open>event_cb\<close> that of the timed callback. The result
  \<^const>\<open>None\<close> is a computation that does not return.
\<close>

definition oc_blockwise_alloc_request_buffer ::
  "blockwise callback_env \<Rightarrow> blockwise_cfg \<Rightarrow> nat option \<Rightarrow> bytes option \<Rightarrow> nodeptr \<Rightarrow> string \<Rightarrow> oc_endpoint_t \<Rightarrow> oc_method_t \<Rightarrow>
   oc_blockwise_role_t \<Rightarrow> u32 \<Rightarrow> blockwise_events \<Rightarrow> (nat option \<times> blockwise_events) option" where
  "oc_blockwise_alloc_request_buffer env cfg blk memory event_cb href endpoint meth role buffer_size s =
     (case blockwise_init_buffer cfg (map_option zero_request blk) memory href endpoint meth role buffer_size
             (bw_app_data_free (bw s)) of
        (None, free) \<Rightarrow> Some (None, s)
      | (Some buffer, free) \<Rightarrow>
          map_option (\<lambda>s1. (Some (bw_addr buffer),
              set_bw ((bw s1)\<lparr>oc_blockwise_requests := oc_blockwise_requests (bw s1) @ [buffer],
                 bw_request_blocks := insert (bw_addr buffer) (bw_request_blocks (bw s1)), bw_app_data_free := free\<rparr>) s1))
            (oc_ri_add_timed_event_callback_ticks env event_cb (bw_addr buffer) FREE_REQUEST
               (OC_EXCHANGE_LIFETIME * clock_second env) s))"

text \<open>\<open>random\<close> are the bytes of \<open>oc_random_buffer\<close>.\<close>

definition oc_blockwise_alloc_response_buffer ::
  "blockwise callback_env \<Rightarrow> blockwise_cfg \<Rightarrow> nat option \<Rightarrow> bytes option \<Rightarrow> nodeptr \<Rightarrow> bytes \<Rightarrow> string \<Rightarrow> oc_endpoint_t \<Rightarrow> oc_method_t \<Rightarrow>
   oc_blockwise_role_t \<Rightarrow> u32 \<Rightarrow> coap_status_t \<Rightarrow> bool \<Rightarrow> blockwise_events \<Rightarrow> (nat option \<times> blockwise_events) option" where
  "oc_blockwise_alloc_response_buffer env cfg blk memory event_cb random href endpoint meth role buffer_size code generate_etag s =
     (case blockwise_init_buffer cfg (map_option (zero_response code) blk) memory href endpoint meth role buffer_size
             (bw_app_data_free (bw s)) of
        (None, free) \<Rightarrow> Some (None, s)
      | (Some buffer, free) \<Rightarrow>
          (let buffer = (if generate_etag then buffer\<lparr>bw_etag := take COAP_ETAG_LEN random, bw_etag_length := 8\<rparr> else buffer);
               buffer = buffer\<lparr>bw_code := code, bw_observe_seq := -1\<rparr>
           in map_option (\<lambda>s1. (Some (bw_addr buffer),
                  set_bw ((bw s1)\<lparr>oc_blockwise_responses := oc_blockwise_responses (bw s1) @ [buffer],
                     bw_response_blocks := insert (bw_addr buffer) (bw_response_blocks (bw s1)), bw_app_data_free := free\<rparr>) s1))
                (oc_ri_add_timed_event_callback_ticks env event_cb (bw_addr buffer) FREE_RESPONSE
                   (OC_EXCHANGE_LIFETIME * clock_second env) s)))"

subsection \<open>Release\<close>

text \<open>No timed callback has the null pointer as data.\<close>

definition oc_blockwise_free_request_buffer :: "blockwise callback_env \<Rightarrow> nat option \<Rightarrow> blockwise_events \<Rightarrow> blockwise_events option" where
  "oc_blockwise_free_request_buffer env buffer s =
     (case buffer of
        None \<Rightarrow> Some s
      | Some a \<Rightarrow>
          (case oc_ri_remove_timed_event_callback env a FREE_REQUEST s of
             None \<Rightarrow> None
           | Some s1 \<Rightarrow> map_option (\<lambda>b. set_bw b s1) (blockwise_free_request_async a (bw s1))))"

definition oc_blockwise_free_response_buffer :: "blockwise callback_env \<Rightarrow> nat option \<Rightarrow> blockwise_events \<Rightarrow> blockwise_events option" where
  "oc_blockwise_free_response_buffer env buffer s =
     (case buffer of
        None \<Rightarrow> Some s
      | Some a \<Rightarrow>
          (case oc_ri_remove_timed_event_callback env a FREE_RESPONSE s of
             None \<Rightarrow> None
           | Some s1 \<Rightarrow> map_option (\<lambda>b. set_bw b s1) (blockwise_free_response_async a (bw s1))))"

text \<open>The loops that walk over a list, reading the link before they release the current buffer.\<close>

primrec free_requests_if ::
  "blockwise callback_env \<Rightarrow> (oc_blockwise_state_t \<Rightarrow> bool) \<Rightarrow> oc_blockwise_state_t list \<Rightarrow> blockwise_events \<Rightarrow> blockwise_events option" where
  "free_requests_if env P [] s = Some s"
| "free_requests_if env P (b # bs) s =
     (if P b then Option.bind (oc_blockwise_free_request_buffer env (Some (bw_addr b)) s) (free_requests_if env P bs)
      else free_requests_if env P bs s)"

primrec free_responses_if ::
  "blockwise callback_env \<Rightarrow> (oc_blockwise_response_state_t \<Rightarrow> bool) \<Rightarrow> oc_blockwise_response_state_t list \<Rightarrow> blockwise_events \<Rightarrow>
   blockwise_events option" where
  "free_responses_if env P [] s = Some s"
| "free_responses_if env P (b # bs) s =
     (if P b then Option.bind (oc_blockwise_free_response_buffer env (Some (bw_addr b)) s) (free_responses_if env P bs)
      else free_responses_if env P bs s)"

definition oc_blockwise_free_all_request_buffers :: "blockwise callback_env \<Rightarrow> bool \<Rightarrow> blockwise_events \<Rightarrow> blockwise_events option" where
  "oc_blockwise_free_all_request_buffers env all s =
     free_requests_if env (\<lambda>b. bw_ref_count b = 0 \<or> all) (oc_blockwise_requests (bw s)) s"

definition oc_blockwise_free_all_response_buffers :: "blockwise callback_env \<Rightarrow> bool \<Rightarrow> blockwise_events \<Rightarrow> blockwise_events option" where
  "oc_blockwise_free_all_response_buffers env all s =
     free_responses_if env (\<lambda>b. bw_ref_count b = 0 \<or> all) (oc_blockwise_responses (bw s)) s"

definition oc_blockwise_free_all_buffers :: "blockwise callback_env \<Rightarrow> bool \<Rightarrow> blockwise_events \<Rightarrow> blockwise_events option" where
  "oc_blockwise_free_all_buffers env all s =
     Option.bind (oc_blockwise_free_all_request_buffers env all s) (oc_blockwise_free_all_response_buffers env all)"

definition oc_blockwise_scrub_buffers_for_client_cb ::
  "blockwise callback_env \<Rightarrow> nat option \<Rightarrow> blockwise_events \<Rightarrow> blockwise_events option" where
  "oc_blockwise_scrub_buffers_for_client_cb env cb s =
     Option.bind (free_requests_if env (\<lambda>b. bw_client_cb b = cb) (oc_blockwise_requests (bw s)) s)
       (\<lambda>s1. free_responses_if env (\<lambda>b. bw_client_cb b = cb) (oc_blockwise_responses (bw s1)) s1)"

subsection \<open>Search\<close>

definition blockwise_find_buffer_by_token ::
  "'a oc_blockwise_state_t_scheme list \<Rightarrow> bytes \<Rightarrow> u8 \<Rightarrow> 'a oc_blockwise_state_t_scheme option" where
  "blockwise_find_buffer_by_token list token token_len =
     find (\<lambda>b. token_len > 0 \<and> bw_role b = OC_BLOCKWISE_CLIENT \<and> bw_token_len b = token_len \<and>
             take (unat token_len) (bw_token b) = take (unat token_len) token) list"

definition oc_blockwise_find_request_buffer_by_token :: "bytes \<Rightarrow> u8 \<Rightarrow> blockwise \<Rightarrow> oc_blockwise_state_t option" where
  "oc_blockwise_find_request_buffer_by_token token token_len s = blockwise_find_buffer_by_token (oc_blockwise_requests s) token token_len"

definition oc_blockwise_find_response_buffer_by_token :: "bytes \<Rightarrow> u8 \<Rightarrow> blockwise \<Rightarrow> oc_blockwise_response_state_t option" where
  "oc_blockwise_find_response_buffer_by_token token token_len s = blockwise_find_buffer_by_token (oc_blockwise_responses s) token token_len"

definition blockwise_find_buffer_by_mid ::
  "'a oc_blockwise_state_t_scheme list \<Rightarrow> u16 \<Rightarrow> 'a oc_blockwise_state_t_scheme option" where
  "blockwise_find_buffer_by_mid list mid = find (\<lambda>b. bw_mid b = mid \<and> bw_role b = OC_BLOCKWISE_CLIENT) list"

definition oc_blockwise_find_request_buffer_by_mid :: "u16 \<Rightarrow> blockwise \<Rightarrow> oc_blockwise_state_t option" where
  "oc_blockwise_find_request_buffer_by_mid mid s = blockwise_find_buffer_by_mid (oc_blockwise_requests s) mid"

definition oc_blockwise_find_response_buffer_by_mid :: "u16 \<Rightarrow> blockwise \<Rightarrow> oc_blockwise_response_state_t option" where
  "oc_blockwise_find_response_buffer_by_mid mid s = blockwise_find_buffer_by_mid (oc_blockwise_responses s) mid"

definition blockwise_find_buffer_by_client_cb ::
  "'a oc_blockwise_state_t_scheme list \<Rightarrow> oc_endpoint_t \<Rightarrow> nat option \<Rightarrow> 'a oc_blockwise_state_t_scheme option" where
  "blockwise_find_buffer_by_client_cb list endpoint client_cb =
     find (\<lambda>b. bw_role b = OC_BLOCKWISE_CLIENT \<and> bw_client_cb b = client_cb \<and> oc_endpoint_compare endpoint (bw_endpoint b) = 0) list"

definition oc_blockwise_find_request_buffer_by_client_cb :: "oc_endpoint_t \<Rightarrow> nat option \<Rightarrow> blockwise \<Rightarrow> oc_blockwise_state_t option" where
  "oc_blockwise_find_request_buffer_by_client_cb endpoint client_cb s =
     blockwise_find_buffer_by_client_cb (oc_blockwise_requests s) endpoint client_cb"

definition oc_blockwise_find_response_buffer_by_client_cb ::
  "oc_endpoint_t \<Rightarrow> nat option \<Rightarrow> blockwise \<Rightarrow> oc_blockwise_response_state_t option" where
  "oc_blockwise_find_response_buffer_by_client_cb endpoint client_cb s =
     blockwise_find_buffer_by_client_cb (oc_blockwise_responses s) endpoint client_cb"

definition blockwise_find_buffer ::
  "'a oc_blockwise_state_t_scheme list \<Rightarrow> oc_string \<Rightarrow> oc_endpoint_t \<Rightarrow> oc_method_t \<Rightarrow> oc_string \<Rightarrow> oc_blockwise_role_t \<Rightarrow>
   'a oc_blockwise_state_t_scheme option" where
  "blockwise_find_buffer list href endpoint meth query role =
     find (\<lambda>b. bw_method b = meth \<and> bw_role b = role \<and> oc_string_is_cstr_equal (bw_href b) href \<and>
             oc_endpoint_compare (bw_endpoint b) endpoint = 0 \<and> oc_string_is_cstr_equal (bw_uri_query b) query) list"

definition oc_blockwise_find_request_buffer ::
  "oc_string \<Rightarrow> oc_endpoint_t \<Rightarrow> oc_method_t \<Rightarrow> oc_string \<Rightarrow> oc_blockwise_role_t \<Rightarrow> blockwise \<Rightarrow> oc_blockwise_state_t option" where
  "oc_blockwise_find_request_buffer href endpoint meth query role s =
     blockwise_find_buffer (oc_blockwise_requests s) href endpoint meth query role"

definition oc_blockwise_find_response_buffer ::
  "oc_string \<Rightarrow> oc_endpoint_t \<Rightarrow> oc_method_t \<Rightarrow> oc_string \<Rightarrow> oc_blockwise_role_t \<Rightarrow> blockwise \<Rightarrow> oc_blockwise_response_state_t option" where
  "oc_blockwise_find_response_buffer href endpoint meth query role s =
     blockwise_find_buffer (oc_blockwise_responses s) href endpoint meth query role"

subsection \<open>Blocks\<close>

text \<open>The result is the offset and the size of the block in the buffer; \<^const>\<open>None\<close> is the null pointer.\<close>

definition oc_blockwise_dispatch_block ::
  "'a oc_blockwise_state_t_scheme \<Rightarrow> u32 \<Rightarrow> u32 \<Rightarrow> (u32 \<times> u32) option \<times> 'a oc_blockwise_state_t_scheme" where
  "oc_blockwise_dispatch_block buffer block_offset requested_block_size =
     (if block_offset < bw_payload_size buffer then
        (let payload_size = (if bw_payload_size buffer < requested_block_size then bw_payload_size buffer
                             else min requested_block_size (bw_payload_size buffer - block_offset))
         in (Some (block_offset, payload_size), buffer\<lparr>bw_next_block_offset := block_offset + payload_size\<rparr>))
      else (None, buffer))"

definition oc_blockwise_handle_block ::
  "blockwise_cfg \<Rightarrow> 'a oc_blockwise_state_t_scheme \<Rightarrow> u32 \<Rightarrow> bytes \<Rightarrow> u32 \<Rightarrow> bool \<times> 'a oc_blockwise_state_t_scheme" where
  "oc_blockwise_handle_block cfg buffer incoming_block_offset incoming_block incoming_block_size =
     (if incoming_block_offset \<ge> blockwise_get_buffer_size cfg buffer \<or>
         incoming_block_size > blockwise_get_buffer_size cfg buffer - incoming_block_offset \<or>
         incoming_block_offset > bw_next_block_offset buffer then (False, buffer)
      else if bw_next_block_offset buffer = incoming_block_offset then
        (True, buffer\<lparr>bw_buffer := write_at (bw_buffer buffer) (unat (bw_next_block_offset buffer))
                        (take (unat incoming_block_size) incoming_block),
                      bw_next_block_offset := bw_next_block_offset buffer + incoming_block_size\<rparr>)
      else (True, buffer))"

subsection \<open>Transfer of a payload\<close>

text \<open>One block goes from a sender to a receiver: block number \<open>k\<close> of size \<open>sz\<close>.\<close>

definition deliver_block ::
  "blockwise_cfg \<Rightarrow> u32 \<Rightarrow> 'a oc_blockwise_state_t_scheme \<Rightarrow> nat \<Rightarrow> 'b oc_blockwise_state_t_scheme \<Rightarrow> 'b oc_blockwise_state_t_scheme" where
  "deliver_block cfg sz sender k receiver =
     (case fst (oc_blockwise_dispatch_block sender (of_nat k * sz) sz) of
        None \<Rightarrow> receiver
      | Some (off, n) \<Rightarrow>
          snd (oc_blockwise_handle_block cfg receiver off (bslice (bw_buffer sender) (unat off) (unat n)) n))"

definition buffer_wf :: "blockwise_cfg \<Rightarrow> 'a oc_blockwise_state_t_scheme \<Rightarrow> bool" where
  "buffer_wf cfg b \<longleftrightarrow> unat (blockwise_get_buffer_size cfg b) = length (bw_buffer b) \<and>
     unat (bw_next_block_offset b) \<le> length (bw_buffer b)"

definition holds_payload :: "'a oc_blockwise_state_t_scheme \<Rightarrow> bytes \<Rightarrow> bool" where
  "holds_payload b p \<longleftrightarrow> unat (bw_payload_size b) = length p \<and> take (length p) (bw_buffer b) = p"

text \<open>The receiver holds the first \<open>m\<close> blocks.\<close>

definition has_blocks :: "blockwise_cfg \<Rightarrow> nat \<Rightarrow> bytes \<Rightarrow> nat \<Rightarrow> 'a oc_blockwise_state_t_scheme \<Rightarrow> bool" where
  "has_blocks cfg sz p m b \<longleftrightarrow> buffer_wf cfg b \<and> length p \<le> length (bw_buffer b) \<and>
     unat (bw_next_block_offset b) = min (m * sz) (length p) \<and>
     take (min (m * sz) (length p)) (bw_buffer b) = take (min (m * sz) (length p)) p"

lemma unat_of_nat_32: "n < 2 ^ 32 \<Longrightarrow> unat (of_nat n :: u32) = n"
  by (simp only: unsigned_of_nat) (simp add: take_bit_nat_eq_self)

lemma get_buffer_size_update:
  "blockwise_get_buffer_size cfg (b\<lparr>bw_buffer := B, bw_next_block_offset := w\<rparr>) = blockwise_get_buffer_size cfg b"
  by (simp add: blockwise_get_buffer_size_def)

lemma handle_block_ok:
  assumes "buffer_wf cfg b" and "length data = unat n"
  shows "oc_blockwise_handle_block cfg b off data n =
    (if unat off \<ge> length (bw_buffer b) \<or> unat off + unat n > length (bw_buffer b) \<or> unat off > unat (bw_next_block_offset b) then (False, b)
     else if unat off = unat (bw_next_block_offset b)
     then (True, b\<lparr>bw_buffer := write_at (bw_buffer b) (unat off) data, bw_next_block_offset := of_nat (unat off + unat n)\<rparr>)
     else (True, b))"
proof -
  let ?S = "blockwise_get_buffer_size cfg b"
  have S: "unat ?S = length (bw_buffer b)" using assms(1) by (simp add: buffer_wf_def)
  have sub: "unat (?S - off) = length (bw_buffer b) - unat off" if "off < ?S"
    using that S by (simp add: unat_sub less_imp_le)
  show ?thesis
    using S sub assms(2)
    by (auto simp: oc_blockwise_handle_block_def word_less_nat_alt word_le_nat_alt word_unat_eq_iff)
qed

lemma dispatch_block_ok:
  assumes "holds_payload b p" and "0 < sz" and "k * unat sz < 2 ^ 32"
  shows "fst (oc_blockwise_dispatch_block b (of_nat k * sz) sz) =
    (if k * unat sz < length p then Some (of_nat k * sz, of_nat (min (unat sz) (length p - k * unat sz))) else None)"
    and "unat (of_nat k * sz) = k * unat sz"
proof -
  show off: "unat (of_nat k * sz) = k * unat sz"
    using assms(3) by (simp add: unat_word_ariths unat_of_nat mod_mult_left_eq)
  have P: "unat (bw_payload_size b) = length p" using assms(1) by (simp add: holds_payload_def)
  have sz: "0 < unat sz" using assms(2) by (simp add: word_less_nat_alt)
  show "fst (oc_blockwise_dispatch_block b (of_nat k * sz) sz) =
    (if k * unat sz < length p then Some (of_nat k * sz, of_nat (min (unat sz) (length p - k * unat sz))) else None)"
  proof (cases "k * unat sz < length p")
    case True
    then have lt: "of_nat k * sz < bw_payload_size b" by (simp add: word_less_nat_alt off P)
    then have d: "unat (bw_payload_size b - of_nat k * sz) = length p - k * unat sz"
      by (simp add: unat_sub less_imp_le off P)
    show ?thesis
    proof (cases "bw_payload_size b < sz")
      case True
      then have "length p < unat sz" by (simp add: word_less_nat_alt P)
      with \<open>k * unat sz < length p\<close> have "k = 0" by (cases k) auto
      moreover have "of_nat (length p) = bw_payload_size b" by (simp flip: P)
      ultimately show ?thesis
        using True lt \<open>length p < unat sz\<close> \<open>k * unat sz < length p\<close>
        by (simp add: oc_blockwise_dispatch_block_def Let_def min_absorb2)
    next
      case False
      have "min sz (bw_payload_size b - of_nat k * sz) = of_nat (min (unat sz) (length p - k * unat sz))"
        by (rule word_unat_eq_iff [THEN iffD2]) (simp add: min_def word_le_nat_alt d flip: d)
      with False lt True show ?thesis by (simp add: oc_blockwise_dispatch_block_def Let_def)
    qed
  next
    case False
    then have "\<not> of_nat k * sz < bw_payload_size b" by (simp add: word_less_nat_alt off P)
    with False show ?thesis by (simp add: oc_blockwise_dispatch_block_def)
  qed
qed

lemma deliver_step:
  assumes "holds_payload sender p" and "0 < sz" and "k * unat sz < 2 ^ 32" and "has_blocks cfg (unat sz) p m receiver"
  shows "has_blocks cfg (unat sz) p (if k = m \<and> m * unat sz < length p then Suc m else m) (deliver_block cfg sz sender k receiver)"
proof (cases "k * unat sz < length p")
  case False
  with dispatch_block_ok [OF assms(1-3)] assms(4) show ?thesis by (auto simp: deliver_block_def)
next
  case True
  let ?o = "k * unat sz" and ?n = "min (unat sz) (length p - k * unat sz)" and ?N = "length (bw_buffer receiver)"
  let ?d = "bslice (bw_buffer sender) ?o ?n"
  from assms(4) have wf: "buffer_wf cfg receiver" and pN: "length p \<le> ?N"
    and nx: "unat (bw_next_block_offset receiver) = min (m * unat sz) (length p)"
    and pre: "take (min (m * unat sz) (length p)) (bw_buffer receiver) = take (min (m * unat sz) (length p)) p"
    by (auto simp: has_blocks_def)
  have sz: "0 < unat sz" using assms(2) by (simp add: word_less_nat_alt)
  have plen: "length p < 2 ^ 32" using assms(1) unsigned_less [where ?'a = nat, of "bw_payload_size sender"] by (simp add: holds_payload_def)
  have n: "unat (of_nat ?n :: u32) = ?n" using plen by (intro unat_of_nat_32) simp
  have d: "?d = bslice p ?o ?n" "length ?d = ?n"
  proof -
    have "bw_buffer sender = p @ drop (length p) (bw_buffer sender)"
      using assms(1) by (metis append_take_drop_id holds_payload_def)
    then show "?d = bslice p ?o ?n"
      by (metis True bslice_append_left add_diff_inverse_nat less_imp_le_nat min.cobounded2 nat_add_left_cancel_le not_less)
    then show "length ?d = ?n" by (simp add: length_bslice)
  qed
  have r: "deliver_block cfg sz sender k receiver = snd (oc_blockwise_handle_block cfg receiver (of_nat k * sz) ?d (of_nat ?n))"
    using dispatch_block_ok [OF assms(1-3)] True n by (simp add: deliver_block_def)
  have on: "?o + ?n \<le> ?N" using True pN by simp
  note h = handle_block_ok [OF wf, of ?d "of_nat ?n" "of_nat k * sz", unfolded n dispatch_block_ok(2) [OF assms(1-3)], OF d(2)]
  show ?thesis
  proof (cases "k = m")
    case False
    have "?o \<noteq> min (m * unat sz) (length p)" using False True sz by (auto simp: min_def)
    with r h nx False assms(4) show ?thesis by auto
  next
    case km: True
    have eq: "?o = min (m * unat sz) (length p)" using True km by simp
    have r': "deliver_block cfg sz sender k receiver =
        receiver\<lparr>bw_buffer := write_at (bw_buffer receiver) ?o ?d, bw_next_block_offset := of_nat (?o + ?n)\<rparr>"
      using r h nx eq on True pN by simp
    have m1: "min (Suc m * unat sz) (length p) = ?o + ?n" using True km by (auto simp: min_def)
    have "?o + ?n < 2 ^ 32" using True plen by simp
    then have u: "unat (of_nat (?o + ?n) :: u32) = ?o + ?n" by (rule unat_of_nat_32)
    have "take (?o + ?n) (write_at (bw_buffer receiver) ?o ?d) = take ?o (bw_buffer receiver) @ ?d"
      using on d(2) by (simp add: write_at_def)
    also have "\<dots> = take ?o p @ bslice p ?o ?n" using pre eq d(1) by simp
    also have "\<dots> = take (?o + ?n) p" by (simp add: bslice_def take_add)
    finally have "take (?o + ?n) (write_at (bw_buffer receiver) ?o ?d) = take (?o + ?n) p" .
    moreover have "length (write_at (bw_buffer receiver) ?o ?d) = ?N" using on d(2) by (simp add: length_write_at)
    moreover have "has_blocks cfg (unat sz) p (Suc m) (receiver\<lparr>bw_buffer := B, bw_next_block_offset := w\<rparr>)"
      if "length B = ?N" "unat w = min (Suc m * unat sz) (length p)"
        "take (min (Suc m * unat sz) (length p)) B = take (min (Suc m * unat sz) (length p)) p" for B w
      using that wf pN by (simp add: has_blocks_def buffer_wf_def get_buffer_size_update min.coboundedI2)
    ultimately have "has_blocks cfg (unat sz) p (Suc m) (deliver_block cfg sz sender k receiver)"
      unfolding r' using u m1 by metis
    with km True show ?thesis by simp
  qed
qed

text \<open>Which block the receiver waits for, after the blocks with the numbers of a sequence.\<close>

primrec blocks_after :: "nat \<Rightarrow> nat \<Rightarrow> nat list \<Rightarrow> nat" where
  "blocks_after cnt m [] = m"
| "blocks_after cnt m (k # ks) = blocks_after cnt (if k = m \<and> m < cnt then Suc m else m) ks"

definition block_count :: "nat \<Rightarrow> nat \<Rightarrow> nat" where
  "block_count sz len = (len + sz - 1) div sz"

lemma block_count_iff:
  assumes "0 < sz"
  shows "m < block_count sz len \<longleftrightarrow> m * sz < len"
proof -
  have "m < (len + sz - 1) div sz \<longleftrightarrow> Suc m \<le> (len + sz - 1) div sz" by auto
  also have "\<dots> \<longleftrightarrow> Suc m * sz \<le> len + sz - 1" using assms by (simp add: less_eq_div_iff_mult_less_eq)
  also have "\<dots> \<longleftrightarrow> m * sz < len" using assms by auto
  finally show ?thesis by (simp add: block_count_def)
qed

lemma blocks_after_all: "subseq [m..<n] ks \<Longrightarrow> m \<le> n \<Longrightarrow> blocks_after n m ks = n"
proof (induction ks arbitrary: m)
  case Nil
  then show ?case by (cases "m < n") (simp_all add: upt_conv_Cons)
next
  case (Cons k ks)
  show ?case
  proof (cases "k = m \<and> m < n")
    case True
    with Cons.prems have "subseq [Suc m..<n] ks" by (simp add: upt_conv_Cons)
    with True Cons.IH [of "Suc m"] show ?thesis by simp
  next
    case False
    with Cons.prems have "subseq [m..<n] ks" by (cases "m < n") (auto simp: upt_conv_Cons)
    with False Cons.IH Cons.prems(2) show ?thesis by auto
  qed
qed

lemma deliver_all_blocks:
  assumes "holds_payload sender p" and "0 < sz" and "\<forall>k \<in> set ks. k * unat sz < 2 ^ 32" and "has_blocks cfg (unat sz) p m receiver"
  shows "has_blocks cfg (unat sz) p (blocks_after (block_count (unat sz) (length p)) m ks) (fold (deliver_block cfg sz sender) ks receiver)"
  using assms(3,4)
proof (induction ks arbitrary: m receiver)
  case (Cons k ks)
  have "0 < unat sz" using assms(2) by (simp add: word_less_nat_alt)
  from block_count_iff [OF this, of m "length p"] deliver_step [OF assms(1,2) _ Cons.prems(2), of k] Cons.prems(1)
  show ?case by (simp add: Cons.IH)
qed simp

subsection \<open>Properties of transfers\<close>

text \<open>
  C18. A payload is transferred correctly over a network that loses, repeats and reorders blocks.
  Whatever sequence of block numbers arrives, the receiver holds a prefix of the payload; and when the
  blocks occur in this sequence in order, with anything in between, it holds the whole payload.
\<close>

theorem blockwise_transfer:
  assumes "holds_payload sender p" and "0 < sz" and "\<forall>k \<in> set ks. k * unat sz < 2 ^ 32"
    and "buffer_wf cfg receiver" and "length p \<le> length (bw_buffer receiver)" and "bw_next_block_offset receiver = 0"
    and "receiver' = fold (deliver_block cfg sz sender) ks receiver" and "n = unat (bw_next_block_offset receiver')"
  shows "n \<le> length p \<and> take n (bw_buffer receiver') = take n p \<and>
    (subseq [0..<block_count (unat sz) (length p)] ks \<longrightarrow> n = length p \<and> take (length p) (bw_buffer receiver') = p)"
proof -
  let ?c = "block_count (unat sz) (length p)"
  have sz: "0 < unat sz" using assms(2) by (simp add: word_less_nat_alt)
  have "has_blocks cfg (unat sz) p 0 receiver" using assms(4-6) by (simp add: has_blocks_def)
  note h = deliver_all_blocks [OF assms(1-3) this, folded assms(7)]
  have "blocks_after ?c 0 ks * unat sz \<ge> length p" if "subseq [0..<?c] ks"
    using blocks_after_all [OF that] block_count_iff [OF sz, of ?c "length p"] by simp
  with h show ?thesis by (auto simp: has_blocks_def assms(8))
qed

definition example_blockwise_cfg :: blockwise_cfg where
  "example_blockwise_cfg = \<lparr>bw_dynamic = True, bw_app_pool = False, OC_APP_DATA_BUFFER_SIZE = 16, OC_MAX_APP_DATA_SIZE = 16\<rparr>"

definition example_buffer :: "bytes \<Rightarrow> oc_blockwise_state_t" where
  "example_buffer p = (zero_request 1)\<lparr>bw_buffer := p, bw_buffer_size := of_nat (length p), bw_payload_size := of_nat (length p)\<rparr>"

lemma example_buffer_simps [simp]:
  "bw_buffer (example_buffer p) = p" "bw_payload_size (example_buffer p) = of_nat (length p)"
  "bw_next_block_offset (example_buffer p) = 0" "blockwise_get_buffer_size example_blockwise_cfg (example_buffer p) = of_nat (length p)"
  by (simp_all add: example_buffer_def zero_request_def blockwise_get_buffer_size_def example_blockwise_cfg_def)

theorem blockwise_transfer_witness:
  "take (length [1, 2, 3, 4, 5 :: u8]) (bw_buffer (fold (deliver_block example_blockwise_cfg 2 (example_buffer [1, 2, 3, 4, 5])) [1, 0, 0, 2, 1, 2]
     (example_buffer (replicate 8 0)))) = [1, 2, 3, 4, 5]"
proof -
  have "holds_payload (example_buffer [1, 2, 3, 4, 5]) [1, 2, 3, 4, 5]" by (simp add: holds_payload_def)
  moreover have "buffer_wf example_blockwise_cfg (example_buffer (replicate 8 0))" by (simp add: buffer_wf_def)
  moreover have "subseq [0..<block_count (unat (2 :: u32)) (length [1, 2, 3, 4, 5 :: u8])] [1, 0, 0, 2, 1, 2]"
    by (simp add: block_count_def upt_conv_Cons)
  ultimately show ?thesis
    using blockwise_transfer [of "example_buffer [1, 2, 3, 4, 5]" "[1, 2, 3, 4, 5]" 2 "[1, 0, 0, 2, 1, 2]" example_blockwise_cfg
        "example_buffer (replicate 8 0)"] by simp
qed

text \<open>
  A block with any offset and size is handled inside the buffer: it is refused when it does not
  fit or leaves a gap, ignored when it is not the expected one, and otherwise written at the expected
  offset, which advances by its size; the bytes outside the block, the size of the buffer and all
  other fields stay.
\<close>

theorem handle_block_safe:
  assumes "buffer_wf cfg b" and "length data = unat n" and "oc_blockwise_handle_block cfg b off data n = (ok, b')"
  shows "buffer_wf cfg b' \<and> length (bw_buffer b') = length (bw_buffer b) \<and>
    (ok \<longleftrightarrow> unat off < length (bw_buffer b) \<and> unat off + unat n \<le> length (bw_buffer b) \<and> unat off \<le> unat (bw_next_block_offset b)) \<and>
    (if ok \<and> off = bw_next_block_offset b
     then unat (bw_next_block_offset b') = unat off + unat n \<and>
       (\<forall>i < length (bw_buffer b). bw_buffer b' ! i =
          (if unat off \<le> i \<and> i < unat off + unat n then data ! (i - unat off) else bw_buffer b ! i)) \<and>
       b' = b\<lparr>bw_buffer := bw_buffer b', bw_next_block_offset := bw_next_block_offset b'\<rparr>
     else b' = b)"
proof (cases "ok \<and> off = bw_next_block_offset b")
  case True
  with assms(2,3) handle_block_ok [OF assms(1,2), of off] have c: "unat off < length (bw_buffer b)" "unat off + unat n \<le> length (bw_buffer b)"
    and b': "b' = b\<lparr>bw_buffer := write_at (bw_buffer b) (unat off) data, bw_next_block_offset := of_nat (unat off + unat n)\<rparr>"
    by (auto split: if_splits)
  have "unat off + unat n < 2 ^ 32"
    using c(2) assms(1) unsigned_less [where ?'a = nat, of "blockwise_get_buffer_size cfg b"] by (simp add: buffer_wf_def)
  then have u: "unat (of_nat (unat off + unat n) :: u32) = unat off + unat n" by (rule unat_of_nat_32)
  have l: "length (write_at (bw_buffer b) (unat off) data) = length (bw_buffer b)"
    using c(2) assms(2) by (simp add: length_write_at)
  have "buffer_wf cfg b'" using assms(1) u l c(2) unfolding b' by (simp only: buffer_wf_def get_buffer_size_update) simp
  moreover have "bw_buffer b' ! i = (if unat off \<le> i \<and> i < unat off + unat n then data ! (i - unat off) else bw_buffer b ! i)"
    if "i < length (bw_buffer b)" for i
    using that c(2) assms(2) by (simp add: b' nth_write_at)
  moreover have "unat (bw_next_block_offset b') = unat off + unat n" using u by (simp add: b')
  moreover have "b' = b\<lparr>bw_buffer := bw_buffer b', bw_next_block_offset := bw_next_block_offset b'\<rparr>" by (simp add: b')
  moreover have "length (bw_buffer b') = length (bw_buffer b)" using l by (simp add: b')
  ultimately show ?thesis using True c by simp
next
  case False
  with assms handle_block_ok [OF assms(1,2), of off] show ?thesis
    by (auto simp: word_unat_eq_iff split: if_splits)
qed

theorem handle_block_safe_witness:
  "fst (oc_blockwise_handle_block example_blockwise_cfg (example_buffer (replicate 8 0)) 0 [7, 9] 2) \<and>
   unat (bw_next_block_offset (snd (oc_blockwise_handle_block example_blockwise_cfg (example_buffer (replicate 8 0)) 0 [7, 9] 2))) = 2"
proof -
  have "buffer_wf example_blockwise_cfg (example_buffer (replicate 8 0))" by (simp add: buffer_wf_def)
  from handle_block_safe [OF this, of "[7, 9]" 2 0] show ?thesis by (auto simp: prod_eq_iff)
qed

end
