(* ===== verification/OcBlockwiseBuffers.thy ===== *)
theory OcBlockwiseBuffers
  imports OcBlockwise
begin

text \<open>
  The life of the buffers of block-wise transfers (\<open>src/api/oc_blockwise.c\<close>): which buffers the operations
  add and release, that no block is lost or released twice, and that the timed callbacks of
  \<open>src/api/oc_event_callback.c\<close> release exactly the buffers whose lifetime is over.
\<close>

subsection \<open>Well-formed states\<close>

text \<open>The addresses on a list, the allocated blocks, and the timed callbacks that will release them.\<close>

definition owned :: "nat list \<Rightarrow> nat set \<Rightarrow> nat list \<Rightarrow> bool" where
  "owned addrs blocks evs \<longleftrightarrow> distinct addrs \<and> blocks = set addrs \<and> distinct evs \<and> set evs \<subseteq> set addrs"

definition events_for :: "oc_trigger_t \<Rightarrow> 'e event_callbacks \<Rightarrow> nat list" where
  "events_for cb s = map snd (filter (\<lambda>e. fst e = cb) (pending s))"

definition pooled_buffers :: "blockwise \<Rightarrow> nat" where
  "pooled_buffers b = length (filter bw_block (oc_blockwise_requests b)) + length (filter bw_block (oc_blockwise_responses b))"

text \<open>
  \<open>N\<close> is the number of buffers of the pool \<open>oc_app_data_s\<close>; all timed callbacks are those of this module.
\<close>

definition kinds :: "'e event_callbacks \<Rightarrow> oc_trigger_t set" where
  "kinds s = fst ` set (pending s)"

definition bw_wf :: "nat \<Rightarrow> blockwise_events \<Rightarrow> bool" where
  "bw_wf N s \<longleftrightarrow> ec_wf s \<and> g_currently_processed_event_cb s = None \<and> kinds s \<subseteq> {FREE_REQUEST, FREE_RESPONSE} \<and>
     owned (map bw_addr (oc_blockwise_requests (bw s))) (bw_request_blocks (bw s)) (events_for FREE_REQUEST s) \<and>
     owned (map bw_addr (oc_blockwise_responses (bw s))) (bw_response_blocks (bw s)) (events_for FREE_RESPONSE s) \<and>
     bw_app_data_free (bw s) + pooled_buffers (bw s) = N"

lemma owned_add:
  assumes "owned xs B evs" and "a \<notin> B"
  shows "owned (xs @ [a]) (insert a B) evs" and "owned (xs @ [a]) (insert a B) (evs @ [a])"
  using assms by (auto simp: owned_def)

lemma owned_free: "owned xs B evs \<Longrightarrow> owned (filter (\<lambda>x. x \<noteq> a) xs) (B - {a}) (remove1 a evs)"
  by (auto simp: owned_def)

lemma addrs_filter: "map bw_addr (filter (\<lambda>b. bw_addr b \<noteq> a) bs) = filter (\<lambda>x. x \<noteq> a) (map bw_addr bs)"
  by (simp add: filter_map comp_def)

lemma events_remove1:
  "map snd (filter (\<lambda>e. fst e = cb) (remove1 (cb, d) ps)) = remove1 d (map snd (filter (\<lambda>e. fst e = cb) ps))"
  "cb' \<noteq> cb \<Longrightarrow> map snd (filter (\<lambda>e. fst e = cb') (remove1 (cb, d) ps)) = map snd (filter (\<lambda>e. fst e = cb') ps)"
  by (induction ps) auto

lemma set_bw_simps [simp]:
  "bw (set_bw b s) = b" "pending (set_bw b s) = pending s" "events_for cb (set_bw b s) = events_for cb s" "ec_wf (set_bw b s) = ec_wf s"
  "kinds (set_bw b s) = kinds s"
  "g_currently_processed_event_cb (set_bw b s) = g_currently_processed_event_cb s" "ec_timers (set_bw b s) = ec_timers s"
  "g_timed_callbacks (set_bw b s) = g_timed_callbacks s" "ec_callback (set_bw b s) = ec_callback s" "ec_data (set_bw b s) = ec_data s"
  "callback_list observe (set_bw b s) = callback_list observe s" "ec_blocks (set_bw b s) = ec_blocks s"
  "k_queue (ec_kernel (set_bw b s)) = k_queue (ec_kernel s)"
  by (simp_all add: set_bw_def pending_def events_for_def kinds_def)

lemma find_unique:
  assumes "distinct (map bw_addr bs)" and "x \<in> set bs"
  shows "find (\<lambda>b. bw_addr b = bw_addr x) bs = Some x"
  using assms by (induction bs) auto

lemma other_addr: "distinct (map bw_addr (b # bs)) \<Longrightarrow> y \<in> set bs \<Longrightarrow> bw_addr y \<noteq> bw_addr b"
  by (metis distinct.simps(2) image_eqI list.set_map list.simps(9))

lemma pooled_filter:
  assumes "distinct (map bw_addr bs)" and "x \<in> set bs"
  shows "length (filter bw_block (filter (\<lambda>b. bw_addr b \<noteq> bw_addr x) bs)) + (if bw_block x then 1 else 0) = length (filter bw_block bs)"
  using assms
proof (induction bs)
  case (Cons b bs)
  show ?case
  proof (cases "x = b")
    case True
    with other_addr [OF Cons.prems(1)] have "filter (\<lambda>y. bw_addr y \<noteq> bw_addr x) bs = bs"
      by (simp add: filter_id_conv)
    with True show ?thesis by simp
  next
    case False
    with Cons show ?thesis by force
  qed
qed simp

subsection \<open>Release\<close>

text \<open>The request with an address is taken off its list, and its block and pool buffer are given back.\<close>

lemma free_request_async_ok:
  assumes "distinct (map bw_addr (oc_blockwise_requests b))" and "x \<in> set (oc_blockwise_requests b)"
  shows "\<exists>b'. blockwise_free_request_async (bw_addr x) b = Some b' \<and>
    oc_blockwise_requests b' = filter (\<lambda>y. bw_addr y \<noteq> bw_addr x) (oc_blockwise_requests b) \<and>
    oc_blockwise_responses b' = oc_blockwise_responses b \<and>
    bw_request_blocks b' = bw_request_blocks b - {bw_addr x} \<and> bw_response_blocks b' = bw_response_blocks b \<and>
    bw_app_data_free b' + pooled_buffers b' = bw_app_data_free b + pooled_buffers b"
  using find_unique [OF assms] pooled_filter [OF assms]
  by (auto simp: blockwise_free_request_async_def blockwise_free_buffer_def pooled_buffers_def)

lemma free_response_async_ok:
  assumes "distinct (map bw_addr (oc_blockwise_responses b))" and "x \<in> set (oc_blockwise_responses b)"
  shows "\<exists>b'. blockwise_free_response_async (bw_addr x) b = Some b' \<and>
    oc_blockwise_responses b' = filter (\<lambda>y. bw_addr y \<noteq> bw_addr x) (oc_blockwise_responses b) \<and>
    oc_blockwise_requests b' = oc_blockwise_requests b \<and>
    bw_response_blocks b' = bw_response_blocks b - {bw_addr x} \<and> bw_request_blocks b' = bw_request_blocks b \<and>
    bw_app_data_free b' + pooled_buffers b' = bw_app_data_free b + pooled_buffers b"
  using find_unique [OF assms] pooled_filter [OF assms]
  by (auto simp: blockwise_free_response_async_def blockwise_free_buffer_def pooled_buffers_def)

lemma remove_event_ok:
  assumes "ec_wf s" and "g_currently_processed_event_cb s = None"
  shows "\<exists>s'. oc_ri_remove_timed_event_callback env d cb s = Some s' \<and> ec_wf s' \<and> g_currently_processed_event_cb s' = None \<and>
    events_for cb s' = remove1 d (events_for cb s) \<and> (\<forall>cb'. cb' \<noteq> cb \<longrightarrow> events_for cb' s' = events_for cb' s) \<and> kinds s' \<subseteq> kinds s \<and>
    k_env (ec_kernel s') = k_env (ec_kernel s)"
proof -
  from remove_first_pending [OF assms, of env d cb] obtain s' where s': "oc_ri_remove_timed_event_callback env d cb s = Some s'" "ec_wf s'"
    "pending s' = remove1 (cb, d) (pending s)" "same_owners s s'" "k_env (ec_kernel s') = k_env (ec_kernel s)" by blast
  have "kinds s' \<subseteq> kinds s" using set_remove1_subset unfolding kinds_def s'(3) by (rule image_mono)
  with s' assms(2) show ?thesis by (simp add: events_for_def events_remove1 same_owners_def)
qed

lemma free_request_ok:
  assumes "bw_wf N s" and "x \<in> set (oc_blockwise_requests (bw s))"
  shows "\<exists>s'. oc_blockwise_free_request_buffer env (Some (bw_addr x)) s = Some s' \<and> bw_wf N s' \<and>
    oc_blockwise_requests (bw s') = filter (\<lambda>y. bw_addr y \<noteq> bw_addr x) (oc_blockwise_requests (bw s)) \<and>
    oc_blockwise_responses (bw s') = oc_blockwise_responses (bw s)"
proof -
  from assms(1) have d: "distinct (map bw_addr (oc_blockwise_requests (bw s)))" by (simp add: bw_wf_def owned_def)
  obtain s1 where s1: "oc_ri_remove_timed_event_callback env (bw_addr x) FREE_REQUEST s = Some s1" "ec_wf s1"
    "g_currently_processed_event_cb s1 = None" "events_for FREE_REQUEST s1 = remove1 (bw_addr x) (events_for FREE_REQUEST s)"
    "events_for FREE_RESPONSE s1 = events_for FREE_RESPONSE s" "bw s1 = bw s" "kinds s1 \<subseteq> kinds s"
    using remove_event_ok [of s env "bw_addr x" FREE_REQUEST] assms(1) unfolding bw_wf_def by force
  from free_request_async_ok [OF d assms(2)] obtain b' where b': "blockwise_free_request_async (bw_addr x) (bw s) = Some b'"
    "oc_blockwise_requests b' = filter (\<lambda>y. bw_addr y \<noteq> bw_addr x) (oc_blockwise_requests (bw s))"
    "oc_blockwise_responses b' = oc_blockwise_responses (bw s)" "bw_request_blocks b' = bw_request_blocks (bw s) - {bw_addr x}"
    "bw_response_blocks b' = bw_response_blocks (bw s)"
    "bw_app_data_free b' + pooled_buffers b' = bw_app_data_free (bw s) + pooled_buffers (bw s)" by blast
  have "bw_wf N (set_bw b' s1)"
    using assms(1) s1 b'(2-6) owned_free subset_trans [OF s1(7)] by (simp add: bw_wf_def addrs_filter)
  with s1(1,6) b'(1-3) show ?thesis by (simp add: oc_blockwise_free_request_buffer_def)
qed

lemma free_response_ok:
  assumes "bw_wf N s" and "x \<in> set (oc_blockwise_responses (bw s))"
  shows "\<exists>s'. oc_blockwise_free_response_buffer env (Some (bw_addr x)) s = Some s' \<and> bw_wf N s' \<and>
    oc_blockwise_responses (bw s') = filter (\<lambda>y. bw_addr y \<noteq> bw_addr x) (oc_blockwise_responses (bw s)) \<and>
    oc_blockwise_requests (bw s') = oc_blockwise_requests (bw s)"
proof -
  from assms(1) have d: "distinct (map bw_addr (oc_blockwise_responses (bw s)))" by (simp add: bw_wf_def owned_def)
  obtain s1 where s1: "oc_ri_remove_timed_event_callback env (bw_addr x) FREE_RESPONSE s = Some s1" "ec_wf s1"
    "g_currently_processed_event_cb s1 = None" "events_for FREE_RESPONSE s1 = remove1 (bw_addr x) (events_for FREE_RESPONSE s)"
    "events_for FREE_REQUEST s1 = events_for FREE_REQUEST s" "bw s1 = bw s" "kinds s1 \<subseteq> kinds s"
    using remove_event_ok [of s env "bw_addr x" FREE_RESPONSE] assms(1) unfolding bw_wf_def by force
  from free_response_async_ok [OF d assms(2)] obtain b' where b': "blockwise_free_response_async (bw_addr x) (bw s) = Some b'"
    "oc_blockwise_responses b' = filter (\<lambda>y. bw_addr y \<noteq> bw_addr x) (oc_blockwise_responses (bw s))"
    "oc_blockwise_requests b' = oc_blockwise_requests (bw s)" "bw_response_blocks b' = bw_response_blocks (bw s) - {bw_addr x}"
    "bw_request_blocks b' = bw_request_blocks (bw s)"
    "bw_app_data_free b' + pooled_buffers b' = bw_app_data_free (bw s) + pooled_buffers (bw s)" by blast
  have "bw_wf N (set_bw b' s1)"
    using assms(1) s1 b'(2-6) owned_free subset_trans [OF s1(7)] by (simp add: bw_wf_def addrs_filter)
  with s1(1,6) b'(1-3) show ?thesis by (simp add: oc_blockwise_free_response_buffer_def)
qed

text \<open>The loops release exactly the buffers of the list that satisfy the condition.\<close>

lemma free_requests_loop:
  assumes "bw_wf N s" and "set bs \<subseteq> set (oc_blockwise_requests (bw s))" and "distinct (map bw_addr bs)"
  shows "\<exists>s'. free_requests_if env P bs s = Some s' \<and> bw_wf N s' \<and> oc_blockwise_responses (bw s') = oc_blockwise_responses (bw s) \<and>
    oc_blockwise_requests (bw s') = filter (\<lambda>y. bw_addr y \<notin> bw_addr ` {b \<in> set bs. P b}) (oc_blockwise_requests (bw s))"
  using assms
proof (induction bs arbitrary: s)
  case Nil
  then show ?case by simp
next
  case (Cons b bs)
  show ?case
  proof (cases "P b")
    case False
    with Cons.IH [of s] Cons.prems have "\<exists>s'. free_requests_if env P bs s = Some s' \<and> bw_wf N s' \<and>
        oc_blockwise_responses (bw s') = oc_blockwise_responses (bw s) \<and>
        oc_blockwise_requests (bw s') = filter (\<lambda>y. bw_addr y \<notin> bw_addr ` {b \<in> set bs. P b}) (oc_blockwise_requests (bw s))" by simp
    moreover have "{x \<in> set (b # bs). P x} = {x \<in> set bs. P x}" using False by auto
    ultimately show ?thesis using False by simp
  next
    case True
    have "b \<in> set (oc_blockwise_requests (bw s))" using Cons.prems(2) by simp
    from free_request_ok [OF Cons.prems(1) this, of env] obtain s1 where
      s1: "oc_blockwise_free_request_buffer env (Some (bw_addr b)) s = Some s1" "bw_wf N s1"
        "oc_blockwise_requests (bw s1) = filter (\<lambda>y. bw_addr y \<noteq> bw_addr b) (oc_blockwise_requests (bw s))"
        "oc_blockwise_responses (bw s1) = oc_blockwise_responses (bw s)" by blast
    have "set bs \<subseteq> set (oc_blockwise_requests (bw s1))" 
      using Cons.prems(2) other_addr [OF Cons.prems(3)] unfolding s1(3) by auto
    from Cons.IH [OF s1(2) this] Cons.prems(3) obtain s' where
      "free_requests_if env P bs s1 = Some s'" "bw_wf N s'" "oc_blockwise_responses (bw s') = oc_blockwise_responses (bw s1)"
      "oc_blockwise_requests (bw s') = filter (\<lambda>y. bw_addr y \<notin> bw_addr ` {b \<in> set bs. P b}) (oc_blockwise_requests (bw s1))" by auto
    moreover have "{x \<in> set (b # bs). P x} = insert b {x \<in> set bs. P x}" using True by auto
    ultimately show ?thesis
      using True s1 by (auto intro!: filter_cong)
  qed
qed

lemma free_responses_loop:
  assumes "bw_wf N s" and "set bs \<subseteq> set (oc_blockwise_responses (bw s))" and "distinct (map bw_addr bs)"
  shows "\<exists>s'. free_responses_if env P bs s = Some s' \<and> bw_wf N s' \<and> oc_blockwise_requests (bw s') = oc_blockwise_requests (bw s) \<and>
    oc_blockwise_responses (bw s') = filter (\<lambda>y. bw_addr y \<notin> bw_addr ` {b \<in> set bs. P b}) (oc_blockwise_responses (bw s))"
  using assms
proof (induction bs arbitrary: s)
  case Nil
  then show ?case by simp
next
  case (Cons b bs)
  show ?case
  proof (cases "P b")
    case False
    with Cons.IH [of s] Cons.prems have "\<exists>s'. free_responses_if env P bs s = Some s' \<and> bw_wf N s' \<and>
        oc_blockwise_requests (bw s') = oc_blockwise_requests (bw s) \<and>
        oc_blockwise_responses (bw s') = filter (\<lambda>y. bw_addr y \<notin> bw_addr ` {b \<in> set bs. P b}) (oc_blockwise_responses (bw s))" by simp
    moreover have "{x \<in> set (b # bs). P x} = {x \<in> set bs. P x}" using False by auto
    ultimately show ?thesis using False by simp
  next
    case True
    have "b \<in> set (oc_blockwise_responses (bw s))" using Cons.prems(2) by simp
    from free_response_ok [OF Cons.prems(1) this, of env] obtain s1 where
      s1: "oc_blockwise_free_response_buffer env (Some (bw_addr b)) s = Some s1" "bw_wf N s1"
        "oc_blockwise_responses (bw s1) = filter (\<lambda>y. bw_addr y \<noteq> bw_addr b) (oc_blockwise_responses (bw s))"
        "oc_blockwise_requests (bw s1) = oc_blockwise_requests (bw s)" by blast
    have "set bs \<subseteq> set (oc_blockwise_responses (bw s1))" 
      using Cons.prems(2) other_addr [OF Cons.prems(3)] unfolding s1(3) by auto
    from Cons.IH [OF s1(2) this] Cons.prems(3) obtain s' where
      "free_responses_if env P bs s1 = Some s'" "bw_wf N s'" "oc_blockwise_requests (bw s') = oc_blockwise_requests (bw s1)"
      "oc_blockwise_responses (bw s') = filter (\<lambda>y. bw_addr y \<notin> bw_addr ` {b \<in> set bs. P b}) (oc_blockwise_responses (bw s1))" by auto
    moreover have "{x \<in> set (b # bs). P x} = insert b {x \<in> set bs. P x}" using True by auto
    ultimately show ?thesis
      using True s1 by (auto intro!: filter_cong)
  qed
qed

lemma filter_by_addr:
  assumes "distinct (map bw_addr bs)"
  shows "filter (\<lambda>y. bw_addr y \<notin> bw_addr ` {b \<in> set bs. P b}) bs = filter (\<lambda>y. \<not> P y) bs"
  using assms by (intro filter_cong) (auto dest: inj_onD [OF distinct_map [THEN iffD1, THEN conjunct2]])

lemma free_matching:
  assumes "bw_wf N s"
  shows "\<exists>s'. free_requests_if env P (oc_blockwise_requests (bw s)) s = Some s' \<and> bw_wf N s' \<and>
      oc_blockwise_requests (bw s') = filter (\<lambda>b. \<not> P b) (oc_blockwise_requests (bw s)) \<and>
      oc_blockwise_responses (bw s') = oc_blockwise_responses (bw s)"
    and "\<exists>s'. free_responses_if env Q (oc_blockwise_responses (bw s)) s = Some s' \<and> bw_wf N s' \<and>
      oc_blockwise_responses (bw s') = filter (\<lambda>b. \<not> Q b) (oc_blockwise_responses (bw s)) \<and>
      oc_blockwise_requests (bw s') = oc_blockwise_requests (bw s)"
proof -
  have d: "distinct (map bw_addr (oc_blockwise_requests (bw s)))" "distinct (map bw_addr (oc_blockwise_responses (bw s)))"
    using assms by (auto simp: bw_wf_def owned_def)
  show "\<exists>s'. free_requests_if env P (oc_blockwise_requests (bw s)) s = Some s' \<and> bw_wf N s' \<and>
      oc_blockwise_requests (bw s') = filter (\<lambda>b. \<not> P b) (oc_blockwise_requests (bw s)) \<and>
      oc_blockwise_responses (bw s') = oc_blockwise_responses (bw s)"
    using free_requests_loop [OF assms subset_refl d(1), of env P] unfolding filter_by_addr [OF d(1)] by blast
  show "\<exists>s'. free_responses_if env Q (oc_blockwise_responses (bw s)) s = Some s' \<and> bw_wf N s' \<and>
      oc_blockwise_responses (bw s') = filter (\<lambda>b. \<not> Q b) (oc_blockwise_responses (bw s)) \<and>
      oc_blockwise_requests (bw s') = oc_blockwise_requests (bw s)"
    using free_responses_loop [OF assms subset_refl d(2), of env Q] unfolding filter_by_addr [OF d(2)] by blast
qed

lemma free_both_matching:
  assumes "bw_wf N s"
  shows "\<exists>s'. Option.bind (free_requests_if env P (oc_blockwise_requests (bw s)) s)
      (\<lambda>s1. free_responses_if env Q (oc_blockwise_responses (bw s1)) s1) = Some s' \<and> bw_wf N s' \<and>
    oc_blockwise_requests (bw s') = filter (\<lambda>b. \<not> P b) (oc_blockwise_requests (bw s)) \<and>
    oc_blockwise_responses (bw s') = filter (\<lambda>b. \<not> Q b) (oc_blockwise_responses (bw s))"
proof -
  from free_matching(1) [OF assms, of env P] obtain s1 where s1: "free_requests_if env P (oc_blockwise_requests (bw s)) s = Some s1"
    "bw_wf N s1" "oc_blockwise_requests (bw s1) = filter (\<lambda>b. \<not> P b) (oc_blockwise_requests (bw s))"
    "oc_blockwise_responses (bw s1) = oc_blockwise_responses (bw s)" by blast
  with free_matching(2) [OF s1(2), of env Q] show ?thesis by auto
qed

lemma free_all_eq: "oc_blockwise_free_all_buffers env all s =
    Option.bind (free_requests_if env (\<lambda>b. bw_ref_count b = 0 \<or> all) (oc_blockwise_requests (bw s)) s)
      (\<lambda>s1. free_responses_if env (\<lambda>b. bw_ref_count b = 0 \<or> all) (oc_blockwise_responses (bw s1)) s1)"
  by (simp add: oc_blockwise_free_all_buffers_def oc_blockwise_free_all_request_buffers_def
      oc_blockwise_free_all_response_buffers_def [abs_def])

subsection \<open>Allocation\<close>

lemma init_buffer_result:
  assumes "blockwise_init_buffer cfg (map_option z blk) memory href endpoint meth role len free = (Some b, free')"
    and "\<And>a. bw_addr (z a) = a \<and> \<not> bw_block (z a)"
  shows "blk = Some (bw_addr b)" and "free' + (if bw_block b then 1 else 0) = free"
  using assms by (auto simp: blockwise_init_buffer_def Let_def split: if_splits option.splits)

lemma zero_buffers [simp]:
  "bw_addr (zero_request a) = a" "\<not> bw_block (zero_request a)" "bw_addr (zero_response c a) = a" "\<not> bw_block (zero_response c a)"
  by (simp_all add: zero_request_def zero_response_def oc_blockwise_state_t.defs)

text \<open>Adding the timed callback that releases a buffer, when there is memory for it.\<close>

lemma add_event_ok:
  assumes "ec_wf s" and "\<forall>e. event_cb = Some e \<longrightarrow> unused e s"
  shows "\<exists>s'. oc_ri_add_timed_event_callback_ticks env event_cb d cb ticks s = Some s' \<and> ec_wf s' \<and>
    g_currently_processed_event_cb s' = g_currently_processed_event_cb s \<and> k_env (ec_kernel s') = k_env (ec_kernel s) \<and>
    events_for cb s' = events_for cb s @ (if event_cb = None then [] else [d]) \<and>
    (\<forall>cb'. cb' \<noteq> cb \<longrightarrow> events_for cb' s' = events_for cb' s) \<and> kinds s' \<subseteq> insert cb (kinds s)"
proof (cases event_cb)
  case None
  with assms(1) show ?thesis by (auto simp: oc_ri_add_timed_event_callback_ticks_def)
next
  case (Some a)
  with assms(2) have u: "unused a s" by simp
  from add_timed_ok [OF assms(1) u, of env d cb ticks] obtain s1 where
    s1: "oc_ri_add_timed_event_callback_ticks env (Some a) d cb ticks s = Some s1" "ec_wf s1"
      "g_timed_callbacks s1 = g_timed_callbacks s @ [a]" "ec_callback s1 = (ec_callback s)(a := cb)" "ec_data s1 = (ec_data s)(a := d)"
      "k_env (ec_kernel s1) = k_env (ec_kernel s)" "g_currently_processed_event_cb s1 = g_currently_processed_event_cb s" by blast
  have "a \<notin> set (g_timed_callbacks s)" using assms(1) u by (auto simp: unused_def ec_wf_def)
  then have "pending s1 = pending s @ [(cb, d)]" using s1(3-5) by (auto simp: pending_def)
  with s1 Some show ?thesis by (simp add: events_for_def kinds_def)
qed

lemma alloc_request_ok:
  assumes "bw_wf N s" and "\<forall>a. blk = Some a \<longrightarrow> a \<notin> bw_request_blocks (bw s)" and "\<forall>e. event_cb = Some e \<longrightarrow> unused e s"
  shows "\<exists>r s'. oc_blockwise_alloc_request_buffer env cfg blk memory event_cb href endpoint meth role len s = Some (r, s') \<and> bw_wf N s' \<and>
    (if r = None then s' = s
     else \<exists>b. r = Some (bw_addr b) \<and> oc_blockwise_requests (bw s') = oc_blockwise_requests (bw s) @ [b] \<and>
       oc_blockwise_responses (bw s') = oc_blockwise_responses (bw s))"
proof (cases "blockwise_init_buffer cfg (map_option zero_request blk) memory href endpoint meth role len (bw_app_data_free (bw s))")
  case (Pair ob free)
  show ?thesis
  proof (cases ob)
    case None
    with Pair assms(1) show ?thesis by (simp add: oc_blockwise_alloc_request_buffer_def)
  next
    case (Some b)
    note init = init_buffer_result [OF Pair [unfolded Some]]
    have blk: "blk = Some (bw_addr b)" "free + (if bw_block b then 1 else 0) = bw_app_data_free (bw s)" using init by simp_all
    have ec: "ec_wf s" using assms(1) by (simp add: bw_wf_def)
    from add_event_ok [OF ec assms(3), of env "bw_addr b" FREE_REQUEST "OC_EXCHANGE_LIFETIME * clock_second env"] obtain s1 where
      s1: "oc_ri_add_timed_event_callback_ticks env event_cb (bw_addr b) FREE_REQUEST (OC_EXCHANGE_LIFETIME * clock_second env) s = Some s1"
        "ec_wf s1" "g_currently_processed_event_cb s1 = g_currently_processed_event_cb s" "bw s1 = bw s"
        "events_for FREE_REQUEST s1 = events_for FREE_REQUEST s @ (if event_cb = None then [] else [bw_addr b])"
        "events_for FREE_RESPONSE s1 = events_for FREE_RESPONSE s" "kinds s1 \<subseteq> insert FREE_REQUEST (kinds s)" by force
    let ?b = "(bw s)\<lparr>oc_blockwise_requests := oc_blockwise_requests (bw s) @ [b],
      bw_request_blocks := insert (bw_addr b) (bw_request_blocks (bw s)), bw_app_data_free := free\<rparr>"
    have "oc_blockwise_alloc_request_buffer env cfg blk memory event_cb href endpoint meth role len s = Some (Some (bw_addr b), set_bw ?b s1)"
      using Pair Some s1(1,4) by (simp add: oc_blockwise_alloc_request_buffer_def)
    moreover have "bw_wf N (set_bw ?b s1)"
      using assms(1,2) s1 blk owned_add subset_trans [OF s1(7)] by (auto simp: bw_wf_def pooled_buffers_def)
    ultimately show ?thesis by auto
  qed
qed

lemma alloc_response_ok:
  assumes "bw_wf N s" and "\<forall>a. blk = Some a \<longrightarrow> a \<notin> bw_response_blocks (bw s)" and "\<forall>e. event_cb = Some e \<longrightarrow> unused e s"
  shows "\<exists>r s'. oc_blockwise_alloc_response_buffer env cfg blk memory event_cb random href endpoint meth role len code etag s = Some (r, s') \<and>
    bw_wf N s' \<and>
    (if r = None then s' = s
     else \<exists>b. r = Some (bw_addr b) \<and> oc_blockwise_responses (bw s') = oc_blockwise_responses (bw s) @ [b] \<and>
       oc_blockwise_requests (bw s') = oc_blockwise_requests (bw s))"
proof (cases "blockwise_init_buffer cfg (map_option (zero_response code) blk) memory href endpoint meth role len (bw_app_data_free (bw s))")
  case (Pair ob free)
  show ?thesis
  proof (cases ob)
    case None
    with Pair assms(1) show ?thesis by (simp add: oc_blockwise_alloc_response_buffer_def)
  next
    case (Some b0)
    note init = init_buffer_result [OF Pair [unfolded Some]]
    define b where "b = (if etag then b0\<lparr>bw_etag := take COAP_ETAG_LEN random, bw_etag_length := 8\<rparr> else b0)\<lparr>bw_code := code, bw_observe_seq := -1\<rparr>"
    have b: "bw_addr b = bw_addr b0" "bw_block b = bw_block b0" by (simp_all add: b_def)
    have blk: "blk = Some (bw_addr b)" "free + (if bw_block b then 1 else 0) = bw_app_data_free (bw s)" using init by (simp_all add: b)
    have ec: "ec_wf s" using assms(1) by (simp add: bw_wf_def)
    from add_event_ok [OF ec assms(3), of env "bw_addr b" FREE_RESPONSE "OC_EXCHANGE_LIFETIME * clock_second env"] obtain s1 where
      s1: "oc_ri_add_timed_event_callback_ticks env event_cb (bw_addr b) FREE_RESPONSE (OC_EXCHANGE_LIFETIME * clock_second env) s = Some s1"
        "ec_wf s1" "g_currently_processed_event_cb s1 = g_currently_processed_event_cb s" "bw s1 = bw s"
        "events_for FREE_RESPONSE s1 = events_for FREE_RESPONSE s @ (if event_cb = None then [] else [bw_addr b])"
        "events_for FREE_REQUEST s1 = events_for FREE_REQUEST s" "kinds s1 \<subseteq> insert FREE_RESPONSE (kinds s)" by force
    let ?b = "(bw s)\<lparr>oc_blockwise_responses := oc_blockwise_responses (bw s) @ [b],
      bw_response_blocks := insert (bw_addr b) (bw_response_blocks (bw s)), bw_app_data_free := free\<rparr>"
    have "oc_blockwise_alloc_response_buffer env cfg blk memory event_cb random href endpoint meth role len code etag s =
        Some (Some (bw_addr b), set_bw ?b s1)"
      using Pair Some s1(1,4) unfolding oc_blockwise_alloc_response_buffer_def by (simp add: b_def [symmetric] Let_def b)
    moreover have "bw_wf N (set_bw ?b s1)"
      using assms(1,2) s1 blk owned_add subset_trans [OF s1(7)] by (auto simp: bw_wf_def pooled_buffers_def)
    ultimately show ?thesis by auto
  qed
qed

subsection \<open>Expiration\<close>

text \<open>The event loop with the callbacks of this module; \<open>others\<close> and \<open>notify\<close> are the rest of the program.\<close>

definition blockwise_env ::
  "node \<Rightarrow> node \<Rightarrow> u64 \<Rightarrow> (nat \<Rightarrow> nat \<Rightarrow> blockwise_events \<Rightarrow> (oc_event_callback_retval_t \<times> blockwise_events) option) \<Rightarrow>
   (nat \<Rightarrow> blockwise_events \<Rightarrow> (bool \<times> blockwise_events) option) \<Rightarrow> blockwise callback_env" where
  "blockwise_env etimer events sec others notify = \<lparr>etimer_proc = etimer, events_proc = events, clock_second = sec,
     release_data = (\<lambda>f d b. b), run_trigger = blockwise_trigger others, notify_observers = notify\<rparr>"

text \<open>The buffers of a kind whose timed callback has been removed from the list since the state \<open>s0\<close>.\<close>

definition released :: "oc_trigger_t \<Rightarrow> blockwise_events \<Rightarrow> blockwise_events \<Rightarrow> nat set" where
  "released cb s0 s = ec_data s0 ` {a \<in> set (g_timed_callbacks s0). ec_callback s0 a = cb \<and> a \<notin> set (g_timed_callbacks s)}"

definition expiring :: "nat \<Rightarrow> blockwise_events \<Rightarrow> blockwise_events \<Rightarrow> bool" where
  "expiring N s0 s \<longleftrightarrow> bw_wf N (s\<lparr>g_currently_processed_event_cb := None\<rparr>) \<and>
     ec_callback s = ec_callback s0 \<and> ec_data s = ec_data s0 \<and> ec_timers s = ec_timers s0 \<and>
     g_timed_callbacks s = filter (\<lambda>a. a \<in> set (g_timed_callbacks s)) (g_timed_callbacks s0) \<and>
     (\<forall>a \<in> set (g_timed_callbacks s0). a \<notin> set (g_timed_callbacks s) \<longrightarrow> oc_etimer_expired (ec_timers s0) a) \<and>
     oc_blockwise_requests (bw s) = filter (\<lambda>b. bw_addr b \<notin> released FREE_REQUEST s0 s) (oc_blockwise_requests (bw s0)) \<and>
     oc_blockwise_responses (bw s) = filter (\<lambda>b. bw_addr b \<notin> released FREE_RESPONSE s0 s) (oc_blockwise_responses (bw s0))"

lemma events_for_alt: "events_for cb s = map (ec_data s) (filter (\<lambda>a. ec_callback s a = cb) (g_timed_callbacks s))"
  by (simp add: events_for_def pending_def filter_map comp_def)

lemma kinds_alt: "kinds s = ec_callback s ` set (g_timed_callbacks s)"
  by (simp add: kinds_def pending_def image_image)

lemma events_dropped:
  assumes "distinct (g_timed_callbacks s)" and "a \<in> set (g_timed_callbacks s)" and "distinct (events_for cb s)"
    and "g_timed_callbacks s' = remove1 a (g_timed_callbacks s)" and "ec_callback s' = ec_callback s" and "ec_data s' = ec_data s"
  shows "events_for cb s' = (if ec_callback s a = cb then remove1 (ec_data s a) (events_for cb s) else events_for cb s)"
proof -
  have "map f (filter P (remove1 a xs)) = (if P a then remove1 (f a) (map f (filter P xs)) else map f (filter P xs))"
    if "distinct xs" "a \<in> set xs" "distinct (map f (filter P xs))" for f :: "node \<Rightarrow> nat" and P xs
    using that by (induction xs) (auto simp: rev_image_eqI split: if_splits)
  from this [OF assms(1,2) assms(3) [unfolded events_for_alt]] show ?thesis
    by (simp add: events_for_alt assms(4-6))
qed

lemma released_step:
  assumes "a \<in> set (g_timed_callbacks s)" and "distinct (g_timed_callbacks s)" and "set (g_timed_callbacks s) \<subseteq> set (g_timed_callbacks s0)"
    and "g_timed_callbacks s' = remove1 a (g_timed_callbacks s)"
  shows "released cb s0 s' = (if ec_callback s0 a = cb then insert (ec_data s0 a) (released cb s0 s) else released cb s0 s)"
  using assms by (auto simp: released_def)

text \<open>The effect of the callback of an element on the buffers.\<close>

lemma trigger_releases:
  assumes "owned (map bw_addr (oc_blockwise_requests b)) (bw_request_blocks b) evq"
    and "owned (map bw_addr (oc_blockwise_responses b)) (bw_response_blocks b) evr"
    and "cb = FREE_REQUEST \<and> d \<in> set evq \<or> cb = FREE_RESPONSE \<and> d \<in> set evr" and "bw s = b"
  shows "\<exists>b'. invoke (blockwise_env etimer events sec others notify) cb d s = Some (OC_EVENT_DONE, set_bw b' s) \<and>
    oc_blockwise_requests b' = filter (\<lambda>x. cb = FREE_REQUEST \<longrightarrow> bw_addr x \<noteq> d) (oc_blockwise_requests b) \<and>
    oc_blockwise_responses b' = filter (\<lambda>x. cb = FREE_RESPONSE \<longrightarrow> bw_addr x \<noteq> d) (oc_blockwise_responses b) \<and>
    owned (map bw_addr (oc_blockwise_requests b')) (bw_request_blocks b') (if cb = FREE_REQUEST then remove1 d evq else evq) \<and>
    owned (map bw_addr (oc_blockwise_responses b')) (bw_response_blocks b') (if cb = FREE_RESPONSE then remove1 d evr else evr) \<and>
    bw_app_data_free b' + pooled_buffers b' = bw_app_data_free b + pooled_buffers b"
proof (cases "cb = FREE_REQUEST")
  case True
  with assms(1,3) obtain x where x: "x \<in> set (oc_blockwise_requests b)" "d = bw_addr x" by (auto simp: owned_def)
  from free_request_async_ok [OF _ x(1)] assms(1) obtain b' where
    b': "blockwise_free_request_async (bw_addr x) b = Some b'" "oc_blockwise_requests b' = filter (\<lambda>y. bw_addr y \<noteq> bw_addr x) (oc_blockwise_requests b)"
    "oc_blockwise_responses b' = oc_blockwise_responses b" "bw_request_blocks b' = bw_request_blocks b - {bw_addr x}"
    "bw_response_blocks b' = bw_response_blocks b" "bw_app_data_free b' + pooled_buffers b' = bw_app_data_free b + pooled_buffers b"
    by (auto simp: owned_def)
  show ?thesis
    using b' True x(2) assms(1,2,4) owned_free
    by (intro exI [of _ b']) (simp add: invoke_def blockwise_env_def blockwise_trigger_def addrs_filter)
next
  case False
  with assms(3) have cb: "cb = FREE_RESPONSE" by blast
  with assms(2,3) obtain x where x: "x \<in> set (oc_blockwise_responses b)" "d = bw_addr x" by (auto simp: owned_def)
  from free_response_async_ok [OF _ x(1)] assms(2) obtain b' where
    b': "blockwise_free_response_async (bw_addr x) b = Some b'" "oc_blockwise_responses b' = filter (\<lambda>y. bw_addr y \<noteq> bw_addr x) (oc_blockwise_responses b)"
    "oc_blockwise_requests b' = oc_blockwise_requests b" "bw_response_blocks b' = bw_response_blocks b - {bw_addr x}"
    "bw_request_blocks b' = bw_request_blocks b" "bw_app_data_free b' + pooled_buffers b' = bw_app_data_free b + pooled_buffers b"
    by (auto simp: owned_def)
  show ?thesis
    using b' cb x(2) assms(1,2,4) owned_free
    by (intro exI [of _ b']) (simp add: invoke_def blockwise_env_def blockwise_trigger_def addrs_filter)
qed

lemma bw_wf_processed:
  "bw_wf N (s\<lparr>g_currently_processed_event_cb := None\<rparr>) \<longleftrightarrow> ec_wf s \<and> kinds s \<subseteq> {FREE_REQUEST, FREE_RESPONSE} \<and>
     owned (map bw_addr (oc_blockwise_requests (bw s))) (bw_request_blocks (bw s)) (events_for FREE_REQUEST s) \<and>
     owned (map bw_addr (oc_blockwise_responses (bw s))) (bw_response_blocks (bw s)) (events_for FREE_RESPONSE s) \<and>
     bw_app_data_free (bw s) + pooled_buffers (bw s) = N"
  by (simp add: bw_wf_def events_for_alt ec_wf_def kinds_def pending_def)

lemma expire_one:
  assumes "expiring N s0 s" and "a \<in> expired_on False s" and "env = blockwise_env etimer events sec others notify"
  shows "\<exists>s'. process_expired env False a s = Some s' \<and> ec_wf s' \<and> expiring N s0 s' \<and> expired_on False s' \<subseteq> expired_on False s - {a}"
proof -
  let ?s = "set_processed (Some a) s" and ?cb = "ec_callback s a" and ?d = "ec_data s a"
  from assms(1) have wf: "ec_wf s" "owned (map bw_addr (oc_blockwise_requests (bw s))) (bw_request_blocks (bw s)) (events_for FREE_REQUEST s)"
    "owned (map bw_addr (oc_blockwise_responses (bw s))) (bw_response_blocks (bw s)) (events_for FREE_RESPONSE s)"
    "bw_app_data_free (bw s) + pooled_buffers (bw s) = N" and ob: "kinds s \<subseteq> {FREE_REQUEST, FREE_RESPONSE}"
    by (auto simp: expiring_def bw_wf_processed)
  have a: "a \<in> set (g_timed_callbacks s)" "oc_etimer_expired (ec_timers s) a" using assms(2) by (auto simp: callback_list_def)
  have dist: "distinct (g_timed_callbacks s)" using wf(1) by (simp add: ec_wf_def)
  have ev: "?cb = FREE_REQUEST \<and> ?d \<in> set (events_for FREE_REQUEST s) \<or> ?cb = FREE_RESPONSE \<and> ?d \<in> set (events_for FREE_RESPONSE s)"
    using subsetD [OF ob [unfolded kinds_alt] imageI [OF a(1)]] a(1) by (auto simp: events_for_alt)
  have "bw ?s = bw s" by simp
  from trigger_releases [OF wf(2,3) ev this, of etimer events sec others notify] obtain b' where
    inv: "invoke env ?cb ?d ?s = Some (OC_EVENT_DONE, set_bw b' ?s)"
    and rq: "oc_blockwise_requests b' = filter (\<lambda>x. ?cb = FREE_REQUEST \<longrightarrow> bw_addr x \<noteq> ?d) (oc_blockwise_requests (bw s))"
    and rs: "oc_blockwise_responses b' = filter (\<lambda>x. ?cb = FREE_RESPONSE \<longrightarrow> bw_addr x \<noteq> ?d) (oc_blockwise_responses (bw s))"
    and o: "owned (map bw_addr (oc_blockwise_requests b')) (bw_request_blocks b')
        (if ?cb = FREE_REQUEST then remove1 ?d (events_for FREE_REQUEST s) else events_for FREE_REQUEST s)"
      "owned (map bw_addr (oc_blockwise_responses b')) (bw_response_blocks b')
        (if ?cb = FREE_RESPONSE then remove1 ?d (events_for FREE_RESPONSE s) else events_for FREE_RESPONSE s)"
    and N: "bw_app_data_free b' + pooled_buffers b' = N"
    unfolding assms(3) wf(4) by blast
  let ?s1 = "set_bw b' ?s"
  let ?s2 = "ec_free a (on_delete env None ?d (remove_from_list False a ?s1))"
  have l1: "a \<in> set (callback_list False ?s1)" using a(1) by (simp add: callback_list_def set_processed_def)
  have pr: "process_expired env False a s = Some ?s2"
    using inv listed_block [of ?s1 a False] wf(1) l1 by (simp add: process_expired_def Let_def set_bw_def)
  have w2: "ec_wf ?s2" by (rule ec_wf_remove [OF _ l1]) (simp add: wf(1))
  have f: "g_timed_callbacks ?s2 = remove1 a (g_timed_callbacks s)" "ec_callback ?s2 = ec_callback s" "ec_data ?s2 = ec_data s"
    "ec_timers ?s2 = ec_timers s" "bw ?s2 = b'"
    by (simp_all add: ec_free_def remove_from_list_def set_processed_def set_bw_def)
  have ev2: "events_for cb ?s2 = (if ?cb = cb then remove1 ?d (events_for cb s) else events_for cb s)" if "cb \<in> {FREE_REQUEST, FREE_RESPONSE}" for cb
    using events_dropped [OF dist a(1) _ f(1-3), of cb] wf(2,3) that by (auto simp: owned_def)
  from assms(1) have e: "ec_callback s = ec_callback s0" "ec_data s = ec_data s0" "ec_timers s = ec_timers s0"
    "g_timed_callbacks s = filter (\<lambda>a. a \<in> set (g_timed_callbacks s)) (g_timed_callbacks s0)"
    "\<forall>a \<in> set (g_timed_callbacks s0). a \<notin> set (g_timed_callbacks s) \<longrightarrow> oc_etimer_expired (ec_timers s0) a"
    "oc_blockwise_requests (bw s) = filter (\<lambda>b. bw_addr b \<notin> released FREE_REQUEST s0 s) (oc_blockwise_requests (bw s0))"
    "oc_blockwise_responses (bw s) = filter (\<lambda>b. bw_addr b \<notin> released FREE_RESPONSE s0 s) (oc_blockwise_responses (bw s0))"
    by (auto simp only: expiring_def)
  have sub: "set (g_timed_callbacks s) \<subseteq> set (g_timed_callbacks s0)" by (subst e(4)) auto
  note rel = released_step [OF a(1) dist sub f(1)]
  have rm: "remove1 a (g_timed_callbacks s) = filter (\<lambda>x. x \<noteq> a) (g_timed_callbacks s)"
    using dist by (simp add: distinct_remove1_removeAll removeAll_filter_not_eq neq_commute)
  have "kinds ?s2 \<subseteq> kinds s" unfolding kinds_def pending_def f(1-3) rm by auto
  then have "bw_wf N (?s2\<lparr>g_currently_processed_event_cb := None\<rparr>)"
    unfolding bw_wf_processed f(5) using w2 o N subset_trans [OF _ ob] ev2 [of FREE_REQUEST] ev2 [of FREE_RESPONSE] by (simp only: insert_iff simp_thms)
  moreover have "g_timed_callbacks ?s2 = filter (\<lambda>x. x \<in> set (g_timed_callbacks ?s2)) (g_timed_callbacks s0)"
    unfolding f(1) rm by (subst e(4)) (auto intro!: filter_cong)
  moreover have "\<forall>x \<in> set (g_timed_callbacks s0). x \<notin> set (g_timed_callbacks ?s2) \<longrightarrow> oc_etimer_expired (ec_timers s0) x"
    using e(3,5) a(2) unfolding f(1) rm by auto
  moreover have "oc_blockwise_requests (bw ?s2) = filter (\<lambda>b. bw_addr b \<notin> released FREE_REQUEST s0 ?s2) (oc_blockwise_requests (bw s0))"
    unfolding f(5) rq rel e(6) using e(1,2) by (auto intro!: filter_cong)
  moreover have "oc_blockwise_responses (bw ?s2) = filter (\<lambda>b. bw_addr b \<notin> released FREE_RESPONSE s0 ?s2) (oc_blockwise_responses (bw s0))"
    unfolding f(5) rs rel e(7) using e(1,2) by (auto intro!: filter_cong)
  ultimately have "expiring N s0 ?s2"
    unfolding expiring_def f(2-4) using e(1-3) by blast
  moreover have "expired_on False ?s2 \<subseteq> expired_on False s - {a}"
    using f dist by (auto simp: callback_list_def)
  ultimately show ?thesis using pr w2 by blast
qed

interpretation blockwise_timers: polled_callbacks "blockwise_env etimer events sec others notify" False "expiring N s0"
  by unfold_locales (use expire_one in blast)

lemma expiring_start:
  assumes "bw_wf N s"
  shows "expiring N s s"
proof -
  have "released cb s s = {}" for cb by (simp add: released_def)
  moreover have "s\<lparr>g_currently_processed_event_cb := None\<rparr> = s" using assms by (simp add: bw_wf_def)
  ultimately show ?thesis using assms by (simp add: expiring_def)
qed

lemma poll_releases:
  assumes "bw_wf N s" and "E = {a \<in> set (g_timed_callbacks s). oc_etimer_expired (ec_timers s) a}"
  shows "\<exists>s'. event_callbacks_poll_timers (blockwise_env etimer events sec others notify) False s = Some s' \<and> bw_wf N s' \<and>
    g_timed_callbacks s' = filter (\<lambda>a. a \<notin> E) (g_timed_callbacks s) \<and>
    oc_blockwise_requests (bw s') =
      filter (\<lambda>b. \<not> (\<exists>a \<in> E. ec_callback s a = FREE_REQUEST \<and> ec_data s a = bw_addr b)) (oc_blockwise_requests (bw s)) \<and>
    oc_blockwise_responses (bw s') =
      filter (\<lambda>b. \<not> (\<exists>a \<in> E. ec_callback s a = FREE_RESPONSE \<and> ec_data s a = bw_addr b)) (oc_blockwise_responses (bw s))"
proof -
  have "ec_wf s" using assms(1) by (simp add: bw_wf_def)
  from blockwise_timers.poll_timers_returns [OF this expiring_start [OF assms(1)], of etimer events sec others notify] obtain s1 where
    s1: "event_callbacks_poll_timers (blockwise_env etimer events sec others notify) False s = Some (set_processed None s1)"
      "expiring N s s1" "expired_on False s1 = {}" by blast
  from s1(2) have e: "bw_wf N (s1\<lparr>g_currently_processed_event_cb := None\<rparr>)" "ec_timers s1 = ec_timers s"
    "g_timed_callbacks s1 = filter (\<lambda>a. a \<in> set (g_timed_callbacks s1)) (g_timed_callbacks s)"
    "\<forall>a \<in> set (g_timed_callbacks s). a \<notin> set (g_timed_callbacks s1) \<longrightarrow> oc_etimer_expired (ec_timers s) a"
    "oc_blockwise_requests (bw s1) = filter (\<lambda>b. bw_addr b \<notin> released FREE_REQUEST s s1) (oc_blockwise_requests (bw s))"
    "oc_blockwise_responses (bw s1) = filter (\<lambda>b. bw_addr b \<notin> released FREE_RESPONSE s s1) (oc_blockwise_responses (bw s))"
    by (auto simp only: expiring_def)
  have out: "a \<notin> set (g_timed_callbacks s1) \<longleftrightarrow> a \<in> E" if "a \<in> set (g_timed_callbacks s)" for a
    using that e(2,4) s1(3) unfolding assms(2) by (auto simp: callback_list_def)
  have "g_timed_callbacks s1 = filter (\<lambda>a. a \<notin> E) (g_timed_callbacks s)"
    by (subst e(3)) (use out in \<open>auto intro!: filter_cong\<close>)
  moreover have "{a \<in> set (g_timed_callbacks s). ec_callback s a = cb \<and> a \<notin> set (g_timed_callbacks s1)} = {a \<in> E. ec_callback s a = cb}" for cb
    using out assms(2) by blast
  then have "x \<in> released cb s s1 \<longleftrightarrow> (\<exists>a \<in> E. ec_callback s a = cb \<and> ec_data s a = x)" for x cb
    by (auto simp: released_def)
  moreover have "bw_wf N (set_processed None s1)"
    using e(1) by (simp add: bw_wf_processed bw_wf_def events_for_alt kinds_alt)
  ultimately show ?thesis
    using s1(1) e(5,6) by (simp add: set_processed_def)
qed

subsection \<open>Reachable states\<close>

text \<open>
  The operations in any order. The allocators return blocks that are not in use, and pointers to
  buffers point to buffers on the lists; between the operations blocks are read and written, and the
  clock advances and marks timers as expired.
\<close>

inductive blockwise_step :: "blockwise callback_env \<Rightarrow> blockwise_cfg \<Rightarrow> blockwise_events \<Rightarrow> blockwise_events \<Rightarrow> bool" for env cfg where
  alloc_request: "\<forall>a. blk = Some a \<longrightarrow> a \<notin> bw_request_blocks (bw s) \<Longrightarrow> \<forall>e. ev = Some e \<longrightarrow> unused e s \<Longrightarrow>
    oc_blockwise_alloc_request_buffer env cfg blk memory ev href endpoint meth role len s = Some (r, s') \<Longrightarrow> blockwise_step env cfg s s'"
| alloc_response: "\<forall>a. blk = Some a \<longrightarrow> a \<notin> bw_response_blocks (bw s) \<Longrightarrow> \<forall>e. ev = Some e \<longrightarrow> unused e s \<Longrightarrow>
    oc_blockwise_alloc_response_buffer env cfg blk memory ev random href endpoint meth role len code etag s = Some (r, s') \<Longrightarrow>
    blockwise_step env cfg s s'"
| free_request: "b \<in> set (oc_blockwise_requests (bw s)) \<Longrightarrow> oc_blockwise_free_request_buffer env (Some (bw_addr b)) s = Some s' \<Longrightarrow>
    blockwise_step env cfg s s'"
| free_response: "r \<in> set (oc_blockwise_responses (bw s)) \<Longrightarrow> oc_blockwise_free_response_buffer env (Some (bw_addr r)) s = Some s' \<Longrightarrow>
    blockwise_step env cfg s s'"
| free_all: "oc_blockwise_free_all_buffers env all s = Some s' \<Longrightarrow> blockwise_step env cfg s s'"
| scrub: "oc_blockwise_scrub_buffers_for_client_cb env cb s = Some s' \<Longrightarrow> blockwise_step env cfg s s'"
| receive: "i < length (oc_blockwise_requests (bw s)) \<Longrightarrow>
    oc_blockwise_handle_block cfg (oc_blockwise_requests (bw s) ! i) off data n = (ok, b) \<Longrightarrow>
    blockwise_step env cfg s (set_bw ((bw s)\<lparr>oc_blockwise_requests := (oc_blockwise_requests (bw s))[i := b]\<rparr>) s)"
| send: "i < length (oc_blockwise_responses (bw s)) \<Longrightarrow>
    oc_blockwise_dispatch_block (oc_blockwise_responses (bw s) ! i) off n = (blk, b) \<Longrightarrow>
    blockwise_step env cfg s (set_bw ((bw s)\<lparr>oc_blockwise_responses := (oc_blockwise_responses (bw s))[i := b]\<rparr>) s)"
| tick: "queue_wf (k_queue (ec_kernel s)) \<Longrightarrow> poll_all True (Some c) (etimer_proc env) now (ec_kernel s) (ec_timers s) = Some (k, t) \<Longrightarrow>
    blockwise_step env cfg s (s\<lparr>ec_kernel := k, ec_timers := t, ec_now := now\<rparr>)"
| timers: "event_callbacks_poll_timers env False s = Some s' \<Longrightarrow> blockwise_step env cfg s s'"

lemma tick_linked:
  assumes "linked B t" and "queue_wf (k_queue k)" and "poll_all True (Some c) self now k t = Some (k', t')"
  shows "linked B t' \<and> k_env k' = k_env k"
proof -
  from linkedD [OF assms(1)] obtain ts where
    ts: "list_repr (et_list t) ts" "\<forall>a \<in> B. a \<in> set ts \<longleftrightarrow> et_p t a \<noteq> None" by blast
  from poll_all_ok [OF ts(1) assms(2) refl, of c self now] assms(3) obtain q where
    "k' = k\<lparr>k_queue := q\<rparr>" "list_repr (et_list t') (filter (\<lambda>a. \<not> timer_expired (et_timer t a) now) ts)"
    "et_p t' = (\<lambda>a. if a \<in> set (filter (\<lambda>a. timer_expired (et_timer t a) now) ts) then None else et_p t a)" by auto
  with ts(2) show ?thesis by (auto simp: linked_def)
qed

lemma update_buffer_addrs:
  assumes "i < length bs" and "bw_addr b = bw_addr (bs ! i)" and "bw_block b = bw_block (bs ! i)"
  shows "map bw_addr (bs[i := b]) = map bw_addr bs" and "length (filter bw_block (bs[i := b])) = length (filter bw_block bs)"
proof -
  show "map bw_addr (bs[i := b]) = map bw_addr bs"
    using assms(1,2) by (simp add: map_update list_update_same_conv)
  have m: "map bw_block (bs[i := b]) = map bw_block bs"
    using assms(1,3) by (simp add: map_update list_update_same_conv)
  have l: "length (filter bw_block xs) = length (filter id (map bw_block xs))" for xs by (simp add: filter_map)
  show "length (filter bw_block (bs[i := b])) = length (filter bw_block bs)"
    by (simp only: l [of "bs[i := b]"] l [of bs] m)
qed

lemma blockwise_step_wf:
  assumes "blockwise_step (blockwise_env etimer events sec others notify) cfg s s'" and "bw_wf N s"
  shows "bw_wf N s'"
  using assms
proof (cases rule: blockwise_step.cases)
  case (alloc_request blk ev memory href endpoint meth role len r)
  with alloc_request_ok [OF assms(2)] show ?thesis by (metis option.inject prod.inject)
next
  case (alloc_response blk ev memory random href endpoint meth role len code etag r)
  with alloc_response_ok [OF assms(2)] show ?thesis by (metis option.inject prod.inject)
next
  case (free_request b)
  with free_request_ok [OF assms(2)] show ?thesis by (metis option.inject)
next
  case (free_response r)
  with free_response_ok [OF assms(2)] show ?thesis by (metis option.inject)
next
  case (free_all all)
  with free_both_matching [OF assms(2), of "blockwise_env etimer events sec others notify" "\<lambda>b. bw_ref_count b = 0 \<or> all"
      "\<lambda>b. bw_ref_count b = 0 \<or> all"] show ?thesis
    by (auto simp: free_all_eq)
next
  case (scrub cb)
  with free_both_matching [OF assms(2), of "blockwise_env etimer events sec others notify" "\<lambda>b. bw_client_cb b = cb"
      "\<lambda>b. bw_client_cb b = cb"] show ?thesis
    by (auto simp: oc_blockwise_scrub_buffers_for_client_cb_def)
next
  case (receive i off data n ok b)
  then have "bw_addr b = bw_addr (oc_blockwise_requests (bw s) ! i)" "bw_block b = bw_block (oc_blockwise_requests (bw s) ! i)"
    by (auto simp: oc_blockwise_handle_block_def split: if_splits)
  with update_buffer_addrs [OF receive(2) this] assms(2) receive(1) show ?thesis
    by (simp add: bw_wf_def pooled_buffers_def)
next
  case (send i off n blk b)
  then have "bw_addr b = bw_addr (oc_blockwise_responses (bw s) ! i)" "bw_block b = bw_block (oc_blockwise_responses (bw s) ! i)"
    by (auto simp: oc_blockwise_dispatch_block_def Let_def split: if_splits)
  with update_buffer_addrs [OF send(2) this] assms(2) send(1) show ?thesis
    by (simp add: bw_wf_def pooled_buffers_def)
next
  case (tick c now k t)
  have "linked (ec_blocks s) (ec_timers s)" using assms(2) by (intro ec_wf_linked) (simp add: bw_wf_def)
  from tick_linked [OF this tick(2,3)] assms(2) tick(1) show ?thesis
    by (auto simp: bw_wf_def ec_wf_def events_for_alt kinds_alt)
next
  case timers
  with poll_releases [OF assms(2) refl, of etimer events sec others notify] show ?thesis by (metis option.inject)
qed

interpretation blockwise_reach: stepwise_invariant "blockwise_step (blockwise_env etimer events sec others notify) cfg" "bw_wf N"
  by unfold_locales (rule blockwise_step_wf)

subsection \<open>Properties\<close>

text \<open>
  C19. In every state that the operations reach, in any order and with timers running, the buffers of a
  list have different addresses and are exactly the allocated blocks of their pool; every timed
  callback of this module refers to a buffer that is on its list, and no two to the same one, so
  none is released twice; and the free and the used buffers of the data pool add up to its size.
\<close>

theorem blockwise_buffers_accounted:
  assumes "bw_wf N s" and "(blockwise_step (blockwise_env etimer events sec others notify) cfg)\<^sup>*\<^sup>* s s'"
  shows "distinct (map bw_addr (oc_blockwise_requests (bw s'))) \<and> bw_request_blocks (bw s') = bw_addr ` set (oc_blockwise_requests (bw s')) \<and>
    distinct (map bw_addr (oc_blockwise_responses (bw s'))) \<and> bw_response_blocks (bw s') = bw_addr ` set (oc_blockwise_responses (bw s')) \<and>
    distinct (pending s') \<and> ((FREE_REQUEST, d) \<in> set (pending s') \<longrightarrow> d \<in> bw_request_blocks (bw s')) \<and>
    ((FREE_RESPONSE, d) \<in> set (pending s') \<longrightarrow> d \<in> bw_response_blocks (bw s')) \<and>
    bw_app_data_free (bw s') + length (filter bw_block (oc_blockwise_requests (bw s'))) +
      length (filter bw_block (oc_blockwise_responses (bw s'))) = N"
proof -
  have wf: "bw_wf N s'" by (rule blockwise_reach.reachable_inv [OF assms(2,1)])
  have d: "distinct ps" if "fst ` set ps \<subseteq> {c1, c2}" "distinct (map snd (filter (\<lambda>e. fst e = c1) ps))"
    "distinct (map snd (filter (\<lambda>e. fst e = c2) ps))" for c1 c2 :: oc_trigger_t and ps :: "(oc_trigger_t \<times> nat) list"
    using that by (induction ps) (auto simp: rev_image_eqI split: if_splits)
  have "distinct (pending s')"
    using wf d [of "pending s'" FREE_REQUEST FREE_RESPONSE] by (simp add: bw_wf_def owned_def kinds_def events_for_def)
  moreover have "d \<in> set (events_for cb s')" if "(cb, d) \<in> set (pending s')" for cb
    using that by (force simp: events_for_def)
  ultimately show ?thesis
    using wf by (auto simp: bw_wf_def owned_def pooled_buffers_def)
qed

definition empty_blockwise :: "nat \<Rightarrow> blockwise_events" where
  "empty_blockwise N = \<lparr>g_timed_callbacks = [], g_observe_callbacks = [], ec_callback = (\<lambda>_. TRIGGER 0), ec_data = (\<lambda>_. 0),
     ec_blocks = {}, ec_timers = \<lparr>et_list = \<lparr>list_head = None, list_next = (\<lambda>_. None)\<rparr>, et_timer = (\<lambda>_. \<lparr>t_start = 0, t_interval = 0\<rparr>),
       et_p = (\<lambda>_. None), et_next_expiration = 0\<rparr>,
     ec_kernel = \<lparr>k_procs = \<lparr>list_head = None, list_next = (\<lambda>_. None)\<rparr>, k_current = None, k_lastevent = OC_PROCESS_EVENT_MAX,
       k_queue = queue_init 4, k_poll_requested = False, k_has_thread = (\<lambda>_. True), k_state = (\<lambda>_. 0), k_needspoll = (\<lambda>_. False),
       k_lc = (\<lambda>_. 0), k_env = \<lparr>oc_blockwise_requests = [], oc_blockwise_responses = [], bw_request_blocks = {},
         bw_response_blocks = {}, bw_app_data_free = N, bw_finished = []\<rparr>\<rparr>,
     ec_now = 0, g_currently_processed_event_cb = None, g_currently_processed_event_cb_delete = False,
     g_currently_processed_event_on_delete = None\<rparr>"

lemma empty_blockwise_wf: "bw_wf N (empty_blockwise N)"
  by (simp add: bw_wf_def empty_blockwise_def ec_wf_def linked_def list_repr_def owned_def events_for_alt kinds_alt pooled_buffers_def
      exI [of _ "[]"])

definition example_blockwise_env :: "blockwise callback_env" where
  "example_blockwise_env = blockwise_env 8 9 1000 (\<lambda>_ _ _. None) (\<lambda>_ _. None)"

lemma empty_unused: "unused a (empty_blockwise N)"
proof -
  have r: "list_repr (et_list (ec_timers (empty_blockwise N))) []" by (simp add: empty_blockwise_def list_repr_def)
  then have "a \<notin> set ts" if "list_repr (et_list (ec_timers (empty_blockwise N))) ts" for ts
    using list_repr_unique [OF that r] by simp
  then show ?thesis by (simp add: unused_def) (simp add: empty_blockwise_def)
qed

text \<open>A request of a client with the data pool in use.\<close>

definition pool_cfg :: blockwise_cfg where
  "pool_cfg = \<lparr>bw_dynamic = True, bw_app_pool = True, OC_APP_DATA_BUFFER_SIZE = 16, OC_MAX_APP_DATA_SIZE = 16\<rparr>"

lemma example_alloc:
  "\<exists>s'. oc_blockwise_alloc_request_buffer example_blockwise_env pool_cfg (Some 3) None (Some 5) ''/light'' zero_endpoint OC_POST
      OC_BLOCKWISE_CLIENT 16 (empty_blockwise 2) = Some (Some 3, s') \<and> bw_wf 2 s' \<and> map bw_addr (oc_blockwise_requests (bw s')) = [3] \<and>
    oc_blockwise_responses (bw s') = [] \<and> g_timed_callbacks s' = [5] \<and> ec_callback s' 5 = FREE_REQUEST \<and> ec_data s' 5 = 3"
proof -
  let ?s = "empty_blockwise 2"
  obtain b where b: "blockwise_init_buffer pool_cfg (map_option zero_request (Some 3)) None ''/light'' zero_endpoint OC_POST OC_BLOCKWISE_CLIENT 16 2 =
      (Some b, 1)" "bw_addr b = 3"
    by (simp add: blockwise_init_buffer_def pool_cfg_def Let_def)
  have e: "bw ?s = \<lparr>oc_blockwise_requests = [], oc_blockwise_responses = [], bw_request_blocks = {}, bw_response_blocks = {},
    bw_app_data_free = 2, bw_finished = []\<rparr>" "g_timed_callbacks ?s = []" by (simp_all add: empty_blockwise_def)
  have wf: "bw_wf 2 ?s" by (rule empty_blockwise_wf)
  then have "ec_wf ?s" by (simp add: bw_wf_def)
  from add_timed_ok [OF this empty_unused, of example_blockwise_env 5 3 FREE_REQUEST "OC_EXCHANGE_LIFETIME * clock_second example_blockwise_env"]
  obtain s1 where s1: "oc_ri_add_timed_event_callback_ticks example_blockwise_env (Some 5) 3 FREE_REQUEST
      (OC_EXCHANGE_LIFETIME * clock_second example_blockwise_env) ?s = Some s1"
    "g_timed_callbacks s1 = [5]" "ec_callback s1 5 = FREE_REQUEST" "ec_data s1 5 = 3" "bw s1 = bw ?s" by (auto simp: e)
  let ?s2 = "set_bw ((bw ?s)\<lparr>oc_blockwise_requests := [b], bw_request_blocks := {3}, bw_app_data_free := 1\<rparr>) s1"
  have r: "oc_blockwise_alloc_request_buffer example_blockwise_env pool_cfg (Some 3) None (Some 5) ''/light'' zero_endpoint OC_POST
      OC_BLOCKWISE_CLIENT 16 ?s = Some (Some 3, ?s2)"
    using b s1(1,5) by (simp add: oc_blockwise_alloc_request_buffer_def e)
  have "bw_wf 2 ?s2"
    using alloc_request_ok [OF wf, of "Some 3" "Some 5" example_blockwise_env pool_cfg None "''/light''" zero_endpoint OC_POST OC_BLOCKWISE_CLIENT 16]
      empty_unused r by (simp add: e)
  with r s1 b(2) show ?thesis by (simp add: e)
qed

lemma example_light:
  "\<exists>s'. blockwise_step example_blockwise_env pool_cfg (empty_blockwise 2) s' \<and> bw_wf 2 s' \<and> map bw_addr (oc_blockwise_requests (bw s')) = [3] \<and>
    oc_blockwise_responses (bw s') = [] \<and> g_timed_callbacks s' = [5] \<and> ec_callback s' 5 = FREE_REQUEST \<and> ec_data s' 5 = 3"
proof -
  from example_alloc obtain s' where s': "oc_blockwise_alloc_request_buffer example_blockwise_env pool_cfg (Some 3) None (Some 5) ''/light''
      zero_endpoint OC_POST OC_BLOCKWISE_CLIENT 16 (empty_blockwise 2) = Some (Some 3, s')" "bw_wf 2 s'"
    "map bw_addr (oc_blockwise_requests (bw s')) = [3]" "oc_blockwise_responses (bw s') = []" "g_timed_callbacks s' = [5]"
    "ec_callback s' 5 = FREE_REQUEST" "ec_data s' 5 = 3"
    by (elim exE conjE) (rule that; assumption)
  have "\<forall>a. Some (3 :: nat) = Some a \<longrightarrow> a \<notin> bw_request_blocks (bw (empty_blockwise 2))" by (simp add: empty_blockwise_def)
  moreover have "\<forall>e. Some (5 :: node) = Some e \<longrightarrow> unused e (empty_blockwise 2)" by (simp add: empty_unused)
  ultimately have "blockwise_step example_blockwise_env pool_cfg (empty_blockwise 2) s'"
    using s'(1) by (rule blockwise_step.alloc_request)
  with s'(2-7) show ?thesis by (intro exI [of _ s'] conjI)
qed

theorem blockwise_buffers_accounted_witness:
  "\<exists>s'. (blockwise_step example_blockwise_env pool_cfg)\<^sup>*\<^sup>* (empty_blockwise 2) s' \<and> map bw_addr (oc_blockwise_requests (bw s')) = [3] \<and>
     bw_request_blocks (bw s') = {3}"
proof -
  from example_light obtain s' where s': "blockwise_step example_blockwise_env pool_cfg (empty_blockwise 2) s'"
    "map bw_addr (oc_blockwise_requests (bw s')) = [3]"
    by (elim exE conjE) (rule that; assumption)
  from s'(1) have r: "(blockwise_step example_blockwise_env pool_cfg)\<^sup>*\<^sup>* (empty_blockwise 2) s'" by blast
  have "bw_request_blocks (bw s') = bw_addr ` set (oc_blockwise_requests (bw s'))"
    using blockwise_buffers_accounted [OF empty_blockwise_wf r [unfolded example_blockwise_env_def]] by blast
  also have "\<dots> = set (map bw_addr (oc_blockwise_requests (bw s')))" by (rule set_map [symmetric])
  also have "\<dots> = {3}" unfolding s'(2) by simp
  finally have "bw_request_blocks (bw s') = {3}" .
  with r s'(2) show ?thesis by (intro exI [of _ s'] conjI)
qed

text \<open>
  C20. When the timed callbacks are polled, exactly the buffers whose callback has expired are released,
  requests and responses alike, each with its callback; all others stay, with their timers running.
\<close>

theorem expired_buffers_released:
  assumes "bw_wf N s" and "E = {a \<in> set (g_timed_callbacks s). oc_etimer_expired (ec_timers s) a}"
  shows "\<exists>s'. event_callbacks_poll_timers (blockwise_env etimer events sec others notify) False s = Some s' \<and> bw_wf N s' \<and>
    g_timed_callbacks s' = filter (\<lambda>a. a \<notin> E) (g_timed_callbacks s) \<and>
    oc_blockwise_requests (bw s') =
      filter (\<lambda>b. \<not> (\<exists>a \<in> E. ec_callback s a = FREE_REQUEST \<and> ec_data s a = bw_addr b)) (oc_blockwise_requests (bw s)) \<and>
    oc_blockwise_responses (bw s') =
      filter (\<lambda>b. \<not> (\<exists>a \<in> E. ec_callback s a = FREE_RESPONSE \<and> ec_data s a = bw_addr b)) (oc_blockwise_responses (bw s))"
  by (rule poll_releases [OF assms])

theorem expired_buffers_released_witness:
  "\<exists>s. bw_wf 2 s \<and> map bw_addr (oc_blockwise_requests (bw s)) = [3] \<and>
     (\<exists>s'. event_callbacks_poll_timers example_blockwise_env False s = Some s' \<and> oc_blockwise_requests (bw s') = [] \<and>
        bw_app_data_free (bw s') = 2)"
proof -
  from example_light obtain s0 where s0: "bw_wf 2 s0" "map bw_addr (oc_blockwise_requests (bw s0)) = [3]"
    "oc_blockwise_responses (bw s0) = []" "g_timed_callbacks s0 = [5]" "ec_callback s0 5 = FREE_REQUEST" "ec_data s0 5 = 3"
    by (elim exE conjE) (rule that; assumption)
  from ec_stop_ok [of s0 5] s0(1) obtain t where t: "linked (ec_blocks s0) t" "et_p t = (et_p (ec_timers s0))(5 := None)"
    by (auto simp: bw_wf_def)
  let ?s = "s0\<lparr>ec_timers := t\<rparr>"
  have wf: "bw_wf 2 ?s" using s0(1) t(1) by (auto simp: bw_wf_def ec_wf_def events_for_alt kinds_alt)
  have E: "{5} = {a \<in> set (g_timed_callbacks ?s). oc_etimer_expired (ec_timers ?s) a}"
    by (simp add: s0(4) oc_etimer_expired_def t(2))
  from expired_buffers_released [OF wf E, of 8 9 1000 "\<lambda>_ _ _. None" "\<lambda>_ _. None", folded example_blockwise_env_def] obtain s' where
    s': "event_callbacks_poll_timers example_blockwise_env False ?s = Some s'" "bw_wf 2 s'"
      "oc_blockwise_requests (bw s') = filter (\<lambda>b. \<not> (\<exists>a \<in> {5}. ec_callback ?s a = FREE_REQUEST \<and> ec_data ?s a = bw_addr b)) (oc_blockwise_requests (bw ?s))"
      "oc_blockwise_responses (bw s') = filter (\<lambda>b. \<not> (\<exists>a \<in> {5}. ec_callback ?s a = FREE_RESPONSE \<and> ec_data ?s a = bw_addr b)) (oc_blockwise_responses (bw ?s))"
    by (elim exE conjE) (rule that; assumption)
  have "\<forall>b \<in> set (oc_blockwise_requests (bw s0)). bw_addr b = 3"
    using arg_cong [OF s0(2), of set] by auto
  then have e: "oc_blockwise_requests (bw s') = []" "oc_blockwise_responses (bw s') = []" using s'(3,4) s0(3,5,6) by auto
  with s'(2) have "bw_app_data_free (bw s') = 2" by (simp add: bw_wf_def pooled_buffers_def)
  with wf s0(2) s'(1) e(1) show ?thesis by (intro exI [of _ ?s]) simp
qed

text \<open>
  Releasing buffers by a condition, whether all of them, those that are no longer referenced or
  those of one client callback, takes exactly the buffers that satisfy the condition off both
  lists, keeps the others in their order, and returns. Releasing all of them gives back all blocks,
  pool buffers and timed callbacks.
\<close>

theorem buffers_released:
  assumes "bw_wf N s"
  shows "(\<exists>s'. oc_blockwise_free_all_buffers env all s = Some s' \<and> bw_wf N s' \<and>
      oc_blockwise_requests (bw s') = filter (\<lambda>b. bw_ref_count b \<noteq> 0 \<and> \<not> all) (oc_blockwise_requests (bw s)) \<and>
      oc_blockwise_responses (bw s') = filter (\<lambda>b. bw_ref_count b \<noteq> 0 \<and> \<not> all) (oc_blockwise_responses (bw s)) \<and>
      (all \<longrightarrow> bw_request_blocks (bw s') = {} \<and> bw_response_blocks (bw s') = {} \<and> pending s' = [] \<and> bw_app_data_free (bw s') = N)) \<and>
    (\<exists>s'. oc_blockwise_scrub_buffers_for_client_cb env cb s = Some s' \<and> bw_wf N s' \<and>
      oc_blockwise_requests (bw s') = filter (\<lambda>b. bw_client_cb b \<noteq> cb) (oc_blockwise_requests (bw s)) \<and>
      oc_blockwise_responses (bw s') = filter (\<lambda>b. bw_client_cb b \<noteq> cb) (oc_blockwise_responses (bw s)))"
proof -
  obtain s1 where s1: "oc_blockwise_free_all_buffers env all s = Some s1" "bw_wf N s1"
    "oc_blockwise_requests (bw s1) = filter (\<lambda>b. bw_ref_count b \<noteq> 0 \<and> \<not> all) (oc_blockwise_requests (bw s))"
    "oc_blockwise_responses (bw s1) = filter (\<lambda>b. bw_ref_count b \<noteq> 0 \<and> \<not> all) (oc_blockwise_responses (bw s))"
    unfolding free_all_eq using free_both_matching [OF assms, of env "\<lambda>b. bw_ref_count b = 0 \<or> all" "\<lambda>b. bw_ref_count b = 0 \<or> all"] by auto
  have "bw_request_blocks (bw s1) = {} \<and> bw_response_blocks (bw s1) = {} \<and> pending s1 = [] \<and> bw_app_data_free (bw s1) = N" if all
  proof -
    have l: "oc_blockwise_requests (bw s1) = []" "oc_blockwise_responses (bw s1) = []" using that s1(3,4) by simp_all
    with s1(2) have "events_for FREE_REQUEST s1 = []" "events_for FREE_RESPONSE s1 = []" "kinds s1 \<subseteq> {FREE_REQUEST, FREE_RESPONSE}"
      by (auto simp: bw_wf_def owned_def)
    then have "pending s1 = []" by (cases "pending s1") (auto simp: events_for_def kinds_def)
    with l s1(2) show ?thesis by (simp add: bw_wf_def owned_def pooled_buffers_def)
  qed
  with s1 free_both_matching [OF assms, of env "\<lambda>b. bw_client_cb b = cb" "\<lambda>b. bw_client_cb b = cb"] show ?thesis
    by (auto simp: oc_blockwise_scrub_buffers_for_client_cb_def)
qed

theorem buffers_released_witness:
  "\<exists>s. bw_wf 2 s \<and> map bw_addr (oc_blockwise_requests (bw s)) = [3] \<and>
     (\<exists>s'. oc_blockwise_free_all_buffers example_blockwise_env True s = Some s' \<and> oc_blockwise_requests (bw s') = [] \<and> pending s' = [])"
proof -
  from example_light obtain s where s: "bw_wf 2 s" "map bw_addr (oc_blockwise_requests (bw s)) = [3]"
    by (elim exE conjE) (rule that; assumption)
  with buffers_released [OF s(1), of example_blockwise_env True, THEN conjunct1] show ?thesis by auto
qed

end
