(* ===== verification/OcQuery.thy ===== *)
theory OcQuery
  imports OcResource "HOL-Library.Char_ord"
begin

text \<open>
  The query part of a URI: \<open>src/api/oc_query.c\<close>. A pointer into the query is an offset from its start; an
  empty query and the null pointer are treated alike. Failed assertions are \<^const>\<open>None\<close>. The reference
  is the list of pairs that splitting at the ampersands and at the first equals signs gives.
\<close>

subsection \<open>Interfaces\<close>

abbreviation (input) OC_IF_BASELINE :: u32 where "OC_IF_BASELINE \<equiv> 2"
abbreviation (input) OC_IF_LL :: u32 where "OC_IF_LL \<equiv> 4"
abbreviation (input) OC_IF_B :: u32 where "OC_IF_B \<equiv> 8"
abbreviation (input) OC_IF_R :: u32 where "OC_IF_R \<equiv> 16"
abbreviation (input) OC_IF_RW :: u32 where "OC_IF_RW \<equiv> 32"
abbreviation (input) OC_IF_A :: u32 where "OC_IF_A \<equiv> 64"
abbreviation (input) OC_IF_S :: u32 where "OC_IF_S \<equiv> 128"
abbreviation (input) OC_IF_CREATE :: u32 where "OC_IF_CREATE \<equiv> 256"
abbreviation (input) OC_IF_W :: u32 where "OC_IF_W \<equiv> 512"
abbreviation (input) OC_IF_STARTUP :: u32 where "OC_IF_STARTUP \<equiv> 1024"
abbreviation (input) OC_IF_STARTUP_REVERT :: u32 where "OC_IF_STARTUP_REVERT \<equiv> 2048"

definition interface_name :: "u32 \<Rightarrow> oc_string" where
  "interface_name iface_mask =
     (if iface_mask = OC_IF_BASELINE then Some ''oic.if.baseline''
      else if iface_mask = OC_IF_LL then Some ''oic.if.ll''
      else if iface_mask = OC_IF_B then Some ''oic.if.b''
      else if iface_mask = OC_IF_R then Some ''oic.if.r''
      else if iface_mask = OC_IF_RW then Some ''oic.if.rw''
      else if iface_mask = OC_IF_A then Some ''oic.if.a''
      else if iface_mask = OC_IF_S then Some ''oic.if.s''
      else if iface_mask = OC_IF_CREATE then Some ''oic.if.create''
      else if iface_mask = OC_IF_W then Some ''oic.if.w''
      else if iface_mask = OC_IF_STARTUP then Some ''oic.if.startup''
      else if iface_mask = OC_IF_STARTUP_REVERT then Some ''oic.if.startup.revert''
      else None)"

definition oc_query_encode_interface :: "u32 \<Rightarrow> oc_string" where
  "oc_query_encode_interface iface_mask = map_option ((@) ''if='') (interface_name iface_mask)"

subsection \<open>Pairs\<close>

record key_value_pair_t =
  kv_key :: "nat option"
  kv_key_len :: nat
  kv_value :: "nat option"
  kv_value_len :: nat

primrec first_index :: "char \<Rightarrow> string \<Rightarrow> nat option" where
  "first_index c [] = None"
| "first_index c (x # xs) = (if x = c then Some 0 else map_option Suc (first_index c xs))"

definition memchr :: "string \<Rightarrow> nat \<Rightarrow> char \<Rightarrow> nat option" where
  "memchr query start c = map_option ((+) start) (first_index c (drop start query))"

text \<open>The loop that finds the start of a pair, with the number of pairs that are still to skip.\<close>

primrec skip_pairs :: "string \<Rightarrow> nat \<Rightarrow> nat \<Rightarrow> nat option" where
  "skip_pairs query 0 start = Some start"
| "skip_pairs query (Suc k) start =
     (case memchr query start (CHR ''&'') of None \<Rightarrow> None | Some i \<Rightarrow> skip_pairs query k (i + 1))"

definition null_pair :: key_value_pair_t where
  "null_pair = \<lparr>kv_key = None, kv_key_len = 0, kv_value = None, kv_value_len = 0\<rparr>"

definition pair_at :: "string \<Rightarrow> nat \<Rightarrow> key_value_pair_t" where
  "pair_at query start =
     (let next_pair = memchr query start (CHR ''&'');
          value = (case memchr query start (CHR ''='') of
                     None \<Rightarrow> None
                   | Some v \<Rightarrow> (case next_pair of Some p \<Rightarrow> if p < v then None else Some v | None \<Rightarrow> Some v));
          last = (case next_pair of Some p \<Rightarrow> p | None \<Rightarrow> length query)
      in case value of
           None \<Rightarrow> null_pair\<lparr>kv_key := Some start, kv_key_len := last - start\<rparr>
         | Some v \<Rightarrow> \<lparr>kv_key = Some start, kv_key_len = v - start, kv_value = Some (v + 1), kv_value_len = last - (v + 1)\<rparr>)"

definition oc_ri_find_query_nth_key_value_pair :: "string \<Rightarrow> nat \<Rightarrow> key_value_pair_t option" where
  "oc_ri_find_query_nth_key_value_pair query n =
     (if n = 0 then None
      else if query = [] then Some null_pair
      else Some (case skip_pairs query (n - 1) 0 of None \<Rightarrow> null_pair | Some start \<Rightarrow> pair_at query start))"

definition INT_MAX :: nat where "INT_MAX = 2 ^ 31 - 1"

text \<open>The position of the next pair with the pair itself; the output parameters are not null.\<close>

definition oc_ri_get_query_nth_key_value :: "string \<Rightarrow> nat \<Rightarrow> (int \<times> key_value_pair_t) option" where
  "oc_ri_get_query_nth_key_value query n =
     (case oc_ri_find_query_nth_key_value_pair query n of
        None \<Rightarrow> None
      | Some kv \<Rightarrow>
          if kv_key kv = None then Some (-1, kv)
          else
            (let next_pos = (case kv_value kv of Some v \<Rightarrow> v + kv_value_len kv | None \<Rightarrow> kv_key_len kv) + 1
             in if next_pos \<le> INT_MAX then Some (int next_pos, kv) else None))"

abbreviation (input) COAP_OPTION_QUERY_MAX_SIZE :: nat where "COAP_OPTION_QUERY_MAX_SIZE \<equiv> 255"

definition tolower :: "char \<Rightarrow> char" where
  "tolower c = (if CHR ''A'' \<le> c \<and> c \<le> CHR ''Z'' then char_of (of_char c + 32 :: nat) else c)"

text \<open>\<open>strncasecmp\<close> of two texts of the given length is 0; it stops at a null character.\<close>

fun strncasecmp_eq :: "string \<Rightarrow> string \<Rightarrow> bool" where
  "strncasecmp_eq (a # as) (b # bs) = (tolower a = tolower b \<and> (a = CHR 0x00 \<or> strncasecmp_eq as bs))"
| "strncasecmp_eq _ _ = True"

text \<open>The key of a pair of the query that starts at \<open>pos\<close>.\<close>

definition key_text :: "string \<Rightarrow> key_value_pair_t \<Rightarrow> string" where
  "key_text query kv = (case kv_key kv of None \<Rightarrow> [] | Some k \<Rightarrow> take (kv_key_len kv) (drop k query))"

lemma next_pos_positive: "oc_ri_get_query_nth_key_value query n = Some (p, kv) \<Longrightarrow> p \<noteq> -1 \<Longrightarrow> 0 < p"
  by (auto simp: oc_ri_get_query_nth_key_value_def Let_def split: option.splits if_splits)

text \<open>The loop of \<open>oc_ri_get_query_value_v1\<close>; the result is the length and the position of the value.\<close>

function query_value_loop :: "string \<Rightarrow> string \<Rightarrow> nat \<Rightarrow> (int \<times> nat option) option" where
  "query_value_loop query key pos =
     (if \<not> pos < length query then Some (-1, None)
      else case oc_ri_get_query_nth_key_value (drop pos query) 1 of
             None \<Rightarrow> None
           | Some (next_pos, kv) \<Rightarrow>
               if next_pos = -1 then Some (-1, None)
               else if kv_key_len kv = length key \<and> strncasecmp_eq key (key_text (drop pos query) kv) then
                 (if kv_value_len kv \<le> INT_MAX then Some (int (kv_value_len kv), map_option ((+) pos) (kv_value kv)) else None)
               else query_value_loop query key (pos + nat next_pos))"
  by auto
termination
  by (relation "measure (\<lambda>(query, key, pos). length query - pos)") (auto dest: next_pos_positive)

definition oc_ri_get_query_value_v1 :: "string \<Rightarrow> string \<Rightarrow> (int \<times> nat option) option" where
  "oc_ri_get_query_value_v1 query key =
     (if length key > COAP_OPTION_QUERY_MAX_SIZE then Some (-1, None) else query_value_loop query key 0)"

definition oc_strnlen :: "string \<Rightarrow> nat \<Rightarrow> nat" where
  "oc_strnlen str strsz = length (takeWhile (\<lambda>c. c \<noteq> CHR 0x00) (take strsz str))"

definition oc_ri_get_query_value :: "string \<Rightarrow> string \<Rightarrow> (int \<times> nat option) option" where
  "oc_ri_get_query_value query key =
     oc_ri_get_query_value_v1 query (take (oc_strnlen key (COAP_OPTION_QUERY_MAX_SIZE + 1)) key)"

definition oc_ri_query_nth_key_exists :: "string \<Rightarrow> nat \<Rightarrow> (int \<times> key_value_pair_t) option" where
  "oc_ri_query_nth_key_exists query n =
     (case oc_ri_find_query_nth_key_value_pair query n of
        None \<Rightarrow> None
      | Some kv \<Rightarrow>
          if kv_key kv = None then Some (-1, kv)
          else
            (let next_pos = (case kv_value kv of Some v \<Rightarrow> v + kv_value_len kv | None \<Rightarrow> kv_key_len kv);
                 next_pos = (if next_pos < length query then next_pos + 1 else next_pos)
             in if next_pos \<le> INT_MAX then Some (int next_pos, kv) else None))"

lemma next_exists_nonneg: "oc_ri_query_nth_key_exists query n = Some (p, kv) \<Longrightarrow> p \<noteq> -1 \<Longrightarrow> 0 \<le> p"
  by (auto simp: oc_ri_query_nth_key_exists_def Let_def split: option.splits if_splits)

function query_exists_loop :: "string \<Rightarrow> string \<Rightarrow> nat \<Rightarrow> bool option" where
  "query_exists_loop query key pos =
     (if \<not> pos < length query then Some False
      else case oc_ri_query_nth_key_exists (drop pos query) 1 of
             None \<Rightarrow> None
           | Some (next_pos, kv) \<Rightarrow>
               if next_pos = -1 then Some False
               else if kv_key_len kv = length key \<and> strncasecmp_eq key (key_text (drop pos query) kv) then Some True
               else if next_pos = 0 then None
               else query_exists_loop query key (pos + nat next_pos))"
  by auto
termination
  by (relation "measure (\<lambda>(query, key, pos). length query - pos)") (auto dest!: next_exists_nonneg)

definition oc_ri_query_exists_v1 :: "string \<Rightarrow> string \<Rightarrow> bool option" where
  "oc_ri_query_exists_v1 query key =
     (if length key > COAP_OPTION_QUERY_MAX_SIZE then Some False else query_exists_loop query key 0)"

definition oc_ri_query_exists :: "string \<Rightarrow> string \<Rightarrow> int option" where
  "oc_ri_query_exists query key =
     map_option (\<lambda>b. if b then 1 else -1) (oc_ri_query_exists_v1 query (take (oc_strnlen key (COAP_OPTION_QUERY_MAX_SIZE + 1)) key))"

subsection \<open>Iteration\<close>

text \<open>The state is \<open>g_query_iterator\<close>.\<close>

definition oc_init_query_iterator :: nat where
  "oc_init_query_iterator = 0"

definition oc_iterate_query :: "string \<Rightarrow> nat \<Rightarrow> ((int \<times> key_value_pair_t) \<times> nat) option" where
  "oc_iterate_query query it = map_option (\<lambda>r. (r, it + 1)) (oc_ri_get_query_nth_key_value query (it + 1))"

partial_function (option) get_values_loop :: "string \<Rightarrow> string \<Rightarrow> nat \<Rightarrow> (bool \<times> key_value_pair_t option \<times> nat) option" where
  "get_values_loop query key it =
     (case oc_iterate_query query it of
        None \<Rightarrow> None
      | Some ((pos, kv), it1) \<Rightarrow>
          if pos = -1 then Some (False, None, it1)
          else if length key = kv_key_len kv \<and> key = key_text query kv then
            (if kv_value_len kv \<le> INT_MAX then Some (pos < int (length query), Some kv, it1) else None)
          else get_values_loop query key it1)"

text \<open>The second component is the pair whose value is returned.\<close>

definition oc_iterate_query_get_values_v1 :: "string \<Rightarrow> string \<Rightarrow> nat \<Rightarrow> (bool \<times> key_value_pair_t option \<times> nat) option" where
  "oc_iterate_query_get_values_v1 query key it =
     (if length key > COAP_OPTION_QUERY_MAX_SIZE then Some (False, None, it) else get_values_loop query key it)"

definition oc_iterate_query_get_values :: "string \<Rightarrow> string \<Rightarrow> nat \<Rightarrow> (bool \<times> key_value_pair_t option \<times> nat) option" where
  "oc_iterate_query_get_values query key it =
     oc_iterate_query_get_values_v1 query (take (oc_strnlen key (COAP_OPTION_QUERY_MAX_SIZE + 1)) key) it"

text \<open>The request is its query, or null.\<close>

definition oc_get_query_value_v1 :: "string option \<Rightarrow> string \<Rightarrow> (int \<times> nat option) option" where
  "oc_get_query_value_v1 request key =
     (case request of None \<Rightarrow> Some (-1, None) | Some query \<Rightarrow> oc_ri_get_query_value_v1 query key)"

definition oc_get_query_value :: "string option \<Rightarrow> string \<Rightarrow> (int \<times> nat option) option" where
  "oc_get_query_value request key = oc_get_query_value_v1 request (take (oc_strnlen key (COAP_OPTION_QUERY_MAX_SIZE + 1)) key)"

definition oc_query_value_exists_v1 :: "string option \<Rightarrow> string \<Rightarrow> bool option" where
  "oc_query_value_exists_v1 request key =
     (case request of None \<Rightarrow> Some False | Some query \<Rightarrow> oc_ri_query_exists_v1 query key)"

definition oc_query_value_exists :: "string option \<Rightarrow> string \<Rightarrow> int option" where
  "oc_query_value_exists request key =
     map_option (\<lambda>b. if b then 1 else -1)
       (oc_query_value_exists_v1 request (take (oc_strnlen key (COAP_OPTION_QUERY_MAX_SIZE + 1)) key))"

declare query_value_loop.simps [simp del] query_exists_loop.simps [simp del]

subsection \<open>The reference\<close>

fun split_on :: "char \<Rightarrow> string \<Rightarrow> string list" where
  "split_on c [] = [[]]"
| "split_on c (x # xs) = (if x = c then [] # split_on c xs else case split_on c xs of [] \<Rightarrow> [[x]] | s # ss \<Rightarrow> (x # s) # ss)"

definition parse_pair :: "string \<Rightarrow> string \<times> string option" where
  "parse_pair seg = (case first_index (CHR ''='') seg of None \<Rightarrow> (seg, None) | Some i \<Rightarrow> (take i seg, Some (drop (i + 1) seg)))"

definition query_pairs :: "string \<Rightarrow> (string \<times> string option) list" where
  "query_pairs query = (if query = [] then [] else map parse_pair (split_on (CHR ''&'') query))"

definition value_text :: "string \<Rightarrow> key_value_pair_t \<Rightarrow> string option" where
  "value_text query kv = map_option (\<lambda>v. take (kv_value_len kv) (drop v query)) (kv_value kv)"

lemma first_index_less: "first_index c xs = Some i \<Longrightarrow> i < length xs \<and> xs ! i = c"
  by (induction xs arbitrary: i) (auto split: if_splits)

lemma first_index_take:
  "first_index c (take n xs) = (case first_index c xs of Some v \<Rightarrow> if v < n then Some v else None | None \<Rightarrow> None)"
  by (induction xs arbitrary: n) (auto simp: take_Cons' split: option.splits)

lemma split_on_unfold:
  "split_on c r = (case first_index c r of None \<Rightarrow> [r] | Some i \<Rightarrow> take i r # split_on c (drop (i + 1) r))"
  by (induction r) (auto split: option.splits)

lemma split_on_not_Nil [simp]: "split_on c r \<noteq> []"
  by (cases r) (simp_all split: list.split)

lemma skip_pairs_split:
  "start \<le> length q \<Longrightarrow>
   (case skip_pairs q k start of
      None \<Rightarrow> length (split_on (CHR ''&'') (drop start q)) \<le> k
    | Some s \<Rightarrow> s \<le> length q \<and> k < length (split_on (CHR ''&'') (drop start q)) \<and>
        split_on (CHR ''&'') (drop s q) = drop k (split_on (CHR ''&'') (drop start q)))"
proof (induction k arbitrary: start)
  case 0
  then show ?case by simp
next
  case (Suc k)
  show ?case
  proof (cases "first_index (CHR ''&'') (drop start q)")
    case None
    then show ?thesis by (simp add: memchr_def split_on_unfold [of _ "drop start q"])
  next
    case (Some i)
    from first_index_less [OF Some] have "i < length q - start" by simp
    then have "start + i + 1 \<le> length q" by linarith
    from Suc.IH [OF this] Some show ?thesis
      by (simp add: memchr_def split_on_unfold [of _ "drop start q"] add.commute add.left_commute split: option.splits)
  qed
qed

text \<open>The pair at a position is the first pair of the rest of the query.\<close>

definition first_seg :: "string \<Rightarrow> nat \<Rightarrow> string" where
  "first_seg q start = hd (split_on (CHR ''&'') (drop start q))"

lemma first_seg_take: "first_seg q start = take (length (first_seg q start)) (drop start q)"
  by (cases "first_index (CHR ''&'') (drop start q)")
    (auto simp: first_seg_def split_on_unfold [of _ "drop start q"] dest: first_index_less)

lemma pair_at_eq:
  assumes "start \<le> length q"
  shows "pair_at q start = (case first_index (CHR ''='') (first_seg q start) of
     None \<Rightarrow> \<lparr>kv_key = Some start, kv_key_len = length (first_seg q start), kv_value = None, kv_value_len = 0\<rparr>
   | Some v \<Rightarrow> \<lparr>kv_key = Some start, kv_key_len = v, kv_value = Some (start + v + 1), kv_value_len = length (first_seg q start) - (v + 1)\<rparr>)"
proof -
  let ?r = "drop start q"
  show ?thesis
  proof (cases "first_index (CHR ''&'') ?r")
    case None
    then have seg: "first_seg q start = ?r" by (simp add: first_seg_def split_on_unfold [of _ ?r])
    show ?thesis
      using None by (cases "first_index (CHR ''='') ?r") (auto simp: pair_at_def memchr_def seg Let_def null_pair_def)
  next
    case (Some i)
    then have seg: "first_seg q start = take i ?r" by (simp add: first_seg_def split_on_unfold [of _ ?r])
    have i: "i < length ?r" "?r ! i = CHR ''&''" using first_index_less [OF Some] by auto
    show ?thesis
    proof (cases "first_index (CHR ''='') ?r")
      case None
      with Some i(1) show ?thesis by (auto simp: pair_at_def memchr_def seg Let_def null_pair_def first_index_take)
    next
      case v: (Some v)
      have "v \<noteq> i" using first_index_less [OF v] i(2) by auto
      with Some v i(1) show ?thesis by (auto simp: pair_at_def memchr_def seg Let_def null_pair_def first_index_take)
    qed
  qed
qed

lemma pair_at_parsed:
  assumes "start \<le> length q"
  shows "kv_key (pair_at q start) = Some start"
    and "key_text q (pair_at q start) = fst (parse_pair (first_seg q start))"
    and "kv_key_len (pair_at q start) = length (fst (parse_pair (first_seg q start)))"
    and "value_text q (pair_at q start) = snd (parse_pair (first_seg q start))"
    and "kv_value_len (pair_at q start) = (case snd (parse_pair (first_seg q start)) of None \<Rightarrow> 0 | Some v \<Rightarrow> length v)"
    and "(case kv_value (pair_at q start) of Some v \<Rightarrow> v + kv_value_len (pair_at q start) | None \<Rightarrow> start + kv_key_len (pair_at q start)) =
      start + length (first_seg q start)"
proof -
  let ?s = "first_seg q start" and ?n = "length (first_seg q start)"
  have s: "?s = take ?n (drop start q)" by (rule first_seg_take)
  have vn: "v < ?n" if "first_index (CHR ''='') ?s = Some v" for v using first_index_less [OF that] by simp
  have kt: "take v (drop start q) = take v ?s" if "v \<le> ?n" for v using that s by (metis min.absorb1 take_take)
  have vt: "take (?n - (v + 1)) (drop (start + v + 1) q) = drop (v + 1) ?s" for v
  proof -
    have "drop (v + 1) ?s = drop (v + 1) (take ?n (drop start q))" by (subst s) simp
    also have "\<dots> = take (?n - (v + 1)) (drop (start + v + 1) q)" by (simp add: drop_take add.commute add.left_commute)
    finally show ?thesis by simp
  qed
  note defs = pair_at_eq [OF assms] parse_pair_def key_text_def value_text_def
  show "kv_key (pair_at q start) = Some start" by (simp add: defs split: option.split)
  show "key_text q (pair_at q start) = fst (parse_pair ?s)"
    using kt vn s by (auto simp: defs less_imp_le split: option.split)
  show "kv_key_len (pair_at q start) = length (fst (parse_pair ?s))"
    using vn by (auto simp: defs split: option.split)
  show "value_text q (pair_at q start) = snd (parse_pair ?s)"
    using vt by (auto simp: defs split: option.split)
  show "kv_value_len (pair_at q start) = (case snd (parse_pair ?s) of None \<Rightarrow> 0 | Some v \<Rightarrow> length v)"
    by (auto simp: defs split: option.split)
  show "(case kv_value (pair_at q start) of Some v \<Rightarrow> v + kv_value_len (pair_at q start) | None \<Rightarrow> start + kv_key_len (pair_at q start)) =
      start + ?n"
    using vn by (fastforce simp: defs split: option.split)
qed

lemma find_nth_pair:
  assumes "0 < n" and "q \<noteq> []"
  shows "if n \<le> length (query_pairs q)
    then \<exists>start \<le> length q. oc_ri_find_query_nth_key_value_pair q n = Some (pair_at q start) \<and>
      parse_pair (first_seg q start) = query_pairs q ! (n - 1)
    else oc_ri_find_query_nth_key_value_pair q n = Some null_pair"
proof (cases "skip_pairs q (n - 1) 0")
  case None
  with skip_pairs_split [of 0 q "n - 1"] assms show ?thesis
    by (auto simp: oc_ri_find_query_nth_key_value_pair_def query_pairs_def)
next
  case (Some s)
  with skip_pairs_split [of 0 q "n - 1"] have s: "s \<le> length q" "n - 1 < length (split_on (CHR ''&'') q)"
    "split_on (CHR ''&'') (drop s q) = drop (n - 1) (split_on (CHR ''&'') q)" by auto
  have "first_seg q s = split_on (CHR ''&'') q ! (n - 1)"
    unfolding first_seg_def s(3) by (rule hd_drop_conv_nth [OF s(2)])
  with Some s assms show ?thesis
    by (auto simp: oc_ri_find_query_nth_key_value_pair_def query_pairs_def)
qed

text \<open>The first pair of a query and the position after it.\<close>

lemma first_pair:
  assumes "q \<noteq> []"
  shows "oc_ri_find_query_nth_key_value_pair q 1 = Some (pair_at q 0)"
  using assms by (simp add: oc_ri_find_query_nth_key_value_pair_def)

lemma query_pairs_rest:
  assumes "q \<noteq> []"
  shows "map parse_pair (split_on (CHR ''&'') q) = parse_pair (first_seg q 0) #
    (if length (first_seg q 0) < length q then map parse_pair (split_on (CHR ''&'') (drop (length (first_seg q 0) + 1) q)) else [])"
proof (cases "first_index (CHR ''&'') q")
  case None
  then show ?thesis by (simp add: first_seg_def split_on_unfold [of _ q])
next
  case (Some i)
  with first_index_less [OF Some] show ?thesis by (simp add: first_seg_def split_on_unfold [of _ q])
qed

definition key_matches :: "string \<Rightarrow> string \<times> string option \<Rightarrow> bool" where
  "key_matches key p \<longleftrightarrow> length (fst p) = length key \<and> strncasecmp_eq key (fst p)"

definition found_value :: "string \<Rightarrow> (string \<times> string option) option \<Rightarrow> int \<times> nat option \<Rightarrow> bool" where
  "found_value q p r \<longleftrightarrow> (case p of
     None \<Rightarrow> r = (-1, None)
   | Some (k, None) \<Rightarrow> r = (0, None)
   | Some (k, Some v) \<Rightarrow> (\<exists>i. r = (int (length v), Some i) \<and> take (length v) (drop i q) = v))"

lemma get_first:
  assumes "q \<noteq> []" and "length q < INT_MAX"
  shows "oc_ri_get_query_nth_key_value q 1 = Some (int (length (first_seg q 0) + 1), pair_at q 0)"
    and "oc_ri_query_nth_key_exists q 1 =
      Some (int (if length (first_seg q 0) < length q then length (first_seg q 0) + 1 else length (first_seg q 0)), pair_at q 0)"
proof -
  have l: "length (first_seg q 0) \<le> length q" by (subst first_seg_take) simp
  have e: "(case kv_value (pair_at q 0) of Some v \<Rightarrow> v + kv_value_len (pair_at q 0) | None \<Rightarrow> kv_key_len (pair_at q 0)) = length (first_seg q 0)"
    using pair_at_parsed(6) [of 0 q] by (simp split: option.splits)
  show "oc_ri_get_query_nth_key_value q 1 = Some (int (length (first_seg q 0) + 1), pair_at q 0)"
    unfolding oc_ri_get_query_nth_key_value_def first_pair [OF assms(1)] using l assms(2) e pair_at_parsed(1) [of 0 q] by (simp add: Let_def)
  show "oc_ri_query_nth_key_exists q 1 =
      Some (int (if length (first_seg q 0) < length q then length (first_seg q 0) + 1 else length (first_seg q 0)), pair_at q 0)"
    unfolding oc_ri_query_nth_key_exists_def first_pair [OF assms(1)] using l assms(2) e pair_at_parsed(1) [of 0 q] by (simp add: Let_def)
qed

definition rest_pairs :: "string \<Rightarrow> nat \<Rightarrow> (string \<times> string option) list" where
  "rest_pairs q pos = (if pos < length q then map parse_pair (split_on (CHR ''&'') (drop pos q)) else [])"

lemma rest_pairs_step:
  assumes "pos < length q" and "key \<noteq> []" and "n = length (first_seg (drop pos q) 0)"
  shows "find (key_matches key) (rest_pairs q pos) =
    (if key_matches key (parse_pair (first_seg (drop pos q) 0)) then Some (parse_pair (first_seg (drop pos q) 0))
     else find (key_matches key) (rest_pairs q (pos + (n + 1))))"
proof -
  let ?r = "drop pos q"
  have "find (key_matches key) (map parse_pair (split_on (CHR ''&'') [])) = None"
    using assms(2) by (simp add: parse_pair_def key_matches_def)
  then have "find (key_matches key) (if n < length ?r then map parse_pair (split_on (CHR ''&'') (drop (n + 1) ?r)) else []) =
      find (key_matches key) (rest_pairs q (pos + (n + 1)))"
    by (cases "pos + (n + 1) < length q") (auto simp: rest_pairs_def add.commute add.left_commute)
  with query_pairs_rest [of ?r] assms(1,3) show ?thesis by (auto simp: rest_pairs_def)
qed

lemma found_value_here:
  assumes "parse_pair (first_seg (drop pos q) 0) = (k, v)"
  shows "found_value q (Some (k, v)) (int (kv_value_len (pair_at (drop pos q) 0)), map_option ((+) pos) (kv_value (pair_at (drop pos q) 0)))"
proof -
  note p = pair_at_parsed(4,5) [of 0 "drop pos q", unfolded assms, simplified]
  show ?thesis
  proof (cases v)
    case None
    with p show ?thesis by (simp add: found_value_def value_text_def)
  next
    case (Some x)
    with p(1) obtain i where "kv_value (pair_at (drop pos q) 0) = Some i" "take (kv_value_len (pair_at (drop pos q) 0)) (drop i (drop pos q)) = x"
      by (auto simp: value_text_def)
    with Some p(2) show ?thesis by (simp add: found_value_def add.commute)
  qed
qed

lemma matches_first:
  "kv_key_len (pair_at q 0) = length key \<and> strncasecmp_eq key (key_text q (pair_at q 0)) \<longleftrightarrow> key_matches key (parse_pair (first_seg q 0))"
  using pair_at_parsed(2,3) [of 0 q] by (auto simp: key_matches_def)

lemma value_len_bound: "kv_value_len (pair_at q 0) \<le> length q"
proof -
  have "length (first_seg q 0) \<le> length q" by (subst first_seg_take) simp
  then show ?thesis by (auto simp: pair_at_eq split: option.split)
qed

lemma query_value_loop_ok:
  assumes "key \<noteq> []" and "length q < INT_MAX"
  shows "\<exists>r. query_value_loop q key pos = Some r \<and> found_value q (find (key_matches key) (rest_pairs q pos)) r"
proof (induction "length q - pos" arbitrary: pos rule: less_induct)
  case less
  show ?case
  proof (cases "pos < length q")
    case False
    then show ?thesis by (subst query_value_loop.simps) (simp add: rest_pairs_def found_value_def)
  next
    case True
    let ?r = "drop pos q" and ?n = "length (first_seg (drop pos q) 0)"
    have r: "?r \<noteq> []" "length ?r < INT_MAX" using True assms(2) by auto
    obtain k v where kv: "parse_pair (first_seg ?r 0) = (k, v)" by fastforce
    note step = rest_pairs_step [OF True assms(1) refl]
    have loop: "query_value_loop q key pos =
      (if key_matches key (k, v) then Some (int (kv_value_len (pair_at ?r 0)), map_option ((+) pos) (kv_value (pair_at ?r 0)))
       else query_value_loop q key (pos + (?n + 1)))"
      using True get_first(1) [OF r] matches_first [of ?r key] value_len_bound [of ?r] r(2) kv
      by (subst query_value_loop.simps) (auto simp: nat_add_distrib)
    show ?thesis
    proof (cases "key_matches key (k, v)")
      case m: True
      show ?thesis using loop m step kv found_value_here [OF kv] by simp
    next
      case False
      have "length q - (pos + (?n + 1)) < length q - pos" using True by simp
      from less [OF this] loop False step kv show ?thesis by simp
    qed
  qed
qed

lemma query_exists_loop_ok:
  assumes "key \<noteq> []" and "length q < INT_MAX"
  shows "query_exists_loop q key pos = Some (find (key_matches key) (rest_pairs q pos) \<noteq> None)"
proof (induction "length q - pos" arbitrary: pos rule: less_induct)
  case less
  show ?case
  proof (cases "pos < length q")
    case False
    then show ?thesis by (subst query_exists_loop.simps) (simp add: rest_pairs_def)
  next
    case True
    let ?r = "drop pos q" and ?n = "length (first_seg (drop pos q) 0)"
    have r: "?r \<noteq> []" "length ?r < INT_MAX" using True assms(2) by auto
    note step = rest_pairs_step [OF True assms(1) refl]
    have n: "?n \<le> length ?r" by (subst first_seg_take) simp
    let ?m = "if ?n < length ?r then ?n + 1 else ?n"
    have pos: "0 < ?m" using r(1) by auto
    have loop: "query_exists_loop q key pos =
      (if key_matches key (parse_pair (first_seg ?r 0)) then Some True else query_exists_loop q key (pos + ?m))"
      using True get_first(2) [OF r] matches_first [of ?r key] pos
      by (subst query_exists_loop.simps) auto
    have eq: "rest_pairs q (pos + ?m) = rest_pairs q (pos + (?n + 1))" using n True by (auto simp: rest_pairs_def)
    have "length q - (pos + ?m) < length q - pos" using True pos by simp
    from less [OF this] loop step eq show ?thesis by simp
  qed
qed

subsection \<open>Pairs by number\<close>

lemma nth_pair:
  assumes "0 < n"
  obtains start where "n \<le> length (query_pairs q)" and "start \<le> length q"
      and "oc_ri_find_query_nth_key_value_pair q n = Some (pair_at q start)"
      and "parse_pair (first_seg q start) = query_pairs q ! (n - 1)"
  | "length (query_pairs q) < n" and "oc_ri_find_query_nth_key_value_pair q n = Some null_pair"
proof (cases "q = []")
  case True
  with assms that(2) show ?thesis by (simp add: query_pairs_def oc_ri_find_query_nth_key_value_pair_def)
next
  case False
  with find_nth_pair [OF assms this] that show ?thesis by (cases "n \<le> length (query_pairs q)") auto
qed

lemma get_nth:
  assumes "0 < n" and "length q < INT_MAX"
  obtains pos kv where "n \<le> length (query_pairs q)" and "oc_ri_get_query_nth_key_value q n = Some (pos, kv)" and "0 < pos"
      and "key_text q kv = fst (query_pairs q ! (n - 1))" and "value_text q kv = snd (query_pairs q ! (n - 1))"
      and "kv_key_len kv = length (fst (query_pairs q ! (n - 1)))" and "kv_value_len kv \<le> INT_MAX"
  | "length (query_pairs q) < n" and "oc_ri_get_query_nth_key_value q n = Some (-1, null_pair)"
proof (cases rule: nth_pair [OF assms(1), of q])
  case (1 start)
  note p = pair_at_parsed [OF 1(2), unfolded 1(4)]
  have "length (first_seg q start) \<le> length q - start" by (subst first_seg_take) simp
  with 1(2) have le: "start + length (first_seg q start) \<le> length q" by simp
  let ?e = "case kv_value (pair_at q start) of Some v \<Rightarrow> v + kv_value_len (pair_at q start) | None \<Rightarrow> kv_key_len (pair_at q start)"
  have e: "?e \<le> length q" "kv_value_len (pair_at q start) \<le> length q"
    using p(4,5,6) le by (auto simp: value_text_def split: option.splits)
  have "oc_ri_get_query_nth_key_value q n = Some (int (?e + 1), pair_at q start)"
    unfolding oc_ri_get_query_nth_key_value_def 1(3) using p(1) e(1) assms(2) by (simp add: Let_def)
  from that(1) [OF 1(1) this _ p(2,4,3)] e(2) assms(2) show ?thesis by simp
next
  case 2
  from that(2) [OF 2(1)] 2(2) show ?thesis by (simp add: oc_ri_get_query_nth_key_value_def null_pair_def)
qed

text \<open>The pair with number \<open>n\<close> that the code finds by scanning is the \<open>n\<close>-th of the pairs that splitting
  the query at its ampersands and each part at its first equals sign gives; after the last pair all fields of
  the result are null.\<close>

theorem query_nth_pair:
  assumes "0 < n"
  shows "\<exists>kv. oc_ri_find_query_nth_key_value_pair q n = Some kv \<and>
    (if n \<le> length (query_pairs q)
     then key_text q kv = fst (query_pairs q ! (n - 1)) \<and> kv_key_len kv = length (fst (query_pairs q ! (n - 1))) \<and>
       value_text q kv = snd (query_pairs q ! (n - 1)) \<and>
       kv_value_len kv = (case snd (query_pairs q ! (n - 1)) of None \<Rightarrow> 0 | Some v \<Rightarrow> length v)
     else kv = null_pair)"
proof (cases rule: nth_pair [OF assms, of q])
  case (1 start)
  from 1(1,3) pair_at_parsed [OF 1(2), unfolded 1(4)] show ?thesis by simp
next
  case 2
  then show ?thesis by simp
qed

theorem query_nth_pair_witness:
  "\<exists>kv. oc_ri_find_query_nth_key_value_pair ''if=oic.if.r&rt&a=b=c'' 3 = Some kv \<and>
     key_text ''if=oic.if.r&rt&a=b=c'' kv = ''a'' \<and> value_text ''if=oic.if.r&rt&a=b=c'' kv = Some ''b=c''"
proof -
  have "query_pairs ''if=oic.if.r&rt&a=b=c'' = [(''if'', Some ''oic.if.r''), (''rt'', None), (''a'', Some ''b=c'')]"
    by (simp add: query_pairs_def parse_pair_def)
  with query_nth_pair [of 3 "''if=oic.if.r&rt&a=b=c''"] show ?thesis by auto
qed

text \<open>C28. For a key of at most 255 characters both lookups return and answer with the first pair of the query
  whose key equals it up to the case of letters: the length and the position of its value (length 0 and the null
  pointer for a key without value), or \<open>-1\<close> and false when there is none. No assertion fails.\<close>

theorem query_lookup:
  assumes "key \<noteq> []" and "length key \<le> COAP_OPTION_QUERY_MAX_SIZE" and "length q < INT_MAX"
  shows "(\<exists>r. oc_ri_get_query_value_v1 q key = Some r \<and> found_value q (find (key_matches key) (query_pairs q)) r) \<and>
    oc_ri_query_exists_v1 q key = Some (\<exists>p \<in> set (query_pairs q). key_matches key p)"
proof -
  have pairs: "rest_pairs q 0 = query_pairs q" by (simp add: rest_pairs_def query_pairs_def)
  have "find (key_matches key) ps \<noteq> None \<longleftrightarrow> (\<exists>p \<in> set ps. key_matches key p)" for ps by (auto simp: find_None_iff)
  with query_value_loop_ok [OF assms(1,3), of 0] query_exists_loop_ok [OF assms(1,3), of 0] assms(2) show ?thesis
    by (simp add: oc_ri_get_query_value_v1_def oc_ri_query_exists_v1_def pairs)
qed

theorem query_lookup_witness:
  "\<exists>i. oc_ri_get_query_value_v1 ''rt=x&IF=oic.if.r&if=y'' ''if'' = Some (8, Some i) \<and>
     take 8 (drop i ''rt=x&IF=oic.if.r&if=y'') = ''oic.if.r''"
proof -
  have "query_pairs ''rt=x&IF=oic.if.r&if=y'' = [(''rt'', Some ''x''), (''IF'', Some ''oic.if.r''), (''if'', Some ''y'')]"
    by (simp add: query_pairs_def parse_pair_def)
  then have "find (key_matches ''if'') (query_pairs ''rt=x&IF=oic.if.r&if=y'') = Some (''IF'', Some ''oic.if.r'')"
    by (simp only:) code_simp
  with query_lookup [of "''if''" "''rt=x&IF=oic.if.r&if=y''"] show ?thesis
    by (auto simp: found_value_def INT_MAX_def) (simp add: eval_nat_numeral)
qed

subsection \<open>Iterating\<close>

text \<open>The loop of the iteration returns: it stops at the first pair from the current one on that has the key.\<close>

lemma get_values_loop_ok:
  assumes "length q < INT_MAX"
  shows "(\<forall>j. it \<le> j \<and> j < length (query_pairs q) \<longrightarrow> fst (query_pairs q ! j) \<noteq> key) \<and>
      get_values_loop q key it = Some (False, None, Suc (max it (length (query_pairs q)))) \<or>
    (\<exists>j more kv. it \<le> j \<and> j < length (query_pairs q) \<and> fst (query_pairs q ! j) = key \<and>
      (\<forall>i. it \<le> i \<and> i < j \<longrightarrow> fst (query_pairs q ! i) \<noteq> key) \<and>
      get_values_loop q key it = Some (more, Some kv, Suc j) \<and> value_text q kv = snd (query_pairs q ! j))"
proof (induction "length (query_pairs q) - it" arbitrary: it rule: less_induct)
  case less
  show ?case
  proof (cases rule: get_nth [OF zero_less_Suc assms, of it])
    case (1 pos kv)
    show ?thesis
    proof (cases "fst (query_pairs q ! it) = key")
      case True
      then have "get_values_loop q key it = Some (pos < int (length q), Some kv, Suc it)"
        using 1 by (subst get_values_loop.simps) (simp add: oc_iterate_query_def)
      with True 1 show ?thesis by (intro disjI2 exI [of _ it]) auto
    next
      case False
      then have step: "get_values_loop q key it = get_values_loop q key (Suc it)"
        using 1 by (subst get_values_loop.simps) (auto simp: oc_iterate_query_def)
      have here: "fst (query_pairs q ! i) \<noteq> key" if "it \<le> i" "Suc it \<le> i \<Longrightarrow> fst (query_pairs q ! i) \<noteq> key" for i
        using that False by (cases "i = it") auto
      have "length (query_pairs q) - Suc it < length (query_pairs q) - it" using 1(1) by simp
      from less [OF this] show ?thesis
      proof (elim disjE conjE exE)
        assume a: "\<forall>j. Suc it \<le> j \<and> j < length (query_pairs q) \<longrightarrow> fst (query_pairs q ! j) \<noteq> key"
          and b: "get_values_loop q key (Suc it) = Some (False, None, Suc (max (Suc it) (length (query_pairs q))))"
        have "max (Suc it) (length (query_pairs q)) = max it (length (query_pairs q))" using 1(1) by simp
        with a b step here show ?thesis by (intro disjI1) auto
      next
        fix j more kv
        assume c: "Suc it \<le> j" "j < length (query_pairs q)" "fst (query_pairs q ! j) = key"
          "\<forall>i. Suc it \<le> i \<and> i < j \<longrightarrow> fst (query_pairs q ! i) \<noteq> key"
          "get_values_loop q key (Suc it) = Some (more, Some kv, Suc j)" "value_text q kv = snd (query_pairs q ! j)"
        with step here show ?thesis by (intro disjI2 exI [of _ j] exI [of _ more] exI [of _ kv]) auto
      qed
    qed
  next
    case 2
    have "get_values_loop q key it = Some (False, None, Suc it)"
      using 2 by (subst get_values_loop.simps) (simp add: oc_iterate_query_def)
    with 2(1) show ?thesis by (intro disjI1) (auto simp: max_def)
  qed
qed

text \<open>C29. Iterating over the values of a key returns and reaches every pair once: a call answers with the value of
  the first pair from the iterator on that has exactly the key and moves the iterator behind it; when there is
  none, it answers without a value and that there are no more pairs, with the iterator behind the last pair.\<close>

theorem query_iteration:
  assumes "length q < INT_MAX" and "length key \<le> COAP_OPTION_QUERY_MAX_SIZE"
  shows "\<exists>more v it'. oc_iterate_query_get_values_v1 q key it = Some (more, v, it') \<and> it < it' \<and>
    (case v of
       None \<Rightarrow> \<not> more \<and> length (query_pairs q) < it' \<and> (\<forall>j. it \<le> j \<longrightarrow> j < length (query_pairs q) \<longrightarrow> fst (query_pairs q ! j) \<noteq> key)
     | Some kv \<Rightarrow> it' \<le> length (query_pairs q) \<and> (key, value_text q kv) = query_pairs q ! (it' - 1) \<and>
         (\<forall>j. it \<le> j \<longrightarrow> j < it' - 1 \<longrightarrow> fst (query_pairs q ! j) \<noteq> key))"
proof -
  have eq: "oc_iterate_query_get_values_v1 q key it = get_values_loop q key it"
    using assms(2) by (simp add: oc_iterate_query_get_values_v1_def)
  from get_values_loop_ok [OF assms(1), of it key] show ?thesis
  proof (elim disjE conjE exE)
    assume "\<forall>j. it \<le> j \<and> j < length (query_pairs q) \<longrightarrow> fst (query_pairs q ! j) \<noteq> key"
      and "get_values_loop q key it = Some (False, None, Suc (max it (length (query_pairs q))))"
    then show ?thesis unfolding eq by (intro exI [of _ False] exI [of _ None] exI) (auto simp: less_Suc_eq_le)
  qed (auto simp: eq intro: prod_eqI)
qed

theorem query_iteration_witness:
  "\<exists>more kv. oc_iterate_query_get_values_v1 ''rt=x&if=r&rt=y'' ''rt'' 1 = Some (more, Some kv, 3) \<and>
     value_text ''rt=x&if=r&rt=y'' kv = Some ''y''"
proof -
  have p: "query_pairs ''rt=x&if=r&rt=y'' = [(''rt'', Some ''x''), (''if'', Some ''r''), (''rt'', Some ''y'')]"
    by (simp add: query_pairs_def parse_pair_def)
  have "length ''rt=x&if=r&rt=y'' < INT_MAX" "length ''rt'' \<le> 255" by (simp_all add: INT_MAX_def)
  from query_iteration [OF this, of 1] obtain more v it'
    where r: "oc_iterate_query_get_values_v1 ''rt=x&if=r&rt=y'' ''rt'' 1 = Some (more, v, it')" "1 < it'"
    and c: "case v of
       None \<Rightarrow> \<not> more \<and> length (query_pairs ''rt=x&if=r&rt=y'') < it' \<and>
         (\<forall>j. 1 \<le> j \<longrightarrow> j < length (query_pairs ''rt=x&if=r&rt=y'') \<longrightarrow> fst (query_pairs ''rt=x&if=r&rt=y'' ! j) \<noteq> ''rt'')
     | Some kv \<Rightarrow> it' \<le> length (query_pairs ''rt=x&if=r&rt=y'') \<and>
         (''rt'', value_text ''rt=x&if=r&rt=y'' kv) = query_pairs ''rt=x&if=r&rt=y'' ! (it' - 1) \<and>
         (\<forall>j. 1 \<le> j \<longrightarrow> j < it' - 1 \<longrightarrow> fst (query_pairs ''rt=x&if=r&rt=y'' ! j) \<noteq> ''rt'')"
    by (elim exE conjE)
  have "v \<noteq> None"
  proof
    assume "v = None"
    with c have "1 \<le> (2::nat) \<longrightarrow> 2 < length (query_pairs ''rt=x&if=r&rt=y'') \<longrightarrow> fst (query_pairs ''rt=x&if=r&rt=y'' ! 2) \<noteq> ''rt''"
      by simp
    with p show False by simp
  qed
  then obtain kv where v: "v = Some kv" by auto
  with c r(2) p have "it' = 2 \<or> it' = 3" by auto
  with c v p r(1) show ?thesis by auto
qed

lemmas next_position_simps = oc_ri_get_query_nth_key_value_def oc_ri_find_query_nth_key_value_pair_def
  pair_at_def null_pair_def memchr_def INT_MAX_def

text \<open>After a pair without value that is not the first one the reported position of the next pair is the length
  of the key plus one, counted from the pair and not from the start of the query; the iteration then announces more
  pairs although the query is at its end.\<close>

theorem next_position_relative:
  "oc_ri_get_query_nth_key_value ''aaaa=1&b'' 2 = Some (2, \<lparr>kv_key = Some 7, kv_key_len = 1, kv_value = None, kv_value_len = 0\<rparr>) \<and>
   length ''aaaa=1&b'' = 8 \<and>
   (\<exists>kv. oc_iterate_query_get_values_v1 ''aaaa=1&b'' ''b'' 1 = Some (True, Some kv, 2)) \<and>
   oc_ri_get_query_nth_key_value ''aaaa=1&b'' 3 = Some (-1, null_pair)"
proof -
  have two: "oc_ri_get_query_nth_key_value ''aaaa=1&b'' 2 =
      Some (2, \<lparr>kv_key = Some 7, kv_key_len = 1, kv_value = None, kv_value_len = 0\<rparr>)"
    by (simp add: next_position_simps)
  have "skip_pairs ''aaaa=1&b'' 2 0 = None" by (simp add: numeral_2_eq_2 memchr_def)
  then have three: "oc_ri_get_query_nth_key_value ''aaaa=1&b'' 3 = Some (-1, null_pair)"
    by (simp add: next_position_simps)
  have "\<exists>kv. oc_iterate_query_get_values_v1 ''aaaa=1&b'' ''b'' 1 = Some (True, Some kv, 2)"
    by (simp add: oc_iterate_query_get_values_v1_def, subst get_values_loop.simps)
      (simp add: oc_iterate_query_def two [simplified] key_text_def numeral_2_eq_2 [symmetric])
  with two three show ?thesis by simp
qed

end
