(* ===== verification/OcMessage.thy ===== *)
theory OcMessage
  imports OcResource OcList
begin

text \<open>
  Message buffers with reference counts: \<open>src/api/oc_message.c\<close>. The allocated blocks of the two pools are a
  map from addresses to messages; the answers of \<open>oc_memb_alloc\<close>, \<open>malloc\<close> and \<open>realloc\<close> are arguments, and an
  access to a released block is \<^const>\<open>None\<close>. The compare-and-swap loops are modelled for one thread of
  execution, where the swap succeeds at once. The count has eight bits and wraps.
\<close>

subsection \<open>Operations\<close>

datatype message_pool = OC_INCOMING_BUFFERS | OC_OUTGOING_BUFFERS | OTHER_POOL nat

text \<open>The data of a message is an array, or a pointer that may be null in builds with dynamic buffers.\<close>

record oc_message_t =
  msg_pool :: message_pool
  msg_endpoint :: oc_endpoint_t
  msg_length :: nat
  msg_ref_count :: u8
  msg_data :: "bytes option"
  msg_read_offset :: nat
  msg_encrypted :: u8
  msg_size :: nat

type_synonym messages = "node \<rightharpoonup> oc_message_t"

record message_cfg =
  mc_dynamic_allocation :: bool
  mc_inout_buffer_size :: "nat option"
  mc_pdu_size :: nat

definition OC_HAS_FEATURE_MESSAGE_DYNAMIC_BUFFER :: "message_cfg \<Rightarrow> bool" where
  "OC_HAS_FEATURE_MESSAGE_DYNAMIC_BUFFER cfg \<longleftrightarrow> mc_dynamic_allocation cfg \<and> mc_inout_buffer_size cfg = None"

definition oc_message_max_buffer_size :: "message_cfg \<Rightarrow> nat" where
  "oc_message_max_buffer_size cfg =
     (if mc_dynamic_allocation cfg then (case mc_inout_buffer_size cfg of Some n \<Rightarrow> n | None \<Rightarrow> mc_pdu_size cfg)
      else mc_pdu_size cfg)"

definition message_deallocate :: "node \<Rightarrow> messages \<Rightarrow> messages" where
  "message_deallocate a ms = ms(a := None)"

text \<open>A new block has only zero bytes; the array of a static buffer is part of the block.\<close>

definition zero_message :: "message_cfg \<Rightarrow> oc_message_t" where
  "zero_message cfg =
     \<lparr>msg_pool = OC_INCOMING_BUFFERS,
      msg_endpoint = \<lparr>ep_device = 0, ep_flags = 0, ep_di = replicate 16 0, ep_address = [], ep_port = 0, ep_session_id = 0\<rparr>,
      msg_length = 0, msg_ref_count = 0,
      msg_data = (if OC_HAS_FEATURE_MESSAGE_DYNAMIC_BUFFER cfg then None else Some (replicate (oc_message_max_buffer_size cfg) 0)),
      msg_read_offset = 0, msg_encrypted = 0, msg_size = 0\<rparr>"

definition message_allocate_with_size ::
  "message_cfg \<Rightarrow> message_pool \<Rightarrow> nodeptr \<Rightarrow> bool \<Rightarrow> nat \<Rightarrow> messages \<Rightarrow> nodeptr \<times> messages" where
  "message_allocate_with_size cfg pool block malloced len ms =
     (case block of
        None \<Rightarrow> (None, ms)
      | Some a \<Rightarrow>
          (let message = zero_message cfg
           in if OC_HAS_FEATURE_MESSAGE_DYNAMIC_BUFFER cfg \<and> \<not> malloced then (None, message_deallocate a (ms(a \<mapsto> message)))
              else
                (let message = (if OC_HAS_FEATURE_MESSAGE_DYNAMIC_BUFFER cfg
                                then message\<lparr>msg_data := Some (replicate len 0), msg_size := len\<rparr> else message)
                 in (Some a, ms(a \<mapsto> message\<lparr>msg_pool := pool, msg_length := 0, msg_ref_count := 1, msg_encrypted := 0\<rparr>)))))"

definition message_allocate :: "message_cfg \<Rightarrow> message_pool \<Rightarrow> nodeptr \<Rightarrow> bool \<Rightarrow> messages \<Rightarrow> nodeptr \<times> messages" where
  "message_allocate cfg pool block malloced ms =
     message_allocate_with_size cfg pool block malloced
       (if OC_HAS_FEATURE_MESSAGE_DYNAMIC_BUFFER cfg then mc_pdu_size cfg else 0) ms"

definition oc_message_buffer_size :: "message_cfg \<Rightarrow> oc_message_t \<Rightarrow> nat" where
  "oc_message_buffer_size cfg message =
     (if OC_HAS_FEATURE_MESSAGE_DYNAMIC_BUFFER cfg then (if msg_data message = None then 0 else msg_size message)
      else oc_message_max_buffer_size cfg)"

definition oc_allocate_message_from_pool ::
  "message_cfg \<Rightarrow> message_pool option \<Rightarrow> nodeptr \<Rightarrow> bool \<Rightarrow> messages \<Rightarrow> nodeptr \<times> messages" where
  "oc_allocate_message_from_pool cfg pool block malloced ms =
     (case pool of Some p \<Rightarrow> message_allocate cfg p block malloced ms | None \<Rightarrow> (None, ms))"

definition oc_allocate_message :: "message_cfg \<Rightarrow> nodeptr \<Rightarrow> bool \<Rightarrow> messages \<Rightarrow> nodeptr \<times> messages" where
  "oc_allocate_message cfg = message_allocate cfg OC_INCOMING_BUFFERS"

definition oc_message_allocate_with_size :: "message_cfg \<Rightarrow> nodeptr \<Rightarrow> bool \<Rightarrow> nat \<Rightarrow> messages \<Rightarrow> nodeptr \<times> messages" where
  "oc_message_allocate_with_size cfg = message_allocate_with_size cfg OC_INCOMING_BUFFERS"

definition oc_message_allocate_outgoing :: "message_cfg \<Rightarrow> nodeptr \<Rightarrow> bool \<Rightarrow> messages \<Rightarrow> nodeptr \<times> messages" where
  "oc_message_allocate_outgoing cfg = message_allocate cfg OC_OUTGOING_BUFFERS"

definition oc_message_allocate_outgoing_with_size ::
  "message_cfg \<Rightarrow> nodeptr \<Rightarrow> bool \<Rightarrow> nat \<Rightarrow> messages \<Rightarrow> nodeptr \<times> messages" where
  "oc_message_allocate_outgoing_with_size cfg = message_allocate_with_size cfg OC_OUTGOING_BUFFERS"

definition oc_message_add_ref :: "nodeptr \<Rightarrow> messages \<Rightarrow> messages option" where
  "oc_message_add_ref message ms =
     (case message of
        None \<Rightarrow> Some ms
      | Some a \<Rightarrow> map_option (\<lambda>msg. ms(a \<mapsto> msg\<lparr>msg_ref_count := msg_ref_count msg + 1\<rparr>)) (ms a))"

definition oc_message_refcount :: "node \<Rightarrow> messages \<Rightarrow> u8 option" where
  "oc_message_refcount a ms = map_option msg_ref_count (ms a)"

definition oc_message_deallocate :: "node \<Rightarrow> messages \<Rightarrow> messages option" where
  "oc_message_deallocate a ms = map_option (\<lambda>_. message_deallocate a ms) (ms a)"

definition oc_message_unref2 :: "nodeptr \<Rightarrow> messages \<Rightarrow> (bool \<times> messages) option" where
  "oc_message_unref2 message ms =
     (case message of
        None \<Rightarrow> Some (False, ms)
      | Some a \<Rightarrow>
          (case ms a of
             None \<Rightarrow> None
           | Some msg \<Rightarrow>
               (let count = msg_ref_count msg
                in if count = 0 then Some (False, ms)
                   else
                     (let new_count = count - 1;
                          ms1 = ms(a \<mapsto> msg\<lparr>msg_ref_count := new_count\<rparr>)
                      in if new_count = 0 then map_option (Pair True) (oc_message_deallocate a ms1)
                         else Some (False, ms1)))))"

definition oc_message_unref :: "nodeptr \<Rightarrow> messages \<Rightarrow> messages option" where
  "oc_message_unref message ms = map_option snd (oc_message_unref2 message ms)"

text \<open>The bytes that \<open>realloc\<close> appends are an argument; a null data pointer is reallocated like an empty buffer.\<close>

definition oc_message_shrink_buffer :: "message_cfg \<Rightarrow> bool \<Rightarrow> bytes \<Rightarrow> nat \<Rightarrow> oc_message_t \<Rightarrow> oc_message_t" where
  "oc_message_shrink_buffer cfg realloced junk len message =
     (if len = oc_message_buffer_size cfg message then message
      else if \<not> realloced \<and> len > 0 then message
      else message\<lparr>msg_data := (if realloced then Some (take len ((case msg_data message of Some d \<Rightarrow> d | None \<Rightarrow> []) @ junk)) else None),
             msg_size := len, msg_length := min (msg_length message) len\<rparr>)"

subsection \<open>References\<close>

text \<open>
  The references to the messages: each message of \<open>own\<close> has one owner, and each entry of \<open>out\<close> is a further
  reference. The blocks that are allocated are exactly those that are referenced.
\<close>

definition refs_ok :: "node set \<Rightarrow> node list \<Rightarrow> messages \<Rightarrow> bool" where
  "refs_ok own out ms \<longleftrightarrow> dom ms = own \<union> set out \<and>
     (\<forall>m msg. ms m = Some msg \<longrightarrow> unat (msg_ref_count msg) = of_bool (m \<in> own) + count_list out m)"

lemma refs_okD:
  assumes "refs_ok own out ms" and "m \<in> own \<union> set out"
  obtains msg where "ms m = Some msg" and "unat (msg_ref_count msg) = of_bool (m \<in> own) + count_list out m"
  using assms by (fastforce simp: refs_ok_def)

lemma unat_dec: "(w :: u8) \<noteq> 0 \<Longrightarrow> unat (w - 1) = unat w - 1"
  by (simp add: unat_minus_one)

lemma unat_inc: "unat (w :: u8) < 255 \<Longrightarrow> unat (w + 1) = unat w + 1"
  by (simp add: unat_word_ariths)

lemma count_list_in: "m \<in> set xs \<Longrightarrow> 0 < count_list xs m"
  by (metis bot_nat_0.not_eq_extremum count_list_0_iff)

lemma refs_add:
  assumes "refs_ok own out ms" and "m \<in> own" and "count_list out m < 254"
  obtains msg where "ms m = Some msg"
    and "oc_message_add_ref (Some m) ms = Some (ms(m \<mapsto> msg\<lparr>msg_ref_count := msg_ref_count msg + 1\<rparr>))"
    and "refs_ok own (out @ [m]) (ms(m \<mapsto> msg\<lparr>msg_ref_count := msg_ref_count msg + 1\<rparr>))"
proof -
  from refs_okD [OF assms(1), of m] assms(2) obtain msg where
    msg: "ms m = Some msg" "unat (msg_ref_count msg) = 1 + count_list out m" by auto
  have "unat (msg_ref_count msg + 1) = unat (msg_ref_count msg) + 1" using msg(2) assms(3) by (intro unat_inc) simp
  with assms(1,2) msg have "refs_ok own (out @ [m]) (ms(m \<mapsto> msg\<lparr>msg_ref_count := msg_ref_count msg + 1\<rparr>))"
    unfolding refs_ok_def by auto
  with that msg(1) show ?thesis by (simp add: oc_message_add_ref_def)
qed

text \<open>Giving a reference back: the block is released exactly with the last one.\<close>

lemma unref_result:
  assumes "ms m = Some msg" and "unat (msg_ref_count msg) = Suc n"
  shows "oc_message_unref2 (Some m) ms = Some (n = 0, if n = 0 then ms(m := None) else ms(m \<mapsto> msg\<lparr>msg_ref_count := msg_ref_count msg - 1\<rparr>))"
    and "unat (msg_ref_count msg - 1) = n"
proof -
  from assms(2) have nz: "msg_ref_count msg \<noteq> 0" by auto
  from unat_dec [OF this] assms(2) show n: "unat (msg_ref_count msg - 1) = n" by simp
  then have "msg_ref_count msg - 1 = 0 \<longleftrightarrow> n = 0" by (auto simp: unat_eq_zero)
  with nz assms(1) show "oc_message_unref2 (Some m) ms = Some (n = 0, if n = 0 then ms(m := None) else ms(m \<mapsto> msg\<lparr>msg_ref_count := msg_ref_count msg - 1\<rparr>))"
    by (simp add: oc_message_unref2_def oc_message_deallocate_def message_deallocate_def Let_def)
qed

lemma refs_disown:
  assumes "refs_ok own out ms" and "m \<in> own"
  obtains ms' where "oc_message_unref2 (Some m) ms = Some (m \<notin> set out, ms')" and "refs_ok (own - {m}) out ms'"
    and "\<And>m'. m' \<noteq> m \<Longrightarrow> ms' m' = ms m'"
proof -
  from refs_okD [OF assms(1), of m] assms(2) obtain msg where
    msg: "ms m = Some msg" "unat (msg_ref_count msg) = Suc (count_list out m)" by auto
  note r = unref_result [of ms m, OF msg]
  have z: "count_list out m = 0 \<longleftrightarrow> m \<notin> set out" by (simp add: count_list_0_iff)
  let ?ms = "if count_list out m = 0 then ms(m := None) else ms(m \<mapsto> msg\<lparr>msg_ref_count := msg_ref_count msg - 1\<rparr>)"
  have "refs_ok (own - {m}) out ?ms"
    using assms z r(2) msg(1) unfolding refs_ok_def by (auto simp: dom_def)
  with that [of ?ms] r(1) z show ?thesis by auto
qed

lemma refs_delivered:
  assumes "refs_ok own (xs @ m # ys) ms"
  obtains ms' where "oc_message_unref2 (Some m) ms = Some (m \<notin> own \<union> set (xs @ ys), ms')" and "refs_ok own (xs @ ys) ms'"
    and "\<And>m'. m' \<noteq> m \<Longrightarrow> ms' m' = ms m'" and "\<And>msg. m \<in> own \<Longrightarrow> ms m = Some msg \<Longrightarrow> ms' m = Some (msg\<lparr>msg_ref_count := msg_ref_count msg - 1\<rparr>)"
proof -
  let ?n = "of_bool (m \<in> own) + count_list (xs @ ys) m"
  from refs_okD [OF assms, of m] obtain msg where
    msg: "ms m = Some msg" "unat (msg_ref_count msg) = Suc ?n" by auto
  note r = unref_result [of ms m, OF msg]
  have z: "?n = 0 \<longleftrightarrow> m \<notin> own \<union> set (xs @ ys)" by (simp add: count_list_0_iff)
  let ?ms = "if ?n = 0 then ms(m := None) else ms(m \<mapsto> msg\<lparr>msg_ref_count := msg_ref_count msg - 1\<rparr>)"
  have dom: "dom ms = own \<union> set (xs @ m # ys)" using assms by (simp add: refs_ok_def)
  have "refs_ok own (xs @ ys) ?ms"
    unfolding refs_ok_def
  proof (intro conjI allI impI)
    show "dom ?ms = own \<union> set (xs @ ys)" using dom z by auto
    fix m' msg'
    assume "?ms m' = Some msg'"
    with assms r(2) show "unat (msg_ref_count msg') = of_bool (m' \<in> own) + count_list (xs @ ys) m'"
      by (cases "m' = m") (auto simp: refs_ok_def split: if_splits)
  qed
  with that [of ?ms] r(1) z msg(1) show ?thesis by auto
qed

text \<open>A reference that is taken and given back leaves the messages as they were.\<close>

lemma add_unref_same:
  assumes "ms m = Some msg" and "0 < unat (msg_ref_count msg)" and "unat (msg_ref_count msg) < 255"
  shows "oc_message_unref2 (Some m) (ms(m \<mapsto> msg\<lparr>msg_ref_count := msg_ref_count msg + 1\<rparr>)) = Some (False, ms)"
proof -
  let ?msg = "msg\<lparr>msg_ref_count := msg_ref_count msg + 1\<rparr>"
  have "unat (msg_ref_count ?msg) = Suc (unat (msg_ref_count msg))" using unat_inc [OF assms(3)] by simp
  from unref_result(1) [of "ms(m \<mapsto> ?msg)" m ?msg, OF _ this] assms(1,2) show ?thesis by auto
qed

end
