(* ===== verification/OcTransactions.thy ===== *)
theory OcTransactions
  imports OcMessage OcEventCallback CoapPacket "HOL-Library.Monad_Syntax"
begin

text \<open>
  CoAP transactions: \<open>src/messaging/coap/transactions.c\<close>. The list is the sequence of the addresses of its
  elements; the retransmission timers are event timers of \<open>OcTimer\<close>, the messages those of \<open>OcMessage\<close>. An
  access to a released transaction or message is \<^const>\<open>None\<close>. The modules that a transaction calls when it
  times out run handlers of the application, which may use the transactions again: they are functions on the
  whole state in the environment. Builds with server, client, block-wise transfers, security and TCP.
\<close>

subsection \<open>State\<close>

abbreviation (input) COAP_RESPONSE_TIMEOUT :: u64 where "COAP_RESPONSE_TIMEOUT \<equiv> 2"
abbreviation (input) COAP_MAX_RETRANSMIT :: u8 where "COAP_MAX_RETRANSMIT \<equiv> 4"
abbreviation (input) COAP_HEADER_TYPE_MASK :: u8 where "COAP_HEADER_TYPE_MASK \<equiv> 0x30"
abbreviation (input) COAP_HEADER_TYPE_POSITION :: nat where "COAP_HEADER_TYPE_POSITION \<equiv> 4"

text \<open>The status codes that the clients of a transaction are given.\<close>

datatype transaction_status = OC_TRANSACTION_TIMEOUT | OC_CONNECTION_CLOSED | OTHER_STATUS nat

record coap_transaction_t =
  tr_mid :: u16
  tr_token_len :: nat
  tr_token :: bytes
  tr_retrans_counter :: u8
  tr_message :: nodeptr

text \<open>
  The messages in \<open>tx_outbox\<close> are posted to the handler of message buffers and not yet released by it.
\<close>

record 'e transactions =
  transactions_list :: "node list"
  tx_blocks :: "node \<rightharpoonup> coap_transaction_t"
  tx_messages :: messages
  tx_outbox :: "node list"
  tx_timers :: etimers
  tx_kernel :: "'e kernel"
  tx_now :: u64
  transaction_handler_process :: nodeptr

text \<open>
  The process of the event timers, the clock, the build of the messages, whether the stack is initialised and
  whether the event queue is full; then the other modules: the exchange of capabilities over TCP (the version of
  the endpoint and \<open>oc_tcp_get_csm_state\<close> decide on \<open>coap_send_csm_message\<close>), \<open>coap_remove_observers_by_client\<close>,
  \<open>oc_ri_free_client_cbs_by_mid_v1\<close>, \<open>oc_blockwise_free_all_buffers\<close> and \<open>oc_tls_close_connection\<close>.
\<close>

record 'e transaction_env =
  te_etimer_proc :: node
  te_clock_second :: u64
  te_message_cfg :: message_cfg
  te_main_initialized :: bool
  te_queue_full :: "'e kernel \<Rightarrow> bool"
  te_exchange_csm :: "oc_endpoint_t \<Rightarrow> 'e transactions \<Rightarrow> 'e transactions option"
  te_remove_observers :: "oc_endpoint_t \<Rightarrow> 'e transactions \<Rightarrow> 'e transactions option"
  te_free_client_cbs :: "u16 \<Rightarrow> transaction_status \<Rightarrow> 'e transactions \<Rightarrow> 'e transactions option"
  te_free_blockwise_buffers :: "bool \<Rightarrow> 'e transactions \<Rightarrow> 'e transactions option"
  te_tls_close :: "oc_endpoint_t \<Rightarrow> 'e transactions \<Rightarrow> 'e transactions option"

subsection \<open>Operations\<close>

definition coap_register_as_transaction_handler :: "'e transactions \<Rightarrow> 'e transactions" where
  "coap_register_as_transaction_handler s = s\<lparr>transaction_handler_process := k_current (tx_kernel s)\<rparr>"

text \<open>\<open>oc_memb_alloc\<close> returned \<open>a\<close> with all bytes zero.\<close>

definition tx_alloc :: "node \<Rightarrow> 'e transactions \<Rightarrow> 'e transactions" where
  "tx_alloc a s = s\<lparr>
     tx_blocks := (tx_blocks s)(a \<mapsto> \<lparr>tr_mid = 0, tr_token_len = 0, tr_token = replicate COAP_TOKEN_LEN 0,
       tr_retrans_counter = 0, tr_message = None\<rparr>),
     tx_timers := (tx_timers s)\<lparr>et_timer := (et_timer (tx_timers s))(a := \<lparr>t_start = 0, t_interval = 0\<rparr>),
       et_p := (et_p (tx_timers s))(a := None), et_list := set_next (et_list (tx_timers s)) a None\<rparr>\<rparr>"

definition tx_free :: "node \<Rightarrow> 'e transactions \<Rightarrow> 'e transactions" where
  "tx_free a s = s\<lparr>tx_blocks := (tx_blocks s)(a := None)\<rparr>"

text \<open>A token that is longer than the array of the transaction is written past its end.\<close>

definition coap_new_transaction ::
  "'e transaction_env \<Rightarrow> u16 \<Rightarrow> bytes \<Rightarrow> oc_endpoint_t \<Rightarrow> nodeptr \<Rightarrow> nodeptr \<Rightarrow> bool \<Rightarrow> 'e transactions \<Rightarrow>
   (nodeptr \<times> 'e transactions) option" where
  "coap_new_transaction env mid token endpoint blk message malloced s =
     (case blk of
        None \<Rightarrow> Some (None, s)
      | Some a \<Rightarrow>
          (let s1 = tx_alloc a s
           in case oc_message_allocate_outgoing (te_message_cfg env) message malloced (tx_messages s1) of
                (None, ms) \<Rightarrow> Some (None, tx_free a (s1\<lparr>tx_messages := ms\<rparr>))
              | (Some m, ms) \<Rightarrow>
                  if length token > COAP_TOKEN_LEN then None
                  else do {
                    t \<leftarrow> tx_blocks s1 a;
                    msg \<leftarrow> ms m;
                    let t1 = t\<lparr>tr_message := Some m, tr_mid := mid\<rparr>;
                    let t2 = (if length token > 0
                              then t1\<lparr>tr_token := token @ drop (length token) (tr_token t1), tr_token_len := length token\<rparr> else t1);
                    Some (Some a, s1\<lparr>tx_blocks := (tx_blocks s1)(a \<mapsto> t2\<lparr>tr_retrans_counter := 0\<rparr>),
                      tx_messages := ms(m \<mapsto> msg\<lparr>msg_endpoint := endpoint\<rparr>),
                      transactions_list := transactions_list s1 @ [a]\<rparr>)
                  }))"

text \<open>The list \<open>transactions_list\<close> never has a block twice, so that removing its first occurrence removes it.\<close>

definition coap_clear_transaction :: "nodeptr \<Rightarrow> 'e transactions \<Rightarrow> 'e transactions option" where
  "coap_clear_transaction t s =
     (case t of
        None \<Rightarrow> Some s
      | Some a \<Rightarrow> do {
          tr \<leftarrow> tx_blocks s a;
          timers \<leftarrow> oc_etimer_stop (tx_now s) (tx_timers s) a;
          ms \<leftarrow> oc_message_unref (tr_message tr) (tx_messages s);
          Some (tx_free a (s\<lparr>tx_timers := timers, tx_messages := ms, transactions_list := remove1 a (transactions_list s)\<rparr>))
        })"

definition oc_send_message :: "'e transaction_env \<Rightarrow> node \<Rightarrow> 'e transactions \<Rightarrow> 'e transactions option" where
  "oc_send_message env message s =
     (if te_queue_full env (tx_kernel s)
      then map_option (\<lambda>ms. s\<lparr>tx_messages := ms\<rparr>) (oc_message_unref (Some message) (tx_messages s))
      else Some (s\<lparr>tx_outbox := tx_outbox s @ [message]\<rparr>))"

definition coap_send_message :: "'e transaction_env \<Rightarrow> node \<Rightarrow> 'e transactions \<Rightarrow> 'e transactions option" where
  "coap_send_message env message s =
     do {
       msg \<leftarrow> tx_messages s message;
       s1 \<leftarrow> (if ep_flags (msg_endpoint msg) AND TCP \<noteq> 0 then te_exchange_csm env (msg_endpoint msg) s else Some s);
       oc_send_message env message s1
     }"

text \<open>\<open>oc_message_add_ref\<close> with \<open>coap_send_message\<close>, which both ways of sending share.\<close>

definition send_reference :: "'e transaction_env \<Rightarrow> node \<Rightarrow> 'e transactions \<Rightarrow> 'e transactions option" where
  "send_reference env message s =
     do {
       ms \<leftarrow> oc_message_add_ref (Some message) (tx_messages s);
       coap_send_message env message (s\<lparr>tx_messages := ms\<rparr>)
     }"

text \<open>
  The first interval lies between \<open>COAP_RESPONSE_TIMEOUT\<close> and its product with the random factor 1.5: the mask
  \<open>COAP_RESPONSE_TIMEOUT_BACKOFF_MASK\<close> is one more than the ticks of a second.
\<close>

definition COAP_RESPONSE_TIMEOUT_TICKS :: "'e transaction_env \<Rightarrow> u64" where
  "COAP_RESPONSE_TIMEOUT_TICKS env = te_clock_second env * COAP_RESPONSE_TIMEOUT"

definition COAP_RESPONSE_TIMEOUT_BACKOFF_MASK :: "'e transaction_env \<Rightarrow> u64" where
  "COAP_RESPONSE_TIMEOUT_BACKOFF_MASK env = te_clock_second env + 1"

definition retransmission_interval :: "'e transaction_env \<Rightarrow> u32 \<Rightarrow> u8 \<Rightarrow> u64 \<Rightarrow> u64" where
  "retransmission_interval env random counter interval =
     (if counter = 0 then COAP_RESPONSE_TIMEOUT_TICKS env + ucast random mod COAP_RESPONSE_TIMEOUT_BACKOFF_MASK env
      else push_bit 1 interval)"

text \<open>\<open>oc_etimer_restart\<close> in the context of the registered process.\<close>

definition tx_restart :: "'e transaction_env \<Rightarrow> node \<Rightarrow> 'e transactions \<Rightarrow> 'e transactions option" where
  "tx_restart env a s =
     map_option (\<lambda>(k, t). s\<lparr>tx_kernel := k\<lparr>k_current := k_current (tx_kernel s)\<rparr>, tx_timers := t\<rparr>)
       (oc_etimer_restart (te_etimer_proc env) (tx_now s)
          ((tx_kernel s)\<lparr>k_current := transaction_handler_process s\<rparr>) (tx_timers s) a)"

definition confirmable :: "oc_message_t \<Rightarrow> bool option" where
  "confirmable msg =
     (case msg_data msg of
        Some (b # _) \<Rightarrow>
          Some (message_type_of (unat (drop_bit COAP_HEADER_TYPE_POSITION (COAP_HEADER_TYPE_MASK AND b))) = COAP_TYPE_CON \<and>
                ep_flags (msg_endpoint msg) AND TCP = 0)
      | _ \<Rightarrow> None)"

definition transaction_timed_out :: "'e transaction_env \<Rightarrow> node \<Rightarrow> 'e transactions \<Rightarrow> 'e transactions option" where
  "transaction_timed_out env a s =
     do {
       t \<leftarrow> tx_blocks s a;
       m \<leftarrow> tr_message t;
       msg \<leftarrow> tx_messages s m;
       s \<leftarrow> te_remove_observers env (msg_endpoint msg) s;
       t \<leftarrow> tx_blocks s a;
       s \<leftarrow> te_free_client_cbs env (tr_mid t) OC_TRANSACTION_TIMEOUT s;
       s \<leftarrow> te_free_blockwise_buffers env False s;
       t \<leftarrow> tx_blocks s a;
       m \<leftarrow> tr_message t;
       msg \<leftarrow> tx_messages s m;
       if ep_flags (msg_endpoint msg) AND SECURED \<noteq> 0 then te_tls_close env (msg_endpoint msg) s
       else coap_clear_transaction (Some a) s
     }"

definition coap_send_transaction :: "'e transaction_env \<Rightarrow> u32 \<Rightarrow> node \<Rightarrow> 'e transactions \<Rightarrow> 'e transactions option" where
  "coap_send_transaction env random a s =
     (if \<not> te_main_initialized env then Some s
      else do {
        t \<leftarrow> tx_blocks s a;
        m \<leftarrow> tr_message t;
        msg \<leftarrow> tx_messages s m;
        con \<leftarrow> confirmable msg;
        if \<not> con then do {
          s \<leftarrow> send_reference env m s;
          coap_clear_transaction (Some a) s
        }
        else if tr_retrans_counter t < COAP_MAX_RETRANSMIT then do {
          let timer = et_timer (tx_timers s) a;
          let timer = timer\<lparr>t_interval := retransmission_interval env random (tr_retrans_counter t) (t_interval timer)\<rparr>;
          s \<leftarrow> tx_restart env a (s\<lparr>tx_timers := set_timer (tx_timers s) a timer\<rparr>);
          send_reference env m s
        }
        else transaction_timed_out env a s
      })"

text \<open>The walk over the list, which reads the fields of live transactions only.\<close>

fun find_transaction :: "(coap_transaction_t \<Rightarrow> bool) \<Rightarrow> 'e transactions \<Rightarrow> node list \<Rightarrow> nodeptr option" where
  "find_transaction P s [] = Some None"
| "find_transaction P s (a # as) =
     (case tx_blocks s a of
        None \<Rightarrow> None
      | Some t \<Rightarrow> if P t then Some (Some a) else find_transaction P s as)"

definition coap_get_transaction_by_mid :: "u16 \<Rightarrow> 'e transactions \<Rightarrow> nodeptr option" where
  "coap_get_transaction_by_mid mid s = find_transaction (\<lambda>t. tr_mid t = mid) s (transactions_list s)"

definition coap_get_transaction_by_token :: "bytes \<Rightarrow> 'e transactions \<Rightarrow> nodeptr option" where
  "coap_get_transaction_by_token token s =
     find_transaction (\<lambda>t. tr_token_len t = length token \<and> take (length token) (tr_token t) = token) s (transactions_list s)"

text \<open>The link to the next element of the list.\<close>

definition tx_next :: "node \<Rightarrow> node list \<Rightarrow> nodeptr" where
  "tx_next a as = (case dropWhile (\<lambda>x. x \<noteq> a) as of _ # b # _ \<Rightarrow> Some b | _ \<Rightarrow> None)"

abbreviation tx_head :: "'e transactions \<Rightarrow> nodeptr" where
  "tx_head s \<equiv> (case transactions_list s of [] \<Rightarrow> None | a # _ \<Rightarrow> Some a)"

text \<open>The loops restart at the head when the call has removed other transactions.\<close>

partial_function (option) check_loop :: "'e transaction_env \<Rightarrow> u32 \<Rightarrow> nodeptr \<Rightarrow> 'e transactions \<Rightarrow> 'e transactions option" where
  "check_loop env random t s =
     (case t of
        None \<Rightarrow> Some s
      | Some a \<Rightarrow>
          (case tx_blocks s a of
             None \<Rightarrow> None
           | Some tr \<Rightarrow>
               (let next = tx_next a (transactions_list s)
                in if oc_etimer_expired (tx_timers s) a then
                     (let s1 = s\<lparr>tx_blocks := (tx_blocks s)(a \<mapsto> tr\<lparr>tr_retrans_counter := tr_retrans_counter tr + 1\<rparr>)\<rparr>;
                          removed = int (length (transactions_list s1))
                      in case coap_send_transaction env random a s1 of
                           None \<Rightarrow> None
                         | Some s2 \<Rightarrow>
                             if removed - int (length (transactions_list s2)) > 1 then check_loop env random (tx_head s2) s2
                             else check_loop env random next s2)
                   else check_loop env random next s)))"

definition coap_check_transactions :: "'e transaction_env \<Rightarrow> u32 \<Rightarrow> 'e transactions \<Rightarrow> 'e transactions option" where
  "coap_check_transactions env random s = check_loop env random (tx_head s) s"

fun clear_loop :: "node list \<Rightarrow> 'e transactions \<Rightarrow> 'e transactions option" where
  "clear_loop [] s = Some s"
| "clear_loop (a # as) s = (case coap_clear_transaction (Some a) s of None \<Rightarrow> None | Some s1 \<Rightarrow> clear_loop as s1)"

definition coap_free_all_transactions :: "'e transactions \<Rightarrow> 'e transactions option" where
  "coap_free_all_transactions s = clear_loop (transactions_list s) s"

text \<open>The first argument is \<open>oc_ri_free_client_cbs_by_mid_v1\<close>.\<close>

partial_function (option) free_by_endpoint_loop ::
  "(u16 \<Rightarrow> transaction_status \<Rightarrow> 'e transactions \<Rightarrow> 'e transactions option) \<Rightarrow> oc_endpoint_t \<Rightarrow> transaction_status \<Rightarrow>
   nodeptr \<Rightarrow> 'e transactions \<Rightarrow> 'e transactions option" where
  "free_by_endpoint_loop cbs endpoint code t s =
     (case t of
        None \<Rightarrow> Some s
      | Some a \<Rightarrow>
          (case tx_blocks s a of
             None \<Rightarrow> None
           | Some tr \<Rightarrow>
               (let next = tx_next a (transactions_list s)
                in case Option.bind (tr_message tr) (tx_messages s) of
                     None \<Rightarrow> None
                   | Some msg \<Rightarrow>
                       if oc_endpoint_compare (msg_endpoint msg) endpoint = 0 then
                         (let removed = int (length (transactions_list s))
                          in case cbs (tr_mid tr) code s of
                               None \<Rightarrow> None
                             | Some s1 \<Rightarrow>
                                 if removed - int (length (transactions_list s1)) > 0
                                 then free_by_endpoint_loop cbs endpoint code (tx_head s1) s1
                                 else
                                   (case coap_clear_transaction (Some a) s1 of
                                      None \<Rightarrow> None
                                    | Some s2 \<Rightarrow> free_by_endpoint_loop cbs endpoint code next s2))
                       else free_by_endpoint_loop cbs endpoint code next s)))"

definition coap_free_transactions_by_endpoint ::
  "(u16 \<Rightarrow> transaction_status \<Rightarrow> 'e transactions \<Rightarrow> 'e transactions option) \<Rightarrow> oc_endpoint_t \<Rightarrow> transaction_status \<Rightarrow>
   'e transactions \<Rightarrow> 'e transactions option" where
  "coap_free_transactions_by_endpoint cbs endpoint code s = free_by_endpoint_loop cbs endpoint code (tx_head s) s"

end
