(* ===== verification/OcRetransmission.thy ===== *)
theory OcRetransmission
  imports OcTransactions
begin

text \<open>
  What the transactions promise: an invariant that accounts for lists, timers and message references, the
  retransmissions of a confirmable message, and that checking the timers returns. A locale states what they
  rely on of the modules they call; it is interpreted on an environment whose handlers act on the application.
\<close>

subsection \<open>Invariant\<close>

definition message_of :: "'e transactions \<Rightarrow> node \<Rightarrow> nodeptr" where
  "message_of s a = Option.bind (tx_blocks s a) tr_message"

definition tx_owned :: "'e transactions \<Rightarrow> node set" where
  "tx_owned s = ran (message_of s)"

text \<open>The message has a first byte, and its endpoint is one of an IP network, so that it equals itself.\<close>

definition sendable_message :: "oc_message_t \<Rightarrow> bool" where
  "sendable_message msg \<longleftrightarrow> confirmable msg \<noteq> None \<and> oc_endpoint_compare (msg_endpoint msg) (msg_endpoint msg) = 0"

lemma confirmable_ref [simp]: "confirmable (msg\<lparr>msg_ref_count := r\<rparr>) = confirmable msg"
  by (simp add: confirmable_def split: option.split list.split)

definition tx_base :: "'e transactions \<Rightarrow> bool" where
  "tx_base s \<longleftrightarrow> distinct (transactions_list s) \<and> dom (tx_blocks s) = set (transactions_list s) \<and>
     linked (dom (tx_blocks s)) (tx_timers s) \<and> transaction_handler_process s \<noteq> None \<and>
     (\<forall>a b m. message_of s a = Some m \<longrightarrow> message_of s b = Some m \<longrightarrow> a = b) \<and>
     dom (message_of s) = dom (tx_blocks s) \<and>
     refs_ok (tx_owned s) (tx_outbox s) (tx_messages s) \<and>
     (\<forall>m \<in> tx_owned s. \<forall>msg. tx_messages s m = Some msg \<longrightarrow> sendable_message msg)"

text \<open>A transaction has been sent at most once more than its counter says.\<close>

definition tx_counters :: "'e transactions \<Rightarrow> bool" where
  "tx_counters s \<longleftrightarrow> (\<forall>a t m. tx_blocks s a = Some t \<longrightarrow> tr_message t = Some m \<longrightarrow>
     unat (tr_retrans_counter t) \<le> 3 \<and> count_list (tx_outbox s) m \<le> unat (tr_retrans_counter t) + 1)"

text \<open>The transactions \<open>D\<close> are released and the others are as before.\<close>

definition cleared :: "node set \<Rightarrow> 'e transactions \<Rightarrow> 'e transactions \<Rightarrow> bool" where
  "cleared D s s' \<longleftrightarrow> transactions_list s' = filter (\<lambda>a. a \<notin> D) (transactions_list s) \<and>
     tx_blocks s' = (tx_blocks s) |` (- D) \<and> tx_outbox s' = tx_outbox s \<and> tx_now s' = tx_now s \<and>
     transaction_handler_process s' = transaction_handler_process s \<and> et_timer (tx_timers s') = et_timer (tx_timers s) \<and>
     (\<forall>a. a \<notin> D \<longrightarrow> et_p (tx_timers s') a = et_p (tx_timers s) a) \<and>
     (\<forall>m \<in> tx_owned s'. tx_messages s' m = tx_messages s m) \<and> tx_base s'"

lemma tx_base_parts:
  assumes "tx_base s"
  shows "distinct (transactions_list s)" and "dom (tx_blocks s) = set (transactions_list s)"
    and "linked (dom (tx_blocks s)) (tx_timers s)" and "transaction_handler_process s \<noteq> None"
    and "message_of s a = Some m \<Longrightarrow> message_of s b = Some m \<Longrightarrow> a = b" and "dom (message_of s) = dom (tx_blocks s)"
    and "refs_ok (tx_owned s) (tx_outbox s) (tx_messages s)"
    and "m \<in> tx_owned s \<Longrightarrow> tx_messages s m = Some msg \<Longrightarrow> sendable_message msg"
  using assms unfolding tx_base_def by blast+

lemma message_of_cong: "tx_blocks s' = tx_blocks s \<Longrightarrow> message_of s' = message_of s"
  by (simp add: message_of_def fun_eq_iff)

lemma tx_owned_cong: "tx_blocks s' = tx_blocks s \<Longrightarrow> tx_owned s' = tx_owned s"
  using message_of_cong [of s' s] by (simp add: tx_owned_def)

lemma message_of_kernel [simp]:
  "message_of (s\<lparr>tx_kernel := k\<rparr>) = message_of s" "tx_owned (s\<lparr>tx_kernel := k\<rparr>) = tx_owned s"
proof -
  have "tx_blocks (s\<lparr>tx_kernel := k\<rparr>) = tx_blocks s" by simp
  then show "message_of (s\<lparr>tx_kernel := k\<rparr>) = message_of s" "tx_owned (s\<lparr>tx_kernel := k\<rparr>) = tx_owned s"
    by (rule message_of_cong, rule tx_owned_cong)
qed

lemma tx_base_kernel [simp]:
  "tx_base (s\<lparr>tx_kernel := k\<rparr>) = tx_base s" "tx_counters (s\<lparr>tx_kernel := k\<rparr>) = tx_counters s"
  by (simp_all add: tx_base_def tx_counters_def)

lemma cleared_kernel [simp]: "cleared D (s\<lparr>tx_kernel := k\<rparr>) s' = cleared D s s'"
  by (simp add: cleared_def)

lemma message_of_cleared: "cleared D s s' \<Longrightarrow> message_of s' = message_of s |` (- D)"
  by (auto simp: cleared_def message_of_def fun_eq_iff restrict_map_def)

lemma cleared_none: "tx_base s \<Longrightarrow> cleared {} s s"
  by (simp add: cleared_def restrict_map_def)

lemma tx_owned_cleared: "cleared D s s' \<Longrightarrow> tx_owned s' \<subseteq> tx_owned s"
  by (auto simp: tx_owned_def ran_def message_of_cleared restrict_map_def)

lemma cleared_trans:
  assumes "cleared D s s1" and "cleared E s1 s2"
  shows "cleared (D \<union> E) s s2"
  using assms tx_owned_cleared [OF assms(2)]
  by (auto simp: cleared_def Un_commute intro: filter_cong)

lemma cleared_counters: "cleared D s s' \<Longrightarrow> tx_counters s \<Longrightarrow> tx_counters s'"
  by (auto simp: cleared_def tx_counters_def restrict_map_def split: if_splits)

lemma tx_baseD:
  assumes "tx_base s" and "tx_blocks s a = Some t"
  obtains m msg con where "tr_message t = Some m" and "message_of s a = Some m" and "m \<in> tx_owned s" and "tx_messages s m = Some msg"
    and "confirmable msg = Some con" and "oc_endpoint_compare (msg_endpoint msg) (msg_endpoint msg) = 0"
proof -
  from assms(2) have "a \<in> dom (message_of s)" unfolding tx_base_parts(6) [OF assms(1)] by auto
  then obtain m where m: "message_of s a = Some m" by auto
  with assms(2) have t: "tr_message t = Some m" by (simp add: message_of_def)
  from m have o: "m \<in> tx_owned s" by (auto simp: tx_owned_def ran_def)
  from refs_okD [OF tx_base_parts(7) [OF assms(1)], of m] o obtain msg where msg: "tx_messages s m = Some msg" by auto
  from tx_base_parts(8) [OF assms(1) o msg] that t m o msg show ?thesis by (auto simp: sendable_message_def)
qed

subsection \<open>Releasing\<close>

lemma ran_drop:
  assumes "f a = Some m" and "\<And>b. f b = Some m \<Longrightarrow> b = a"
  shows "ran (f(a := None)) = ran f - {m}"
proof (intro set_eqI iffI)
  fix x
  assume "x \<in> ran (f(a := None))"
  then obtain b where "(f(a := None)) b = Some x" by (auto simp: ran_def)
  then have b: "b \<noteq> a" "f b = Some x" by (auto split: if_splits)
  then have "x \<noteq> m" using assms(2) by blast
  with b(2) show "x \<in> ran f - {m}" by (auto simp: ran_def)
next
  fix x
  assume "x \<in> ran f - {m}"
  then obtain b where "f b = Some x" "x \<noteq> m" by (auto simp: ran_def)
  with assms(1) show "x \<in> ran (f(a := None))" by (auto simp: ran_def intro!: exI [of _ b])
qed

lemma clear_ok:
  assumes "tx_base s" and "tx_blocks s a = Some t"
  obtains s' where "coap_clear_transaction (Some a) s = Some s'" and "cleared {a} s s'"
proof -
  from assms obtain m where m: "tr_message t = Some m" "message_of s a = Some m" "m \<in> tx_owned s"
    by (rule tx_baseD)
  note base = tx_base_parts(3,7,1,2,4,5,6,8) [OF assms(1)]
  from stop_linked [OF base(1), of "tx_now s" a] obtain ts where
    ts: "oc_etimer_stop (tx_now s) (tx_timers s) a = Some ts" "linked (dom (tx_blocks s)) ts"
      "et_timer ts = et_timer (tx_timers s)" "et_p ts = (et_p (tx_timers s))(a := None)" by blast
  from refs_disown [OF base(2) m(3)] obtain ms where
    ms: "oc_message_unref2 (Some m) (tx_messages s) = Some (m \<notin> set (tx_outbox s), ms)"
      "refs_ok (tx_owned s - {m}) (tx_outbox s) ms" "\<And>m'. m' \<noteq> m \<Longrightarrow> ms m' = tx_messages s m'" by blast
  let ?s = "tx_free a (s\<lparr>tx_timers := ts, tx_messages := ms, transactions_list := remove1 a (transactions_list s)\<rparr>)"
  have r: "coap_clear_transaction (Some a) s = Some ?s"
    using assms(2) m(1) ts(1) ms(1) by (simp add: coap_clear_transaction_def oc_message_unref_def)
  have mo: "message_of ?s = (message_of s)(a := None)" by (auto simp: message_of_def tx_free_def)
  have inj: "message_of s b = Some m \<Longrightarrow> b = a" for b using base(6) m(2) by blast
  have ow: "tx_owned ?s = tx_owned s - {m}"
    unfolding tx_owned_def mo by (rule ran_drop [of "message_of s", OF m(2) inj])
  have rem: "remove1 a (transactions_list s) = filter (\<lambda>b. b \<noteq> a) (transactions_list s)"
    unfolding distinct_remove1_removeAll [OF base(3)] removeAll_filter_not_eq by (rule filter_cong) auto
  have "tx_base ?s"
    unfolding tx_base_def
  proof (intro conjI)
    show "linked (dom (tx_blocks ?s)) (tx_timers ?s)" using linked_mono [OF ts(2)] by (simp add: tx_free_def)
    show "refs_ok (tx_owned ?s) (tx_outbox ?s) (tx_messages ?s)" unfolding ow using ms(2) by (simp add: tx_free_def)
    show "\<forall>m \<in> tx_owned ?s. \<forall>msg. tx_messages ?s m = Some msg \<longrightarrow> sendable_message msg"
      unfolding ow using ms(3) by (auto simp: tx_free_def intro: base(8))
    show "\<forall>b c m. message_of ?s b = Some m \<longrightarrow> message_of ?s c = Some m \<longrightarrow> b = c"
      unfolding mo using base(6) by auto
    show "dom (message_of ?s) = dom (tx_blocks ?s)" unfolding mo using base(7) by (simp add: tx_free_def)
  qed (use base(3,4,5) in \<open>auto simp: tx_free_def\<close>)
  then have "cleared {a} s ?s"
    unfolding cleared_def ow using ts(3,4) ms(3) rem by (auto simp: tx_free_def restrict_map_def fun_eq_iff)
  with that r show ?thesis by blast
qed

abbreviation first_of :: "node list \<Rightarrow> nodeptr" where
  "first_of as \<equiv> (case as of [] \<Rightarrow> None | a # _ \<Rightarrow> Some a)"

lemma filter_other: "a \<notin> set as \<Longrightarrow> filter (\<lambda>b. b \<noteq> a) as = as"
  by (induction as) auto

lemma tx_next_split: "a \<notin> set pre \<Longrightarrow> tx_next a (pre @ a # as) = first_of as"
  by (simp add: tx_next_def dropWhile_append split: list.split)

definition sent_to :: "'e transactions \<Rightarrow> oc_endpoint_t \<Rightarrow> node \<Rightarrow> bool" where
  "sent_to s endpoint a \<longleftrightarrow> (\<exists>m msg. message_of s a = Some m \<and> tx_messages s m = Some msg \<and>
     oc_endpoint_compare (msg_endpoint msg) endpoint = 0)"

definition endpoint_of :: "'e transactions \<Rightarrow> node \<Rightarrow> oc_endpoint_t option" where
  "endpoint_of s a = map_option msg_endpoint (Option.bind (message_of s a) (tx_messages s))"

text \<open>What a transaction sends, apart from the references to it.\<close>

definition content_of :: "'e transactions \<Rightarrow> node \<Rightarrow> (oc_endpoint_t \<times> bool option) option" where
  "content_of s a = map_option (\<lambda>msg. (msg_endpoint msg, confirmable msg)) (Option.bind (message_of s a) (tx_messages s))"

lemma endpoint_content: "endpoint_of s a = map_option fst (content_of s a)"
  by (simp add: endpoint_of_def content_of_def option.map_comp comp_def)

lemma sent_to_endpoint: "sent_to s endpoint a \<longleftrightarrow> (\<exists>e. endpoint_of s a = Some e \<and> oc_endpoint_compare e endpoint = 0)"
  by (auto simp: sent_to_def endpoint_of_def bind_eq_Some_conv)

lemma content_of_cleared:
  assumes "cleared D s s'" and "a \<notin> D"
  shows "content_of s' a = content_of s a"
proof (cases "message_of s a")
  case None
  then show ?thesis using message_of_cleared [OF assms(1)] assms(2) by (simp add: content_of_def)
next
  case (Some m)
  then have m: "message_of s' a = Some m" using message_of_cleared [OF assms(1)] assms(2) by simp
  then have "m \<in> tx_owned s'" by (auto simp: tx_owned_def ran_def)
  with assms(1) m Some show ?thesis by (simp add: content_of_def cleared_def)
qed

lemma content_of_ref:
  assumes "message_of s' = message_of s" and "tx_messages s' = (tx_messages s)(m \<mapsto> msg\<lparr>msg_ref_count := r\<rparr>)" and "tx_messages s m = Some msg"
  shows "content_of s' = content_of s"
  using assms by (auto simp: content_of_def fun_eq_iff split: bind_splits)

lemma sent_to_cleared: "cleared D s s' \<Longrightarrow> a \<notin> D \<Longrightarrow> sent_to s' endpoint a = sent_to s endpoint a"
  by (simp add: sent_to_endpoint endpoint_content content_of_cleared)

lemma free_by_endpoint_ok:
  assumes cbs: "\<And>mid code s. \<exists>k. cbs mid code s = Some (s\<lparr>tx_kernel := k\<rparr>)"
    and "tx_base s" and "transactions_list s = pre @ as"
  shows "\<exists>s'. free_by_endpoint_loop cbs endpoint code (first_of as) s = Some s' \<and>
    cleared {a \<in> set as. sent_to s endpoint a} s s'"
  using assms(2,3)
proof (induction as arbitrary: pre s)
  case Nil
  then show ?case using cleared_none by (subst free_by_endpoint_loop.simps) simp
next
  case (Cons a as)
  from tx_base_parts(1,2) [OF Cons.prems(1)] Cons.prems(2) have dist: "distinct (pre @ a # as)" "a \<in> dom (tx_blocks s)" by auto
  then obtain t where t: "tx_blocks s a = Some t" by auto
  from tx_baseD [OF Cons.prems(1) t] obtain m msg where
    m: "tr_message t = Some m" "message_of s a = Some m" "tx_messages s m = Some msg" by metis
  have nx: "tx_next a (transactions_list s) = first_of as" using dist(1) Cons.prems(2) by (simp add: tx_next_split)
  have here: "sent_to s endpoint a \<longleftrightarrow> oc_endpoint_compare (msg_endpoint msg) endpoint = 0" using m by (simp add: sent_to_def)
  show ?case
  proof (cases "sent_to s endpoint a")
    case False
    then have "{b \<in> set (a # as). sent_to s endpoint b} = {b \<in> set as. sent_to s endpoint b}" by auto
    with Cons.IH [OF Cons.prems(1), of "pre @ [a]"] Cons.prems(2) t m nx here False show ?thesis
      by (subst free_by_endpoint_loop.simps) simp
  next
    case True
    from cbs [of "tr_mid t" code s] obtain k where k: "cbs (tr_mid t) code s = Some (s\<lparr>tx_kernel := k\<rparr>)" by blast
    from clear_ok [of "s\<lparr>tx_kernel := k\<rparr>" a t] Cons.prems(1) t obtain s2 where
      s2: "coap_clear_transaction (Some a) (s\<lparr>tx_kernel := k\<rparr>) = Some s2" "cleared {a} s s2" by auto
    have "transactions_list s2 = pre @ as" using s2(2) dist(1) Cons.prems(2) by (auto simp: cleared_def filter_other)
    with Cons.IH [of s2 pre] s2(2) obtain s' where
      s': "free_by_endpoint_loop cbs endpoint code (first_of as) s2 = Some s'" "cleared {a \<in> set as. sent_to s2 endpoint a} s2 s'"
      by (auto simp: cleared_def)
    have "sent_to s2 endpoint b = sent_to s endpoint b" if "b \<in> set as" for b
      using sent_to_cleared [OF s2(2), of b] dist(1) that by auto
    then have "{a} \<union> {b \<in> set as. sent_to s2 endpoint b} = {b \<in> set (a # as). sent_to s endpoint b}" using True by auto
    with cleared_trans [OF s2(2) s'(2)] have "cleared {b \<in> set (a # as). sent_to s endpoint b} s s'" by simp
    moreover have "free_by_endpoint_loop cbs endpoint code (first_of (a # as)) s = Some s'"
      using t m True here nx k s2(1) s'(1) by (subst free_by_endpoint_loop.simps) simp
    ultimately show ?thesis by blast
  qed
qed

subsection \<open>Sending\<close>

text \<open>
  What the transactions rely on of the other modules: handlers leave the transactions alone, and closing a
  connection releases the transactions to its endpoint.
\<close>

locale transaction_modules =
  fixes env :: "'e transaction_env"
  assumes initialized: "te_main_initialized env"
    and exchange_csm: "\<exists>k. te_exchange_csm env endpoint s = Some (s\<lparr>tx_kernel := k\<rparr>)"
    and remove_observers: "\<exists>k. te_remove_observers env endpoint s = Some (s\<lparr>tx_kernel := k\<rparr>)"
    and free_client_cbs: "\<exists>k. te_free_client_cbs env mid code s = Some (s\<lparr>tx_kernel := k\<rparr>)"
    and free_blockwise: "\<exists>k. te_free_blockwise_buffers env b s = Some (s\<lparr>tx_kernel := k\<rparr>)"
    and tls_close: "tx_base s \<Longrightarrow> \<exists>s'. te_tls_close env endpoint s = Some s' \<and> cleared {a \<in> set (transactions_list s). sent_to s endpoint a} s s'"
begin

lemma send_reference_ok:
  assumes "refs_ok own (tx_outbox s) (tx_messages s)" and "m \<in> own" and "count_list (tx_outbox s) m < 254"
    and "tx_messages s m = Some msg"
  obtains k ms out r where "send_reference env m s = Some (s\<lparr>tx_kernel := k, tx_messages := ms, tx_outbox := out\<rparr>)"
    and "out = (if te_queue_full env k then tx_outbox s else tx_outbox s @ [m])" and "refs_ok own out ms"
    and "ms = (tx_messages s)(m \<mapsto> msg\<lparr>msg_ref_count := r\<rparr>)"
proof -
  from refs_okD [OF assms(1), of m] assms(2,4) have ref: "unat (msg_ref_count msg) = 1 + count_list (tx_outbox s) m" by auto
  let ?ms = "(tx_messages s)(m \<mapsto> msg\<lparr>msg_ref_count := msg_ref_count msg + 1\<rparr>)"
  from refs_add [OF assms(1-3)] assms(4) have
    ms: "oc_message_add_ref (Some m) (tx_messages s) = Some ?ms" "refs_ok own (tx_outbox s @ [m]) ?ms" by auto
  obtain k where k: "(if ep_flags (msg_endpoint msg) AND TCP \<noteq> 0 then te_exchange_csm env (msg_endpoint msg) (s\<lparr>tx_messages := ?ms\<rparr>)
      else Some (s\<lparr>tx_messages := ?ms\<rparr>)) = Some (s\<lparr>tx_messages := ?ms, tx_kernel := k\<rparr>)"
  proof (cases "ep_flags (msg_endpoint msg) AND TCP = 0")
    case True
    then show ?thesis using that [of "tx_kernel s"] by simp
  next
    case False
    then show ?thesis using exchange_csm [of "msg_endpoint msg" "s\<lparr>tx_messages := ?ms\<rparr>"] that by auto
  qed
  have send: "send_reference env m s = oc_send_message env m (s\<lparr>tx_messages := ?ms, tx_kernel := k\<rparr>)"
    using ms(1) k by (auto simp: send_reference_def coap_send_message_def split: if_splits)
  show ?thesis
  proof (cases "te_queue_full env k")
    case True
    have "oc_message_unref2 (Some m) ?ms = Some (False, tx_messages s)"
      using ref assms(3) by (intro add_unref_same assms(4)) auto
    moreover have "(tx_messages s)(m \<mapsto> msg\<lparr>msg_ref_count := msg_ref_count msg\<rparr>) = tx_messages s" using assms(4) by (simp add: fun_upd_idem)
    ultimately show ?thesis
      using that [of "tx_outbox s" "tx_messages s" k "msg_ref_count msg"] True assms(1) send by (simp add: oc_send_message_def oc_message_unref_def)
  next
    case False
    then show ?thesis using that [of "tx_outbox s @ [m]" ?ms k "msg_ref_count msg + 1"] ms(2) send by (simp add: oc_send_message_def)
  qed
qed

end

lemma tx_restart_ok:
  assumes "tx_base s" and "a \<in> dom (tx_blocks s)" and "transaction_handler_process s = Some p"
  obtains k t where "tx_restart env a (s\<lparr>tx_timers := set_timer (tx_timers s) a timer\<rparr>) = Some (s\<lparr>tx_kernel := k, tx_timers := t\<rparr>)"
    and "linked (dom (tx_blocks s)) t" and "et_timer t = (et_timer (tx_timers s))(a := timer\<lparr>t_start := tx_now s\<rparr>)"
    and "et_p t = (et_p (tx_timers s))(a := Some p)"
proof -
  let ?t = "set_timer (tx_timers s) a (timer\<lparr>t_start := tx_now s\<rparr>)"
  let ?k = "(tx_kernel s)\<lparr>k_current := Some p\<rparr>"
  let ?k2 = "(oc_process_poll ?k (Some (te_etimer_proc env)))\<lparr>k_current := k_current (tx_kernel s)\<rparr>"
  from tx_base_parts(3) [OF assms(1)] have "linked (dom (tx_blocks s)) ?t" by simp
  from add_linked [OF this assms(2), of ?k p "te_etimer_proc env" "tx_now s"] obtain t where
    t: "etimer_add_timer (te_etimer_proc env) (tx_now s) ?k ?t a = Some (oc_process_poll ?k (Some (te_etimer_proc env)), t)"
    "linked (dom (tx_blocks s)) t" "et_timer t = et_timer ?t" "et_p t = (et_p ?t)(a := Some p)"
    by auto
  have "tx_restart env a (s\<lparr>tx_timers := set_timer (tx_timers s) a timer\<rparr>) = Some (s\<lparr>tx_kernel := ?k2, tx_timers := t\<rparr>)"
    using t(1) assms(3) by (simp add: tx_restart_def oc_etimer_restart_def oc_timer_restart_def)
  with that t(2-4) show ?thesis by simp
qed

lemma sendable_ref [simp]: "sendable_message (msg\<lparr>msg_ref_count := r\<rparr>) = sendable_message msg"
  by (simp add: sendable_message_def)

lemma owned_by: "tx_blocks s a = Some t \<Longrightarrow> tr_message t = Some m \<Longrightarrow> m \<in> tx_owned s"
  by (auto simp: tx_owned_def ran_def message_of_def intro!: exI [of _ a])

lemma tx_base_sent:
  assumes "tx_base s" and "linked (dom (tx_blocks s)) ts" and "refs_ok (tx_owned s) out ms"
    and "ms = (tx_messages s)(m \<mapsto> msg\<lparr>msg_ref_count := r\<rparr>)" and "tx_messages s m = Some msg"
  shows "tx_base (s\<lparr>tx_kernel := k, tx_timers := ts, tx_messages := ms, tx_outbox := out\<rparr>)"
proof -
  let ?s = "s\<lparr>tx_kernel := k, tx_timers := ts, tx_messages := ms, tx_outbox := out\<rparr>"
  note base = tx_base_parts [OF assms(1)]
  have eq: "message_of ?s = message_of s" "tx_owned ?s = tx_owned s" by (simp_all add: message_of_cong [of ?s s] tx_owned_cong [of ?s s])
  have "\<forall>m \<in> tx_owned s. \<forall>msg. ms m = Some msg \<longrightarrow> sendable_message msg"
    using base(8) assms(4,5) by (auto split: if_splits)
  then show ?thesis unfolding tx_base_def eq using base(1-7) assms(2,3) by simp
qed

text \<open>Both transactions go over the same secured connection.\<close>

definition same_connection :: "'e transactions \<Rightarrow> node \<Rightarrow> node \<Rightarrow> bool" where
  "same_connection s a b \<longleftrightarrow> (\<exists>e f. endpoint_of s a = Some e \<and> endpoint_of s b = Some f \<and>
     ep_flags e AND SECURED \<noteq> 0 \<and> oc_endpoint_compare f e = 0)"

text \<open>The transactions that are released when \<open>a\<close> times out.\<close>

definition timeout_set :: "'e transactions \<Rightarrow> node \<Rightarrow> node set" where
  "timeout_set s a = (case endpoint_of s a of
     Some endpoint \<Rightarrow> if ep_flags endpoint AND SECURED \<noteq> 0 then {b \<in> set (transactions_list s). sent_to s endpoint b} else {a}
   | None \<Rightarrow> {})"

context transaction_modules
begin

lemma send_confirmable:
  assumes "tx_base s" and "tx_blocks s a = Some t" and "tr_message t = Some m" and "tx_messages s m = Some msg"
    and "confirmable msg = Some True" and "tr_retrans_counter t < COAP_MAX_RETRANSMIT" and "count_list (tx_outbox s) m < 254"
    and "transaction_handler_process s = Some p"
  obtains k ts ms out r where
    "coap_send_transaction env random a s = Some (s\<lparr>tx_kernel := k, tx_timers := ts, tx_messages := ms, tx_outbox := out\<rparr>)"
    and "tx_base (s\<lparr>tx_kernel := k, tx_timers := ts, tx_messages := ms, tx_outbox := out\<rparr>)"
    and "et_timer ts = (et_timer (tx_timers s))(a := \<lparr>t_start = tx_now s,
       t_interval = retransmission_interval env random (tr_retrans_counter t) (t_interval (et_timer (tx_timers s) a))\<rparr>)"
    and "et_p ts = (et_p (tx_timers s))(a := Some p)"
    and "out = (if te_queue_full env k then tx_outbox s else tx_outbox s @ [m])"
    and "ms = (tx_messages s)(m \<mapsto> msg\<lparr>msg_ref_count := r\<rparr>)"
proof -
  let ?timer = "(et_timer (tx_timers s) a)\<lparr>t_interval := retransmission_interval env random (tr_retrans_counter t) (t_interval (et_timer (tx_timers s) a))\<rparr>"
  have dom: "a \<in> dom (tx_blocks s)" using assms(2) by auto
  obtain k1 ts where ts: "tx_restart env a (s\<lparr>tx_timers := set_timer (tx_timers s) a ?timer\<rparr>) = Some (s\<lparr>tx_kernel := k1, tx_timers := ts\<rparr>)"
    "linked (dom (tx_blocks s)) ts" "et_timer ts = (et_timer (tx_timers s))(a := ?timer\<lparr>t_start := tx_now s\<rparr>)"
    "et_p ts = (et_p (tx_timers s))(a := Some p)"
    by (rule tx_restart_ok [OF assms(1) dom assms(8)])
  let ?s1 = "s\<lparr>tx_kernel := k1, tx_timers := ts\<rparr>"
  note own = owned_by [OF assms(2,3)]
  have prem: "refs_ok (tx_owned s) (tx_outbox ?s1) (tx_messages ?s1)" "count_list (tx_outbox ?s1) m < 254" "tx_messages ?s1 m = Some msg"
    using tx_base_parts(7) [OF assms(1)] assms(4,7) by simp_all
  obtain k ms out r where send: "send_reference env m ?s1 = Some (?s1\<lparr>tx_kernel := k, tx_messages := ms, tx_outbox := out\<rparr>)"
    "out = (if te_queue_full env k then tx_outbox ?s1 else tx_outbox ?s1 @ [m])" "refs_ok (tx_owned s) out ms"
    "ms = (tx_messages ?s1)(m \<mapsto> msg\<lparr>msg_ref_count := r\<rparr>)"
    by (rule send_reference_ok [OF prem(1) own prem(2,3)])
  have st: "?s1\<lparr>tx_kernel := k, tx_messages := ms, tx_outbox := out\<rparr> = s\<lparr>tx_kernel := k, tx_timers := ts, tx_messages := ms, tx_outbox := out\<rparr>"
    by simp
  have "coap_send_transaction env random a s = Some (s\<lparr>tx_kernel := k, tx_timers := ts, tx_messages := ms, tx_outbox := out\<rparr>)"
    using assms(2-6) initialized ts(1) send(1) by (simp add: coap_send_transaction_def Let_def)
  moreover have "tx_base (s\<lparr>tx_kernel := k, tx_timers := ts, tx_messages := ms, tx_outbox := out\<rparr>)"
    by (rule tx_base_sent [OF assms(1) ts(2) send(3) _ assms(4)]) (use send(4) in simp)
  moreover have "et_timer ts = (et_timer (tx_timers s))(a := \<lparr>t_start = tx_now s,
       t_interval = retransmission_interval env random (tr_retrans_counter t) (t_interval (et_timer (tx_timers s) a))\<rparr>)"
    unfolding ts(3) by (cases "et_timer (tx_timers s) a") simp
  moreover have "out = (if te_queue_full env k then tx_outbox s else tx_outbox s @ [m])" "ms = (tx_messages s)(m \<mapsto> msg\<lparr>msg_ref_count := r\<rparr>)"
    using send(2,4) by simp_all
  ultimately show ?thesis using that ts(4) by blast
qed

lemma send_other:
  assumes "tx_base s" and "tx_blocks s a = Some t" and "tr_message t = Some m" and "tx_messages s m = Some msg"
    and "confirmable msg = Some False" and "count_list (tx_outbox s) m < 254"
  obtains k ms out r s' where "coap_send_transaction env random a s = Some s'"
    and "cleared {a} (s\<lparr>tx_kernel := k, tx_messages := ms, tx_outbox := out\<rparr>) s'"
    and "out = (if te_queue_full env k then tx_outbox s else tx_outbox s @ [m])"
    and "ms = (tx_messages s)(m \<mapsto> msg\<lparr>msg_ref_count := r\<rparr>)"
proof -
  note own = owned_by [OF assms(2,3)]
  obtain k ms out r where send: "send_reference env m s = Some (s\<lparr>tx_kernel := k, tx_messages := ms, tx_outbox := out\<rparr>)"
    "out = (if te_queue_full env k then tx_outbox s else tx_outbox s @ [m])" "refs_ok (tx_owned s) out ms"
    "ms = (tx_messages s)(m \<mapsto> msg\<lparr>msg_ref_count := r\<rparr>)"
    by (rule send_reference_ok [OF tx_base_parts(7) [OF assms(1)] own assms(6,4)])
  let ?s1 = "s\<lparr>tx_kernel := k, tx_messages := ms, tx_outbox := out\<rparr>"
  have "s\<lparr>tx_kernel := k, tx_timers := tx_timers s, tx_messages := ms, tx_outbox := out\<rparr> = ?s1" by simp
  with tx_base_sent [OF assms(1) tx_base_parts(3) [OF assms(1)] send(3,4) assms(4), of k] have "tx_base ?s1" by simp
  with clear_ok [of ?s1 a t] assms(2) obtain s' where s': "coap_clear_transaction (Some a) ?s1 = Some s'" "cleared {a} ?s1 s'" by auto
  have "coap_send_transaction env random a s = Some s'"
    using assms(2-5) initialized send(1) s'(1) by (simp add: coap_send_transaction_def)
  with that s'(2) send(2,4) show ?thesis by blast
qed

lemma send_timeout:
  assumes "tx_base s" and "tx_blocks s a = Some t" and "tr_message t = Some m" and "tx_messages s m = Some msg"
    and "confirmable msg = Some True" and "\<not> tr_retrans_counter t < COAP_MAX_RETRANSMIT"
  obtains s' where "coap_send_transaction env random a s = Some s'" and "cleared (timeout_set s a) s s'"
proof -
  from remove_observers [of "msg_endpoint msg" s] obtain k1 where k1: "te_remove_observers env (msg_endpoint msg) s = Some (s\<lparr>tx_kernel := k1\<rparr>)" by blast
  from free_client_cbs [of "tr_mid t" OC_TRANSACTION_TIMEOUT "s\<lparr>tx_kernel := k1\<rparr>"] obtain k2 where
    k2: "te_free_client_cbs env (tr_mid t) OC_TRANSACTION_TIMEOUT (s\<lparr>tx_kernel := k1\<rparr>) = Some (s\<lparr>tx_kernel := k2\<rparr>)" by auto
  from free_blockwise [of False "s\<lparr>tx_kernel := k2\<rparr>"] obtain k3 where
    k3: "te_free_blockwise_buffers env False (s\<lparr>tx_kernel := k2\<rparr>) = Some (s\<lparr>tx_kernel := k3\<rparr>)" by auto
  let ?s = "s\<lparr>tx_kernel := k3\<rparr>"
  have ep: "endpoint_of s a = Some (msg_endpoint msg)" using assms(2-4) by (simp add: endpoint_of_def message_of_def)
  have send: "coap_send_transaction env random a s =
      (if ep_flags (msg_endpoint msg) AND SECURED \<noteq> 0 then te_tls_close env (msg_endpoint msg) ?s else coap_clear_transaction (Some a) ?s)"
    using assms(2-6) initialized k1 k2 k3 by (simp add: coap_send_transaction_def transaction_timed_out_def)
  have st: "sent_to ?s = sent_to s" by (simp add: sent_to_def fun_eq_iff)
  show ?thesis
  proof (cases "ep_flags (msg_endpoint msg) AND SECURED = 0")
    case True
    from clear_ok [of ?s a t] assms(1,2) obtain s' where "coap_clear_transaction (Some a) ?s = Some s'" "cleared {a} s s'" by auto
    with that True send ep show ?thesis by (simp add: timeout_set_def)
  next
    case False
    from tls_close [of ?s "msg_endpoint msg"] assms(1) st obtain s' where
      "te_tls_close env (msg_endpoint msg) ?s = Some s'" "cleared {b \<in> set (transactions_list s). sent_to s (msg_endpoint msg) b} s s'" by auto
    with that False send ep show ?thesis by (simp add: timeout_set_def)
  qed
qed

end

subsection \<open>Checking the timers\<close>

definition expired_tx :: "'e transactions \<Rightarrow> node set" where
  "expired_tx s = {a \<in> set (transactions_list s). oc_etimer_expired (tx_timers s) a}"

text \<open>The transaction with the incremented counter, as the loop passes it to \<open>coap_send_transaction\<close>.\<close>

abbreviation bump :: "node \<Rightarrow> coap_transaction_t \<Rightarrow> 'e transactions \<Rightarrow> 'e transactions" where
  "bump a t s \<equiv> s\<lparr>tx_blocks := (tx_blocks s)(a \<mapsto> t\<lparr>tr_retrans_counter := tr_retrans_counter t + 1\<rparr>)\<rparr>"

definition untouched :: "node \<Rightarrow> 'e transactions \<Rightarrow> 'e transactions \<Rightarrow> bool" where
  "untouched b s s' \<longleftrightarrow> tx_blocks s' b = tx_blocks s b \<and> et_timer (tx_timers s') b = et_timer (tx_timers s) b \<and>
     et_p (tx_timers s') b = et_p (tx_timers s) b"

definition retransmitted :: "node \<Rightarrow> 'e transactions \<Rightarrow> 'e transactions \<Rightarrow> bool" where
  "retransmitted b s s' \<longleftrightarrow> (\<exists>t. tx_blocks s b = Some t \<and> unat (tr_retrans_counter t) < 3 \<and>
     tx_blocks s' b = Some (t\<lparr>tr_retrans_counter := tr_retrans_counter t + 1\<rparr>) \<and>
     et_timer (tx_timers s') b = \<lparr>t_start = tx_now s, t_interval = push_bit 1 (t_interval (et_timer (tx_timers s) b))\<rparr> \<and>
     et_p (tx_timers s') b = transaction_handler_process s)"

text \<open>The message needs no answer or has been sent as often as it may be.\<close>

definition finished :: "'e transactions \<Rightarrow> node \<Rightarrow> bool" where
  "finished s a \<longleftrightarrow> (\<exists>t e con. tx_blocks s a = Some t \<and> content_of s a = Some (e, Some con) \<and>
     (\<not> con \<or> unat (tr_retrans_counter t) = 3))"

text \<open>The result of processing the expired transaction \<open>a\<close>.\<close>

definition processed :: "'e transaction_env \<Rightarrow> node \<Rightarrow> 'e transactions \<Rightarrow> 'e transactions \<Rightarrow> bool" where
  "processed env a s s' \<longleftrightarrow> tx_base s' \<and> tx_counters s' \<and> tx_now s' = tx_now s \<and>
     transaction_handler_process s' = transaction_handler_process s \<and>
     (\<exists>D. (D = {} \<or> a \<in> D) \<and> transactions_list s' = filter (\<lambda>b. b \<notin> D) (transactions_list s) \<and> (D = {} \<longrightarrow> retransmitted a s s') \<and>
       (\<forall>b \<in> D. b = a \<or> same_connection s a b) \<and> (D = {} \<or> finished s a) \<and>
       (D = {} \<longrightarrow> (\<forall>k. \<not> te_queue_full env k) \<longrightarrow> (\<forall>m. message_of s a = Some m \<longrightarrow> tx_outbox s' = tx_outbox s @ [m]))) \<and>
     (\<exists>x. tx_outbox s' = tx_outbox s @ x \<and> (\<forall>m \<in> set x. message_of s a = Some m)) \<and>
     (\<forall>b \<in> set (transactions_list s'). content_of s' b = content_of s b) \<and>
     (\<forall>b \<in> set (transactions_list s'). b \<noteq> a \<longrightarrow> untouched b s s')"

lemma bump_base:
  assumes "tx_base s" and "tx_blocks s a = Some t"
  shows "tx_base (bump a t s)" and "message_of (bump a t s) = message_of s"
proof -
  show mo: "message_of (bump a t s) = message_of s" using assms(2) by (auto simp: message_of_def fun_eq_iff)
  then have ow: "tx_owned (bump a t s) = tx_owned s" by (simp add: tx_owned_def)
  have dom: "dom (tx_blocks (bump a t s)) = dom (tx_blocks s)" using assms(2) by auto
  show "tx_base (bump a t s)" unfolding tx_base_def mo ow dom using tx_base_parts [OF assms(1)] by simp
qed

lemma counters_others:
  assumes "tx_base s" and "tx_counters s" and "message_of s a = Some m" and "tx_outbox s' = tx_outbox s \<or> tx_outbox s' = tx_outbox s @ [m]"
    and "\<And>b t. b \<noteq> a \<Longrightarrow> tx_blocks s' b = Some t \<Longrightarrow> tx_blocks s b = Some t"
    and "\<And>t. tx_blocks s' a = Some t \<Longrightarrow> unat (tr_retrans_counter t) \<le> 3 \<and> count_list (tx_outbox s') m \<le> unat (tr_retrans_counter t) + 1 \<and> tr_message t = Some m"
  shows "tx_counters s'"
  unfolding tx_counters_def
proof (intro allI impI)
  fix b t n
  assume b: "tx_blocks s' b = Some t" "tr_message t = Some n"
  show "unat (tr_retrans_counter t) \<le> 3 \<and> count_list (tx_outbox s') n \<le> unat (tr_retrans_counter t) + 1"
  proof (cases "b = a")
    case True
    with assms(6) b show ?thesis by auto
  next
    case False
    from assms(5) [OF this b(1)] b(2) have s: "tx_blocks s b = Some t" "message_of s b = Some n" by (simp_all add: message_of_def)
    with tx_base_parts(5) [OF assms(1) s(2)] assms(3) False have "n \<noteq> m" by blast
    with assms(4) have "count_list (tx_outbox s') n = count_list (tx_outbox s) n" by auto
    with assms(2) s(1) b(2) show ?thesis unfolding tx_counters_def by simp
  qed
qed

lemma counter_inc: "unat (c :: u8) \<le> 3 \<Longrightarrow> unat (c + 1) = unat c + 1 \<and> c + 1 \<noteq> 0"
  using unat_inc [of c] by auto

lemma counter_less_4: "(c :: u8) < 4 \<longleftrightarrow> unat c < 4"
  by (simp add: word_less_nat_alt)

lemma processed_cleared:
  assumes "tx_base s" and "tx_counters s" and "message_of s a = Some m" and "cleared D s1 s'" and "a \<in> D"
    and "transactions_list s1 = transactions_list s" and "tx_timers s1 = tx_timers s" and "tx_now s1 = tx_now s"
    and "transaction_handler_process s1 = transaction_handler_process s" and "\<And>b. b \<noteq> a \<Longrightarrow> tx_blocks s1 b = tx_blocks s b"
    and "tx_outbox s1 = tx_outbox s \<or> tx_outbox s1 = tx_outbox s @ [m]"
    and "content_of s1 = content_of s" and "\<And>b. b \<in> D \<Longrightarrow> b = a \<or> same_connection s a b" and "finished s a"
  shows "processed env a s s'"
proof -
  from assms(4) have c: "transactions_list s' = filter (\<lambda>b. b \<notin> D) (transactions_list s)" "tx_blocks s' = tx_blocks s1 |` (- D)"
    "tx_outbox s' = tx_outbox s1" "tx_now s' = tx_now s" "transaction_handler_process s' = transaction_handler_process s"
    "et_timer (tx_timers s') = et_timer (tx_timers s)" "\<And>b. b \<notin> D \<Longrightarrow> et_p (tx_timers s') b = et_p (tx_timers s) b" "tx_base s'"
    using assms(6-9) by (simp_all add: cleared_def)
  have blocks: "tx_blocks s' b = tx_blocks s b" if "b \<notin> D" for b
    using that assms(5,10) c(2) by (cases "b = a") auto
  have "tx_counters s'"
  proof (rule counters_others [OF assms(1-3)])
    show "tx_outbox s' = tx_outbox s \<or> tx_outbox s' = tx_outbox s @ [m]" using assms(11) c(3) by simp
    show "tx_blocks s b = Some t" if "b \<noteq> a" "tx_blocks s' b = Some t" for b t
      using that blocks [of b] c(2) by (cases "b \<in> D") auto
    show "unat (tr_retrans_counter t) \<le> 3 \<and> count_list (tx_outbox s') m \<le> unat (tr_retrans_counter t) + 1 \<and> tr_message t = Some m"
      if "tx_blocks s' a = Some t" for t using that c(2) assms(5) by simp
  qed
  moreover have "untouched b s s'" if "b \<in> set (transactions_list s')" for b
    using that blocks [of b] c(1,6,7) by (simp add: untouched_def)
  moreover have "content_of s' b = content_of s b" if "b \<in> set (transactions_list s')" for b
    using content_of_cleared [OF assms(4), of b] that c(1) assms(12) by simp
  moreover have "\<exists>x. tx_outbox s' = tx_outbox s @ x \<and> (\<forall>m \<in> set x. message_of s a = Some m)" using assms(3,11) c(3) by auto
  ultimately show ?thesis
    unfolding processed_def using c(1,4,5,8) assms(5,13,14) by (intro conjI exI [of _ D]) auto
qed

context transaction_modules
begin

lemma process_expired_tx:
  assumes "tx_base s" and "tx_counters s" and "tx_blocks s a = Some t"
  obtains s' where "coap_send_transaction env random a (bump a t s) = Some s'" and "processed env a s s'"
proof -
  let ?b = "bump a t s" and ?t = "t\<lparr>tr_retrans_counter := tr_retrans_counter t + 1\<rparr>"
  from tx_baseD [OF assms(1,3)] obtain m msg con where
    m: "tr_message t = Some m" "message_of s a = Some m" "tx_messages s m = Some msg" "confirmable msg = Some con"
      "oc_endpoint_compare (msg_endpoint msg) (msg_endpoint msg) = 0" by metis
  from assms(2,3) m(1) have cnt: "unat (tr_retrans_counter t) \<le> 3" "count_list (tx_outbox s) m \<le> unat (tr_retrans_counter t) + 1"
    unfolding tx_counters_def by blast+
  note base = bump_base [OF assms(1,3)] and inc = counter_inc [OF cnt(1)]
  have facts: "tx_blocks ?b a = Some ?t" "tr_message ?t = Some m" "tx_messages ?b m = Some msg" "count_list (tx_outbox ?b) m < 254"
    using m cnt by simp_all
  have content: "content_of s a = Some (msg_endpoint msg, confirmable msg)" using m by (simp add: content_of_def)
  from tx_base_parts(4) [OF assms(1)] obtain p where p: "transaction_handler_process s = Some p" by auto
  consider (other) "\<not> con" | (again) "con" "tr_retrans_counter ?t < COAP_MAX_RETRANSMIT" | (late) "con" "\<not> tr_retrans_counter ?t < COAP_MAX_RETRANSMIT"
    by blast
  then show ?thesis
  proof cases
    case other
    with m(4) have non: "confirmable msg = Some False" by simp
    obtain k ms out r s' where s': "coap_send_transaction env random a ?b = Some s'"
      "cleared {a} (?b\<lparr>tx_kernel := k, tx_messages := ms, tx_outbox := out\<rparr>) s'"
      "out = (if te_queue_full env k then tx_outbox ?b else tx_outbox ?b @ [m])" "ms = (tx_messages ?b)(m \<mapsto> msg\<lparr>msg_ref_count := r\<rparr>)"
      by (rule send_other [OF base(1) facts(1-3) non facts(4)])
    have "message_of (?b\<lparr>tx_kernel := k, tx_messages := ms, tx_outbox := out\<rparr>) = message_of ?b" by (rule message_of_cong) simp
    then have ep: "content_of (?b\<lparr>tx_kernel := k, tx_messages := ms, tx_outbox := out\<rparr>) = content_of s"
      by (intro content_of_ref [where m = m and msg = msg and r = r]) (use s'(4) m(3) base(2) in simp_all)
    have "processed env a s s'" by (rule processed_cleared [OF assms(1,2) m(2) s'(2)]) (use s'(3) ep non assms(3) content in \<open>auto simp: finished_def\<close>)
    with that s'(1) show ?thesis by blast
  next
    case late
    with m(4) have "confirmable msg = Some True" by simp
    from send_timeout [OF base(1) facts(1-3) this late(2)] obtain s' where
      s': "coap_send_transaction env random a ?b = Some s'" "cleared (timeout_set ?b a) ?b s'" by blast
    have "a \<in> set (transactions_list s)" using assms(3) tx_base_parts(2) [OF assms(1)] by auto
    then have "a \<in> timeout_set ?b a"
      using m base(2) by (simp add: timeout_set_def endpoint_of_def sent_to_def)
    moreover have ep: "content_of ?b = content_of s" using base(2) by (simp add: content_of_def fun_eq_iff)
    moreover have "finished s a" using late cnt(1) inc assms(3) content m(4) by (auto simp: finished_def counter_less_4)
    moreover have "b = a \<or> same_connection s a b" if "b \<in> timeout_set ?b a" for b
      using that content ep by (auto simp: timeout_set_def endpoint_content sent_to_endpoint same_connection_def split: if_splits)
    ultimately have "processed env a s s'" by (intro processed_cleared [OF assms(1,2) m(2) s'(2)]) auto
    with that s'(1) show ?thesis by blast
  next
    case again
    with m(4) have con: "confirmable msg = Some True" by simp
    have p': "transaction_handler_process ?b = Some p" using p by simp
    obtain k ts ms out r where sent:
      "coap_send_transaction env random a ?b = Some (?b\<lparr>tx_kernel := k, tx_timers := ts, tx_messages := ms, tx_outbox := out\<rparr>)"
      "tx_base (?b\<lparr>tx_kernel := k, tx_timers := ts, tx_messages := ms, tx_outbox := out\<rparr>)"
      "et_timer ts = (et_timer (tx_timers ?b))(a := \<lparr>t_start = tx_now ?b,
        t_interval = retransmission_interval env random (tr_retrans_counter ?t) (t_interval (et_timer (tx_timers ?b) a))\<rparr>)"
      "et_p ts = (et_p (tx_timers ?b))(a := Some p)"
      "out = (if te_queue_full env k then tx_outbox ?b else tx_outbox ?b @ [m])" "ms = (tx_messages ?b)(m \<mapsto> msg\<lparr>msg_ref_count := r\<rparr>)"
      by (rule send_confirmable [OF base(1) facts(1-3) con again(2) facts(4) p'])
    let ?s = "?b\<lparr>tx_kernel := k, tx_timers := ts, tx_messages := ms, tx_outbox := out\<rparr>"
    have c: "tx_counters ?s"
      by (rule counters_others [OF assms(1,2) m(2)]) (use sent(5) m(1) cnt(2) inc again(2) in \<open>auto simp: counter_less_4\<close>)
    have "retransmitted a s ?s"
      using assms(3) sent(3,4) inc again(2) p by (simp add: retransmitted_def retransmission_interval_def counter_less_4)
    moreover have "message_of ?s = message_of ?b" by (rule message_of_cong) simp
    then have "content_of ?s = content_of s"
      by (intro content_of_ref [where m = m and msg = msg and r = r]) (use sent(6) m(3) base(2) in simp_all)
    ultimately have "processed env a s ?s"
      unfolding processed_def using sent(2,3,4,5) c m(2) by (intro conjI exI [of _ "{}"]) (auto simp: untouched_def)
    with that sent(1) show ?thesis by blast
  qed
qed

end

text \<open>
  The result of checking all timers: none is expired any more, the transactions that remain were sent again
  when they were expired and are untouched otherwise, and one that is gone was expired or shares the secured
  connection of one that was. With a queue that is never full, sending again posts the message once.
\<close>

definition checked :: "'e transaction_env \<Rightarrow> 'e transactions \<Rightarrow> 'e transactions \<Rightarrow> bool" where
  "checked env s s' \<longleftrightarrow> tx_base s' \<and> tx_counters s' \<and> tx_now s' = tx_now s \<and> transaction_handler_process s' = transaction_handler_process s \<and>
     expired_tx s' = {} \<and> set (transactions_list s') \<subseteq> set (transactions_list s) \<and>
     (\<forall>b \<in> set (transactions_list s'). content_of s' b = content_of s b) \<and>
     (\<forall>b \<in> set (transactions_list s'). if b \<in> expired_tx s then retransmitted b s s' else untouched b s s') \<and>
     (\<forall>b \<in> set (transactions_list s) - set (transactions_list s'). \<exists>a \<in> expired_tx s. finished s a \<and> (b = a \<or> same_connection s a b)) \<and>
     ((\<forall>k. \<not> te_queue_full env k) \<longrightarrow> (\<forall>b \<in> set (transactions_list s'). \<forall>m. message_of s b = Some m \<longrightarrow>
       count_list (tx_outbox s') m = count_list (tx_outbox s) m + of_bool (b \<in> expired_tx s)))"

lemma retransmitted_armed: "retransmitted b s s' \<Longrightarrow> tx_base s \<Longrightarrow> \<not> oc_etimer_expired (tx_timers s') b"
  using tx_base_parts(4) by (auto simp: retransmitted_def oc_etimer_expired_def)

lemma processed_expired:
  assumes "processed env a s s'" and "tx_base s"
  shows "expired_tx s' = expired_tx s \<inter> set (transactions_list s') - {a}"
proof -
  from assms(1) obtain D where D: "D = {} \<or> a \<in> D" "transactions_list s' = filter (\<lambda>b. b \<notin> D) (transactions_list s)"
    "D = {} \<longrightarrow> retransmitted a s s'" "\<forall>b \<in> set (transactions_list s'). b \<noteq> a \<longrightarrow> untouched b s s'"
    by (auto simp: processed_def)
  have "a \<notin> expired_tx s'" using D(1-3) retransmitted_armed [OF _ assms(2), of a s'] by (auto simp: expired_tx_def)
  with D(2,4) show ?thesis by (auto simp: expired_tx_def untouched_def oc_etimer_expired_def)
qed

lemma checked_step:
  assumes "processed env a s s1" and "tx_base s" and "a \<in> expired_tx s" and "checked env s1 s'"
  shows "checked env s s'"
proof -
  from assms(1) obtain D where D: "D = {} \<or> a \<in> D" "transactions_list s1 = filter (\<lambda>b. b \<notin> D) (transactions_list s)"
    "D = {} \<longrightarrow> retransmitted a s s1" "\<forall>b \<in> D. b = a \<or> same_connection s a b"
    "\<forall>b \<in> set (transactions_list s1). content_of s1 b = content_of s b"
    "\<forall>b \<in> set (transactions_list s1). b \<noteq> a \<longrightarrow> untouched b s s1"
    "tx_now s1 = tx_now s" "transaction_handler_process s1 = transaction_handler_process s"
    "D = {} \<longrightarrow> (\<forall>k. \<not> te_queue_full env k) \<longrightarrow> (\<forall>m. message_of s a = Some m \<longrightarrow> tx_outbox s1 = tx_outbox s @ [m])"
    "D = {} \<or> finished s a"
    unfolding processed_def by blast
  note ex = processed_expired [OF assms(1,2)]
  from assms(4) have sub: "set (transactions_list s') \<subseteq> set (transactions_list s1)" by (simp add: checked_def)
  have each: "if b \<in> expired_tx s then retransmitted b s s' else untouched b s s'" if "b \<in> set (transactions_list s')" for b
  proof (cases "b = a")
    case True
    with that sub D(1,2) have "D = {}" by auto
    with D(3) True have "retransmitted b s s1" by simp
    moreover have "untouched b s1 s'" using assms(4) that True ex by (auto simp: checked_def)
    ultimately show ?thesis using assms(3) True by (simp add: retransmitted_def untouched_def)
  next
    case False
    with that sub D(6) have "untouched b s s1" by auto
    moreover have "if b \<in> expired_tx s then retransmitted b s1 s' else untouched b s1 s'"
      using assms(4) that False ex sub by (auto simp: checked_def)
    ultimately show ?thesis using D(7,8) by (simp add: retransmitted_def untouched_def split: if_splits)
  qed
  have gone: "\<exists>c \<in> expired_tx s. finished s c \<and> (b = c \<or> same_connection s c b)" if "b \<in> set (transactions_list s)" "b \<notin> set (transactions_list s')" for b
  proof (cases "b \<in> D")
    case True
    with D(4,10) assms(3) show ?thesis by blast
  next
    case False
    with that D(2) have b: "b \<in> set (transactions_list s1)" by simp
    with assms(4) that obtain c where c: "c \<in> expired_tx s1" "finished s1 c" "b = c \<or> same_connection s1 c b" unfolding checked_def by blast
    with ex have e: "c \<in> expired_tx s" "c \<in> set (transactions_list s1)" "c \<noteq> a" by auto
    with D(6) have "tx_blocks s1 c = tx_blocks s c" by (simp add: untouched_def)
    with c(2) e(2) D(5) have "finished s c" by (simp add: finished_def)
    moreover have "b = c \<or> same_connection s c b" using c(3) b e(2) D(5) by (simp add: same_connection_def endpoint_content)
    ultimately show ?thesis using e(1) by blast
  qed
  have posts: "count_list (tx_outbox s') m = count_list (tx_outbox s) m + of_bool (b \<in> expired_tx s)"
    if "\<forall>k. \<not> te_queue_full env k" "b \<in> set (transactions_list s')" "message_of s b = Some m" for b m
  proof -
    from assms(1) obtain x where x: "tx_outbox s1 = tx_outbox s @ x" "\<forall>m \<in> set x. message_of s a = Some m"
      by (auto simp: processed_def)
    have s1: "count_list (tx_outbox s') n = count_list (tx_outbox s1) n + of_bool (b \<in> expired_tx s1)" if "message_of s1 b = Some n" for n
      using assms(4) that \<open>\<forall>k. \<not> te_queue_full env k\<close> \<open>b \<in> set (transactions_list s')\<close> unfolding checked_def by blast
    show ?thesis
    proof (cases "b = a")
      case True
      with that(2) sub D(1,2) have e: "D = {}" by auto
      with D(9) that True have "tx_outbox s1 = tx_outbox s @ [m]" by simp
      moreover from e D(3) that(3) True have "message_of s1 b = Some m" by (auto simp: retransmitted_def message_of_def)
      ultimately show ?thesis using s1 True ex assms(3) by auto
    next
      case False
      with that(2) sub D(6) have "untouched b s s1" by auto
      then have "message_of s1 b = Some m" using that(3) by (simp add: untouched_def message_of_def)
      moreover have "m \<notin> set x" using x(2) False that(3) tx_base_parts(5) [OF assms(2)] by blast
      moreover have "b \<in> expired_tx s1 \<longleftrightarrow> b \<in> expired_tx s" using ex False that(2) sub by auto
      ultimately show ?thesis using s1 x(1) by (simp add: count_list_0_iff)
    qed
  qed
  show ?thesis
    unfolding checked_def
  proof (intro conjI ballI impI allI)
    show "if b \<in> expired_tx s then retransmitted b s s' else untouched b s s'" if "b \<in> set (transactions_list s')" for b
      by (rule each [OF that])
    show "content_of s' b = content_of s b" if "b \<in> set (transactions_list s')" for b
      using that sub D(5) assms(4) by (auto simp: checked_def)
    show "\<exists>c \<in> expired_tx s. finished s c \<and> (b = c \<or> same_connection s c b)" if "b \<in> set (transactions_list s) - set (transactions_list s')" for b
      using gone that by blast
    show "count_list (tx_outbox s') m = count_list (tx_outbox s) m + of_bool (b \<in> expired_tx s)"
      if "\<forall>k. \<not> te_queue_full env k" "b \<in> set (transactions_list s')" "message_of s b = Some m" for b m by (rule posts [OF that])
  qed (use assms(4) sub D(2,7,8) in \<open>auto simp: checked_def\<close>)
qed

lemma checked_refl:
  assumes "tx_base s" and "tx_counters s" and "expired_tx s = {}"
  shows "checked env s s"
  using assms by (simp add: checked_def untouched_def)

lemma filter_one_removed:
  assumes "a \<in> D" and "length (pre @ a # as) \<le> Suc (length (filter (\<lambda>b. b \<notin> D) (pre @ a # as)))"
  shows "filter (\<lambda>b. b \<notin> D) (pre @ a # as) = pre @ as"
proof -
  have le: "length (filter (\<lambda>b. b \<notin> D) pre) \<le> length pre" "length (filter (\<lambda>b. b \<notin> D) as) \<le> length as" by simp_all
  have "length pre + length as \<le> length (filter (\<lambda>b. b \<notin> D) pre) + length (filter (\<lambda>b. b \<notin> D) as)" using assms by simp
  with le have "length (filter (\<lambda>b. b \<notin> D) pre) = length pre" "length (filter (\<lambda>b. b \<notin> D) as) = length as" by linarith+
  then have "filter (\<lambda>b. b \<notin> D) pre = pre" "filter (\<lambda>b. b \<notin> D) as = as"
    by (metis filter_id_conv length_filter_less less_irrefl)+
  with assms(1) show ?thesis by simp
qed

context transaction_modules
begin

lemma check_loop_ok:
  assumes "tx_base s" and "tx_counters s" and "transactions_list s = pre @ as" and "\<forall>b \<in> set pre. b \<notin> expired_tx s"
  shows "\<exists>s'. check_loop env random (first_of as) s = Some s' \<and> checked env s s'"
  using assms
proof (induction "card (expired_tx s)" arbitrary: s pre as rule: less_induct)
  case less
  show ?case
    using less.prems
  proof (induction as arbitrary: pre)
    case Nil
    then have "expired_tx s = {}" by (auto simp: expired_tx_def)
    with Nil show ?case using checked_refl by (subst check_loop.simps) simp
  next
    case (Cons a as)
    from tx_base_parts(1,2) [OF Cons.prems(1)] Cons.prems(3) have dist: "distinct (pre @ a # as)" "a \<in> dom (tx_blocks s)" by auto
    then obtain t where t: "tx_blocks s a = Some t" by auto
    have nx: "tx_next a (transactions_list s) = first_of as" using dist(1) Cons.prems(3) by (simp add: tx_next_split)
    show ?case
    proof (cases "oc_etimer_expired (tx_timers s) a")
      case False
      with Cons.IH [of "pre @ [a]"] Cons.prems t nx show ?thesis
        by (subst check_loop.simps) (auto simp: expired_tx_def)
    next
      case True
      with Cons.prems(3) have a: "a \<in> expired_tx s" by (simp add: expired_tx_def)
      from process_expired_tx [OF Cons.prems(1,2) t] obtain s1 where
        s1: "coap_send_transaction env random a (bump a t s) = Some s1" "processed env a s s1" by blast
      note ex = processed_expired [OF s1(2) Cons.prems(1)]
      have card: "card (expired_tx s1) < card (expired_tx s)"
        using a unfolding ex by (intro psubset_card_mono) (auto simp: expired_tx_def)
      from s1(2) obtain D where D: "D = {} \<or> a \<in> D" "transactions_list s1 = filter (\<lambda>b. b \<notin> D) (transactions_list s)"
        "tx_base s1" "tx_counters s1" by (auto simp: processed_def)
      let ?gone = "int (length (transactions_list s)) - int (length (transactions_list s1)) > 1"
      have loop: "check_loop env random (first_of (a # as)) s =
          check_loop env random (if ?gone then tx_head s1 else first_of as) s1"
        using t True nx s1(1) by (subst check_loop.simps) (simp add: Let_def)
      have "\<exists>pre' as'. transactions_list s1 = pre' @ as' \<and> (\<forall>b \<in> set pre'. b \<notin> expired_tx s1) \<and>
          (if ?gone then tx_head s1 else first_of as) = first_of as'"
      proof (cases ?gone)
        case True
        then show ?thesis by (intro exI [of _ "[]"] exI [of _ "transactions_list s1"]) simp
      next
        case False
        have "transactions_list s1 = (if D = {} then pre @ [a] else pre) @ as"
        proof (cases "D = {}")
          case True
          with D(2) Cons.prems(3) show ?thesis by simp
        next
          case ne: False
          then have "a \<in> D" using D(1) by simp
          from filter_one_removed [OF this, of pre as] False D(2) Cons.prems(3) ne show ?thesis by simp
        qed
        with False Cons.prems(4) ex show ?thesis by (intro exI [of _ "if D = {} then pre @ [a] else pre"] exI [of _ as]) auto
      qed
      then obtain pre' as' where as': "transactions_list s1 = pre' @ as'" "\<forall>b \<in> set pre'. b \<notin> expired_tx s1"
        "(if ?gone then tx_head s1 else first_of as) = first_of as'" by blast
      from less.hyps [OF card D(3,4) as'(1,2)] obtain s' where "check_loop env random (first_of as') s1 = Some s'" "checked env s1 s'" by blast
      with loop as'(3) checked_step [OF s1(2) Cons.prems(1) a] show ?thesis by auto
    qed
  qed
qed

lemma check_transactions_ok:
  assumes "tx_base s" and "tx_counters s"
  shows "\<exists>s'. coap_check_transactions env random s = Some s' \<and> checked env s s'"
  using check_loop_ok [OF assms, of "[]"] by (simp add: coap_check_transactions_def)

end

subsection \<open>The modules of the stack\<close>

text \<open>
  Handlers that act on the state of the application: the exchange of capabilities, observers, client callbacks
  and buffers of block-wise transfers. Closing a connection releases the transactions to its endpoint, as
  \<open>oc_tls_free_peer\<close> does for a peer of the endpoint.
\<close>

record 'e exchange_handlers =
  h_csm :: "oc_endpoint_t \<Rightarrow> 'e \<Rightarrow> 'e"
  h_observers :: "oc_endpoint_t \<Rightarrow> 'e \<Rightarrow> 'e"
  h_client_cbs :: "u16 \<Rightarrow> transaction_status \<Rightarrow> 'e \<Rightarrow> 'e"
  h_blockwise :: "bool \<Rightarrow> 'e \<Rightarrow> 'e"

definition on_app :: "('e \<Rightarrow> 'e) \<Rightarrow> 'e transactions \<Rightarrow> 'e transactions option" where
  "on_app f s = Some (s\<lparr>tx_kernel := (tx_kernel s)\<lparr>k_env := f (k_env (tx_kernel s))\<rparr>\<rparr>)"

definition stack_env ::
  "node \<Rightarrow> u64 \<Rightarrow> message_cfg \<Rightarrow> ('e kernel \<Rightarrow> bool) \<Rightarrow> 'e exchange_handlers \<Rightarrow> 'e transaction_env" where
  "stack_env proc second cfg full h =
     \<lparr>te_etimer_proc = proc, te_clock_second = second, te_message_cfg = cfg, te_main_initialized = True, te_queue_full = full,
      te_exchange_csm = (\<lambda>endpoint. on_app (h_csm h endpoint)),
      te_remove_observers = (\<lambda>endpoint. on_app (h_observers h endpoint)),
      te_free_client_cbs = (\<lambda>mid code. on_app (h_client_cbs h mid code)),
      te_free_blockwise_buffers = (\<lambda>b. on_app (h_blockwise h b)),
      te_tls_close = (\<lambda>endpoint. coap_free_transactions_by_endpoint (\<lambda>mid code. on_app (h_client_cbs h mid code)) endpoint OC_CONNECTION_CLOSED)\<rparr>"

lemma free_transactions_ok:
  assumes "\<And>mid code s. \<exists>k. cbs mid code s = Some (s\<lparr>tx_kernel := k\<rparr>)" and "tx_base s"
  shows "\<exists>s'. coap_free_transactions_by_endpoint cbs endpoint code s = Some s' \<and> cleared {a \<in> set (transactions_list s). sent_to s endpoint a} s s'"
  using free_by_endpoint_ok [OF assms, of "[]"] by (simp add: coap_free_transactions_by_endpoint_def)

interpretation stack: transaction_modules "stack_env proc second cfg full h" for proc second cfg full h
proof
  have app: "\<exists>k. on_app f s = Some (s\<lparr>tx_kernel := k\<rparr>)" for f :: "'a \<Rightarrow> 'a" and s by (auto simp: on_app_def)
  show "\<exists>s'. te_tls_close (stack_env proc second cfg full h) endpoint s = Some s' \<and>
      cleared {a \<in> set (transactions_list s). sent_to s endpoint a} s s'" if "tx_base s" for endpoint s
    using free_transactions_ok [OF app that] by (simp add: stack_env_def)
qed (simp_all add: stack_env_def on_app_def exI)

subsection \<open>Rounds\<close>

text \<open>The process of the event timers has run: the timers that are due have no process any more.\<close>

definition timers_polled :: "u64 \<Rightarrow> 'e transactions \<Rightarrow> 'e transactions \<Rightarrow> bool" where
  "timers_polled now s s1 \<longleftrightarrow> (\<exists>k t. s1 = s\<lparr>tx_kernel := k, tx_timers := t, tx_now := now\<rparr> \<and> linked (dom (tx_blocks s)) t \<and>
     et_timer t = et_timer (tx_timers s) \<and>
     (\<forall>a \<in> dom (tx_blocks s). et_p t a = (if timer_expired (et_timer (tx_timers s) a) now then None else et_p (tx_timers s) a)))"

lemma poll_all_polled:
  assumes "tx_base s" and "queue_wf (k_queue (tx_kernel s))"
  shows "\<exists>k t. poll_all True (Some c) self now (tx_kernel s) (tx_timers s) = Some (k, t) \<and>
    timers_polled now s (s\<lparr>tx_kernel := k, tx_timers := t, tx_now := now\<rparr>)"
proof -
  from linkedD [OF tx_base_parts(3) [OF assms(1)]] obtain ts where
    ts: "list_repr (et_list (tx_timers s)) ts" "\<forall>a \<in> dom (tx_blocks s). a \<in> set ts \<longleftrightarrow> et_p (tx_timers s) a \<noteq> None" by blast
  from poll_all_ok [OF ts(1) assms(2) refl, of c self now] obtain q t where
    t: "poll_all True (Some c) self now (tx_kernel s) (tx_timers s) = Some ((tx_kernel s)\<lparr>k_queue := q\<rparr>, t)"
      "list_repr (et_list t) (filter (\<lambda>a. \<not> timer_expired (et_timer (tx_timers s) a) now) ts)" "et_timer t = et_timer (tx_timers s)"
      "et_p t = (\<lambda>a. if a \<in> set (filter (\<lambda>a. timer_expired (et_timer (tx_timers s) a) now) ts) then None else et_p (tx_timers s) a)" by blast
  have "linked (dom (tx_blocks s)) t"
    unfolding linked_def t(4) using t(2) ts(2) by (intro exI [of _ "filter (\<lambda>a. \<not> timer_expired (et_timer (tx_timers s) a) now) ts"]) auto
  with t ts(2) have "timers_polled now s (s\<lparr>tx_kernel := (tx_kernel s)\<lparr>k_queue := q\<rparr>, tx_timers := t, tx_now := now\<rparr>)"
    unfolding timers_polled_def by (intro exI [of _ "(tx_kernel s)\<lparr>k_queue := q\<rparr>"] exI [of _ t]) auto
  with t(1) show ?thesis by blast
qed

lemma polled_keeps:
  assumes "timers_polled now s s1"
  shows "tx_blocks s1 = tx_blocks s" and "message_of s1 = message_of s" and "content_of s1 = content_of s"
    and "tx_outbox s1 = tx_outbox s" and "transactions_list s1 = transactions_list s" and "tx_now s1 = now"
    and "tx_base s \<Longrightarrow> tx_base s1" and "tx_counters s \<Longrightarrow> tx_counters s1" and "et_timer (tx_timers s1) = et_timer (tx_timers s)"
    and "transaction_handler_process s1 = transaction_handler_process s"
    and "a \<in> dom (tx_blocks s) \<Longrightarrow> et_p (tx_timers s1) a = (if timer_expired (et_timer (tx_timers s) a) now then None else et_p (tx_timers s) a)"
proof -
  from assms obtain k t where s1: "s1 = s\<lparr>tx_kernel := k, tx_timers := t, tx_now := now\<rparr>" "linked (dom (tx_blocks s)) t"
    "et_timer t = et_timer (tx_timers s)"
    "\<forall>a \<in> dom (tx_blocks s). et_p t a = (if timer_expired (et_timer (tx_timers s) a) now then None else et_p (tx_timers s) a)"
    unfolding timers_polled_def by blast
  show mo: "message_of s1 = message_of s" by (rule message_of_cong) (simp add: s1(1))
  have ow: "tx_owned s1 = tx_owned s" by (rule tx_owned_cong) (simp add: s1(1))
  show "content_of s1 = content_of s" using mo by (simp add: content_of_def fun_eq_iff) (simp add: s1(1))
  show "tx_base s1" if "tx_base s"
    unfolding tx_base_def mo ow using tx_base_parts [OF that] s1(2) by (simp add: s1(1))
  show "tx_counters s1" if "tx_counters s" using that by (simp add: s1(1) tx_counters_def)
  show "et_p (tx_timers s1) a = (if timer_expired (et_timer (tx_timers s) a) now then None else et_p (tx_timers s) a)"
    if "a \<in> dom (tx_blocks s)" using that s1(4) by (simp add: s1(1))
qed (use assms in \<open>auto simp: timers_polled_def\<close>)

lemma checked_gone:
  assumes "checked env s s'" and "b \<in> set (transactions_list s)" and "b \<notin> set (transactions_list s')"
  shows "\<exists>a \<in> expired_tx s. finished s a \<and> (b = a \<or> same_connection s a b)"
  using assms unfolding checked_def by simp

text \<open>The other end of a secured connection has the flag as well.\<close>

lemma same_connection_secured:
  assumes "same_connection s a b" and "content_of s b = Some (f, c)"
  shows "ep_flags f AND SECURED \<noteq> 0"
proof -
  from assms obtain e where e: "ep_flags e AND SECURED \<noteq> 0" "oc_endpoint_compare f e = 0"
    by (auto simp: same_connection_def endpoint_content)
  from e(2) have "ep_flags f AND NOT (MULTICAST OR ACCEPTED) = ep_flags e AND NOT (MULTICAST OR ACCEPTED)"
    by (simp add: oc_endpoint_compare_def split: if_splits)
  then have "(ep_flags f AND NOT (MULTICAST OR ACCEPTED)) AND SECURED = (ep_flags e AND NOT (MULTICAST OR ACCEPTED)) AND SECURED" by simp
  then have "ep_flags f AND SECURED = ep_flags e AND SECURED" by (simp add: and.assoc)
  with e(1) show ?thesis by simp
qed

text \<open>What one round does to a confirmable transaction over an unsecured connection.\<close>

definition round_result :: "u64 \<Rightarrow> node \<Rightarrow> coap_transaction_t \<Rightarrow> node \<Rightarrow> 'e transactions \<Rightarrow> 'e transactions \<Rightarrow> bool" where
  "round_result now a t m s s' \<longleftrightarrow>
     (if \<not> timer_expired (et_timer (tx_timers s) a) now then
        untouched a s s' \<and> count_list (tx_outbox s') m = count_list (tx_outbox s) m
      else if unat (tr_retrans_counter t) < 3 then
        tx_blocks s' a = Some (t\<lparr>tr_retrans_counter := tr_retrans_counter t + 1\<rparr>) \<and>
        et_timer (tx_timers s') a = \<lparr>t_start = now, t_interval = push_bit 1 (t_interval (et_timer (tx_timers s) a))\<rparr> \<and>
        et_p (tx_timers s') a = transaction_handler_process s \<and> count_list (tx_outbox s') m = count_list (tx_outbox s) m + 1
      else a \<notin> set (transactions_list s'))"

lemma round_ok:
  assumes "tx_base s" and "timers_polled now s s1" and "checked env s1 s'" and "\<forall>k. \<not> te_queue_full env k"
    and "tx_blocks s a = Some t" and "content_of s a = Some (e, Some True)" and "ep_flags e AND SECURED = 0" and "message_of s a = Some m"
    and "et_p (tx_timers s) a \<noteq> None"
  shows "round_result now a t m s s'" and "a \<in> set (transactions_list s') \<Longrightarrow> content_of s' a = content_of s a"
proof -
  note p = polled_keeps [OF assms(2)]
  have a: "a \<in> set (transactions_list s)" "a \<in> dom (tx_blocks s)" using assms(5) tx_base_parts(2) [OF assms(1)] by auto
  let ?exp = "timer_expired (et_timer (tx_timers s) a) now"
  have ex: "a \<in> expired_tx s1 \<longleftrightarrow> ?exp" using a p(5) p(11) [OF a(2)] assms(9) by (simp add: expired_tx_def oc_etimer_expired_def)
  have kept: "a \<in> set (transactions_list s')" if "\<not> ?exp \<or> unat (tr_retrans_counter t) \<noteq> 3"
  proof (rule ccontr)
    assume "a \<notin> set (transactions_list s')"
    with checked_gone [OF assms(3), of a] a(1) p(5) obtain c where
      c: "c \<in> expired_tx s1" "finished s1 c" "a = c \<or> same_connection s1 c a" by auto
    have ct: "content_of s1 a = Some (e, Some True)" using assms(6) p(3) by simp
    from same_connection_secured [OF _ ct, of c] assms(7) c(3) have "a = c" by blast
    with c(1,2) that ex assms(5) p(1) ct show False by (simp add: finished_def)
  qed
  have posts: "count_list (tx_outbox s') m = count_list (tx_outbox s) m + of_bool ?exp" if "a \<in> set (transactions_list s')"
    using assms(3,4,8) that ex p(2,4) unfolding checked_def by auto
  have res: "if ?exp then retransmitted a s1 s' else untouched a s1 s'" if "a \<in> set (transactions_list s')"
    using assms(3) that ex unfolding checked_def by simp
  have gone: "a \<notin> set (transactions_list s')" if ?exp "\<not> unat (tr_retrans_counter t) < 3"
    using res that assms(5) p(1) by (auto simp: retransmitted_def)
  show "round_result now a t m s s'"
  proof (cases ?exp)
    case False
    with kept posts res p(1,9) p(11) [OF a(2)] show ?thesis by (simp add: round_result_def untouched_def)
  next
    case True
    show ?thesis
    proof (cases "unat (tr_retrans_counter t) < 3")
      case less: True
      then have "a \<in> set (transactions_list s')" using kept by simp
      with res posts True less assms(5) p(1,6,9,10) show ?thesis by (auto simp: round_result_def retransmitted_def)
    next
      case False
      with True gone show ?thesis by (simp add: round_result_def)
    qed
  qed
  show "content_of s' a = content_of s a" if "a \<in> set (transactions_list s')"
    using assms(3) that p(3) unfolding checked_def by simp
qed

end
