(* ===== verification/OcTransactionSteps.thy ===== *)
theory OcTransactionSteps
  imports OcRetransmission
begin

text \<open>
  The transactions as a state machine: new transactions, writing and sending their messages, the network that
  releases messages, the timers, and closing connections. The invariant holds in all reachable states.
\<close>

subsection \<open>Steps\<close>

definition tx_inv :: "'e transactions \<Rightarrow> bool" where
  "tx_inv s \<longleftrightarrow> tx_base s \<and> tx_counters s"

text \<open>A block that is in use neither here nor as an event timer of another module.\<close>

definition fresh_block :: "node \<Rightarrow> 'e transactions \<Rightarrow> bool" where
  "fresh_block a s \<longleftrightarrow> a \<notin> dom (tx_blocks s) \<and> (\<forall>ts. list_repr (et_list (tx_timers s)) ts \<longrightarrow> a \<notin> set ts)"

definition buffers_not_empty :: "message_cfg \<Rightarrow> bool" where
  "buffers_not_empty cfg \<longleftrightarrow> 0 < mc_pdu_size cfg \<and> mc_inout_buffer_size cfg \<noteq> Some 0"

inductive transaction_step :: "'e transaction_env \<Rightarrow> 'e transactions \<Rightarrow> 'e transactions \<Rightarrow> bool" for env where
  new: "(\<forall>a. blk = Some a \<longrightarrow> fresh_block a s) \<Longrightarrow> (\<forall>m. message = Some m \<longrightarrow> m \<notin> dom (tx_messages s)) \<Longrightarrow>
    buffers_not_empty (te_message_cfg env) \<Longrightarrow> oc_endpoint_compare endpoint endpoint = 0 \<Longrightarrow>
    coap_new_transaction env mid token endpoint blk message malloced s = Some (r, s') \<Longrightarrow> transaction_step env s s'"
| fill: "message_of s a = Some m \<Longrightarrow> m \<notin> set (tx_outbox s) \<Longrightarrow> tx_messages s m = Some msg \<Longrightarrow> d \<noteq> [] \<Longrightarrow>
    transaction_step env s (s\<lparr>tx_messages := (tx_messages s)(m \<mapsto> msg\<lparr>msg_data := Some d, msg_length := n\<rparr>)\<rparr>)"
| send: "tx_blocks s a = Some t \<Longrightarrow> tr_message t = Some m \<Longrightarrow> tr_retrans_counter t = 0 \<Longrightarrow> m \<notin> set (tx_outbox s) \<Longrightarrow>
    coap_send_transaction env random a s = Some s' \<Longrightarrow> transaction_step env s s'"
| clear: "tx_blocks s a = Some t \<Longrightarrow> coap_clear_transaction (Some a) s = Some s' \<Longrightarrow> transaction_step env s s'"
| transmitted: "tx_outbox s = xs @ m # ys \<Longrightarrow> oc_message_unref (Some m) (tx_messages s) = Some ms \<Longrightarrow>
    transaction_step env s (s\<lparr>tx_messages := ms, tx_outbox := xs @ ys\<rparr>)"
| tick: "queue_wf (k_queue (tx_kernel s)) \<Longrightarrow>
    poll_all True (Some c) (te_etimer_proc env) now (tx_kernel s) (tx_timers s) = Some (k, t) \<Longrightarrow>
    transaction_step env s (s\<lparr>tx_kernel := k, tx_timers := t, tx_now := now\<rparr>)"
| check: "coap_check_transactions env random s = Some s' \<Longrightarrow> transaction_step env s s'"
| close: "coap_free_transactions_by_endpoint (te_free_client_cbs env) endpoint code s = Some s' \<Longrightarrow> transaction_step env s s'"
| free_all: "coap_free_all_transactions s = Some s' \<Longrightarrow> transaction_step env s s'"
| other: "transaction_step env s (s\<lparr>tx_kernel := k\<rparr>)"

subsection \<open>New transactions\<close>

text \<open>The block with its zero bytes in the list of timers.\<close>

lemma tx_alloc_linked:
  assumes "linked (dom (tx_blocks s)) (tx_timers s)" and "fresh_block a s"
  shows "linked (insert a (dom (tx_blocks s))) (tx_timers (tx_alloc a s))"
proof -
  from linkedD [OF assms(1)] obtain ts where
    ts: "list_repr (et_list (tx_timers s)) ts" "\<forall>b \<in> dom (tx_blocks s). b \<in> set ts \<longleftrightarrow> et_p (tx_timers s) b \<noteq> None" by blast
  from assms(2) ts(1) have a: "a \<notin> dom (tx_blocks s)" "a \<notin> set ts" unfolding fresh_block_def by blast+
  show ?thesis
    unfolding linked_def
  proof (intro exI [of _ ts] conjI ballI)
    show "list_repr (et_list (tx_timers (tx_alloc a s))) ts" using ts(1) a(2) by (auto simp: tx_alloc_def list_repr_def)
    show "b \<in> set ts \<longleftrightarrow> et_p (tx_timers (tx_alloc a s)) b \<noteq> None" if "b \<in> insert a (dom (tx_blocks s))" for b
      using that a ts(2) by (cases "b = a") (simp_all add: tx_alloc_def)
  qed
qed

lemma allocated_message:
  assumes "message_allocate cfg pool (Some m) malloced ms = (Some m', ms')" and "buffers_not_empty cfg"
  obtains msg d where "m' = m" and "ms' = ms(m \<mapsto> msg)" and "msg_ref_count msg = 1" and "msg_data msg = Some d" and "d \<noteq> []"
proof -
  have "0 < oc_message_max_buffer_size cfg"
    using assms(2) by (auto simp: buffers_not_empty_def oc_message_max_buffer_size_def split: option.split)
  with assms(1,2) have "m' = m \<and> ms' = ms(m \<mapsto> the (ms' m)) \<and> msg_ref_count (the (ms' m)) = 1 \<and>
      (\<exists>d. msg_data (the (ms' m)) = Some d \<and> d \<noteq> [])"
    by (auto simp: message_allocate_def message_allocate_with_size_def zero_message_def Let_def buffers_not_empty_def split: if_splits)
  with that show ?thesis by blast
qed

lemma failed_message:
  assumes "message_allocate cfg pool message malloced ms = (None, ms')" and "\<forall>m. message = Some m \<longrightarrow> m \<notin> dom ms"
  shows "ms' = ms"
  using assms by (auto simp: message_allocate_def message_allocate_with_size_def message_deallocate_def Let_def fun_eq_iff domIff
      split: option.splits if_splits)

lemma new_transaction_inv:
  assumes "tx_inv s" and "\<forall>a. blk = Some a \<longrightarrow> fresh_block a s" and "\<forall>m. message = Some m \<longrightarrow> m \<notin> dom (tx_messages s)"
    and "buffers_not_empty (te_message_cfg env)" and "oc_endpoint_compare endpoint endpoint = 0"
    and "coap_new_transaction env mid token endpoint blk message malloced s = Some (r, s')"
  shows "tx_inv s'"
proof (cases blk)
  case None
  with assms(1,6) show ?thesis by (simp add: coap_new_transaction_def)
next
  case (Some a)
  from assms(1) have base: "tx_base s" "tx_counters s" by (simp_all add: tx_inv_def)
  note parts = tx_base_parts [OF base(1)]
  from Some assms(2) have fresh: "fresh_block a s" "a \<notin> dom (tx_blocks s)" by (simp_all add: fresh_block_def)
  note lnk = tx_alloc_linked [OF parts(3) fresh(1)]
  have same: "tx_messages (tx_alloc a s) = tx_messages s" by (simp add: tx_alloc_def)
  obtain r1 ms where alloc: "message_allocate (te_message_cfg env) OC_OUTGOING_BUFFERS message malloced (tx_messages s) = (r1, ms)" by fastforce
  show ?thesis
  proof (cases r1)
    case None
    from failed_message [OF alloc [unfolded None] assms(3)] have "ms = tx_messages s" .
    with alloc None Some assms(6) same have s': "s' = tx_free a (tx_alloc a s)"
      by (auto simp: coap_new_transaction_def oc_message_allocate_outgoing_def Let_def tx_alloc_def)
    have blocks: "tx_blocks s' = tx_blocks s" using fresh(2) by (auto simp: s' tx_free_def tx_alloc_def fun_eq_iff domIff)
    have mo: "message_of s' = message_of s" "tx_owned s' = tx_owned s" using message_of_cong tx_owned_cong blocks by blast+
    have "tx_timers s' = tx_timers (tx_alloc a s)" by (simp add: s' tx_free_def)
    then have "linked (dom (tx_blocks s)) (tx_timers s')" using linked_mono [OF lnk] by auto
    then have "tx_base s'"
      unfolding tx_base_def mo blocks using parts by (simp add: s' tx_free_def tx_alloc_def)
    moreover have "tx_counters s'" using base(2) unfolding tx_counters_def blocks by (simp add: s' tx_free_def tx_alloc_def)
    ultimately show ?thesis by (simp add: tx_inv_def)
  next
    case r1: (Some m')
    obtain m where m: "message = Some m" using alloc r1
      by (cases message) (simp_all add: message_allocate_def message_allocate_with_size_def)
    with assms(3) have fm: "m \<notin> dom (tx_messages s)" by simp
    obtain msg d where msg: "m' = m" "ms = (tx_messages s)(m \<mapsto> msg)" "msg_ref_count msg = 1" "msg_data msg = Some d" "d \<noteq> []"
      using alloc r1 m allocated_message [OF _ assms(4)] by metis
    obtain t where t: "s' = (tx_alloc a s)\<lparr>tx_blocks := (tx_blocks (tx_alloc a s))(a \<mapsto> t),
        tx_messages := ms(m \<mapsto> msg\<lparr>msg_endpoint := endpoint\<rparr>), transactions_list := transactions_list s @ [a]\<rparr>"
      "tr_message t = Some m" "tr_retrans_counter t = 0"
      using assms(6) alloc r1 Some msg(1,2) same
      by (auto simp: coap_new_transaction_def oc_message_allocate_outgoing_def Let_def tx_alloc_def split: if_splits)
    have blocks: "tx_blocks s' = (tx_blocks s)(a \<mapsto> t)" by (simp add: t(1) tx_alloc_def)
    have mo: "message_of s' = (message_of s)(a \<mapsto> m)" using t(2) by (auto simp: message_of_def blocks)
    have none: "message_of s a = None" using fresh(2) by (simp add: message_of_def domIff)
    have ow: "tx_owned s' = insert m (tx_owned s)" unfolding tx_owned_def mo by (rule ran_map_upd [of "message_of s", OF none])
    from parts(7) fm have nm: "m \<notin> tx_owned s" "m \<notin> set (tx_outbox s)" by (auto simp: refs_ok_def)
    let ?msg = "msg\<lparr>msg_endpoint := endpoint\<rparr>"
    have msgs: "tx_messages s' = (tx_messages s)(m \<mapsto> ?msg)" "tx_outbox s' = tx_outbox s" using msg(2) by (simp_all add: t(1) tx_alloc_def)
    have "count_list (tx_outbox s) m = 0" using nm(2) by (simp add: count_list_0_iff)
    then have refs: "refs_ok (insert m (tx_owned s)) (tx_outbox s) ((tx_messages s)(m \<mapsto> ?msg))"
      using parts(7) nm msg(3) by (auto simp: refs_ok_def)
    have snd: "sendable_message ?msg" using msg(4,5) assms(5) by (cases d) (simp_all add: sendable_message_def confirmable_def)
    have timers: "tx_timers s' = tx_timers (tx_alloc a s)" by (simp add: t(1))
    have "tx_base s'"
      unfolding tx_base_def ow
    proof (intro conjI)
      show "linked (dom (tx_blocks s')) (tx_timers s')" using lnk by (simp add: blocks timers)
      show "refs_ok (insert m (tx_owned s)) (tx_outbox s') (tx_messages s')" using refs by (simp add: msgs)
      show "\<forall>x \<in> insert m (tx_owned s). \<forall>msg. tx_messages s' x = Some msg \<longrightarrow> sendable_message msg"
        using snd nm(1) parts(8) by (auto simp: msgs)
      show "\<forall>b c x. message_of s' b = Some x \<longrightarrow> message_of s' c = Some x \<longrightarrow> b = c"
        using nm(1) parts(5) by (auto simp: mo tx_owned_def ran_def)
      show "dom (message_of s') = dom (tx_blocks s')" using parts(6) by (simp add: mo blocks)
    qed (use parts(1,2,4) fresh(2) in \<open>auto simp: t(1) tx_alloc_def\<close>)
    moreover have "tx_counters s'"
      using base(2) \<open>count_list (tx_outbox s) m = 0\<close> t(2,3) unfolding tx_counters_def blocks msgs(2) by simp
    ultimately show ?thesis by (simp add: tx_inv_def)
  qed
qed

subsection \<open>The other steps\<close>

lemma fill_inv:
  assumes "tx_inv s" and "message_of s a = Some m" and "tx_messages s m = Some msg" and "d \<noteq> []"
  shows "tx_inv (s\<lparr>tx_messages := (tx_messages s)(m \<mapsto> msg\<lparr>msg_data := Some d, msg_length := n\<rparr>)\<rparr>)"
proof -
  let ?msg = "msg\<lparr>msg_data := Some d, msg_length := n\<rparr>"
  let ?s = "s\<lparr>tx_messages := (tx_messages s)(m \<mapsto> ?msg)\<rparr>"
  from assms(1) have base: "tx_base s" "tx_counters s" by (simp_all add: tx_inv_def)
  note parts = tx_base_parts [OF base(1)]
  have mo: "message_of ?s = message_of s" "tx_owned ?s = tx_owned s" by (rule message_of_cong, simp) (rule tx_owned_cong, simp)
  have own: "m \<in> tx_owned s" using assms(2) by (auto simp: tx_owned_def ran_def)
  have "sendable_message ?msg"
    using parts(8) [OF own assms(3)] assms(4) by (cases d) (simp_all add: sendable_message_def confirmable_def)
  then have "\<forall>x \<in> tx_owned s. \<forall>msg. tx_messages ?s x = Some msg \<longrightarrow> sendable_message msg" using parts(8) by auto
  moreover have "refs_ok (tx_owned s) (tx_outbox ?s) (tx_messages ?s)" using parts(7) assms(3) own by (auto simp: refs_ok_def)
  ultimately have "tx_base ?s" unfolding tx_base_def mo using parts(1-6) by simp
  with base(2) show ?thesis by (simp add: tx_inv_def tx_counters_def)
qed

lemma transmitted_inv:
  assumes "tx_inv s" and "tx_outbox s = xs @ m # ys" and "oc_message_unref (Some m) (tx_messages s) = Some ms"
  shows "tx_inv (s\<lparr>tx_messages := ms, tx_outbox := xs @ ys\<rparr>)"
proof -
  let ?s = "s\<lparr>tx_messages := ms, tx_outbox := xs @ ys\<rparr>"
  from assms(1) have base: "tx_base s" "tx_counters s" by (simp_all add: tx_inv_def)
  note parts = tx_base_parts [OF base(1)]
  from refs_delivered [OF parts(7) [unfolded assms(2)]] obtain ms' where
    ms': "oc_message_unref2 (Some m) (tx_messages s) = Some (m \<notin> tx_owned s \<union> set (xs @ ys), ms')"
      "refs_ok (tx_owned s) (xs @ ys) ms'" "\<And>m'. m' \<noteq> m \<Longrightarrow> ms' m' = tx_messages s m'"
      "\<And>msg. m \<in> tx_owned s \<Longrightarrow> tx_messages s m = Some msg \<Longrightarrow> ms' m = Some (msg\<lparr>msg_ref_count := msg_ref_count msg - 1\<rparr>)" by blast
  with assms(3) have ms: "ms = ms'" by (simp add: oc_message_unref_def)
  have mo: "message_of ?s = message_of s" "tx_owned ?s = tx_owned s" by (rule message_of_cong, simp) (rule tx_owned_cong, simp)
  have "sendable_message msg" if "x \<in> tx_owned s" "ms x = Some msg" for x msg
  proof (cases "x = m")
    case True
    with parts(7) that(1) obtain msg0 where m0: "tx_messages s m = Some msg0" by (auto elim: refs_okD)
    with ms'(4) that True ms have "msg = msg0\<lparr>msg_ref_count := msg_ref_count msg0 - 1\<rparr>" by simp
    with parts(8) [OF _ m0] that(1) True show ?thesis by simp
  next
    case False
    with that ms ms'(3) parts(8) show ?thesis by simp
  qed
  then have "tx_base ?s" unfolding tx_base_def mo using parts(1-6) ms ms'(2) by simp
  moreover have "count_list (xs @ ys) n \<le> count_list (tx_outbox s) n" for n by (simp add: assms(2))
  then have "tx_counters ?s" using base(2) unfolding tx_counters_def by (simp del: count_list_append) (meson le_trans)
  ultimately show ?thesis by (simp add: tx_inv_def)
qed

lemma clear_loop_ok:
  "tx_base s \<Longrightarrow> transactions_list s = as \<Longrightarrow> \<exists>s'. clear_loop as s = Some s' \<and> cleared (set as) s s'"
proof (induction as arbitrary: s)
  case Nil
  then show ?case using cleared_none by simp
next
  case (Cons a as)
  from tx_base_parts(1,2) [OF Cons.prems(1)] Cons.prems(2) have dist: "distinct (a # as)" "a \<in> dom (tx_blocks s)" by auto
  then obtain t where "tx_blocks s a = Some t" by auto
  from clear_ok [OF Cons.prems(1) this] obtain s1 where s1: "coap_clear_transaction (Some a) s = Some s1" "cleared {a} s s1" by blast
  then have "transactions_list s1 = as" "tx_base s1" using dist(1) Cons.prems(2) by (auto simp: cleared_def filter_other)
  from Cons.IH [OF this(2,1)] obtain s' where "clear_loop as s1 = Some s'" "cleared (set as) s1 s'" by blast
  with s1 cleared_trans [OF s1(2)] show ?case by auto
qed

lemma cleared_inv: "cleared D s s' \<Longrightarrow> tx_inv s \<Longrightarrow> tx_inv s'"
  using cleared_counters by (auto simp: tx_inv_def cleared_def)

context transaction_modules
begin

lemma send_fresh_inv:
  assumes "tx_inv s" and "tx_blocks s a = Some t" and "tr_message t = Some m" and "tr_retrans_counter t = 0"
    and "m \<notin> set (tx_outbox s)"
  obtains s' where "coap_send_transaction env random a s = Some s'" and "tx_inv s'"
proof -
  from assms(1) have base: "tx_base s" "tx_counters s" by (simp_all add: tx_inv_def)
  from tx_baseD [OF base(1) assms(2)] assms(3) obtain msg con where
    msg: "message_of s a = Some m" "tx_messages s m = Some msg" "confirmable msg = Some con" by (metis option.inject)
  have cnt: "count_list (tx_outbox s) m < 254" "count_list (tx_outbox s) m = 0" using assms(5) by (simp_all add: count_list_0_iff)
  from tx_base_parts(4) [OF base(1)] obtain p where p: "transaction_handler_process s = Some p" by auto
  show ?thesis
  proof (cases con)
    case True
    with msg(3) have con: "confirmable msg = Some True" by simp
    have c4: "tr_retrans_counter t < COAP_MAX_RETRANSMIT" using assms(4) by simp
    obtain k ts ms out r where sent: "coap_send_transaction env random a s = Some (s\<lparr>tx_kernel := k, tx_timers := ts, tx_messages := ms, tx_outbox := out\<rparr>)"
      "tx_base (s\<lparr>tx_kernel := k, tx_timers := ts, tx_messages := ms, tx_outbox := out\<rparr>)"
      "out = (if te_queue_full env k then tx_outbox s else tx_outbox s @ [m])"
      by (rule send_confirmable [OF base(1) assms(2,3) msg(2) con c4 cnt(1) p])
    have "tx_counters (s\<lparr>tx_kernel := k, tx_timers := ts, tx_messages := ms, tx_outbox := out\<rparr>)"
      by (rule counters_others [OF base msg(1)]) (use sent(3) cnt(2) assms(2-4) in auto)
    with sent(1,2) that show ?thesis by (simp add: tx_inv_def)
  next
    case False
    with msg(3) have non: "confirmable msg = Some False" by simp
    obtain k ms out r s' where sent: "coap_send_transaction env random a s = Some s'"
      "cleared {a} (s\<lparr>tx_kernel := k, tx_messages := ms, tx_outbox := out\<rparr>) s'"
      "out = (if te_queue_full env k then tx_outbox s else tx_outbox s @ [m])"
      by (rule send_other [OF base(1) assms(2,3) msg(2) non cnt(1)])
    have "tx_counters s'"
      by (rule counters_others [OF base msg(1)])
        (use sent(2,3) in \<open>auto simp: cleared_def restrict_map_def split: if_splits\<close>)
    moreover have "tx_base s'" using sent(2) by (simp add: cleared_def)
    ultimately show ?thesis using that sent(1) by (simp add: tx_inv_def)
  qed
qed

lemma step_inv:
  assumes "transaction_step env s s'" and "tx_inv s"
  shows "tx_inv s'"
  using assms(1)
proof cases
  case (new blk message endpoint mid token malloced r)
  then show ?thesis using new_transaction_inv [OF assms(2)] by blast
next
  case (fill a m msg d n)
  then show ?thesis using fill_inv [OF assms(2)] by blast
next
  case (send a t m random)
  from send_fresh_inv [OF assms(2) send(1-4), of random] send(5) show ?thesis by auto
next
  case (clear a t)
  from assms(2) have "tx_base s" by (simp add: tx_inv_def)
  from clear_ok [OF this clear(1)] clear(2) cleared_inv assms(2) show ?thesis by (metis option.inject)
next
  case (transmitted xs m ys ms)
  then show ?thesis using transmitted_inv [OF assms(2)] by blast
next
  case (tick c now k t)
  from assms(2) have base: "tx_base s" "tx_counters s" by (simp_all add: tx_inv_def)
  from poll_all_polled [OF base(1) tick(2), of c "te_etimer_proc env" now] tick(3) have "timers_polled now s s'" using tick(1) by auto
  from polled_keeps(7,8) [OF this] base show ?thesis by (simp add: tx_inv_def)
next
  case (check random)
  from check_transactions_ok [of s random] assms(2) check show ?thesis by (auto simp: tx_inv_def checked_def)
next
  case (close endpoint code)
  from assms(2) have "tx_base s" by (simp add: tx_inv_def)
  from free_transactions_ok [of "te_free_client_cbs env", OF free_client_cbs this, of endpoint code] close cleared_inv assms(2) show ?thesis by (metis option.inject)
next
  case free_all
  from assms(2) have "tx_base s" by (simp add: tx_inv_def)
  from clear_loop_ok [OF this refl] free_all cleared_inv assms(2) show ?thesis
    unfolding coap_free_all_transactions_def by (metis option.inject)
next
  case (other k)
  with assms(2) show ?thesis by (simp add: tx_inv_def)
qed

end

interpretation stack_reach: stepwise_invariant "transaction_step (stack_env proc second cfg full h)" tx_inv for proc second cfg full h
  by unfold_locales (rule stack.step_inv)

subsection \<open>Examples\<close>

definition example_message :: oc_message_t where
  "example_message = \<lparr>msg_pool = OC_OUTGOING_BUFFERS,
     msg_endpoint = \<lparr>ep_device = 0, ep_flags = IPV4, ep_di = replicate 16 0, ep_address = [192, 168, 1, 7], ep_port = 5683, ep_session_id = 0\<rparr>,
     msg_length = 4, msg_ref_count = 1, msg_data = Some [0x40, 1, 0, 7], msg_read_offset = 0, msg_encrypted = 0, msg_size = 4\<rparr>"

definition example_transaction :: coap_transaction_t where
  "example_transaction = \<lparr>tr_mid = 7, tr_token_len = 0, tr_token = replicate 8 0, tr_retrans_counter = 0, tr_message = Some 2\<rparr>"

text \<open>A new transaction; then the same transaction after it has been sent at time 0 with the interval 2500.\<close>

definition example_transactions :: "nat transactions" where
  "example_transactions = \<lparr>transactions_list = [1], tx_blocks = [1 \<mapsto> example_transaction], tx_messages = [2 \<mapsto> example_message],
     tx_outbox = [], tx_timers = \<lparr>et_list = \<lparr>list_head = None, list_next = (\<lambda>_. None)\<rparr>, et_timer = (\<lambda>_. \<lparr>t_start = 0, t_interval = 0\<rparr>),
       et_p = (\<lambda>_. None), et_next_expiration = 0\<rparr>,
     tx_kernel = \<lparr>k_procs = \<lparr>list_head = None, list_next = (\<lambda>_. None)\<rparr>, k_current = None, k_lastevent = OC_PROCESS_EVENT_MAX,
       k_queue = queue_init 4, k_poll_requested = False, k_has_thread = (\<lambda>_. True), k_state = (\<lambda>_. 0), k_needspoll = (\<lambda>_. False),
       k_lc = (\<lambda>_. 0), k_env = 0\<rparr>,
     tx_now = 0, transaction_handler_process = Some 5\<rparr>"

definition example_sent :: "nat transactions" where
  "example_sent = example_transactions\<lparr>tx_messages := [2 \<mapsto> example_message\<lparr>msg_ref_count := 2\<rparr>], tx_outbox := [2],
     tx_timers := \<lparr>et_list = \<lparr>list_head = Some 1, list_next = (\<lambda>_. None)\<rparr>, et_timer = (\<lambda>_. \<lparr>t_start = 0, t_interval = 2500\<rparr>),
       et_p = (\<lambda>_. None)(1 := Some 5), et_next_expiration = 2500\<rparr>\<rparr>"

definition example_handlers :: "nat exchange_handlers" where
  "example_handlers = \<lparr>h_csm = (\<lambda>_. id), h_observers = (\<lambda>_. id), h_client_cbs = (\<lambda>_ _. Suc), h_blockwise = (\<lambda>_. id)\<rparr>"

lemma example_con: "confirmable example_message = Some True"
  by (simp add: confirmable_def example_message_def message_type_of_def)

lemma example_sendable: "sendable_message example_message"
  unfolding sendable_message_def example_con
  by (simp add: example_message_def oc_endpoint_compare_def oc_endpoint_compare_session_ids_def)

lemma example_message_of: "message_of example_transactions = [1 \<mapsto> 2]" "message_of example_sent = [1 \<mapsto> 2]"
  by (auto simp: message_of_def example_transactions_def example_sent_def example_transaction_def)

lemma example_owned: "tx_owned example_transactions = {2}" "tx_owned example_sent = {2}"
  by (simp_all add: tx_owned_def example_message_of)

lemma example_inv: "tx_inv example_transactions"
proof -
  have "linked {1} (tx_timers example_transactions)"
    unfolding linked_def by (rule exI [of _ "[]"]) (simp add: example_transactions_def list_repr_def)
  moreover have "refs_ok {2} [] [2 \<mapsto> example_message]" by (auto simp: refs_ok_def example_message_def)
  ultimately show ?thesis
    unfolding tx_inv_def tx_base_def tx_counters_def example_message_of example_owned
    using example_sendable by (auto simp: example_transactions_def example_transaction_def split: if_splits)
qed

lemma example_sent_inv: "tx_inv example_sent"
proof -
  have "linked {1} (tx_timers example_sent)"
    unfolding linked_def by (rule exI [of _ "[1]"]) (simp add: example_sent_def example_transactions_def list_repr_def)
  moreover have "refs_ok {2} [2] [2 \<mapsto> example_message\<lparr>msg_ref_count := 2\<rparr>]" by (auto simp: refs_ok_def example_message_def)
  ultimately show ?thesis
    unfolding tx_inv_def tx_base_def tx_counters_def example_message_of example_owned
    using example_sendable by (auto simp: example_sent_def example_transactions_def example_transaction_def split: if_splits)
qed

lemma example_queue: "queue_wf (k_queue (tx_kernel example_sent))"
  by (simp add: example_sent_def example_transactions_def queue_init_ok)

subsection \<open>What the transactions promise\<close>

text \<open>C21. In every state that is reached from one with the invariant, by new transactions, sending, retransmission,
  timeouts, closed connections and a network that releases messages in any order, the listed transactions are
  exactly the allocated ones, the allocated messages are exactly those that a transaction owns or that are on
  their way, the reference count of a message is the number of these references, and a message is on its way at
  most four times.\<close>

theorem transactions_accounted:
  assumes "(transaction_step (stack_env proc second cfg full h))\<^sup>*\<^sup>* s s'" and "tx_inv s"
  shows "distinct (transactions_list s') \<and> dom (tx_blocks s') = set (transactions_list s') \<and>
    dom (tx_messages s') = tx_owned s' \<union> set (tx_outbox s') \<and>
    (\<forall>m msg. tx_messages s' m = Some msg \<longrightarrow> unat (msg_ref_count msg) = of_bool (m \<in> tx_owned s') + count_list (tx_outbox s') m) \<and>
    (\<forall>a t m. tx_blocks s' a = Some t \<longrightarrow> tr_message t = Some m \<longrightarrow> count_list (tx_outbox s') m \<le> 4)"
proof -
  from stack_reach.reachable_inv [OF assms] have inv: "tx_base s'" "tx_counters s'" by (simp_all add: tx_inv_def)
  note parts = tx_base_parts(1,2,7) [OF inv(1)]
  have "count_list (tx_outbox s') m \<le> 4" if "tx_blocks s' a = Some t" "tr_message t = Some m" for a t m
  proof -
    from inv(2) that have "unat (tr_retrans_counter t) \<le> 3 \<and> count_list (tx_outbox s') m \<le> unat (tr_retrans_counter t) + 1"
      unfolding tx_counters_def by blast
    then show ?thesis by linarith
  qed
  with parts show ?thesis unfolding refs_ok_def by blast
qed

theorem transactions_accounted_witness:
  "\<exists>s'. coap_clear_transaction (Some 1) example_sent = Some s' \<and> dom (tx_messages s') = tx_owned s' \<union> set (tx_outbox s')"
proof -
  have blk: "tx_blocks example_sent 1 = Some example_transaction" by (simp add: example_sent_def example_transactions_def)
  from example_sent_inv have "tx_base example_sent" by (simp add: tx_inv_def)
  from clear_ok [OF this blk] obtain s' where s': "coap_clear_transaction (Some 1) example_sent = Some s'" by blast
  have "transaction_step (stack_env 9 1000 \<lparr>mc_dynamic_allocation = True, mc_inout_buffer_size = None, mc_pdu_size = 64\<rparr> (\<lambda>_. False)
      example_handlers) example_sent s'"
    by (rule transaction_step.clear [OF blk s'])
  from transactions_accounted [OF r_into_rtranclp [where r = "transaction_step _", OF this] example_sent_inv] s' show ?thesis by blast
qed



text \<open>C24. Sending a new confirmable transaction posts its message once, keeps the transaction and starts its timer with
  an interval between two and three seconds, whatever the random value is.\<close>

theorem first_transmission:
  assumes "tx_inv s" and "tx_blocks s a = Some t" and "tr_message t = Some m" and "tr_retrans_counter t = 0"
    and "m \<notin> set (tx_outbox s)" and "tx_messages s m = Some msg" and "confirmable msg = Some True" and "3 * unat second < 2 ^ 64"
  shows "\<exists>s'. coap_send_transaction (stack_env proc second cfg (\<lambda>_. False) h) random a s = Some s' \<and>
    transactions_list s' = transactions_list s \<and> tx_blocks s' = tx_blocks s \<and> tx_outbox s' = tx_outbox s @ [m] \<and>
    et_p (tx_timers s') a = transaction_handler_process s \<and> t_start (et_timer (tx_timers s') a) = tx_now s \<and>
    2 * unat second \<le> unat (t_interval (et_timer (tx_timers s') a)) \<and> unat (t_interval (et_timer (tx_timers s') a)) \<le> 3 * unat second"
proof -
  let ?env = "stack_env proc second cfg (\<lambda>_. False) h"
  from assms(1) have base: "tx_base s" by (simp add: tx_inv_def)
  from tx_base_parts(4) [OF base] obtain p where p: "transaction_handler_process s = Some p" by auto
  have "count_list (tx_outbox s) m = 0" using assms(5) by (simp add: count_list_0_iff)
  then have cnt: "tr_retrans_counter t < COAP_MAX_RETRANSMIT" "count_list (tx_outbox s) m < 254" using assms(4) by simp_all
  obtain k ts ms out r where sent: "coap_send_transaction ?env random a s = Some (s\<lparr>tx_kernel := k, tx_timers := ts, tx_messages := ms, tx_outbox := out\<rparr>)"
    "et_timer ts = (et_timer (tx_timers s))(a := \<lparr>t_start = tx_now s,
       t_interval = retransmission_interval ?env random (tr_retrans_counter t) (t_interval (et_timer (tx_timers s) a))\<rparr>)"
    "et_p ts = (et_p (tx_timers s))(a := Some p)" "out = (if te_queue_full ?env k then tx_outbox s else tx_outbox s @ [m])"
    by (rule stack.send_confirmable [OF base assms(2,3,6,7) cnt p])
  let ?i = "retransmission_interval ?env random (tr_retrans_counter t) (t_interval (et_timer (tx_timers s) a))"
  let ?x = "(ucast random :: u64) mod (second + 1)"
  have i: "?i = second * 2 + ?x"
    using assms(4) by (simp add: retransmission_interval_def COAP_RESPONSE_TIMEOUT_TICKS_def COAP_RESPONSE_TIMEOUT_BACKOFF_MASK_def stack_env_def)
  have s1: "unat (second + 1) = unat second + 1" using assms(8) by (simp add: unat_word_ariths)
  have x: "unat ?x \<le> unat second" using s1 by (simp add: unat_mod_distrib less_Suc_eq_le [symmetric])
  have "unat (second * 2) = 2 * unat second" using assms(8) by (simp add: unat_word_ariths)
  then have "unat ?i = 2 * unat second + unat ?x" unfolding i using x assms(8) by (simp add: unat_word_ariths)
  with sent x p show ?thesis by (simp add: stack_env_def)
qed

theorem first_transmission_witness:
  "\<exists>s'. coap_send_transaction (stack_env 9 1000 \<lparr>mc_dynamic_allocation = True, mc_inout_buffer_size = None, mc_pdu_size = 64\<rparr>
      (\<lambda>_. False) example_handlers) 500 1 example_transactions = Some s' \<and> tx_outbox s' = [2] \<and>
     2000 \<le> unat (t_interval (et_timer (tx_timers s') 1))"
proof -
  have facts: "tx_blocks example_transactions 1 = Some example_transaction" "tr_message example_transaction = Some 2"
    "tr_retrans_counter example_transaction = 0" "2 \<notin> set (tx_outbox example_transactions)"
    "tx_messages example_transactions 2 = Some example_message" "3 * unat (1000 :: u64) < 2 ^ 64" "tx_outbox example_transactions = []"
    by (simp_all add: example_transactions_def example_transaction_def)
  from first_transmission [OF example_inv facts(1-5) example_con facts(6), of 9 _ example_handlers 500] facts(7) show ?thesis by fastforce
qed

text \<open>C23. One round of the event loop for a confirmable transaction over an unsecured connection: the process of the
  event timers and the check of the transactions return. Before the timer is due nothing happens to the transaction; when
  it is due the message is posted once more, the counter is incremented, the interval is doubled and starts now; when
  the counter has reached three the transaction is released.\<close>

theorem retransmission_round:
  assumes "tx_inv s" and "queue_wf (k_queue (tx_kernel s))" and "tx_blocks s a = Some t" and "content_of s a = Some (e, Some True)"
    and "ep_flags e AND SECURED = 0" and "message_of s a = Some m" and "et_p (tx_timers s) a \<noteq> None"
  shows "\<exists>k ts s'. poll_all True (Some c) proc now (tx_kernel s) (tx_timers s) = Some (k, ts) \<and>
    coap_check_transactions (stack_env proc second cfg (\<lambda>_. False) h) random (s\<lparr>tx_kernel := k, tx_timers := ts, tx_now := now\<rparr>) = Some s' \<and>
    tx_inv s' \<and>
    (if \<not> timer_expired (et_timer (tx_timers s) a) now then
       untouched a s s' \<and> count_list (tx_outbox s') m = count_list (tx_outbox s) m
     else if unat (tr_retrans_counter t) < 3 then
       tx_blocks s' a = Some (t\<lparr>tr_retrans_counter := tr_retrans_counter t + 1\<rparr>) \<and>
       et_timer (tx_timers s') a = \<lparr>t_start = now, t_interval = push_bit 1 (t_interval (et_timer (tx_timers s) a))\<rparr> \<and>
       et_p (tx_timers s') a = transaction_handler_process s \<and> count_list (tx_outbox s') m = count_list (tx_outbox s) m + 1
     else a \<notin> set (transactions_list s'))"
proof -
  let ?env = "stack_env proc second cfg (\<lambda>_. False) h"
  from assms(1) have base: "tx_base s" "tx_counters s" by (simp_all add: tx_inv_def)
  from poll_all_polled [OF base(1) assms(2), of c proc now] obtain k ts where
    p: "poll_all True (Some c) proc now (tx_kernel s) (tx_timers s) = Some (k, ts)"
      "timers_polled now s (s\<lparr>tx_kernel := k, tx_timers := ts, tx_now := now\<rparr>)" by blast
  from polled_keeps(7,8) [OF p(2)] base have "tx_base (s\<lparr>tx_kernel := k, tx_timers := ts, tx_now := now\<rparr>)"
    "tx_counters (s\<lparr>tx_kernel := k, tx_timers := ts, tx_now := now\<rparr>)" by blast+
  from stack.check_transactions_ok [OF this, of proc second cfg "\<lambda>_. False" h random] obtain s' where
    s': "coap_check_transactions ?env random (s\<lparr>tx_kernel := k, tx_timers := ts, tx_now := now\<rparr>) = Some s'"
      "checked ?env (s\<lparr>tx_kernel := k, tx_timers := ts, tx_now := now\<rparr>) s'" by blast
  have "\<forall>k. \<not> te_queue_full ?env k" by (simp add: stack_env_def)
  from round_ok(1) [OF base(1) p(2) s'(2) this assms(3-7)] have "round_result now a t m s s'" .
  moreover from s'(2) have "tx_inv s'" by (simp add: tx_inv_def checked_def)
  ultimately show ?thesis using p(1) s'(1) unfolding round_result_def by blast
qed

theorem retransmission_round_witness:
  "\<exists>k ts s'. poll_all True (Some (\<lambda>_. zero_event)) 9 2500 (tx_kernel example_sent) (tx_timers example_sent) = Some (k, ts) \<and>
     coap_check_transactions (stack_env 9 1000 \<lparr>mc_dynamic_allocation = True, mc_inout_buffer_size = None, mc_pdu_size = 64\<rparr>
       (\<lambda>_. False) example_handlers) 3 (example_sent\<lparr>tx_kernel := k, tx_timers := ts, tx_now := 2500\<rparr>) = Some s' \<and>
     t_interval (et_timer (tx_timers s') 1) = 5000 \<and> count_list (tx_outbox s') 2 = 2"
proof -
  let ?e = "msg_endpoint example_message"
  have msg: "tx_messages example_sent 2 = Some (example_message\<lparr>msg_ref_count := 2\<rparr>)" by (simp add: example_sent_def)
  have facts: "tx_blocks example_sent 1 = Some example_transaction" "content_of example_sent 1 = Some (?e, Some True)"
    "ep_flags ?e AND SECURED = 0" "message_of example_sent 1 = Some 2" "et_p (tx_timers example_sent) 1 \<noteq> None"
  proof -
    show "content_of example_sent 1 = Some (?e, Some True)"
      unfolding content_of_def example_message_of using msg example_con by simp
    show "message_of example_sent 1 = Some 2" by (simp add: example_message_of)
    show "ep_flags ?e AND SECURED = 0" by (simp add: example_message_def)
  qed (simp_all add: example_sent_def example_transactions_def)
  have due: "timer_expired (et_timer (tx_timers example_sent) 1) 2500" "unat (tr_retrans_counter example_transaction) < 3"
    "push_bit 1 (t_interval (et_timer (tx_timers example_sent) 1)) = 5000" "count_list (tx_outbox example_sent) 2 = 1"
    by (simp_all add: example_sent_def timer_expired_def example_transaction_def)
  show ?thesis
    using retransmission_round [OF example_sent_inv example_queue facts, of "\<lambda>_. zero_event" 9 2500 1000 _ example_handlers 3] due
    by fastforce
qed

definition example_secured :: oc_message_t where
  "example_secured = example_message\<lparr>msg_endpoint := (msg_endpoint example_message)\<lparr>ep_flags := IPV4 OR SECURED\<rparr>\<rparr>"

lemma example_secured_con: "confirmable example_secured = Some True"
  by (simp add: confirmable_def example_secured_def example_message_def message_type_of_def)

lemma example_secured_inv: "tx_inv (example_transactions\<lparr>tx_messages := [2 \<mapsto> example_secured]\<rparr>)"
proof -
  let ?s = "example_transactions\<lparr>tx_messages := [2 \<mapsto> example_secured]\<rparr>"
  have mo: "message_of ?s = [1 \<mapsto> 2]" using example_message_of(1) by (simp add: message_of_def fun_eq_iff)
  then have ow: "tx_owned ?s = {2}" by (simp add: tx_owned_def)
  have "linked {1} (tx_timers ?s)"
    unfolding linked_def by (rule exI [of _ "[]"]) (simp add: example_transactions_def list_repr_def)
  moreover have "refs_ok {2} [] [2 \<mapsto> example_secured]" by (auto simp: refs_ok_def example_secured_def example_message_def)
  moreover have "sendable_message example_secured"
    unfolding sendable_message_def example_secured_con
    by (simp add: example_secured_def example_message_def oc_endpoint_compare_def oc_endpoint_compare_session_ids_def)
  ultimately show ?thesis
    unfolding tx_inv_def tx_base_def tx_counters_def mo ow
    by (auto simp: example_transactions_def example_transaction_def split: if_splits)
qed

text \<open>C38. The handler of a response that is told about the timeout may close the secured connection of the request, which
  releases the transactions to its endpoint. The code reads the transaction after the handler has returned: the access
  to the released block is not defined.\<close>

theorem timeout_handler_closes:
  assumes "tx_inv s" and "tx_blocks s a = Some t" and "tr_message t = Some m" and "tx_messages s m = Some msg"
    and "confirmable msg = Some True" and "te_main_initialized env" and "ep_flags (msg_endpoint msg) AND SECURED \<noteq> 0"
    and "\<And>endpoint s. te_remove_observers env endpoint s = on_app (h_observers h endpoint) s"
    and "\<And>mid code s. te_free_client_cbs env mid code s =
      coap_free_transactions_by_endpoint (\<lambda>mid code. on_app (h_client_cbs h mid code)) (msg_endpoint msg) OC_CONNECTION_CLOSED s"
    and "\<And>b s. te_free_blockwise_buffers env b s = on_app (h_blockwise h b) s"
  shows "coap_send_transaction env random a (s\<lparr>tx_blocks := (tx_blocks s)(a \<mapsto> t\<lparr>tr_retrans_counter := COAP_MAX_RETRANSMIT\<rparr>)\<rparr>) = None"
proof -
  let ?t = "t\<lparr>tr_retrans_counter := COAP_MAX_RETRANSMIT\<rparr>" and ?ep = "msg_endpoint msg"
  let ?s = "s\<lparr>tx_blocks := (tx_blocks s)(a \<mapsto> ?t)\<rparr>"
  let ?cbs = "\<lambda>mid code. on_app (h_client_cbs h mid code)"
  from assms(1) have base: "tx_base s" by (simp add: tx_inv_def)
  note parts = tx_base_parts [OF base]
  have mo: "message_of ?s = message_of s" using assms(2) by (auto simp: message_of_def fun_eq_iff)
  have ow: "tx_owned ?s = tx_owned s" using mo by (simp add: tx_owned_def)
  have dom: "dom (tx_blocks ?s) = dom (tx_blocks s)" using assms(2) by auto
  have base2: "tx_base ?s" unfolding tx_base_def mo ow dom using parts by simp
  obtain k where k: "on_app (h_observers h ?ep) ?s = Some (?s\<lparr>tx_kernel := k\<rparr>)" by (simp add: on_app_def)
  have "\<exists>k. ?cbs mid code s = Some (s\<lparr>tx_kernel := k\<rparr>)" for mid code s by (auto simp: on_app_def)
  from free_transactions_ok [of ?cbs, OF this, of "?s\<lparr>tx_kernel := k\<rparr>" ?ep OC_CONNECTION_CLOSED] base2 obtain s2 where
    s2: "coap_free_transactions_by_endpoint ?cbs ?ep OC_CONNECTION_CLOSED (?s\<lparr>tx_kernel := k\<rparr>) = Some s2"
      "cleared {b \<in> set (transactions_list s). sent_to (?s\<lparr>tx_kernel := k\<rparr>) ?ep b} ?s s2" by auto
  have m: "message_of s a = Some m" using assms(2,3) by (simp add: message_of_def)
  have "oc_endpoint_compare ?ep ?ep = 0"
    using parts(8) [OF owned_by [OF assms(2,3)] assms(4)] by (simp add: sendable_message_def)
  then have "sent_to (?s\<lparr>tx_kernel := k\<rparr>) ?ep a" unfolding sent_to_def message_of_kernel mo using m assms(4) by simp
  moreover have "a \<in> set (transactions_list s)" using assms(2) parts(2) by auto
  ultimately have "tx_blocks s2 a = None" using s2(2) by (simp add: cleared_def)
  then have "tx_blocks (s2\<lparr>tx_kernel := j\<rparr>) a = None" for j by simp
  with assms(3-10) k s2(1) show ?thesis
    by (simp add: coap_send_transaction_def transaction_timed_out_def on_app_def)
qed

theorem timeout_handler_closes_witness:
  "\<exists>env. coap_send_transaction env 0 1 (example_transactions\<lparr>tx_messages := [2 \<mapsto> example_secured],
     tx_blocks := [1 \<mapsto> example_transaction\<lparr>tr_retrans_counter := COAP_MAX_RETRANSMIT\<rparr>]\<rparr>) = None"
proof -
  let ?cfg = "\<lparr>mc_dynamic_allocation = True, mc_inout_buffer_size = None, mc_pdu_size = 64\<rparr>"
  let ?s = "example_transactions\<lparr>tx_messages := [2 \<mapsto> example_secured]\<rparr>"
  let ?env = "(stack_env 9 1000 ?cfg (\<lambda>_. False) example_handlers)\<lparr>te_free_client_cbs := (\<lambda>mid code.
    coap_free_transactions_by_endpoint (\<lambda>mid code. on_app (h_client_cbs example_handlers mid code)) (msg_endpoint example_secured) OC_CONNECTION_CLOSED)\<rparr>"
  have facts: "tx_blocks ?s 1 = Some example_transaction" "tr_message example_transaction = Some 2" "tx_messages ?s 2 = Some example_secured"
    by (simp_all add: example_transactions_def example_transaction_def)
  have "coap_send_transaction ?env 0 1 (?s\<lparr>tx_blocks := (tx_blocks ?s)(1 \<mapsto> example_transaction\<lparr>tr_retrans_counter := COAP_MAX_RETRANSMIT\<rparr>)\<rparr>) = None"
    by (rule timeout_handler_closes [OF example_secured_inv facts example_secured_con, where h = example_handlers])
      (simp_all add: stack_env_def example_secured_def)
  moreover have "?s\<lparr>tx_blocks := (tx_blocks ?s)(1 \<mapsto> example_transaction\<lparr>tr_retrans_counter := COAP_MAX_RETRANSMIT\<rparr>)\<rparr> =
      example_transactions\<lparr>tx_messages := [2 \<mapsto> example_secured], tx_blocks := [1 \<mapsto> example_transaction\<lparr>tr_retrans_counter := COAP_MAX_RETRANSMIT\<rparr>]\<rparr>"
    by (simp add: example_transactions_def)
  ultimately show ?thesis by auto
qed

end
