(* ===== verification/Spec2Isabelle.thy ===== *)
theory Spec2Isabelle
  imports OcList OcMemb OcMmem OcEventQueue OcProcess OcTimer Base64 Uuid CoapRoundTrip
    OcAclStore OcProvisioning OcOnboarding OcBlockwiseBuffers OcQuery OcTransactionSteps
begin

text \<open>
  \<^bold>\<open>A verification library for the core of IoTivity-lite\<close>

  IoTivity-lite is a C implementation of the OCF stack: a CoAP server and client that run on one event
  loop. This library models the layers on which everything else rests, from the sources under \<open>src/\<close>,
  and proves what they promise to their callers.

  \<^bold>\<open>Parts and theories\<close>

  \<^item> \<open>OcPrelude\<close>: byte types \<open>u8\<close> to \<open>u64\<close>, slices and in-place writes of byte lists, shared lemmas on
    lists, words and options.
  \<^item> \<open>OcList\<close> (\<open>util/oc_list.c\<close>): linked lists over an explicit store of nodes with next pointers; loops
    that follow pointers have a bound and the refinement theorem shows that on acyclic lists all of
    them return.
  \<^item> \<open>OcMemb\<close> (\<open>util/oc_memb.c\<close>): pools of equal blocks with a use count per block.
  \<^item> \<open>OcMmem\<close> (\<open>util/oc_mmem.c\<close>): the managed pools of bytes, integers and doubles, whose blocks are moved
    together when one is released.
  \<^item> \<open>OcEventQueue\<close> and \<open>OcProcess\<close> (\<open>util/oc_process.c\<close>): the circular queue of events that grows when it
    is full, and the scheduler of protothreads: start, call, exit, poll and delivery of events.
    The bodies of the protothreads are a parameter of the model.
  \<^item> \<open>OcTimer\<close> (\<open>util/oc_timer.c\<close>, \<open>util/oc_etimer.c\<close>): timers on a 64-bit clock and the event timers that post
    to the queue.
  \<^item> \<open>Base64\<close> (\<open>api/oc_base64.c\<close>) and \<open>Uuid\<close> (\<open>api/oc_uuid.c\<close>): the codecs for binary data and identifiers;
    the random numbers of \<open>oc_gen_uuid\<close> are arguments.
  \<^item> \<open>CMemory\<close>: the memory of the CoAP code, a map from block numbers to bytes; a pointer is a block
    with an offset or null. Every load and store outside a block gives \<^term>\<open>None\<close>, so a theorem that a
    function returns \<^term>\<open>Some\<close> says that all its accesses are inside their buffers.
  \<^item> \<open>CoapPacket\<close> (\<open>messaging/coap/options.c\<close>, the accessors of \<open>signal.c\<close>, \<open>coap_internal.h\<close>, \<open>constants.h\<close>):
    the packet record with its bitmap of options and all its getters and setters.
  \<^item> \<open>CoapSerialize\<close>, \<open>CoapParse\<close>, \<open>CoapParseSafety\<close>, \<open>CoapMessage\<close>, \<open>CoapRoundTrip\<close> (\<open>messaging/coap/coap.c\<close>):
    the serializer of options, the parser of options, its memory safety, messages over UDP and TCP,
    and the round trip.

  \<^item> \<open>OcResource\<close> (parts of \<open>api/oc_helpers.c\<close>, \<open>api/oc_resource.c\<close>, \<open>api/oc_core_res.c\<close>, \<open>api/oc_endpoint.c\<close>,
    \<open>include/oc_rep.h\<close>): strings, paths, the classes of core resources, endpoints and decoded
    representations, as the security components use them.
  \<^item> \<open>OcAcl\<close> (\<open>security/oc_ace.c\<close>, \<open>security/oc_acl.c\<close>): access control entries and lists, their update,
    decoding and removal; \<open>OcAclUpdate\<close> states the specification of an update and proves the refinement;
    \<open>OcAclStore\<close> has the encoder and the round trip.
  \<^item> \<open>OcAccess\<close> (\<open>security/oc_acl_util.c\<close>): the decision whether a request is granted; \<open>OcAccessDecision\<close>
    characterises it, \<open>OcProvisioning\<close> composes it with the updates of the list.
  \<^item> \<open>OcDoxm\<close> (\<open>security/oc_doxm.c\<close>) and \<open>OcPstat\<close> (\<open>security/oc_pstat.c\<close>): owner transfer, the onboarding
    states, the transitions between them and the reset of a device; \<open>OcOnboarding\<close> has their theorems.
  \<^item> \<open>OcEventCallback\<close> (\<open>api/oc_event_callback.c\<close>): timed callbacks and periodic observations over the event timers.
  \<^item> \<open>OcBlockwise\<close> (\<open>api/oc_blockwise.c\<close>): the buffers of block-wise transfers, sending and receiving of
    blocks; \<open>OcBlockwiseBuffers\<close> has the invariant of the buffers and their timed release.
  \<^item> \<open>OcQuery\<close> (\<open>api/oc_query.c\<close>): the pairs of a query, the lookups and the iterator.
  \<^item> \<open>OcMessage\<close> (\<open>api/oc_message.c\<close>): message buffers with reference counts.
  \<^item> \<open>OcTransactions\<close> (\<open>messaging/coap/transactions.c\<close>): CoAP transactions; \<open>OcRetransmission\<close> shows what sending,
    checking and releasing do, \<open>OcTransactionSteps\<close> has the state machine and the theorems.

  \<^bold>\<open>How the model corresponds to the code\<close>

  Each operation is a definition with the name of its C function; a structure is a record whose
  fields carry a prefix; helper definitions stand for loops and for parts of long functions, and the
  text before them says which. Output parameters are components of the result. Integers are words
  of their width where the code wraps or masks, and natural numbers where they are sizes; where a
  \<open>size_t\<close> can wrap the reduction is written out. Assertions and undefined accesses are \<^term>\<open>None\<close>.
  Loops are recursive functions with a termination proof, or recursions with a bound (\<open>OcList\<close>,
  \<open>OcTimer\<close>) whose sufficiency is part of the theorems. Build options that change the behaviour are
  fields of \<open>coap_cfg\<close> or separate definitions (static and dynamic allocation).

  The access control lists of all devices with the two pools of blocks are one record, the
  onboarding of all devices another. Where a reset calls other modules (credentials, connections,
  cloud, software update), the call is appended to a sequence of effects in the order of the code,
  and what the security components themselves read back is state. The outcomes of code that is
  outside the model are arguments: random values, the generation of a key pair, the owner transfer
  methods the build supports and the factory presets callback. The search for an unused identifier
  of an entry may run forever; it is a partial function with result \<^term>\<open>None\<close>, and one theorem says
  when it returns.

  Timed callbacks, the event timers and the kernel form one state; the lists of block-wise buffers are the
  application part \<open>k_env\<close> of that kernel, so that an expired callback acts on them. Linked lists of
  these components are sequences of addresses, which is what the theorem on \<open>oc_list\<close> shows. The addresses that
  the allocators return are arguments, together with what is known of a fresh block. Functions that other
  modules register, such as callbacks and response handlers, are fields of an environment record and act on
  the whole state; the loops that call them are partial functions, and the theorems say for which
  environments they return. A message that is handed to the network is in \<open>tx_outbox\<close> until the network
  gives its reference back.

  \<^bold>\<open>What the theorems show\<close>

  \<^item> Lists refine sequences; pools and managed memory keep live blocks apart and their contents intact;
    the event queue refines a list across growth and removal; the scheduler delivers each event as
    documented; timers expire at the right time and each expired timer posts exactly one event.
  \<^item> The codecs have round trips, stay inside their buffers and announce exact sizes.
  \<^item> CoAP options: setters and getters agree and are independent of each other (one locale,
    \<open>option_accessor\<close>, interpreted for each numeric option). The serializer equals the encoding of a
    sorted list of options as RFC 7252 defines it, in the run that computes the size and in the run
    that writes. The parser reads every such encoding back, joins path and query segments in place,
    and on arbitrary bytes returns without writing outside the message.
  \<^item> CoAP messages: a serialized message consists of header, token, options, marker and payload, and
    the parser of its transport yields the packet that was sent. The length field of TCP is a code.
  \<^item> Access control: an update adds exactly the requested grant or finds a matching one, so a list that
    was rebuilt holds exactly the requested grants; the reachable lists are well formed; a stored list
    is read back unchanged. In normal operation a request is granted exactly when an entry names
    the requester, covers the resource and carries a permission of the method; what is never
    granted is stated for every onboarding state. Two locales carry these proofs,
    \<open>stepwise_invariant\<close> and \<open>grant_store\<close>.
  \<^item> Onboarding: requests make only the allowed transitions, ownership changes only in the states
    before onboarding, a reset erases what belongs to the device and nothing of another, and a
    device is operational exactly in normal operation.
  \<^item> Timed callbacks refine a sequence of pairs of callback and data; polling calls every expired one once and
    returns. The locale \<open>polled_callbacks\<close> states what polling needs of the callbacks and is interpreted for the
    buffers of block-wise transfers.
  \<^item> Block-wise transfers: over a network that loses, repeats and reorders blocks the receiver has a prefix of
    the payload, and all of it once the blocks have arrived in order. The buffers are accounted for in all
    reachable states, and those whose lifetime is over are released.
  \<^item> Queries: the lookups answer with the first pair of the reference that splits the query, and the
    iteration reaches every pair with the key once.
  \<^item> Transactions: messages are allocated exactly while they are referenced and have exact reference counts; a
    confirmable message is sent with an interval of two to three seconds, again with doubled intervals, and
    released at the end; checking the timers returns. The locale \<open>transaction_modules\<close> states what the
    transactions need of the modules they call; it is interpreted for handlers that act on the application and
    connections whose closing releases the transactions to their endpoint.
  \<^item> Some theorems describe defects: an option header at the end of a message is read past its end,
    a path that ends with a slash is read past its null byte, an option with the version of the
    content format can get a wrong number, the variant bits of a generated UUID are wrong, a grant
    for a role of one authority can be merged into one for all authorities, a failed replacement
    loses an entry, a scheduled reset opens the provisioning status to every unsecured request, a
    reset without key pair leaves an erased device operational, the position of the next pair of a query can be
    relative to the pair, and a response handler that closes its connection at a timeout makes the code read a
    released transaction.

  \<^bold>\<open>Not modelled\<close>

  Builds with \<open>OC_OSCORE\<close>; the TLS layer and certificates, which are glue over mbedTLS; the parsing of
  credentials; the onboarding tool; the CBOR representation layer over tinycbor; storage on files; the GET
  handlers of the security resources with their encoders, apart from the one of the access control
  list, and the delayed answers to multicast requests; sockets, threads and files of the ports; the
  request layers (\<open>api/oc_ri.c\<close>, \<open>messaging/coap/engine.c\<close>, \<open>messaging/coap/observe.c\<close>), which dispatch to handlers of
  the application over all other parts; cloud and provisioning clients, and the sample applications. Debug output has no effect on the state and is left out.
\<close>

end
